(* ===== verification/Sigil_Prelude.thy ===== *)
theory Sigil_Prelude
  imports Main "HOL-Library.Word" "HOL-Library.List_Lexorder" "HOL-Library.Char_ord"
    "HOL-Library.Sublist" "HOL-Library.Multiset"
begin

text \<open>
  Shared vocabulary of the development: the error type of \<open>sigil-core\<close>, the \<open>Result\<close>
  plumbing (\<open>?\<close> and \<open>collect::<Result<Vec<_>>>\<close>), the pieces of the Rust standard library
  the crates use on strings, vectors, ordered maps and machine integers, and the generic
  lemmas about them.

  Strings are HOL strings, one \<open>char\<close> per character of ASCII text; on such text Rust's
  \<open>to_lowercase\<close>, \<open>trim\<close> and \<open>split_whitespace\<close> are the functions below, and byte offsets
  and character offsets agree. A \<open>BTreeMap\<close> is an association list with strictly
  ascending keys, a \<open>HashMap\<close> an association list in some unspecified order.
  Rust's \<open>i64\<close> arithmetic in a release build wraps: \<open>wrap64\<close> is applied wherever
  a result of the code can leave the range.
\<close>

named_theorems sigil_defs \<open>definitions of the operations, unfolded together in evaluations\<close>
named_theorems text_simps \<open>characterisations of the string operations\<close>

section \<open>Results\<close>

datatype error =
    Parse string
  | Schema string
  | Config string
  | Io string
  | Backend string
  | Other string

type_synonym 'a result = "error + 'a"

fun error_display :: "error \<Rightarrow> string" where
  "error_display (Parse m) = ''parse error: '' @ m"
| "error_display (Schema m) = ''schema error: '' @ m"
| "error_display (Config m) = ''config error: '' @ m"
| "error_display (Io m) = ''io error: '' @ m"
| "error_display (Backend m) = ''backend error: '' @ m"
| "error_display (Other m) = m"

text \<open>The \<open>?\<close> operator: stop at the first error.\<close>

fun and_then :: "'e + 'a \<Rightarrow> ('a \<Rightarrow> 'e + 'b) \<Rightarrow> 'e + 'b" where
  "and_then (Inl e) f = Inl e"
| "and_then (Inr x) f = f x"

text \<open>\<open>iter.map(f).collect::<Result<Vec<_>>>()\<close>: all results, or the first error.\<close>

fun collect_results :: "('a \<Rightarrow> 'e + 'b) \<Rightarrow> 'a list \<Rightarrow> 'e + 'b list" where
  "collect_results f [] = Inr []"
| "collect_results f (x # xs) =
     and_then (f x) (\<lambda>y. and_then (collect_results f xs) (\<lambda>ys. Inr (y # ys)))"

text \<open>What opening a file for reading gives: no such file, another error, or its text.\<close>

datatype file_view = NotFound | Denied string | Content string

lemma and_then_Inr_iff: "and_then r f = Inr y \<longleftrightarrow> (\<exists>x. r = Inr x \<and> f x = Inr y)"
  by (cases r) auto

lemma collect_results_Inr_iff:
  "collect_results f xs = Inr ys \<longleftrightarrow> list_all2 (\<lambda>x y. f x = Inr y) xs ys"
proof (induction xs arbitrary: ys)
  case Nil
  then show ?case by auto
next
  case (Cons x xs)
  then show ?case by (cases ys) (auto simp: and_then_Inr_iff)
qed

lemma collect_results_map: "collect_results (\<lambda>x. Inr (f x)) xs = Inr (map f xs)"
  by (induction xs) auto

section \<open>Machine integers\<close>

type_synonym u8 = "8 word"
type_synonym u32 = "32 word"
type_synonym u64 = "64 word"

text \<open>\<open>i64\<close> values are HOL integers in this range.\<close>

definition i64_range :: "int set" where
  "i64_range = {-(2 ^ 63) ..< 2 ^ 63}"

definition wrap64 :: "int \<Rightarrow> int" where
  "wrap64 x = (x + 2 ^ 63) mod 2 ^ 64 - 2 ^ 63"

lemma wrap64_range: "wrap64 x \<in> i64_range"
  by (auto simp: wrap64_def i64_range_def)

lemma wrap64_id: "x \<in> i64_range \<Longrightarrow> wrap64 x = x"
  by (auto simp: wrap64_def i64_range_def)

section \<open>Characters and strings\<close>

definition lower_char :: "char \<Rightarrow> char" where
  "lower_char c = (let n = of_char c :: nat in if 65 \<le> n \<and> n \<le> 90 then char_of (n + 32) else c)"

definition upper_char :: "char \<Rightarrow> char" where
  "upper_char c = (let n = of_char c :: nat in if 97 \<le> n \<and> n \<le> 122 then char_of (n - 32) else c)"

definition to_lowercase :: "string \<Rightarrow> string" where
  "to_lowercase s = map lower_char s"

definition to_uppercase :: "string \<Rightarrow> string" where
  "to_uppercase s = map upper_char s"

definition eq_ignore_ascii_case :: "string \<Rightarrow> string \<Rightarrow> bool" where
  "eq_ignore_ascii_case s t \<longleftrightarrow> to_lowercase s = to_lowercase t"

definition is_digit :: "char \<Rightarrow> bool" where
  "is_digit c \<longleftrightarrow> (let n = of_char c :: nat in 48 \<le> n \<and> n \<le> 57)"

definition is_alnum :: "char \<Rightarrow> bool" where
  "is_alnum c \<longleftrightarrow> (let n = of_char c :: nat in
     (48 \<le> n \<and> n \<le> 57) \<or> (65 \<le> n \<and> n \<le> 90) \<or> (97 \<le> n \<and> n \<le> 122))"

text \<open>The ASCII members of \<open>White_Space\<close>: tab, LF, VT, FF, CR and space.\<close>

definition is_space :: "char \<Rightarrow> bool" where
  "is_space c \<longleftrightarrow> (let n = of_char c :: nat in (9 \<le> n \<and> n \<le> 13) \<or> n = 32)"

definition trim_start :: "string \<Rightarrow> string" where
  "trim_start s = dropWhile is_space s"

definition trim_end :: "string \<Rightarrow> string" where
  "trim_end s = rev (dropWhile is_space (rev s))"

definition trim :: "string \<Rightarrow> string" where
  "trim s = trim_end (trim_start s)"

definition strip_prefix :: "string \<Rightarrow> string \<Rightarrow> string option" where
  "strip_prefix p s = (if prefix p s then Some (drop (length p) s) else None)"

definition strip_suffix :: "string \<Rightarrow> string \<Rightarrow> string option" where
  "strip_suffix p s = (if suffix p s then Some (take (length s - length p) s) else None)"

text \<open>\<open>str::find\<close>: the offset of the first occurrence.\<close>

fun find_str :: "string \<Rightarrow> string \<Rightarrow> nat option" where
  "find_str p [] = (if p = [] then Some 0 else None)"
| "find_str p (c # s) = (if prefix p (c # s) then Some 0 else map_option Suc (find_str p s))"

text \<open>\<open>str::contains\<close>.\<close>

definition contains :: "string \<Rightarrow> string \<Rightarrow> bool" where
  "contains s p \<longleftrightarrow> find_str p s \<noteq> None"

text \<open>\<open>str::split(c)\<close>: always at least one piece.\<close>

fun split_char :: "char \<Rightarrow> string \<Rightarrow> string list" where
  "split_char d [] = [[]]"
| "split_char d (c # s) =
     (if c = d then [] # split_char d s
      else case split_char d s of [] \<Rightarrow> [[c]] | w # ws \<Rightarrow> (c # w) # ws)"

text \<open>\<open>str::splitn(n, c)\<close> for \<open>n > 0\<close>: at most \<open>n\<close> pieces, the last one unsplit.\<close>

fun splitn_char :: "nat \<Rightarrow> char \<Rightarrow> string \<Rightarrow> string list" where
  "splitn_char 0 d s = []"
| "splitn_char (Suc 0) d s = [s]"
| "splitn_char (Suc (Suc n)) d s =
     (let (w, r) = (takeWhile (\<lambda>c. c \<noteq> d) s, dropWhile (\<lambda>c. c \<noteq> d) s)
      in if r = [] then [w] else w # splitn_char (Suc n) d (tl r))"

text \<open>\<open>str::split_once\<close>.\<close>

definition split_once :: "string \<Rightarrow> string \<Rightarrow> (string \<times> string) option" where
  "split_once p s = map_option (\<lambda>i. (take i s, drop (i + length p) s)) (find_str p s)"

text \<open>\<open>str::split_whitespace\<close>: the maximal runs of non-space characters.\<close>

fun split_ws_acc :: "string \<Rightarrow> string \<Rightarrow> string list" where
  "split_ws_acc w [] = (if w = [] then [] else [w])"
| "split_ws_acc w (c # s) =
     (if is_space c then (if w = [] then [] else [w]) @ split_ws_acc [] s
      else split_ws_acc (w @ [c]) s)"

definition split_whitespace :: "string \<Rightarrow> string list" where
  "split_whitespace s = split_ws_acc [] s"

text \<open>\<open>str::replace\<close> of one character by a string, and \<open>[_]::join\<close>.\<close>

definition replace_char :: "char \<Rightarrow> string \<Rightarrow> string \<Rightarrow> string" where
  "replace_char d r s = concat (map (\<lambda>c. if c = d then r else [c]) s)"

fun join :: "string \<Rightarrow> string list \<Rightarrow> string" where
  "join sep [] = []"
| "join sep [w] = w"
| "join sep (w # v # ws) = w @ sep @ join sep (v # ws)"

definition trim_end_matches :: "char \<Rightarrow> string \<Rightarrow> string" where
  "trim_end_matches c s = rev (dropWhile (\<lambda>x. x = c) (rev s))"

text \<open>\<open>str::replace\<close> of a non-empty pattern, and \<open>str::lines\<close>.\<close>

fun replace_skip :: "nat \<Rightarrow> string \<Rightarrow> string \<Rightarrow> string \<Rightarrow> string" where
  "replace_skip k p r [] = []"
| "replace_skip (Suc k) p r (c # s) = replace_skip k p r s"
| "replace_skip 0 p r (c # s) =
     (if prefix p (c # s) then r @ replace_skip (length p - 1) p r s else c # replace_skip 0 p r s)"

definition replace_str :: "string \<Rightarrow> string \<Rightarrow> string \<Rightarrow> string" where
  "replace_str p r s = replace_skip 0 p r s"

definition text_lines :: "string \<Rightarrow> string list" where
  "text_lines s =
     (let ps = split_char (char_of (10 :: nat)) s;
          cr = (\<lambda>l. if l \<noteq> [] \<and> last l = char_of (13 :: nat) then butlast l else l)
      in map cr (butlast ps) @ (if last ps = [] then [] else [last ps]))"

text \<open>Decimal digits of a string, most significant first.\<close>

definition digit_val :: "char \<Rightarrow> nat" where
  "digit_val c = of_char c - 48"

definition decimal :: "string \<Rightarrow> nat" where
  "decimal ds = foldl (\<lambda>n c. 10 * n + digit_val c) 0 ds"

text \<open>\<open>str::parse\<close> for an unsigned type with largest value \<open>m\<close>: an optional \<open>+\<close>,
  then at least one digit, and no overflow.\<close>

definition parse_unsigned :: "nat \<Rightarrow> string \<Rightarrow> nat option" where
  "parse_unsigned m s =
     (let ds = (case s of c # r \<Rightarrow> if c = CHR ''+'' then r else s | [] \<Rightarrow> [])
      in if ds \<noteq> [] \<and> list_all is_digit ds \<and> decimal ds \<le> m then Some (decimal ds) else None)"

text \<open>\<open>str::parse::<i64>\<close>.\<close>

definition parse_i64 :: "string \<Rightarrow> int option" where
  "parse_i64 s =
     (case s of
        [] \<Rightarrow> None
      | c # r \<Rightarrow>
          if c = CHR ''-'' then
            (if r \<noteq> [] \<and> list_all is_digit r \<and> decimal r \<le> 2 ^ 63 then Some (- int (decimal r)) else None)
          else map_option int (parse_unsigned (2 ^ 63 - 1) s))"

definition usize_max :: nat where
  "usize_max = 2 ^ 64 - 1"

text \<open>\<open>format!("{n}")\<close> for an unsigned number.\<close>

fun show_nat_acc :: "nat \<Rightarrow> string \<Rightarrow> string" where
  "show_nat_acc n acc =
     (let acc' = char_of (48 + n mod 10) # acc
      in if n < 10 then acc' else show_nat_acc (n div 10) acc')"

declare show_nat_acc.simps [simp del]

definition show_nat :: "nat \<Rightarrow> string" where
  "show_nat n = show_nat_acc n []"

text \<open>Hexadecimal digits, printed in lower case and read in either.\<close>

definition hex_digit :: "nat \<Rightarrow> char" where
  "hex_digit d = (if d < 10 then char_of (d + 48) else char_of (d + 87))"

definition hex_val :: "char \<Rightarrow> nat option" where
  "hex_val c =
     (let n = of_char c :: nat
      in if 48 \<le> n \<and> n \<le> 57 then Some (n - 48)
         else if 65 \<le> n \<and> n \<le> 70 then Some (n - 55)
         else if 97 \<le> n \<and> n \<le> 102 then Some (n - 87)
         else None)"

text \<open>\<open>format!("{:016x}")\<close>: sixteen lowercase hexadecimal digits.\<close>

definition hex16 :: "u64 \<Rightarrow> string" where
  "hex16 w = map (\<lambda>i. hex_digit (unat w div 16 ^ (15 - i) mod 16)) [0 ..< 16]"

lemma hex_digit_val: "d < 16 \<Longrightarrow> hex_val (hex_digit d) = Some d"
  by (auto simp: hex_digit_def hex_val_def Let_def)

section \<open>Lemmas on characters\<close>

lemma lower_char_idem [simp]: "lower_char (lower_char c) = lower_char c"
  by (simp add: lower_char_def Let_def)

lemma lower_char_nonletter:
  assumes "lower_char c = d" and "\<not> (97 \<le> (of_char d :: nat) \<and> (of_char d :: nat) \<le> 122)"
  shows "c = d"
proof (rule ccontr)
  assume "c \<noteq> d"
  then have n: "65 \<le> (of_char c :: nat)" "(of_char c :: nat) \<le> 90" "d = char_of (of_char c + 32 :: nat)"
    using assms(1) by (auto simp: lower_char_def Let_def split: if_splits)
  then have "(of_char d :: nat) = of_char c + 32" by simp
  with n assms(2) show False by linarith
qed

lemma to_lowercase_single:
  assumes "to_lowercase s = [d]" and "\<not> (97 \<le> (of_char d :: nat) \<and> (of_char d :: nat) \<le> 122)"
  shows "s = [d]"
  using assms lower_char_nonletter [OF _ assms(2)] by (cases s) (auto simp: to_lowercase_def)

lemma to_lowercase_idem [simp]: "to_lowercase (to_lowercase s) = to_lowercase s"
  by (simp add: to_lowercase_def)

lemma to_lowercase_append [simp]: "to_lowercase (s @ t) = to_lowercase s @ to_lowercase t"
  by (simp add: to_lowercase_def)

lemma to_lowercase_Nil [simp]: "to_lowercase [] = []" "to_lowercase s = [] \<longleftrightarrow> s = []"
  by (simp_all add: to_lowercase_def)

lemma length_to_lowercase [simp]: "length (to_lowercase s) = length s"
  by (simp add: to_lowercase_def)

lemma eq_ignore_ascii_case_refl [simp]: "eq_ignore_ascii_case s s"
  by (simp add: eq_ignore_ascii_case_def)

section \<open>Lemmas on strings\<close>

lemma find_str_Some:
  "find_str p s = Some i \<Longrightarrow> i + length p \<le> length s \<and> take (length p) (drop i s) = p"
proof (induction p s arbitrary: i rule: find_str.induct)
  case (1 p)
  then show ?case by (auto split: if_splits)
next
  case (2 p c s)
  show ?case
  proof (cases "prefix p (c # s)")
    case True
    with 2 show ?thesis using prefix_length_le [OF True] by (auto simp: prefix_def)
  next
    case False
    with 2 show ?thesis by auto
  qed
qed

lemma find_str_decomp:
  assumes "find_str p s = Some i"
  shows "s = take i s @ p @ drop (i + length p) s"
proof -
  from find_str_Some [OF assms] have t: "take (length p) (drop i s) = p" by simp
  have "s = take i s @ take (length p) (drop i s) @ drop (length p) (drop i s)"
    by (simp only: append_take_drop_id)
  with t show ?thesis by (simp add: add.commute)
qed

lemma find_str_None: "find_str p s = None \<Longrightarrow> s \<noteq> u @ p @ v"
proof (induction s arbitrary: u)
  case Nil
  then show ?case by (auto split: if_splits)
next
  case (Cons c s)
  show ?case
  proof (cases u)
    case Nil
    with Cons.prems show ?thesis by (auto split: if_splits simp: prefix_def)
  next
    case (Cons d u')
    with Cons.prems Cons.IH [of u'] show ?thesis by (auto split: if_splits)
  qed
qed

lemma contains_iff_sublist [text_simps]: "contains s p \<longleftrightarrow> sublist p s"
proof
  assume "contains s p"
  then obtain i where "find_str p s = Some i" by (auto simp: contains_def)
  then show "sublist p s" using find_str_decomp unfolding sublist_def by blast
next
  assume "sublist p s"
  then obtain u v where "s = u @ p @ v" by (auto simp: sublist_def)
  then show "contains s p" using find_str_None [of p s u v] by (auto simp: contains_def)
qed

lemma split_once_Some:
  assumes "split_once p s = Some (a, b)"
  shows "s = a @ p @ b"
proof -
  from assms obtain i where i: "find_str p s = Some i" and "a = take i s"
    and "b = drop (i + length p) s"
    by (auto simp: split_once_def)
  then show ?thesis using find_str_decomp [OF i] by simp
qed

lemma replace_skip_drop: "replace_skip k p r s = replace_str p r (drop k s)"
proof (induction k arbitrary: s)
  case 0
  then show ?case by (simp add: replace_str_def)
next
  case (Suc k)
  then show ?case by (cases s) (simp_all add: replace_str_def)
qed

lemma replace_str_simps:
  "replace_str p r [] = []"
  "p \<noteq> [] \<Longrightarrow> replace_str p r (c # s) =
     (if prefix p (c # s) then r @ replace_str p r (drop (length p) (c # s)) else c # replace_str p r s)"
proof -
  show "replace_str p r [] = []" by (simp add: replace_str_def)
  assume "p \<noteq> []"
  then have "drop (length p) (c # s) = drop (length p - 1) s" by (cases p) auto
  then show "replace_str p r (c # s) =
     (if prefix p (c # s) then r @ replace_str p r (drop (length p) (c # s)) else c # replace_str p r s)"
    using replace_skip_drop [of "length p - 1" p r s] by (simp add: replace_str_def)
qed

text \<open>
  Patterns that start with a character they do not repeat: a replacement that starts with the same
  character and does not begin like \<open>q\<close> leaves no occurrence of \<open>q\<close> that was not there before, and
  none of the pattern.
\<close>

lemma prefix_replace_str:
  assumes "p = h # p'" "r = h # r'" and "h \<notin> set q" and "prefix q (replace_str p r s)"
  shows "prefix q s"
  using assms(3,4)
proof (induction q arbitrary: s)
  case Nil
  then show ?case by simp
next
  case (Cons a q)
  then obtain c s' where s: "s = c # s'" by (cases s) (auto simp: replace_str_simps)
  show ?case
  proof (cases "prefix p s")
    case True
    with Cons.prems s assms(1,2) show ?thesis by (simp add: replace_str_simps)
  next
    case False
    with Cons.prems s assms(1) have "a = c" "prefix q (replace_str p r s')" by (auto simp: replace_str_simps)
    with Cons.IH [of s'] Cons.prems s show ?thesis by simp
  qed
qed

lemma replace_str_removes:
  assumes p: "p = h # p'" "h \<notin> set p'" and r: "r = h # r'" "h \<notin> set r'" and q: "q = h # q'" "h \<notin> set q'"
    and ne: "\<And>x. \<not> prefix q (r @ x)" and "\<not> sublist q s \<or> q = p"
  shows "\<not> sublist q (replace_str p r s)"
  using assms(8)
proof (induction "length s" arbitrary: s rule: less_induct)
  case less
  show ?case
  proof (cases s)
    case Nil
    with q show ?thesis by (simp add: replace_str_simps)
  next
    case (Cons c s')
    have p0: "p \<noteq> []" using p by simp
    have tail: "\<not> sublist q t \<or> q = p" if "suffix t s" for t
      using less.prems that by (meson sublist_order.order.trans suffix_imp_sublist)
    show ?thesis
    proof (cases "prefix p s")
      case True
      let ?t = "drop (length p) s"
      have len: "length ?t < length s" using p0 Cons by simp
      have ih: "\<not> sublist q (replace_str p r ?t)" using less.hyps [OF len] tail [of ?t] by (simp add: suffix_drop)
      have "\<not> sublist q (u @ replace_str p r ?t)" if "h \<notin> set u" for u
        using that ih q(1) by (induction u) (auto simp: sublist_Cons_right)
      with r(2) have "\<not> sublist q (r' @ replace_str p r ?t)" by blast
      then have "\<not> sublist q (r @ replace_str p r ?t)" using ne r(1) by (auto simp: sublist_Cons_right)
      with True Cons p0 show ?thesis by (simp add: replace_str_simps)
    next
      case False
      have "\<not> sublist q (replace_str p r s')" using less.hyps [of s'] tail [of s'] Cons by (simp add: suffix_Cons)
      moreover have "\<not> prefix q (c # replace_str p r s')"
      proof
        assume a: "prefix q (c # replace_str p r s')"
        then have "c = h" "prefix q' (replace_str p r s')" using q(1) by auto
        with prefix_replace_str [OF p(1) r(1) q(2)] have "prefix q s" using Cons q(1) by auto
        with less.prems False show False by (auto simp: prefix_imp_sublist)
      qed
      ultimately show ?thesis using False Cons p0 by (simp add: replace_str_simps sublist_Cons_right)
    qed
  qed
qed

lemma split_char_not_Nil [simp]: "split_char d s \<noteq> []"
  by (induction s) (auto split: list.splits)

lemma join_Cons: "ws \<noteq> [] \<Longrightarrow> join sep (w # ws) = w @ sep @ join sep ws"
  by (cases ws) auto

lemma join_split_char: "join [d] (split_char d s) = s"
proof (induction s)
  case Nil
  then show ?case by simp
next
  case (Cons c s)
  obtain w ws where ws: "split_char d s = w # ws" by (cases "split_char d s") auto
  have "join [d] ((c # w) # ws) = c # join [d] (w # ws)" by (cases ws) auto
  with Cons.IH ws show ?case by (auto simp: join_Cons)
qed

lemma split_char_no_sep: "d \<notin> set s \<Longrightarrow> split_char d s = [s]"
  by (induction s) auto

lemma split_char_append:
  "d \<notin> set w \<Longrightarrow> split_char d (w @ d # s) = w # split_char d s"
  by (induction w) (auto split: list.splits)

lemma split_char_pieces: "w \<in> set (split_char d s) \<Longrightarrow> d \<notin> set w"
proof (induction s arbitrary: w)
  case Nil
  then show ?case by simp
next
  case (Cons c s)
  then show ?case by (auto split: if_splits list.splits)
qed

lemma trim_start_noop [simp]: "s = [] \<or> \<not> is_space (hd s) \<Longrightarrow> trim_start s = s"
  by (cases s) (auto simp: trim_start_def)

lemma trim_end_noop [simp]: "s = [] \<or> \<not> is_space (last s) \<Longrightarrow> trim_end s = s"
  by (cases s rule: rev_cases) (auto simp: trim_end_def)

lemma trim_noop: "s = [] \<or> (\<not> is_space (hd s) \<and> \<not> is_space (last s)) \<Longrightarrow> trim s = s"
  by (auto simp: trim_def)

subsection \<open>Words separated by white space\<close>

definition is_word :: "string \<Rightarrow> bool" where
  "is_word w \<longleftrightarrow> w \<noteq> [] \<and> list_all (\<lambda>c. \<not> is_space c) w"

lemma split_ws_acc_word:
  "list_all (\<lambda>c. \<not> is_space c) w \<Longrightarrow> split_ws_acc u (w @ s) = split_ws_acc (u @ w) s"
  by (induction w arbitrary: u) auto

lemma split_whitespace_word_Cons:
  assumes "is_word w" and "is_space c"
  shows "split_whitespace (w @ c # s) = w # split_whitespace s"
  using assms by (simp add: split_whitespace_def is_word_def split_ws_acc_word)

lemma split_whitespace_word: "is_word w \<Longrightarrow> split_whitespace w = [w]"
  using split_ws_acc_word [of w "[]" "[]"] by (simp add: split_whitespace_def is_word_def)

lemma split_whitespace_space [simp]: "is_space c \<Longrightarrow> split_whitespace (c # s) = split_whitespace s"
  by (simp add: split_whitespace_def)

lemma is_space_blank [simp]: "is_space CHR '' ''"
  by (simp add: is_space_def)

lemma split_ws_acc_append:
  "is_space c \<Longrightarrow> split_ws_acc w (s @ c # t) = split_ws_acc w s @ split_ws_acc [] t"
  by (induction w s rule: split_ws_acc.induct) auto

lemma split_whitespace_append:
  "is_space c \<Longrightarrow> split_whitespace (s @ c # t) = split_whitespace s @ split_whitespace t"
  by (simp add: split_whitespace_def split_ws_acc_append)

lemma split_whitespace_join:
  "list_all is_word ws \<Longrightarrow> split_whitespace (join '' '' ws) = ws"
proof (induction ws rule: induct_list012)
  case 1
  then show ?case by (simp add: split_whitespace_def)
next
  case (2 w)
  then show ?case by (simp add: split_whitespace_word)
next
  case (3 w v ws)
  then show ?case by (simp add: split_whitespace_word_Cons)
qed

lemma split_ws_acc_words:
  "list_all (\<lambda>c. \<not> is_space c) u \<Longrightarrow> list_all is_word (split_ws_acc u s)"
  by (induction u s rule: split_ws_acc.induct) (auto simp: is_word_def)

lemma split_whitespace_words: "list_all is_word (split_whitespace s)"
  unfolding split_whitespace_def by (rule split_ws_acc_words) simp

subsection \<open>Decimal rendering\<close>

lemma is_digit_char_of: "n < 10 \<Longrightarrow> is_digit (char_of (48 + n :: nat))"
  by (simp add: is_digit_def Let_def)

lemma digit_val_char_of: "n < 10 \<Longrightarrow> digit_val (char_of (48 + n :: nat)) = n"
  by (simp add: digit_val_def)

lemma decimal_append: "decimal (s @ t) = foldl (\<lambda>n c. 10 * n + digit_val c) (decimal s) t"
  by (simp add: decimal_def)

lemma decimal_snoc [simp]: "decimal (s @ [c]) = 10 * decimal s + digit_val c"
  by (simp add: decimal_append)

lemma show_nat_acc_append: "show_nat_acc n acc = show_nat_acc n [] @ acc"
proof (induction n arbitrary: acc rule: less_induct)
  case (less n)
  show ?case
  proof (cases "n < 10")
    case True
    then show ?thesis by (simp add: show_nat_acc.simps [of n] Let_def)
  next
    case False
    then have lt: "n div 10 < n" by simp
    from False show ?thesis
      using less.IH [OF lt, of "char_of (48 + n mod 10) # acc"]
        less.IH [OF lt, of "[char_of (48 + n mod 10)]"]
      by (simp add: show_nat_acc.simps [of n] Let_def)
  qed
qed

lemma show_nat_rec:
  "show_nat n = (if n < 10 then [char_of (48 + n)]
                 else show_nat (n div 10) @ [char_of (48 + n mod 10)])"
  using show_nat_acc_append [of "n div 10" "[char_of (48 + n mod 10)]"]
  by (simp add: show_nat_def show_nat_acc.simps [of n] Let_def)

lemma show_nat_digits: "list_all is_digit (show_nat n)"
proof (induction n rule: less_induct)
  case (less n)
  then show ?case
    by (subst show_nat_rec) (auto simp: is_digit_char_of)
qed

lemma show_nat_not_Nil [simp]: "show_nat n \<noteq> []"
  by (subst show_nat_rec) auto

lemma decimal_show_nat [simp]: "decimal (show_nat n) = n"
proof (induction n rule: less_induct)
  case (less n)
  then show ?case
    by (subst show_nat_rec) (auto simp: decimal_def digit_val_char_of [unfolded digit_val_def]
        digit_val_def)
qed

lemma is_digit_not_space: "is_digit c \<Longrightarrow> \<not> is_space c"
  by (auto simp: is_digit_def is_space_def Let_def)

lemma is_digit_not_plus: "is_digit c \<Longrightarrow> c \<noteq> CHR ''+''"
  by (auto simp: is_digit_def Let_def)

lemma parse_unsigned_show_nat: "n \<le> m \<Longrightarrow> parse_unsigned m (show_nat n) = Some n"
proof -
  assume n: "n \<le> m"
  obtain c r where cr: "show_nat n = c # r" by (cases "show_nat n") auto
  have d: "list_all is_digit (c # r)" using show_nat_digits [of n] cr by simp
  then have "c \<noteq> CHR ''+''" by (simp add: is_digit_not_plus)
  then show ?thesis
    using n d cr decimal_show_nat [of n] by (simp add: parse_unsigned_def Let_def)
qed

lemma parse_unsigned_le: "parse_unsigned m s = Some n \<Longrightarrow> n \<le> m"
  by (auto simp: parse_unsigned_def Let_def split: if_splits)

section \<open>Ordered maps\<close>

text \<open>\<open>BTreeMap\<close>: an association list with strictly ascending keys.\<close>

definition btree_wf :: "('k::linorder \<times> 'v) list \<Rightarrow> bool" where
  "btree_wf m \<longleftrightarrow> sorted_wrt (<) (map fst m)"

fun btree_insert :: "'k::linorder \<Rightarrow> 'v \<Rightarrow> ('k \<times> 'v) list \<Rightarrow> ('k \<times> 'v) list" where
  "btree_insert k v [] = [(k, v)]"
| "btree_insert k v ((k', v') # m) =
     (if k < k' then (k, v) # (k', v') # m
      else if k = k' then (k, v) # m
      else (k', v') # btree_insert k v m)"

lemma fst_btree_insert [simp]: "fst ` set (btree_insert k v m) = insert k (fst ` set m)"
  by (induction k v m rule: btree_insert.induct) auto

lemma btree_insert_wf [intro]: "btree_wf m \<Longrightarrow> btree_wf (btree_insert k v m)"
proof (induction k v m rule: btree_insert.induct)
  case (1 k v)
  then show ?case by (simp add: btree_wf_def)
next
  case (2 k v k' v' m)
  have wf: "btree_wf ((a, b) # n) \<longleftrightarrow> (\<forall>x \<in> fst ` set n. a < x) \<and> btree_wf n" for a b n
    by (simp add: btree_wf_def)
  from 2 show ?case by (simp add: wf) (meson dual_order.strict_trans linorder_neqE)
qed

lemma btree_wf_Nil [simp, intro]: "btree_wf []"
  by (simp add: btree_wf_def)

lemma map_of_btree_insert: "map_of (btree_insert k v m) = (map_of m)(k \<mapsto> v)"
  by (induction k v m rule: btree_insert.induct) (auto simp: fun_eq_iff)

lemma btree_wf_distinct: "btree_wf m \<Longrightarrow> distinct (map fst m)"
  by (auto simp: btree_wf_def strict_sorted_iff)

section \<open>Association lists\<close>

text \<open>\<open>HashMap::insert\<close> on an association list with distinct keys: replace in place or
  add at the end. The position models the unspecified iteration order.\<close>

fun hash_insert :: "'k \<Rightarrow> 'v \<Rightarrow> ('k \<times> 'v) list \<Rightarrow> ('k \<times> 'v) list" where
  "hash_insert k v [] = [(k, v)]"
| "hash_insert k v ((k', v') # m) =
     (if k = k' then (k, v) # m else (k', v') # hash_insert k v m)"

lemma map_of_hash_insert: "map_of (hash_insert k v m) = (map_of m)(k \<mapsto> v)"
  by (induction m) (auto simp: fun_eq_iff)

lemma fst_hash_insert [simp]: "fst ` set (hash_insert k v m) = insert k (fst ` set m)"
proof (induction m)
  case Nil
  then show ?case by simp
next
  case (Cons p m)
  then show ?case by (cases p) (simp add: insert_commute)
qed

lemma distinct_hash_insert: "distinct (map fst m) \<Longrightarrow> distinct (map fst (hash_insert k v m))"
proof (induction m)
  case Nil
  then show ?case by simp
next
  case (Cons p m)
  then show ?case by (cases p) simp
qed

text \<open>The first occurrence of a separator splits uniquely.\<close>

lemma sep_split_inj:
  "c \<notin> set a \<Longrightarrow> c \<notin> set b \<Longrightarrow> a @ c # x = b @ c # y \<longleftrightarrow> a = b \<and> x = y"
proof (induction a arbitrary: b)
  case Nil
  then show ?case by (cases b) auto
next
  case (Cons d a)
  then show ?case by (cases b) auto
qed

section \<open>Sorting\<close>

text \<open>\<open>sort_by_key(|x| Reverse(f x))\<close>: a stable sort by descending key.\<close>

definition sort_desc :: "('a \<Rightarrow> int) \<Rightarrow> 'a list \<Rightarrow> 'a list" where
  "sort_desc f xs = sort_key (\<lambda>x. - f x) xs"

lemma mset_sort_desc [simp]: "mset (sort_desc f xs) = mset xs"
  by (simp add: sort_desc_def)

lemma set_sort_desc [simp]: "set (sort_desc f xs) = set xs"
  by (simp add: sort_desc_def)

lemma length_sort_desc [simp]: "length (sort_desc f xs) = length xs"
  by (simp add: sort_desc_def)

lemma sorted_sort_desc: "sorted_wrt (\<lambda>x y. f x \<ge> f y) (sort_desc f xs)"
proof -
  have "sorted (map (\<lambda>x. - f x) (sort_desc f xs))"
    unfolding sort_desc_def by (rule sorted_sort_key)
  then show ?thesis by (simp add: sorted_wrt_map)
qed

lemma take_sorted_wrt: "sorted_wrt P xs \<Longrightarrow> sorted_wrt P (take n xs)"
  by (metis append_take_drop_id sorted_wrt_append)

text \<open>What a truncated sorted list leaves out is below everything it keeps.\<close>

lemma take_sort_desc_top:
  assumes "x \<in> set (take n (sort_desc f xs))" and "y \<in> set (drop n (sort_desc f xs))"
  shows "f x \<ge> f y"
proof -
  have "sorted_wrt (\<lambda>x y. f x \<ge> f y) (take n (sort_desc f xs) @ drop n (sort_desc f xs))"
    using sorted_sort_desc [of f xs] by simp
  then show ?thesis using assms unfolding sorted_wrt_append by blast
qed

lemma length_filter_all: "length (filter P xs) = length xs \<longleftrightarrow> (\<forall>x \<in> set xs. P x)"
proof (induction xs)
  case Nil
  then show ?case by simp
next
  case (Cons x xs)
  have "length (filter P xs) \<noteq> Suc (length xs)" using length_filter_le [of P xs] by linarith
  with Cons show ?case by simp
qed

section \<open>Evaluation\<close>

lemmas string_eval =
  to_lowercase_def to_uppercase_def lower_char_def upper_char_def is_space_def is_digit_def
  is_alnum_def Let_def is_word_def trim_def trim_start_def trim_end_def strip_prefix_def
  strip_suffix_def split_whitespace_def eq_ignore_ascii_case_def contains_def replace_char_def
  parse_unsigned_def parse_i64_def decimal_def digit_val_def split_once_def
  char_of_def bit_iff_odd

section \<open>Largest and smallest elements, removal by swapping\<close>

text \<open>
  \<open>Iterator::max_by\<close> returns the last of the largest elements, \<open>min_by\<close> the first of the smallest.
  \<open>Vec::swap_remove\<close> puts the last element in the place of the removed one.
\<close>

fun max_by_key :: "('a \<Rightarrow> 'f::linorder) \<Rightarrow> 'a list \<Rightarrow> 'a option" where
  "max_by_key f [] = None"
| "max_by_key f (x # xs) =
     (case max_by_key f xs of None \<Rightarrow> Some x | Some y \<Rightarrow> Some (if f x \<le> f y then y else x))"

fun min_by_key :: "('a \<Rightarrow> 'f::linorder) \<Rightarrow> 'a list \<Rightarrow> 'a option" where
  "min_by_key f [] = None"
| "min_by_key f (x # xs) =
     (case min_by_key f xs of None \<Rightarrow> Some x | Some y \<Rightarrow> Some (if f x \<le> f y then x else y))"

definition swap_remove :: "nat \<Rightarrow> 'a list \<Rightarrow> 'a list" where
  "swap_remove i xs = butlast (xs[i := last xs])"

lemma max_by_key_mem: "max_by_key f xs = Some x \<Longrightarrow> x \<in> set xs"
  by (induction xs arbitrary: x) (auto split: option.splits if_splits)

lemma max_by_key_None: "max_by_key f xs = None \<longleftrightarrow> xs = []"
  by (cases xs) (auto split: option.splits)

lemma max_by_key_ge: "max_by_key f xs = Some x \<Longrightarrow> y \<in> set xs \<Longrightarrow> f y \<le> f x"
proof (induction xs arbitrary: x y)
  case (Cons a xs)
  show ?case
  proof (cases "max_by_key f xs")
    case None
    with Cons.prems show ?thesis by (simp add: max_by_key_None)
  next
    case (Some z)
    have "f y \<le> f z \<or> y = a" using Cons.IH [OF Some] Cons.prems(2) by auto
    with Cons.prems(1) Some show ?thesis by (auto split: if_splits)
  qed
qed simp

lemma min_by_key_mem: "min_by_key f xs = Some x \<Longrightarrow> x \<in> set xs"
  by (induction xs arbitrary: x) (auto split: option.splits if_splits)

lemma min_by_key_None: "min_by_key f xs = None \<longleftrightarrow> xs = []"
  by (cases xs) (auto split: option.splits)

lemma mset_swap_remove: "i < length xs \<Longrightarrow> add_mset (xs ! i) (mset (swap_remove i xs)) = mset xs"
proof (cases "i = length xs - 1")
  case True
  assume "i < length xs"
  then have "xs \<noteq> []" by auto
  with True show ?thesis
    by (metis append_butlast_last_id butlast_list_update last_conv_nth mset.simps(2) swap_remove_def
        union_code add_mset_add_single mset_append mset_single_iff)
next
  case False
  assume i: "i < length xs"
  obtain ys z where xs: "xs = ys @ [z]" using i by (cases xs rule: rev_cases) auto
  with False i have "i < length ys" by simp
  then have "swap_remove i xs = ys[i := z]" by (simp add: swap_remove_def xs list_update_append)
  with \<open>i < length ys\<close> show ?thesis by (simp add: xs mset_update nth_append)
qed

lemma length_swap_remove: "i < length xs \<Longrightarrow> length (swap_remove i xs) = length xs - 1"
  by (simp add: swap_remove_def)

lemma set_swap_remove: "i < length xs \<Longrightarrow> set xs = insert (xs ! i) (set (swap_remove i xs))"
  by (metis mset_swap_remove set_mset_add_mset_insert set_mset_mset)

end
