(* ===== verification/Core_Event.thy ===== *)
theory Core_Event
  imports Sigil_Prelude
begin

text \<open>
  The normalized event model of \<open>crates/sigil-core/src/event.rs\<close> and the alert type of
  \<open>plugin.rs\<close>: OCSF classes with their numeric ids, severities, entity references, decoded
  records and normalized events. JSON values are \<open>serde_json::Value\<close>; its textual rendering
  (\<open>Display\<close>) belongs to that crate and is the parameter \<open>sj\<close> of every operation that
  renders a non-string value.
\<close>

section \<open>JSON values\<close>

datatype json_number = PosInt nat | NegInt int | Float string

datatype json =
    JNull
  | JBool bool
  | JNumber json_number
  | JString string
  | JArray "json list"
  | JObject "(string \<times> json) list"

type_synonym timestamp = int
type_synonym field_map = "(string \<times> json) list"

text \<open>The display function of \<open>serde_json\<close>, a parameter.\<close>

type_synonym json_display = "json \<Rightarrow> string"

section \<open>OCSF classes\<close>

datatype ocsf_class =
    FileSystemActivity
  | ProcessActivity
  | Authentication
  | NetworkActivity
  | HttpActivity
  | ApiActivity
  | DnsActivity
  | ModuleActivity
  | ScheduledJobActivity
  | RegistryKeyActivity
  | OtherClass u32

definition default_class :: ocsf_class where
  "default_class = OtherClass 1008"

fun uid :: "ocsf_class \<Rightarrow> u32" where
  "uid FileSystemActivity = 1001"
| "uid ProcessActivity = 1007"
| "uid Authentication = 3002"
| "uid NetworkActivity = 4001"
| "uid HttpActivity = 4002"
| "uid ApiActivity = 6003"
| "uid DnsActivity = 4003"
| "uid ModuleActivity = 1005"
| "uid ScheduledJobActivity = 1006"
| "uid RegistryKeyActivity = 201002"
| "uid (OtherClass u) = u"

definition from_uid :: "u32 \<Rightarrow> ocsf_class" where
  "from_uid u =
     (if u = 1001 then FileSystemActivity
      else if u = 1007 then ProcessActivity
      else if u = 3002 then Authentication
      else if u = 4001 then NetworkActivity
      else if u = 4002 then HttpActivity
      else if u = 6003 then ApiActivity
      else if u = 4003 then DnsActivity
      else if u = 1005 then ModuleActivity
      else if u = 1006 then ScheduledJobActivity
      else if u = 201002 then RegistryKeyActivity
      else OtherClass u)"

definition known_uids :: "u32 list" where
  "known_uids = [1001, 1007, 3002, 4001, 4002, 6003, 4003, 1005, 1006, 201002]"

text \<open>A class in the form \<open>from_uid\<close> produces: \<open>Other\<close> only for ids with no class of their own.\<close>

definition canonical_class :: "ocsf_class \<Rightarrow> bool" where
  "canonical_class c \<longleftrightarrow> (case c of OtherClass u \<Rightarrow> u \<notin> set known_uids | _ \<Rightarrow> True)"

section \<open>Severity\<close>

datatype severity = Unknown | Informational | Low | Medium | High | Critical | Fatal

fun severity_id :: "severity \<Rightarrow> u8" where
  "severity_id Unknown = 0"
| "severity_id Informational = 1"
| "severity_id Low = 2"
| "severity_id Medium = 3"
| "severity_id High = 4"
| "severity_id Critical = 5"
| "severity_id Fatal = 6"

definition severity_from_id :: "u8 \<Rightarrow> severity" where
  "severity_from_id i =
     (if i = 0 then Unknown else if i = 1 then Informational else if i = 2 then Low
      else if i = 3 then Medium else if i = 4 then High else if i = 5 then Critical else Fatal)"

lemma severity_from_id_id: "severity_from_id (severity_id s) = s"
  by (cases s) (simp_all add: severity_from_id_def)

text \<open>The derived order on \<open>Severity\<close> is the declaration order.\<close>

instantiation severity :: linorder
begin

definition less_eq_severity :: "severity \<Rightarrow> severity \<Rightarrow> bool" where
  "less_eq_severity a b \<longleftrightarrow> severity_id a \<le> severity_id b"

definition less_severity :: "severity \<Rightarrow> severity \<Rightarrow> bool" where
  "less_severity a b \<longleftrightarrow> severity_id a < severity_id b"

instance
proof
  fix x y z :: severity
  show "(x < y) = (x \<le> y \<and> \<not> y \<le> x)"
    by (auto simp: less_eq_severity_def less_severity_def)
  show "x \<le> x" by (simp add: less_eq_severity_def)
  show "x \<le> y \<Longrightarrow> y \<le> z \<Longrightarrow> x \<le> z" by (auto simp: less_eq_severity_def)
  show "x \<le> y \<or> y \<le> x" by (auto simp: less_eq_severity_def)
  show "x \<le> y \<Longrightarrow> y \<le> x \<Longrightarrow> x = y"
    unfolding less_eq_severity_def by (metis antisym severity_from_id_id)
qed

end

section \<open>Entities, records and events\<close>

record entity_ref =
  er_kind :: string
  er_id :: string
  er_name :: "string option"

definition entity :: "string \<Rightarrow> string \<Rightarrow> entity_ref" where
  "entity k i = \<lparr>er_kind = k, er_id = i, er_name = None\<rparr>"

record raw_record =
  rec_fields :: field_map
  rec_raw :: string

record event =
  ev_id :: string
  ev_ts :: timestamp
  ev_ingest_ts :: timestamp
  ev_class :: ocsf_class
  ev_tenant :: string
  ev_severity :: severity
  ev_host :: "entity_ref option"
  ev_actor :: "entity_ref option"
  ev_target :: "entity_ref option"
  ev_message :: string
  ev_fields :: field_map
  ev_template_id :: "nat option"
  ev_labels :: "string list"
  ev_raw :: string

text \<open>\<open>Event::new\<close>: the fresh ULID and the clock reading are arguments.\<close>

definition new_event :: "string \<Rightarrow> timestamp \<Rightarrow> string \<Rightarrow> event" where
  "new_event ulid now tenant =
     \<lparr>ev_id = ulid, ev_ts = now, ev_ingest_ts = now, ev_class = default_class,
      ev_tenant = tenant, ev_severity = Informational, ev_host = None, ev_actor = None,
      ev_target = None, ev_message = [], ev_fields = [], ev_template_id = None,
      ev_labels = [], ev_raw = []\<rparr>"

fun value_to_string :: "json_display \<Rightarrow> json \<Rightarrow> string" where
  "value_to_string sj (JString s) = s"
| "value_to_string sj v = sj v"

definition field_str :: "json_display \<Rightarrow> event \<Rightarrow> string \<Rightarrow> string option" where
  "field_str sj e k = map_option (value_to_string sj) (map_of (ev_fields e) k)"

definition get_str :: "json_display \<Rightarrow> raw_record \<Rightarrow> string \<Rightarrow> string option" where
  "get_str sj r k = map_option (value_to_string sj) (map_of (rec_fields r) k)"

definition from_pairs :: "(string \<times> string) list \<Rightarrow> raw_record" where
  "from_pairs ps =
     \<lparr>rec_fields = fold (\<lambda>(k, v). btree_insert k (JString v)) ps [], rec_raw = []\<rparr>"

text \<open>The entities of an event in the order host, actor, target.\<close>

definition event_entities :: "event \<Rightarrow> entity_ref list" where
  "event_entities e = List.map_filter id [ev_host e, ev_actor e, ev_target e]"

text \<open>The canonical key \<open>kind:id\<close> of an entity.\<close>

definition entity_key :: "entity_ref \<Rightarrow> string" where
  "entity_key e = er_kind e @ '':'' @ er_id e"

section \<open>Alerts\<close>

record alert =
  al_rule_id :: string
  al_title :: string
  al_severity :: severity
  al_technique :: "string option"
  al_events :: "string list"
  al_ts :: timestamp

section \<open>Properties of the event model\<close>

lemma uid_from_uid: "uid (from_uid u) = u"
  by (simp add: from_uid_def)

lemma from_uid_uid: "canonical_class c \<Longrightarrow> from_uid (uid c) = c"
  by (cases c) (auto simp: from_uid_def canonical_class_def known_uids_def)

lemma from_uid_canonical: "canonical_class (from_uid u)"
  by (simp add: from_uid_def canonical_class_def known_uids_def)

text \<open>
  \<open>from_uid\<close> and \<open>uid\<close> are inverse: every \<open>class_uid\<close> survives a round trip through the
  enum, and a class survives the round trip through its id exactly when it is in the form
  \<open>from_uid\<close> produces, that is, \<open>Other\<close> does not carry the id of a named class.
\<close>

theorem ocsf_class_roundtrip:
  "uid (from_uid u) = u \<and> (from_uid (uid c) = c \<longleftrightarrow> canonical_class c)"
proof
  show "uid (from_uid u) = u" by (rule uid_from_uid)
  show "from_uid (uid c) = c \<longleftrightarrow> canonical_class c"
    using from_uid_uid [of c] from_uid_canonical [of "uid c"] by auto
qed

lemma severity_id_from_id: "severity_id (severity_from_id i) = min i 6"
proof -
  have "6 \<le> i" if "i \<noteq> 0" "i \<noteq> 1" "i \<noteq> 2" "i \<noteq> 3" "i \<noteq> 4" "i \<noteq> 5"
  proof (rule ccontr)
    assume "\<not> 6 \<le> i"
    then have "unat i < 6" by (simp add: word_le_nat_alt)
    then have "unat i \<in> {0, 1, 2, 3, 4, 5}" by auto
    then have "i \<in> {0, 1, 2, 3, 4, 5}"
      by (simp add: word_unat_eq_iff [of i])
    with that show False by auto
  qed
  then show ?thesis by (auto simp: severity_from_id_def min_def)
qed

lemma btree_wf_from_pairs: "btree_wf (rec_fields (from_pairs ps))"
proof -
  have "btree_wf m \<Longrightarrow> btree_wf (fold (\<lambda>(k, v). btree_insert k (JString v)) ps m)" for m
    by (induction ps arbitrary: m) auto
  then show ?thesis by (simp add: from_pairs_def)
qed

lemma in_event_entities:
  "x \<in> set (event_entities e) \<longleftrightarrow>
     ev_host e = Some x \<or> ev_actor e = Some x \<or> ev_target e = Some x"
  by (auto simp: event_entities_def List.map_filter_def)

end
