(* ===== verification/Sigma_Condition.thy ===== *)
theory Sigma_Condition
  imports Core_Event
begin

text \<open>
  The Sigma \<open>condition\<close> mini-language of \<open>crates/sigil-sigma/src/condition.rs\<close>: the tokenizer,
  the recursive-descent parser, quantifier targets and evaluation. The parser's position in
  the token vector is the list of tokens still to be read. Its mutual recursion is run with
  fuel (\<open>None\<close> is running out); \<open>parse\<close> starts it with \<open>4 * length toks + 4\<close>, which
  \<open>parse_fuel_enough\<close> shows always suffices. Error values keep the fixed part of the message.

  The results: a printer with minimal parentheses is inverted by the parser down to the
  characters, evaluation is the set-theoretic meaning of the condition, and parsing always
  ends with an expression or an error.
\<close>

section \<open>Tokens\<close>

datatype tok =
    TAnd | TOr | TNot | TOf | TThem | TAll
  | TNum nat
  | TIdent string
  | TLParen | TRParen

definition tokenize_word :: "string \<Rightarrow> tok" where
  "tokenize_word word =
     (let l = to_lowercase word in
      if l = ''and'' then TAnd
      else if l = ''or'' then TOr
      else if l = ''not'' then TNot
      else if l = ''of'' then TOf
      else if l = ''them'' then TThem
      else if l = ''all'' then TAll
      else if l = ''('' then TLParen
      else if l = '')'' then TRParen
      else case parse_unsigned usize_max word of
             Some n \<Rightarrow> TNum n
           | None \<Rightarrow> TIdent word)"

definition tokenize :: "string \<Rightarrow> tok list result" where
  "tokenize input =
     (let spaced = replace_char (CHR '')'') '' ) '' (replace_char (CHR ''('') '' ( '' input);
          toks = map tokenize_word (split_whitespace spaced)
      in if toks = [] then Inl (Config ''empty condition'') else Inr toks)"

section \<open>Expressions and the parser\<close>

datatype target = Them | Pattern string

datatype expr =
    Ref string
  | NotE expr
  | AndE expr expr
  | OrE expr expr
  | Quant "nat option" target

type_synonym 'a parse = "(error + 'a \<times> tok list) option"

text \<open>Sequencing of parsing steps: running out of fuel and errors stop the parse.\<close>

fun pbind :: "'a parse \<Rightarrow> ('a \<Rightarrow> tok list \<Rightarrow> 'b parse) \<Rightarrow> 'b parse" where
  "pbind None f = None"
| "pbind (Some (Inl e)) f = Some (Inl e)"
| "pbind (Some (Inr (x, r))) f = f x r"

definition expect :: "tok \<Rightarrow> tok list \<Rightarrow> unit parse" where
  "expect t ts =
     (case ts of
        [] \<Rightarrow> Some (Inl (Config ''condition: expected''))
      | u # r \<Rightarrow> if u = t then Some (Inr ((), r)) else Some (Inl (Config ''condition: expected'')))"

definition parse_target :: "tok list \<Rightarrow> target parse" where
  "parse_target ts =
     (case ts of
        TThem # r \<Rightarrow> Some (Inr (Them, r))
      | TIdent p # r \<Rightarrow> Some (Inr (Pattern p, r))
      | _ \<Rightarrow> Some (Inl (Config ''condition: expected target'')))"

text \<open>
  The mutually recursive methods of \<open>Parser\<close>, written over the parser \<open>P\<close> for the recursive
  calls; the two \<open>while\<close> loops are nonterminals of their own, carrying the left operand.
\<close>

datatype nonterm = NOr | NOrLoop expr | NAnd | NAndLoop expr | NNot | NPrimary

type_synonym parser_fun = "nonterm \<Rightarrow> tok list \<Rightarrow> expr parse"

definition parse_or :: "parser_fun \<Rightarrow> tok list \<Rightarrow> expr parse" where
  "parse_or P ts = pbind (P NAnd ts) (\<lambda>lhs r. P (NOrLoop lhs) r)"

definition or_loop :: "parser_fun \<Rightarrow> expr \<Rightarrow> tok list \<Rightarrow> expr parse" where
  "or_loop P lhs ts =
     (case ts of
        TOr # r \<Rightarrow> pbind (P NAnd r) (\<lambda>rhs r'. P (NOrLoop (OrE lhs rhs)) r')
      | _ \<Rightarrow> Some (Inr (lhs, ts)))"

definition parse_and :: "parser_fun \<Rightarrow> tok list \<Rightarrow> expr parse" where
  "parse_and P ts = pbind (P NNot ts) (\<lambda>lhs r. P (NAndLoop lhs) r)"

definition and_loop :: "parser_fun \<Rightarrow> expr \<Rightarrow> tok list \<Rightarrow> expr parse" where
  "and_loop P lhs ts =
     (case ts of
        TAnd # r \<Rightarrow> pbind (P NNot r) (\<lambda>rhs r'. P (NAndLoop (AndE lhs rhs)) r')
      | _ \<Rightarrow> Some (Inr (lhs, ts)))"

definition parse_not :: "parser_fun \<Rightarrow> tok list \<Rightarrow> expr parse" where
  "parse_not P ts =
     (case ts of
        TNot # r \<Rightarrow> pbind (P NNot r) (\<lambda>e r'. Some (Inr (NotE e, r')))
      | _ \<Rightarrow> P NPrimary ts)"

definition parse_primary :: "parser_fun \<Rightarrow> tok list \<Rightarrow> expr parse" where
  "parse_primary P ts =
     (case ts of
        TLParen # r \<Rightarrow>
          pbind (P NOr r) (\<lambda>e r'. pbind (expect TRParen r') (\<lambda>_ r''. Some (Inr (e, r''))))
      | TAll # r \<Rightarrow>
          pbind (expect TOf r) (\<lambda>_ r'. pbind (parse_target r') (\<lambda>t r''. Some (Inr (Quant None t, r''))))
      | TNum k # r \<Rightarrow>
          pbind (expect TOf r) (\<lambda>_ r'. pbind (parse_target r') (\<lambda>t r''. Some (Inr (Quant (Some k) t, r''))))
      | TIdent name # r \<Rightarrow> Some (Inr (Ref name, r))
      | _ \<Rightarrow> Some (Inl (Config ''condition: unexpected'')))"

definition parser_step :: "parser_fun \<Rightarrow> parser_fun" where
  "parser_step P k ts =
     (case k of
        NOr \<Rightarrow> parse_or P ts
      | NOrLoop lhs \<Rightarrow> or_loop P lhs ts
      | NAnd \<Rightarrow> parse_and P ts
      | NAndLoop lhs \<Rightarrow> and_loop P lhs ts
      | NNot \<Rightarrow> parse_not P ts
      | NPrimary \<Rightarrow> parse_primary P ts)"

primrec run_parser :: "nat \<Rightarrow> parser_fun" where
  "run_parser 0 = (\<lambda>k ts. None)"
| "run_parser (Suc n) = parser_step (run_parser n)"

definition out_of_fuel :: error where
  "out_of_fuel = Other ''out of fuel''"

definition parse_toks :: "tok list \<Rightarrow> expr result" where
  "parse_toks toks =
     (case run_parser (4 * length toks + 4) NOr toks of
        None \<Rightarrow> Inl out_of_fuel
      | Some (Inl e) \<Rightarrow> Inl e
      | Some (Inr (e, r)) \<Rightarrow> if r = [] then Inr e else Inl (Config ''condition: trailing tokens''))"

definition parse :: "string \<Rightarrow> expr result" where
  "parse input = and_then (tokenize input) parse_toks"

section \<open>Evaluation\<close>

definition select :: "target \<Rightarrow> string list \<Rightarrow> string list" where
  "select t names =
     (case t of
        Them \<Rightarrow> names
      | Pattern p \<Rightarrow>
          (case strip_suffix ''*'' p of
             Some pre \<Rightarrow> filter (\<lambda>n. prefix pre n) names
           | None \<Rightarrow> filter (\<lambda>n. n = p) names))"

text \<open>\<open>*results.get(n).unwrap_or(&false)\<close>.\<close>

definition hit :: "(string \<rightharpoonup> bool) \<Rightarrow> string \<Rightarrow> bool" where
  "hit results n = (case results n of Some b \<Rightarrow> b | None \<Rightarrow> False)"

fun eval :: "expr \<Rightarrow> (string \<rightharpoonup> bool) \<Rightarrow> string list \<Rightarrow> bool" where
  "eval (Ref n) results names = hit results n"
| "eval (NotE e) results names = (\<not> eval e results names)"
| "eval (AndE a b) results names = (eval a results names \<and> eval b results names)"
| "eval (OrE a b) results names = (eval a results names \<or> eval b results names)"
| "eval (Quant at_least t) results names =
     (let selected = select t names; hits = length (filter (hit results) selected)
      in case at_least of
           None \<Rightarrow> selected \<noteq> [] \<and> hits = length selected
         | Some k \<Rightarrow> hits \<ge> k)"

section \<open>Fuel\<close>

lemma pbind_None_iff:
  "pbind m f = None \<longleftrightarrow> m = None \<or> (\<exists>x r. m = Some (Inr (x, r)) \<and> f x r = None)"
  by (cases "(m, f)" rule: pbind.cases) auto

lemma pbind_Inr_iff:
  "pbind m f = Some (Inr y) \<longleftrightarrow> (\<exists>x r. m = Some (Inr (x, r)) \<and> f x r = Some (Inr y))"
  by (cases "(m, f)" rule: pbind.cases) auto

lemma expect_Inr [simp]: "expect t ts = Some (Inr (u, r)) \<longleftrightarrow> ts = t # r"
  by (auto simp: expect_def split: list.splits if_splits)

lemma expect_not_None [simp]: "expect t ts \<noteq> None"
  by (auto simp: expect_def split: list.splits)

lemma parse_target_Inr:
  "parse_target ts = Some (Inr (t, r)) \<longleftrightarrow>
     (ts = TThem # r \<and> t = Them) \<or> (\<exists>p. ts = TIdent p # r \<and> t = Pattern p)"
  by (auto simp: parse_target_def split: list.splits tok.splits)

lemma parse_target_not_None [simp]: "parse_target ts \<noteq> None"
  by (auto simp: parse_target_def split: list.splits tok.splits)

text \<open>
  A successful parse consumes at least one token, the loops none or more; \<open>need k\<close> is the
  fuel a nonterminal wants beyond four units per token.
\<close>

fun strict :: "nonterm \<Rightarrow> bool" where
  "strict (NOrLoop _) = False"
| "strict (NAndLoop _) = False"
| "strict _ = True"

fun need :: "nonterm \<Rightarrow> nat" where
  "need NOr = 4"
| "need NAnd = 3"
| "need NNot = 2"
| "need _ = 1"

lemma parser_consumes:
  "run_parser n k ts = Some (Inr (e, r)) \<Longrightarrow>
     if strict k then length r < length ts else length r \<le> length ts"
proof (induction n arbitrary: k ts e r)
  case 0
  then show ?case by simp
next
  case (Suc n)
  have strict: "length r' < length ts'" if "run_parser n k' ts' = Some (Inr (e', r'))" "strict k'"
    for k' ts' e' r' using Suc.IH [OF that(1)] that(2) by simp
  have lax: "length r' \<le> length ts'" if "run_parser n k' ts' = Some (Inr (e', r'))"
    for k' ts' e' r' using Suc.IH [OF that] by (cases "strict k'") auto
  show ?case
  proof (cases k)
    case NOr
    then obtain l r1 where a: "run_parser n NAnd ts = Some (Inr (l, r1))"
      and b: "run_parser n (NOrLoop l) r1 = Some (Inr (e, r))"
      using Suc.prems by (auto simp: parser_step_def parse_or_def pbind_Inr_iff)
    from NOr strict [OF a] lax [OF b] show ?thesis by simp
  next
    case (NOrLoop l)
    then consider "r = ts" | (more) r0 rhs r1 where "ts = TOr # r0"
      "run_parser n NAnd r0 = Some (Inr (rhs, r1))"
      "run_parser n (NOrLoop (OrE l rhs)) r1 = Some (Inr (e, r))"
      using Suc.prems
      by (auto simp: parser_step_def or_loop_def pbind_Inr_iff split: list.splits tok.splits)
    then show ?thesis
    proof cases
      case more
      then show ?thesis using NOrLoop lax [OF more(2)] lax [OF more(3)] by simp
    qed (use NOrLoop in simp)
  next
    case NAnd
    then obtain l r1 where a: "run_parser n NNot ts = Some (Inr (l, r1))"
      and b: "run_parser n (NAndLoop l) r1 = Some (Inr (e, r))"
      using Suc.prems by (auto simp: parser_step_def parse_and_def pbind_Inr_iff)
    from NAnd strict [OF a] lax [OF b] show ?thesis by simp
  next
    case (NAndLoop l)
    then consider "r = ts" | (more) r0 rhs r1 where "ts = TAnd # r0"
      "run_parser n NNot r0 = Some (Inr (rhs, r1))"
      "run_parser n (NAndLoop (AndE l rhs)) r1 = Some (Inr (e, r))"
      using Suc.prems
      by (auto simp: parser_step_def and_loop_def pbind_Inr_iff split: list.splits tok.splits)
    then show ?thesis
    proof cases
      case more
      then show ?thesis using NAndLoop lax [OF more(2)] lax [OF more(3)] by simp
    qed (use NAndLoop in simp)
  next
    case NNot
    then consider r0 e' where "ts = TNot # r0" "run_parser n NNot r0 = Some (Inr (e', r))"
      | "run_parser n NPrimary ts = Some (Inr (e, r))"
      using Suc.prems by (auto simp: parser_step_def parse_not_def pbind_Inr_iff split: list.splits tok.splits)
    then show ?thesis using NNot by cases (auto dest!: strict)
  next
    case NPrimary
    then consider r0 e' r1 where "ts = TLParen # r0" "run_parser n NOr r0 = Some (Inr (e', TRParen # r))"
      | "length r < length ts"
      using Suc.prems
      by (auto simp: parser_step_def parse_primary_def pbind_Inr_iff parse_target_Inr split: list.splits tok.splits)
    then show ?thesis using NPrimary by cases (auto dest!: strict)
  qed
qed

lemma fuel_enough: "4 * length ts + need k \<le> n \<Longrightarrow> run_parser n k ts \<noteq> None"
proof (induction n arbitrary: k ts)
  case 0
  then show ?case by (cases k) auto
next
  case (Suc n)
  have ok: "pbind (run_parser n k' r) f \<noteq> None"
    if en: "4 * length r + need k' \<le> n" "strict k'"
      "\<And>x r'. length r' < length r \<Longrightarrow> f x r' \<noteq> None" for k' r and f :: "expr \<Rightarrow> tok list \<Rightarrow> expr parse"
  proof
    assume "pbind (run_parser n k' r) f = None"
    then obtain x r' where "run_parser n k' r = Some (Inr (x, r'))" and "f x r' = None"
      using Suc.IH [OF en(1)] by (auto simp: pbind_None_iff)
    then show False using parser_consumes en(2,3) by fastforce
  qed
  show ?case
  proof (cases k)
    case NOr
    then show ?thesis using Suc.prems
      by (simp add: parser_step_def parse_or_def del: not_None_eq) (intro ok Suc.IH; simp)
  next
    case (NOrLoop l)
    then show ?thesis using Suc.prems
      by (simp add: parser_step_def or_loop_def del: not_None_eq split: list.split tok.split)
        (intro conjI allI impI ok Suc.IH; simp)
  next
    case NAnd
    then show ?thesis using Suc.prems
      by (simp add: parser_step_def parse_and_def del: not_None_eq) (intro ok Suc.IH; simp)
  next
    case (NAndLoop l)
    then show ?thesis using Suc.prems
      by (simp add: parser_step_def and_loop_def del: not_None_eq split: list.split tok.split)
        (intro conjI allI impI ok Suc.IH; simp)
  next
    case NNot
    then show ?thesis using Suc.prems
      by (simp add: parser_step_def parse_not_def del: not_None_eq split: list.split tok.split)
        (intro conjI allI impI ok Suc.IH; simp)
  next
    case NPrimary
    have q: "pbind (expect t r) (\<lambda>_ r'. pbind (parse_target r') (\<lambda>u r''. Some (Inr (g u, r'')))) \<noteq> None"
      for t r and g :: "target \<Rightarrow> expr" by (auto simp: pbind_None_iff)
    have p: "pbind (expect t r) (\<lambda>_ r'. Some (Inr (e, r'))) \<noteq> None" for t r and e :: expr
      by (auto simp: pbind_None_iff)
    show ?thesis using NPrimary Suc.prems
      by (simp add: parser_step_def parse_primary_def q p del: not_None_eq split: list.split tok.split)
        (intro conjI allI impI ok p; simp)
  qed
qed

lemma pbind_mono:
  assumes "pbind m f = Some res" and "\<And>y. m = Some y \<Longrightarrow> m' = Some y"
    and "\<And>x r y. f x r = Some y \<Longrightarrow> f' x r = Some y"
  shows "pbind m' f' = Some res"
  using assms by (cases "(m, f)" rule: pbind.cases) auto

lemma parser_step_mono:
  assumes PQ: "\<And>k ts res. P k ts = Some res \<Longrightarrow> Q k ts = Some res"
    and "parser_step P k ts = Some res"
  shows "parser_step Q k ts = Some res"
proof (cases k)
  case NOr
  with assms(2) show ?thesis by (auto simp: parser_step_def parse_or_def elim!: pbind_mono intro: PQ)
next
  case NOrLoop
  with assms(2) show ?thesis
    by (auto simp: parser_step_def or_loop_def split: list.splits tok.splits elim!: pbind_mono intro: PQ)
next
  case NAnd
  with assms(2) show ?thesis by (auto simp: parser_step_def parse_and_def elim!: pbind_mono intro: PQ)
next
  case NAndLoop
  with assms(2) show ?thesis
    by (auto simp: parser_step_def and_loop_def split: list.splits tok.splits elim!: pbind_mono intro: PQ)
next
  case NNot
  with assms(2) show ?thesis
    by (auto simp: parser_step_def parse_not_def split: list.splits tok.splits elim!: pbind_mono intro: PQ)
next
  case NPrimary
  with assms(2) show ?thesis
    by (auto simp: parser_step_def parse_primary_def split: list.splits tok.splits elim!: pbind_mono intro: PQ)
qed

lemma run_parser_Suc: "run_parser n k ts = Some res \<Longrightarrow> run_parser (Suc n) k ts = Some res"
proof (induction n arbitrary: k ts res)
  case 0
  then show ?case by simp
next
  case (Suc n)
  show ?case
    unfolding run_parser.simps(2) [of "Suc n"]
    by (rule parser_step_mono [OF Suc.IH]) (use Suc.prems in simp_all)
qed

lemma run_parser_mono: "n \<le> m \<Longrightarrow> run_parser n k ts = Some res \<Longrightarrow> run_parser m k ts = Some res"
  by (induction rule: dec_induct) (auto simp del: run_parser.simps intro: run_parser_Suc)

text \<open>With the fuel of \<open>parse_toks\<close> the parser always finishes.\<close>

lemma parse_toks_eq:
  assumes "run_parser n NOr toks = Some (Inr (e, r))"
  shows "parse_toks toks = (if r = [] then Inr e else Inl (Config ''condition: trailing tokens''))"
proof -
  let ?m = "4 * length toks + 4"
  obtain res where res: "run_parser ?m NOr toks = Some res"
    using fuel_enough [of toks NOr ?m] by auto
  have "run_parser (max n ?m) NOr toks = Some (Inr (e, r))"
    by (rule run_parser_mono [OF _ assms]) simp
  moreover have "run_parser (max n ?m) NOr toks = Some res"
    by (rule run_parser_mono [OF _ res]) simp
  ultimately show ?thesis using res by (simp add: parse_toks_def)
qed

section \<open>Printing conditions\<close>

text \<open>
  The reference printer: \<open>or\<close> binds weakest and \<open>not\<close> tightest, both operators associate to
  the left, and parentheses stand only where the level \<open>l\<close> (0 for an operand of nothing, 1
  for an operand of \<open>or\<close>, 2 for an operand of \<open>and\<close> or \<open>not\<close>) needs them.
\<close>

definition parens :: "bool \<Rightarrow> tok list \<Rightarrow> tok list" where
  "parens b ts = (if b then TLParen # ts @ [TRParen] else ts)"

fun target_toks :: "target \<Rightarrow> tok list" where
  "target_toks Them = [TThem]"
| "target_toks (Pattern p) = [TIdent p]"

fun expr_toks :: "expr \<Rightarrow> nat \<Rightarrow> tok list" where
  "expr_toks (Ref x) l = [TIdent x]"
| "expr_toks (Quant None t) l = TAll # TOf # target_toks t"
| "expr_toks (Quant (Some k) t) l = TNum k # TOf # target_toks t"
| "expr_toks (NotE e) l = TNot # expr_toks e 2"
| "expr_toks (AndE a b) l = parens (1 < l) (expr_toks a 1 @ TAnd # expr_toks b 2)"
| "expr_toks (OrE a b) l = parens (0 < l) (expr_toks a 0 @ TOr # expr_toks b 1)"

fun show_tok :: "tok \<Rightarrow> string" where
  "show_tok TAnd = ''and''"
| "show_tok TOr = ''or''"
| "show_tok TNot = ''not''"
| "show_tok TOf = ''of''"
| "show_tok TThem = ''them''"
| "show_tok TAll = ''all''"
| "show_tok (TNum n) = show_nat n"
| "show_tok (TIdent x) = x"
| "show_tok TLParen = ''(''"
| "show_tok TRParen = '')''"

definition show_expr :: "expr \<Rightarrow> string" where
  "show_expr e = join '' '' (map show_tok (expr_toks e 0))"

text \<open>Selection names that read back as themselves.\<close>

definition valid_name :: "string \<Rightarrow> bool" where
  "valid_name x \<longleftrightarrow> is_word x \<and> CHR ''('' \<notin> set x \<and> CHR '')'' \<notin> set x \<and>
     to_lowercase x \<notin> set [''and'', ''or'', ''not'', ''of'', ''them'', ''all''] \<and>
     parse_unsigned usize_max x = None"

fun valid_target :: "target \<Rightarrow> bool" where
  "valid_target Them = True"
| "valid_target (Pattern p) = valid_name p"

fun valid_expr :: "expr \<Rightarrow> bool" where
  "valid_expr (Ref x) = valid_name x"
| "valid_expr (Quant k t) = ((case k of None \<Rightarrow> True | Some n \<Rightarrow> n \<le> usize_max) \<and> valid_target t)"
| "valid_expr (NotE e) = valid_expr e"
| "valid_expr (AndE a b) = (valid_expr a \<and> valid_expr b)"
| "valid_expr (OrE a b) = (valid_expr a \<and> valid_expr b)"

subsection \<open>The parser inverts the printer on tokens\<close>

definition parses :: "nonterm \<Rightarrow> tok list \<Rightarrow> expr \<Rightarrow> tok list \<Rightarrow> bool" where
  "parses k ts e r \<longleftrightarrow> (\<exists>n. run_parser n k ts = Some (Inr (e, r)))"

lemma parses_seq:
  assumes "parses k1 ts e1 r1" and "parses k2 r1 e2 r2"
    and "\<And>P. P k1 ts = Some (Inr (e1, r1)) \<Longrightarrow> P k2 r1 = Some (Inr (e2, r2)) \<Longrightarrow>
           parser_step P k us = Some (Inr (e, r))"
  shows "parses k us e r"
proof -
  obtain n1 n2 where "run_parser n1 k1 ts = Some (Inr (e1, r1))"
    and "run_parser n2 k2 r1 = Some (Inr (e2, r2))"
    using assms(1,2) by (auto simp: parses_def)
  then have "run_parser (Suc (max n1 n2)) k us = Some (Inr (e, r))"
    by (auto intro!: assms(3) elim: run_parser_mono [rotated])
  then show ?thesis unfolding parses_def by blast
qed

lemma parses_one:
  assumes "parses k1 ts e1 r1"
    and "\<And>P. P k1 ts = Some (Inr (e1, r1)) \<Longrightarrow> parser_step P k us = Some (Inr (e, r))"
  shows "parses k us e r"
proof -
  obtain n where "run_parser n k1 ts = Some (Inr (e1, r1))" using assms(1) by (auto simp: parses_def)
  then have "run_parser (Suc n) k us = Some (Inr (e, r))" by (simp add: assms(2))
  then show ?thesis unfolding parses_def by blast
qed

lemma parses_direct: "(\<And>P. parser_step P k us = Some (Inr (e, r))) \<Longrightarrow> parses k us e r"
  unfolding parses_def by (rule exI [of _ "Suc 0"]) simp

lemma parses_NOr: "parses NAnd ts l r1 \<Longrightarrow> parses (NOrLoop l) r1 e r \<Longrightarrow> parses NOr ts e r"
  by (erule (1) parses_seq) (simp add: parser_step_def parse_or_def)

lemma parses_NAnd: "parses NNot ts l r1 \<Longrightarrow> parses (NAndLoop l) r1 e r \<Longrightarrow> parses NAnd ts e r"
  by (erule (1) parses_seq) (simp add: parser_step_def parse_and_def)

lemma parses_NOrLoop_more:
  "parses NAnd ts b r1 \<Longrightarrow> parses (NOrLoop (OrE l b)) r1 e r \<Longrightarrow> parses (NOrLoop l) (TOr # ts) e r"
  by (erule (1) parses_seq) (simp add: parser_step_def or_loop_def)

lemma parses_NAndLoop_more:
  "parses NNot ts b r1 \<Longrightarrow> parses (NAndLoop (AndE l b)) r1 e r \<Longrightarrow> parses (NAndLoop l) (TAnd # ts) e r"
  by (erule (1) parses_seq) (simp add: parser_step_def and_loop_def)

lemma parses_NOrLoop_stop: "r = [] \<or> hd r \<noteq> TOr \<Longrightarrow> parses (NOrLoop l) r l r"
  by (rule parses_direct) (auto simp: parser_step_def or_loop_def split: list.splits tok.splits)

lemma parses_NAndLoop_stop: "r = [] \<or> hd r \<noteq> TAnd \<Longrightarrow> parses (NAndLoop l) r l r"
  by (rule parses_direct) (auto simp: parser_step_def and_loop_def split: list.splits tok.splits)

lemma parses_NNot_not: "parses NNot ts e r \<Longrightarrow> parses NNot (TNot # ts) (NotE e) r"
  by (erule parses_one) (simp add: parser_step_def parse_not_def)

lemma parses_NNot_primary: "ts = [] \<or> hd ts \<noteq> TNot \<Longrightarrow> parses NPrimary ts e r \<Longrightarrow> parses NNot ts e r"
  by (erule parses_one) (auto simp: parser_step_def parse_not_def split: list.splits tok.splits)

lemma parses_paren: "parses NOr ts e (TRParen # r) \<Longrightarrow> parses NPrimary (TLParen # ts) e r"
  by (erule parses_one) (simp add: parser_step_def parse_primary_def expect_def)

lemma parses_ident: "parses NPrimary (TIdent x # r) (Ref x) r"
  by (rule parses_direct) (simp add: parser_step_def parse_primary_def)

lemma parses_quant:
  "parses NPrimary (TAll # TOf # target_toks t @ r) (Quant None t) r"
  "parses NPrimary (TNum k # TOf # target_toks t @ r) (Quant (Some k) t) r"
  by (rule parses_direct; cases t;
      simp add: parser_step_def parse_primary_def expect_def parse_target_def)+

text \<open>Printing at level 0 or 1 continues in the loop; at level 2 it stands alone.\<close>

lemma parses_toks:
  "parses (NOrLoop e) r e' r' \<Longrightarrow> r = [] \<or> hd r \<noteq> TAnd \<Longrightarrow> parses NOr (expr_toks e 0 @ r) e' r'"
  "parses (NAndLoop e) r e' r' \<Longrightarrow> parses NAnd (expr_toks e 1 @ r) e' r'"
  "parses NNot (expr_toks e 2 @ r) e r"
proof (induction e arbitrary: r e' r')
  case (Ref x)
  have p: "parses NNot (expr_toks (Ref x) l @ r) (Ref x) r" for l r
    by (auto intro!: parses_NNot_primary parses_ident)
  { case 1 then show ?case
      by (rule_tac parses_NOr [OF parses_NAnd [OF p parses_NAndLoop_stop]]) auto
  next
    case 2 then show ?case by (rule parses_NAnd [OF p])
  next
    case 3 then show ?case by (rule p) }
next
  case (Quant k t)
  have p: "parses NNot (expr_toks (Quant k t) l @ r) (Quant k t) r" for l r
    by (cases k) (auto intro!: parses_NNot_primary parses_quant)
  { case 1 then show ?case
      by (rule_tac parses_NOr [OF parses_NAnd [OF p parses_NAndLoop_stop]]) auto
  next
    case 2 then show ?case by (rule parses_NAnd [OF p])
  next
    case 3 then show ?case by (rule p) }
next
  case (NotE e)
  have p: "parses NNot (expr_toks (NotE e) l @ r) (NotE e) r" for l r
    using NotE.IH(3) by (auto intro: parses_NNot_not)
  { case 1 then show ?case
      by (rule_tac parses_NOr [OF parses_NAnd [OF p parses_NAndLoop_stop]]) auto
  next
    case 2 then show ?case by (rule parses_NAnd [OF p])
  next
    case 3 then show ?case by (rule p) }
next
  case (AndE a b)
  have and_part: "parses NAnd (expr_toks a 1 @ TAnd # expr_toks b 2 @ r) e' r'"
    if "parses (NAndLoop (AndE a b)) r e' r'" for r e' r'
    by (rule AndE.IH(2)) (rule parses_NAndLoop_more [OF AndE.IH(6) that])
  { case 1
    then have "parses NOr (expr_toks a 1 @ TAnd # expr_toks b 2 @ r) e' r'"
      by (intro parses_NOr [OF and_part [OF parses_NAndLoop_stop]]) auto
    then show ?case by (simp add: parens_def)
  next
    case 2 then show ?case by (auto simp: parens_def simp del: One_nat_def intro!: and_part)
  next
    case 3
    have "parses NOr (expr_toks a 1 @ TAnd # expr_toks b 2 @ TRParen # r) (AndE a b) (TRParen # r)"
      by (rule parses_NOr [OF and_part]) (auto intro!: parses_NAndLoop_stop parses_NOrLoop_stop)
    then show ?case
      by (auto simp: parens_def simp del: One_nat_def intro!: parses_NNot_primary parses_paren) }
next
  case (OrE a b)
  have or_part: "parses NOr (expr_toks a 0 @ TOr # expr_toks b 1 @ r) e' r'"
    if "parses (NOrLoop (OrE a b)) r e' r'" "r = [] \<or> hd r \<noteq> TAnd" for r e' r'
  proof (rule OrE.IH(1))
    have "parses NAnd (expr_toks b 1 @ r) b r"
      using that(2) by (intro OrE.IH(5) parses_NAndLoop_stop)
    then show "parses (NOrLoop a) (TOr # expr_toks b 1 @ r) e' r'"
      by (rule parses_NOrLoop_more) (rule that(1))
  qed simp
  have paren: "parses NNot (TLParen # expr_toks a 0 @ TOr # expr_toks b 1 @ TRParen # r) (OrE a b) r" for r
    by (rule parses_NNot_primary [OF _ parses_paren [OF or_part]]) (auto intro!: parses_NOrLoop_stop)
  { case 1 then show ?case by (auto simp: parens_def simp del: One_nat_def intro!: or_part)
  next
    case 2 then show ?case by (auto simp: parens_def simp del: One_nat_def intro!: parses_NAnd [OF paren])
  next
    case 3 then show ?case by (auto simp: parens_def simp del: One_nat_def intro!: paren) }
qed

lemma parse_expr_toks: "parse_toks (expr_toks e 0) = Inr e"
proof -
  have "parses NOr (expr_toks e 0 @ []) e []"
    by (rule parses_toks(1)) (auto intro!: parses_NOrLoop_stop)
  then obtain n where "run_parser n NOr (expr_toks e 0) = Some (Inr (e, []))"
    by (auto simp: parses_def)
  then show ?thesis using parse_toks_eq by simp
qed

subsection \<open>Tokenizing printed conditions\<close>

definition space_parens :: "string \<Rightarrow> string" where
  "space_parens s = replace_char (CHR '')'') '' ) '' (replace_char (CHR ''('') '' ( '' s)"

lemma replace_char_append: "replace_char d u (s @ t) = replace_char d u s @ replace_char d u t"
  by (simp add: replace_char_def)

lemma replace_char_id: "d \<notin> set s \<Longrightarrow> replace_char d u s = s"
  by (induction s) (auto simp: replace_char_def)

lemma space_parens_append: "space_parens (s @ t) = space_parens s @ space_parens t"
  by (simp add: space_parens_def replace_char_append)

lemma space_parens_blank: "space_parens '' '' = '' ''"
  by (simp add: space_parens_def replace_char_def)

lemma space_parens_word:
  "CHR ''('' \<notin> set w \<Longrightarrow> CHR '')'' \<notin> set w \<Longrightarrow> space_parens w = w"
  by (simp add: space_parens_def replace_char_id)

lemma space_parens_parens: "space_parens ''('' = '' ( ''" "space_parens '')'' = '' ) ''"
  by (simp_all add: space_parens_def replace_char_def)

definition tok_text :: "string \<Rightarrow> bool" where
  "tok_text w \<longleftrightarrow> w = ''('' \<or> w = '')'' \<or> (is_word w \<and> CHR ''('' \<notin> set w \<and> CHR '')'' \<notin> set w)"

lemma split_space_parens_Cons:
  assumes "tok_text w"
  shows "split_whitespace (space_parens w @ '' '' @ s) = w # split_whitespace s"
proof -
  have "is_word ''(''" "is_word '')''" by (simp_all add: is_word_def is_space_def Let_def)
  then have "split_whitespace (''('' @ CHR '' '' # CHR '' '' # s) = ''('' # split_whitespace s"
    "split_whitespace ('')'' @ CHR '' '' # CHR '' '' # s) = '')'' # split_whitespace s"
    by (simp_all only: split_whitespace_word_Cons is_space_blank split_whitespace_space)
  with assms show ?thesis
    by (auto simp: tok_text_def space_parens_parens space_parens_word split_whitespace_word_Cons)
qed

lemma split_space_parens_one:
  assumes "tok_text w"
  shows "split_whitespace (space_parens w) = [w]"
proof -
  have "is_word ''(''" "is_word '')''" by (simp_all add: is_word_def is_space_def Let_def)
  then have "split_whitespace (''('' @ CHR '' '' # []) = [''('']"
    "split_whitespace ('')'' @ CHR '' '' # []) = ['')'']"
    by (simp_all only: split_whitespace_word_Cons is_space_blank) (simp_all add: split_whitespace_def)
  with assms show ?thesis
    by (auto simp: tok_text_def space_parens_parens space_parens_word split_whitespace_word)
qed

lemma split_space_parens_join:
  "list_all tok_text ws \<Longrightarrow> split_whitespace (space_parens (join '' '' ws)) = ws"
proof (induction ws rule: induct_list012)
  case 1
  then show ?case by (simp add: space_parens_def replace_char_def split_whitespace_def)
next
  case (2 w)
  then show ?case by (simp add: split_space_parens_one)
next
  case (3 w v ws)
  then show ?case
    using split_space_parens_Cons [of w "space_parens (join '' '' (v # ws))"]
    by (simp only: join.simps space_parens_append space_parens_blank list.pred_inject simp_thms)
qed

fun valid_tok :: "tok \<Rightarrow> bool" where
  "valid_tok (TIdent x) = valid_name x"
| "valid_tok (TNum n) = (n \<le> usize_max)"
| "valid_tok _ = True"

lemma digits_text: "list_all is_digit ds \<Longrightarrow> ds \<noteq> [] \<Longrightarrow> tok_text ds"
proof -
  assume ds: "list_all is_digit ds" "ds \<noteq> []"
  have "\<not> is_digit CHR ''(''" "\<not> is_digit CHR '')''" by (simp_all add: is_digit_def)
  with ds show ?thesis
    by (auto simp: tok_text_def is_word_def list_all_iff is_digit_not_space)
qed

lemma tok_text_show: "valid_tok t \<Longrightarrow> tok_text (show_tok t)"
  by (cases t)
    (simp_all add: valid_name_def digits_text show_nat_digits, simp_all add: tok_text_def is_word_def is_space_def Let_def)

lemma lower_digit: "is_digit c \<Longrightarrow> is_digit (lower_char c)"
  by (auto simp: is_digit_def lower_char_def Let_def)

lemma not_digits:
  "\<not> is_digit CHR ''a''" "\<not> is_digit CHR ''o''" "\<not> is_digit CHR ''n''" "\<not> is_digit CHR ''t''"
  "\<not> is_digit CHR ''(''" "\<not> is_digit CHR '')''"
  by (simp_all add: is_digit_def)

lemma tokenize_digits: "n \<le> usize_max \<Longrightarrow> tokenize_word (show_nat n) = TNum n"
proof -
  assume n: "n \<le> usize_max"
  obtain c r where cr: "show_nat n = c # r" by (cases "show_nat n") auto
  have "is_digit c" using show_nat_digits [of n] cr by simp
  then have d: "is_digit (lower_char c)" by (rule lower_digit)
  have "lower_char c \<noteq> CHR ''a''" "lower_char c \<noteq> CHR ''o''" "lower_char c \<noteq> CHR ''n''"
    "lower_char c \<noteq> CHR ''t''" "lower_char c \<noteq> CHR ''(''" "lower_char c \<noteq> CHR '')''"
    using d not_digits by metis+
  then show ?thesis
    using parse_unsigned_show_nat [OF n] cr by (simp add: tokenize_word_def to_lowercase_def)
qed

lemma tokenize_show: "valid_tok t \<Longrightarrow> tokenize_word (show_tok t) = t"
proof (cases t)
  case (TNum n)
  then show "valid_tok t \<Longrightarrow> ?thesis" by (simp add: tokenize_digits)
next
  case (TIdent x)
  have "to_lowercase x \<noteq> ''('' \<and> to_lowercase x \<noteq> '')''" if "valid_name x"
    using that to_lowercase_single [of x "CHR ''(''"] to_lowercase_single [of x "CHR '')''"]
    by (simp add: valid_name_def) force
  with TIdent show "valid_tok t \<Longrightarrow> ?thesis"
    by (auto simp: tokenize_word_def Let_def valid_name_def)
qed (simp_all add: tokenize_word_def to_lowercase_def lower_char_def Let_def)

lemma valid_expr_toks: "valid_expr e \<Longrightarrow> list_all valid_tok (expr_toks e l)"
proof (induction e l rule: expr_toks.induct)
  case (2 t l)
  then show ?case by (cases t) auto
next
  case (3 k t l)
  then show ?case by (cases t) auto
qed (auto simp: parens_def)

lemma expr_toks_not_Nil [simp]: "expr_toks e l \<noteq> []"
  by (induction e l rule: expr_toks.induct) (auto simp: parens_def)

lemma tokenize_show_toks:
  assumes "list_all valid_tok ts" and "ts \<noteq> []"
  shows "tokenize (join '' '' (map show_tok ts)) = Inr ts"
proof -
  have "list_all tok_text (map show_tok ts)"
    using assms(1) by (auto simp: list_all_iff tok_text_show)
  then have "split_whitespace (space_parens (join '' '' (map show_tok ts))) = map show_tok ts"
    by (rule split_space_parens_join)
  moreover have "map (tokenize_word \<circ> show_tok) ts = ts"
    using assms(1) by (auto simp: list_all_iff tokenize_show intro: map_idI)
  ultimately show ?thesis using assms(2)
    by (simp add: tokenize_def Let_def space_parens_def [symmetric])
qed

text \<open>
  C29: Parsing inverts printing. Every condition expression over readable selection names,
  printed with the minimal parentheses the precedence of \<open>or\<close>, \<open>and\<close> and \<open>not\<close> calls for, is
  read back by the tokenizer and parser as exactly that expression.
\<close>

theorem parse_show_expr:
  assumes "valid_expr e"
  shows "parse (show_expr e) = Inr e"
  using tokenize_show_toks [OF valid_expr_toks [OF assms]]
  by (simp add: parse_def show_expr_def parse_expr_toks)

theorem parse_show_expr_witness:
  "valid_expr (AndE (OrE (Ref ''sel'') (NotE (Ref ''b2''))) (Quant (Some 2) (Pattern ''filter*''))) \<and>
   parse ''( sel or not b2 ) and 2 of filter*'' =
     Inr (AndE (OrE (Ref ''sel'') (NotE (Ref ''b2''))) (Quant (Some 2) (Pattern ''filter*'')))"
proof -
  let ?e = "AndE (OrE (Ref ''sel'') (NotE (Ref ''b2''))) (Quant (Some 2) (Pattern ''filter*''))"
  have v: "valid_expr ?e"
    by (simp add: valid_name_def usize_max_def string_eval)
  have "show_expr ?e = ''( sel or not b2 ) and 2 of filter*''"
    by code_simp
  with parse_show_expr [OF v] v show ?thesis by simp
qed

subsection \<open>Disjunctions of parenthesised conditions\<close>

text \<open>A parse that ends does not look past a closing parenthesis.\<close>

lemma parser_step_extend:
  assumes P: "\<And>k ts e r. P k ts = Some (Inr (e, r)) \<Longrightarrow>
      P k (ts @ TRParen # s) = Some (Inr (e, r @ TRParen # s))"
    and "parser_step P k ts = Some (Inr (e, r))"
  shows "parser_step P k (ts @ TRParen # s) = Some (Inr (e, r @ TRParen # s))"
proof (cases k)
  case NOr
  with assms(2) show ?thesis by (fastforce simp: parser_step_def parse_or_def pbind_Inr_iff intro: P)
next
  case NOrLoop
  with assms(2) show ?thesis
    by (fastforce simp: parser_step_def or_loop_def pbind_Inr_iff split: list.splits tok.splits intro: P)
next
  case NAnd
  with assms(2) show ?thesis by (fastforce simp: parser_step_def parse_and_def pbind_Inr_iff intro: P)
next
  case NAndLoop
  with assms(2) show ?thesis
    by (fastforce simp: parser_step_def and_loop_def pbind_Inr_iff split: list.splits tok.splits intro: P)
next
  case NNot
  show ?thesis
  proof (cases ts)
    case Nil
    with NNot assms(2) show ?thesis
      using P [of NPrimary "[]"] by (simp add: parser_step_def parse_not_def)
  next
    case (Cons t ts')
    with NNot assms(2) show ?thesis
      using P [of NPrimary ts] P [of NNot ts']
      by (auto simp: parser_step_def parse_not_def pbind_Inr_iff split: tok.splits)
  qed
next
  case NPrimary
  with assms(2) show ?thesis
    by (fastforce simp: parser_step_def parse_primary_def pbind_Inr_iff parse_target_Inr
        split: list.splits tok.splits intro: P [where r = "TRParen # _", simplified])
qed

lemma run_parser_extend:
  "run_parser n k ts = Some (Inr (e, r)) \<Longrightarrow>
     run_parser n k (ts @ TRParen # s) = Some (Inr (e, r @ TRParen # s))"
proof (induction n arbitrary: k ts e r)
  case 0
  then show ?case by simp
next
  case (Suc n)
  show ?case
    unfolding run_parser.simps(2)
    by (rule parser_step_extend) (use Suc in auto)
qed

definition paren_toks :: "tok list \<Rightarrow> tok list" where
  "paren_toks ts = TLParen # ts @ [TRParen]"

lemma parses_paren_toks:
  assumes "parse_toks ts = Inr e"
  shows "parses NNot (paren_toks ts @ s) e s"
proof -
  have "run_parser (4 * length ts + 4) NOr ts = Some (Inr (e, []))"
    using assms by (auto simp: parse_toks_def split: option.splits sum.splits if_splits)
  from run_parser_extend [OF this, of s]
  have "parses NOr (ts @ TRParen # s) e (TRParen # s)" by (auto simp: parses_def)
  from parses_paren [OF this] show ?thesis
    by (auto simp: paren_toks_def intro!: parses_NNot_primary)
qed

lemma parses_or_chain:
  "list_all2 (\<lambda>t e. parse_toks t = Inr e) tss es \<Longrightarrow>
     parses (NOrLoop acc) (concat (map (\<lambda>t. TOr # paren_toks t) tss)) (foldl OrE acc es) []"
proof (induction arbitrary: acc rule: list_all2_induct)
  case Nil
  then show ?case by (auto intro!: parses_NOrLoop_stop)
next
  case (Cons t tss e es)
  let ?rest = "concat (map (\<lambda>t. TOr # paren_toks t) tss)"
  have "?rest = [] \<or> hd ?rest \<noteq> TAnd" by (cases tss) auto
  then have "parses NAnd (paren_toks t @ ?rest) e ?rest"
    by (intro parses_NAnd [OF parses_paren_toks [OF Cons.hyps(1)]] parses_NAndLoop_stop)
  then show ?case
    using parses_NOrLoop_more Cons.IH [of "OrE acc e"] by simp
qed

lemma parse_toks_or_chain:
  assumes "parse_toks t = Inr e" and "list_all2 (\<lambda>t e. parse_toks t = Inr e) tss es"
  shows "parse_toks (paren_toks t @ concat (map (\<lambda>t. TOr # paren_toks t) tss)) = Inr (foldl OrE e es)"
proof -
  let ?rest = "concat (map (\<lambda>t. TOr # paren_toks t) tss)"
  have "?rest = [] \<or> hd ?rest \<noteq> TAnd" by (cases tss) auto
  then have "parses NAnd (paren_toks t @ ?rest) e ?rest"
    by (intro parses_NAnd [OF parses_paren_toks [OF assms(1)]] parses_NAndLoop_stop)
  from parses_NOr [OF this parses_or_chain [OF assms(2)]]
  obtain n where "run_parser n NOr (paren_toks t @ ?rest) = Some (Inr (foldl OrE e es, []))"
    by (auto simp: parses_def)
  from parse_toks_eq [OF this] show ?thesis by simp
qed

definition cond_words :: "string \<Rightarrow> string list" where
  "cond_words s = split_whitespace (space_parens s)"

lemma tokenize_words: "tokenize s = (let ts = map tokenize_word (cond_words s)
    in if ts = [] then Inl (Config ''empty condition'') else Inr ts)"
  by (simp add: tokenize_def cond_words_def space_parens_def)

lemma cond_words_paren: "cond_words (''('' @ s @ '')'') = ''('' # cond_words s @ ['')'']"
proof -
  have w: "is_word ''(''" "is_word '')''" by (simp_all add: is_word_def is_space_def Let_def)
  have "space_parens (''('' @ s @ '')'') = '' ( '' @ space_parens s @ '' ) ''"
    by (simp only: space_parens_append space_parens_parens)
  then have "cond_words (''('' @ s @ '')'') = split_whitespace (''('' @ CHR '' '' # space_parens s @ CHR '' '' # '') '')"
    by (simp add: cond_words_def)
  also have "\<dots> = ''('' # cond_words s @ split_whitespace '') ''"
    using split_whitespace_word_Cons [OF w(1)] by (simp add: split_whitespace_append cond_words_def)
  also have "split_whitespace '') '' = ['')'']"
    by (simp add: split_whitespace_def is_space_def Let_def)
  finally show ?thesis .
qed

lemma cond_words_or: "cond_words (a @ '' or '' @ b) = cond_words a @ ''or'' # cond_words b"
proof -
  have w: "is_word ''or''" by (simp add: is_word_def is_space_def Let_def)
  have "space_parens '' or '' = '' or ''" by (simp add: space_parens_word)
  then have "cond_words (a @ '' or '' @ b) =
      split_whitespace (space_parens a @ CHR '' '' # ''or'' @ CHR '' '' # space_parens b)"
    by (simp only: cond_words_def space_parens_append) simp
  then show ?thesis
    using split_whitespace_word_Cons [OF w] by (simp add: split_whitespace_append cond_words_def)
qed

lemma cond_words_or_chain:
  "cond_words (join '' or '' (map (\<lambda>s. ''('' @ s @ '')'') (s # ss))) =
     (''('' # cond_words s @ ['')'']) @ concat (map (\<lambda>s. ''or'' # ''('' # cond_words s @ ['')'']) ss)"
proof (induction ss arbitrary: s)
  case Nil
  then show ?case using cond_words_paren by simp
next
  case (Cons s' ss)
  have "join '' or '' (map (\<lambda>s. ''('' @ s @ '')'') (s # s' # ss)) =
      (''('' @ s @ '')'') @ '' or '' @ join '' or '' (map (\<lambda>s. ''('' @ s @ '')'') (s' # ss))"
    by simp
  then show ?case unfolding Cons.IH [of s'] by (simp only: cond_words_or cond_words_paren Cons.IH) simp
qed

lemma tokenize_word_parens: "tokenize_word ''('' = TLParen" "tokenize_word '')'' = TRParen"
  "tokenize_word ''or'' = TOr"
  by (simp_all add: tokenize_word_def string_eval)

lemma parse_words: "parse s = Inr e \<longleftrightarrow> parse_toks (map tokenize_word (cond_words s)) = Inr e"
proof -
  have "parse_toks [] = Inl (Config ''condition: unexpected'')" by code_simp
  then show ?thesis by (auto simp: parse_def tokenize_words Let_def)
qed

lemma parse_or_list:
  assumes "parse s = Inr e" and "list_all2 (\<lambda>s e. parse s = Inr e) ss es"
  shows "parse (join '' or '' (map (\<lambda>s. ''('' @ s @ '')'') (s # ss))) = Inr (foldl OrE e es)"
proof -
  let ?t = "\<lambda>s. map tokenize_word (cond_words s)"
  have "map tokenize_word (cond_words (join '' or '' (map (\<lambda>s. ''('' @ s @ '')'') (s # ss)))) =
      paren_toks (?t s) @ concat (map (\<lambda>t. TOr # paren_toks t) (map ?t ss))"
    unfolding cond_words_or_chain
    by (simp add: paren_toks_def tokenize_word_parens map_concat o_def)
  moreover have "list_all2 (\<lambda>t e. parse_toks t = Inr e) (map ?t ss) es"
    using assms(2) by (simp add: list_all2_map1 parse_words)
  ultimately show ?thesis
    using assms(1) parse_toks_or_chain [of "?t s" e "map ?t ss" es] by (simp only: parse_words)
qed

subsection \<open>Errors\<close>

lemma pbind_Inl_iff:
  "pbind m f = Some (Inl e) \<longleftrightarrow> m = Some (Inl e) \<or> (\<exists>x r. m = Some (Inr (x, r)) \<and> f x r = Some (Inl e))"
  by (cases "(m, f)" rule: pbind.cases) auto

definition config_error :: "error \<Rightarrow> bool" where
  "config_error e \<longleftrightarrow> (\<exists>m. e = Config m)"

lemma expect_Inl: "expect t ts = Some (Inl e) \<Longrightarrow> config_error e"
  by (auto simp: expect_def config_error_def split: list.splits if_splits)

lemma parse_target_Inl: "parse_target ts = Some (Inl e) \<Longrightarrow> config_error e"
  by (auto simp: parse_target_def config_error_def split: list.splits tok.splits)

lemma parser_step_errors:
  assumes P: "\<And>k ts e. P k ts = Some (Inl e) \<Longrightarrow> config_error e"
    and "parser_step P k ts = Some (Inl e)"
  shows "config_error e"
proof (cases k)
  case NPrimary
  with assms(2) show ?thesis
    by (auto simp: parser_step_def parse_primary_def pbind_Inl_iff
        split: list.splits tok.splits dest: P expect_Inl parse_target_Inl)
      (simp_all add: config_error_def)
qed (use assms(2) in \<open>auto simp: parser_step_def parse_or_def or_loop_def parse_and_def and_loop_def
      parse_not_def pbind_Inl_iff split: list.splits tok.splits dest: P\<close>)

lemma run_parser_errors: "run_parser n k ts = Some (Inl e) \<Longrightarrow> config_error e"
proof (induction n arbitrary: k ts e)
  case 0
  then show ?case by simp
next
  case (Suc n)
  show ?case by (rule parser_step_errors [OF Suc.IH]) (use Suc.prems in simp_all)
qed

text \<open>
  C31: The parser is total: on every input it returns an expression or a configuration error;
  the fuel the model gives its recursion never runs out.
\<close>

theorem parse_total: "(\<exists>e. parse input = Inr e) \<or> (\<exists>m. parse input = Inl (Config m))"
proof (cases "tokenize input")
  case (Inl e)
  then show ?thesis by (auto simp: parse_def tokenize_def Let_def split: if_splits)
next
  case (Inr toks)
  obtain res where res: "run_parser (4 * length toks + 4) NOr toks = Some res"
    using fuel_enough [of toks NOr] by auto
  show ?thesis
  proof (cases res)
    case (Inl e)
    then show ?thesis
      using Inr res run_parser_errors [of _ NOr toks e] by (auto simp: parse_def parse_toks_def config_error_def)
  next
    case right: (Inr p)
    then show ?thesis using Inr res by (cases p) (auto simp: parse_def parse_toks_def)
  qed
qed

section \<open>The meaning of conditions\<close>

text \<open>
  The reference semantics: \<open>N\<close> is the set of selection names of the rule and \<open>M\<close> those that
  matched the event. It knows nothing of the order in which a hash map lists the names.
\<close>

fun target_set :: "target \<Rightarrow> string set \<Rightarrow> string set" where
  "target_set Them N = N"
| "target_set (Pattern p) N =
     (if p \<noteq> [] \<and> last p = CHR ''*'' then {n \<in> N. prefix (butlast p) n} else {n \<in> N. n = p})"

fun holds :: "string set \<Rightarrow> string set \<Rightarrow> expr \<Rightarrow> bool" where
  "holds N M (Ref n) = (n \<in> M)"
| "holds N M (NotE e) = (\<not> holds N M e)"
| "holds N M (AndE a b) = (holds N M a \<and> holds N M b)"
| "holds N M (OrE a b) = (holds N M a \<or> holds N M b)"
| "holds N M (Quant None t) = (target_set t N \<noteq> {} \<and> target_set t N \<subseteq> M)"
| "holds N M (Quant (Some k) t) = (k \<le> card (target_set t N \<inter> M))"

lemma strip_suffix_star:
  "strip_suffix ''*'' p = (if p \<noteq> [] \<and> last p = CHR ''*'' then Some (butlast p) else None)"
  by (cases p rule: rev_cases) (auto simp: strip_suffix_def suffix_def)

lemma set_select: "set (select t names) = target_set t (set names)"
  by (cases t) (auto simp: select_def strip_suffix_star)

lemma distinct_select: "distinct names \<Longrightarrow> distinct (select t names)"
  by (cases t) (auto simp: select_def split: option.splits)

lemma eval_holds_aux:
  assumes "distinct names"
  shows "eval e results names = holds (set names) {n. results n = Some True} e"
proof (induction e)
  case (Quant k t)
  let ?M = "{n. results n = Some True}" and ?sel = "select t names"
  have hit: "hit results n \<longleftrightarrow> n \<in> ?M" for n
    by (auto simp: hit_def split: option.splits)
  have "length (filter (hit results) ?sel) = card (set (filter (hit results) ?sel))"
    by (rule distinct_card [symmetric]) (simp add: distinct_select [OF assms])
  also have "set (filter (hit results) ?sel) = target_set t (set names) \<inter> ?M"
    using hit by (auto simp: set_select)
  finally have n: "length (filter (hit results) ?sel) = card (target_set t (set names) \<inter> ?M)" .
  have all: "length (filter (hit results) ?sel) = length ?sel \<longleftrightarrow> target_set t (set names) \<subseteq> ?M"
    unfolding length_filter_all set_select using hit by blast
  show ?case
  proof (cases k)
    case None
    then show ?thesis using all by (simp add: Let_def set_select [symmetric])
  next
    case (Some j)
    then show ?thesis using n by (simp add: Let_def)
  qed
qed (auto simp: hit_def split: option.splits)

text \<open>
  Evaluation is the set-theoretic meaning of the condition: a name holds when its
  selection matched, \<open>all of\<close> wants a non-empty target inside the matched names, and
  \<open>N of\<close> counts the matched names of the target. In particular the verdict does not depend
  on the order in which the selections are listed.
\<close>

theorem eval_holds:
  assumes "distinct names"
  shows "eval e results names = holds (set names) {n. results n = Some True} e"
  using assms by (rule eval_holds_aux)

theorem eval_holds_witness:
  "distinct [''filter_b'', ''sel'', ''filter_a''] \<and>
   eval (AndE (Ref ''sel'') (NotE (Quant (Some 1) (Pattern ''filter*''))))
     [''sel'' \<mapsto> True, ''filter_a'' \<mapsto> False, ''filter_b'' \<mapsto> False] [''filter_b'', ''sel'', ''filter_a''] =
   holds {''filter_b'', ''sel'', ''filter_a''}
     {n. [''sel'' \<mapsto> True, ''filter_a'' \<mapsto> False, ''filter_b'' \<mapsto> False] n = Some True}
     (AndE (Ref ''sel'') (NotE (Quant (Some 1) (Pattern ''filter*''))))"
proof -
  have d: "distinct [''filter_b'', ''sel'', ''filter_a'']" by simp
  show ?thesis using eval_holds [OF d] d by simp
qed

end
