(* ===== verification/Sigma_Matcher.thy ===== *)
theory Sigma_Matcher
  imports Core_Event
begin

text \<open>
  Selection matching of \<open>crates/sigil-sigma/src/matcher.rs\<close>: string predicates, field
  modifiers, field conditions, selections, field resolution with its OCSF aliases and the
  keyword haystack.

  The crates \<open>regex\<close>, \<open>serde_json\<close> and \<open>serde_yaml\<close> enter as the record \<open>sigma_env\<close>: whether a
  pattern compiles, whether a compiled pattern matches a text, the escaping of a literal and
  the textual renderings of values. A compiled regular expression is represented by its
  pattern text.
\<close>

section \<open>The outside world\<close>

datatype yaml =
    YNull
  | YBool bool
  | YNumber string
  | YString string
  | YSequence "yaml list"
  | YMapping "(yaml \<times> yaml) list"
  | YTagged string yaml

record sigma_env =
  json_text :: "json \<Rightarrow> string"
  regex_ok :: "string \<Rightarrow> bool"
  regex_is_match :: "string \<Rightarrow> string \<Rightarrow> bool"
  regex_escape :: "string \<Rightarrow> string"
  yaml_text :: "yaml \<Rightarrow> string option"

section \<open>Predicates and modifiers\<close>

datatype base_match = MEquals | MContains | MStartsWith | MEndsWith | MRegex

record modifiers =
  mod_base :: base_match
  mod_all :: bool

datatype string_predicate =
    Equals string
  | Contains string
  | StartsWith string
  | EndsWith string
  | Regex string
  | IsNull

definition regex_new :: "sigma_env \<Rightarrow> string \<Rightarrow> string \<Rightarrow> string_predicate result" where
  "regex_new E pat msg = (if regex_ok E pat then Inr (Regex pat) else Inl (Config msg))"

definition wildcard_regex :: "sigma_env \<Rightarrow> string \<Rightarrow> bool \<Rightarrow> bool \<Rightarrow> string_predicate result" where
  "wildcard_regex E pattern anchor_start anchor_end =
     (let body = concat (map (\<lambda>ch. if ch = CHR ''*'' then ''.*''
                                   else if ch = CHR ''?'' then ''.''
                                   else regex_escape E [ch]) pattern)
      in regex_new E (''(?i)'' @ (if anchor_start then ''^'' else []) @ body @
           (if anchor_end then ''$'' else [])) ''bad wildcard'')"

definition has_wild :: "string \<Rightarrow> bool" where
  "has_wild value \<longleftrightarrow> CHR ''*'' \<in> set value \<or> CHR ''?'' \<in> set value"

definition build :: "sigma_env \<Rightarrow> string option \<Rightarrow> modifiers \<Rightarrow> string_predicate result" where
  "build E v mods =
     (case v of
        None \<Rightarrow> Inr IsNull
      | Some value \<Rightarrow>
          (let lower = to_lowercase value in
           case mod_base mods of
             MEquals \<Rightarrow> if has_wild value then wildcard_regex E value True True else Inr (Equals lower)
           | MContains \<Rightarrow> if has_wild value then wildcard_regex E value False False else Inr (Contains lower)
           | MStartsWith \<Rightarrow> if has_wild value then wildcard_regex E value True False else Inr (StartsWith lower)
           | MEndsWith \<Rightarrow> if has_wild value then wildcard_regex E value False True else Inr (EndsWith lower)
           | MRegex \<Rightarrow> regex_new E (''(?i)'' @ value) ''bad regex''))"

definition pred_matches :: "sigma_env \<Rightarrow> string_predicate \<Rightarrow> string \<Rightarrow> bool" where
  "pred_matches E p candidate =
     (let lc = to_lowercase candidate in
      case p of
        Equals v \<Rightarrow> lc = v
      | Contains v \<Rightarrow> contains lc v
      | StartsWith v \<Rightarrow> prefix v lc
      | EndsWith v \<Rightarrow> suffix v lc
      | Regex re \<Rightarrow> regex_is_match E re candidate
      | IsNull \<Rightarrow> False)"

text \<open>One step of the loop over the \<open>|\<close>-separated modifiers.\<close>

definition parse_modifier :: "string \<Rightarrow> modifiers \<Rightarrow> modifiers result" where
  "parse_modifier m mods =
     (if m = ''contains'' then Inr (mods\<lparr>mod_base := MContains\<rparr>)
      else if m = ''startswith'' then Inr (mods\<lparr>mod_base := MStartsWith\<rparr>)
      else if m = ''endswith'' then Inr (mods\<lparr>mod_base := MEndsWith\<rparr>)
      else if m = ''re'' then Inr (mods\<lparr>mod_base := MRegex\<rparr>)
      else if m = ''all'' then Inr (mods\<lparr>mod_all := True\<rparr>)
      else if m = ''cased'' then Inr mods
      else Inl (Config ''unsupported Sigma modifier''))"

fun parse_modifiers :: "string list \<Rightarrow> modifiers \<Rightarrow> modifiers result" where
  "parse_modifiers [] mods = Inr mods"
| "parse_modifiers (m # ms) mods = and_then (parse_modifier m mods) (parse_modifiers ms)"

definition modifiers_parse :: "string \<Rightarrow> (string \<times> modifiers) result" where
  "modifiers_parse field_key =
     (case split_char (CHR ''|'') field_key of
        [] \<Rightarrow> Inr ([], \<lparr>mod_base = MEquals, mod_all = False\<rparr>)
      | field # parts \<Rightarrow>
          and_then (parse_modifiers parts \<lparr>mod_base = MEquals, mod_all = False\<rparr>)
            (\<lambda>mods. Inr (field, mods)))"

section \<open>Field resolution\<close>

definition nonempty :: "string \<Rightarrow> string list" where
  "nonempty v = (if v = [] then [] else [v])"

definition entity_ids :: "entity_ref option \<Rightarrow> string list" where
  "entity_ids e = (case e of Some a \<Rightarrow> nonempty (er_id a) | None \<Rightarrow> [])"

definition entity_ids_of_kind :: "string \<Rightarrow> entity_ref option \<Rightarrow> string list" where
  "entity_ids_of_kind k e =
     (case e of Some a \<Rightarrow> if er_kind a = k then nonempty (er_id a) else [] | None \<Rightarrow> [])"

definition resolve_alias :: "event \<Rightarrow> string \<Rightarrow> string list" where
  "resolve_alias ev lname =
     (if lname \<in> set [''message'', ''msg''] then nonempty (ev_message ev)
      else if lname \<in> set [''user'', ''username'', ''user.name'', ''targetusername'', ''subjectusername'']
        then entity_ids_of_kind ''user'' (ev_actor ev)
      else if lname \<in> set [''host'', ''hostname'', ''computer'', ''computername'', ''host.name'']
        then entity_ids (ev_host ev)
      else if lname \<in> set [''image'', ''process'', ''process.name'', ''processname'']
        then entity_ids_of_kind ''process'' (ev_actor ev)
      else if lname \<in> set [''actor'', ''actor.name''] then entity_ids (ev_actor ev)
      else if lname \<in> set [''target'', ''target.name'', ''targetobject''] then entity_ids (ev_target ev)
      else if lname \<in> set [''commandline'', ''command_line'', ''cmd''] then nonempty (ev_message ev)
      else [])"

definition resolve_field :: "sigma_env \<Rightarrow> event \<Rightarrow> string \<Rightarrow> string list" where
  "resolve_field E ev name =
     (case map_of (ev_fields ev) name of
        Some v \<Rightarrow> [value_to_string (json_text E) v]
      | None \<Rightarrow>
          (let hits = map (\<lambda>(_, v). value_to_string (json_text E) v)
                        (filter (\<lambda>(k, _). eq_ignore_ascii_case k name) (ev_fields ev))
           in if hits \<noteq> [] then hits else resolve_alias ev (to_lowercase name)))"

text \<open>Note the order of the entities here: actor, host, target.\<close>

definition event_haystack :: "sigma_env \<Rightarrow> event \<Rightarrow> string" where
  "event_haystack E ev =
     to_lowercase (ev_message ev @
       concat (map (\<lambda>(_, v). '' '' @ value_to_string (json_text E) v) (ev_fields ev)) @
       concat (map (\<lambda>e. '' '' @ er_id e) (List.map_filter id [ev_actor ev, ev_host ev, ev_target ev])))"

section \<open>Field conditions and selections\<close>

record field_cond =
  fc_field :: string
  fc_all :: bool
  fc_preds :: "string_predicate list"

definition pred_hit :: "sigma_env \<Rightarrow> string list \<Rightarrow> string_predicate \<Rightarrow> bool" where
  "pred_hit E candidates p =
     (case p of IsNull \<Rightarrow> candidates = [] | _ \<Rightarrow> list_ex (pred_matches E p) candidates)"

definition field_cond_eval :: "sigma_env \<Rightarrow> field_cond \<Rightarrow> event \<Rightarrow> bool" where
  "field_cond_eval E c ev =
     (let candidates = resolve_field E ev (fc_field c)
      in if fc_all c then list_all (pred_hit E candidates) (fc_preds c)
         else list_ex (pred_hit E candidates) (fc_preds c))"

datatype selection =
    Fields "field_cond list"
  | AnyOf "selection list"
  | Keywords "string_predicate list"

fun selection_eval :: "sigma_env \<Rightarrow> selection \<Rightarrow> event \<Rightarrow> string \<Rightarrow> bool" where
  "selection_eval E (Fields conds) ev haystack = list_all (\<lambda>c. field_cond_eval E c ev) conds"
| "selection_eval E (AnyOf items) ev haystack = list_ex (\<lambda>s. selection_eval E s ev haystack) items"
| "selection_eval E (Keywords preds) ev haystack = list_ex (\<lambda>p. pred_matches E p haystack) preds"

section \<open>Properties of predicates\<close>

text \<open>What a plain value with a non-regex modifier means, on lowercased texts.\<close>

fun base_relation :: "base_match \<Rightarrow> string \<Rightarrow> string \<Rightarrow> bool" where
  "base_relation MEquals v c = (c = v)"
| "base_relation MContains v c = sublist v c"
| "base_relation MStartsWith v c = prefix v c"
| "base_relation MEndsWith v c = suffix v c"
| "base_relation MRegex v c = False"

text \<open>
  A value without wildcards and with any modifier but \<open>re\<close> compiles, and the compiled
  predicate compares the lowercased value with the lowercased candidate by equality,
  substring, prefix or suffix as the modifier says; so matching ignores case on both sides.
\<close>

theorem build_matches:
  assumes "\<not> has_wild value" and "mod_base mods \<noteq> MRegex"
  shows "\<exists>p. build E (Some value) mods = Inr p \<and>
    (\<forall>c. pred_matches E p c \<longleftrightarrow> base_relation (mod_base mods) (to_lowercase value) (to_lowercase c))"
  using assms
  by (cases "mod_base mods") (auto simp: build_def pred_matches_def Let_def text_simps)

theorem build_matches_witness:
  "\<exists>p. build \<lparr>json_text = (\<lambda>_. []), regex_ok = (\<lambda>_. True), regex_is_match = (\<lambda>_ _. False),
              regex_escape = id, yaml_text = (\<lambda>_. None)\<rparr> (Some ''CmD'')
         \<lparr>mod_base = MEndsWith, mod_all = False\<rparr> = Inr p \<and>
       pred_matches \<lparr>json_text = (\<lambda>_. []), regex_ok = (\<lambda>_. True), regex_is_match = (\<lambda>_ _. False),
              regex_escape = id, yaml_text = (\<lambda>_. None)\<rparr> p ''x.cMd''"
proof -
  let ?E = "\<lparr>json_text = (\<lambda>_. []), regex_ok = (\<lambda>_. True), regex_is_match = (\<lambda>_ _. False),
              regex_escape = id, yaml_text = (\<lambda>_. None)\<rparr>"
  have "\<not> has_wild ''CmD''" by (simp add: has_wild_def)
  then obtain p where p: "build ?E (Some ''CmD'') \<lparr>mod_base = MEndsWith, mod_all = False\<rparr> = Inr p"
    "pred_matches ?E p c \<longleftrightarrow> suffix (to_lowercase ''CmD'') (to_lowercase c)" for c
    using build_matches [of "''CmD''" "\<lparr>mod_base = MEndsWith, mod_all = False\<rparr>" ?E] by auto
  have "to_lowercase ''CmD'' = ''cmd''" "to_lowercase ''x.cMd'' = ''x.'' @ ''cmd''" by code_simp+
  then have "suffix (to_lowercase ''CmD'') (to_lowercase ''x.cMd'')"
    by (simp only: suffixI)
  with p show ?thesis by blast
qed

lemma parse_modifier_base: "parse_modifier m mods = Inr mods' \<Longrightarrow> mod_all mods \<Longrightarrow> mod_all mods'"
  by (auto simp: parse_modifier_def split: if_splits)

definition known_modifiers :: "string list" where
  "known_modifiers = [''contains'', ''startswith'', ''endswith'', ''re'', ''all'', ''cased'']"

lemma parse_modifier_ok: "(\<exists>mods'. parse_modifier m mods = Inr mods') \<longleftrightarrow> m \<in> set known_modifiers"
  by (auto simp: parse_modifier_def known_modifiers_def)

lemma parse_modifiers_ok:
  "(\<exists>mods'. parse_modifiers ms mods = Inr mods') \<longleftrightarrow> set ms \<subseteq> set known_modifiers"
proof (induction ms arbitrary: mods)
  case Nil
  then show ?case by simp
next
  case (Cons m ms)
  show ?case
  proof (cases "parse_modifier m mods")
    case (Inl e)
    then have "m \<notin> set known_modifiers" using parse_modifier_ok [of m mods] by simp
    with Inl show ?thesis by simp
  next
    case (Inr mods')
    then have "m \<in> set known_modifiers" using parse_modifier_ok by blast
    with Inr Cons.IH [of mods'] show ?thesis by simp
  qed
qed

lemma parse_modifiers_all:
  "parse_modifiers ms mods = Inr mods' \<Longrightarrow> mod_all mods' \<longleftrightarrow> mod_all mods \<or> ''all'' \<in> set ms"
proof (induction ms arbitrary: mods)
  case Nil
  then show ?case by simp
next
  case (Cons m ms)
  then obtain mods1 where m1: "parse_modifier m mods = Inr mods1" and r: "parse_modifiers ms mods1 = Inr mods'"
    by (auto simp: and_then_Inr_iff)
  have "mod_all mods1 \<longleftrightarrow> mod_all mods \<or> m = ''all''"
    using m1 by (auto simp: parse_modifier_def split: if_splits)
  with Cons.IH [OF r] show ?case by auto
qed

text \<open>
  A field key \<open>field|m1|...|mk\<close> is accepted exactly when every modifier is one of the six
  supported ones; then the field name is what stands before the first bar, and the \<open>all\<close> flag
  is set exactly when \<open>all\<close> is among the modifiers.
\<close>

theorem modifiers_parse_spec:
  assumes "CHR ''|'' \<notin> set field" and "list_all (\<lambda>m. CHR ''|'' \<notin> set m) ms"
  shows "((\<exists>mods. modifiers_parse (join ''|'' (field # ms)) = Inr (field, mods) \<and>
             (mod_all mods \<longleftrightarrow> ''all'' \<in> set ms)) \<longleftrightarrow> set ms \<subseteq> set known_modifiers) \<and>
         ((\<exists>e. modifiers_parse (join ''|'' (field # ms)) = Inl e) \<longleftrightarrow> \<not> set ms \<subseteq> set known_modifiers)"
proof -
  have split: "split_char (CHR ''|'') (join ''|'' (field # ms)) = field # ms"
    using assms
  proof (induction ms arbitrary: field)
    case Nil
    then show ?case by (simp add: split_char_no_sep)
  next
    case (Cons m ms)
    then show ?case by (simp add: split_char_append)
  qed
  let ?m0 = "\<lparr>mod_base = MEquals, mod_all = False\<rparr>"
  show ?thesis
  proof (cases "parse_modifiers ms ?m0")
    case (Inl e)
    then have "\<not> set ms \<subseteq> set known_modifiers" using parse_modifiers_ok [of ms ?m0] by simp
    with Inl split show ?thesis by (simp add: modifiers_parse_def)
  next
    case (Inr mods)
    then have "set ms \<subseteq> set known_modifiers" using parse_modifiers_ok by blast
    with Inr split parse_modifiers_all [OF Inr] show ?thesis by (simp add: modifiers_parse_def)
  qed
qed

theorem modifiers_parse_spec_witness:
  "CHR ''|'' \<notin> set ''CommandLine'' \<and> set [''contains'', ''all''] \<subseteq> set known_modifiers \<and>
   (\<exists>mods. modifiers_parse ''CommandLine|contains|all'' = Inr (''CommandLine'', mods) \<and> mod_all mods)"
  using modifiers_parse_spec [of "''CommandLine''" "[''contains'', ''all'']"]
  by (simp add: known_modifiers_def)

section \<open>Field resolution\<close>

lemma resolve_field_exact:
  "map_of (ev_fields ev) name = Some v \<Longrightarrow>
     resolve_field E ev name = [value_to_string (json_text E) v]"
  by (simp add: resolve_field_def)

lemma resolve_alias_nonempty: "[] \<notin> set (resolve_alias ev l)"
  by (auto simp: resolve_alias_def nonempty_def entity_ids_def entity_ids_of_kind_def
      split: option.splits if_splits)

text \<open>
  \<open>field: null\<close> holds for an event exactly when nothing resolves: no field of that name up to
  case and no non-empty alias. In particular a field that is present with an empty value is
  not null.
\<close>

theorem null_condition:
  "field_cond_eval E \<lparr>fc_field = name, fc_all = a, fc_preds = [IsNull]\<rparr> ev \<longleftrightarrow>
     filter (\<lambda>(k, _). eq_ignore_ascii_case k name) (ev_fields ev) = [] \<and>
     resolve_alias ev (to_lowercase name) = []"
proof -
  have "field_cond_eval E \<lparr>fc_field = name, fc_all = a, fc_preds = [IsNull]\<rparr> ev \<longleftrightarrow>
      resolve_field E ev name = []"
    by (simp add: field_cond_eval_def pred_hit_def)
  also have "\<dots> \<longleftrightarrow> filter (\<lambda>(k, _). eq_ignore_ascii_case k name) (ev_fields ev) = [] \<and>
      resolve_alias ev (to_lowercase name) = []"
  proof (cases "map_of (ev_fields ev) name")
    case None
    then show ?thesis by (simp add: resolve_field_def Let_def)
  next
    case (Some v)
    then have "name \<in> fst ` set (ev_fields ev)" by (metis domI dom_map_of_conv_image_fst)
    with Some show ?thesis by (force simp: resolve_field_def filter_empty_conv)
  qed
  finally show ?thesis .
qed

end
