(* ===== verification/Sigma_Engine.thy ===== *)
theory Sigma_Engine
  imports Sigma_Condition Sigma_Matcher
begin

text \<open>
  Compilation and evaluation of Sigma rules, \<open>crates/sigil-sigma/src/engine.rs\<close> with the rule
  shape of \<open>rule.rs\<close>: selections, keyword predicates, the condition (a string or a list of
  strings joined by \<open>or\<close>), severity and technique metadata, and the engine that runs every
  rule over an event. YAML deserialization happens before \<open>from_rule\<close> and is not modelled;
  the selections of a compiled rule are a \<open>HashMap\<close>, an association list with distinct names.
\<close>

section \<open>Rules\<close>

record sigma_rule =
  sr_title :: string
  sr_id :: "string option"
  sr_level :: "string option"
  sr_detection :: "(yaml \<times> yaml) list"
  sr_tags :: "string list"

record compiled_rule =
  cr_rule_id :: string
  cr_title :: string
  cr_severity :: severity
  cr_technique :: "string option"
  cr_tags :: "string list"
  cr_selections :: "(string \<times> selection) list"
  cr_names :: "string list"
  cr_condition :: expr

text \<open>\<open>as_str\<close> and \<open>is_mapping\<close> of \<open>serde_yaml\<close> look through tags; the matches of the code do not.\<close>

fun as_str :: "yaml \<Rightarrow> string option" where
  "as_str (YString s) = Some s"
| "as_str (YTagged t v) = as_str v"
| "as_str _ = None"

fun is_mapping :: "yaml \<Rightarrow> bool" where
  "is_mapping (YMapping m) = True"
| "is_mapping (YTagged t v) = is_mapping v"
| "is_mapping _ = False"

section \<open>Compilation helpers\<close>

fun scalar_str :: "sigma_env \<Rightarrow> yaml \<Rightarrow> string option" where
  "scalar_str E YNull = None"
| "scalar_str E (YString s) = Some s"
| "scalar_str E (YBool b) = Some (if b then ''true'' else ''false'')"
| "scalar_str E (YNumber n) = Some n"
| "scalar_str E v = map_option trim (yaml_text E v)"

definition keyword_pred :: "sigma_env \<Rightarrow> yaml \<Rightarrow> string_predicate result" where
  "keyword_pred E v =
     Inr (Contains (to_lowercase (case scalar_str E v of None \<Rightarrow> [] | Some s \<Rightarrow> s)))"

fun build_preds :: "sigma_env \<Rightarrow> yaml \<Rightarrow> modifiers \<Rightarrow> string_predicate list result" where
  "build_preds E (YSequence seq) mods = collect_results (\<lambda>v. build E (scalar_str E v) mods) seq"
| "build_preds E YNull mods = Inr [IsNull]"
| "build_preds E v mods = and_then (build E (scalar_str E v) mods) (\<lambda>p. Inr [p])"

definition compile_field :: "sigma_env \<Rightarrow> yaml \<times> yaml \<Rightarrow> field_cond result" where
  "compile_field E kv =
     (case as_str (fst kv) of
        None \<Rightarrow> Inl (Config ''field key must be a string'')
      | Some key \<Rightarrow>
          and_then (modifiers_parse key) (\<lambda>(field, mods).
            and_then (build_preds E (snd kv) mods) (\<lambda>preds.
              Inr \<lparr>fc_field = field, fc_all = mod_all mods, fc_preds = preds\<rparr>)))"

definition compile_field_map :: "sigma_env \<Rightarrow> (yaml \<times> yaml) list \<Rightarrow> selection result" where
  "compile_field_map E m = and_then (collect_results (compile_field E) m) (\<lambda>conds. Inr (Fields conds))"

definition compile_item :: "sigma_env \<Rightarrow> yaml \<Rightarrow> selection result" where
  "compile_item E v =
     (case v of
        YMapping m \<Rightarrow> compile_field_map E m
      | _ \<Rightarrow> and_then (keyword_pred E v) (\<lambda>p. Inr (Keywords [p])))"

definition compile_selection :: "sigma_env \<Rightarrow> yaml \<Rightarrow> selection result" where
  "compile_selection E v =
     (case v of
        YMapping m \<Rightarrow> compile_field_map E m
      | YSequence seq \<Rightarrow>
          if list_ex is_mapping seq then
            and_then (collect_results (compile_item E) seq) (\<lambda>items. Inr (AnyOf items))
          else
            and_then (collect_results (keyword_pred E) seq) (\<lambda>preds. Inr (Keywords preds))
      | _ \<Rightarrow> and_then (keyword_pred E v) (\<lambda>p. Inr (Keywords [p])))"

definition condition_to_string :: "yaml \<Rightarrow> string result" where
  "condition_to_string v =
     (case v of
        YString s \<Rightarrow> Inr s
      | YSequence seq \<Rightarrow>
          (let parts = map (\<lambda>s. ''('' @ s @ '')'') (List.map_filter as_str seq)
           in if parts = [] then Inl (Config ''condition list is empty or non-string'')
              else Inr (join '' or '' parts))
      | _ \<Rightarrow> Inl (Config ''condition must be a string or list of strings''))"

definition level_to_severity :: "string option \<Rightarrow> severity" where
  "level_to_severity level =
     (case map_option to_lowercase level of
        Some l \<Rightarrow>
          if l = ''informational'' then Informational
          else if l = ''low'' then Low
          else if l = ''medium'' then Medium
          else if l = ''high'' then High
          else if l = ''critical'' then Critical
          else Medium
      | None \<Rightarrow> Medium)"

fun technique_from_tags :: "string list \<Rightarrow> string option" where
  "technique_from_tags [] = None"
| "technique_from_tags (tag # tags) =
     (case strip_prefix ''attack.t'' (to_lowercase tag) of
        Some (c # rest) \<Rightarrow>
          if is_digit c then Some (''T'' @ to_uppercase (c # rest)) else technique_from_tags tags
      | _ \<Rightarrow> technique_from_tags tags)"

section \<open>Compiling a rule\<close>

text \<open>The loop over the \<open>detection\<close> mapping: the selections so far and the condition, if seen.\<close>

fun compile_detection ::
  "sigma_env \<Rightarrow> (yaml \<times> yaml) list \<Rightarrow> (string \<times> selection) list \<times> string option \<Rightarrow>
     ((string \<times> selection) list \<times> string option) result" where
  "compile_detection E [] acc = Inr acc"
| "compile_detection E ((k, v) # d) (sels, cond) =
     (case as_str k of
        None \<Rightarrow> Inl (Config ''detection key must be a string'')
      | Some key \<Rightarrow>
          if key = ''condition'' then
            and_then (condition_to_string v) (\<lambda>c. compile_detection E d (sels, Some c))
          else
            and_then (compile_selection E v) (\<lambda>s. compile_detection E d (hash_insert key s sels, cond)))"

definition from_rule :: "sigma_env \<Rightarrow> sigma_rule \<Rightarrow> compiled_rule result" where
  "from_rule E rule =
     and_then (compile_detection E (sr_detection rule) ([], None)) (\<lambda>(sels, cond).
       case cond of
         None \<Rightarrow> Inl (Config ''rule has no condition'')
       | Some c \<Rightarrow>
           and_then (parse c) (\<lambda>condition.
             Inr \<lparr>cr_rule_id = (case sr_id rule of Some i \<Rightarrow> i | None \<Rightarrow> sr_title rule),
                  cr_title = sr_title rule,
                  cr_severity = level_to_severity (sr_level rule),
                  cr_technique = technique_from_tags (sr_tags rule),
                  cr_tags = sr_tags rule,
                  cr_selections = sels,
                  cr_names = map fst sels,
                  cr_condition = condition\<rparr>))"

section \<open>Evaluation\<close>

definition rule_matches :: "sigma_env \<Rightarrow> compiled_rule \<Rightarrow> event \<Rightarrow> bool" where
  "rule_matches E r ev =
     (let haystack = event_haystack E ev;
          results = map_of (map (\<lambda>(name, sel). (name, selection_eval E sel ev haystack)) (cr_selections r))
      in eval (cr_condition r) results (cr_names r))"

definition to_alert :: "timestamp \<Rightarrow> compiled_rule \<Rightarrow> event \<Rightarrow> alert" where
  "to_alert now r ev =
     \<lparr>al_rule_id = cr_rule_id r, al_title = cr_title r, al_severity = cr_severity r,
      al_technique = cr_technique r, al_events = [ev_id ev],
      al_ts = (if ev_ts ev \<noteq> 0 then ev_ts ev else now)\<rparr>"

record sigma_engine =
  en_rules :: "compiled_rule list"

record rule_info =
  ri_rule_id :: string
  ri_title :: string
  ri_severity :: severity
  ri_technique :: "string option"
  ri_tags :: "string list"

definition rule_infos :: "sigma_engine \<Rightarrow> rule_info list" where
  "rule_infos e =
     map (\<lambda>r. \<lparr>ri_rule_id = cr_rule_id r, ri_title = cr_title r, ri_severity = cr_severity r,
               ri_technique = cr_technique r, ri_tags = cr_tags r\<rparr>) (en_rules e)"

definition engine_eval :: "sigma_env \<Rightarrow> timestamp \<Rightarrow> sigma_engine \<Rightarrow> event \<Rightarrow> alert list" where
  "engine_eval E now e ev = map (\<lambda>r. to_alert now r ev) (filter (\<lambda>r. rule_matches E r ev) (en_rules e))"

record load_report =
  lr_loaded :: nat
  lr_failed :: "(string \<times> error) list"

text \<open>
  \<open>SigmaEngine::load_dir\<close> after the directory walk: every rule document that is not a
  correlation document is compiled, failures are collected. Deserializing a document is the
  parameter \<open>doc\<close>.
\<close>

fun load_rules ::
  "sigma_env \<Rightarrow> (string \<Rightarrow> sigma_rule result) \<Rightarrow> (string \<Rightarrow> bool) \<Rightarrow> (string \<times> string) list \<Rightarrow>
     compiled_rule list \<times> load_report" where
  "load_rules E doc is_corr [] = ([], \<lparr>lr_loaded = 0, lr_failed = []\<rparr>)"
| "load_rules E doc is_corr ((path, text) # files) =
     (let (rules, rep) = load_rules E doc is_corr files in
      if is_corr text then (rules, rep)
      else case and_then (doc text) (from_rule E) of
             Inr r \<Rightarrow> (r # rules, rep\<lparr>lr_loaded := Suc (lr_loaded rep)\<rparr>)
           | Inl err \<Rightarrow> (rules, rep\<lparr>lr_failed := (path, err) # lr_failed rep\<rparr>))"

section \<open>The per-rule test harness\<close>

record test_case =
  tc_name :: string
  tc_event :: event
  tc_expect_match :: bool

text \<open>\<open>run_cases\<close> of \<open>harness.rs\<close>: one failure (named by its case) per wrong verdict.\<close>

definition run_cases :: "sigma_env \<Rightarrow> compiled_rule \<Rightarrow> test_case list \<Rightarrow> string list" where
  "run_cases E r cases =
     map tc_name (filter (\<lambda>c. rule_matches E r (tc_event c) \<noteq> tc_expect_match c) cases)"

section \<open>Compiled rules are well formed\<close>

definition rule_wf :: "compiled_rule \<Rightarrow> bool" where
  "rule_wf r \<longleftrightarrow> distinct (map fst (cr_selections r)) \<and> cr_names r = map fst (cr_selections r) \<and>
     ''condition'' \<notin> set (cr_names r)"

lemma compile_detection_wf:
  "compile_detection E d (sels, cond) = Inr (sels', cond') \<Longrightarrow>
     distinct (map fst sels) \<Longrightarrow> ''condition'' \<notin> fst ` set sels \<Longrightarrow>
     distinct (map fst sels') \<and> ''condition'' \<notin> fst ` set sels'"
proof (induction E d "(sels, cond)" arbitrary: sels cond rule: compile_detection.induct)
  case (1 E)
  then show ?case by simp
next
  case (2 E k v d sels cond)
  from 2(3) obtain key where key: "as_str k = Some key" by (cases "as_str k") auto
  show ?case
  proof (cases "key = ''condition''")
    case True
    with 2(3) key obtain c where c: "condition_to_string v = Inr c"
      and r: "compile_detection E d (sels, Some c) = Inr (sels', cond')"
      by (auto simp: and_then_Inr_iff)
    from 2(1) [OF key True r] 2(4,5) show ?thesis by simp
  next
    case False
    with 2(3) key obtain s where s: "compile_selection E v = Inr s"
      and r: "compile_detection E d (hash_insert key s sels, cond) = Inr (sels', cond')"
      by (auto simp: and_then_Inr_iff)
    from 2(2) [OF key False r] 2(4,5) False show ?thesis by (simp add: distinct_hash_insert)
  qed
qed

lemma from_rule_wf: "from_rule E rule = Inr r \<Longrightarrow> rule_wf r"
  using compile_detection_wf [of E "sr_detection rule" "[]" None]
  by (fastforce simp: from_rule_def and_then_Inr_iff rule_wf_def split: option.splits)

lemma map_of_map_eval:
  "map_of (map (\<lambda>(n, s). (n, f s)) m) k = map_option f (map_of m k)"
  by (induction m) auto

text \<open>
  C10: A rule that compiles matches an event exactly when its parsed condition holds of the set
  of its selections that match: the end-to-end meaning of a Sigma rule, whatever order the
  hash map of selections has.
\<close>

theorem compiled_rule_meaning:
  assumes "from_rule E rule = Inr r"
  shows "rule_matches E r ev \<longleftrightarrow>
    holds (fst ` set (cr_selections r))
      {n. \<exists>sel. (n, sel) \<in> set (cr_selections r) \<and> selection_eval E sel ev (event_haystack E ev)}
      (cr_condition r)"
proof -
  from from_rule_wf [OF assms] have d: "distinct (map fst (cr_selections r))"
    and n: "cr_names r = map fst (cr_selections r)" by (auto simp: rule_wf_def)
  let ?res = "map_of (map (\<lambda>(n, s). (n, selection_eval E s ev (event_haystack E ev))) (cr_selections r))"
  have "{n. ?res n = Some True} =
      {n. \<exists>sel. (n, sel) \<in> set (cr_selections r) \<and> selection_eval E sel ev (event_haystack E ev)}"
    using d by (auto simp: map_of_map_eval map_of_eq_Some_iff)
  moreover have "rule_matches E r ev = holds (set (cr_names r)) {n. ?res n = Some True} (cr_condition r)"
    unfolding rule_matches_def Let_def using d n by (intro eval_holds_aux) simp
  ultimately show ?thesis using n by simp
qed

definition demo_env :: sigma_env where
  "demo_env = \<lparr>json_text = (\<lambda>_. []), regex_ok = (\<lambda>_. True), regex_is_match = (\<lambda>_ _. False),
     regex_escape = id, yaml_text = (\<lambda>_. None)\<rparr>"

definition demo_rule :: sigma_rule where
  "demo_rule = \<lparr>sr_title = ''root login'', sr_id = Some ''r1'', sr_level = Some ''High'',
     sr_detection = [(YString ''sel'', YMapping [(YString ''user'', YString ''Root'')]),
                     (YString ''condition'', YString ''sel'')],
     sr_tags = [''attack.t1078'']\<rparr>"

definition demo_compiled :: compiled_rule where
  "demo_compiled = \<lparr>cr_rule_id = ''r1'', cr_title = ''root login'', cr_severity = High,
     cr_technique = Some ''T1078'', cr_tags = [''attack.t1078''],
     cr_selections = [(''sel'', Fields [\<lparr>fc_field = ''user'', fc_all = False, fc_preds = [Equals ''root'']\<rparr>])],
     cr_names = [''sel''], cr_condition = Ref ''sel''\<rparr>"

lemma parse_ref: "valid_name x \<Longrightarrow> parse x = Inr (Ref x)"
  using tokenize_show_toks [of "[TIdent x]"] parse_expr_toks [of "Ref x"]
  by (simp add: parse_def)

lemma demo_compiles: "from_rule demo_env demo_rule = Inr demo_compiled"
proof -
  have "parse ''sel'' = Inr (Ref ''sel'')"
    by (rule parse_ref) (simp add: valid_name_def string_eval)
  then show ?thesis
    by (simp add: from_rule_def demo_rule_def demo_compiled_def demo_env_def compile_selection_def
        compile_field_map_def compile_field_def modifiers_parse_def build_def has_wild_def
        condition_to_string_def level_to_severity_def string_eval)
qed

theorem compiled_rule_meaning_witness:
  "from_rule demo_env demo_rule = Inr demo_compiled \<and>
   rule_matches demo_env demo_compiled
     ((new_event ''e1'' 7 ''t'')\<lparr>ev_actor := Some (entity ''user'' ''ROOT'')\<rparr>)"
proof -
  let ?ev = "(new_event ''e1'' 7 ''t'')\<lparr>ev_actor := Some (entity ''user'' ''ROOT'')\<rparr>"
  have "''sel'' \<in> {n. \<exists>sel. (n, sel) \<in> set (cr_selections demo_compiled) \<and>
      selection_eval demo_env sel ?ev (event_haystack demo_env ?ev)}"
    by (simp add: demo_compiled_def field_cond_eval_def resolve_field_def resolve_alias_def
        new_event_def entity_def entity_ids_of_kind_def nonempty_def pred_hit_def pred_matches_def string_eval)
  then have "holds (fst ` set (cr_selections demo_compiled))
      {n. \<exists>sel. (n, sel) \<in> set (cr_selections demo_compiled) \<and>
        selection_eval demo_env sel ?ev (event_haystack demo_env ?ev)} (cr_condition demo_compiled)"
    by (simp add: demo_compiled_def)
  with compiled_rule_meaning [OF demo_compiles, of ?ev] demo_compiles show ?thesis by blast
qed

text \<open>
  A list of conditions is their disjunction: when every member parses on its own, the joined
  string \<open>(c1) or (c2) or ...\<close> that compilation builds parses to the left-nested \<open>or\<close> of the
  members' expressions.
\<close>

theorem condition_list_is_or:
  assumes "parse c = Inr e" and "list_all2 (\<lambda>c e. parse c = Inr e) cs es"
  shows "and_then (condition_to_string (YSequence (map YString (c # cs)))) parse = Inr (foldl OrE e es)"
proof -
  have "List.map_filter as_str (map YString ss) = ss" for ss
    by (induction ss) (auto simp: List.map_filter_def)
  then have "condition_to_string (YSequence (map YString (c # cs))) =
      Inr (join '' or '' (map (\<lambda>s. ''('' @ s @ '')'') (c # cs)))"
    by (simp add: condition_to_string_def Let_def del: list.map)
  then show ?thesis using parse_or_list [OF assms] by simp
qed

theorem condition_list_is_or_witness:
  "parse ''a1'' = Inr (Ref ''a1'') \<and> parse ''b1'' = Inr (Ref ''b1'') \<and>
   and_then (condition_to_string (YSequence [YString ''a1'', YString ''b1''])) parse =
     Inr (OrE (Ref ''a1'') (Ref ''b1''))"
proof -
  have p: "parse ''a1'' = Inr (Ref ''a1'')" "parse ''b1'' = Inr (Ref ''b1'')"
    by (rule parse_ref, simp add: valid_name_def string_eval)+
  then show ?thesis
    using condition_list_is_or [of "''a1''" "Ref ''a1''" "[''b1'']" "[Ref ''b1'']"] by simp
qed

lemma load_rules_wf: "r \<in> set (fst (load_rules E doc is_corr files)) \<Longrightarrow> rule_wf r"
proof (induction files arbitrary: r)
  case Nil
  then show ?case by simp
next
  case (Cons f files)
  then show ?case
    by (cases f) (auto simp: Let_def and_then_Inr_iff split: prod.splits sum.splits if_splits
        dest: from_rule_wf)
qed

text \<open>
  Loading a rulepack loses nothing: the rules loaded and the failures reported add up to the
  documents that are not correlation documents, the report counts the loaded rules, and every
  loaded rule is well formed (distinct selection names, listed once each).
\<close>

theorem load_rules_accounts:
  "lr_loaded (snd (load_rules E doc is_corr files)) = length (fst (load_rules E doc is_corr files)) \<and>
   length (fst (load_rules E doc is_corr files)) + length (lr_failed (snd (load_rules E doc is_corr files))) =
     length (filter (\<lambda>f. \<not> is_corr (snd f)) files) \<and>
   list_all rule_wf (fst (load_rules E doc is_corr files))"
proof -
  have "list_all rule_wf (fst (load_rules E doc is_corr files))"
    using load_rules_wf by (fastforce simp: list_all_iff)
  moreover have "lr_loaded (snd (load_rules E doc is_corr files)) = length (fst (load_rules E doc is_corr files)) \<and>
      length (fst (load_rules E doc is_corr files)) + length (lr_failed (snd (load_rules E doc is_corr files))) =
        length (filter (\<lambda>f. \<not> is_corr (snd f)) files)"
  proof (induction files)
    case (Cons f files)
    then show ?case
      by (cases f) (auto simp: Let_def split: prod.splits sum.splits)
  qed simp
  ultimately show ?thesis by simp
qed

text \<open>The harness reports no failure exactly when every verdict is as expected.\<close>

lemma run_cases_empty:
  "run_cases E r cases = [] \<longleftrightarrow> list_all (\<lambda>c. rule_matches E r (tc_event c) = tc_expect_match c) cases"
  by (auto simp: run_cases_def filter_empty_conv list_all_iff)

end
