(* ===== verification/Sigma_Correlation.thy ===== *)
theory Sigma_Correlation
  imports Sigma_Engine
begin

text \<open>
  Sigma correlation rules, \<open>crates/sigil-sigma/src/correlation.rs\<close>, and the retro-hunt of
  \<open>hunt.rs\<close>: count conditions, timespans, compilation of a correlation rule, the sliding
  windows per rule and group, their evaluation, suppression of base alerts and the replay of
  historical events. A rule's windows are an association list from group keys to entries,
  oldest first; the set of suppressed rule ids is a list.

  The clock read by \<open>now_micros\<close> is the argument \<open>clock\<close>; an event without a timestamp
  (\<open>ts = 0\<close>) is stamped with it, as in the code. \<open>i64\<close> arithmetic wraps as in a release build.
\<close>

section \<open>Rules\<close>

datatype correlation_kind = EventCount | ValueCount | Temporal | TemporalOrdered

record count_condition =
  cc_field :: "string option"
  cc_gt :: "nat option"
  cc_gte :: "nat option"
  cc_lt :: "nat option"
  cc_lte :: "nat option"
  cc_eq :: "nat option"

definition default_condition :: count_condition where
  "default_condition = \<lparr>cc_field = None, cc_gt = None, cc_gte = None, cc_lt = None, cc_lte = None, cc_eq = None\<rparr>"

fun opt_holds :: "('a \<Rightarrow> bool) \<Rightarrow> 'a option \<Rightarrow> bool" where
  "opt_holds P None = True"
| "opt_holds P (Some x) = P x"

definition satisfied :: "count_condition \<Rightarrow> nat \<Rightarrow> bool" where
  "satisfied c n \<longleftrightarrow> opt_holds (\<lambda>v. n > v) (cc_gt c) \<and> opt_holds (\<lambda>v. n \<ge> v) (cc_gte c) \<and>
     opt_holds (\<lambda>v. n < v) (cc_lt c) \<and> opt_holds (\<lambda>v. n \<le> v) (cc_lte c) \<and>
     opt_holds (\<lambda>v. n = v) (cc_eq c)"

definition is_vacuous :: "count_condition \<Rightarrow> bool" where
  "is_vacuous c \<longleftrightarrow> cc_gt c = None \<and> cc_gte c = None \<and> cc_lt c = None \<and> cc_lte c = None \<and> cc_eq c = None"

definition parse_timespan :: "string \<Rightarrow> int result" where
  "parse_timespan text =
     (let s = trim text;
          num = take (length s - 1) s;
          unit = drop (length s - 1) s
      in case parse_i64 num of
           None \<Rightarrow> Inl (Config ''invalid timespan'')
         | Some n \<Rightarrow>
             (let secs = (if unit = ''s'' then Some n
                          else if unit = ''m'' then Some (wrap64 (n * 60))
                          else if unit = ''h'' then Some (wrap64 (n * 3600))
                          else if unit = ''d'' then Some (wrap64 (n * 86400))
                          else None)
              in case secs of
                   None \<Rightarrow> Inl (Config ''invalid timespan unit'')
                 | Some k \<Rightarrow> if k \<le> 0 then Inl (Config ''timespan must be positive'')
                             else Inr (wrap64 (k * 1000000))))"

record correlation_spec =
  cs_kind :: correlation_kind
  cs_rules :: "string list"
  cs_group_by :: "string list"
  cs_timespan :: string
  cs_condition :: "count_condition option"
  cs_generate :: bool

record correlation_rule =
  cor_title :: string
  cor_id :: "string option"
  cor_level :: "string option"
  cor_tags :: "string list"
  cor_spec :: correlation_spec

record compiled_correlation =
  co_rule_id :: string
  co_title :: string
  co_severity :: severity
  co_technique :: "string option"
  co_tags :: "string list"
  co_kind :: correlation_kind
  co_rules :: "string list"
  co_group_by :: "string list"
  co_timespan :: int
  co_condition :: count_condition
  co_generate :: bool

definition correlation_from_rule :: "correlation_rule \<Rightarrow> compiled_correlation result" where
  "correlation_from_rule rule =
     (let spec = cor_spec rule;
          condition = (case cs_condition spec of Some c \<Rightarrow> c | None \<Rightarrow> default_condition)
      in if cs_rules spec = [] then Inl (Config ''correlation references no rules'')
         else if cs_kind spec = EventCount \<and> is_vacuous condition then
           Inl (Config ''event_count correlation needs a condition'')
         else if cs_kind spec = ValueCount \<and> cc_field condition = None then
           Inl (Config ''value_count correlation needs condition.field'')
         else and_then (parse_timespan (cs_timespan spec)) (\<lambda>timespan.
           Inr \<lparr>co_rule_id = (case cor_id rule of Some i \<Rightarrow> i | None \<Rightarrow> cor_title rule),
                co_title = cor_title rule,
                co_severity = level_to_severity (cor_level rule),
                co_technique = technique_from_tags (cor_tags rule),
                co_tags = cor_tags rule,
                co_kind = cs_kind spec,
                co_rules = cs_rules spec,
                co_group_by = cs_group_by spec,
                co_timespan = timespan,
                co_condition = condition,
                co_generate = cs_generate spec\<rparr>))"

definition group_key :: "sigma_env \<Rightarrow> compiled_correlation \<Rightarrow> event \<Rightarrow> string" where
  "group_key E r ev =
     join [CHR 0x1F] (map (\<lambda>f. join '','' (sort (resolve_field E ev f))) (co_group_by r))"

section \<open>Windows\<close>

record window_entry =
  we_ts :: timestamp
  we_rule_id :: string
  we_event_id :: string
  we_value :: "string option"

text \<open>\<open>TemporalOrdered\<close>: walk the window, advancing through the wanted rules.\<close>

fun ordered_scan :: "string list \<Rightarrow> window_entry list \<Rightarrow> string list" where
  "ordered_scan want [] = want"
| "ordered_scan want (e # es) =
     (case want of
        r # rs \<Rightarrow> if r = we_rule_id e then ordered_scan rs es else ordered_scan want es
      | [] \<Rightarrow> ordered_scan [] es)"

definition evaluate :: "compiled_correlation \<Rightarrow> window_entry list \<Rightarrow> bool" where
  "evaluate rule window =
     (case co_kind rule of
        EventCount \<Rightarrow> satisfied (co_condition rule) (length window)
      | ValueCount \<Rightarrow>
          satisfied (co_condition rule) (length (remdups (List.map_filter we_value window)))
      | Temporal \<Rightarrow> list_all (\<lambda>r. list_ex (\<lambda>e. we_rule_id e = r) window) (co_rules rule)
      | TemporalOrdered \<Rightarrow> ordered_scan (co_rules rule) window = [])"

type_synonym windows = "(string \<times> window_entry list) list"

definition window_of :: "windows \<Rightarrow> string \<Rightarrow> window_entry list" where
  "window_of ws k = (case map_of ws k of Some w \<Rightarrow> w | None \<Rightarrow> [])"

definition entry_for ::
  "sigma_env \<Rightarrow> compiled_correlation \<Rightarrow> event \<Rightarrow> timestamp \<Rightarrow> alert \<Rightarrow> window_entry" where
  "entry_for E rule ev now a =
     \<lparr>we_ts = now, we_rule_id = al_rule_id a, we_event_id = ev_id ev,
      we_value = (case cc_field (co_condition rule) of
          None \<Rightarrow> None
        | Some f \<Rightarrow> (case resolve_field E ev f of [] \<Rightarrow> None | v # _ \<Rightarrow> Some v))\<rparr>"

definition event_time :: "timestamp \<Rightarrow> event \<Rightarrow> timestamp" where
  "event_time clock ev = (if ev_ts ev \<noteq> 0 then ev_ts ev else clock)"

definition matched_alerts :: "compiled_correlation \<Rightarrow> alert list \<Rightarrow> alert list" where
  "matched_alerts rule base = filter (\<lambda>a. al_rule_id a \<in> set (co_rules rule)) base"

text \<open>The window of the event's group after the push and the pops from the front.\<close>

definition slide ::
  "sigma_env \<Rightarrow> timestamp \<Rightarrow> compiled_correlation \<Rightarrow> event \<Rightarrow> alert list \<Rightarrow> window_entry list \<Rightarrow>
     window_entry list" where
  "slide E clock rule ev base w =
     (let now = event_time clock ev
      in dropWhile (\<lambda>e. we_ts e < wrap64 (now - co_timespan rule))
           (w @ map (entry_for E rule ev now) (matched_alerts rule base)))"

definition correlation_alert ::
  "timestamp \<Rightarrow> compiled_correlation \<Rightarrow> event \<Rightarrow> window_entry list \<Rightarrow> alert" where
  "correlation_alert clock rule ev w =
     \<lparr>al_rule_id = co_rule_id rule, al_title = co_title rule, al_severity = co_severity rule,
      al_technique = co_technique rule, al_events = remdups_adj (map we_event_id w),
      al_ts = event_time clock ev\<rparr>"

text \<open>One iteration of the loop over the rules: the new windows and the alert, if it fired.\<close>

definition process_rule ::
  "sigma_env \<Rightarrow> timestamp \<Rightarrow> event \<Rightarrow> alert list \<Rightarrow> compiled_correlation \<Rightarrow> windows \<Rightarrow>
     windows \<times> alert list" where
  "process_rule E clock ev base rule ws =
     (if matched_alerts rule base = [] then (ws, [])
      else let key = group_key E rule ev;
               w = slide E clock rule ev base (window_of ws key)
           in if evaluate rule w then (hash_insert key [] ws, [correlation_alert clock rule ev w])
              else (hash_insert key w ws, []))"

record correlation_engine =
  ce_rules :: "compiled_correlation list"
  ce_windows :: "windows list"
  ce_suppressed :: "string list"

definition correlation_engine_new :: "compiled_correlation list \<Rightarrow> correlation_engine" where
  "correlation_engine_new rules =
     \<lparr>ce_rules = rules, ce_windows = map (\<lambda>_. []) rules,
      ce_suppressed = concat (map co_rules (filter (\<lambda>r. \<not> co_generate r) rules))\<rparr>"

definition suppressed :: "correlation_engine \<Rightarrow> string \<Rightarrow> bool" where
  "suppressed ce rid \<longleftrightarrow> rid \<in> set (ce_suppressed ce)"

definition process ::
  "sigma_env \<Rightarrow> timestamp \<Rightarrow> correlation_engine \<Rightarrow> event \<Rightarrow> alert list \<Rightarrow>
     correlation_engine \<times> alert list" where
  "process E clock ce ev base =
     (let results = map (\<lambda>(r, ws). process_rule E clock ev base r ws) (zip (ce_rules ce) (ce_windows ce))
      in (ce\<lparr>ce_windows := map fst results\<rparr>, concat (map snd results)))"

section \<open>Retro-hunt\<close>

record hunt_outcome =
  ho_scanned :: nat
  ho_alerts :: "alert list"
  ho_correlation_alerts :: "alert list"

fun hunt_loop ::
  "sigma_env \<Rightarrow> timestamp \<Rightarrow> sigma_engine \<Rightarrow> correlation_engine \<Rightarrow> event list \<Rightarrow>
     correlation_engine \<times> alert list \<times> alert list" where
  "hunt_loop E clock en ce [] = (ce, [], [])"
| "hunt_loop E clock en ce (ev # evs) =
     (let base = engine_eval E clock en ev;
          (ce', fired) = process E clock ce ev base;
          kept = filter (\<lambda>a. \<not> suppressed ce' (al_rule_id a)) base;
          (ce'', alerts, corr) = hunt_loop E clock en ce' evs
      in (ce'', kept @ alerts, fired @ corr))"

definition retro_hunt ::
  "sigma_env \<Rightarrow> timestamp \<Rightarrow> sigma_engine \<Rightarrow> correlation_engine \<Rightarrow> event list \<Rightarrow>
     correlation_engine \<times> hunt_outcome" where
  "retro_hunt E clock en ce events =
     (let sorted = sort_key ev_ts events;
          (ce', alerts, corr) = hunt_loop E clock en ce sorted
      in (ce', \<lparr>ho_scanned = length events, ho_alerts = alerts, ho_correlation_alerts = corr\<rparr>))"

definition all_alerts :: "hunt_outcome \<Rightarrow> alert list" where
  "all_alerts o' = ho_alerts o' @ ho_correlation_alerts o'"

section \<open>Timespans\<close>

lemma parse_timespan_range: "parse_timespan s = Inr t \<Longrightarrow> t \<in> i64_range"
  by (auto simp: parse_timespan_def Let_def wrap64_range split: option.splits if_splits)

definition unit_secs :: "char \<Rightarrow> int option" where
  "unit_secs c = (if c = CHR ''s'' then Some 1 else if c = CHR ''m'' then Some 60
     else if c = CHR ''h'' then Some 3600 else if c = CHR ''d'' then Some 86400 else None)"

lemma unit_secs_pos: "unit_secs c = Some k \<Longrightarrow> 1 \<le> k \<and> \<not> is_space c"
  by (auto simp: unit_secs_def is_space_def split: if_splits)

lemma parse_i64_show_nat: "n < 2 ^ 63 \<Longrightarrow> parse_i64 (show_nat n) = Some (int n)"
proof -
  assume n: "n < 2 ^ 63"
  obtain c r where cr: "show_nat n = c # r" by (cases "show_nat n") auto
  have "is_digit c" using show_nat_digits [of n] cr by simp
  then have "c \<noteq> CHR ''-''" by (auto simp: is_digit_def)
  then show ?thesis
    using parse_unsigned_show_nat [of n "2 ^ 63 - 1"] n cr by (simp add: parse_i64_def)
qed

text \<open>
  Timespans are read as the number of seconds the unit denotes, in microseconds, as long as
  the product fits in 64 bits: \<open>n\<close> followed by a unit of \<open>k\<close> seconds gives \<open>n * k * 1000000\<close>, a
  positive number.
\<close>

theorem parse_timespan_exact:
  assumes "unit_secs c = Some k" and "0 < n" and "int n * k * 1000000 < 2 ^ 63"
  shows "parse_timespan (show_nat n @ [c]) = Inr (int n * k * 1000000)"
proof -
  have k: "1 \<le> k" and c: "\<not> is_space c" using unit_secs_pos [OF assms(1)] by auto
  obtain d r where dr: "show_nat n = d # r" by (cases "show_nat n") auto
  have "is_digit d" using show_nat_digits [of n] dr by simp
  then have trim: "trim (show_nat n @ [c]) = show_nat n @ [c]"
    using c dr by (intro trim_noop) (auto simp: is_digit_not_space)
  have pos: "0 < int n * k" using assms(2) k by simp
  have "int n * k < 2 ^ 63" using assms(3) pos by linarith
  moreover have "int n \<le> int n * k" using k by (simp add: mult_le_cancel_left1)
  ultimately have "int n < 2 ^ 63" by linarith
  then have n: "n < 2 ^ 63" by simp
  have "wrap64 (int n * k) = int n * k"
    by (rule wrap64_id) (use \<open>int n * k < 2 ^ 63\<close> pos in \<open>unfold i64_range_def atLeastLessThan_iff, linarith\<close>)
  moreover have "wrap64 (int n * k * 1000000) = int n * k * 1000000"
    by (rule wrap64_id) (use assms(3) pos in \<open>unfold i64_range_def atLeastLessThan_iff, linarith\<close>)
  moreover have "int n = int n * k" if "k = 1" using that by simp
  ultimately
  show ?thesis
    using assms(1) pos parse_i64_show_nat [OF n]
    by (auto simp: parse_timespan_def Let_def trim unit_secs_def split: if_splits)
qed

theorem parse_timespan_exact_witness:
  "unit_secs CHR ''m'' = Some 60 \<and> parse_timespan (show_nat 10 @ ''m'') = Inr 600000000"
  using parse_timespan_exact [of "CHR ''m''" 60 10] by (simp add: unit_secs_def)

text \<open>
  Without that bound the positivity check does not protect the window: a timespan of
  10000000000000 seconds passes it, and the conversion to microseconds wraps to a negative
  window length.
\<close>

theorem parse_timespan_overflow:
  "parse_timespan ''10000000000000s'' = Inr (- 8446744073709551616)"
  by (simp add: parse_timespan_def string_eval wrap64_def)

section \<open>Evaluation of windows\<close>

lemma ordered_scan_Nil [simp]: "ordered_scan [] w = []"
  by (induction w) auto

lemma ordered_scan_subseq: "ordered_scan want w = [] \<longleftrightarrow> subseq want (map we_rule_id w)"
proof (induction want w rule: ordered_scan.induct)
  case (1 want)
  then show ?case by (cases want) auto
next
  case (2 want e es)
  then show ?case by (cases want) auto
qed

text \<open>The documented meaning of the four kinds, over the window's entries.\<close>

fun kind_spec :: "correlation_kind \<Rightarrow> compiled_correlation \<Rightarrow> window_entry list \<Rightarrow> bool" where
  "kind_spec EventCount r w = satisfied (co_condition r) (length w)"
| "kind_spec ValueCount r w = satisfied (co_condition r) (card {v. \<exists>e \<in> set w. we_value e = Some v})"
| "kind_spec Temporal r w = (set (co_rules r) \<subseteq> we_rule_id ` set w)"
| "kind_spec TemporalOrdered r w = subseq (co_rules r) (map we_rule_id w)"

text \<open>
  A window is evaluated as documented: \<open>event_count\<close> compares the number of entries,
  \<open>value_count\<close> the number of distinct values, \<open>temporal\<close> wants every referenced rule in the
  window, and \<open>temporal_ordered\<close> wants the referenced rules as a subsequence in listed order.
\<close>

theorem evaluate_spec: "evaluate r w = kind_spec (co_kind r) r w"
proof (cases "co_kind r")
  case ValueCount
  have "set (List.map_filter we_value w) = {v. \<exists>e \<in> set w. we_value e = Some v}"
    by (force simp: List.map_filter_def)
  then show ?thesis using ValueCount by (simp add: evaluate_def length_remdups_card_conv)
next
  case Temporal
  then show ?thesis by (auto simp: evaluate_def list_all_iff list_ex_iff)
qed (simp_all add: evaluate_def ordered_scan_subseq)

section \<open>Sliding windows implement time windows\<close>

text \<open>
  One rule's view of a stream: for each event the reading of the clock made for it, the event and its
  base alerts.
\<close>

type_synonym feed = "(timestamp \<times> event \<times> alert list) list"

definition feed_time :: "timestamp \<times> event \<times> alert list \<Rightarrow> timestamp" where
  "feed_time x = (case x of (clock, ev, _) \<Rightarrow> event_time clock ev)"

fun run_rule ::
  "sigma_env \<Rightarrow> compiled_correlation \<Rightarrow> windows \<Rightarrow> feed \<Rightarrow> windows \<times> alert list" where
  "run_rule E rule ws [] = (ws, [])"
| "run_rule E rule ws ((clock, ev, base) # xs) =
     (let (ws1, fired) = process_rule E clock ev base rule ws;
          (ws2, rest) = run_rule E rule ws1 xs
      in (ws2, fired @ rest))"

text \<open>
  The specification keeps, per group, everything matched since the group last fired, and asks
  the condition of the entries that are at most the timespan old; nothing is ever popped.
\<close>

type_synonym history = "string \<Rightarrow> window_entry list"

definition spec_rule ::
  "sigma_env \<Rightarrow> timestamp \<Rightarrow> event \<Rightarrow> alert list \<Rightarrow> compiled_correlation \<Rightarrow> history \<Rightarrow> history \<times> alert list" where
  "spec_rule E clock ev base rule h =
     (if matched_alerts rule base = [] then (h, [])
      else let key = group_key E rule ev;
               now = event_time clock ev;
               full = h key @ map (entry_for E rule ev now) (matched_alerts rule base);
               recent = filter (\<lambda>e. now - co_timespan rule \<le> we_ts e) full
           in if evaluate rule recent then (h(key := []), [correlation_alert clock rule ev recent])
              else (h(key := full), []))"

fun run_spec ::
  "sigma_env \<Rightarrow> compiled_correlation \<Rightarrow> history \<Rightarrow> feed \<Rightarrow> history \<times> alert list" where
  "run_spec E rule h [] = (h, [])"
| "run_spec E rule h ((clock, ev, base) # xs) =
     (let (h1, fired) = spec_rule E clock ev base rule h;
          (h2, rest) = run_spec E rule h1 xs
      in (h2, fired @ rest))"

text \<open>What a window is to the history of its group when all entries are at most \<open>T\<close>.\<close>

definition window_rel :: "int \<Rightarrow> timestamp \<Rightarrow> window_entry list \<Rightarrow> window_entry list \<Rightarrow> bool" where
  "window_rel span T w h \<longleftrightarrow> sorted (map we_ts h) \<and> list_all (\<lambda>e. we_ts e \<le> T) h \<and>
     (\<exists>p. h = p @ w \<and> list_all (\<lambda>e. we_ts e < T - span) p)"

lemma window_rel_mono: "window_rel span T w h \<Longrightarrow> T \<le> T' \<Longrightarrow> window_rel span T' w h"
  by (fastforce simp: window_rel_def list_all_iff)

lemma window_rel_Nil [simp]: "window_rel span T [] []"
  by (simp add: window_rel_def)

lemma dropWhile_sorted_filter:
  "sorted (map f xs) \<Longrightarrow> dropWhile (\<lambda>x. f x < b) xs = filter (\<lambda>x. b \<le> f x) xs"
proof (induction xs)
  case (Cons x xs)
  then have "filter (\<lambda>y. b \<le> f y) xs = xs" if "b \<le> f x"
    using that by (auto simp: filter_id_conv intro: order_trans)
  with Cons show ?case by auto
qed simp

lemma window_rel_slide:
  assumes rel: "window_rel span T w h" and T: "T \<le> now" and span: "0 \<le> span"
    and new: "list_all (\<lambda>e. we_ts e = now) new"
  defines "w' \<equiv> dropWhile (\<lambda>e. we_ts e < now - span) (w @ new)"
  shows "w' = filter (\<lambda>e. now - span \<le> we_ts e) (h @ new) \<and> window_rel span now w' (h @ new)"
proof -
  obtain p where p: "h = p @ w" "list_all (\<lambda>e. we_ts e < T - span) p"
    and sorted: "sorted (map we_ts h)" and le: "list_all (\<lambda>e. we_ts e \<le> T) h"
    using rel by (auto simp: window_rel_def)
  have const: "sorted (map we_ts new)"
    using new by (induction new) (auto simp: list_all_iff)
  have old: "filter (\<lambda>e. now - span \<le> we_ts e) p = []"
    using p(2) T by (fastforce simp: filter_empty_conv list_all_iff)
  have all: "sorted (map we_ts (h @ new))"
    using sorted const le new T by (fastforce simp: sorted_append list_all_iff)
  have bound: "list_all (\<lambda>e. we_ts e \<le> now) (h @ new)"
    using le new T by (auto simp: list_all_iff)
  from all have "sorted (map we_ts (w @ new))" using p(1) by (simp add: sorted_append)
  then have w': "w' = filter (\<lambda>e. now - span \<le> we_ts e) (w @ new)"
    unfolding w'_def by (rule dropWhile_sorted_filter)
  have "h @ new = (p @ takeWhile (\<lambda>e. we_ts e < now - span) (w @ new)) @ w'"
    using p(1) by (simp add: w'_def)
  moreover have "list_all (\<lambda>e. we_ts e < now - span) (p @ takeWhile (\<lambda>e. we_ts e < now - span) (w @ new))"
  proof -
    have "\<forall>e \<in> set p. we_ts e < now - span" using p(2) T by (auto simp: list_all_iff)
    then show ?thesis by (auto simp: list_all_iff dest: set_takeWhileD)
  qed
  ultimately have "window_rel span now w' (h @ new)"
    unfolding window_rel_def using all bound by blast
  with w' old p(1) show ?thesis by simp
qed

definition windows_rel :: "int \<Rightarrow> timestamp \<Rightarrow> windows \<Rightarrow> history \<Rightarrow> bool" where
  "windows_rel span T ws h \<longleftrightarrow> (\<forall>k. window_rel span T (window_of ws k) (h k))"

lemma window_of_insert: "window_of (hash_insert k w ws) k' = (if k' = k then w else window_of ws k')"
  by (simp add: window_of_def map_of_hash_insert)

lemma wrap64_diff: "0 \<le> a \<Longrightarrow> a < 2 ^ 63 \<Longrightarrow> 0 \<le> b \<Longrightarrow> b < 2 ^ 63 \<Longrightarrow> wrap64 (a - b) = a - b"
  by (rule wrap64_id) (auto simp: i64_range_def)

lemma process_rule_refines:
  assumes rel: "windows_rel (co_timespan rule) T ws h" and T: "T \<le> event_time clock ev"
    and time: "0 \<le> event_time clock ev" "event_time clock ev < 2 ^ 63"
    and span: "0 \<le> co_timespan rule" "co_timespan rule < 2 ^ 63"
  shows "snd (process_rule E clock ev base rule ws) = snd (spec_rule E clock ev base rule h) \<and>
    windows_rel (co_timespan rule) (event_time clock ev)
      (fst (process_rule E clock ev base rule ws)) (fst (spec_rule E clock ev base rule h))"
proof (cases "matched_alerts rule base = []")
  case True
  with rel T show ?thesis
    by (auto simp: process_rule_def spec_rule_def windows_rel_def intro: window_rel_mono)
next
  case False
  let ?now = "event_time clock ev" and ?k = "group_key E rule ev"
  let ?new = "map (entry_for E rule ev ?now) (matched_alerts rule base)"
  let ?w = "slide E clock rule ev base (window_of ws ?k)"
  have "list_all (\<lambda>e. we_ts e = ?now) ?new" by (simp add: list_all_iff entry_for_def)
  from window_rel_slide [OF _ T span(1) this, of "window_of ws ?k" "h ?k"] rel
  have w: "?w = filter (\<lambda>e. ?now - co_timespan rule \<le> we_ts e) (h ?k @ ?new)"
    and r: "window_rel (co_timespan rule) ?now ?w (h ?k @ ?new)"
    using wrap64_diff [OF time span] by (auto simp: slide_def Let_def windows_rel_def)
  have keep: "window_rel (co_timespan rule) ?now (window_of ws k) (h k)" for k
    using rel T by (auto simp: windows_rel_def intro: window_rel_mono)
  have spec: "spec_rule E clock ev base rule h =
      (if evaluate rule ?w then (h(?k := []), [correlation_alert clock rule ev ?w])
       else (h(?k := h ?k @ ?new), []))"
    unfolding spec_rule_def Let_def w using False by simp
  show ?thesis
  proof (cases "evaluate rule ?w")
    case True
    have "windows_rel (co_timespan rule) ?now (hash_insert ?k [] ws) (h(?k := []))"
      using keep by (simp add: windows_rel_def window_of_insert)
    with True False show ?thesis by (simp add: process_rule_def spec Let_def)
  next
    case nofire: False
    have "windows_rel (co_timespan rule) ?now (hash_insert ?k ?w ws) (h(?k := h ?k @ ?new))"
      using keep r by (simp add: windows_rel_def window_of_insert)
    with nofire False show ?thesis by (simp add: process_rule_def spec Let_def)
  qed
qed

lemma run_rule_refines:
  assumes "0 \<le> co_timespan rule" "co_timespan rule < 2 ^ 63"
    and "windows_rel (co_timespan rule) T ws h"
    and "sorted (T # map feed_time xs)"
    and "list_all (\<lambda>x. 0 \<le> feed_time x \<and> feed_time x < 2 ^ 63) xs"
  shows "snd (run_rule E rule ws xs) = snd (run_spec E rule h xs)"
  using assms(3-)
proof (induction xs arbitrary: T ws h)
  case Nil
  then show ?case by simp
next
  case (Cons x xs)
  obtain clock ev base where x: "x = (clock, ev, base)" by (cases x)
  have step: "snd (process_rule E clock ev base rule ws) = snd (spec_rule E clock ev base rule h) \<and>
    windows_rel (co_timespan rule) (event_time clock ev)
      (fst (process_rule E clock ev base rule ws)) (fst (spec_rule E clock ev base rule h))"
    by (rule process_rule_refines) (use Cons.prems x assms(1,2) in \<open>auto simp: feed_time_def\<close>)
  have "snd (run_rule E rule (fst (process_rule E clock ev base rule ws)) xs) =
      snd (run_spec E rule (fst (spec_rule E clock ev base rule h)) xs)"
    by (rule Cons.IH) (use step Cons.prems x in \<open>auto simp: feed_time_def\<close>)
  with step show ?case by (simp add: x Let_def case_prod_beta)
qed

text \<open>
  C8: On a stream whose event times do not decrease, the sliding windows implement the time-window
  specification: a correlation rule fires exactly the alerts, with exactly the contributing
  events, that evaluating its condition over the matches of the group that are at most
  \<open>timespan\<close> old and later than its last firing gives.
\<close>

theorem sliding_window_refines_spec:
  assumes "0 \<le> co_timespan rule" "co_timespan rule < 2 ^ 63"
    and "sorted (map feed_time xs)"
    and "list_all (\<lambda>x. 0 \<le> feed_time x \<and> feed_time x < 2 ^ 63) xs"
  shows "snd (run_rule E rule [] xs) = snd (run_spec E rule (\<lambda>_. []) xs)"
proof (rule run_rule_refines [OF assms(1,2)])
  show "windows_rel (co_timespan rule) 0 [] (\<lambda>_. [])" by (simp add: windows_rel_def window_of_def)
  show "sorted (0 # map feed_time xs)"
    using assms(3,4) by (auto simp: list_all_iff)
qed (rule assms(4))

definition demo_corr :: compiled_correlation where
  "demo_corr = \<lparr>co_rule_id = ''c1'', co_title = ''burst'', co_severity = High, co_technique = None,
     co_tags = [], co_kind = EventCount, co_rules = [''r1''], co_group_by = [], co_timespan = 100,
     co_condition = default_condition\<lparr>cc_gte := Some 2\<rparr>, co_generate = False\<rparr>"

definition demo_base :: "string \<Rightarrow> timestamp \<Rightarrow> timestamp \<times> event \<times> alert list" where
  "demo_base i t = (1, new_event i t ''t'',
     [\<lparr>al_rule_id = ''r1'', al_title = [], al_severity = Low, al_technique = None, al_events = [i], al_ts = t\<rparr>])"

lemmas corr_eval = demo_corr_def demo_base_def default_condition_def process_rule_def spec_rule_def
  slide_def event_time_def new_event_def matched_alerts_def group_key_def window_of_def entry_for_def
  evaluate_def satisfied_def correlation_alert_def

theorem sliding_window_refines_spec_witness:
  "map al_events (snd (run_rule demo_env demo_corr []
      [demo_base ''a'' 10, demo_base ''b'' 500, demo_base ''c'' 560])) = [[''b'', ''c'']] \<and>
   snd (run_rule demo_env demo_corr []
      [demo_base ''a'' 10, demo_base ''b'' 500, demo_base ''c'' 560]) =
   snd (run_spec demo_env demo_corr (\<lambda>_. [])
      [demo_base ''a'' 10, demo_base ''b'' 500, demo_base ''c'' 560])"
proof
  show "map al_events (snd (run_rule demo_env demo_corr []
      [demo_base ''a'' 10, demo_base ''b'' 500, demo_base ''c'' 560])) = [[''b'', ''c'']]"
    by (simp add: corr_eval wrap64_def)
  show "snd (run_rule demo_env demo_corr []
      [demo_base ''a'' 10, demo_base ''b'' 500, demo_base ''c'' 560]) =
   snd (run_spec demo_env demo_corr (\<lambda>_. [])
      [demo_base ''a'' 10, demo_base ''b'' 500, demo_base ''c'' 560])"
    by (rule sliding_window_refines_spec)
      (simp_all add: demo_corr_def demo_base_def feed_time_def event_time_def new_event_def)
qed

section \<open>One burst, one alert\<close>

definition total_entries :: "windows \<Rightarrow> nat" where
  "total_entries ws = sum_list (map (\<lambda>p. length (snd p)) ws)"

lemma total_entries_insert:
  "total_entries (hash_insert k w ws) + length (window_of ws k) = total_entries ws + length w"
  by (induction ws) (auto simp: total_entries_def window_of_def)

lemma length_slide:
  "length (slide E clock rule ev base w) \<le> length w + length (matched_alerts rule base)"
  unfolding slide_def Let_def using length_dropWhile_le by (metis length_append length_map)

lemma process_rule_budget:
  assumes "co_kind rule = EventCount" and "cc_gte (co_condition rule) = Some n"
  shows "n * length (snd (process_rule E clock ev base rule ws)) +
      total_entries (fst (process_rule E clock ev base rule ws))
    \<le> total_entries ws + length (matched_alerts rule base)"
proof (cases "matched_alerts rule base = []")
  case True
  then show ?thesis by (simp add: process_rule_def)
next
  case False
  let ?k = "group_key E rule ev" and ?w = "slide E clock rule ev base (window_of ws (group_key E rule ev))"
  have fire: "n \<le> length ?w" if "evaluate rule ?w"
    using that assms by (simp add: evaluate_def satisfied_def)
  show ?thesis
    using False fire length_slide [of E clock rule ev base "window_of ws ?k"]
      total_entries_insert [of ?k "[]" ws] total_entries_insert [of ?k ?w ws]
    by (cases "evaluate rule ?w") (auto simp: process_rule_def Let_def)
qed

text \<open>
  One burst yields one alert. For an \<open>event_count\<close> rule with \<open>gte: n\<close>, every alert uses up at
  least \<open>n\<close> matches that no later alert counts again: over any stream, \<open>n\<close> times the alerts
  fired plus the matches still in the windows never exceeds the number of matched base alerts.
\<close>

theorem fire_budget:
  assumes "co_kind rule = EventCount" and "cc_gte (co_condition rule) = Some n"
  shows "n * length (snd (run_rule E rule ws xs)) + total_entries (fst (run_rule E rule ws xs))
    \<le> total_entries ws + sum_list (map (\<lambda>x. length (matched_alerts rule (snd (snd x)))) xs)"
proof (induction xs arbitrary: ws)
  case Nil
  then show ?case by simp
next
  case (Cons x xs)
  obtain clock ev base where x: "x = (clock, ev, base)" by (cases x)
  obtain ws1 f where p: "process_rule E clock ev base rule ws = (ws1, f)" by fastforce
  obtain ws2 g where r: "run_rule E rule ws1 xs = (ws2, g)" by fastforce
  have "n * length f + total_entries ws1 \<le> total_entries ws + length (matched_alerts rule base)"
    using process_rule_budget [OF assms, of E clock ev base ws] p by simp
  moreover have "n * length g + total_entries ws2
      \<le> total_entries ws1 + sum_list (map (\<lambda>x. length (matched_alerts rule (snd (snd x)))) xs)"
    using Cons.IH [of ws1] r by simp
  ultimately show ?case by (simp add: x p r add_mult_distrib2)
qed

theorem fire_budget_witness:
  "co_kind demo_corr = EventCount \<and>
   2 * length (snd (run_rule demo_env demo_corr [] [demo_base ''a'' 10, demo_base ''b'' 20, demo_base ''c'' 30])) \<le> 3"
  using fire_budget [of demo_corr 2 demo_env "[]" "[demo_base ''a'' 10, demo_base ''b'' 20, demo_base ''c'' 30]"]
  by (simp add: demo_corr_def demo_base_def total_entries_def matched_alerts_def)

section \<open>Retro-hunt\<close>

lemma process_keeps [simp]:
  "ce_suppressed (fst (process E clock ce ev base)) = ce_suppressed ce"
  "ce_rules (fst (process E clock ce ev base)) = ce_rules ce"
  by (simp_all add: process_def Let_def)

lemma hunt_loop_alerts:
  "fst (snd (hunt_loop E clock en ce evs)) =
     filter (\<lambda>a. \<not> suppressed ce (al_rule_id a)) (concat (map (engine_eval E clock en) evs))"
proof (induction evs arbitrary: ce)
  case Nil
  then show ?case by simp
next
  case (Cons ev evs)
  obtain ce' f where p: "process E clock ce ev (engine_eval E clock en ev) = (ce', f)" by fastforce
  have "ce_suppressed ce' = ce_suppressed ce"
    using process_keeps(1) [of E clock ce ev "engine_eval E clock en ev"] p by simp
  then show ?case
    using Cons.IH [of ce'] by (simp add: p Let_def suppressed_def case_prod_beta)
qed

text \<open>
  A retro-hunt reports, in timestamp order, every base alert of the rule engine except those
  of rules that some correlation references without \<open>generate\<close>, and counts every event.
\<close>

theorem retro_hunt_alerts:
  "ho_alerts (snd (retro_hunt E clock en (correlation_engine_new rules) events)) =
     filter (\<lambda>a. \<not> list_ex (\<lambda>r. \<not> co_generate r \<and> al_rule_id a \<in> set (co_rules r)) rules)
       (concat (map (engine_eval E clock en) (sort_key ev_ts events))) \<and>
   ho_scanned (snd (retro_hunt E clock en (correlation_engine_new rules) events)) = length events"
proof -
  have sup: "suppressed (correlation_engine_new rules) i \<longleftrightarrow>
      list_ex (\<lambda>r. \<not> co_generate r \<and> i \<in> set (co_rules r)) rules" for i
    by (auto simp: suppressed_def correlation_engine_new_def list_ex_iff)
  show ?thesis
    using hunt_loop_alerts [of E clock en "correlation_engine_new rules" "sort_key ev_ts events"]
    by (simp add: retro_hunt_def Let_def sup case_prod_beta)
qed

end
