(* ===== verification/Raft_Node.thy ===== *)
theory Raft_Node
  imports Sigil_Prelude
begin

text \<open>
  The Raft state machine of one node, \<open>RaftNode\<close> in \<open>crates/sigil-cluster/src/raft.rs\<close>: the
  wire messages, the node's state, elections, replication and commitment. Every operation
  returns the new node and the envelopes to deliver. A panic of the code (an index out of
  bounds in the log) is the value \<open>None\<close>.

  Terms, indices and votes are natural numbers: they start at 0 and grow by one, and no run
  comes near \<open>2 ^ 64\<close>. The seed that spreads the election timeouts is computed at its width of
  64 bits. A \<open>HashMap\<close> from peers to indices is an association list with distinct keys.
\<close>

section \<open>State and messages\<close>

record log_entry =
  le_term :: nat
  le_data :: "u8 list"

datatype raft_msg =
    RequestVote (rv_term: nat) (rv_candidate: string) (rv_last_index: nat) (rv_last_term: nat)
  | VoteReply (vr_term: nat) (vr_from: string) (vr_granted: bool)
  | AppendEntries (ae_term: nat) (ae_leader: string) (ae_prev_index: nat) (ae_prev_term: nat)
      (ae_entries: "log_entry list") (ae_leader_commit: nat)
  | AppendReply (ar_term: nat) (ar_from: string) (ar_success: bool) (ar_match_index: nat)

record envelope =
  env_to :: "string option"
  env_msg :: raft_msg

type_synonym peer_index = "(string \<times> nat) list"

datatype raft_state = Follower | Candidate nat | Leader peer_index peer_index

record raft_node =
  rn_id :: string
  rn_peers :: "string list"
  rn_state :: raft_state
  rn_term :: nat
  rn_voted_for :: "string option"
  rn_log :: "log_entry list"
  rn_commit :: nat
  rn_leader_hint :: "string option"
  rn_quiet_ticks :: nat
  rn_election_after :: nat
  rn_heartbeat_every :: nat

definition seed_hash :: "string \<Rightarrow> u64 \<Rightarrow> u64" where
  "seed_hash i seed =
     foldl (\<lambda>x b. x * 0x100000001b3 + of_nat (of_char b)) (xor seed 0x5851f42d4c957f2d) i"

definition raft_new :: "string \<Rightarrow> string list \<Rightarrow> u64 \<Rightarrow> raft_node" where
  "raft_new i peers seed =
     \<lparr>rn_id = i, rn_peers = peers, rn_state = Follower, rn_term = 0, rn_voted_for = None,
      rn_log = [], rn_commit = 0, rn_leader_hint = None, rn_quiet_ticks = 0,
      rn_election_after = 10 + unat (seed_hash i seed mod 10), rn_heartbeat_every = 3\<rparr>"

fun leading :: "raft_state \<Rightarrow> bool" where
  "leading (Leader _ _) = True"
| "leading _ = False"

definition is_leader :: "raft_node \<Rightarrow> bool" where
  "is_leader n = leading (rn_state n)"

definition leader_hint :: "raft_node \<Rightarrow> string option" where
  "leader_hint n = (if is_leader n then Some (rn_id n) else rn_leader_hint n)"

text \<open>The slice \<open>log[..commit]\<close> panics when the commit index is past the end.\<close>

definition committed :: "raft_node \<Rightarrow> log_entry list option" where
  "committed n = (if rn_commit n \<le> length (rn_log n) then Some (take (rn_commit n) (rn_log n)) else None)"

definition last_index :: "raft_node \<Rightarrow> nat" where
  "last_index n = length (rn_log n)"

definition last_term :: "raft_node \<Rightarrow> nat" where
  "last_term n = (if rn_log n = [] then 0 else le_term (last (rn_log n)))"

definition majority :: "raft_node \<Rightarrow> nat" where
  "majority n = (length (rn_peers n) + 1) div 2 + 1"

definition become_follower :: "nat \<Rightarrow> raft_node \<Rightarrow> raft_node" where
  "become_follower t n = n\<lparr>rn_term := t, rn_state := Follower, rn_voted_for := None, rn_quiet_ticks := 0\<rparr>"

section \<open>Replication\<close>

definition append_for :: "raft_node \<Rightarrow> peer_index \<Rightarrow> string \<Rightarrow> envelope option" where
  "append_for n next_index peer =
     (let next = (case map_of next_index peer of Some k \<Rightarrow> k | None \<Rightarrow> 1);
          prev_index = next - 1
      in if next = 0 \<or> length (rn_log n) < prev_index then None
         else Some \<lparr>env_to = Some peer,
                env_msg = AppendEntries (rn_term n) (rn_id n) prev_index
                  (if prev_index = 0 then 0 else le_term (rn_log n ! (prev_index - 1)))
                  (drop prev_index (rn_log n)) (rn_commit n)\<rparr>)"

definition broadcast_appends :: "raft_node \<Rightarrow> envelope list option" where
  "broadcast_appends n =
     (case rn_state n of
        Leader next_index _ \<Rightarrow> those (map (append_for n next_index) (rn_peers n))
      | _ \<Rightarrow> Some [])"

definition replicas :: "peer_index \<Rightarrow> nat \<Rightarrow> nat" where
  "replicas match_index k = 1 + length (filter (\<lambda>m. k \<le> m) (map snd match_index))"

definition committable :: "raft_node \<Rightarrow> peer_index \<Rightarrow> nat \<Rightarrow> bool" where
  "committable n match_index k \<longleftrightarrow>
     le_term (rn_log n ! (k - 1)) = rn_term n \<and> majority n \<le> replicas match_index k"

definition advance_commit :: "raft_node \<Rightarrow> raft_node" where
  "advance_commit n =
     (case rn_state n of
        Leader _ match_index \<Rightarrow>
          (case find (committable n match_index) (rev [rn_commit n + 1 ..< last_index n + 1]) of
             Some k \<Rightarrow> n\<lparr>rn_commit := k\<rparr>
           | None \<Rightarrow> n)
      | _ \<Rightarrow> n)"

section \<open>Elections\<close>

definition index_all :: "nat \<Rightarrow> string list \<Rightarrow> peer_index" where
  "index_all k peers = foldl (\<lambda>m p. hash_insert p k m) [] peers"

definition become_leader :: "raft_node \<Rightarrow> (raft_node \<times> envelope list) option" where
  "become_leader n =
     (let n' = n\<lparr>rn_state := Leader (index_all (last_index n + 1) (rn_peers n)) (index_all 0 (rn_peers n)),
                 rn_leader_hint := None, rn_quiet_ticks := 0\<rparr>
      in map_option (Pair n') (broadcast_appends n'))"

definition start_election :: "raft_node \<Rightarrow> (raft_node \<times> envelope list) option" where
  "start_election n =
     (let n' = n\<lparr>rn_term := rn_term n + 1, rn_voted_for := Some (rn_id n),
                 rn_state := Candidate 1, rn_quiet_ticks := 0\<rparr>
      in if rn_peers n' = [] then become_leader n'
         else Some (n', [\<lparr>env_to = None,
                env_msg = RequestVote (rn_term n') (rn_id n') (last_index n') (last_term n')\<rparr>]))"

definition tick :: "raft_node \<Rightarrow> (raft_node \<times> envelope list) option" where
  "tick n0 =
     (let n = n0\<lparr>rn_quiet_ticks := rn_quiet_ticks n0 + 1\<rparr>
      in if leading (rn_state n) then
           (if rn_heartbeat_every n \<le> rn_quiet_ticks n then
              let n' = n\<lparr>rn_quiet_ticks := 0\<rparr> in map_option (Pair n') (broadcast_appends n')
            else Some (n, []))
         else if rn_election_after n \<le> rn_quiet_ticks n then start_election n
         else Some (n, []))"

definition propose :: "u8 list \<Rightarrow> raft_node \<Rightarrow> (raft_node \<times> envelope list) result option" where
  "propose data n =
     (if \<not> is_leader n then
        Some (Inl (Other (''not the leader (try '' @
          (case leader_hint n of Some l \<Rightarrow> l | None \<Rightarrow> ''unknown'') @ '')'')))
      else let n' = advance_commit (n\<lparr>rn_log := rn_log n @ [\<lparr>le_term = rn_term n, le_data = data\<rparr>]\<rparr>)
           in map_option (\<lambda>out. Inr (n', out)) (broadcast_appends n'))"

section \<open>Incoming messages\<close>

definition up_to_date :: "raft_node \<Rightarrow> nat \<Rightarrow> nat \<Rightarrow> bool" where
  "up_to_date n li lt \<longleftrightarrow> last_term n < lt \<or> (lt = last_term n \<and> last_index n \<le> li)"

definition vote_available :: "raft_node \<Rightarrow> string \<Rightarrow> bool" where
  "vote_available n c = (case rn_voted_for n of None \<Rightarrow> True | Some v \<Rightarrow> v = c)"

definition on_request_vote ::
  "raft_node \<Rightarrow> nat \<Rightarrow> string \<Rightarrow> nat \<Rightarrow> nat \<Rightarrow> raft_node \<times> envelope list" where
  "on_request_vote n0 t c li lt =
     (let n = (if rn_term n0 < t then become_follower t n0 else n0);
          granted = (t = rn_term n \<and> up_to_date n li lt \<and> vote_available n c);
          n' = (if granted then n\<lparr>rn_voted_for := Some c, rn_quiet_ticks := 0\<rparr> else n)
      in (n', [\<lparr>env_to = Some c, env_msg = VoteReply (rn_term n') (rn_id n') granted\<rparr>]))"

definition on_vote_reply ::
  "raft_node \<Rightarrow> nat \<Rightarrow> bool \<Rightarrow> (raft_node \<times> envelope list) option" where
  "on_vote_reply n t granted =
     (if rn_term n < t then Some (become_follower t n, [])
      else case rn_state n of
        Candidate votes \<Rightarrow>
          (if t = rn_term n \<and> granted then
             let n' = n\<lparr>rn_state := Candidate (votes + 1)\<rparr>
             in if majority n' \<le> votes + 1 then become_leader n' else Some (n', [])
           else Some (n, []))
      | _ \<Rightarrow> Some (n, []))"

definition append_reply :: "raft_node \<Rightarrow> string \<Rightarrow> bool \<Rightarrow> nat \<Rightarrow> envelope" where
  "append_reply n leader ok m =
     \<lparr>env_to = Some leader, env_msg = AppendReply (rn_term n) (rn_id n) ok m\<rparr>"

definition log_consistent :: "raft_node \<Rightarrow> nat \<Rightarrow> nat \<Rightarrow> bool" where
  "log_consistent n prev_index prev_term \<longleftrightarrow>
     prev_index = 0 \<or> (prev_index - 1 < length (rn_log n) \<and> le_term (rn_log n ! (prev_index - 1)) = prev_term)"

definition on_append_entries ::
  "raft_node \<Rightarrow> nat \<Rightarrow> string \<Rightarrow> nat \<Rightarrow> nat \<Rightarrow> log_entry list \<Rightarrow> nat \<Rightarrow> raft_node \<times> envelope list" where
  "on_append_entries n0 t leader prev_index prev_term entries leader_commit =
     (let n = (if rn_term n0 < t \<or> (t = rn_term n0 \<and> rn_state n0 \<noteq> Follower)
               then become_follower t n0 else n0)
      in if t < rn_term n then (n, [append_reply n leader False 0])
         else let n1 = n\<lparr>rn_quiet_ticks := 0, rn_leader_hint := Some leader\<rparr>
              in if \<not> log_consistent n1 prev_index prev_term then (n1, [append_reply n1 leader False 0])
                 else let n2 = n1\<lparr>rn_log := take prev_index (rn_log n1) @ entries\<rparr>;
                          n3 = (if rn_commit n2 < leader_commit
                                then n2\<lparr>rn_commit := min leader_commit (last_index n2)\<rparr> else n2)
                      in (n3, [append_reply n3 leader True (last_index n3)]))"

definition on_append_reply ::
  "raft_node \<Rightarrow> nat \<Rightarrow> string \<Rightarrow> bool \<Rightarrow> nat \<Rightarrow> raft_node \<times> envelope list" where
  "on_append_reply n t from success m =
     (if rn_term n < t then (become_follower t n, [])
      else case rn_state n of
        Leader next_index match_index \<Rightarrow>
          (if success then
             (advance_commit (n\<lparr>rn_state := Leader (hash_insert from (m + 1) next_index)
                (hash_insert from m match_index)\<rparr>), [])
           else
             let k = (case map_of next_index from of Some k \<Rightarrow> k | None \<Rightarrow> 1)
             in (n\<lparr>rn_state := Leader (hash_insert from (max (k - 1) 1) next_index) match_index\<rparr>, []))
      | _ \<Rightarrow> (n, []))"

fun step :: "raft_node \<Rightarrow> raft_msg \<Rightarrow> (raft_node \<times> envelope list) option" where
  "step n (RequestVote t c li lt) = Some (on_request_vote n t c li lt)"
| "step n (VoteReply t from granted) = on_vote_reply n t granted"
| "step n (AppendEntries t l pi pt es lc) = Some (on_append_entries n t l pi pt es lc)"
| "step n (AppendReply t from ok m) = Some (on_append_reply n t from ok m)"

text \<open>The driver's \<open>decode_step\<close>: a node ignores its own vote requests on the broadcast topic.\<close>

definition decode_step :: "raft_node \<Rightarrow> raft_msg \<Rightarrow> (raft_node \<times> envelope list) option" where
  "decode_step n msg =
     (case msg of
        RequestVote t c li lt \<Rightarrow> if c = rn_id n then Some (n, []) else step n msg
      | _ \<Rightarrow> step n msg)"

section \<open>Commitment\<close>

text \<open>The greatest element a downward search finds.\<close>

lemma find_rev_upt_None: "find P (rev [a ..< b]) = None \<Longrightarrow> \<forall>k. a \<le> k \<and> k < b \<longrightarrow> \<not> P k"
  by (auto simp: find_None_iff)

lemma find_rev_upt_Some:
  "find P (rev [a ..< b]) = Some k \<Longrightarrow> a \<le> k \<and> k < b \<and> P k \<and> (\<forall>j. k < j \<and> j < b \<longrightarrow> \<not> P j)"
proof (induction b)
  case (Suc b)
  then show ?case
    by (cases "a \<le> b") (auto split: if_splits simp: less_Suc_eq)
qed simp

lemma advance_commit_eq:
  "advance_commit n = n\<lparr>rn_commit := rn_commit (advance_commit n)\<rparr>"
  by (auto simp: advance_commit_def split: raft_state.splits option.splits)

lemma advance_commit_simps [simp]:
  "rn_id (advance_commit n) = rn_id n" "rn_peers (advance_commit n) = rn_peers n"
  "rn_state (advance_commit n) = rn_state n" "rn_term (advance_commit n) = rn_term n"
  "rn_voted_for (advance_commit n) = rn_voted_for n" "rn_log (advance_commit n) = rn_log n"
  "rn_quiet_ticks (advance_commit n) = rn_quiet_ticks n"
  "rn_election_after (advance_commit n) = rn_election_after n"
  "rn_heartbeat_every (advance_commit n) = rn_heartbeat_every n"
  by (subst advance_commit_eq; simp)+

text \<open>
  C23: A leader's commit index becomes the greatest index past the current one whose entry is of
  the leader's own term and that a majority, the leader included, is known to hold; without such
  an index, and on a node that does not lead, it stays. Nothing else of the node changes.
\<close>

theorem advance_commit_spec:
  "advance_commit n = n\<lparr>rn_commit :=
     (case rn_state n of
        Leader ni mi \<Rightarrow> Max (insert (rn_commit n) {k. rn_commit n < k \<and> k \<le> length (rn_log n) \<and>
          le_term (rn_log n ! (k - 1)) = rn_term n \<and>
          length (rn_peers n) + 1 < 2 * (1 + length (filter (\<lambda>p. k \<le> snd p) mi))})
      | _ \<Rightarrow> rn_commit n)\<rparr>"
proof (cases "rn_state n")
  case (Leader ni mi)
  let ?S = "{k. rn_commit n < k \<and> k \<le> length (rn_log n) \<and> le_term (rn_log n ! (k - 1)) = rn_term n \<and>
          length (rn_peers n) + 1 < 2 * (1 + length (filter (\<lambda>p. k \<le> snd p) mi))}"
  have maj: "committable n mi k \<longleftrightarrow> le_term (rn_log n ! (k - 1)) = rn_term n \<and>
      length (rn_peers n) + 1 < 2 * (1 + length (filter (\<lambda>p. k \<le> snd p) mi))" for k
    by (auto simp: committable_def majority_def replicas_def filter_map o_def)
  have fin: "finite ?S" by (rule finite_subset [of _ "{..length (rn_log n)}"]) auto
  show ?thesis
  proof (cases "find (committable n mi) (rev [rn_commit n + 1 ..< last_index n + 1])")
    case None
    from find_rev_upt_None [OF this] have "?S = {}" by (auto simp: maj last_index_def)
    then have "Max (insert (rn_commit n) ?S) = rn_commit n" by (simp only: Max_singleton)
    with None Leader show ?thesis by (simp add: advance_commit_def)
  next
    case (Some k)
    from find_rev_upt_Some [OF this] have "k \<in> ?S" "\<forall>j \<in> ?S. j \<le> k"
      by (auto simp: maj last_index_def not_less [symmetric])
    then have "Max (insert (rn_commit n) ?S) = k"
      using fin by (intro Max_eqI) auto
    with Some Leader show ?thesis by (simp add: advance_commit_def)
  qed
qed (simp_all add: advance_commit_def)

section \<open>Counters stay in range\<close>

text \<open>
  The timeouts are those of \<open>new\<close>, the tick counter is below the bound that resets it, and the
  leader's \<open>next_index\<close> entries are at least 1.
\<close>

definition node_wf :: "raft_node \<Rightarrow> bool" where
  "node_wf n \<longleftrightarrow> 10 \<le> rn_election_after n \<and> rn_election_after n \<le> 19 \<and> rn_heartbeat_every n = 3 \<and>
     rn_quiet_ticks n < (if is_leader n then 3 else rn_election_after n) \<and>
     (case rn_state n of Leader ni mi \<Rightarrow> distinct (map fst ni) \<and> distinct (map fst mi) \<and> list_all (\<lambda>p. 1 \<le> snd p) ni
      | _ \<Rightarrow> True)"

lemma list_all_snd_insert:
  "P v \<Longrightarrow> list_all (\<lambda>p. P (snd p)) xs \<Longrightarrow> list_all (\<lambda>p. P (snd p)) (hash_insert k v xs)"
  by (induction xs) auto

lemma index_all_aux:
  "P v \<Longrightarrow> distinct (map fst m) \<Longrightarrow> list_all (\<lambda>p. P (snd p)) m \<Longrightarrow>
   distinct (map fst (foldl (\<lambda>m p. hash_insert p v m) m ps)) \<and>
   list_all (\<lambda>p. P (snd p)) (foldl (\<lambda>m p. hash_insert p v m) m ps)"
  by (induction ps arbitrary: m) (simp_all add: distinct_hash_insert list_all_snd_insert)

lemma index_all_wf:
  "distinct (map fst (index_all k ps))" "list_all (\<lambda>p. snd p = k) (index_all k ps)"
  using index_all_aux [of "\<lambda>x. x = k" k "[]" ps] by (simp_all add: index_all_def)

lemmas raft_defs = become_follower_def append_reply_def Let_def is_leader_def

lemma node_wf_new: "node_wf (raft_new i ps seed)"
proof -
  have "unat (seed_hash i seed mod 10) < 10"
    by (simp add: unat_mod_distrib)
  then show ?thesis by (simp add: node_wf_def raft_new_def is_leader_def)
qed

lemma node_wf_follower: "node_wf n \<Longrightarrow> node_wf (become_follower t n)"
  by (simp add: node_wf_def raft_defs)

lemma node_wf_become_leader:
  "node_wf n \<Longrightarrow> become_leader n = Some (n', out) \<Longrightarrow> node_wf n'"
  using index_all_wf [of "last_index n + 1" "rn_peers n"] index_all_wf(1) [of 0 "rn_peers n"]
  by (auto simp: node_wf_def become_leader_def raft_defs list_all_iff)

lemma node_wf_start_election:
  "node_wf (n\<lparr>rn_quiet_ticks := 0\<rparr>) \<Longrightarrow> start_election n = Some (n', out) \<Longrightarrow> node_wf n'"
  using node_wf_become_leader [of "n\<lparr>rn_term := rn_term n + 1, rn_voted_for := Some (rn_id n),
      rn_state := Candidate 1, rn_quiet_ticks := 0\<rparr>" n' out]
  by (auto simp: start_election_def node_wf_def raft_defs split: if_splits)

lemma node_wf_tick: "node_wf n \<Longrightarrow> tick n = Some (n', out) \<Longrightarrow> node_wf n'"
  using node_wf_start_election [of "n\<lparr>rn_quiet_ticks := rn_quiet_ticks n + 1\<rparr>" n' out]
  by (cases "rn_state n") (auto simp: tick_def node_wf_def raft_defs split: if_splits)

lemma node_wf_propose: "node_wf n \<Longrightarrow> propose d n = Some (Inr (n', out)) \<Longrightarrow> node_wf n'"
  by (cases "rn_state n") (auto simp: propose_def node_wf_def raft_defs split: if_splits)

lemma node_wf_request_vote: "node_wf n \<Longrightarrow> node_wf (fst (on_request_vote n t c li lt))"
  by (cases "rn_state n") (auto simp: on_request_vote_def node_wf_def raft_defs)

lemma node_wf_vote_reply: "node_wf n \<Longrightarrow> on_vote_reply n t g = Some (n', out) \<Longrightarrow> node_wf n'"
  using node_wf_follower [of n t] node_wf_become_leader [of "n\<lparr>rn_state := Candidate k\<rparr>" n' out for k]
  by (cases "rn_state n") (force simp: on_vote_reply_def node_wf_def raft_defs split: if_splits)+

lemma node_wf_append_entries: "node_wf n \<Longrightarrow> node_wf (fst (on_append_entries n t l pi pt es lc))"
  by (cases "rn_state n") (auto simp: on_append_entries_def node_wf_def raft_defs)

lemma node_wf_append_reply: "node_wf n \<Longrightarrow> node_wf (fst (on_append_reply n t f ok m))"
  by (cases "rn_state n")
    (auto simp: on_append_reply_def node_wf_def raft_defs distinct_hash_insert
      intro!: list_all_snd_insert [where P = "\<lambda>x. Suc 0 \<le> x"])

lemma node_wf_step:
  assumes "node_wf n" and "decode_step n msg = Some (n', out)"
  shows "node_wf n'"
proof (cases msg)
  case (RequestVote t c li lt)
  with assms node_wf_request_vote [OF assms(1), of t c li lt] show ?thesis
    by (auto simp: decode_step_def split: if_splits)
next
  case (VoteReply t f g)
  with assms show ?thesis by (auto simp: decode_step_def intro: node_wf_vote_reply)
next
  case (AppendEntries t l pi pt es lc)
  with assms node_wf_append_entries [OF assms(1), of t l pi pt es lc] show ?thesis
    by (auto simp: decode_step_def)
next
  case (AppendReply t f ok m)
  with assms node_wf_append_reply [OF assms(1), of t f ok m] show ?thesis
    by (auto simp: decode_step_def)
qed

text \<open>
  Every operation of a node keeps its counters in range: ticks stay below the timeout that
  resets them (at most 19), and a leader's \<open>next_index\<close> entries stay at least 1, so that
  \<open>next - 1\<close> never underflows.
\<close>

theorem raft_node_wf:
  assumes "node_wf n"
    and "tick n = Some (n', out) \<or> propose d n = Some (Inr (n', out)) \<or> decode_step n msg = Some (n', out)"
  shows "node_wf n'"
  using assms node_wf_tick node_wf_propose node_wf_step by blast

theorem raft_node_wf_witness:
  "node_wf (raft_new ''a'' [''b''] 7) \<and> node_wf (fst (the (tick (raft_new ''a'' [''b''] 7))))"
proof -
  obtain n' out where t: "tick (raft_new ''a'' [''b''] 7) = Some (n', out)"
    by (simp add: tick_def raft_new_def Let_def)
  from raft_node_wf [OF node_wf_new disjI1 [OF this]] t node_wf_new show ?thesis by simp
qed

section \<open>Deviations from the published protocol\<close>

definition entry :: "nat \<Rightarrow> log_entry" where
  "entry t = \<lparr>le_term = t, le_data = []\<rparr>"

definition demo_leader :: raft_node where
  "demo_leader = (raft_new ''a'' [''b'', ''c''] 0)
     \<lparr>rn_term := 3, rn_voted_for := Some ''a'', rn_state := Leader [(''b'', 1), (''c'', 1)] [(''b'', 0), (''c'', 0)],
      rn_log := [entry 3]\<rparr>"

text \<open>
  A leader counts an acknowledgement of an older term: an \<open>AppendReply\<close> that \<open>b\<close> sent in term 1
  commits an entry of term 3 that no other node has been sent.
\<close>

theorem stale_reply_commits:
  "\<exists>n' out. step demo_leader (AppendReply 1 ''b'' True 1) = Some (n', out) \<and>
     rn_commit demo_leader = 0 \<and> committed n' = Some [entry 3]"
  by (simp add: demo_leader_def entry_def committed_def on_append_reply_def advance_commit_def
      committable_def replicas_def majority_def raft_new_def last_index_def)

end
