(* ===== verification/Raft_Cluster.thy ===== *)
theory Raft_Cluster
  imports Raft_Node "HOL-Library.Multiset"
begin

text \<open>
  A cluster of Raft nodes over the transport, \<open>RaftDriver\<close> in \<open>crates/sigil-cluster/src/raft.rs\<close>
  on the buses of \<open>transport.rs\<close>. The network is the multiset of published copies that are not
  yet received. Delivery is at most once, as the buses document, in any order, and copies may be
  lost: messages of different topics and reconnects are not ordered by the transport. A node whose
  operation panics takes no further step.

  \<open>cl_grants\<close> and \<open>cl_leaders\<close> are history variables: the votes cast (voter, term, candidate) and
  the leaderships (term, node) so far. No step depends on them.

  The main result is election safety: at most one node is ever leader in a term. It needs more
  than the standard argument, because a candidate that hears from the leader of its own term
  forgets its vote and may vote again in that term. The last section runs a cluster into a state in
  which a follower loses an entry that is committed.
\<close>

section \<open>The cluster\<close>

record cluster =
  cl_members :: "string list"
  cl_node :: "string \<Rightarrow> raft_node"
  cl_net :: "(string \<times> raft_msg) multiset"
  cl_grants :: "(string \<times> nat \<times> string) set"
  cl_leaders :: "(nat \<times> string) set"

definition cluster_init :: "string list \<Rightarrow> (string \<Rightarrow> u64) \<Rightarrow> cluster" where
  "cluster_init members seed =
     \<lparr>cl_members = members, cl_node = (\<lambda>i. raft_new i (filter (\<lambda>j. j \<noteq> i) members) (seed i)),
      cl_net = {#}, cl_grants = {}, cl_leaders = {}\<rparr>"

text \<open>\<open>send\<close>: a directed envelope goes to one topic, a broadcast to every member.\<close>

definition send_one :: "string list \<Rightarrow> envelope \<Rightarrow> (string \<times> raft_msg) list" where
  "send_one members e =
     (case env_to e of Some d \<Rightarrow> [(d, env_msg e)] | None \<Rightarrow> map (\<lambda>d. (d, env_msg e)) members)"

definition send :: "string list \<Rightarrow> envelope list \<Rightarrow> (string \<times> raft_msg) list" where
  "send members out = concat (map (send_one members) out)"

definition granted_in :: "envelope list \<Rightarrow> (string \<times> nat \<times> string) set" where
  "granted_in out = {(v, t, c). \<lparr>env_to = Some c, env_msg = VoteReply t v True\<rparr> \<in> set out}"

definition own_vote :: "raft_node \<Rightarrow> (string \<times> nat \<times> string) set" where
  "own_vote n = (if rn_state n = Follower then {} else {(rn_id n, rn_term n, rn_id n)})"

definition leads_now :: "raft_node \<Rightarrow> (nat \<times> string) set" where
  "leads_now n = (if is_leader n then {(rn_term n, rn_id n)} else {})"

text \<open>Node \<open>i\<close> becomes \<open>n\<close> and its envelopes are published.\<close>

definition update :: "cluster \<Rightarrow> string \<Rightarrow> raft_node \<Rightarrow> envelope list \<Rightarrow> cluster" where
  "update s i n out = s\<lparr>cl_node := (cl_node s)(i := n),
     cl_net := cl_net s + mset (send (cl_members s) out),
     cl_grants := cl_grants s \<union> granted_in out \<union> own_vote n,
     cl_leaders := cl_leaders s \<union> leads_now n\<rparr>"

inductive cluster_step :: "cluster \<Rightarrow> cluster \<Rightarrow> bool" where
  tick: "i \<in> set (cl_members s) \<Longrightarrow> tick (cl_node s i) = Some (n, out) \<Longrightarrow>
    cluster_step s (update s i n out)"
| deliver: "i \<in> set (cl_members s) \<Longrightarrow> (i, msg) \<in># cl_net s \<Longrightarrow>
    decode_step (cl_node s i) msg = Some (n, out) \<Longrightarrow>
    cluster_step s (update (s\<lparr>cl_net := cl_net s - {#(i, msg)#}\<rparr>) i n out)"
| propose: "i \<in> set (cl_members s) \<Longrightarrow> propose data (cl_node s i) = Some (Inr (n, out)) \<Longrightarrow>
    cluster_step s (update s i n out)"
| lose: "(d, msg) \<in># cl_net s \<Longrightarrow> cluster_step s (s\<lparr>cl_net := cl_net s - {#(d, msg)#}\<rparr>)"

inductive reachable :: "cluster \<Rightarrow> cluster \<Rightarrow> bool" for s0 where
  start: "reachable s0 s0"
| step: "reachable s0 s \<Longrightarrow> cluster_step s s' \<Longrightarrow> reachable s0 s'"

section \<open>What one operation does to votes\<close>

text \<open>Envelopes that neither ask for nor grant a vote; appends come from a leader to a peer.\<close>

definition quiet_out :: "raft_node \<Rightarrow> envelope list \<Rightarrow> bool" where
  "quiet_out n out \<longleftrightarrow> (\<forall>e \<in> set out. case env_msg e of
       RequestVote _ _ _ _ \<Rightarrow> False
     | VoteReply _ _ g \<Rightarrow> \<not> g \<and> env_to e \<noteq> None
     | AppendEntries t l _ _ _ _ \<Rightarrow> is_leader n \<and> t = rn_term n \<and> l = rn_id n \<and>
         (\<exists>p \<in> set (rn_peers n). env_to e = Some p)
     | AppendReply _ _ _ _ \<Rightarrow> env_to e \<noteq> None)"

definition same_node :: "raft_node \<Rightarrow> raft_node \<Rightarrow> bool" where
  "same_node n n' \<longleftrightarrow> rn_id n' = rn_id n \<and> rn_peers n' = rn_peers n"

text \<open>The voting part of a node's state: term, vote and role.\<close>

fun standing :: "raft_state \<Rightarrow> nat option option" where
  "standing Follower = None"
| "standing (Candidate k) = Some (Some k)"
| "standing (Leader _ _) = Some None"

inductive effect :: "raft_node \<Rightarrow> raft_msg option \<Rightarrow> raft_node \<Rightarrow> envelope list \<Rightarrow> bool" where
  quiet: "rn_term n' = rn_term n \<Longrightarrow> rn_voted_for n' = rn_voted_for n \<Longrightarrow>
    standing (rn_state n') = standing (rn_state n) \<Longrightarrow> quiet_out n' out \<Longrightarrow> effect n m n' out"
| bump: "rn_term n < rn_term n' \<Longrightarrow> rn_voted_for n' = None \<Longrightarrow> rn_state n' = Follower \<Longrightarrow>
    quiet_out n' out \<Longrightarrow> effect n m n' out"
| grant: "rn_term n \<le> t \<Longrightarrow> (t = rn_term n \<Longrightarrow> rn_voted_for n = None \<or> rn_voted_for n = Some c) \<Longrightarrow>
    c \<noteq> rn_id n \<Longrightarrow> rn_term n' = t \<Longrightarrow> rn_voted_for n' = Some c \<Longrightarrow>
    rn_state n' = (if rn_term n < t then Follower else rn_state n) \<Longrightarrow>
    effect n (Some (RequestVote t c li lt)) n'
      [\<lparr>env_to = Some c, env_msg = VoteReply t (rn_id n) True\<rparr>]"
| reset: "rn_state n \<noteq> Follower \<Longrightarrow> rn_term n' = rn_term n \<Longrightarrow> rn_voted_for n' = None \<Longrightarrow>
    rn_state n' = Follower \<Longrightarrow> quiet_out n' out \<Longrightarrow>
    effect n (Some (AppendEntries (rn_term n) l pi pt es lc)) n' out"
| start: "rn_term n' = Suc (rn_term n) \<Longrightarrow> rn_voted_for n' = Some (rn_id n) \<Longrightarrow>
    rn_state n' = Candidate (Suc 0) \<Longrightarrow>
    effect n None n' [\<lparr>env_to = None, env_msg = RequestVote (Suc (rn_term n)) (rn_id n) li lt\<rparr>]"
| alone: "rn_term n' = Suc (rn_term n) \<Longrightarrow> rn_voted_for n' = Some (rn_id n) \<Longrightarrow>
    is_leader n' \<Longrightarrow> rn_peers n = [] \<Longrightarrow> effect n None n' []"
| counted: "rn_state n = Candidate k \<Longrightarrow> rn_term n' = rn_term n \<Longrightarrow> rn_voted_for n' = rn_voted_for n \<Longrightarrow>
    rn_state n' = Candidate (Suc k) \<Longrightarrow> effect n (Some (VoteReply (rn_term n) f True)) n' []"
| elect: "rn_state n = Candidate k \<Longrightarrow> rn_term n' = rn_term n \<Longrightarrow> rn_voted_for n' = rn_voted_for n \<Longrightarrow>
    is_leader n' \<Longrightarrow> majority n \<le> Suc k \<Longrightarrow> quiet_out n' out \<Longrightarrow>
    effect n (Some (VoteReply (rn_term n) f True)) n' out"

lemma those_map_Some: "those (map f xs) = Some ys \<Longrightarrow> y \<in> set ys \<Longrightarrow> \<exists>x \<in> set xs. f x = Some y"
  by (induction xs arbitrary: ys) (auto split: option.splits)

lemma quiet_broadcast: "broadcast_appends n = Some out \<Longrightarrow> quiet_out n out"
  by (auto simp: quiet_out_def broadcast_appends_def is_leader_def append_for_def Let_def
      split: raft_state.splits if_splits dest!: those_map_Some)

lemma quiet_out_Nil [simp]: "quiet_out n []"
  by (simp add: quiet_out_def)

lemma quiet_append_reply [simp]: "quiet_out n [append_reply n' l ok m]"
  by (simp add: quiet_out_def append_reply_def)

lemma become_leader_elects:
  assumes "become_leader n = Some (n', out)"
  shows "rn_term n' = rn_term n \<and> rn_voted_for n' = rn_voted_for n \<and> is_leader n' \<and> same_node n n' \<and>
    quiet_out n' out \<and> (rn_peers n = [] \<longrightarrow> out = [])"
  using assms quiet_broadcast [of n' out]
  by (auto simp: become_leader_def Let_def is_leader_def same_node_def broadcast_appends_def)

lemma effect_start_election:
  assumes "start_election n = Some (n', out)"
  shows "effect n None n' out \<and> same_node n n'"
proof (cases "rn_peers n = []")
  case True
  let ?c = "n\<lparr>rn_term := rn_term n + 1, rn_voted_for := Some (rn_id n), rn_state := Candidate 1, rn_quiet_ticks := 0\<rparr>"
  from assms True have "become_leader ?c = Some (n', out)" by (simp add: start_election_def Let_def)
  from become_leader_elects [OF this] True show ?thesis
    by (auto simp: same_node_def intro: effect.alone)
next
  case False
  with assms show ?thesis
    by (auto simp: start_election_def Let_def same_node_def intro!: effect.start)
qed

lemma standing_Leader [simp]: "leading s \<Longrightarrow> standing s = Some None"
  by (cases s) auto

lemma effect_tick:
  assumes "tick n = Some (n', out)"
  shows "effect n None n' out \<and> same_node n n'"
proof -
  let ?t = "n\<lparr>rn_quiet_ticks := rn_quiet_ticks n + 1\<rparr>"
  have elect: ?thesis if "start_election ?t = Some (n', out)"
  proof -
    from effect_start_election [OF that] have "effect ?t None n' out" "same_node ?t n'" by auto
    then show ?thesis
      by (auto simp: same_node_def elim!: effect.cases intro: effect.intros)
  qed
  show ?thesis
    using assms elect quiet_broadcast [of n' out]
    by (auto simp: tick_def Let_def same_node_def split: if_splits intro!: effect.quiet)
qed

lemma effect_propose:
  "propose d n = Some (Inr (n', out)) \<Longrightarrow> effect n None n' out \<and> same_node n n'"
  by (auto simp: propose_def Let_def same_node_def split: if_splits
      intro!: effect.quiet quiet_broadcast)

lemma effect_request_vote:
  assumes "on_request_vote n t c li lt = (n', out)" and "c \<noteq> rn_id n"
  shows "effect n (Some (RequestVote t c li lt)) n' out \<and> same_node n n'"
proof -
  let ?b = "if rn_term n < t then become_follower t n else n"
  show ?thesis
  proof (cases "t = rn_term ?b \<and> up_to_date ?b li lt \<and> vote_available ?b c")
    case True
    then have n': "n' = ?b\<lparr>rn_voted_for := Some c, rn_quiet_ticks := 0\<rparr>"
      and out: "out = [\<lparr>env_to = Some c, env_msg = VoteReply t (rn_id n) True\<rparr>]"
      using assms(1) by (auto simp: on_request_vote_def Let_def become_follower_def)
    show ?thesis unfolding out
      using True assms(2) by (auto intro!: effect.grant
          simp: n' same_node_def become_follower_def vote_available_def split: if_splits option.splits)
  next
    case False
    then have n': "n' = ?b"
      and out: "out = [\<lparr>env_to = Some c, env_msg = VoteReply (rn_term n') (rn_id n') False\<rparr>]"
      using assms(1) by (auto simp: on_request_vote_def Let_def)
    have "quiet_out n' out" by (simp add: quiet_out_def out)
    then show ?thesis
      using n' by (cases "rn_term n < t") (auto simp: same_node_def become_follower_def
          intro: effect.bump effect.quiet)
  qed
qed

lemma effect_vote_reply:
  assumes "on_vote_reply n t g = Some (n', out)"
  shows "effect n (Some (VoteReply t f g)) n' out \<and> same_node n n'"
proof (cases "\<exists>k. \<not> rn_term n < t \<and> rn_state n = Candidate k \<and> t = rn_term n \<and> g")
  case True
  then obtain k where k: "rn_state n = Candidate k" "t = rn_term n" g by auto
  show ?thesis
  proof (cases "majority n \<le> k + 1")
    case True
    with assms k have "become_leader (n\<lparr>rn_state := Candidate (k + 1)\<rparr>) = Some (n', out)"
      by (simp add: on_vote_reply_def Let_def majority_def)
    from become_leader_elects [OF this] k True show ?thesis
      by (auto simp: same_node_def intro!: effect.elect)
  next
    case False
    with assms k show ?thesis
      by (auto simp: on_vote_reply_def Let_def majority_def same_node_def intro!: effect.counted)
  qed
next
  case False
  show ?thesis
  proof (cases "rn_term n < t")
    case True
    with assms show ?thesis
      by (auto simp: on_vote_reply_def become_follower_def same_node_def intro!: effect.bump)
  next
    case low: False
    with assms False show ?thesis
      by (auto simp: on_vote_reply_def same_node_def split: raft_state.splits if_splits intro!: effect.quiet)
  qed
qed

lemma effect_append_entries:
  assumes "on_append_entries n t l pi pt es lc = (n', out)"
  shows "effect n (Some (AppendEntries t l pi pt es lc)) n' out \<and> same_node n n'"
proof -
  have quiet: "quiet_out n' out"
    using assms by (auto simp: on_append_entries_def Let_def split: if_splits)
  consider (low) "t < rn_term n" | (same) "t = rn_term n" "rn_state n = Follower"
    | (reset) "t = rn_term n" "rn_state n \<noteq> Follower" | (high) "rn_term n < t"
    by linarith
  then show ?thesis
  proof cases
    case low
    with assms quiet show ?thesis
      by (auto simp: on_append_entries_def Let_def same_node_def intro!: effect.quiet)
  next
    case same
    with assms quiet show ?thesis
      by (auto simp: on_append_entries_def Let_def same_node_def split: if_splits intro!: effect.quiet)
  next
    case reset
    with assms quiet show ?thesis
      by (auto simp: on_append_entries_def Let_def same_node_def become_follower_def
          split: if_splits intro!: effect.reset)
  next
    case high
    with assms quiet show ?thesis
      by (auto simp: on_append_entries_def Let_def same_node_def become_follower_def
          split: if_splits intro!: effect.bump)
  qed
qed

lemma effect_append_reply:
  assumes "on_append_reply n t f ok m = (n', out)"
  shows "effect n (Some (AppendReply t f ok m)) n' out \<and> same_node n n'"
proof (cases "rn_term n < t")
  case True
  with assms show ?thesis
    by (auto simp: on_append_reply_def become_follower_def same_node_def intro!: effect.bump)
next
  case False
  with assms show ?thesis
    by (auto simp: on_append_reply_def Let_def same_node_def
        split: raft_state.splits if_splits intro!: effect.quiet)
qed

lemma effect_decode_step:
  assumes "decode_step n msg = Some (n', out)"
  shows "effect n (Some msg) n' out \<and> same_node n n'"
proof (cases msg)
  case (RequestVote t c li lt)
  with assms effect_request_vote [of n t c li lt n' out] show ?thesis
    by (auto simp: decode_step_def same_node_def split: if_splits intro: effect.quiet)
next
  case (VoteReply t f g)
  with assms show ?thesis by (simp add: decode_step_def effect_vote_reply)
next
  case (AppendEntries t l pi pt es lc)
  with assms effect_append_entries [of n t l pi pt es lc n' out] show ?thesis
    by (simp add: decode_step_def)
next
  case (AppendReply t f ok m)
  with assms effect_append_reply [of n t f ok m n' out] show ?thesis
    by (simp add: decode_step_def)
qed

section \<open>Quorums\<close>

text \<open>What elections need of quorums: two of them share a member.\<close>

locale quorums =
  fixes quorum :: "'a set \<Rightarrow> bool"
  assumes intersect: "quorum P \<Longrightarrow> quorum Q \<Longrightarrow> P \<inter> Q \<noteq> {}"
begin

lemma sole_support_wins:
  assumes "quorum P" and "\<And>v. v \<in> P \<Longrightarrow> \<forall>c. grants v c \<longrightarrow> c = a"
    and "quorum Q" and "\<And>v. v \<in> Q \<Longrightarrow> grants v b"
  shows "b = a"
  using intersect [OF assms(1,3)] assms(2,4) by blast

end

definition is_quorum :: "string list \<Rightarrow> string set \<Rightarrow> bool" where
  "is_quorum ms Q \<longleftrightarrow> Q \<subseteq> set ms \<and> card (set ms) div 2 + 1 \<le> card Q"

lemma majorities_intersect:
  assumes "is_quorum ms P" and "is_quorum ms Q"
  shows "P \<inter> Q \<noteq> {}"
proof
  assume "P \<inter> Q = {}"
  moreover have "finite P" "finite Q" using assms by (auto simp: is_quorum_def intro: finite_subset)
  ultimately have "card P + card Q = card (P \<union> Q)" by (simp add: card_Un_disjoint)
  also have "\<dots> \<le> card (set ms)" using assms by (auto simp: is_quorum_def intro: card_mono)
  finally show False using assms by (auto simp: is_quorum_def)
qed

interpretation majorities: quorums "is_quorum ms" for ms
  by unfold_locales (rule majorities_intersect)

section \<open>The voting invariant\<close>

type_synonym net = "(string \<times> raft_msg) multiset"
type_synonym grants = "(string \<times> nat \<times> string) set"
type_synonym leaders = "(nat \<times> string) set"

fun is_rv :: "nat \<Rightarrow> string \<Rightarrow> raft_msg \<Rightarrow> bool" where
  "is_rv t c (RequestVote t' c' _ _) = (t' = t \<and> c' = c)"
| "is_rv t c _ = False"

fun is_yes :: "nat \<Rightarrow> raft_msg \<Rightarrow> bool" where
  "is_yes t (VoteReply t' _ g) = (t' = t \<and> g)"
| "is_yes t _ = False"

text \<open>Copies in flight of a vote request to \<open>d\<close>, and of granted replies to \<open>c\<close>.\<close>

definition rv_copies :: "string \<Rightarrow> nat \<Rightarrow> string \<Rightarrow> net \<Rightarrow> nat" where
  "rv_copies d t c net = size (filter_mset (\<lambda>x. fst x = d \<and> is_rv t c (snd x)) net)"

definition yes_copies :: "string \<Rightarrow> nat \<Rightarrow> net \<Rightarrow> nat" where
  "yes_copies c t net = size (filter_mset (\<lambda>x. fst x = c \<and> is_yes t (snd x)) net)"

definition inv_config :: "string list \<Rightarrow> (string \<Rightarrow> raft_node) \<Rightarrow> bool" where
  "inv_config ms N \<longleftrightarrow> distinct ms \<and>
     (\<forall>i \<in> set ms. rn_id (N i) = i \<and> distinct (rn_peers (N i)) \<and> set (rn_peers (N i)) = set ms - {i})"

definition inv_grants :: "string list \<Rightarrow> (string \<Rightarrow> raft_node) \<Rightarrow> grants \<Rightarrow> bool" where
  "inv_grants ms N G \<longleftrightarrow> (\<forall>v t c. (v, t, c) \<in> G \<longrightarrow>
     v \<in> set ms \<and> c \<in> set ms \<and> t \<le> rn_term (N v) \<and> t \<le> rn_term (N c) \<and> (c, t, c) \<in> G)"

definition inv_roles :: "string list \<Rightarrow> (string \<Rightarrow> raft_node) \<Rightarrow> grants \<Rightarrow> leaders \<Rightarrow> bool" where
  "inv_roles ms N G L \<longleftrightarrow> (\<forall>i \<in> set ms.
     (rn_state (N i) \<noteq> Follower \<longrightarrow> (i, rn_term (N i), i) \<in> G) \<and>
     (is_leader (N i) \<longrightarrow> (rn_term (N i), i) \<in> L))"

definition inv_votes :: "string list \<Rightarrow> (string \<Rightarrow> raft_node) \<Rightarrow> net \<Rightarrow> grants \<Rightarrow> bool" where
  "inv_votes ms N net G \<longleftrightarrow> (\<forall>i \<in> set ms. \<forall>k. rn_state (N i) = Candidate k \<longrightarrow>
     k + yes_copies i (rn_term (N i)) net \<le> card {v. (v, rn_term (N i), i) \<in> G})"

fun msg_ok :: "grants \<Rightarrow> leaders \<Rightarrow> string \<Rightarrow> raft_msg \<Rightarrow> bool" where
  "msg_ok G L d (RequestVote t c _ _) = ((c, t, c) \<in> G)"
| "msg_ok G L d (VoteReply t v g) = (g \<longrightarrow> (v, t, d) \<in> G)"
| "msg_ok G L d (AppendEntries t l _ _ _ _) = ((t, l) \<in> L \<and> d \<noteq> l)"
| "msg_ok G L d (AppendReply _ _ _ _) = True"

definition inv_msgs :: "net \<Rightarrow> grants \<Rightarrow> leaders \<Rightarrow> bool" where
  "inv_msgs net G L \<longleftrightarrow> (\<forall>x \<in># net. msg_ok G L (fst x) (snd x))"

definition inv_once :: "net \<Rightarrow> grants \<Rightarrow> bool" where
  "inv_once net G \<longleftrightarrow> (\<forall>d t c. d \<noteq> c \<longrightarrow> rv_copies d t c net + (if (d, t, c) \<in> G then 1 else 0) \<le> 1)"

text \<open>
  A voter remembers its vote of the current term, unless it was a candidate of that term which
  then heard of another leader of the term.
\<close>

definition inv_memory :: "string list \<Rightarrow> (string \<Rightarrow> raft_node) \<Rightarrow> grants \<Rightarrow> leaders \<Rightarrow> bool" where
  "inv_memory ms N G L \<longleftrightarrow> (\<forall>v \<in> set ms. \<forall>c. (v, rn_term (N v), c) \<in> G \<longrightarrow> rn_voted_for (N v) \<noteq> Some c \<longrightarrow>
     (v, rn_term (N v), v) \<in> G \<and> (\<exists>l. l \<noteq> v \<and> (rn_term (N v), l) \<in> L))"

definition inv_double :: "grants \<Rightarrow> leaders \<Rightarrow> bool" where
  "inv_double G L \<longleftrightarrow> (\<forall>v t c c'. (v, t, c) \<in> G \<longrightarrow> (v, t, c') \<in> G \<longrightarrow> c \<noteq> c' \<longrightarrow> (\<exists>l. (t, l) \<in> L))"

text \<open>A leader has a quorum of voters that voted for nobody else in its term.\<close>

definition supported :: "string list \<Rightarrow> grants \<Rightarrow> nat \<Rightarrow> string \<Rightarrow> string set \<Rightarrow> bool" where
  "supported ms G t l Q \<longleftrightarrow> is_quorum ms Q \<and> (\<forall>v \<in> Q. (v, t, l) \<in> G \<and> (\<forall>c. (v, t, c) \<in> G \<longrightarrow> c = l))"

definition inv_quorum :: "string list \<Rightarrow> grants \<Rightarrow> leaders \<Rightarrow> bool" where
  "inv_quorum ms G L \<longleftrightarrow> (\<forall>t l. (t, l) \<in> L \<longrightarrow> (\<exists>Q. supported ms G t l Q))"

definition vinv :: "string list \<Rightarrow> (string \<Rightarrow> raft_node) \<Rightarrow> net \<Rightarrow> grants \<Rightarrow> leaders \<Rightarrow> bool" where
  "vinv ms N net G L \<longleftrightarrow> inv_config ms N \<and> inv_grants ms N G \<and> inv_roles ms N G L \<and>
     inv_votes ms N net G \<and> inv_msgs net G L \<and> inv_once net G \<and> inv_memory ms N G L \<and>
     inv_double G L \<and> inv_quorum ms G L"

lemma unique_leader:
  assumes "inv_quorum ms G L" and "(t, l) \<in> L" and "(t, l') \<in> L"
  shows "l = l'"
proof -
  obtain P where "supported ms G t l P" using assms(1,2) by (auto simp: inv_quorum_def)
  moreover obtain Q where "supported ms G t l' Q" using assms(1,3) by (auto simp: inv_quorum_def)
  ultimately show ?thesis
    using majorities.sole_support_wins [of ms Q "\<lambda>v c. (v, t, c) \<in> G" l' P l]
    unfolding supported_def by blast
qed

section \<open>Messages\<close>

lemma copies_add [simp]:
  "rv_copies d t c (add_mset x net) = (if fst x = d \<and> is_rv t c (snd x) then 1 else 0) + rv_copies d t c net"
  "yes_copies c t (add_mset x net) = (if fst x = c \<and> is_yes t (snd x) then 1 else 0) + yes_copies c t net"
  "rv_copies d t c {#} = 0" "yes_copies c t {#} = 0"
  by (simp_all add: rv_copies_def yes_copies_def)

lemma copies_union [simp]:
  "rv_copies d t c (net + net') = rv_copies d t c net + rv_copies d t c net'"
  "yes_copies c t (net + net') = yes_copies c t net + yes_copies c t net'"
  by (simp_all add: rv_copies_def yes_copies_def)

lemma rv_copies_zero: "(\<And>x. x \<in> set xs \<Longrightarrow> \<not> (fst x = d \<and> is_rv t c (snd x))) \<Longrightarrow> rv_copies d t c (mset xs) = 0"
  by (auto simp: rv_copies_def)

lemma yes_copies_zero: "(\<And>x. x \<in> set xs \<Longrightarrow> \<not> (fst x = c \<and> is_yes t (snd x))) \<Longrightarrow> yes_copies c t (mset xs) = 0"
  by (auto simp: yes_copies_def)

lemma quiet_send:
  assumes "quiet_out n out" and "x \<in> set (send ms out)"
  shows "\<not> is_rv t c (snd x) \<and> \<not> is_yes t (snd x) \<and>
    (\<forall>G L. (is_leader n \<longrightarrow> (rn_term n, rn_id n) \<in> L) \<longrightarrow> rn_id n \<notin> set (rn_peers n) \<longrightarrow> msg_ok G L (fst x) (snd x))"
proof -
  obtain e where "e \<in> set out" "x \<in> set (send_one ms e)" using assms(2) by (auto simp: send_def)
  with assms(1) show ?thesis
    by (cases "env_msg e") (auto simp: quiet_out_def send_one_def split: option.splits)
qed

lemma quiet_copies:
  assumes "quiet_out n out"
  shows "rv_copies d t c (mset (send ms out)) = 0" "yes_copies d t (mset (send ms out)) = 0"
  by (rule rv_copies_zero yes_copies_zero, use quiet_send [OF assms] in blast)+

lemma granted_in_Nil [simp]: "granted_in [] = {}"
  by (simp add: granted_in_def)

lemma quiet_granted: "quiet_out n out \<Longrightarrow> granted_in out = {}"
  by (force simp: granted_in_def quiet_out_def)

section \<open>Preservation\<close>

lemma vinvD:
  assumes "vinv ms N net G L"
  shows "inv_config ms N" "inv_grants ms N G" "inv_roles ms N G L" "inv_votes ms N net G"
    "inv_msgs net G L" "inv_once net G" "inv_memory ms N G L" "inv_double G L" "inv_quorum ms G L"
  using assms by (simp_all add: vinv_def)

lemma leaders_mono:
  assumes "L \<subseteq> L'"
  shows "inv_roles ms N G L \<Longrightarrow> inv_roles ms N G L'" "inv_memory ms N G L \<Longrightarrow> inv_memory ms N G L'"
    "inv_double G L \<Longrightarrow> inv_double G L'"
  unfolding inv_roles_def inv_memory_def inv_double_def using assms by blast+

lemma vinv_lose:
  assumes "vinv ms N (add_mset x net) G L"
  shows "vinv ms N net G L"
proof -
  have "inv_votes ms N net G"
    using assms unfolding vinv_def inv_votes_def by (auto split: if_splits)
  moreover have "inv_once net G"
    using assms unfolding vinv_def inv_once_def by (metis (no_types, lifting) add.assoc add_leE copies_add(1))
  moreover have "inv_msgs net G L"
    using assms by (auto simp: vinv_def inv_msgs_def)
  ultimately show ?thesis using assms by (simp add: vinv_def)
qed

text \<open>A node changes while votes and leaderships stay as they are.\<close>

lemma vinv_node:
  assumes inv: "vinv ms N net G L" and i: "i \<in> set ms" and same: "same_node (N i) n"
    and later: "rn_term (N i) \<le> rn_term n" and quiet: "quiet_out n out"
    and own: "rn_state n \<noteq> Follower \<Longrightarrow> (i, rn_term n, i) \<in> G"
    and lead: "is_leader n \<Longrightarrow> (rn_term n, i) \<in> L"
    and votes: "\<And>k. rn_state n = Candidate k \<Longrightarrow> k + yes_copies i (rn_term n) net \<le> card {v. (v, rn_term n, i) \<in> G}"
    and memory: "\<And>c. (i, rn_term n, c) \<in> G \<Longrightarrow> rn_voted_for n \<noteq> Some c \<Longrightarrow>
      (i, rn_term n, i) \<in> G \<and> (\<exists>l. l \<noteq> i \<and> (rn_term n, l) \<in> L)"
  shows "vinv ms (N(i := n)) (net + mset (send ms out)) (G \<union> granted_in out \<union> own_vote n) (L \<union> leads_now n)"
proof -
  have id: "rn_id n = i" "rn_id n \<notin> set (rn_peers n)"
    using inv i same by (auto simp: vinv_def inv_config_def same_node_def)
  have G: "G \<union> granted_in out \<union> own_vote n = G" using own id quiet_granted [OF quiet] by (auto simp: own_vote_def)
  have L: "L \<union> leads_now n = L" using lead id by (auto simp: leads_now_def)
  have "inv_config ms (N(i := n))" using inv i same by (auto simp: vinv_def inv_config_def same_node_def)
  moreover have "inv_grants ms (N(i := n)) G"
    using inv later unfolding vinv_def inv_grants_def by (auto intro: order_trans)
  moreover have "inv_roles ms (N(i := n)) G L" using inv own lead by (auto simp: vinv_def inv_roles_def)
  moreover have "inv_votes ms (N(i := n)) (net + mset (send ms out)) G"
    using inv votes by (auto simp: vinv_def inv_votes_def quiet_copies [OF quiet])
  moreover have "inv_msgs (net + mset (send ms out)) G L"
    using inv quiet_send [OF quiet] lead id by (auto simp: vinv_def inv_msgs_def)
  moreover have "inv_once (net + mset (send ms out)) G"
    using inv by (auto simp: vinv_def inv_once_def quiet_copies [OF quiet])
  moreover have "inv_memory ms (N(i := n)) G L" using inv memory by (auto simp: vinv_def inv_memory_def)
  ultimately show ?thesis using inv by (simp add: vinv_def G L)
qed

lemma msg_ok_mono: "msg_ok G L d m \<Longrightarrow> G \<subseteq> G' \<Longrightarrow> L \<subseteq> L' \<Longrightarrow> msg_ok G' L' d m"
  by (cases m) auto

lemma vinv_elect:
  assumes "vinv ms N net G L" and "supported ms G t l Q"
  shows "vinv ms N net G (insert (t, l) L)"
proof -
  have "inv_msgs net G (insert (t, l) L)"
    using assms(1) msg_ok_mono [of G L _ _ G "insert (t, l) L"] by (auto simp: vinv_def inv_msgs_def)
  moreover have "inv_quorum ms G (insert (t, l) L)"
    using assms by (auto simp: vinv_def inv_quorum_def)
  ultimately show ?thesis
    using vinvD [OF assms(1)] leaders_mono [OF subset_insertI] by (auto simp: vinv_def)
qed

text \<open>A majority of votes elects: its voters voted for nobody else in the term.\<close>

lemma majority_supports:
  assumes inv: "vinv ms N net G L" and i: "i \<in> set ms"
    and maj: "majority (N i) \<le> card {v. (v, t, i) \<in> G}"
  shows "\<exists>Q. supported ms G t i Q"
proof -
  let ?Q = "{v. (v, t, i) \<in> G}"
  have sub: "?Q \<subseteq> set ms" using inv by (auto simp: vinv_def inv_grants_def)
  have "length (rn_peers (N i)) = card (set ms - {i})"
    using inv i unfolding vinv_def inv_config_def by (metis distinct_card)
  then have "length (rn_peers (N i)) + 1 = card (set ms)"
    using card_Suc_Diff1 [of "set ms" i] i by simp
  then have Q: "is_quorum ms ?Q" using sub maj by (simp add: is_quorum_def majority_def)
  show ?thesis
  proof (cases "\<exists>l. (t, l) \<in> L")
    case True
    then obtain l P where P: "supported ms G t l P"
      using vinvD(9) [OF inv] unfolding inv_quorum_def by blast
    then have "i = l"
      using majorities.sole_support_wins [of ms P "\<lambda>v c. (v, t, c) \<in> G" l ?Q i] Q
      unfolding supported_def by blast
    with P show ?thesis by blast
  next
    case False
    then have "supported ms G t i ?Q"
      using Q inv unfolding supported_def vinv_def inv_double_def by blast
    then show ?thesis by blast
  qed
qed

lemma card_insert_voter:
  assumes "inv_grants ms N G" and "(i, t, c) \<notin> G"
  shows "card {v. (v, t, c) \<in> insert (i, t, c) G} = Suc (card {v. (v, t, c) \<in> G})"
proof -
  have "{v. (v, t, c) \<in> G} \<subseteq> set ms" using assms(1) by (auto simp: inv_grants_def)
  then have "finite {v. (v, t, c) \<in> G}" by (rule finite_subset) simp
  moreover have "{v. (v, t, c) \<in> insert (i, t, c) G} = insert i {v. (v, t, c) \<in> G}" by auto
  ultimately show ?thesis using assms(2) by simp
qed

lemma supported_insert:
  assumes "supported ms G t l Q" and "i \<in> Q \<longrightarrow> t' = t \<longrightarrow> c = l"
  shows "supported ms (insert (i, t', c) G) t l Q"
  using assms by (auto simp: supported_def)

lemma inv_once_free:
  assumes "inv_once (add_mset (i, RequestVote t c li lt) net) G" and "c \<noteq> i"
  shows "(i, t, c) \<notin> G" "rv_copies i t c net = 0"
  using assms(1) [unfolded inv_once_def, rule_format, of i c t] assms(2) by (auto split: if_splits)

lemma votes_grant:
  assumes votes: "inv_votes ms N (add_mset (i, RequestVote t c li lt) net) G" and G: "inv_grants ms N G"
    and new: "(i, t, c) \<notin> G"
    and n: "\<And>k. rn_state n = Candidate k \<Longrightarrow> rn_state (N i) = Candidate k \<and> rn_term (N i) = rn_term n"
  shows "inv_votes ms (N(i := n)) (add_mset (c, VoteReply t i True) net) (insert (i, t, c) G)"
  unfolding inv_votes_def
proof (intro ballI allI impI)
  fix j k assume j: "j \<in> set ms" and k: "rn_state ((N(i := n)) j) = Candidate k"
  define T where "T = rn_term ((N(i := n)) j)"
  have tj: "rn_state (N j) = Candidate k" "rn_term (N j) = T"
    using k n by (cases "j = i"; simp add: T_def)+
  have before: "k + yes_copies j T net \<le> card {v. (v, T, j) \<in> G}"
    using votes [unfolded inv_votes_def, rule_format, OF j tj(1)] tj(2) by simp
  have "k + yes_copies j T (add_mset (c, VoteReply t i True) net) \<le> card {v. (v, T, j) \<in> insert (i, t, c) G}"
  proof (cases "j = c \<and> T = t")
    case True
    then show ?thesis using before card_insert_voter [OF G new] by simp
  next
    case False
    then have "{v. (v, T, j) \<in> insert (i, t, c) G} = {v. (v, T, j) \<in> G}" by auto
    with before False show ?thesis by auto
  qed
  then show "k + yes_copies j (rn_term ((N(i := n)) j)) (add_mset (c, VoteReply t i True) net)
      \<le> card {v. (v, rn_term ((N(i := n)) j), j) \<in> insert (i, t, c) G}"
    by (simp add: T_def)
qed

lemma vinv_grant:
  assumes inv: "vinv ms N (add_mset (i, RequestVote t c li lt) net) G L" and i: "i \<in> set ms"
    and same: "same_node (N i) n" and c: "c \<noteq> i" and later: "rn_term (N i) \<le> t"
    and free: "t = rn_term (N i) \<Longrightarrow> rn_voted_for (N i) = None \<or> rn_voted_for (N i) = Some c"
    and n: "rn_term n = t" "rn_voted_for n = Some c"
      "rn_state n = (if rn_term (N i) < t then Follower else rn_state (N i))"
  shows "vinv ms (N(i := n)) (add_mset (c, VoteReply t i True) net) (insert (i, t, c) G) L"
proof -
  note old = vinvD [OF inv]
  have new: "(i, t, c) \<notin> G" and gone: "rv_copies i t c net = 0"
    using inv_once_free [OF old(6) c] by auto
  have cand: "(c, t, c) \<in> G" using old(5) by (simp add: inv_msgs_def)
  have past: "(i, t, c') \<notin> G" if "rn_term (N i) < t" for c'
    using old(2) that by (auto simp: inv_grants_def not_le [symmetric])
  have again: "(i, t, i) \<in> G \<and> (\<exists>l. l \<noteq> i \<and> (t, l) \<in> L)" if "(i, t, c') \<in> G" "c' \<noteq> c" for c'
  proof -
    from that past later have "t = rn_term (N i)" by fastforce
    with that free old(7) i show ?thesis unfolding inv_memory_def by fastforce
  qed
  have "inv_config ms (N(i := n))" using old(1) i same by (auto simp: inv_config_def same_node_def)
  moreover have "inv_grants ms (N(i := n)) (insert (i, t, c) G)"
    using old(2) i cand later n(1) unfolding inv_grants_def by (auto intro: order_trans)
  moreover have "inv_roles ms (N(i := n)) (insert (i, t, c) G) L"
    using old(3) i n later by (auto simp: inv_roles_def is_leader_def)
  moreover have "inv_votes ms (N(i := n)) (add_mset (c, VoteReply t i True) net) (insert (i, t, c) G)"
    using n later by (intro votes_grant [OF old(4,2) new]) (auto split: if_splits)
  moreover have "inv_msgs (add_mset (c, VoteReply t i True) net) (insert (i, t, c) G) L"
    using old(5) msg_ok_mono [of G L _ _ "insert (i, t, c) G" L] by (auto simp: inv_msgs_def)
  moreover have "inv_once (add_mset (c, VoteReply t i True) net) (insert (i, t, c) G)"
    using old(6) gone unfolding inv_once_def by (fastforce split: if_splits)
  moreover have "inv_memory ms (N(i := n)) (insert (i, t, c) G) L"
    unfolding inv_memory_def
  proof (intro ballI allI impI)
    fix v c' assume v: "v \<in> set ms" "(v, rn_term ((N(i := n)) v), c') \<in> insert (i, t, c) G"
      "rn_voted_for ((N(i := n)) v) \<noteq> Some c'"
    show "(v, rn_term ((N(i := n)) v), v) \<in> insert (i, t, c) G \<and> (\<exists>l. l \<noteq> v \<and> (rn_term ((N(i := n)) v), l) \<in> L)"
    proof (cases "v = i")
      case True
      with v n(1,2) again [of c'] show ?thesis by auto
    next
      case False
      with v old(7) show ?thesis by (auto simp: inv_memory_def)
    qed
  qed
  moreover have "inv_double (insert (i, t, c) G) L"
    using old(8) again unfolding inv_double_def by blast
  moreover have "inv_quorum ms (insert (i, t, c) G) L"
    unfolding inv_quorum_def
  proof (intro allI impI)
    fix t' l assume l: "(t', l) \<in> L"
    then obtain Q where Q: "supported ms G t' l Q" using old(9) by (auto simp: inv_quorum_def)
    have "c = l" if "i \<in> Q" "t' = t"
    proof (rule ccontr)
      assume "c \<noteq> l"
      from Q that have only: "(i, t, l) \<in> G" "\<forall>c. (i, t, c) \<in> G \<longrightarrow> c = l" by (auto simp: supported_def)
      from again [OF only(1)] \<open>c \<noteq> l\<close> obtain l' where "(i, t, i) \<in> G" "l' \<noteq> i" "(t, l') \<in> L" by auto
      with only unique_leader [OF old(9) l] that show False by auto
    qed
    with Q show "\<exists>Q. supported ms (insert (i, t, c) G) t' l Q" by (blast intro: supported_insert)
  qed
  ultimately show ?thesis by (simp add: vinv_def)
qed

lemma rv_copies_broadcast:
  "distinct ds \<Longrightarrow> rv_copies d t c (image_mset (\<lambda>x. (x, RequestVote t' c' li lt)) (mset ds)) =
     (if d \<in> set ds \<and> t' = t \<and> c' = c then 1 else 0)"
  by (induction ds) auto

lemma yes_copies_broadcast: "yes_copies d t (image_mset (\<lambda>x. (x, RequestVote t' c' li lt)) (mset ds)) = 0"
  by (induction ds) auto

text \<open>Nothing of a term is in flight to or from a node that has not reached it.\<close>

lemma future_quiet:
  assumes inv: "vinv ms N net G L" and t: "rn_term (N i) < t"
  shows "(v, t, i) \<notin> G" "(i, t, v) \<notin> G" "rv_copies d t i net = 0" "yes_copies i t net = 0"
proof -
  note old = vinvD [OF inv]
  show none: "(v, t, i) \<notin> G" "(i, t, v) \<notin> G" for v
    using old(2) t by (auto simp: inv_grants_def not_le [symmetric])
  have rv: "\<not> is_rv t i (snd x)" and yes: "\<not> (fst x = i \<and> is_yes t (snd x))" if "x \<in># net" for x
    using old(5) none that by (cases "snd x"; force simp: inv_msgs_def)+
  show "rv_copies d t i net = 0" using rv by (auto simp: rv_copies_def multiset_eq_iff not_in_iff [symmetric])
  show "yes_copies i t net = 0" using yes by (auto simp: yes_copies_def multiset_eq_iff not_in_iff [symmetric])
qed

lemma vinv_start:
  assumes inv: "vinv ms N net G L" and i: "i \<in> set ms" and same: "same_node (N i) n"
    and n: "rn_term n = Suc (rn_term (N i))" "rn_voted_for n = Some i" "rn_state n = Candidate (Suc 0)"
    and ds: "distinct ds"
  shows "vinv ms (N(i := n)) (net + mset (map (\<lambda>d. (d, RequestVote (rn_term n) i li lt)) ds))
    (insert (i, rn_term n, i) G) L"
proof -
  note old = vinvD [OF inv]
  let ?t = "rn_term n" and ?b = "mset (map (\<lambda>d. (d, RequestVote (rn_term n) i li lt)) ds)"
  have t: "rn_term (N i) < ?t" using n(1) by simp
  note fq = future_quiet [OF inv t]
  have "inv_config ms (N(i := n))" using old(1) i same by (auto simp: inv_config_def same_node_def)
  moreover have "inv_grants ms (N(i := n)) (insert (i, ?t, i) G)"
    using old(2) i n(1) unfolding inv_grants_def by (auto intro: le_SucI)
  moreover have "inv_roles ms (N(i := n)) (insert (i, ?t, i) G) L"
    using old(3) i n(3) by (auto simp: inv_roles_def is_leader_def)
  moreover have "inv_votes ms (N(i := n)) (net + ?b) (insert (i, ?t, i) G)"
    unfolding inv_votes_def
  proof (intro ballI allI impI)
    fix j k assume j: "j \<in> set ms" and k: "rn_state ((N(i := n)) j) = Candidate k"
    show "k + yes_copies j (rn_term ((N(i := n)) j)) (net + ?b) \<le>
        card {v. (v, rn_term ((N(i := n)) j), j) \<in> insert (i, ?t, i) G}"
    proof (cases "j = i")
      case True
      with k n(3) fq(4) card_insert_voter [OF old(2) fq(1)] show ?thesis by (simp add: yes_copies_broadcast)
    next
      case False
      with k old(4) [unfolded inv_votes_def, rule_format, OF j, of k] show ?thesis
        by (simp add: yes_copies_broadcast)
    qed
  qed
  moreover have "inv_msgs (net + ?b) (insert (i, ?t, i) G) L"
    using old(5) msg_ok_mono [of G L _ _ "insert (i, ?t, i) G" L] by (auto simp: inv_msgs_def)
  moreover have "inv_once (net + ?b) (insert (i, ?t, i) G)"
    unfolding inv_once_def
  proof (intro allI impI)
    fix d c :: string and t' :: nat assume "d \<noteq> c"
    then show "rv_copies d t' c (net + ?b) + (if (d, t', c) \<in> insert (i, ?t, i) G then 1 else 0) \<le> 1"
      using old(6) [unfolded inv_once_def, rule_format, of d c t'] fq
      by (cases "t' = ?t \<and> c = i") (auto simp: rv_copies_broadcast [OF ds])
  qed
  moreover have "inv_memory ms (N(i := n)) (insert (i, ?t, i) G) L"
    unfolding inv_memory_def
  proof (intro ballI allI impI)
    fix v c assume v: "v \<in> set ms" "(v, rn_term ((N(i := n)) v), c) \<in> insert (i, ?t, i) G"
      "rn_voted_for ((N(i := n)) v) \<noteq> Some c"
    then have "v \<noteq> i" using n(2) fq(2) by auto
    with v old(7) show "(v, rn_term ((N(i := n)) v), v) \<in> insert (i, ?t, i) G \<and>
        (\<exists>l. l \<noteq> v \<and> (rn_term ((N(i := n)) v), l) \<in> L)"
      by (auto simp: inv_memory_def)
  qed
  moreover have "inv_double (insert (i, ?t, i) G) L"
    using old(8) fq(2) unfolding inv_double_def by blast
  moreover have "inv_quorum ms (insert (i, ?t, i) G) L"
    unfolding inv_quorum_def
  proof (intro allI impI)
    fix t' l assume "(t', l) \<in> L"
    then obtain Q where Q: "supported ms G t' l Q" using old(9) by (auto simp: inv_quorum_def)
    then have "i \<in> Q \<longrightarrow> ?t = t' \<longrightarrow> i = l" using fq(2) by (auto simp: supported_def)
    with Q show "\<exists>Q. supported ms (insert (i, ?t, i) G) t' l Q" by (blast intro: supported_insert)
  qed
  ultimately show ?thesis by (simp add: vinv_def)
qed

text \<open>Consuming a message and acting on it.\<close>

definition consumed :: "string \<Rightarrow> raft_msg option \<Rightarrow> net \<Rightarrow> net" where
  "consumed i m net = (case m of None \<Rightarrow> net | Some x \<Rightarrow> add_mset (i, x) net)"

lemma vinv_consumed: "vinv ms N (consumed i m net) G L \<Longrightarrow> vinv ms N net G L"
  by (auto simp: consumed_def split: option.splits intro: vinv_lose)

lemma standing_eq:
  assumes "standing s = standing s'"
  shows "(s = Follower) = (s' = Follower)" "(s = Candidate k) = (s' = Candidate k)" "leading s = leading s'"
  using assms by (cases s; cases s'; simp)+

lemma effect_quiet:
  assumes inv: "vinv ms N net G L" and i: "i \<in> set ms" and same: "same_node (N i) n"
    and n: "rn_term n = rn_term (N i)" "rn_voted_for n = rn_voted_for (N i)"
      "standing (rn_state n) = standing (rn_state (N i))" and quiet: "quiet_out n out"
  shows "vinv ms (N(i := n)) (net + mset (send ms out)) (G \<union> granted_in out \<union> own_vote n) (L \<union> leads_now n)"
proof -
  note inv' = vinvD [OF inv]
  have votes: "k + yes_copies i (rn_term n) net \<le> card {v. (v, rn_term n, i) \<in> G}" if "rn_state n = Candidate k" for k
  proof -
    from that standing_eq(2) [OF n(3)] have "rn_state (N i) = Candidate k" by simp
    from inv'(4) [unfolded inv_votes_def, rule_format, OF i this] show ?thesis by (simp add: n(1))
  qed
  show ?thesis
    using inv'(3,7) n i same quiet standing_eq(1,3) [OF n(3)] votes
    by (intro vinv_node [OF inv]) (auto simp: inv_roles_def inv_memory_def is_leader_def)
qed

lemma effect_grant:
  assumes inv: "vinv ms N (add_mset (i, RequestVote t c li lt) net) G L" and i: "i \<in> set ms"
    and same: "same_node (N i) n" and c: "c \<noteq> rn_id (N i)" and later: "rn_term (N i) \<le> t"
    and free: "t = rn_term (N i) \<Longrightarrow> rn_voted_for (N i) = None \<or> rn_voted_for (N i) = Some c"
    and n: "rn_term n = t" "rn_voted_for n = Some c"
      "rn_state n = (if rn_term (N i) < t then Follower else rn_state (N i))"
    and out: "out = [\<lparr>env_to = Some c, env_msg = VoteReply t (rn_id (N i)) True\<rparr>]"
  shows "vinv ms (N(i := n)) (net + mset (send ms out)) (G \<union> granted_in out \<union> own_vote n) (L \<union> leads_now n)"
proof -
  have id: "rn_id n = i" "rn_id (N i) = i" using vinvD(1) [OF inv] i same by (auto simp: inv_config_def same_node_def)
  have v: "vinv ms (N(i := n)) (add_mset (c, VoteReply t i True) net) (insert (i, t, c) G) L"
    using c id(2) by (intro vinv_grant [OF inv i same _ later free n]) auto
  have "own_vote n \<subseteq> insert (i, t, c) G" and lead: "leads_now n \<subseteq> L"
    using vinvD(3) [OF v] i id by (auto simp: own_vote_def leads_now_def inv_roles_def)
  moreover have "granted_in out = {(i, t, c)}"
    using id by (auto simp: granted_in_def out)
  ultimately have "G \<union> granted_in out \<union> own_vote n = insert (i, t, c) G" by auto
  moreover have "mset (send ms out) = {#(c, VoteReply t i True)#}"
    using id by (simp add: out send_def send_one_def)
  ultimately show ?thesis using v lead by (simp add: Un_absorb2)
qed

lemma effect_begin:
  assumes inv: "vinv ms N net G L" and i: "i \<in> set ms" and same: "same_node (N i) n"
    and n: "rn_term n = Suc (rn_term (N i))" "rn_voted_for n = Some (rn_id (N i))" "rn_state n = Candidate (Suc 0)"
    and out: "out = [\<lparr>env_to = None, env_msg = RequestVote (Suc (rn_term (N i))) (rn_id (N i)) li lt\<rparr>]"
  shows "vinv ms (N(i := n)) (net + mset (send ms out)) (G \<union> granted_in out \<union> own_vote n) (L \<union> leads_now n)"
proof -
  have id: "rn_id n = i" "rn_id (N i) = i" "distinct ms"
    using vinvD(1) [OF inv] i same by (auto simp: inv_config_def same_node_def)
  have v: "vinv ms (N(i := n)) (net + mset (map (\<lambda>d. (d, RequestVote (rn_term n) i li lt)) ms))
      (insert (i, rn_term n, i) G) L"
    using n id i same inv by (intro vinv_start) auto
  have "own_vote n = {(i, rn_term n, i)}" "leads_now n = {}" "granted_in out = {}"
    using n id by (auto simp: own_vote_def leads_now_def is_leader_def granted_in_def out)
  moreover have "send ms out = map (\<lambda>d. (d, RequestVote (rn_term n) i li lt)) ms"
    using n id by (simp add: send_def send_one_def out)
  ultimately show ?thesis using v by simp
qed

lemma effect_alone:
  assumes inv: "vinv ms N net G L" and i: "i \<in> set ms" and same: "same_node (N i) n"
    and n: "rn_term n = Suc (rn_term (N i))" "rn_voted_for n = Some (rn_id (N i))" "is_leader n"
    and alone: "rn_peers (N i) = []"
  shows "vinv ms (N(i := n)) net (G \<union> own_vote n) (L \<union> leads_now n)"
proof -
  have "set (rn_peers (N i)) = set ms - {i}" using vinvD(1) [OF inv] i by (simp add: inv_config_def)
  then have id: "rn_id n = i" "rn_id (N i) = i" "set ms = {i}"
    using vinvD(1) [OF inv] i same alone by (auto simp: inv_config_def same_node_def)
  let ?c = "n\<lparr>rn_state := Candidate (Suc 0)\<rparr>" and ?G = "insert (i, rn_term n, i) G"
  have v: "vinv ms (N(i := ?c)) net ?G L"
    using vinv_start [of ms N net G L i ?c "[]"] n id i same inv by (simp add: same_node_def)
  have only: "(v, t, c) \<in> ?G \<Longrightarrow> v = i \<and> c = i" for v t c
    using vinvD(2) [OF v, unfolded inv_grants_def] id(3) by blast
  have "is_quorum ms {i}" by (simp add: is_quorum_def id(3))
  with only have Q: "supported ms ?G (rn_term n) i {i}" unfolding supported_def by blast
  have "vinv ms ((N(i := ?c))(i := n)) (net + mset (send ms [])) (?G \<union> granted_in [] \<union> own_vote n)
      (insert (rn_term n, i) L \<union> leads_now n)"
  proof (rule vinv_node [OF vinv_elect [OF v Q] i])
    show "(i, rn_term n, i) \<in> ?G \<and> (\<exists>l. l \<noteq> i \<and> (rn_term n, l) \<in> insert (rn_term n, i) L)"
      if "(i, rn_term n, c) \<in> ?G" "rn_voted_for n \<noteq> Some c" for c
      using only [OF that(1)] that(2) n(2) id(2) by simp
    show "k + yes_copies i (rn_term n) net \<le> card {v. (v, rn_term n, i) \<in> ?G}" if "rn_state n = Candidate k" for k
      using that n(3) by (simp add: is_leader_def)
  qed (simp_all add: same_node_def)
  moreover have "insert (rn_term n, i) L \<union> leads_now n = L \<union> leads_now n" "?G \<union> own_vote n = G \<union> own_vote n"
    using n(3) by (cases "rn_state n"; simp add: leads_now_def own_vote_def is_leader_def id(1) insert_commute)+
  ultimately show ?thesis by (simp add: send_def)
qed

lemma effect_elect:
  assumes inv: "vinv ms N (add_mset (i, VoteReply (rn_term (N i)) f True) net) G L" and i: "i \<in> set ms"
    and same: "same_node (N i) n" and k: "rn_state (N i) = Candidate k" and maj: "majority (N i) \<le> Suc k"
    and n: "rn_term n = rn_term (N i)" "rn_voted_for n = rn_voted_for (N i)" "is_leader n" and quiet: "quiet_out n out"
  shows "vinv ms (N(i := n)) (net + mset (send ms out)) (G \<union> granted_in out \<union> own_vote n) (L \<union> leads_now n)"
proof -
  have "k + 1 + yes_copies i (rn_term n) net \<le> card {v. (v, rn_term n, i) \<in> G}"
    using vinvD(4) [OF inv, unfolded inv_votes_def, rule_format, OF i k] n by simp
  then have "majority (N i) \<le> card {v. (v, rn_term n, i) \<in> G}" using maj by simp
  from majority_supports [OF inv i this] obtain Q where Q: "supported ms G (rn_term n) i Q" ..
  have "vinv ms (N(i := n)) (net + mset (send ms out)) (G \<union> granted_in out \<union> own_vote n)
      (insert (rn_term n, i) L \<union> leads_now n)"
    using vinvD(3,7) [OF vinv_elect [OF inv Q]] n k i same quiet
    by (intro vinv_node [OF vinv_elect [OF vinv_lose [OF inv] Q]])
      (auto simp: inv_roles_def inv_memory_def is_leader_def)
  moreover have "insert (rn_term n, i) L \<union> leads_now n = L \<union> leads_now n"
    using n vinvD(1) [OF inv] i same by (auto simp: leads_now_def inv_config_def same_node_def)
  ultimately show ?thesis by simp
qed

lemma vinv_effect:
  assumes eff: "effect (N i) m n out" and inv: "vinv ms N (consumed i m net) G L"
    and i: "i \<in> set ms" and same: "same_node (N i) n"
  shows "vinv ms (N(i := n)) (net + mset (send ms out)) (G \<union> granted_in out \<union> own_vote n) (L \<union> leads_now n)"
  using eff
proof cases
  case quiet
  then show ?thesis by (intro effect_quiet [OF vinv_consumed [OF inv] i same])
next
  case bump
  have "(i, rn_term n, c) \<notin> G" for c
    using future_quiet(2) [OF vinv_consumed [OF inv] bump(1)] .
  with bump i same show ?thesis
    by (intro vinv_node [OF vinv_consumed [OF inv]]) (auto simp: is_leader_def)
next
  case (reset l pi pt es lc)
  have "(rn_term n, l) \<in> L" "i \<noteq> l" using vinvD(5) [OF inv] reset by (auto simp: inv_msgs_def consumed_def)
  moreover have "(i, rn_term n, i) \<in> G" using vinvD(3) [OF inv] reset i by (auto simp: inv_roles_def)
  ultimately show ?thesis
    using reset i same by (intro vinv_node [OF vinv_consumed [OF inv]]) (auto simp: is_leader_def)
next
  case (counted k f)
  note inv' = vinvD [OF inv]
  have "k + 1 + yes_copies i (rn_term n) net \<le> card {v. (v, rn_term n, i) \<in> G}"
    using inv'(4) [unfolded inv_votes_def, rule_format, OF i counted(3)] counted by (simp add: consumed_def)
  with inv'(3,7) counted i same show ?thesis
    by (intro vinv_node [OF vinv_consumed [OF inv]]) (auto simp: inv_roles_def inv_memory_def is_leader_def)
next
  case (elect k f)
  then show ?thesis using inv i same by (intro effect_elect [of ms N i f net]) (auto simp: consumed_def)
next
  case (grant t c li lt)
  then show ?thesis using inv i same by (intro effect_grant [of ms N i t c li lt]) (auto simp: consumed_def)
next
  case (start li lt)
  then show ?thesis using inv i same by (intro effect_begin [of ms N net G L i n out li lt]) (auto simp: consumed_def)
next
  case alone
  with effect_alone [of ms N net G L i n] inv i same show ?thesis
    by (simp add: consumed_def send_def)
qed

section \<open>Election safety\<close>

definition cluster_inv :: "cluster \<Rightarrow> bool" where
  "cluster_inv s \<longleftrightarrow> vinv (cl_members s) (cl_node s) (cl_net s) (cl_grants s) (cl_leaders s)"

lemma cluster_inv_init: "distinct ms \<Longrightarrow> cluster_inv (cluster_init ms seed)"
  by (auto simp: cluster_inv_def cluster_init_def vinv_def inv_config_def inv_grants_def inv_roles_def
      inv_votes_def inv_msgs_def inv_once_def inv_memory_def inv_double_def inv_quorum_def
      raft_new_def is_leader_def)

lemma cluster_inv_update:
  assumes "effect (cl_node s i) m n out \<and> same_node (cl_node s i) n" and "i \<in> set (cl_members s)"
    and "vinv (cl_members s) (cl_node s) (consumed i m (cl_net s)) (cl_grants s) (cl_leaders s)"
  shows "cluster_inv (update s i n out)"
  using vinv_effect [of "cl_node s" i m n out "cl_members s" "cl_net s"] assms
  by (simp add: cluster_inv_def update_def)

lemma cluster_inv_step: "cluster_step s s' \<Longrightarrow> cluster_inv s \<Longrightarrow> cluster_inv s'"
proof (induction rule: cluster_step.induct)
  case (tick i s n out)
  then show ?case
    using cluster_inv_update [OF effect_tick] by (simp add: consumed_def cluster_inv_def [of s])
next
  case (deliver i s msg n out)
  let ?s = "s\<lparr>cl_net := cl_net s - {#(i, msg)#}\<rparr>"
  have "consumed i (Some msg) (cl_net ?s) = cl_net s" using deliver(2) by (simp add: consumed_def)
  then show ?case
    using cluster_inv_update [of ?s i "Some msg" n out] effect_decode_step deliver
    by (simp add: cluster_inv_def [of s])
next
  case (propose i s data n out)
  then show ?case
    using cluster_inv_update [OF effect_propose] by (simp add: consumed_def cluster_inv_def [of s])
next
  case (lose d msg s)
  then have "vinv (cl_members s) (cl_node s) (add_mset (d, msg) (cl_net s - {#(d, msg)#})) (cl_grants s) (cl_leaders s)"
    by (simp add: cluster_inv_def)
  from vinv_lose [OF this] show ?case by (simp add: cluster_inv_def)
qed

lemma reachable_inv: "reachable (cluster_init ms seed) s \<Longrightarrow> distinct ms \<Longrightarrow> cluster_inv s"
  by (induction rule: reachable.induct) (auto intro: cluster_inv_init cluster_inv_step)

lemma reachable_members: "reachable (cluster_init ms seed) s \<Longrightarrow> cl_members s = ms"
proof (induction rule: reachable.induct)
  case start
  then show ?case by (simp add: cluster_init_def)
next
  case (step s s')
  from step(2) have "cl_members s' = cl_members s" by cases (simp_all add: update_def)
  with step show ?case by simp
qed

lemma one_leader:
  assumes "distinct ms" and "reachable (cluster_init ms seed) s"
    and "i \<in> set ms" and "j \<in> set ms"
    and "is_leader (cl_node s i)" and "is_leader (cl_node s j)"
    and "rn_term (cl_node s i) = rn_term (cl_node s j)"
  shows "i = j"
proof -
  have inv: "vinv ms (cl_node s) (cl_net s) (cl_grants s) (cl_leaders s)"
    using reachable_inv [OF assms(2,1)] reachable_members [OF assms(2)] by (simp add: cluster_inv_def)
  have "(rn_term (cl_node s i), i) \<in> cl_leaders s" "(rn_term (cl_node s i), j) \<in> cl_leaders s"
    using vinvD(3) [OF inv] assms by (auto simp: inv_roles_def)
  from unique_leader [OF vinvD(9) [OF inv] this] show ?thesis .
qed

text \<open>
  C5: Election safety. In every state a cluster of distinct members can reach from its start, with
  messages delivered at most once, in any order, or lost, two members that lead in the same term
  are the same node.
\<close>

theorem election_safety:
  assumes "distinct ms" and "reachable (cluster_init ms seed) s"
    and "i \<in> set ms" and "j \<in> set ms"
    and "is_leader (cl_node s i)" and "is_leader (cl_node s j)"
    and "rn_term (cl_node s i) = rn_term (cl_node s j)"
  shows "i = j"
  using assms by (rule one_leader)

text \<open>A node that hears nothing counts ticks until its timeout.\<close>

lemma idle_ticks:
  assumes "reachable s0 s" and "i \<in> set (cl_members s)" and "rn_state (cl_node s i) = Follower"
    and "rn_quiet_ticks (cl_node s i) + k < rn_election_after (cl_node s i)"
  shows "reachable s0 (s\<lparr>cl_node := (cl_node s)(i := (cl_node s i)\<lparr>rn_quiet_ticks := rn_quiet_ticks (cl_node s i) + k\<rparr>)\<rparr>)"
  using assms(4)
proof (induction k)
  case 0
  then show ?case using assms(1) by simp
next
  case (Suc k)
  let ?n = "(cl_node s i)\<lparr>rn_quiet_ticks := rn_quiet_ticks (cl_node s i) + k\<rparr>"
  let ?s = "s\<lparr>cl_node := (cl_node s)(i := ?n)\<rparr>"
  have "tick (cl_node ?s i) = Some (?n\<lparr>rn_quiet_ticks := rn_quiet_ticks (cl_node s i) + Suc k\<rparr>, [])"
    using Suc.prems assms(3) by (simp add: tick_def Let_def)
  with assms(2) have "cluster_step ?s (update ?s i (?n\<lparr>rn_quiet_ticks := rn_quiet_ticks (cl_node s i) + Suc k\<rparr>) [])"
    by (intro cluster_step.tick) auto
  from reachable.step [OF Suc.IH this] Suc.prems
  have "reachable s0 (update ?s i (?n\<lparr>rn_quiet_ticks := rn_quiet_ticks (cl_node s i) + Suc k\<rparr>) [])" by simp
  also have "update ?s i (?n\<lparr>rn_quiet_ticks := rn_quiet_ticks (cl_node s i) + Suc k\<rparr>) [] =
      s\<lparr>cl_node := (cl_node s)(i := (cl_node s i)\<lparr>rn_quiet_ticks := rn_quiet_ticks (cl_node s i) + Suc k\<rparr>)\<rparr>"
    using assms(3) unfolding update_def by (simp add: own_vote_def leads_now_def is_leader_def send_def)
  finally show ?case .
qed

lemmas raft_eval = update_def send_def send_one_def granted_in_def own_vote_def leads_now_def
  become_leader_def broadcast_appends_def append_for_def index_all_def majority_def raft_defs

lemma electable:
  "\<exists>s. reachable (cluster_init [''a'', ''b'', ''c''] seed) s \<and> is_leader (cl_node s ''a'')"
proof -
  let ?ms = "[''a'', ''b'', ''c'']" and ?s0 = "cluster_init [''a'', ''b'', ''c''] seed"
  let ?a = "cl_node ?s0 ''a''"
  have E: "10 \<le> rn_election_after ?a" by (simp add: cluster_init_def raft_new_def)
  define s1 where "s1 = ?s0\<lparr>cl_node := (cl_node ?s0)(''a'' := ?a\<lparr>rn_quiet_ticks := rn_election_after ?a - 1\<rparr>)\<rparr>"
  have r1: "reachable ?s0 s1"
    using idle_ticks [OF reachable.start, of "''a''" ?s0 "rn_election_after ?a - 1"] E
    by (simp add: s1_def cluster_init_def raft_new_def)
  obtain n2 where t2: "tick (cl_node s1 ''a'') = Some (n2, [\<lparr>env_to = None, env_msg = RequestVote 1 ''a'' 0 0\<rparr>])"
    and n2: "rn_id n2 = ''a''" "rn_state n2 = Candidate 1" "rn_term n2 = 1" "rn_peers n2 = [''b'', ''c'']" "rn_log n2 = []"
    using E by (simp add: s1_def cluster_init_def raft_new_def tick_def start_election_def Let_def last_index_def last_term_def)
  define s2 where "s2 = update s1 ''a'' n2 [\<lparr>env_to = None, env_msg = RequestVote 1 ''a'' 0 0\<rparr>]"
  have r2: "reachable ?s0 s2" unfolding s2_def
    by (rule reachable.step [OF r1 cluster_step.tick [OF _ t2]]) (simp add: s1_def cluster_init_def)
  have s2: "cl_members s2 = ?ms" "(''b'', RequestVote 1 ''a'' 0 0) \<in># cl_net s2" "cl_node s2 ''b'' = cl_node ?s0 ''b''"
      "cl_node s2 ''a'' = n2"
    by (simp_all add: s2_def s1_def update_def cluster_init_def send_def send_one_def)
  let ?yes = "[\<lparr>env_to = Some ''a'', env_msg = VoteReply 1 ''b'' True\<rparr>]"
  obtain n3 where d3: "decode_step (cl_node s2 ''b'') (RequestVote 1 ''a'' 0 0) = Some (n3, ?yes)"
    unfolding s2 by (simp add: decode_step_def cluster_init_def raft_new_def on_request_vote_def Let_def
        become_follower_def up_to_date_def vote_available_def last_term_def last_index_def)
  define s3 where "s3 = update (s2\<lparr>cl_net := cl_net s2 - {#(''b'', RequestVote 1 ''a'' 0 0)#}\<rparr>) ''b'' n3 ?yes"
  have r3: "reachable ?s0 s3" unfolding s3_def
    by (rule reachable.step [OF r2 cluster_step.deliver [OF _ s2(2) d3]]) (simp add: s2)
  have s3: "cl_members s3 = ?ms" "(''a'', VoteReply 1 ''b'' True) \<in># cl_net s3" "cl_node s3 ''a'' = n2"
    using s2 by (simp_all add: s3_def update_def send_def send_one_def)
  obtain n4 out where "decode_step (cl_node s3 ''a'') (VoteReply 1 ''b'' True) = Some (n4, out)" "is_leader n4"
    unfolding s3 using n2 by (simp add: decode_step_def on_vote_reply_def become_leader_def broadcast_appends_def
        append_for_def index_all_def majority_def last_index_def is_leader_def Let_def)
  with reachable.step [OF r3 cluster_step.deliver [OF _ s3(2)]] s3(1)
  have "reachable ?s0 (update (s3\<lparr>cl_net := cl_net s3 - {#(''a'', VoteReply 1 ''b'' True)#}\<rparr>) ''a'' n4 out)"
    "is_leader (cl_node (update (s3\<lparr>cl_net := cl_net s3 - {#(''a'', VoteReply 1 ''b'' True)#}\<rparr>) ''a'' n4 out) ''a'')"
    by (auto simp: update_def)
  then show ?thesis by blast
qed

theorem election_safety_witness:
  "\<exists>s. reachable (cluster_init [''a'', ''b'', ''c''] (\<lambda>_. 0)) s \<and> is_leader (cl_node s ''a'') \<and>
     (\<forall>j \<in> {''a'', ''b'', ''c''}. is_leader (cl_node s j) \<longrightarrow>
        rn_term (cl_node s j) = rn_term (cl_node s ''a'') \<longrightarrow> j = ''a'')"
proof -
  obtain s where s: "reachable (cluster_init [''a'', ''b'', ''c''] (\<lambda>_. 0)) s" "is_leader (cl_node s ''a'')"
    using electable by blast
  have "j = ''a''" if "j \<in> {''a'', ''b'', ''c''}" "is_leader (cl_node s j)"
    "rn_term (cl_node s j) = rn_term (cl_node s ''a'')" for j
    by (rule election_safety [OF _ s(1)]) (use that s(2) in auto)
  with s show ?thesis by blast
qed

section \<open>A committed entry is lost\<close>

text \<open>Steps of the run, as what they do to the nodes and to the network.\<close>

lemma run_deliver:
  assumes "reachable s0 s" "(i, msg) \<in># cl_net s" "decode_step (cl_node s i) msg = Some (n, out)" "i \<in> set (cl_members s)"
  obtains s' where "reachable s0 s'" "cl_members s' = cl_members s" "cl_node s' = (cl_node s)(i := n)"
    "cl_net s' = cl_net s - {#(i, msg)#} + mset (send (cl_members s) out)"
  using reachable.step [OF assms(1) cluster_step.deliver [OF assms(4,2,3)]] by (auto simp: update_def)

lemma run_propose:
  assumes "reachable s0 s" "propose data (cl_node s i) = Some (Inr (n, out))" "i \<in> set (cl_members s)"
  obtains s' where "reachable s0 s'" "cl_members s' = cl_members s" "cl_node s' = (cl_node s)(i := n)"
    "cl_net s' = cl_net s + mset (send (cl_members s) out)"
  using reachable.step [OF assms(1) cluster_step.propose [OF assms(3,2)]] by (auto simp: update_def)

lemma other_copy: "x \<noteq> y \<Longrightarrow> x \<in># M - {#y#} \<longleftrightarrow> x \<in># M"
  by (simp add: in_diff_count)

lemma directed: "(d, m) \<in># mset (send ms (\<lparr>env_to = Some d, env_msg = m\<rparr> # out))"
  by (simp add: send_def send_one_def)

text \<open>Node \<open>b\<close> follows, node \<open>a\<close> leads term 1.\<close>

definition follower_b :: "log_entry list \<Rightarrow> nat \<Rightarrow> raft_node \<Rightarrow> bool" where
  "follower_b log c n \<longleftrightarrow> rn_id n = ''b'' \<and> rn_state n = Follower \<and> rn_term n = 1 \<and> rn_log n = log \<and> rn_commit n = c"

definition leader_a :: "nat \<Rightarrow> nat \<Rightarrow> log_entry list \<Rightarrow> nat \<Rightarrow> raft_node \<Rightarrow> bool" where
  "leader_a next match log c n \<longleftrightarrow> rn_id n = ''a'' \<and> rn_peers n = [''b'', ''c''] \<and> rn_term n = 1 \<and> rn_log n = log \<and>
     rn_commit n = c \<and> rn_state n = Leader [(''b'', next), (''c'', 1)] [(''b'', match), (''c'', 0)]"

definition first_append :: raft_msg where
  "first_append = AppendEntries 1 ''a'' 0 0 [] 0"

lemma leader_elected:
  "\<exists>s. reachable (cluster_init [''a'', ''b'', ''c''] seed) s \<and> cl_members s = [''a'', ''b'', ''c''] \<and>
     leader_a 1 0 [] 0 (cl_node s ''a'') \<and> follower_b [] 0 (cl_node s ''b'') \<and> (''b'', first_append) \<in># cl_net s"
proof -
  let ?ms = "[''a'', ''b'', ''c'']" and ?s0 = "cluster_init [''a'', ''b'', ''c''] seed"
  let ?a = "cl_node ?s0 ''a''" and ?rv = "RequestVote 1 ''a'' 0 0" and ?yes = "VoteReply 1 ''b'' True"
  have E: "10 \<le> rn_election_after ?a" by (simp add: cluster_init_def raft_new_def)
  define s1 where "s1 = ?s0\<lparr>cl_node := (cl_node ?s0)(''a'' := ?a\<lparr>rn_quiet_ticks := rn_election_after ?a - 1\<rparr>)\<rparr>"
  have r1: "reachable ?s0 s1"
    using idle_ticks [OF reachable.start, of "''a''" ?s0 "rn_election_after ?a - 1"] E
    by (simp add: s1_def cluster_init_def raft_new_def)
  obtain n2 where t2: "tick (cl_node s1 ''a'') = Some (n2, [\<lparr>env_to = None, env_msg = ?rv\<rparr>])"
    and n2: "rn_id n2 = ''a''" "rn_state n2 = Candidate 1" "rn_term n2 = 1" "rn_peers n2 = [''b'', ''c'']" "rn_log n2 = []" "rn_commit n2 = 0"
    using E by (simp add: s1_def cluster_init_def raft_new_def tick_def start_election_def Let_def last_index_def last_term_def)
  define s2 where "s2 = update s1 ''a'' n2 [\<lparr>env_to = None, env_msg = ?rv\<rparr>]"
  have r2: "reachable ?s0 s2" unfolding s2_def
    by (rule reachable.step [OF r1 cluster_step.tick [OF _ t2]]) (simp add: s1_def cluster_init_def)
  have s2: "cl_members s2 = ?ms" "(''b'', ?rv) \<in># cl_net s2" "cl_node s2 ''b'' = cl_node ?s0 ''b''" "cl_node s2 ''a'' = n2"
    by (simp_all add: s2_def s1_def update_def cluster_init_def send_def send_one_def)
  obtain n3 where d3: "decode_step (cl_node s2 ''b'') ?rv = Some (n3, [\<lparr>env_to = Some ''a'', env_msg = ?yes\<rparr>])"
    and n3: "follower_b [] 0 n3"
    unfolding s2 by (simp add: decode_step_def cluster_init_def raft_new_def on_request_vote_def Let_def
        become_follower_def up_to_date_def vote_available_def last_term_def last_index_def follower_b_def)
  have "''b'' \<in> set (cl_members s2)" by (simp add: s2(1))
  from run_deliver [OF r2 s2(2) d3 this] obtain s3 where s3: "reachable ?s0 s3" "cl_members s3 = ?ms"
    "cl_node s3 = (cl_node s2)(''b'' := n3)" "(''a'', ?yes) \<in># cl_net s3"
    unfolding s2(1) by (metis directed union_iff)
  obtain n4 where d4: "decode_step (cl_node s3 ''a'') ?yes =
      Some (n4, [\<lparr>env_to = Some ''b'', env_msg = first_append\<rparr>, \<lparr>env_to = Some ''c'', env_msg = first_append\<rparr>])"
    and n4: "leader_a 1 0 [] 0 n4"
    using n2 s2(4) s3(3) by (simp add: decode_step_def on_vote_reply_def become_leader_def broadcast_appends_def
        append_for_def index_all_def majority_def last_index_def Let_def leader_a_def first_append_def)
  have "''a'' \<in> set (cl_members s3)" by (simp add: s3(2))
  from run_deliver [OF s3(1,4) d4 this] obtain s4 where s4: "reachable ?s0 s4" "cl_members s4 = ?ms"
    "cl_node s4 = (cl_node s3)(''a'' := n4)" "(''b'', first_append) \<in># cl_net s4"
    unfolding s3(2) by (metis directed union_iff)
  then show ?thesis using n3 n4 s3(3) by (intro exI [of _ s4]) simp
qed

lemma leader_proposes:
  assumes "leader_a next match log c n" "next \<noteq> 0" "next - 1 \<le> length log" "match \<le> c"
  shows "\<exists>n' m. propose data n = Some (Inr (n', [\<lparr>env_to = Some ''b'', env_msg = AppendEntries 1 ''a'' (next - 1)
        (if next - 1 = 0 then 0 else le_term ((log @ [\<lparr>le_term = 1, le_data = data\<rparr>]) ! (next - 1 - 1)))
        (drop (next - 1) log @ [\<lparr>le_term = 1, le_data = data\<rparr>]) c\<rparr>, m])) \<and>
     leader_a next match (log @ [\<lparr>le_term = 1, le_data = data\<rparr>]) c n'"
proof -
  let ?n = "n\<lparr>rn_log := rn_log n @ [\<lparr>le_term = rn_term n, le_data = data\<rparr>]\<rparr>"
  have "find (committable ?n [(''b'', match), (''c'', 0)]) (rev [Suc c ..< Suc (Suc (length log))]) = None"
    using assms(1,4) by (auto simp: find_None_iff committable_def replicas_def majority_def leader_a_def)
  then have "advance_commit ?n = ?n"
    using assms(1) by (simp add: advance_commit_def leader_a_def last_index_def)
  then show ?thesis
    using assms(1,2,3) by (simp add: propose_def is_leader_def broadcast_appends_def append_for_def Let_def leader_a_def)
qed

lemma entry_committed:
  "\<exists>s. reachable (cluster_init [''a'', ''b'', ''c''] seed) s \<and> cl_members s = [''a'', ''b'', ''c''] \<and>
     leader_a 2 1 [\<lparr>le_term = 1, le_data = x\<rparr>] 1 (cl_node s ''a'') \<and>
     follower_b [\<lparr>le_term = 1, le_data = x\<rparr>] 0 (cl_node s ''b'') \<and> (''b'', first_append) \<in># cl_net s"
proof -
  let ?ms = "[''a'', ''b'', ''c'']" and ?s0 = "cluster_init [''a'', ''b'', ''c''] seed"
  let ?e = "\<lparr>le_term = 1, le_data = x\<rparr>"
  let ?a1 = "AppendEntries 1 ''a'' 0 0 [?e] 0" and ?ok = "AppendReply 1 ''b'' True 1"
  obtain s4 where s4: "reachable ?s0 s4" "cl_members s4 = ?ms" "leader_a 1 0 [] 0 (cl_node s4 ''a'')"
    "follower_b [] 0 (cl_node s4 ''b'')" "(''b'', first_append) \<in># cl_net s4" using leader_elected by blast
  from leader_proposes [OF s4(3), of x] obtain a5 m5 where p5: "propose x (cl_node s4 ''a'') =
      Some (Inr (a5, [\<lparr>env_to = Some ''b'', env_msg = ?a1\<rparr>, m5]))" "leader_a 1 0 [?e] 0 a5" by auto
  have "''a'' \<in> set (cl_members s4)" by (simp add: s4(2))
  from run_propose [OF s4(1) p5(1) this] obtain s5 where s5: "reachable ?s0 s5" "cl_members s5 = ?ms"
    "cl_node s5 = (cl_node s4)(''a'' := a5)" "(''b'', first_append) \<in># cl_net s5" "(''b'', ?a1) \<in># cl_net s5"
    unfolding s4(2) by (metis directed union_iff s4(5))
  obtain b6 where d6: "decode_step (cl_node s5 ''b'') ?a1 = Some (b6, [\<lparr>env_to = Some ''a'', env_msg = ?ok\<rparr>])"
    and b6: "follower_b [?e] 0 b6"
    using s4(4) s5(3) by (simp add: decode_step_def on_append_entries_def log_consistent_def raft_defs last_index_def follower_b_def)
  have "''b'' \<in> set (cl_members s5)" by (simp add: s5(2))
  moreover have "(''b'', first_append) \<in># cl_net s5 - {#(''b'', ?a1)#}"
    using s5(4) by (simp add: other_copy first_append_def)
  ultimately obtain s6 where s6: "reachable ?s0 s6" "cl_members s6 = ?ms"
    "cl_node s6 = (cl_node s5)(''b'' := b6)" "(''b'', first_append) \<in># cl_net s6" "(''a'', ?ok) \<in># cl_net s6"
    using run_deliver [OF s5(1,5) d6] unfolding s5(2) by (metis directed union_iff)
  obtain a7 where d7: "decode_step (cl_node s6 ''a'') ?ok = Some (a7, [])" and a7: "leader_a 2 1 [?e] 1 a7"
    using p5(2) s5(3) s6(3) by (simp add: decode_step_def on_append_reply_def advance_commit_def committable_def replicas_def
        majority_def last_index_def leader_a_def)
  have "''a'' \<in> set (cl_members s6)" by (simp add: s6(2))
  moreover have "(''b'', first_append) \<in># cl_net s6 - {#(''a'', ?ok)#}"
    using s6(4) by (simp add: other_copy)
  ultimately obtain s7 where s7: "reachable ?s0 s7" "cl_members s7 = ?ms"
    "cl_node s7 = (cl_node s6)(''a'' := a7)" "(''b'', first_append) \<in># cl_net s7"
    using run_deliver [OF s6(1,5) d7] unfolding s6(2) by (metis union_iff)
  then show ?thesis using a7 b6 s6(3) by (intro exI [of _ s7]) simp
qed

text \<open>
  C40: A committed entry can be lost. Three nodes elect a leader; it proposes an entry, which a majority
  stores and which the leader and, with the append of the next proposal, the follower \<open>b\<close> commit,
  while the very first append of the leader's term, which carries nothing, is still under way to \<open>b\<close>.
  When it arrives, overtaken, \<open>b\<close> cuts its log at the start: the committed entry is gone, although its
  commit index says one, and reading its committed entries panics. All of this happens in states
  that the cluster reaches from its start.
\<close>

theorem stale_append_drops_committed:
  "\<exists>s n' out. reachable (cluster_init [''a'', ''b'', ''c''] seed) s \<and> is_leader (cl_node s ''a'') \<and>
     committed (cl_node s ''a'') = Some [\<lparr>le_term = 1, le_data = x\<rparr>] \<and>
     committed (cl_node s ''b'') = Some [\<lparr>le_term = 1, le_data = x\<rparr>] \<and>
     (''b'', first_append) \<in># cl_net s \<and> decode_step (cl_node s ''b'') first_append = Some (n', out) \<and>
     rn_log n' = [] \<and> rn_commit n' = 1 \<and> committed n' = None"
proof -
  let ?ms = "[''a'', ''b'', ''c'']" and ?s0 = "cluster_init [''a'', ''b'', ''c''] seed"
  let ?e = "\<lparr>le_term = 1, le_data = x\<rparr>"
  let ?a2 = "AppendEntries 1 ''a'' 1 1 [?e] 1"
  obtain s7 where s7: "reachable ?s0 s7" "cl_members s7 = ?ms" "leader_a 2 1 [?e] 1 (cl_node s7 ''a'')"
    "follower_b [?e] 0 (cl_node s7 ''b'')" "(''b'', first_append) \<in># cl_net s7" using entry_committed by blast
  from leader_proposes [OF s7(3), of x] obtain a8 m8 where p8: "propose x (cl_node s7 ''a'') =
      Some (Inr (a8, [\<lparr>env_to = Some ''b'', env_msg = ?a2\<rparr>, m8]))" "leader_a 2 1 [?e, ?e] 1 a8" by auto
  have "''a'' \<in> set (cl_members s7)" by (simp add: s7(2))
  from run_propose [OF s7(1) p8(1) this] obtain s8 where s8: "reachable ?s0 s8" "cl_members s8 = ?ms"
    "cl_node s8 = (cl_node s7)(''a'' := a8)" "(''b'', first_append) \<in># cl_net s8" "(''b'', ?a2) \<in># cl_net s8"
    unfolding s7(2) by (metis directed union_iff s7(5))
  obtain b9 out9 where d9: "decode_step (cl_node s8 ''b'') ?a2 = Some (b9, out9)" and b9: "follower_b [?e, ?e] 1 b9"
    using s7(4) s8(3) by (simp add: decode_step_def on_append_entries_def log_consistent_def raft_defs last_index_def follower_b_def)
  have "''b'' \<in> set (cl_members s8)" by (simp add: s8(2))
  moreover have "(''b'', first_append) \<in># cl_net s8 - {#(''b'', ?a2)#}"
    using s8(4) by (simp add: other_copy first_append_def)
  ultimately obtain s9 where s9: "reachable ?s0 s9"
    "cl_node s9 = (cl_node s8)(''b'' := b9)" "(''b'', first_append) \<in># cl_net s9"
    using run_deliver [OF s8(1,5) d9] by (metis union_iff)
  have nodes: "cl_node s9 ''a'' = a8" "cl_node s9 ''b'' = b9" using s8(3) s9(2) by simp_all
  obtain n' out where "decode_step b9 first_append = Some (n', out)" "rn_log n' = []" "rn_commit n' = 1"
    using b9 by (simp add: decode_step_def on_append_entries_def log_consistent_def raft_defs last_index_def follower_b_def first_append_def)
  then show ?thesis
    using s9(1,3) p8(2) b9 unfolding nodes [symmetric]
    by (intro exI [of _ s9] exI [of _ n'] exI [of _ out])
      (simp add: committed_def is_leader_def leader_a_def follower_b_def)
qed

end
