(* ===== verification/Cluster_Topology.thy ===== *)
theory Cluster_Topology
  imports Sigil_Prelude
begin

text \<open>
  Placement, roles and framing of the cluster: \<open>shard.rs\<close>, \<open>role.rs\<close> and the wire format of
  \<open>transport.rs\<close> in \<open>crates/sigil-cluster/src\<close>. The standard library's \<open>DefaultHasher\<close> is an
  argument that maps the values written to it (the key, then the time bucket if there is one) to
  the finished hash; UTF-8 decoding with replacement is an argument of the frame reader. Tokio
  channels and sockets are not modelled: a connection is the bytes received on it.
\<close>

section \<open>Shards\<close>

record shard_map =
  sm_shards :: u32
  sm_replication :: u32
  sm_time_bucket :: int
  sm_nodes :: "string list"

type_synonym key_hasher = "string \<Rightarrow> int option \<Rightarrow> u64"

definition shard_map_new :: "u32 \<Rightarrow> u32 \<Rightarrow> string list \<Rightarrow> shard_map" where
  "shard_map_new shards replication nodes =
     \<lparr>sm_shards = max shards 1, sm_replication = max replication 1, sm_time_bucket = 0, sm_nodes = nodes\<rparr>"

definition with_time_bucket :: "int \<Rightarrow> shard_map \<Rightarrow> shard_map" where
  "with_time_bucket micros m = m\<lparr>sm_time_bucket := max micros 0\<rparr>"

text \<open>\<open>i64\<close> division truncates towards zero.\<close>

definition trunc_div :: "int \<Rightarrow> int \<Rightarrow> int" where
  "trunc_div a b = (if a < 0 then - ((- a) div b) else a div b)"

definition bucket_of :: "shard_map \<Rightarrow> int \<Rightarrow> int option" where
  "bucket_of m ts = (if 0 < sm_time_bucket m then Some (trunc_div ts (sm_time_bucket m)) else None)"

text \<open>The remainder by zero of a map with no shards, which only decoding can build, panics.\<close>

definition shard_for :: "key_hasher \<Rightarrow> shard_map \<Rightarrow> string \<Rightarrow> int \<Rightarrow> u32 option" where
  "shard_for h m key ts =
     (if sm_shards m = 0 then None
      else Some (ucast (h key (bucket_of m ts) mod ucast (sm_shards m))))"

definition nodes_for :: "shard_map \<Rightarrow> u32 \<Rightarrow> string list" where
  "nodes_for m shard =
     (if sm_nodes m = [] then []
      else let n = length (sm_nodes m);
               copies = min (unat (sm_replication m)) n;
               start = unat shard mod n
           in map (\<lambda>i. sm_nodes m ! ((start + i) mod n)) [0 ..< copies])"

definition primary_for :: "key_hasher \<Rightarrow> shard_map \<Rightarrow> string \<Rightarrow> int \<Rightarrow> string option option" where
  "primary_for h m key ts =
     map_option (\<lambda>s. case nodes_for m s of [] \<Rightarrow> None | x # _ \<Rightarrow> Some x) (shard_for h m key ts)"

section \<open>Roles\<close>

datatype role = Ingest | Index | Correlate | Query | Coordinator

definition role_all :: "role list" where
  "role_all = [Ingest, Index, Correlate, Query, Coordinator]"

definition role_parse :: "string \<Rightarrow> role option" where
  "role_parse s =
     (let k = to_lowercase (trim s)
      in if k = ''ingest'' then Some Ingest
         else if k = ''index'' then Some Index
         else if k = ''correlate'' \<or> k = ''correlation'' then Some Correlate
         else if k = ''query'' then Some Query
         else if k = ''coordinator'' then Some Coordinator
         else None)"

fun role_as_str :: "role \<Rightarrow> string" where
  "role_as_str Ingest = ''ingest''"
| "role_as_str Index = ''index''"
| "role_as_str Correlate = ''correlate''"
| "role_as_str Query = ''query''"
| "role_as_str Coordinator = ''coordinator''"

fun collect_roles :: "string list \<Rightarrow> role list \<Rightarrow> string list \<Rightarrow> role list \<times> string list" where
  "collect_roles [] roles unknown = (roles, unknown)"
| "collect_roles (t # ts) roles unknown =
     (case role_parse t of
        Some r \<Rightarrow> if r \<notin> set roles then collect_roles ts (roles @ [r]) unknown
                  else collect_roles ts roles unknown
      | None \<Rightarrow> collect_roles ts roles (unknown @ [t]))"

definition from_targets :: "string list \<Rightarrow> role list \<times> string list" where
  "from_targets targets =
     (if targets = [] \<or> list_ex (\<lambda>t. eq_ignore_ascii_case t ''all'') targets then (role_all, [])
      else collect_roles targets [] [])"

definition runs :: "role list \<Rightarrow> role \<Rightarrow> bool" where
  "runs roles r \<longleftrightarrow> r \<in> set roles"

definition is_monolith :: "role list \<Rightarrow> bool" where
  "is_monolith roles \<longleftrightarrow> length roles = length role_all"

section \<open>Transport kinds and frames\<close>

datatype transport_kind = Inproc | Tcp | Redpanda | Nats

definition transport_parse :: "string \<Rightarrow> transport_kind option" where
  "transport_parse s =
     (let k = to_lowercase (trim s)
      in if k = ''inproc'' \<or> k = ''in-proc'' \<or> k = ''in_proc'' then Some Inproc
         else if k = ''tcp'' then Some Tcp
         else if k = ''redpanda'' \<or> k = ''kafka'' then Some Redpanda
         else if k = ''nats'' then Some Nats
         else None)"

fun build_transport :: "transport_kind \<Rightarrow> unit result" where
  "build_transport Inproc = Inr ()"
| "build_transport Tcp =
     Inl (Config ''tcp transport needs addresses; build it with TcpBus::spawn(listen, peers)'')"
| "build_transport Redpanda =
     Inl (Other ''redpanda/kafka transport not implemented yet (bring a broker; ADR-2)'')"
| "build_transport Nats = Inl (Other ''nats transport not implemented yet (bring a broker; ADR-2)'')"

type_synonym bytes = "u8 list"

definition max_frame :: u32 where
  "max_frame = 16 * 1024 * 1024"

text \<open>\<open>write_u32\<close> and \<open>read_u32\<close>: four bytes, most significant first.\<close>

definition u32_bytes :: "u32 \<Rightarrow> bytes" where
  "u32_bytes w = [of_nat (unat w div 2 ^ 24), of_nat (unat w div 2 ^ 16), of_nat (unat w div 2 ^ 8), of_nat (unat w)]"

fun read_u32 :: "bytes \<Rightarrow> (u32 \<times> bytes) option" where
  "read_u32 (a # b # c # d # rest) =
     Some (of_nat (unat a * 2 ^ 24 + unat b * 2 ^ 16 + unat c * 2 ^ 8 + unat d), rest)"
| "read_u32 _ = None"

definition write_frame :: "bytes \<Rightarrow> bytes \<Rightarrow> bytes" where
  "write_frame topic payload =
     u32_bytes (of_nat (length topic)) @ topic @ u32_bytes (of_nat (length payload)) @ payload"

text \<open>One iteration of \<open>read_frames\<close>: the frame and the rest of the stream, or the error.\<close>

definition read_frame :: "bytes \<Rightarrow> ((bytes \<times> bytes) \<times> bytes) result" where
  "read_frame s =
     (case read_u32 s of
        None \<Rightarrow> Inl (Io ''tcp transport read'')
      | Some (topic_len, s1) \<Rightarrow>
          if topic_len > max_frame then Inl (Other ''tcp transport: oversized topic'')
          else if length s1 < unat topic_len then Inl (Io ''tcp transport read'')
          else (case read_u32 (drop (unat topic_len) s1) of
             None \<Rightarrow> Inl (Io ''tcp transport read'')
           | Some (payload_len, s2) \<Rightarrow>
               if payload_len > max_frame then Inl (Other ''tcp transport: oversized payload'')
               else if length s2 < unat payload_len then Inl (Io ''tcp transport read'')
               else Inr ((take (unat topic_len) s1, take (unat payload_len) s2), drop (unat payload_len) s2)))"

lemma read_u32_shorter: "read_u32 s = Some (w, r) \<Longrightarrow> length r < length s"
  by (cases s rule: read_u32.cases) auto

lemma read_frame_shorter: "read_frame s = Inr (f, r) \<Longrightarrow> length r < length s"
  by (fastforce simp: read_frame_def split: option.splits if_splits dest!: read_u32_shorter)

text \<open>The loop: what is published locally, in order, and the error that ends the connection.\<close>

function read_frames :: "bytes \<Rightarrow> (bytes \<times> bytes) list \<times> error" where
  "read_frames s =
     (case read_frame s of
        Inl e \<Rightarrow> ([], e)
      | Inr (f, rest) \<Rightarrow> (let (fs, e) = read_frames rest in (f # fs, e)))"
  by pat_completeness auto
termination
  by (relation "measure length") (auto dest: read_frame_shorter)

declare read_frames.simps [simp del]

section \<open>Placement\<close>

lemma nodes_for_rotate:
  "nodes_for m s = take (unat (sm_replication m)) (rotate (unat s) (sm_nodes m))"
proof (cases "sm_nodes m = []")
  case False
  show ?thesis
  proof (rule nth_equalityI)
    fix i assume "i < length (nodes_for m s)"
    with False show "nodes_for m s ! i = take (unat (sm_replication m)) (rotate (unat s) (sm_nodes m)) ! i"
      by (simp add: nodes_for_def Let_def nth_rotate mod_add_left_eq)
  qed (use False in \<open>simp add: nodes_for_def Let_def\<close>)
qed (simp add: nodes_for_def)

text \<open>
  A shard is placed on as many nodes as the replication factor asks for, or on all of them if
  there are fewer; the copies are on different nodes when the member list has no duplicates.
\<close>

theorem placement:
  "length (nodes_for m s) = min (unat (sm_replication m)) (length (sm_nodes m)) \<and>
   set (nodes_for m s) \<subseteq> set (sm_nodes m) \<and>
   mset (nodes_for m s) \<subseteq># mset (sm_nodes m)"
proof -
  have "mset (nodes_for m s) \<subseteq># mset (rotate (unat s) (sm_nodes m))"
    unfolding nodes_for_rotate by (metis append_take_drop_id mset_append mset_subset_eq_add_left)
  moreover have "mset (rotate (unat s) (sm_nodes m)) = mset (sm_nodes m)"
    by (metis append_take_drop_id mset_append rotate_drop_take union_commute)
  ultimately show ?thesis
    using set_mset_mono [of "mset (nodes_for m s)" "mset (sm_nodes m)"]
    by (simp add: nodes_for_rotate min.commute)
qed

lemma unat_u32_less: "unat (w :: u32) < 2 ^ 32"
  by (rule order.strict_trans2 [OF unsigned_less]) simp

lemma unat_ucast_u64: "unat (ucast (w :: u32) :: u64) = unat w"
proof -
  have "unat w < 2 ^ 64" using unsigned_less [of w] by (rule order.strict_trans2) simp
  then show ?thesis by (simp add: unsigned_ucast_eq take_bit_nat_eq_self)
qed

lemma max_one_pos: "0 < unat (max k (1 :: u32))"
  by (auto simp: max_def unat_gt_0)

lemma first_or_none: "(case xs of [] \<Rightarrow> None | x # _ \<Rightarrow> Some x) = (if xs = [] then None else Some (hd xs))"
  by (cases xs) auto

lemma shard_in_range:
  assumes "sm_shards m \<noteq> 0"
  shows "\<exists>s. shard_for h m key ts = Some s \<and> s < sm_shards m"
proof -
  let ?r = "h key (bucket_of m ts) mod ucast (sm_shards m)"
  have n: "unat (ucast (sm_shards m) :: u64) = unat (sm_shards m)"
    by (rule unat_ucast_u64)
  have "unat ?r = unat (h key (bucket_of m ts)) mod unat (sm_shards m)"
    by (simp add: unat_mod_distrib n)
  moreover have "0 < unat (sm_shards m)" using assms by (simp add: unat_gt_0)
  ultimately have lt: "unat ?r < unat (sm_shards m)" by simp
  have "unat (ucast ?r :: u32) = unat ?r mod 2 ^ 32" by (simp add: unsigned_ucast_eq take_bit_eq_mod)
  also have "\<dots> = unat ?r" using lt unat_u32_less [of "sm_shards m"] by simp
  finally have "(ucast ?r :: u32) < sm_shards m" using lt by (simp add: word_less_nat_alt)
  with assms show ?thesis by (simp add: shard_for_def)
qed

text \<open>
  Routing is total and stable on every map the constructor builds: each key has a shard below
  the shard count, two events of a key whose times fall into the same bucket are routed alike,
  and there is a primary node as soon as there is a node.
\<close>

theorem routing:
  "let m = with_time_bucket w (shard_map_new k r nodes)
   in (\<exists>s. shard_for h m key ts = Some s \<and> s < sm_shards m \<and>
         primary_for h m key ts = Some (if nodes = [] then None else Some (nodes ! (unat s mod length nodes)))) \<and>
      (bucket_of m ts = bucket_of m ts' \<longrightarrow> shard_for h m key ts = shard_for h m key ts')"
proof -
  let ?m = "with_time_bucket w (shard_map_new k r nodes)"
  have k: "sm_shards ?m \<noteq> 0" and rep: "0 < unat (sm_replication ?m)" and nodes: "sm_nodes ?m = nodes"
    using max_one_pos [of k] max_one_pos [of r] by (auto simp: with_time_bucket_def shard_map_new_def)
  from shard_in_range [OF k] obtain s where s: "shard_for h ?m key ts = Some s" "s < sm_shards ?m" by blast
  have "hd (nodes_for ?m s) = nodes ! (unat s mod length nodes)" if "nodes \<noteq> []"
    using that rep by (simp add: nodes_for_rotate nodes hd_conv_nth nth_rotate)
  moreover have "nodes_for ?m s = [] \<longleftrightarrow> nodes = []" using rep by (simp add: nodes_for_rotate nodes)
  ultimately have "primary_for h ?m key ts = Some (if nodes = [] then None else Some (nodes ! (unat s mod length nodes)))"
    by (auto simp: primary_for_def s first_or_none)
  with s show ?thesis by (auto simp: Let_def shard_for_def)
qed

theorem routing_witness:
  "let m = with_time_bucket 10 (shard_map_new 4 2 [''n1'', ''n2'']); h = (\<lambda>k b. 7)
   in bucket_of m 12 = bucket_of m 19 \<and> shard_for h m ''k'' 12 = shard_for h m ''k'' 19"
  using routing [of 10 4 2 "[''n1'', ''n2'']" "\<lambda>k b. 7" "''k''" 12 19]
  by (simp add: Let_def bucket_of_def trunc_div_def with_time_bucket_def shard_map_new_def)

section \<open>Roles\<close>

lemma collect_roles_spec:
  "collect_roles ts rs us = (rs', us') \<Longrightarrow> distinct rs \<Longrightarrow>
     distinct rs' \<and> set rs' = set rs \<union> {r. \<exists>t \<in> set ts. role_parse t = Some r} \<and>
     us' = us @ filter (\<lambda>t. role_parse t = None) ts"
proof (induction ts arbitrary: rs us)
  case (Cons t ts)
  show ?case
  proof (cases "role_parse t")
    case None
    with Cons.prems Cons.IH [of rs "us @ [t]"] show ?thesis by auto
  next
    case (Some r)
    with Cons.prems Cons.IH [of rs us] Cons.IH [of "rs @ [r]" us] show ?thesis
      by (cases "r \<in> set rs") auto
  qed
qed simp

lemma role_univ: "set role_all = UNIV" "distinct role_all"
proof -
  have "r \<in> set role_all" for r by (cases r) (auto simp: role_all_def)
  then show "set role_all = UNIV" by auto
qed (simp add: role_all_def)

lemma from_targets_roles:
  "distinct (fst (from_targets ts)) \<and> (set (fst (from_targets ts)) =
     (if ts = [] \<or> list_ex (\<lambda>t. eq_ignore_ascii_case t ''all'') ts then UNIV
      else {r. \<exists>t \<in> set ts. role_parse t = Some r}))"
  using collect_roles_spec [of ts "[]" "[]"] role_univ
  by (cases "collect_roles ts [] []") (auto simp: from_targets_def)

text \<open>
  The roles of a node are those its targets name, each once, or all of them for no target or
  \<open>all\<close>; the node is a monolith exactly when it runs every role; every name a role prints is read
  back as that role, and the targets reported unknown are those that name none.
\<close>

theorem role_set_spec:
  "(runs (fst (from_targets ts)) r \<longleftrightarrow>
      ts = [] \<or> (\<exists>t \<in> set ts. eq_ignore_ascii_case t ''all'') \<or> (\<exists>t \<in> set ts. role_parse t = Some r)) \<and>
   (is_monolith (fst (from_targets ts)) \<longleftrightarrow> (\<forall>r. runs (fst (from_targets ts)) r)) \<and>
   role_parse (role_as_str r) = Some r \<and>
   set (snd (from_targets ts)) \<subseteq> {t \<in> set ts. role_parse t = None}"
proof -
  have spec: "distinct (fst (from_targets ts))" using from_targets_roles by blast
  have card: "card (UNIV :: role set) = length role_all"
    using distinct_card [OF role_univ(2)] by (simp add: role_univ(1))
  have "is_monolith (fst (from_targets ts)) \<longleftrightarrow> set (fst (from_targets ts)) = UNIV"
    using distinct_card [OF spec] card card_subset_eq [of UNIV "set (fst (from_targets ts))"]
      finite_set [of role_all] role_univ(1)
    by (auto simp: is_monolith_def)
  moreover have "role_parse (role_as_str r) = Some r"
    by (cases r) (simp_all add: role_parse_def string_eval)
  moreover have "set (snd (from_targets ts)) \<subseteq> {t \<in> set ts. role_parse t = None}"
    using collect_roles_spec [of ts "[]" "[]"]
    by (cases "collect_roles ts [] []") (auto simp: from_targets_def)
  ultimately show ?thesis
    using from_targets_roles [of ts] by (auto simp: runs_def list_ex_iff)
qed

section \<open>Frames\<close>

lemma bytes_of_nat:
  assumes "n < 2 ^ 32"
  shows "(n div 2 ^ 24) mod 256 * 2 ^ 24 + (n div 2 ^ 16) mod 256 * 2 ^ 16 + (n div 2 ^ 8) mod 256 * 2 ^ 8 + n mod 256 = (n :: nat)"
proof -
  have q: "n div 2 ^ 16 = n div 256 div 256" "n div 2 ^ 24 = n div 256 div 256 div 256"
    by (simp_all add: div_mult2_eq [symmetric])
  have top: "n div 256 div 256 div 256 < 256" using assms by (simp add: div_mult2_eq [symmetric] less_mult_imp_div_less)
  have step: "256 * (k div 256) + k mod 256 = k" for k :: nat by simp
  have "a mod 256 * 2 ^ 24 + b mod 256 * 2 ^ 16 + c mod 256 * 2 ^ 8 + n mod 256 = n"
    if "256 * c + n mod 256 = n" "256 * b + c mod 256 = c" "256 * a + b mod 256 = b" "a < 256" for a b c
    using that by simp
  from this [OF step step step top] show ?thesis unfolding q by simp
qed

lemma read_u32_bytes [simp]: "read_u32 (u32_bytes w @ r) = Some (w, r)"
proof -
  have u8: "unat (of_nat k :: u8) = k mod 256" for k by (simp add: unsigned_of_nat take_bit_eq_mod)
  show ?thesis using unat_u32_less [of w]
    unfolding u32_bytes_def append.simps read_u32.simps u8 by (simp only: bytes_of_nat of_nat_unat ucast_id)
qed

definition frame_ok :: "bytes \<times> bytes \<Rightarrow> bool" where
  "frame_ok f \<longleftrightarrow> length (fst f) \<le> unat max_frame \<and> length (snd f) \<le> unat max_frame"

lemma read_write_frame:
  assumes "frame_ok f"
  shows "read_frame (write_frame (fst f) (snd f) @ rest) = Inr (f, rest)"
proof -
  have len: "unat (of_nat k :: u32) = k" "\<not> (of_nat k :: u32) > max_frame" if "k \<le> unat max_frame" for k
  proof -
    have "k < 2 ^ 32" using that by (simp add: max_frame_def)
    then show u: "unat (of_nat k :: u32) = k" by (simp add: unsigned_of_nat take_bit_nat_eq_self)
    show "\<not> (of_nat k :: u32) > max_frame" using that by (simp add: word_less_nat_alt u)
  qed
  show ?thesis using assms
    by (simp add: read_frame_def write_frame_def frame_ok_def len)
qed

text \<open>
  The frames written to a link are read back in order: a stream of frames whose topics and
  payloads are within the 16 MiB limit is decoded to exactly these frames, up to the end of the
  stream.
\<close>

theorem frames_roundtrip:
  assumes "list_all frame_ok fs"
  shows "read_frames (concat (map (\<lambda>f. write_frame (fst f) (snd f)) fs)) = (fs, Io ''tcp transport read'')"
  using assms
proof (induction fs)
  case Nil
  then show ?case by (simp add: read_frames.simps read_frame_def)
next
  case (Cons f fs)
  then show ?case
    by (subst read_frames.simps) (simp add: read_write_frame)
qed

theorem frames_roundtrip_witness:
  "read_frames (write_frame [1, 2] [3] @ write_frame [] []) = ([([1, 2], [3]), ([], [])], Io ''tcp transport read'')"
  using frames_roundtrip [of "[([1, 2], [3]), ([], [])]"]
  by (simp add: frame_ok_def max_frame_def)

end
