(* ===== verification/Store.thy ===== *)
theory Store
  imports Core_Event
begin

text \<open>
  The durable store, \<open>crates/sigil-store/src/lib.rs\<close>: alert records with their triage state and
  saved objects keyed by kind and id. A redb table is an association list with ascending keys;
  each operation that writes is one transaction on it. Rows hold the record itself where the code
  holds its JSON text, that is, decoding the encoding of a record is taken to give the record
  back; failures of the database file are not modelled. The body of a saved object is a type
  parameter. The standard library's \<open>DefaultHasher\<close> is an argument, as is the clock.
\<close>

section \<open>Records\<close>

datatype triage_status = Open | Acknowledged | Closed

definition triage_parse :: "string \<Rightarrow> triage_status option" where
  "triage_parse s =
     (let k = to_lowercase s
      in if k = ''open'' then Some Open
         else if k = ''acknowledged'' \<or> k = ''ack'' then Some Acknowledged
         else if k = ''closed'' \<or> k = ''close'' then Some Closed
         else None)"

record triage_note =
  no_ts :: timestamp
  no_author :: string
  no_text :: string

record alert_record =
  ar_fingerprint :: string
  ar_alert :: alert
  ar_status :: triage_status
  ar_assignee :: "string option"
  ar_notes :: "triage_note list"
  ar_created :: timestamp
  ar_updated :: timestamp

record 'b saved_object =
  so_kind :: string
  so_id :: string
  so_name :: string
  so_owner :: "string option"
  so_updated :: timestamp
  so_body :: 'b

record alert_patch =
  ap_status :: "triage_status option"
  ap_assignee :: "string option option"
  ap_note :: "triage_note option"

type_synonym alert_hasher = "string \<Rightarrow> timestamp \<Rightarrow> string list \<Rightarrow> u64"

definition fingerprint :: "alert_hasher \<Rightarrow> alert \<Rightarrow> string" where
  "fingerprint h a = hex16 (h (al_rule_id a) (al_ts a) (al_events a))"

definition alert_record_new :: "alert_hasher \<Rightarrow> timestamp \<Rightarrow> alert \<Rightarrow> alert_record" where
  "alert_record_new h now a =
     \<lparr>ar_fingerprint = fingerprint h a, ar_alert = a, ar_status = Open, ar_assignee = None,
      ar_notes = [], ar_created = now, ar_updated = now\<rparr>"

section \<open>Alerts\<close>

record 'b store =
  st_alerts :: "(string \<times> alert_record) list"
  st_saved :: "(string \<times> 'b saved_object) list"

definition store_wf :: "'b store \<Rightarrow> bool" where
  "store_wf s \<longleftrightarrow> btree_wf (st_alerts s) \<and> btree_wf (st_saved s)"

definition store_open :: "'b store" where
  "store_open = \<lparr>st_alerts = [], st_saved = []\<rparr>"

definition get_alert :: "string \<Rightarrow> 'b store \<Rightarrow> alert_record option" where
  "get_alert fp s = map_of (st_alerts s) fp"

definition write_alert :: "alert_record \<Rightarrow> 'b store \<Rightarrow> 'b store" where
  "write_alert r s = s\<lparr>st_alerts := btree_insert (ar_fingerprint r) r (st_alerts s)\<rparr>"

definition upsert_alert :: "alert_hasher \<Rightarrow> timestamp \<Rightarrow> alert \<Rightarrow> 'b store \<Rightarrow> 'b store \<times> alert_record" where
  "upsert_alert h now a s =
     (case get_alert (fingerprint h a) s of
        Some existing \<Rightarrow> (s, existing)
      | None \<Rightarrow> let r = alert_record_new h now a in (write_alert r s, r))"

definition list_alerts :: "nat \<Rightarrow> string option \<Rightarrow> 'b store \<Rightarrow> alert_record list" where
  "list_alerts limit technique s =
     (let out = filter (\<lambda>r. case technique of None \<Rightarrow> True | Some t \<Rightarrow> al_technique (ar_alert r) = Some t)
                  (map snd (st_alerts s))
      in take limit (sort_desc (\<lambda>r. al_ts (ar_alert r)) out))"

definition alert_count :: "'b store \<Rightarrow> nat" where
  "alert_count s = length (st_alerts s)"

definition apply_patch :: "timestamp \<Rightarrow> alert_patch \<Rightarrow> alert_record \<Rightarrow> alert_record" where
  "apply_patch now p r0 =
     (let r1 = (case ap_status p of Some st \<Rightarrow> r0\<lparr>ar_status := st\<rparr> | None \<Rightarrow> r0);
          r2 = (case ap_assignee p of Some a \<Rightarrow> r1\<lparr>ar_assignee := a\<rparr> | None \<Rightarrow> r1);
          r3 = (case ap_note p of Some n \<Rightarrow> r2\<lparr>ar_notes := ar_notes r2 @ [n]\<rparr> | None \<Rightarrow> r2)
      in r3\<lparr>ar_updated := now\<rparr>)"

definition patch_alert ::
  "timestamp \<Rightarrow> string \<Rightarrow> alert_patch \<Rightarrow> 'b store \<Rightarrow> 'b store \<times> alert_record option" where
  "patch_alert now fp p s =
     (case get_alert fp s of
        None \<Rightarrow> (s, None)
      | Some r \<Rightarrow> let r' = apply_patch now p r in (write_alert r' s, Some r'))"

section \<open>Saved objects\<close>

definition sep :: char where
  "sep = CHR 0x1F"

definition saved_key :: "string \<Rightarrow> string \<Rightarrow> string" where
  "saved_key kind i = kind @ [sep] @ i"

definition put_saved :: "'b saved_object \<Rightarrow> 'b store \<Rightarrow> 'b store" where
  "put_saved ob s = s\<lparr>st_saved := btree_insert (saved_key (so_kind ob) (so_id ob)) ob (st_saved s)\<rparr>"

definition get_saved :: "string \<Rightarrow> string \<Rightarrow> 'b store \<Rightarrow> 'b saved_object option" where
  "get_saved kind i s = map_of (st_saved s) (saved_key kind i)"

definition list_saved :: "string \<Rightarrow> 'b store \<Rightarrow> 'b saved_object list" where
  "list_saved kind s =
     sort_desc so_updated (map snd (filter (\<lambda>p. prefix (kind @ [sep]) (fst p)) (st_saved s)))"

definition delete_saved :: "string \<Rightarrow> string \<Rightarrow> 'b store \<Rightarrow> 'b store \<times> bool" where
  "delete_saved kind i s =
     (let key = saved_key kind i
      in (s\<lparr>st_saved := filter (\<lambda>p. fst p \<noteq> key) (st_saved s)\<rparr>, map_of (st_saved s) key \<noteq> None))"

section \<open>The key-value interface\<close>

text \<open>
  What the components that keep their records in the store rely on: objects of a kind are found
  under their id after they were put, until they are deleted, whatever happens to other keys.
\<close>

locale saved_table =
  fixes put :: "'o \<Rightarrow> 's \<Rightarrow> 's" and get :: "string \<Rightarrow> string \<Rightarrow> 's \<Rightarrow> 'o option"
    and del :: "string \<Rightarrow> string \<Rightarrow> 's \<Rightarrow> 's" and kind_of :: "'o \<Rightarrow> string" and id_of :: "'o \<Rightarrow> string"
    and legal :: "string \<Rightarrow> bool"
  assumes get_put: "legal kind \<Longrightarrow> legal (kind_of ob) \<Longrightarrow>
      get kind i (put ob s) = (if kind = kind_of ob \<and> i = id_of ob then Some ob else get kind i s)"
    and get_del: "legal kind \<Longrightarrow> legal kind' \<Longrightarrow>
      get kind i (del kind' i' s) = (if kind = kind' \<and> i = i' then None else get kind i s)"
begin

lemma put_put_same:
  "legal kind \<Longrightarrow> legal (kind_of a) \<Longrightarrow> kind_of a = kind_of b \<Longrightarrow> id_of a = id_of b \<Longrightarrow>
   get kind i (put b (put a s)) = get kind i (put b s)"
  by (simp add: get_put)

lemma put_commute:
  "legal kind \<Longrightarrow> legal (kind_of a) \<Longrightarrow> legal (kind_of b) \<Longrightarrow> (kind_of a, id_of a) \<noteq> (kind_of b, id_of b) \<Longrightarrow>
   get kind i (put a (put b s)) = get kind i (put b (put a s))"
  by (auto simp: get_put)

lemma del_put:
  "legal kind \<Longrightarrow> legal (kind_of a) \<Longrightarrow> get kind i (del (kind_of a) (id_of a) (put a s)) =
     get kind i (del (kind_of a) (id_of a) s)"
  by (simp add: get_put get_del)

end

definition legal_kind :: "string \<Rightarrow> bool" where
  "legal_kind k \<longleftrightarrow> sep \<notin> set k"

lemma saved_key_inj:
  "legal_kind k \<Longrightarrow> legal_kind k' \<Longrightarrow> saved_key k i = saved_key k' i' \<longleftrightarrow> k = k' \<and> i = i'"
  by (auto simp: saved_key_def legal_kind_def sep_split_inj)

interpretation saved: saved_table
  "put_saved :: 'b saved_object \<Rightarrow> 'b store \<Rightarrow> 'b store" get_saved "\<lambda>k i s. fst (delete_saved k i s)"
  so_kind so_id legal_kind
proof
  fix kind i and ob :: "'b saved_object" and s :: "'b store"
  assume "legal_kind kind" "legal_kind (so_kind ob)"
  then show "get_saved kind i (put_saved ob s) =
      (if kind = so_kind ob \<and> i = so_id ob then Some ob else get_saved kind i s)"
    by (auto simp: get_saved_def put_saved_def map_of_btree_insert saved_key_inj)
next
  fix kind kind' i i' and s :: "'b store"
  assume "legal_kind kind" "legal_kind kind'"
  moreover have "map_of (filter (\<lambda>p. fst p \<noteq> k) m) x = (if x = k then None else map_of m x)"
    for k x and m :: "(string \<times> 'b saved_object) list"
    by (induction m) auto
  ultimately show "get_saved kind i (fst (delete_saved kind' i' s)) =
      (if kind = kind' \<and> i = i' then None else get_saved kind i s)"
    by (auto simp: get_saved_def delete_saved_def Let_def saved_key_inj)
qed


section \<open>Saved objects\<close>

text \<open>
  Saved objects behave as one map per kind, although all kinds share a table: for kinds without
  the separator, reading back what was put gives the object, other objects are untouched, and a
  deleted object is gone; the deletion reports whether it was there.
\<close>

theorem saved_laws:
  assumes "legal_kind kind" and "legal_kind (so_kind ob)" and "legal_kind kind'"
  shows "get_saved kind i (put_saved ob s) =
      (if kind = so_kind ob \<and> i = so_id ob then Some ob else get_saved kind i s) \<and>
    get_saved kind i (fst (delete_saved kind' j s)) =
      (if kind = kind' \<and> i = j then None else get_saved kind i s) \<and>
    (snd (delete_saved kind' j s) \<longleftrightarrow> get_saved kind' j s \<noteq> None)"
proof (intro conjI)
  show "snd (delete_saved kind' j s) \<longleftrightarrow> get_saved kind' j s \<noteq> None"
    by (simp add: delete_saved_def get_saved_def Let_def)
qed (rule saved.get_put [OF assms(1,2)], rule saved.get_del [OF assms(1,3)])

definition demo_object :: "string \<Rightarrow> string \<Rightarrow> nat saved_object" where
  "demo_object k i = \<lparr>so_kind = k, so_id = i, so_name = [], so_owner = None, so_updated = 0, so_body = 0\<rparr>"

theorem saved_laws_witness:
  "get_saved ''search'' ''1'' (put_saved (demo_object ''hunt'' ''1'') (put_saved (demo_object ''search'' ''1'') store_open)) =
     Some (demo_object ''search'' ''1'')"
  using saved_laws [of "''search''" "demo_object ''hunt'' ''1''" "''search''" "''1''" "put_saved (demo_object ''search'' ''1'') store_open"]
    saved_laws [of "''search''" "demo_object ''search'' ''1''" "''search''" "''1''" store_open]
  by (simp add: legal_kind_def sep_def demo_object_def)

text \<open>Every row sits under the key of its own kind and id.\<close>

definition rows_ok :: "'b store \<Rightarrow> bool" where
  "rows_ok s \<longleftrightarrow> btree_wf (st_saved s) \<and>
     (\<forall>p \<in> set (st_saved s). fst p = saved_key (so_kind (snd p)) (so_id (snd p)) \<and> legal_kind (so_kind (snd p)))"

lemma set_btree_insert: "set (btree_insert k v m) \<subseteq> insert (k, v) (set m)"
  by (induction k v m rule: btree_insert.induct) auto

lemma rows_ok_put: "rows_ok s \<Longrightarrow> legal_kind (so_kind ob) \<Longrightarrow> rows_ok (put_saved ob s)"
  using set_btree_insert [of "saved_key (so_kind ob) (so_id ob)" ob "st_saved s"]
  by (auto simp: rows_ok_def put_saved_def)

lemma rows_ok_delete: "rows_ok s \<Longrightarrow> rows_ok (fst (delete_saved k i s))"
  by (auto simp: rows_ok_def delete_saved_def Let_def btree_wf_def sorted_wrt_filter sorted_wrt_map)

lemma prefix_saved_key:
  assumes "legal_kind k" "legal_kind k'"
  shows "prefix (k @ [sep]) (saved_key k' i) \<longleftrightarrow> k = k'"
  using assms by (auto simp: prefix_def saved_key_def legal_kind_def sep_split_inj)

text \<open>
  Listing a kind gives exactly its objects, one per id, newest first: the prefix scan over the
  shared table neither misses an object nor lets one of another kind in.
\<close>

theorem list_saved_spec:
  assumes "rows_ok s" and "legal_kind kind"
  shows "set (list_saved kind s) = {ob. \<exists>i. get_saved kind i s = Some ob \<and> so_kind ob = kind} \<and>
    distinct (map so_id (list_saved kind s)) \<and>
    sorted_wrt (\<lambda>a b. so_updated b \<le> so_updated a) (list_saved kind s)"
proof -
  let ?rows = "filter (\<lambda>p. prefix (kind @ [sep]) (fst p)) (st_saved s)"
  have dist: "distinct (map fst (st_saved s))"
    using assms(1) by (auto simp: rows_ok_def dest: btree_wf_distinct)
  have row: "fst p = saved_key kind (so_id (snd p)) \<and> so_kind (snd p) = kind" if "p \<in> set ?rows" for p
    using that assms by (auto simp: rows_ok_def prefix_saved_key dest!: bspec)
  have "ob \<in> set (list_saved kind s) \<longleftrightarrow> (\<exists>i. get_saved kind i s = Some ob \<and> so_kind ob = kind)" for ob
  proof
    assume "ob \<in> set (list_saved kind s)"
    then obtain p where p: "p \<in> set ?rows" "snd p = ob" by (auto simp: list_saved_def)
    with row [OF p(1)] dist show "\<exists>i. get_saved kind i s = Some ob \<and> so_kind ob = kind"
      by (intro exI [of _ "so_id ob"]) (cases p, auto simp: get_saved_def)
  next
    assume "\<exists>i. get_saved kind i s = Some ob \<and> so_kind ob = kind"
    then obtain i where "(saved_key kind i, ob) \<in> set (st_saved s)"
      by (auto simp: get_saved_def dest: map_of_SomeD)
    then show "ob \<in> set (list_saved kind s)"
      by (force simp: list_saved_def saved_key_def prefix_def)
  qed
  moreover have "distinct (map so_id (map snd ?rows))"
  proof -
    have "map fst ?rows = map (saved_key kind) (map so_id (map snd ?rows))"
      using row by (simp add: comp_def)
    moreover have "distinct (map fst ?rows)" using dist by (simp add: distinct_map_filter)
    ultimately show ?thesis by (metis distinct_map)
  qed
  then have "distinct (map so_id (list_saved kind s))"
    unfolding list_saved_def by (metis mset_eq_imp_distinct_iff mset_map mset_sort_desc)
  moreover have "sorted_wrt (\<lambda>a b. so_updated b \<le> so_updated a) (list_saved kind s)"
    unfolding list_saved_def using sorted_sort_desc .
  ultimately show ?thesis by blast
qed

theorem list_saved_spec_witness:
  "demo_object ''hunt'' ''1'' \<in> set (list_saved ''hunt'' (put_saved (demo_object ''hunt'' ''1'') store_open))"
proof -
  let ?s = "put_saved (demo_object ''hunt'' ''1'') (store_open :: nat store)"
  have legal: "legal_kind ''hunt''" by (simp add: legal_kind_def sep_def)
  have "rows_ok (store_open :: nat store)" by (simp add: rows_ok_def store_open_def)
  then have "rows_ok ?s" using legal by (intro rows_ok_put) (auto simp: demo_object_def)
  moreover have "get_saved ''hunt'' ''1'' ?s = Some (demo_object ''hunt'' ''1'')"
    using legal by (subst saved.get_put) (auto simp: demo_object_def)
  ultimately show ?thesis using list_saved_spec [of ?s, OF _ legal] by (auto simp: demo_object_def)
qed

section \<open>Alerts and triage\<close>

text \<open>Rows of alerts sit under their fingerprint.\<close>

definition alerts_ok :: "alert_hasher \<Rightarrow> 'b store \<Rightarrow> bool" where
  "alerts_ok h s \<longleftrightarrow> btree_wf (st_alerts s) \<and>
     (\<forall>fp r. get_alert fp s = Some r \<longrightarrow> fp = ar_fingerprint r \<and> fp = fingerprint h (ar_alert r))"

lemma get_write_alert:
  "get_alert fp (write_alert r s) = (if fp = ar_fingerprint r then Some r else get_alert fp s)"
  by (simp add: get_alert_def write_alert_def map_of_btree_insert)

lemma apply_patch_keeps [simp]:
  "ar_fingerprint (apply_patch now p r) = ar_fingerprint r" "ar_alert (apply_patch now p r) = ar_alert r"
  by (auto simp: apply_patch_def Let_def split: option.splits)

lemma alerts_ok_write:
  "alerts_ok h s \<Longrightarrow> ar_fingerprint r = fingerprint h (ar_alert r) \<Longrightarrow> alerts_ok h (write_alert r s)"
  by (auto simp: alerts_ok_def get_write_alert) (auto simp: write_alert_def)

lemma alerts_ok_upsert: "alerts_ok h s \<Longrightarrow> alerts_ok h (fst (upsert_alert h now a s))"
  by (auto simp: upsert_alert_def Let_def alert_record_new_def split: option.splits intro: alerts_ok_write)

lemma alerts_ok_patch: "alerts_ok h s \<Longrightarrow> alerts_ok h (fst (patch_alert now fp p s))"
  by (auto simp: patch_alert_def Let_def split: option.splits intro!: alerts_ok_write)
    (simp add: alerts_ok_def)

text \<open>
  C19: Re-deriving an alert never loses triage: an alert whose fingerprint is stored is returned with
  its status, assignee and notes and the store stays as it is; a new one is stored open. Either
  way the record is found under its fingerprint, and a second insertion changes nothing.
\<close>

theorem upsert_preserves_triage:
  "(case get_alert (fingerprint h a) s of
      Some r \<Rightarrow> upsert_alert h now a s = (s, r)
    | None \<Rightarrow> snd (upsert_alert h now a s) = alert_record_new h now a) \<and>
   get_alert (fingerprint h a) (fst (upsert_alert h now a s)) = Some (snd (upsert_alert h now a s)) \<and>
   upsert_alert h now' a (fst (upsert_alert h now a s)) = upsert_alert h now a s"
  by (auto simp: upsert_alert_def Let_def get_write_alert alert_record_new_def split: option.splits)

text \<open>
  The alert listing is the newest page: at most \<open>limit\<close> records, all of the requested
  technique, newest first, and no stored record of that technique that was left out is newer
  than one that was returned.
\<close>

theorem list_alerts_page:
  "let out = list_alerts limit tech s;
       wanted = filter (\<lambda>r. tech = None \<or> al_technique (ar_alert r) = tech) (map snd (st_alerts s))
   in length out = min limit (length wanted) \<and> mset out \<subseteq># mset wanted \<and>
      sorted_wrt (\<lambda>a b. al_ts (ar_alert b) \<le> al_ts (ar_alert a)) out \<and>
      list_all (\<lambda>r. list_all (\<lambda>o'. al_ts (ar_alert r) \<le> al_ts (ar_alert o')) out)
        (drop limit (sort_desc (\<lambda>r. al_ts (ar_alert r)) wanted))"
proof -
  let ?f = "\<lambda>r. al_ts (ar_alert r)"
  let ?wanted = "filter (\<lambda>r. tech = None \<or> al_technique (ar_alert r) = tech) (map snd (st_alerts s))"
  have out: "list_alerts limit tech s = take limit (sort_desc ?f ?wanted)"
    by (cases tech) (auto simp: list_alerts_def Let_def)
  have "mset (take limit (sort_desc ?f ?wanted)) \<subseteq># mset (sort_desc ?f ?wanted)"
    by (metis append_take_drop_id mset_append mset_subset_eq_add_left)
  then show ?thesis
    using take_sorted_wrt [OF sorted_sort_desc [of ?f ?wanted], of limit] take_sort_desc_top [of _ limit ?f ?wanted]
    by (auto simp: Let_def out list_all_iff min.commute)
qed

end
