(* ===== verification/Edr_Control.thy ===== *)
theory Edr_Control
  imports Store
begin

text \<open>
  The control plane of the endpoint agents: \<open>tokens.rs\<close>, \<open>registry.rs\<close>, \<open>queue.rs\<close> and the
  session handling of \<open>server.rs\<close> in \<open>crates/sigil-edr/src\<close>. Tokens, agents and commands are saved
  objects of three kinds in one store; the registry keeps the live sessions in memory.

  A session task of the gateway is an entry of \<open>ed_sessions\<close> under a fresh number, with the
  commands waiting in its channel; the sender a live session holds is that number. Dropping the
  sender of a session is removing the live entry that names it. Fresh ULIDs and the clock are
  arguments. The channel's capacity is not modelled: \<open>send\<close> is taken at the moment it completes.
\<close>

section \<open>Records\<close>

record token_record =
  tk_token :: string
  tk_label :: string
  tk_created :: timestamp
  tk_created_by :: "string option"

record token_info =
  ti_prefix :: string
  ti_label :: string
  ti_created :: timestamp
  ti_created_by :: "string option"

record agent_record =
  ag_id :: string
  ag_hostname :: string
  ag_os :: string
  ag_os_version :: string
  ag_version :: string
  ag_fingerprint :: string
  ag_session_token :: string
  ag_enrolled :: timestamp
  ag_last_seen :: timestamp
  ag_isolated :: bool

record agent_view =
  av_id :: string
  av_hostname :: string
  av_os :: string
  av_os_version :: string
  av_version :: string
  av_enrolled :: timestamp
  av_last_seen :: timestamp
  av_connected :: bool
  av_isolated :: bool

datatype command_type =
  Unspecified | KillProcess | QuarantineFile | IsolateHost | UnisolateHost | FetchFile

record command_params =
  cp_pid :: "nat option"
  cp_hash :: "string option"
  cp_path :: "string option"
  cp_max_bytes :: "nat option"
  cp_cidrs :: "string list option"

datatype command_status = Pending | Sent | Completed | Failed

record command_record =
  cm_id :: string
  cm_agent :: string
  cm_type :: string
  cm_params :: command_params
  cm_status :: command_status
  cm_issued_by :: string
  cm_issued :: timestamp
  cm_result_ok :: "bool option"
  cm_result_message :: "string option"
  cm_result_bytes :: "nat option"
  cm_completed :: "timestamp option"

text \<open>The wire command: its payload is the message of the matching kind, if there is one.\<close>

datatype command_payload =
    NoPayload
  | Kill nat string
  | Quarantine string string
  | Isolate "string list"
  | Fetch string nat

record command =
  co_id :: string
  co_type :: command_type
  co_payload :: command_payload

record enroll_request =
  eq_token :: string
  eq_hostname :: string
  eq_os :: string
  eq_os_version :: string
  eq_version :: string
  eq_fingerprint :: string

record command_result =
  cr_id :: string
  cr_ok :: bool
  cr_message :: string
  cr_payload :: "u8 list"

text \<open>Bodies of saved objects: one of the records, or anything else a client stored.\<close>

datatype edr_body =
    TokenBody token_record
  | AgentBody agent_record
  | CommandBody command_record
  | OtherBody json

fun as_token :: "edr_body \<Rightarrow> token_record option" where
  "as_token (TokenBody r) = Some r"
| "as_token _ = None"

fun as_agent :: "edr_body \<Rightarrow> agent_record option" where
  "as_agent (AgentBody r) = Some r"
| "as_agent _ = None"

fun as_command :: "edr_body \<Rightarrow> command_record option" where
  "as_command (CommandBody r) = Some r"
| "as_command _ = None"

type_synonym edr_store = "edr_body store"

abbreviation token_kind :: string where "token_kind \<equiv> ''edr-token''"
abbreviation agent_kind :: string where "agent_kind \<equiv> ''edr-agent''"
abbreviation command_kind :: string where "command_kind \<equiv> ''edr-command''"

section \<open>Enrollment tokens\<close>

definition token_write :: "token_record \<Rightarrow> edr_store \<Rightarrow> edr_store" where
  "token_write r s = put_saved \<lparr>so_kind = token_kind, so_id = tk_token r, so_name = tk_label r,
     so_owner = tk_created_by r, so_updated = tk_created r, so_body = TokenBody r\<rparr> s"

definition token_seed_one :: "timestamp \<Rightarrow> string \<Rightarrow> edr_store \<Rightarrow> edr_store" where
  "token_seed_one now t s =
     (if t = [] then s
      else if get_saved token_kind t s = None then
        token_write \<lparr>tk_token = t, tk_label = ''config'', tk_created = now, tk_created_by = Some ''config''\<rparr> s
      else s)"

definition token_seed :: "timestamp \<Rightarrow> string list \<Rightarrow> edr_store \<Rightarrow> edr_store" where
  "token_seed now ts s = fold (token_seed_one now) ts s"

definition token_issue ::
  "timestamp \<Rightarrow> string \<Rightarrow> string \<Rightarrow> string option \<Rightarrow> edr_store \<Rightarrow> edr_store \<times> string" where
  "token_issue now fresh label by s =
     (token_write \<lparr>tk_token = fresh, tk_label = label, tk_created = now, tk_created_by = by\<rparr> s, fresh)"

definition token_valid :: "string \<Rightarrow> edr_store \<Rightarrow> bool" where
  "token_valid t s \<longleftrightarrow> t \<noteq> [] \<and> get_saved token_kind t s \<noteq> None"

definition token_revoke :: "string \<Rightarrow> edr_store \<Rightarrow> edr_store \<times> bool" where
  "token_revoke t s = delete_saved token_kind t s"

definition token_list :: "edr_store \<Rightarrow> token_info list" where
  "token_list s = sort_desc ti_created
     (map (\<lambda>r. \<lparr>ti_prefix = take 8 (tk_token r), ti_label = tk_label r, ti_created = tk_created r,
                ti_created_by = tk_created_by r\<rparr>)
       (List.map_filter (\<lambda>ob. as_token (so_body ob)) (list_saved token_kind s)))"

section \<open>The fleet registry\<close>

record live_session =
  ls_sender :: nat
  ls_last_seen :: timestamp
  ls_isolated :: bool

record session =
  ss_agent :: string
  ss_queue :: "command list"

record edr =
  ed_store :: edr_store
  ed_live :: "(string \<times> live_session) list"
  ed_sessions :: "(nat \<times> session) list"
  ed_next :: nat

definition persist_agent :: "timestamp \<Rightarrow> agent_record \<Rightarrow> edr_store \<Rightarrow> edr_store" where
  "persist_agent now r s = put_saved \<lparr>so_kind = agent_kind, so_id = ag_id r, so_name = ag_hostname r,
     so_owner = None, so_updated = now, so_body = AgentBody r\<rparr> s"

definition agent_of :: "string \<Rightarrow> edr_store \<Rightarrow> agent_record option" where
  "agent_of i s = (case get_saved agent_kind i s of Some ob \<Rightarrow> as_agent (so_body ob) | None \<Rightarrow> None)"

definition registry_enroll ::
  "timestamp \<Rightarrow> string \<Rightarrow> enroll_request \<Rightarrow> string \<Rightarrow> edr_store \<Rightarrow> edr_store \<times> agent_record" where
  "registry_enroll now ulid req token s =
     (let r = \<lparr>ag_id = ulid, ag_hostname = eq_hostname req, ag_os = eq_os req,
               ag_os_version = eq_os_version req, ag_version = eq_version req,
               ag_fingerprint = eq_fingerprint req, ag_session_token = token, ag_enrolled = now,
               ag_last_seen = now, ag_isolated = False\<rparr>
      in (persist_agent now r s, r))"

definition validate_session :: "string \<Rightarrow> string \<Rightarrow> edr_store \<Rightarrow> bool" where
  "validate_session i token s \<longleftrightarrow>
     (case agent_of i s of Some r \<Rightarrow> token \<noteq> [] \<and> ag_session_token r = token | None \<Rightarrow> False)"

definition hash_remove :: "'k \<Rightarrow> ('k \<times> 'v) list \<Rightarrow> ('k \<times> 'v) list" where
  "hash_remove k m = filter (\<lambda>p. fst p \<noteq> k) m"

text \<open>\<open>connect\<close>: a new channel, whose receiver the calling session task holds.\<close>

definition connect :: "timestamp \<Rightarrow> string \<Rightarrow> edr \<Rightarrow> edr \<times> nat" where
  "connect now i e =
     (let sid = ed_next e;
          isolated = (case map_of (ed_live e) i of Some l \<Rightarrow> ls_isolated l | None \<Rightarrow> False)
      in (e\<lparr>ed_live := hash_insert i \<lparr>ls_sender = sid, ls_last_seen = now, ls_isolated = isolated\<rparr> (ed_live e),
            ed_sessions := hash_insert sid \<lparr>ss_agent = i, ss_queue = []\<rparr> (ed_sessions e),
            ed_next := Suc sid\<rparr>, sid))"

definition disconnect :: "timestamp \<Rightarrow> string \<Rightarrow> edr \<Rightarrow> edr" where
  "disconnect now i e =
     (case map_of (ed_live e) i of
        None \<Rightarrow> e
      | Some l \<Rightarrow>
          let e' = e\<lparr>ed_live := hash_remove i (ed_live e)\<rparr>
          in (case agent_of i (ed_store e') of
                None \<Rightarrow> e'
              | Some r \<Rightarrow> e'\<lparr>ed_store := persist_agent now
                  (r\<lparr>ag_last_seen := ls_last_seen l, ag_isolated := ls_isolated l\<rparr>) (ed_store e')\<rparr>))"

definition heartbeat :: "timestamp \<Rightarrow> string \<Rightarrow> bool \<Rightarrow> edr \<Rightarrow> edr" where
  "heartbeat now i isolated e =
     (case map_of (ed_live e) i of
        None \<Rightarrow> e
      | Some l \<Rightarrow> e\<lparr>ed_live := hash_insert i (l\<lparr>ls_last_seen := now, ls_isolated := isolated\<rparr>) (ed_live e)\<rparr>)"

definition command_sender :: "string \<Rightarrow> edr \<Rightarrow> nat option" where
  "command_sender i e = map_option ls_sender (map_of (ed_live e) i)"

definition is_connected :: "string \<Rightarrow> edr \<Rightarrow> bool" where
  "is_connected i e \<longleftrightarrow> map_of (ed_live e) i \<noteq> None"

definition view :: "edr \<Rightarrow> agent_record \<Rightarrow> agent_view" where
  "view e r =
     (let live = map_of (ed_live e) (ag_id r)
      in \<lparr>av_id = ag_id r, av_hostname = ag_hostname r, av_os = ag_os r, av_os_version = ag_os_version r,
          av_version = ag_version r, av_enrolled = ag_enrolled r,
          av_last_seen = (case live of Some l \<Rightarrow> ls_last_seen l | None \<Rightarrow> ag_last_seen r),
          av_connected = (live \<noteq> None),
          av_isolated = (case live of Some l \<Rightarrow> ls_isolated l | None \<Rightarrow> ag_isolated r)\<rparr>)"

definition registry_get :: "string \<Rightarrow> edr \<Rightarrow> agent_view option" where
  "registry_get i e = map_option (view e) (agent_of i (ed_store e))"

definition registry_list :: "edr \<Rightarrow> agent_view list" where
  "registry_list e = sort_desc av_enrolled
     (map (view e) (List.map_filter (\<lambda>ob. as_agent (so_body ob)) (list_saved agent_kind (ed_store e))))"

section \<open>Response commands\<close>

definition parse_command_type :: "string \<Rightarrow> command_type result" where
  "parse_command_type s =
     (let k = to_lowercase s
      in if k = ''kill_process'' \<or> k = ''kill'' then Inr KillProcess
         else if k = ''quarantine_file'' \<or> k = ''quarantine'' then Inr QuarantineFile
         else if k = ''isolate_host'' \<or> k = ''isolate'' then Inr IsolateHost
         else if k = ''unisolate_host'' \<or> k = ''unisolate'' then Inr UnisolateHost
         else if k = ''fetch_file'' \<or> k = ''fetch'' then Inr FetchFile
         else Inl (Config (''unknown command type `'' @ k @ ''`'')))"

definition unwrap_or :: "'a \<Rightarrow> 'a option \<Rightarrow> 'a" where
  "unwrap_or d x = (case x of Some v \<Rightarrow> v | None \<Rightarrow> d)"

definition build_command :: "string \<Rightarrow> command_type \<Rightarrow> command_params \<Rightarrow> command" where
  "build_command i t p =
     \<lparr>co_id = i, co_type = t,
      co_payload = (case t of
          KillProcess \<Rightarrow> Kill (unwrap_or 0 (cp_pid p)) (unwrap_or [] (cp_hash p))
        | QuarantineFile \<Rightarrow> Quarantine (unwrap_or [] (cp_path p)) (unwrap_or [] (cp_hash p))
        | IsolateHost \<Rightarrow> Isolate (unwrap_or [] (cp_cidrs p))
        | FetchFile \<Rightarrow> Fetch (unwrap_or [] (cp_path p)) (unwrap_or (1024 * 1024) (cp_max_bytes p))
        | _ \<Rightarrow> NoPayload)\<rparr>"

definition persist_command :: "timestamp \<Rightarrow> command_record \<Rightarrow> edr_store \<Rightarrow> edr_store" where
  "persist_command now r s = put_saved \<lparr>so_kind = command_kind, so_id = cm_id r,
     so_name = cm_type r @ '' -> '' @ cm_agent r, so_owner = Some (cm_issued_by r),
     so_updated = now, so_body = CommandBody r\<rparr> s"

definition get_command :: "string \<Rightarrow> edr_store \<Rightarrow> command_record option" where
  "get_command i s = (case get_saved command_kind i s of Some ob \<Rightarrow> as_command (so_body ob) | None \<Rightarrow> None)"

definition list_commands :: "nat \<Rightarrow> string option \<Rightarrow> edr_store \<Rightarrow> command_record list" where
  "list_commands limit agent s =
     take limit (sort_desc cm_issued
       (filter (\<lambda>r. case agent of Some a \<Rightarrow> cm_agent r = a | None \<Rightarrow> True)
         (List.map_filter (\<lambda>ob. as_command (so_body ob)) (list_saved command_kind s))))"

text \<open>\<open>tx.send(cmd).await\<close>: succeeds while the session task still holds the receiver.\<close>

definition channel_send :: "nat \<Rightarrow> command \<Rightarrow> edr \<Rightarrow> edr option" where
  "channel_send sid cmd e =
     (case map_of (ed_sessions e) sid of
        None \<Rightarrow> None
      | Some ss \<Rightarrow> Some (e\<lparr>ed_sessions := hash_insert sid (ss\<lparr>ss_queue := ss_queue ss @ [cmd]\<rparr>) (ed_sessions e)\<rparr>))"

text \<open>
  \<open>enqueue\<close> up to the completion of \<open>send\<close>, and what follows it: between the two other tasks run.
  The flag says whether the command went out.
\<close>

definition enqueue_send ::
  "timestamp \<Rightarrow> string \<Rightarrow> string \<Rightarrow> string \<Rightarrow> command_params \<Rightarrow> string \<Rightarrow> edr \<Rightarrow> (edr \<times> command_record \<times> bool) result" where
  "enqueue_send now ulid agent ctype params by e =
     and_then (parse_command_type ctype) (\<lambda>t.
       let r = \<lparr>cm_id = ulid, cm_agent = agent, cm_type = ctype, cm_params = params, cm_status = Pending,
                cm_issued_by = by, cm_issued = now, cm_result_ok = None, cm_result_message = None,
                cm_result_bytes = None, cm_completed = None\<rparr>;
           e1 = e\<lparr>ed_store := persist_command now r (ed_store e)\<rparr>
       in (case command_sender agent e1 of
             None \<Rightarrow> Inr (e1, r, False)
           | Some sid \<Rightarrow>
               (case channel_send sid (build_command ulid t params) e1 of
                  None \<Rightarrow> Inr (e1, r, False)
                | Some e2 \<Rightarrow> Inr (e2, r, True))))"

definition enqueue_mark :: "timestamp \<Rightarrow> command_record \<Rightarrow> bool \<Rightarrow> edr \<Rightarrow> edr \<times> command_record" where
  "enqueue_mark now r sent e =
     (if sent then let r' = r\<lparr>cm_status := Sent\<rparr> in (e\<lparr>ed_store := persist_command now r' (ed_store e)\<rparr>, r')
      else (e, r))"

definition enqueue ::
  "timestamp \<Rightarrow> string \<Rightarrow> string \<Rightarrow> string \<Rightarrow> command_params \<Rightarrow> string \<Rightarrow> edr \<Rightarrow> (edr \<times> command_record) result" where
  "enqueue now ulid agent ctype params by e =
     and_then (enqueue_send now ulid agent ctype params by e) (\<lambda>(e', r, sent). Inr (enqueue_mark now r sent e'))"

definition complete_command :: "timestamp \<Rightarrow> command_result \<Rightarrow> command_record \<Rightarrow> command_record" where
  "complete_command now res r =
     (let r1 = r\<lparr>cm_status := (if cr_ok res then Completed else Failed),
                 cm_result_ok := Some (cr_ok res), cm_result_message := Some (cr_message res)\<rparr>;
          r2 = (if cr_payload res \<noteq> [] then r1\<lparr>cm_result_bytes := Some (length (cr_payload res))\<rparr> else r1)
      in r2\<lparr>cm_completed := Some now\<rparr>)"

definition record_result :: "timestamp \<Rightarrow> command_result \<Rightarrow> edr \<Rightarrow> edr" where
  "record_result now res e =
     (case get_command (cr_id res) (ed_store e) of
        None \<Rightarrow> e
      | Some r \<Rightarrow> e\<lparr>ed_store := persist_command now (complete_command now res r) (ed_store e)\<rparr>)"

section \<open>The gateway\<close>

datatype status_error = Unauthenticated string | Internal string

record enroll_reply =
  ep_agent :: string
  ep_session_token :: string
  ep_heartbeat_secs :: nat

definition gateway_enroll ::
  "timestamp \<Rightarrow> string \<Rightarrow> string \<Rightarrow> enroll_request \<Rightarrow> edr \<Rightarrow> edr \<times> (status_error + enroll_reply)" where
  "gateway_enroll now ulid token req e =
     (if \<not> token_valid (eq_token req) (ed_store e) then (e, Inl (Unauthenticated ''invalid enrollment token''))
      else let (s, r) = registry_enroll now ulid req token (ed_store e)
           in (e\<lparr>ed_store := s\<rparr>, Inr \<lparr>ep_agent = ag_id r, ep_session_token = token, ep_heartbeat_secs = 30\<rparr>))"

datatype agent_message =
    Hello string string
  | Heartbeat "bool option"
  | Telemetry
  | Result command_result
  | Empty

text \<open>The first frame of a stream: a session number if the stream is accepted.\<close>

definition session_open :: "timestamp \<Rightarrow> agent_message \<Rightarrow> edr \<Rightarrow> edr \<times> nat option" where
  "session_open now m e =
     (case m of
        Hello i token \<Rightarrow>
          if validate_session i token (ed_store e)
          then let (e', sid) = connect now i e in (e', Some sid)
          else (e, None)
      | _ \<Rightarrow> (e, None))"

text \<open>A later frame of session \<open>sid\<close>. Telemetry goes to the event channel and changes no state here.\<close>

definition session_message :: "timestamp \<Rightarrow> nat \<Rightarrow> agent_message \<Rightarrow> edr \<Rightarrow> edr" where
  "session_message now sid m e =
     (case map_of (ed_sessions e) sid of
        None \<Rightarrow> e
      | Some ss \<Rightarrow>
          (case m of
             Heartbeat stats \<Rightarrow> heartbeat now (ss_agent ss) (unwrap_or False stats) e
           | Result r \<Rightarrow> record_result now r e
           | _ \<Rightarrow> e))"

text \<open>A command is taken from the channel and written to the agent's stream.\<close>

definition session_forward :: "nat \<Rightarrow> edr \<Rightarrow> edr \<times> command option" where
  "session_forward sid e =
     (case map_of (ed_sessions e) sid of
        Some ss \<Rightarrow>
          (case ss_queue ss of
             c # cs \<Rightarrow> (e\<lparr>ed_sessions := hash_insert sid (ss\<lparr>ss_queue := cs\<rparr>) (ed_sessions e)\<rparr>, Some c)
           | [] \<Rightarrow> (e, None))
      | None \<Rightarrow> (e, None))"

text \<open>\<open>recv\<close> returns \<open>None\<close> when the channel is empty and its sender is gone.\<close>

definition channel_closed :: "nat \<Rightarrow> edr \<Rightarrow> bool" where
  "channel_closed sid e \<longleftrightarrow>
     (case map_of (ed_sessions e) sid of
        Some ss \<Rightarrow> ss_queue ss = [] \<and> (\<forall>p \<in> set (ed_live e). ls_sender (snd p) \<noteq> sid)
      | None \<Rightarrow> False)"

text \<open>The end of a session task, after its stream ended or its channel closed.\<close>

definition session_end :: "timestamp \<Rightarrow> nat \<Rightarrow> edr \<Rightarrow> edr" where
  "session_end now sid e =
     (case map_of (ed_sessions e) sid of
        None \<Rightarrow> e
      | Some ss \<Rightarrow> disconnect now (ss_agent ss) (e\<lparr>ed_sessions := hash_remove sid (ed_sessions e)\<rparr>))"

definition edr_new :: "timestamp \<Rightarrow> string list \<Rightarrow> edr_store \<Rightarrow> edr" where
  "edr_new now tokens s = \<lparr>ed_store = token_seed now tokens s, ed_live = [], ed_sessions = [], ed_next = 0\<rparr>"

section \<open>Records in the store\<close>

lemma legal_kinds [simp]: "legal_kind token_kind" "legal_kind agent_kind" "legal_kind command_kind"
  by (simp_all add: legal_kind_def sep_def)

lemma get_token_write [simp]:
  "get_saved token_kind t (token_write r s) \<noteq> None \<longleftrightarrow> t = tk_token r \<or> get_saved token_kind t s \<noteq> None"
  "agent_of i (token_write r s) = agent_of i s"
  by (simp_all add: token_write_def agent_of_def saved.get_put)

lemma agent_of_persist [simp]:
  "agent_of i (persist_agent now r s) = (if i = ag_id r then Some r else agent_of i s)"
  "get_command c (persist_agent now r s) = get_command c s"
  by (simp_all add: agent_of_def get_command_def persist_agent_def saved.get_put)

lemma get_command_persist [simp]:
  "get_command i (persist_command now r s) = (if i = cm_id r then Some r else get_command i s)"
  "agent_of a (persist_command now r s) = agent_of a s"
  by (simp_all add: agent_of_def get_command_def persist_command_def saved.get_put)

lemma map_of_hash_remove [simp]: "map_of (hash_remove k m) x = (if x = k then None else map_of m x)"
  by (induction m) (auto simp: hash_remove_def)

lemma token_valid_seed_one:
  "token_valid t (token_seed_one now u s) \<longleftrightarrow> t \<noteq> [] \<and> (t = u \<or> token_valid t s)"
  using get_token_write(1) [of t] by (auto simp: token_valid_def token_seed_one_def)

text \<open>
  Enrollment tokens: after seeding, the valid tokens are the seeded ones, the empty one
  excepted, and those that were valid before; an issued token is valid; a revoked one is not, and
  no other token is affected.
\<close>

theorem token_lifecycle:
  "(token_valid t (token_seed now ts s) \<longleftrightarrow> t \<noteq> [] \<and> (t \<in> set ts \<or> token_valid t s)) \<and>
   (token_valid t (fst (token_issue now u label by' s)) \<longleftrightarrow> t \<noteq> [] \<and> (t = u \<or> token_valid t s)) \<and>
   (token_valid t (fst (token_revoke u s)) \<longleftrightarrow> t \<noteq> u \<and> token_valid t s)"
proof (intro conjI)
  show "token_valid t (token_seed now ts s) \<longleftrightarrow> t \<noteq> [] \<and> (t \<in> set ts \<or> token_valid t s)"
  proof (induction ts arbitrary: s)
    case Nil
    then show ?case by (auto simp: token_seed_def token_valid_def)
  next
    case (Cons u ts)
    then show ?case by (auto simp: token_seed_def token_valid_seed_one)
  qed
  show "token_valid t (fst (token_issue now u label by' s)) \<longleftrightarrow> t \<noteq> [] \<and> (t = u \<or> token_valid t s)"
    using get_token_write(1) [of t] by (auto simp: token_valid_def token_issue_def)
  show "token_valid t (fst (token_revoke u s)) \<longleftrightarrow> t \<noteq> u \<and> token_valid t s"
    using saved.get_del [of token_kind token_kind t u s]
    by (auto simp: token_valid_def token_revoke_def)
qed

section \<open>Enrollment\<close>

text \<open>
  C27: Enrollment is the only way to a session credential: without a valid token nothing changes;
  with one, the new agent can open sessions with exactly the token it was handed, and the
  credentials of every other agent stay as they are.
\<close>

theorem enrollment_grants_session:
  "case gateway_enroll now ulid token req e of
     (e', Inl err) \<Rightarrow> \<not> token_valid (eq_token req) (ed_store e) \<and> e' = e \<and>
       err = Unauthenticated ''invalid enrollment token''
   | (e', Inr reply) \<Rightarrow> token_valid (eq_token req) (ed_store e) \<and>
       ep_agent reply = ulid \<and> ep_session_token reply = token \<and>
       (\<forall>i t. validate_session i t (ed_store e') \<longleftrightarrow>
          (if i = ulid then t = token \<and> t \<noteq> [] else validate_session i t (ed_store e)))"
  by (auto simp: gateway_enroll_def registry_enroll_def validate_session_def Let_def)

section \<open>Sessions\<close>

text \<open>A live entry names a running session task of its agent; session numbers are fresh.\<close>

definition edr_inv :: "edr \<Rightarrow> bool" where
  "edr_inv e \<longleftrightarrow> (\<forall>p \<in> set (ed_sessions e). fst p < ed_next e) \<and>
     (\<forall>i l. map_of (ed_live e) i = Some l \<longrightarrow>
        (\<exists>ss. map_of (ed_sessions e) (ls_sender l) = Some ss \<and> ss_agent ss = i))"

inductive edr_step :: "edr \<Rightarrow> edr \<Rightarrow> bool" where
  enroll: "edr_step e (fst (gateway_enroll now ulid token req e))"
| open_session: "edr_step e (fst (session_open now m e))"
| message: "edr_step e (session_message now sid m e)"
| forward: "edr_step e (fst (session_forward sid e))"
| finish: "edr_step e (session_end now sid e)"
| send: "enqueue_send now ulid agent ctype params by' e = Inr (e', r, sent) \<Longrightarrow> edr_step e e'"
| mark: "edr_step e (fst (enqueue_mark now r sent e))"
| issue: "edr_step e (e\<lparr>ed_store := fst (token_issue now u label by' (ed_store e))\<rparr>)"
| revoke: "edr_step e (e\<lparr>ed_store := fst (token_revoke u (ed_store e))\<rparr>)"

lemma edr_inv_store [simp]: "edr_inv (e\<lparr>ed_store := s\<rparr>) = edr_inv e"
  by (simp add: edr_inv_def)

lemma set_hash_insert: "set (hash_insert k v m) \<subseteq> insert (k, v) (set m)"
  by (induction k v m rule: hash_insert.induct) auto

lemma edr_inv_queue:
  assumes "edr_inv e" and "map_of (ed_sessions e) sid = Some ss"
  shows "edr_inv (e\<lparr>ed_sessions := hash_insert sid (ss\<lparr>ss_queue := q\<rparr>) (ed_sessions e)\<rparr>)"
  using assms set_hash_insert [of sid "ss\<lparr>ss_queue := q\<rparr>" "ed_sessions e"] map_of_SomeD [OF assms(2)]
  by (fastforce simp: edr_inv_def map_of_hash_insert)

lemma edr_inv_connect:
  assumes "edr_inv e"
  shows "edr_inv (fst (connect now i e))"
proof -
  have "map_of (ed_sessions e) (ed_next e) = None"
    using assms by (auto simp: edr_inv_def map_of_eq_None_iff)
  then show ?thesis
    using assms set_hash_insert [of "ed_next e" "\<lparr>ss_agent = i, ss_queue = []\<rparr>" "ed_sessions e"]
    by (fastforce simp: edr_inv_def connect_def Let_def map_of_hash_insert)
qed

lemma edr_inv_heartbeat: "edr_inv e \<Longrightarrow> edr_inv (heartbeat now i b e)"
  by (auto simp: edr_inv_def heartbeat_def map_of_hash_insert split: option.splits)

lemma disconnect_parts:
  "ed_live (disconnect now i e) = hash_remove i (ed_live e)"
  "ed_sessions (disconnect now i e) = ed_sessions e" "ed_next (disconnect now i e) = ed_next e"
proof -
  have "map_of m i = None \<Longrightarrow> hash_remove i m = m" for m :: "(string \<times> live_session) list"
    by (induction m) (auto simp: hash_remove_def split: if_splits)
  then show "ed_live (disconnect now i e) = hash_remove i (ed_live e)"
    "ed_sessions (disconnect now i e) = ed_sessions e" "ed_next (disconnect now i e) = ed_next e"
    by (auto simp: disconnect_def Let_def split: option.splits)
qed

lemma edr_inv_end:
  assumes "edr_inv e"
  shows "edr_inv (session_end now sid e)"
proof (cases "map_of (ed_sessions e) sid")
  case (Some ss)
  let ?e = "session_end now sid e"
  have parts: "ed_live ?e = hash_remove (ss_agent ss) (ed_live e)"
    "ed_sessions ?e = hash_remove sid (ed_sessions e)" "ed_next ?e = ed_next e"
    using Some by (simp_all add: session_end_def disconnect_parts)
  have "\<exists>x. map_of (ed_sessions ?e) (ls_sender l) = Some x \<and> ss_agent x = i"
    if "map_of (ed_live ?e) i = Some l" for i l
  proof -
    from that have i: "map_of (ed_live e) i = Some l" "i \<noteq> ss_agent ss" by (auto simp: parts split: if_splits)
    with assms obtain x where x: "map_of (ed_sessions e) (ls_sender l) = Some x" "ss_agent x = i"
      unfolding edr_inv_def by blast
    with i Some have "ls_sender l \<noteq> sid" by auto
    with x show ?thesis by (simp add: parts)
  qed
  moreover have "\<forall>p \<in> set (ed_sessions ?e). fst p < ed_next ?e"
    using assms by (auto simp: parts edr_inv_def) (auto simp: hash_remove_def)
  ultimately show ?thesis by (simp add: edr_inv_def)
qed (simp add: session_end_def assms)

lemma edr_inv_step: "edr_step e e' \<Longrightarrow> edr_inv e \<Longrightarrow> edr_inv e'"
proof (induction rule: edr_step.induct)
  case (message e now sid m)
  then show ?case
    by (auto simp: session_message_def record_result_def Let_def edr_inv_heartbeat
        split: option.splits agent_message.splits)
next
  case (send now ulid agent ctype params by' e e' r sent)
  then show ?case
    by (cases "parse_command_type ctype")
      (auto simp: enqueue_send_def Let_def channel_send_def split: option.splits
        intro!: edr_inv_queue [where e = "e\<lparr>ed_store := x\<rparr>" for x, simplified])
qed (auto simp: gateway_enroll_def registry_enroll_def session_open_def session_forward_def enqueue_mark_def
    Let_def case_prod_beta edr_inv_connect edr_inv_queue edr_inv_end split: agent_message.splits option.splits list.splits)

lemma complete_command_simps [simp]:
  "cm_id (complete_command now res r) = cm_id r" "cm_agent (complete_command now res r) = cm_agent r"
  "cm_status (complete_command now res r) = (if cr_ok res then Completed else Failed)"
  "cm_result_ok (complete_command now res r) = Some (cr_ok res)"
  "cm_result_message (complete_command now res r) = Some (cr_message res)"
  by (simp_all add: complete_command_def Let_def)

lemma get_record_result:
  assumes "get_command (cr_id res) (ed_store e) = Some c" and "cm_id c = cr_id res"
  shows "get_command (cr_id res) (ed_store (record_result now res e)) = Some (complete_command now res c)"
  using assms(2) by (simp add: record_result_def assms(1))

text \<open>
  C25: A command is only ever put into the channel of a running session of the agent it is addressed
  to: in every state the control plane reaches, the sender of a connected agent belongs to a
  session task of that agent, and a command that is marked sent is the last one in its channel.
\<close>

theorem command_routing:
  assumes "edr_step\<^sup>*\<^sup>* (edr_new now0 tokens s0) e"
    and "enqueue_send now ulid agent ctype params by' e = Inr (e', r, True)"
  shows "\<exists>sid t ss. command_sender agent e = Some sid \<and> parse_command_type ctype = Inr t \<and>
    map_of (ed_sessions e') sid = Some ss \<and> ss_agent ss = agent \<and>
    last (ss_queue ss) = build_command ulid t params \<and> get_command ulid (ed_store e') = Some r"
proof -
  have "edr_inv (edr_new now0 tokens s0)" by (simp add: edr_inv_def edr_new_def)
  with assms(1) have "edr_inv e" by (induction rule: rtranclp_induct) (auto intro: edr_inv_step)
  with assms(2) show ?thesis
    by (cases "parse_command_type ctype")
      (fastforce simp: enqueue_send_def Let_def channel_send_def command_sender_def edr_inv_def
        map_of_hash_insert split: option.splits)+
qed

section \<open>Witnesses and deviations\<close>

definition demo_params :: command_params where
  "demo_params = \<lparr>cp_pid = Some 7, cp_hash = None, cp_path = None, cp_max_bytes = None, cp_cidrs = None\<rparr>"

definition demo_request :: enroll_request where
  "demo_request = \<lparr>eq_token = ''t'', eq_hostname = ''h'', eq_os = [], eq_os_version = [], eq_version = [], eq_fingerprint = []\<rparr>"

text \<open>One agent enrolled and connected.\<close>

definition demo_edr :: edr where
  "demo_edr = fst (session_open 3 (Hello ''A'' ''k'')
     (fst (gateway_enroll 2 ''A'' ''k'' demo_request (edr_new 1 [''t''] store_open))))"

lemma demo_edr_reachable: "edr_step\<^sup>*\<^sup>* (edr_new 1 [''t''] store_open) demo_edr"
proof -
  let ?e0 = "edr_new 1 [''t''] store_open"
  have "edr_step ?e0 (fst (gateway_enroll 2 ''A'' ''k'' demo_request ?e0))" by (rule edr_step.enroll)
  moreover have "edr_step (fst (gateway_enroll 2 ''A'' ''k'' demo_request ?e0)) demo_edr"
    unfolding demo_edr_def by (rule edr_step.open_session)
  ultimately show ?thesis by (meson converse_rtranclp_into_rtranclp r_into_rtranclp)
qed

lemma demo_edr_state:
  "ed_live demo_edr = [(''A'', \<lparr>ls_sender = 0, ls_last_seen = 3, ls_isolated = False\<rparr>)]"
  "ed_sessions demo_edr = [(0, \<lparr>ss_agent = ''A'', ss_queue = []\<rparr>)]" "ed_next demo_edr = 1"
proof -
  have "token_valid ''t'' (token_seed 1 [''t''] store_open)"
    by (simp add: token_seed_def token_valid_seed_one)
  then have "session_open 3 (Hello ''A'' ''k'') (fst (gateway_enroll 2 ''A'' ''k'' demo_request (edr_new 1 [''t''] store_open))) =
      (let (e', sid) = connect 3 ''A'' (fst (gateway_enroll 2 ''A'' ''k'' demo_request (edr_new 1 [''t''] store_open))) in (e', Some sid))"
    by (simp add: session_open_def gateway_enroll_def registry_enroll_def validate_session_def demo_request_def edr_new_def Let_def)
  then show "ed_live demo_edr = [(''A'', \<lparr>ls_sender = 0, ls_last_seen = 3, ls_isolated = False\<rparr>)]"
    "ed_sessions demo_edr = [(0, \<lparr>ss_agent = ''A'', ss_queue = []\<rparr>)]" "ed_next demo_edr = 1"
    by (simp_all add: demo_edr_def connect_def gateway_enroll_def registry_enroll_def edr_new_def Let_def)
qed

lemma demo_send:
  "\<exists>e' r. enqueue_send 4 ''C'' ''A'' ''kill'' demo_params ''bob'' demo_edr = Inr (e', r, True) \<and> cm_id r = ''C'' \<and>
     cm_result_ok r = None \<and> ed_live e' = ed_live demo_edr"
  by (simp add: enqueue_send_def parse_command_type_def string_eval command_sender_def demo_edr_state
      channel_send_def)

theorem command_routing_witness:
  "\<exists>e' r sid ss. enqueue_send 4 ''C'' ''A'' ''kill'' demo_params ''bob'' demo_edr = Inr (e', r, True) \<and>
     map_of (ed_sessions e') sid = Some ss \<and> ss_agent ss = ''A''"
proof -
  obtain e' r where "enqueue_send 4 ''C'' ''A'' ''kill'' demo_params ''bob'' demo_edr = Inr (e', r, True)"
    using demo_send by blast
  with command_routing [OF demo_edr_reachable this] show ?thesis by blast
qed

text \<open>
  A reconnecting agent is cut off by its previous session: replacing the live entry closes the
  old session's channel, the old task then ends, and its teardown removes the entry of the new
  session. The agent counts as disconnected and the new session's channel is closed too, although
  its task runs and its stream is up.
\<close>

theorem reconnect_torn_down:
  assumes "edr_inv e" and "distinct (map fst (ed_live e))"
    and "map_of (ed_live e) i = Some l"
    and "map_of (ed_sessions e) (ls_sender l) = Some ss" and "ss_queue ss = []"
  shows "let (e1, sid) = connect now i e; e2 = session_end now' (ls_sender l) e1
    in channel_closed (ls_sender l) e1 \<and> map_of (ed_sessions e2) sid \<noteq> None \<and>
       \<not> is_connected i e2 \<and> channel_closed sid e2"
proof -
  obtain e1 sid where c: "connect now i e = (e1, sid)" by fastforce
  have sid: "sid = ed_next e" "ls_sender l < ed_next e" "ss_agent ss = i"
  proof -
    show "sid = ed_next e" using c by (simp add: connect_def Let_def)
    show "ls_sender l < ed_next e" using assms(1) map_of_SomeD [OF assms(4)] by (fastforce simp: edr_inv_def)
    show "ss_agent ss = i" using assms(1,3,4) unfolding edr_inv_def by fastforce
  qed
  have live: "map_of (ed_live e1) = (map_of (ed_live e))(i \<mapsto> \<lparr>ls_sender = sid, ls_last_seen = now, ls_isolated = ls_isolated l\<rparr>)"
    and sess: "map_of (ed_sessions e1) = (map_of (ed_sessions e))(sid \<mapsto> \<lparr>ss_agent = i, ss_queue = []\<rparr>)"
    using c assms(3) by (auto simp: connect_def Let_def map_of_hash_insert)
  have dist: "distinct (map fst (ed_live e1))"
    using c assms(2) by (auto simp: connect_def Let_def distinct_hash_insert)
  have other: "j = i" if "(j, m) \<in> set (ed_live e1)" "ls_sender m \<in> {ls_sender l, sid}" for j m
  proof (rule ccontr)
    assume "j \<noteq> i"
    with that(1) dist live have "map_of (ed_live e) j = Some m" by (metis fun_upd_other map_of_is_SomeI)
    with assms(1) obtain x where x: "map_of (ed_sessions e) (ls_sender m) = Some x" "ss_agent x = j"
      unfolding edr_inv_def by blast
    then have "ls_sender m < ed_next e" using assms(1) map_of_SomeD [OF x(1)] by (auto simp: edr_inv_def)
    with that(2) x assms(4) sid \<open>j \<noteq> i\<close> show False by auto
  qed
  have entry: "m = \<lparr>ls_sender = sid, ls_last_seen = now, ls_isolated = ls_isolated l\<rparr>" if "(i, m) \<in> set (ed_live e1)" for m
    using that dist live by (metis fun_upd_same map_of_is_SomeI option.inject)
  have "channel_closed (ls_sender l) e1"
    using assms(4,5) sid sess other entry by (fastforce simp: channel_closed_def)
  moreover define e2 where "e2 = session_end now' (ls_sender l) e1"
  have live2: "ed_live e2 = hash_remove i (ed_live e1)"
    and sess2: "map_of (ed_sessions e2) sid = Some \<lparr>ss_agent = i, ss_queue = []\<rparr>"
    using sess sid assms(4) by (simp_all add: e2_def session_end_def disconnect_parts)
  have "ls_sender (snd p) \<noteq> sid" if "p \<in> set (ed_live e2)" for p
    using that other [of "fst p" "snd p"] by (auto simp: live2 hash_remove_def)
  then have "channel_closed sid e2" by (simp add: channel_closed_def sess2)
  moreover have "\<not> is_connected i e2" by (simp add: is_connected_def live2)
  ultimately show ?thesis using sess2 by (simp add: c Let_def e2_def [symmetric])
qed

theorem reconnect_torn_down_witness:
  "\<not> is_connected ''A'' (session_end 6 0 (fst (connect 5 ''A'' demo_edr)))"
proof -
  have inv: "edr_inv demo_edr" by (simp add: edr_inv_def demo_edr_state)
  show ?thesis
    using reconnect_torn_down [OF inv, of "''A''" "\<lparr>ls_sender = 0, ls_last_seen = 3, ls_isolated = False\<rparr>"
        "\<lparr>ss_agent = ''A'', ss_queue = []\<rparr>" 5 6]
    by (simp add: demo_edr_state Let_def case_prod_beta)
qed

text \<open>
  A result can be lost: when an agent answers between the completion of the send and the second
  write of \<open>enqueue\<close>, that write replaces the record with the stale copy, so that the command is
  listed as sent, without result.
\<close>

theorem result_lost:
  assumes "enqueue_send now ulid agent ctype params by' e = Inr (e1, r, True)" and "cr_id res = ulid"
  shows "(\<exists>c. get_command ulid (ed_store (record_result now' res e1)) = Some c \<and> cm_result_ok c = Some (cr_ok res)) \<and>
    get_command ulid (ed_store (fst (enqueue_mark now'' r True (record_result now' res e1)))) = Some (r\<lparr>cm_status := Sent\<rparr>) \<and>
    cm_result_ok r = None"
proof -
  have r: "cm_id r = ulid" "cm_result_ok r = None" "get_command ulid (ed_store e1) = Some r"
    using assms(1) by (cases "parse_command_type ctype";
        auto simp: enqueue_send_def Let_def channel_send_def split: option.splits)+
  from get_record_result [of res e1 r now'] r assms(2)
  have "get_command ulid (ed_store (record_result now' res e1)) = Some (complete_command now' res r)" by simp
  then show ?thesis using r by (simp add: enqueue_mark_def Let_def)
qed

theorem result_lost_witness:
  "\<exists>e1 r. enqueue_send 4 ''C'' ''A'' ''kill'' demo_params ''bob'' demo_edr = Inr (e1, r, True) \<and>
     get_command ''C'' (ed_store (fst (enqueue_mark 6 r True
       (record_result 5 \<lparr>cr_id = ''C'', cr_ok = True, cr_message = [], cr_payload = []\<rparr> e1)))) = Some (r\<lparr>cm_status := Sent\<rparr>)"
proof -
  obtain e1 r where s: "enqueue_send 4 ''C'' ''A'' ''kill'' demo_params ''bob'' demo_edr = Inr (e1, r, True)"
    using demo_send by blast
  from result_lost [OF this, of "\<lparr>cr_id = ''C'', cr_ok = True, cr_message = [], cr_payload = []\<rparr>" 5 6] s
  show ?thesis by auto
qed

text \<open>
  A result is accepted from any session: whichever agent's session it arrives on, it completes
  the command with the given id, also one that was issued to another agent or is already complete.
\<close>

theorem result_from_any_session:
  assumes "map_of (ed_sessions e) sid = Some ss" and "get_command (cr_id res) (ed_store e) = Some c" and "cm_id c = cr_id res"
  shows "\<exists>c'. get_command (cr_id res) (ed_store (session_message now sid (Result res) e)) = Some c' \<and>
    cm_agent c' = cm_agent c \<and> cm_status c' = (if cr_ok res then Completed else Failed) \<and>
    cm_result_message c' = Some (cr_message res)"
  using get_record_result [OF assms(2,3), of now] assms(1) by (simp add: session_message_def)

theorem result_from_any_session_witness:
  "\<exists>e c'. map_of (ed_sessions e) 0 = Some \<lparr>ss_agent = ''A'', ss_queue = []\<rparr> \<and>
     get_command ''C'' (ed_store (session_message 9 0 (Result \<lparr>cr_id = ''C'', cr_ok = True, cr_message = ''ok'', cr_payload = []\<rparr>) e)) = Some c' \<and>
     cm_agent c' = ''B'' \<and> cm_status c' = Completed"
proof -
  let ?c = "\<lparr>cm_id = ''C'', cm_agent = ''B'', cm_type = ''kill'', cm_params = demo_params, cm_status = Pending,
     cm_issued_by = [], cm_issued = 4, cm_result_ok = None, cm_result_message = None, cm_result_bytes = None, cm_completed = None\<rparr>"
  let ?e = "demo_edr\<lparr>ed_store := persist_command 4 ?c (ed_store demo_edr)\<rparr>"
  show ?thesis
    using result_from_any_session [of ?e 0 "\<lparr>ss_agent = ''A'', ss_queue = []\<rparr>" "\<lparr>cr_id = ''C'', cr_ok = True, cr_message = ''ok'', cr_payload = []\<rparr>" ?c 9]
    by (intro exI [of _ ?e]) (auto simp: demo_edr_state)
qed

end
