(* ===== verification/Edr_Telemetry.thy ===== *)
theory Edr_Telemetry
  imports Core_Event
begin

text \<open>
  The mapping of agent telemetry to events, \<open>crates/sigil-edr/src/map.rs\<close>. The protobuf messages
  of \<open>proto/sigil_edr.proto\<close> are records with proto3's defaults (an absent string is empty, an
  absent message is \<open>None\<close>); unsigned numbers are naturals, the event time is a 64-bit word that
  the code casts to \<open>i64\<close>. The encoder of the raw bytes is an argument, as are the fresh ULID
  and the clock. The \<open>extra\<close> map is a list of pairs in its iteration order.
\<close>

section \<open>Messages\<close>

datatype event_kind =
    UnspecifiedKind | ProcessStart | ProcessStop | FileCreate | FileModify | FileDelete
  | NetworkConnect | DnsQuery | ModuleLoad | RegistrySet | PersistenceAdd

record process_info =
  pr_pid :: nat
  pr_ppid :: nat
  pr_name :: string
  pr_path :: string
  pr_cmdline :: string
  pr_hash :: string
  pr_user :: string

record file_info =
  fi_path :: string
  fi_hash :: string
  fi_size :: nat
  fi_mode :: string

record network_info =
  ni_proto :: string
  ni_local_addr :: string
  ni_local_port :: nat
  ni_remote_addr :: string
  ni_remote_port :: nat
  ni_direction :: string

record dns_info =
  di_query :: string
  di_qtype :: string
  di_answers :: "string list"

record module_info =
  mi_path :: string
  mi_hash :: string

record registry_info =
  ri_key :: string
  ri_value_name :: string
  ri_value_data :: string

record persistence_info =
  pi_kind :: string
  pi_name :: string
  pi_target :: string

record endpoint_event =
  ee_ts :: u64
  ee_kind :: event_kind
  ee_process :: "process_info option"
  ee_parent :: "process_info option"
  ee_file :: "file_info option"
  ee_network :: "network_info option"
  ee_dns :: "dns_info option"
  ee_module :: "module_info option"
  ee_registry :: "registry_info option"
  ee_persistence :: "persistence_info option"
  ee_user :: string
  ee_extra :: "(string \<times> string) list"

section \<open>Mapping\<close>

fun class_for :: "event_kind \<Rightarrow> ocsf_class" where
  "class_for ProcessStart = ProcessActivity"
| "class_for ProcessStop = ProcessActivity"
| "class_for FileCreate = FileSystemActivity"
| "class_for FileModify = FileSystemActivity"
| "class_for FileDelete = FileSystemActivity"
| "class_for NetworkConnect = NetworkActivity"
| "class_for DnsQuery = DnsActivity"
| "class_for ModuleLoad = ModuleActivity"
| "class_for RegistrySet = RegistryKeyActivity"
| "class_for PersistenceAdd = ScheduledJobActivity"
| "class_for UnspecifiedKind = OtherClass 1008"

fun event_kind_name :: "event_kind \<Rightarrow> string" where
  "event_kind_name UnspecifiedKind = ''unspecified''"
| "event_kind_name ProcessStart = ''process_start''"
| "event_kind_name ProcessStop = ''process_stop''"
| "event_kind_name FileCreate = ''file_create''"
| "event_kind_name FileModify = ''file_modify''"
| "event_kind_name FileDelete = ''file_delete''"
| "event_kind_name NetworkConnect = ''network_connect''"
| "event_kind_name DnsQuery = ''dns_query''"
| "event_kind_name ModuleLoad = ''module_load''"
| "event_kind_name RegistrySet = ''registry_set''"
| "event_kind_name PersistenceAdd = ''persistence_add''"

definition put_str :: "string \<Rightarrow> string \<Rightarrow> field_map \<Rightarrow> field_map" where
  "put_str k v f = (if v \<noteq> [] then btree_insert k (JString v) f else f)"

definition put_num :: "string \<Rightarrow> nat \<Rightarrow> field_map \<Rightarrow> field_map" where
  "put_num k v f = (if 0 < v then btree_insert k (JNumber (PosInt v)) f else f)"

definition process_entity :: "string \<Rightarrow> process_info \<Rightarrow> entity_ref" where
  "process_entity agent p =
     \<lparr>er_kind = ''process'', er_id = agent @ '':'' @ show_nat (pr_pid p),
      er_name = (if pr_name p \<noteq> [] then Some (pr_name p) else None)\<rparr>"

definition put_process :: "string \<Rightarrow> process_info \<Rightarrow> field_map \<Rightarrow> field_map" where
  "put_process pre p f =
     put_num (pre @ ''.ppid'') (pr_ppid p) (put_num (pre @ ''.pid'') (pr_pid p)
       (put_str (pre @ ''.user'') (pr_user p) (put_str (pre @ ''.hash.sha256'') (pr_hash p)
         (put_str (pre @ ''.command_line'') (pr_cmdline p) (put_str (pre @ ''.executable'') (pr_path p)
           (put_str (pre @ ''.name'') (pr_name p) f))))))"

fun put_opt :: "('a \<Rightarrow> field_map \<Rightarrow> field_map) \<Rightarrow> 'a option \<Rightarrow> field_map \<Rightarrow> field_map" where
  "put_opt g None f = f"
| "put_opt g (Some x) f = g x f"

text \<open>The type-specific fields.\<close>

definition put_details :: "endpoint_event \<Rightarrow> field_map \<Rightarrow> field_map" where
  "put_details ee f =
     (case ee_kind ee of
        FileCreate \<Rightarrow> put_opt (\<lambda>x. put_num ''file.size'' (fi_size x) \<circ> put_str ''file.mode'' (fi_mode x) \<circ>
            put_str ''file.hash.sha256'' (fi_hash x) \<circ> put_str ''file.path'' (fi_path x)) (ee_file ee) f
      | FileModify \<Rightarrow> put_opt (\<lambda>x. put_num ''file.size'' (fi_size x) \<circ> put_str ''file.mode'' (fi_mode x) \<circ>
            put_str ''file.hash.sha256'' (fi_hash x) \<circ> put_str ''file.path'' (fi_path x)) (ee_file ee) f
      | FileDelete \<Rightarrow> put_opt (\<lambda>x. put_num ''file.size'' (fi_size x) \<circ> put_str ''file.mode'' (fi_mode x) \<circ>
            put_str ''file.hash.sha256'' (fi_hash x) \<circ> put_str ''file.path'' (fi_path x)) (ee_file ee) f
      | NetworkConnect \<Rightarrow> put_opt (\<lambda>n. put_num ''destination.port'' (ni_remote_port n) \<circ>
            put_num ''source.port'' (ni_local_port n) \<circ> put_str ''destination.ip'' (ni_remote_addr n) \<circ>
            put_str ''source.ip'' (ni_local_addr n) \<circ> put_str ''network.direction'' (ni_direction n) \<circ>
            put_str ''network.proto'' (ni_proto n)) (ee_network ee) f
      | DnsQuery \<Rightarrow> put_opt (\<lambda>d. (\<lambda>g. if di_answers d \<noteq> []
              then btree_insert ''dns.answers'' (JArray (map JString (di_answers d))) g else g) \<circ>
            put_str ''dns.question.type'' (di_qtype d) \<circ> put_str ''dns.question.name'' (di_query d)) (ee_dns ee) f
      | ModuleLoad \<Rightarrow> put_opt (\<lambda>m. put_str ''module.hash.sha256'' (mi_hash m) \<circ>
            put_str ''module.path'' (mi_path m)) (ee_module ee) f
      | RegistrySet \<Rightarrow> put_opt (\<lambda>r. put_str ''registry.value.data'' (ri_value_data r) \<circ>
            put_str ''registry.value.name'' (ri_value_name r) \<circ> put_str ''registry.key'' (ri_key r)) (ee_registry ee) f
      | PersistenceAdd \<Rightarrow> put_opt (\<lambda>p. put_str ''persistence.target'' (pi_target p) \<circ>
            put_str ''persistence.name'' (pi_name p) \<circ> put_str ''persistence.kind'' (pi_kind p)) (ee_persistence ee) f
      | _ \<Rightarrow> f)"

definition target_of :: "endpoint_event \<Rightarrow> entity_ref option" where
  "target_of ee =
     (let file = map_option (\<lambda>x. entity ''file'' (fi_path x)) (ee_file ee)
      in case ee_kind ee of
           FileCreate \<Rightarrow> file | FileModify \<Rightarrow> file | FileDelete \<Rightarrow> file
         | NetworkConnect \<Rightarrow> map_option (\<lambda>n. entity ''ip'' (ni_remote_addr n)) (ee_network ee)
         | DnsQuery \<Rightarrow> map_option (\<lambda>d. entity ''domain'' (di_query d)) (ee_dns ee)
         | ModuleLoad \<Rightarrow> map_option (\<lambda>m. entity ''file'' (mi_path m)) (ee_module ee)
         | RegistrySet \<Rightarrow> map_option (\<lambda>r. \<lparr>er_kind = ''registry'', er_id = ri_key r, er_name = Some (ri_value_name r)\<rparr>) (ee_registry ee)
         | PersistenceAdd \<Rightarrow> map_option (\<lambda>p. \<lparr>er_kind = ''file'', er_id = pi_target p, er_name = Some (pi_name p)\<rparr>) (ee_persistence ee)
         | _ \<Rightarrow> None)"

fun or_empty :: "('a \<Rightarrow> string) \<Rightarrow> 'a option \<Rightarrow> string" where
  "or_empty g None = []"
| "or_empty g (Some x) = g x"

definition summarize :: "string \<Rightarrow> endpoint_event \<Rightarrow> string" where
  "summarize hostname ee =
     (let proc = or_empty (\<lambda>p. if pr_cmdline p = [] then pr_name p else pr_cmdline p) (ee_process ee);
          file = hostname @ '': '' @ event_kind_name (ee_kind ee) @ '' '' @ or_empty fi_path (ee_file ee) @ '' by '' @ proc
      in case ee_kind ee of
           ProcessStart \<Rightarrow> hostname @ '': process start '' @ proc
         | ProcessStop \<Rightarrow> hostname @ '': process stop '' @ proc
         | FileCreate \<Rightarrow> file | FileModify \<Rightarrow> file | FileDelete \<Rightarrow> file
         | NetworkConnect \<Rightarrow> hostname @ '': connect '' @
             or_empty (\<lambda>n. ni_remote_addr n @ '':'' @ show_nat (ni_remote_port n)) (ee_network ee) @ '' by '' @ proc
         | DnsQuery \<Rightarrow> hostname @ '': dns '' @ or_empty di_query (ee_dns ee) @ '' by '' @ proc
         | ModuleLoad \<Rightarrow> hostname @ '': module load '' @ or_empty mi_path (ee_module ee) @ '' by '' @ proc
         | RegistrySet \<Rightarrow> hostname @ '': registry set '' @ or_empty ri_key (ee_registry ee) @ '' by '' @ proc
         | PersistenceAdd \<Rightarrow> hostname @ '': persistence add '' @
             or_empty (\<lambda>p. pi_kind p @ ''/'' @ pi_name p) (ee_persistence ee) @ '' by '' @ proc
         | UnspecifiedKind \<Rightarrow> hostname @ '': endpoint event'')"

text \<open>The fields before and after the agent's \<open>extra\<close> pairs.\<close>

definition base_fields :: "string \<Rightarrow> string \<Rightarrow> endpoint_event \<Rightarrow> field_map" where
  "base_fields agent hostname ee =
     put_details ee (put_opt (put_process ''parent'') (ee_parent ee)
       (put_opt (put_process ''process'') (ee_process ee)
         (put_str ''user.name'' (ee_user ee) (put_str ''event.kind'' (event_kind_name (ee_kind ee))
           (put_str ''host.name'' hostname (put_str ''agent.id'' agent []))))))"

definition event_fields :: "string \<Rightarrow> string \<Rightarrow> endpoint_event \<Rightarrow> field_map" where
  "event_fields agent hostname ee = fold (\<lambda>(k, v). put_str k v) (ee_extra ee) (base_fields agent hostname ee)"

definition to_event ::
  "(endpoint_event \<Rightarrow> string) \<Rightarrow> string \<Rightarrow> timestamp \<Rightarrow> string \<Rightarrow> string \<Rightarrow> string \<Rightarrow> endpoint_event \<Rightarrow> event" where
  "to_event encode ulid now agent hostname tenant ee =
     (new_event ulid now tenant)
       \<lparr>ev_ts := (if 0 < ee_ts ee then sint (ee_ts ee) else now),
        ev_ingest_ts := now,
        ev_class := class_for (ee_kind ee),
        ev_severity := Informational,
        ev_host := Some \<lparr>er_kind = ''host'', er_id = agent, er_name = Some hostname\<rparr>,
        ev_labels := [''edr'', ''agent:'' @ agent],
        ev_fields := event_fields agent hostname ee,
        ev_actor := map_option (process_entity agent) (ee_process ee),
        ev_target := target_of ee,
        ev_message := summarize hostname ee,
        ev_raw := encode ee\<rparr>"

section \<open>Origin and fields\<close>

text \<open>A field map that is ordered and holds no empty string.\<close>

definition fields_ok :: "field_map \<Rightarrow> bool" where
  "fields_ok f \<longleftrightarrow> btree_wf f \<and> (\<forall>k. map_of f k \<noteq> Some (JString []))"

lemma fields_ok_put [intro]:
  "fields_ok f \<Longrightarrow> fields_ok (put_str k v f)" "fields_ok f \<Longrightarrow> fields_ok (put_num k n f)"
  "fields_ok f \<Longrightarrow> fields_ok (btree_insert k (JArray vs) f)" "fields_ok []"
  by (auto simp: fields_ok_def put_str_def put_num_def map_of_btree_insert)

lemma fields_ok_put_opt: "(\<And>x f. fields_ok f \<Longrightarrow> fields_ok (g x f)) \<Longrightarrow> fields_ok f \<Longrightarrow> fields_ok (put_opt g x f)"
  by (cases x) auto

lemma fields_ok_process: "fields_ok f \<Longrightarrow> fields_ok (put_process pre p f)"
  unfolding put_process_def by (intro fields_ok_put)

lemma fields_ok_details: "fields_ok f \<Longrightarrow> fields_ok (put_details ee f)"
  unfolding put_details_def
  by (cases "ee_kind ee") (auto intro!: fields_ok_put_opt fields_ok_put)

lemma fields_ok_base: "fields_ok (base_fields agent hostname ee)"
  unfolding base_fields_def
  by (intro fields_ok_details fields_ok_put_opt fields_ok_process fields_ok_put)

lemma fields_ok_extra: "fields_ok f \<Longrightarrow> fields_ok (fold (\<lambda>(k, v). put_str k v) xs f)"
  by (induction xs arbitrary: f) auto

lemma map_of_put [simp]:
  "map_of (put_str k v f) x = (if x = k \<and> v \<noteq> [] then Some (JString v) else map_of f x)"
  "map_of (put_num k n f) x = (if x = k \<and> 0 < n then Some (JNumber (PosInt n)) else map_of f x)"
  by (auto simp: put_str_def put_num_def map_of_btree_insert)

lemma extra_lookup:
  "map_of (fold (\<lambda>(k, v). put_str k v) xs f) k =
     (case find (\<lambda>(k', v). k' = k \<and> v \<noteq> []) (rev xs) of Some p \<Rightarrow> Some (JString (snd p)) | None \<Rightarrow> map_of f k)"
proof (induction xs rule: rev_induct)
  case (snoc p xs)
  then show ?case by (cases p) auto
qed simp

lemma put_opt_keeps: "(\<And>x f. map_of (g x f) k = map_of f k) \<Longrightarrow> map_of (put_opt g x f) k = map_of f k"
  by (cases x) auto

lemma process_keeps_agent: "map_of (put_process ''process'' p f) ''agent.id'' = map_of f ''agent.id''"
  "map_of (put_process ''parent'' p f) ''agent.id'' = map_of f ''agent.id''"
  by (simp_all add: put_process_def)

lemma details_keep_agent: "map_of (put_details ee f) ''agent.id'' = map_of f ''agent.id''"
  unfolding put_details_def
  by (cases "ee_kind ee") (simp_all add: put_opt_keeps map_of_btree_insert)

lemma base_agent_id: "agent \<noteq> [] \<Longrightarrow> map_of (base_fields agent hostname ee) ''agent.id'' = Some (JString agent)"
  by (simp add: base_fields_def details_keep_agent put_opt_keeps process_keeps_agent)

text \<open>
  Events of an agent: the host entity and the label name the authenticated agent whatever the
  message says; the fields are ordered and hold no empty string; a field is the last non-empty
  \<open>extra\<close> value of that name if there is one, and otherwise the mapped one. In particular
  \<open>agent.id\<close> is the authenticated agent only if \<open>extra\<close> does not set it.
\<close>

theorem telemetry_origin:
  "let e = to_event encode ulid now agent hostname tenant ee;
       set_by_agent = (\<lambda>k. find (\<lambda>(k', v). k' = k \<and> v \<noteq> []) (rev (ee_extra ee)))
   in ev_host e = Some \<lparr>er_kind = ''host'', er_id = agent, er_name = Some hostname\<rparr> \<and>
      ''agent:'' @ agent \<in> set (ev_labels e) \<and> fields_ok (ev_fields e) \<and>
      map_of (ev_fields e) k = (case set_by_agent k of
          Some p \<Rightarrow> Some (JString (snd p)) | None \<Rightarrow> map_of (base_fields agent hostname ee) k) \<and>
      (agent = [] \<or> map_of (ev_fields e) ''agent.id'' = Some (JString
         (case set_by_agent ''agent.id'' of Some p \<Rightarrow> snd p | None \<Rightarrow> agent)))"
  using base_agent_id [of agent hostname ee]
  by (auto simp: to_event_def event_fields_def Let_def extra_lookup fields_ok_extra fields_ok_base split: option.splits)

end
