(* ===== verification/Api_Dsl.thy ===== *)
theory Api_Dsl
  imports Sigil_Prelude
begin

text \<open>
  The pipe query language of the API, \<open>crates/sigil-api/src/dsl.rs\<close>: its lowering to SQL. The
  strings are ASCII; \<open>is_f64\<close> is the grammar the standard library documents for \<open>parse::<f64>\<close>.
  The main result is that no query text reaches the SQL outside of string literals except as
  identifiers and numbers.
\<close>

section \<open>Fragments\<close>

record builder =
  bu_select :: "string list option"
  bu_aggregates :: "string list"
  bu_group_by :: "string list"
  bu_wheres :: "string list"
  bu_order_by :: "string option"
  bu_limit :: "nat option"

definition builder_default :: builder where
  "builder_default = \<lparr>bu_select = None, bu_aggregates = [], bu_group_by = [], bu_wheres = [],
     bu_order_by = None, bu_limit = None\<rparr>"

definition render :: "builder \<Rightarrow> string" where
  "render b =
     (let select = (if bu_aggregates b \<noteq> [] then join '', '' (bu_group_by b @ bu_aggregates b)
                    else case bu_select b of Some cols \<Rightarrow> join '', '' cols | None \<Rightarrow> ''*'')
      in ''SELECT '' @ select @ '' FROM events'' @
         (if bu_wheres b \<noteq> [] then '' WHERE '' @ join '' AND '' (bu_wheres b) else []) @
         (if bu_group_by b \<noteq> [] then '' GROUP BY '' @ join '', '' (bu_group_by b) else []) @
         (case bu_order_by b of Some ob \<Rightarrow> '' ORDER BY '' @ ob | None \<Rightarrow> []) @
         (case bu_limit b of Some n \<Rightarrow> '' LIMIT '' @ show_nat n | None \<Rightarrow> []))"

definition quote :: char where
  "quote = CHR 0x27"

definition escape :: "string \<Rightarrow> string" where
  "escape s = replace_char quote [quote, quote] s"

definition ident_char :: "char \<Rightarrow> bool" where
  "ident_char c \<longleftrightarrow> is_alnum c \<or> c = CHR ''_''"

definition ident :: "string \<Rightarrow> string result" where
  "ident s = (if s \<noteq> [] \<and> list_all ident_char s then Inr s
     else Inl (Parse (''invalid identifier `'' @ s @ ''`'')))"

definition unquote :: "string \<Rightarrow> string" where
  "unquote s0 =
     (let s = trim s0
      in if 2 \<le> length s \<and> ((hd s = quote \<and> last s = quote) \<or> (hd s = CHR 0x22 \<and> last s = CHR 0x22))
         then butlast (tl s) else s)"

fun strip_sign :: "string \<Rightarrow> string" where
  "strip_sign (c # s) = (if c = CHR ''+'' \<or> c = CHR ''-'' then s else c # s)"
| "strip_sign [] = []"

definition exp_mark :: "char \<Rightarrow> bool" where
  "exp_mark c \<longleftrightarrow> c = CHR ''e'' \<or> c = CHR ''E''"

definition is_mantissa :: "string \<Rightarrow> bool" where
  "is_mantissa s \<longleftrightarrow> list_all (\<lambda>c. is_digit c \<or> c = CHR ''.'') s \<and> list_ex is_digit s \<and>
     length (filter (\<lambda>c. c = CHR ''.'') s) \<le> 1"

definition is_number :: "string \<Rightarrow> bool" where
  "is_number s \<longleftrightarrow>
     is_mantissa (takeWhile (\<lambda>c. \<not> exp_mark c) s) \<and>
     (case dropWhile (\<lambda>c. \<not> exp_mark c) s of
        [] \<Rightarrow> True
      | _ # r \<Rightarrow> strip_sign r \<noteq> [] \<and> list_all is_digit (strip_sign r))"

definition is_f64 :: "string \<Rightarrow> bool" where
  "is_f64 s \<longleftrightarrow>
     to_lowercase (strip_sign s) \<in> {''inf'', ''infinity'', ''nan''} \<or> is_number (strip_sign s)"

definition literal :: "string \<Rightarrow> string" where
  "literal value = (let v = unquote value in if is_f64 v then v else [quote] @ escape v @ [quote])"

section \<open>Stages\<close>

definition ilike :: "string \<Rightarrow> string \<Rightarrow> string" where
  "ilike col v = col @ '' ILIKE '' @ [quote] @ ''%'' @ escape v @ ''%'' @ [quote]"

definition sql_op :: "string \<Rightarrow> string option" where
  "sql_op p =
     (if p = ''='' \<or> p = ''=='' then Some ''='' else if p = ''!='' \<or> p = ''<>'' then Some ''!=''
      else if p \<in> {''>'', ''<'', ''>='', ''<=''} then Some p else None)"

definition parse_where :: "string \<Rightarrow> string result" where
  "parse_where rest =
     (case split_whitespace rest of
        c # p # v # vs \<Rightarrow>
          and_then (ident c) (\<lambda>col.
            let value = join '' '' (v # vs)
            in case sql_op p of
                 Some q \<Rightarrow> Inr (col @ '' '' @ q @ '' '' @ literal value)
               | None \<Rightarrow> if p = ''contains'' then Inr (ilike col (unquote value))
                          else Inl (Parse (''unknown operator `'' @ p @ ''` in `where`'')))
      | _ \<Rightarrow> Inl (Parse (''`where` expects `<col> <op> <value>`, got `'' @ rest @ ''`'')))"

definition idents :: "string \<Rightarrow> string list result" where
  "idents s = collect_results (\<lambda>x. ident (trim x)) (split_char CHR '','' s)"

text \<open>The alias and the grouping part of \<open>stats\<close>, after \<open>count()\<close>.\<close>

definition stats_parts :: "string \<Rightarrow> (string \<times> string) result" where
  "stats_parts after =
     (case (case strip_prefix ''as '' after of Some r \<Rightarrow> Some r | None \<Rightarrow> strip_prefix ''AS '' after) of
        Some r \<Rightarrow>
          (let (a, by_part) = (case split_once '' by '' r of Some p \<Rightarrow> p | None \<Rightarrow> (r, []))
           in and_then (ident (trim a)) (\<lambda>alias. Inr (alias, trim by_part)))
      | None \<Rightarrow>
          (case find_str ''by '' after of
             Some i \<Rightarrow> Inr (''count'', trim (drop (i + 3) after))
           | None \<Rightarrow> Inr (''count'', [])))"

definition parse_stats :: "string \<Rightarrow> builder \<Rightarrow> builder result" where
  "parse_stats rest b =
     (if \<not> prefix ''count()'' (trim_start (to_lowercase rest)) then
        Inl (Parse (''only `count()` is supported in `stats`, got `'' @ rest @ ''`''))
      else and_then (stats_parts (trim (drop 7 (trim_start rest)))) (\<lambda>(alias, by_part).
        let b' = b\<lparr>bu_aggregates := bu_aggregates b @ [''count(*) AS '' @ alias]\<rparr>
        in if by_part = [] then Inr b'
           else and_then (idents by_part) (\<lambda>cols. Inr (b'\<lparr>bu_group_by := cols\<rparr>))))"

definition parse_sort :: "string \<Rightarrow> string result" where
  "parse_sort rest =
     (let ws = split_whitespace rest
      in and_then (ident (case ws of c # _ \<Rightarrow> c | [] \<Rightarrow> [])) (\<lambda>col.
           Inr (col @ (case ws of _ # d # _ \<Rightarrow> if to_lowercase d = ''desc'' then '' DESC'' else [] | _ \<Rightarrow> []))))"

definition split_first :: "string \<Rightarrow> string \<times> string" where
  "split_first s = (takeWhile (\<lambda>c. \<not> is_space c) s, trim_start (dropWhile (\<lambda>c. \<not> is_space c) s))"

definition lower_stage :: "string \<Rightarrow> builder \<Rightarrow> builder result" where
  "lower_stage raw b =
     (let stage = trim raw
      in if stage = [] then Inr b
         else let (cmd, rest) = split_first stage; k = to_lowercase cmd
              in if k = ''search'' then
                   (let t = trim rest
                    in Inr (if t \<noteq> [] then b\<lparr>bu_wheres := bu_wheres b @ [ilike ''message'' t]\<rparr> else b))
                 else if k = ''where'' then
                   and_then (parse_where rest) (\<lambda>w. Inr (b\<lparr>bu_wheres := bu_wheres b @ [w]\<rparr>))
                 else if k = ''stats'' then parse_stats rest b
                 else if k = ''fields'' then and_then (idents rest) (\<lambda>cols. Inr (b\<lparr>bu_select := Some cols\<rparr>))
                 else if k = ''sort'' then and_then (parse_sort rest) (\<lambda>ob. Inr (b\<lparr>bu_order_by := Some ob\<rparr>))
                 else if k = ''head'' \<or> k = ''limit'' then
                   (case parse_unsigned usize_max (trim rest) of
                      Some n \<Rightarrow> Inr (b\<lparr>bu_limit := Some n\<rparr>)
                    | None \<Rightarrow> Inl (Parse (''`'' @ cmd @ ''` expects a number, got `'' @ trim rest @ ''`'')))
                 else Inl (Parse (''unknown DSL command `'' @ k @ ''`'')))"

fun lower_stages :: "string list \<Rightarrow> builder \<Rightarrow> builder result" where
  "lower_stages [] b = Inr b"
| "lower_stages (s # ss) b = and_then (lower_stage s b) (lower_stages ss)"

definition lower :: "string \<Rightarrow> string result" where
  "lower dsl = and_then (lower_stages (split_char CHR ''|'' dsl) builder_default) (\<lambda>b. Inr (render b))"

section \<open>A scanner for SQL text\<close>

text \<open>
  \<open>Quoted\<close>: inside a string literal (a doubled quote leaves and re-enters it). Outside, only
  letters, digits and the punctuation of the generated statements may occur: no statement
  separator, no quoted identifier, and no comment, neither \<open>--\<close> nor \<open>/*\<close>.
\<close>

datatype scan_state = Plain | Dash | Quoted

definition safe_char :: "char \<Rightarrow> bool" where
  "safe_char c \<longleftrightarrow> ident_char c \<or> c \<in> set '' ,.*()=!<>+''"

fun sql_scan :: "scan_state \<Rightarrow> string \<Rightarrow> scan_state option" where
  "sql_scan st [] = Some st"
| "sql_scan Quoted (c # s) = sql_scan (if c = quote then Plain else Quoted) s"
| "sql_scan Plain (c # s) =
     (if c = quote then sql_scan Quoted s else if c = CHR ''-'' then sql_scan Dash s
      else if safe_char c then sql_scan Plain s else None)"
| "sql_scan Dash (c # s) =
     (if c = quote then sql_scan Quoted s else if safe_char c then sql_scan Plain s else None)"

definition fragment :: "string \<Rightarrow> bool" where
  "fragment s \<longleftrightarrow> sql_scan Plain s = Some Plain"

lemma sql_scan_append:
  "sql_scan st (s @ t) = (case sql_scan st s of Some st' \<Rightarrow> sql_scan st' t | None \<Rightarrow> None)"
  by (induction st s rule: sql_scan.induct) auto

lemma fragment_append: "fragment s \<Longrightarrow> fragment t \<Longrightarrow> fragment (s @ t)"
  by (simp add: fragment_def sql_scan_append)

lemma fragment_Nil [simp]: "fragment []"
  by (simp add: fragment_def)

lemma fragment_join: "fragment d \<Longrightarrow> list_all fragment ws \<Longrightarrow> fragment (join d ws)"
  by (induction d ws rule: join.induct) (auto intro!: fragment_append)

lemma ident_char_plain: "ident_char c \<Longrightarrow> safe_char c \<and> c \<noteq> quote \<and> c \<noteq> CHR ''-''"
  by (auto simp: safe_char_def ident_char_def is_alnum_def quote_def)

lemma fragment_idents: "list_all ident_char s \<Longrightarrow> fragment s"
  unfolding fragment_def by (induction s) (auto dest: ident_char_plain)

lemma fragment_ident: "ident s = Inr t \<Longrightarrow> fragment t"
  by (auto simp: ident_def fragment_idents split: if_splits)

lemma fragment_digits: "list_all is_digit s \<Longrightarrow> fragment s"
  by (rule fragment_idents, induction s) (auto simp: ident_char_def is_alnum_def is_digit_def Let_def)

lemma scan_escape: "sql_scan Quoted (escape s) = Some Quoted"
  unfolding escape_def replace_char_def by (induction s) auto

lemma fragment_string: "fragment ([quote] @ escape v @ [quote])"
  by (simp add: fragment_def sql_scan_append scan_escape)

lemma fragment_ilike: "fragment col \<Longrightarrow> fragment (ilike col v)"
  unfolding ilike_def
  by (rule fragment_append)
    (simp_all add: fragment_def sql_scan_append scan_escape safe_char_def ident_char_def is_alnum_def quote_def)

section \<open>Numbers are harmless\<close>

lemma scan_dash:
  "fragment s \<Longrightarrow> s \<noteq> [] \<Longrightarrow> hd s \<noteq> CHR ''-'' \<Longrightarrow> sql_scan Dash s = Some Plain"
  by (cases s) (auto simp: fragment_def split: if_splits)

lemma fragment_signed:
  assumes "fragment (strip_sign s)" and "strip_sign s \<noteq> []" and "hd (strip_sign s) \<noteq> CHR ''-''"
  shows "fragment s"
proof (cases s)
  case (Cons c r)
  then show ?thesis
    using assms scan_dash [of r]
    by (auto simp: fragment_def safe_char_def quote_def split: if_splits)
qed simp

lemma digit_ident: "is_digit c \<Longrightarrow> ident_char c"
  by (auto simp: is_digit_def ident_char_def is_alnum_def Let_def)

lemma fragment_mantissa: "list_all (\<lambda>c. is_digit c \<or> c = CHR ''.'') s \<Longrightarrow> fragment s"
proof (induction s)
  case (Cons c s)
  then have "fragment [c]"
    by (auto simp: fragment_def safe_char_def quote_def dest: digit_ident dest!: ident_char_plain)
  with Cons fragment_append [of "[c]" s] show ?case by simp
qed simp

lemma exp_mark_ident: "exp_mark c \<Longrightarrow> ident_char c"
  by (auto simp: exp_mark_def ident_char_def is_alnum_def)

lemma fragment_number:
  assumes "is_number s"
  shows "fragment s \<and> s \<noteq> [] \<and> hd s \<noteq> CHR ''-''"
proof -
  let ?m = "takeWhile (\<lambda>c. \<not> exp_mark c) s" and ?e = "dropWhile (\<lambda>c. \<not> exp_mark c) s"
  have m: "list_all (\<lambda>c. is_digit c \<or> c = CHR ''.'') ?m" "list_ex is_digit ?m"
    using assms by (auto simp: is_number_def is_mantissa_def)
  have "fragment ?e"
  proof (cases ?e)
    case (Cons x r)
    then have x: "exp_mark x" using hd_dropWhile [of "\<lambda>c. \<not> exp_mark c" s] by simp
    have r: "strip_sign r \<noteq> []" "list_all is_digit (strip_sign r)" using assms Cons by (auto simp: is_number_def)
    then have "is_digit (hd (strip_sign r))" by (cases "strip_sign r") auto
    then have "hd (strip_sign r) \<noteq> CHR ''-''" by (auto simp: is_digit_def)
    then have "fragment r" by (rule fragment_signed [OF fragment_digits [OF r(2)] r(1)])
    moreover have "fragment [x]" using exp_mark_ident [OF x] by (intro fragment_idents) simp
    ultimately show ?thesis using Cons fragment_append [of "[x]" r] by simp
  next
    case Nil
    then show ?thesis by (simp only: fragment_Nil)
  qed
  from fragment_append [OF fragment_mantissa [OF m(1)] this] have "fragment s" by simp
  moreover obtain c u where "?m = c # u" using m(2) by (cases ?m) auto
  moreover from this have "s = c # (u @ ?e)" using takeWhile_dropWhile_id [of "\<lambda>c. \<not> exp_mark c" s] by simp
  moreover have "c \<noteq> CHR ''-''" using m(1) calculation(2) by (auto simp: is_digit_def)
  ultimately show ?thesis by (metis list.distinct(1) list.sel(1))
qed

lemma lower_alnum: "is_alnum (lower_char c) \<Longrightarrow> is_alnum c"
  by (auto simp: is_alnum_def lower_char_def Let_def split: if_splits)

lemma fragment_f64:
  assumes "is_f64 s"
  shows "fragment s"
proof -
  have "fragment (strip_sign s) \<and> strip_sign s \<noteq> [] \<and> hd (strip_sign s) \<noteq> CHR ''-''"
  proof (cases "is_number (strip_sign s)")
    case True
    then show ?thesis by (rule fragment_number)
  next
    case False
    let ?b = "strip_sign s"
    from False assms have w: "to_lowercase ?b \<in> {''inf'', ''infinity'', ''nan''}" by (simp add: is_f64_def)
    then have "list_all is_alnum (to_lowercase ?b)" by (auto simp: is_alnum_def)
    then have a: "list_all is_alnum ?b"
      unfolding to_lowercase_def by (simp add: list_all_iff) (metis lower_alnum)
    moreover have "?b \<noteq> []" using w by (auto simp: to_lowercase_def)
    ultimately show ?thesis
      by (cases ?b) (auto simp: list_all_iff ident_char_def is_alnum_def intro!: fragment_idents)
  qed
  then show ?thesis by (blast intro: fragment_signed)
qed

lemma fragment_literal: "fragment (literal v)"
  using fragment_string [of "unquote v"] by (simp add: literal_def Let_def fragment_f64)

section \<open>Stages only add fragments\<close>

definition builder_ok :: "builder \<Rightarrow> bool" where
  "builder_ok b \<longleftrightarrow> (\<forall>cols. bu_select b = Some cols \<longrightarrow> list_all fragment cols) \<and>
     list_all fragment (bu_aggregates b) \<and> list_all fragment (bu_group_by b) \<and>
     list_all fragment (bu_wheres b) \<and> (\<forall>ob. bu_order_by b = Some ob \<longrightarrow> fragment ob)"

lemma plain_text: "list_all safe_char s \<Longrightarrow> fragment s"
proof (induction s)
  case (Cons c s)
  then have "c \<noteq> quote \<and> c \<noteq> CHR ''-''"
    by (auto simp: safe_char_def quote_def ident_char_def is_alnum_def)
  with Cons show ?case by (simp add: fragment_def)
qed simp

lemmas safe_eval = safe_char_def ident_char_def is_alnum_def Let_def

lemma fragment_where: "parse_where rest = Inr w \<Longrightarrow> fragment w"
proof -
  assume w: "parse_where rest = Inr w"
  then obtain c p v vs col where ws: "split_whitespace rest = c # p # v # vs" and col: "ident c = Inr col"
    by (auto simp: parse_where_def and_then_Inr_iff split: list.splits)
  have q: "fragment ('' '' @ q @ '' '')" if "sql_op p = Some q" for q
    using that by (intro plain_text) (auto simp: sql_op_def safe_eval split: if_splits)
  from w ws col show ?thesis
  proof (cases "sql_op p")
    case None
    with w ws col show ?thesis
      by (auto simp: parse_where_def split: if_splits intro!: fragment_ilike fragment_ident [OF col])
  next
    case (Some q')
    then have "w = col @ ('' '' @ q' @ '' '') @ literal (join '' '' (v # vs))"
      using w ws col by (simp add: parse_where_def Let_def)
    then show ?thesis using q [OF Some] fragment_ident [OF col] fragment_literal by (simp only: fragment_append)
  qed
qed

lemma fragment_idents_list: "idents s = Inr cols \<Longrightarrow> list_all fragment cols"
proof -
  assume "idents s = Inr cols"
  then have "list_all2 (\<lambda>x y. ident (trim x) = Inr y) (split_char CHR '','' s) cols"
    by (simp add: idents_def collect_results_Inr_iff)
  then show ?thesis by (induction rule: list_all2_induct) (auto dest: fragment_ident)
qed

lemma fragment_alias: "stats_parts a = Inr (alias, g) \<Longrightarrow> fragment alias"
proof -
  have "fragment ''count''" by (rule plain_text) (simp add: safe_eval)
  then show "stats_parts a = Inr (alias, g) \<Longrightarrow> fragment alias"
    by (auto simp: stats_parts_def and_then_Inr_iff Let_def split: option.splits prod.splits intro: fragment_ident)
qed

lemma builder_ok_stats:
  assumes "parse_stats rest b = Inr b'" and "builder_ok b"
  shows "builder_ok b'"
proof -
  have "fragment ''count(*) AS ''" by (rule plain_text) (simp add: safe_eval)
  then have agg: "fragment (''count(*) AS '' @ a)" if "stats_parts x = Inr (a, g)" for x a g
    using fragment_alias [OF that] by (rule fragment_append)
  show ?thesis
    using assms fragment_idents_list
    by (auto simp: parse_stats_def and_then_Inr_iff Let_def builder_ok_def agg [simplified] split: if_splits prod.splits)
qed

lemma fragment_sort:
  assumes "parse_sort rest = Inr ob"
  shows "fragment ob"
proof -
  obtain col t where col: "ident (case split_whitespace rest of c # _ \<Rightarrow> c | [] \<Rightarrow> []) = Inr col" and ob: "ob = col @ t"
    and t: "t = '' DESC'' \<or> t = []"
    using assms by (auto simp: parse_sort_def Let_def and_then_Inr_iff split: list.splits if_splits)
  have "fragment t" using t by (auto intro!: plain_text simp: safe_eval)
  then show ?thesis unfolding ob by (rule fragment_append [OF fragment_ident [OF col]])
qed

lemma builder_ok_stage:
  assumes "lower_stage raw b = Inr b'" and "builder_ok b"
  shows "builder_ok b'"
proof -
  have "fragment ''message''" by (rule plain_text) (simp add: safe_eval)
  with assms show ?thesis
    by (auto simp: lower_stage_def Let_def and_then_Inr_iff builder_ok_stats case_prod_beta split: if_splits option.splits
        dest!: fragment_where fragment_idents_list fragment_sort) (auto simp: builder_ok_def fragment_ilike)
qed

lemma builder_ok_stages: "lower_stages ss b = Inr b' \<Longrightarrow> builder_ok b \<Longrightarrow> builder_ok b'"
  by (induction ss arbitrary: b) (auto simp: and_then_Inr_iff dest: builder_ok_stage)

lemma fragment_if: "fragment a \<Longrightarrow> fragment b \<Longrightarrow> fragment (if c then a else b)"
  by simp

lemma fragment_case:
  "(\<And>x. v = Some x \<Longrightarrow> fragment (f x)) \<Longrightarrow> fragment z \<Longrightarrow> fragment (case v of Some x \<Rightarrow> f x | None \<Rightarrow> z)"
  by (cases v) auto

lemma fragment_render:
  assumes "builder_ok b"
  shows "fragment (render b)"
proof -
  have clauses: "fragment ''SELECT ''" "fragment '' FROM events''" "fragment '' WHERE ''" "fragment '' AND ''"
    "fragment '' GROUP BY ''" "fragment '' ORDER BY ''" "fragment '' LIMIT ''" "fragment '', ''" "fragment ''*''"
    by (rule plain_text; simp add: safe_eval)+
  show ?thesis
    unfolding render_def Let_def
    by (intro fragment_append fragment_if fragment_case fragment_join clauses fragment_Nil
        fragment_digits [OF show_nat_digits]) (use assms in \<open>auto simp: builder_ok_def\<close>)
qed

text \<open>
  C7: Queries cannot inject SQL: whatever the query text, in the statement it is lowered to every
  string literal is closed, and outside of literals there are only letters, digits, underscores
  and the punctuation of the generated clauses; there is no way to a second statement, a quoted
  identifier or a comment.
\<close>

theorem lower_injection_safe:
  assumes "lower dsl = Inr sql"
  shows "sql_scan Plain sql = Some Plain"
proof -
  obtain b where b: "lower_stages (split_char CHR ''|'' dsl) builder_default = Inr b" "sql = render b"
    using assms by (auto simp: lower_def and_then_Inr_iff)
  have "builder_ok builder_default" by (simp add: builder_ok_def builder_default_def)
  from fragment_render [OF builder_ok_stages [OF b(1) this]] show ?thesis by (simp add: b(2) fragment_def)
qed

lemma demo_lower: "lower ''fields host | head 5'' = Inr ''SELECT host FROM events LIMIT 5''"
  by (simp add: lower_def lower_stage_def split_first_def builder_default_def idents_def ident_def ident_char_def
      usize_max_def render_def show_nat_def show_nat_acc.simps string_eval)

theorem lower_injection_safe_witness:
  "lower ''fields host | head 5'' = Inr ''SELECT host FROM events LIMIT 5'' \<and>
   sql_scan Plain ''SELECT host FROM events LIMIT 5'' = Some Plain"
  using lower_injection_safe [OF demo_lower] demo_lower by blast

text \<open>Reading the rest of a string literal after its opening quote.\<close>

fun sql_content :: "string \<Rightarrow> string option" where
  "sql_content (c # d # s) =
     (if c = quote \<and> d = quote then map_option (Cons quote) (sql_content s)
      else if c = quote then None else map_option (Cons c) (sql_content (d # s)))"
| "sql_content [c] = (if c = quote then Some [] else None)"
| "sql_content [] = None"

lemma sql_content_char: "c \<noteq> quote \<Longrightarrow> t \<noteq> [] \<Longrightarrow> sql_content (c # t) = map_option (Cons c) (sql_content t)"
  by (cases t) auto

lemma sql_content_escape: "sql_content (escape v @ [quote]) = Some v"
proof (induction v)
  case Nil
  then show ?case by (simp add: escape_def replace_char_def)
next
  case (Cons c v)
  then show ?case
    by (cases "c = quote") (simp_all add: escape_def replace_char_def sql_content_char)
qed

text \<open>
  A text value keeps its meaning: unless it is read as a number, the literal in the statement is
  a string literal whose content, with doubled quotes undone, is the value. The words \<open>nan\<close>,
  \<open>inf\<close> and \<open>infinity\<close> count as numbers and are rendered bare, which in SQL names a column.
\<close>

theorem literal_meaning:
  "(is_f64 (unquote v) \<and> literal v = unquote v \<or>
    (\<exists>b. literal v = quote # b \<and> sql_content b = Some (unquote v))) \<and>
   literal ''nan'' = ''nan'' \<and> literal ''Infinity'' = ''Infinity''"
proof (intro conjI)
  show "is_f64 (unquote v) \<and> literal v = unquote v \<or> (\<exists>b. literal v = quote # b \<and> sql_content b = Some (unquote v))"
    by (simp add: literal_def Let_def sql_content_escape)
  show "literal ''nan'' = ''nan''" "literal ''Infinity'' = ''Infinity''"
    by (simp_all add: literal_def unquote_def is_f64_def quote_def string_eval)
qed

end
