(* ===== verification/Api_Auth.thy ===== *)
theory Api_Auth
  imports Sigil_Prelude
begin

unbundle bit_operations_syntax

text \<open>
  Authentication and role-based access of the API, \<open>crates/sigil-api/src/auth.rs\<close>. Argon2
  verification and the JWT codec are arguments: \<open>verify_phc\<close> for a password against a PHC string,
  \<open>jwt_encode\<close> and \<open>jwt_decode\<close> for signing and for validating a token at a time, both with the
  secret. Random secrets are arguments. A request is its \<open>Authorization\<close> header, if it is text,
  and its query string.
\<close>

section \<open>Roles\<close>

datatype access_role = Viewer | Analyst | Admin

fun privilege :: "access_role \<Rightarrow> nat" where
  "privilege Viewer = 0" | "privilege Analyst = 1" | "privilege Admin = 2"

instantiation access_role :: linorder
begin

definition less_eq_access_role :: "access_role \<Rightarrow> access_role \<Rightarrow> bool" where
  "less_eq_access_role a b \<longleftrightarrow> privilege a \<le> privilege b"

definition less_access_role :: "access_role \<Rightarrow> access_role \<Rightarrow> bool" where
  "less_access_role a b \<longleftrightarrow> privilege a < privilege b"

instance
proof
  fix x y :: access_role
  show "x \<le> y \<Longrightarrow> y \<le> x \<Longrightarrow> x = y"
    by (cases x; cases y) (simp_all add: less_eq_access_role_def)
qed (auto simp: less_eq_access_role_def less_access_role_def)

end

definition access_parse :: "string \<Rightarrow> access_role option" where
  "access_parse s =
     (let k = to_lowercase s
      in if k = ''viewer'' then Some Viewer else if k = ''analyst'' then Some Analyst
         else if k = ''admin'' then Some Admin else None)"

fun access_as_str :: "access_role \<Rightarrow> string" where
  "access_as_str Viewer = ''viewer''"
| "access_as_str Analyst = ''analyst''"
| "access_as_str Admin = ''admin''"

record auth_user =
  au_name :: string
  au_roles :: "access_role list"

definition has :: "auth_user \<Rightarrow> access_role \<Rightarrow> bool" where
  "has u r = list_ex (\<lambda>x. r \<le> x) (au_roles u)"

definition system_user :: auth_user where
  "system_user = \<lparr>au_name = ''system'', au_roles = [Admin]\<rparr>"

section \<open>Credentials and tokens\<close>

record claims =
  jc_sub :: string
  jc_roles :: "string list"
  jc_exp :: nat

record user_cred =
  uc_hash :: "string option"
  uc_password :: "string option"
  uc_roles :: "access_role list"

record user_config =
  cu_name :: string
  cu_hash :: "string option"
  cu_password :: "string option"
  cu_roles :: "string list"

record auth_config =
  ac_enabled :: bool
  ac_secret :: string
  ac_ttl :: nat
  ac_users :: "user_config list"

record auth_env =
  verify_phc :: "string \<Rightarrow> string \<Rightarrow> bool"
  jwt_encode :: "string \<Rightarrow> claims \<Rightarrow> string option"
  jwt_decode :: "string \<Rightarrow> nat \<Rightarrow> string \<Rightarrow> claims option"

record auth_state =
  as_enabled :: bool
  as_secret :: string
  as_ttl :: nat
  as_users :: "(string \<times> user_cred) list"

definition from_config :: "string \<Rightarrow> auth_config \<Rightarrow> auth_state" where
  "from_config random cfg =
     \<lparr>as_enabled = ac_enabled cfg,
      as_secret = (if trim (ac_secret cfg) = [] then random else ac_secret cfg),
      as_ttl = ac_ttl cfg,
      as_users = fold (\<lambda>u. hash_insert (cu_name u)
        \<lparr>uc_hash = cu_hash u, uc_password = cu_password u, uc_roles = List.map_filter access_parse (cu_roles u)\<rparr>)
        (ac_users cfg) []\<rparr>"

definition byte :: "char \<Rightarrow> u8" where
  "byte c = of_nat (of_char c)"

definition constant_time_eq :: "u8 list \<Rightarrow> u8 list \<Rightarrow> bool" where
  "constant_time_eq a b =
     (if length a \<noteq> length b then False
      else foldl (\<lambda>diff (x, y). diff OR (x XOR y)) 0 (zip a b) = 0)"

definition authenticate :: "auth_env \<Rightarrow> auth_state \<Rightarrow> string \<Rightarrow> string \<Rightarrow> auth_user option" where
  "authenticate E a username password =
     (case map_of (as_users a) username of
        None \<Rightarrow> None
      | Some cred \<Rightarrow>
          (let ok = (case uc_hash cred of
                       Some h \<Rightarrow> verify_phc E password h
                     | None \<Rightarrow> (case uc_password cred of
                         Some plain \<Rightarrow> constant_time_eq (map byte password) (map byte plain)
                       | None \<Rightarrow> False))
           in if ok then Some \<lparr>au_name = username, au_roles = uc_roles cred\<rparr> else None))"

definition issue :: "auth_env \<Rightarrow> auth_state \<Rightarrow> nat \<Rightarrow> auth_user \<Rightarrow> string option" where
  "issue E a now u =
     jwt_encode E (as_secret a)
       \<lparr>jc_sub = au_name u, jc_roles = map access_as_str (au_roles u), jc_exp = (now + as_ttl a) mod 2 ^ 64\<rparr>"

definition verify :: "auth_env \<Rightarrow> auth_state \<Rightarrow> nat \<Rightarrow> string \<Rightarrow> auth_user option" where
  "verify E a now token =
     map_option (\<lambda>c. \<lparr>au_name = jc_sub c, au_roles = List.map_filter access_parse (jc_roles c)\<rparr>)
       (jwt_decode E (as_secret a) now token)"

section \<open>Requests\<close>

record request =
  rq_authorization :: "string option"
  rq_query :: "string option"

definition bearer :: "request \<Rightarrow> string option" where
  "bearer r = (case rq_authorization r of None \<Rightarrow> None
     | Some h \<Rightarrow> map_option trim (strip_prefix ''Bearer '' h))"

fun query_token :: "string list \<Rightarrow> string option" where
  "query_token [] = None"
| "query_token (p # ps) = (case strip_prefix ''token='' p of Some v \<Rightarrow> Some v | None \<Rightarrow> query_token ps)"

definition extract_token :: "request \<Rightarrow> string option" where
  "extract_token r =
     (case bearer r of
        Some t \<Rightarrow> Some t
      | None \<Rightarrow> (case rq_query r of None \<Rightarrow> None | Some q \<Rightarrow> query_token (split_char CHR ''&'' q)))"

datatype http_error = Unauthorized | Forbidden string

text \<open>The user the middleware injects, or the response that ends the request.\<close>

definition require_auth :: "auth_env \<Rightarrow> auth_state \<Rightarrow> nat \<Rightarrow> request \<Rightarrow> http_error + auth_user" where
  "require_auth E a now r =
     (if \<not> as_enabled a then Inr system_user
      else case (case extract_token r of None \<Rightarrow> None | Some t \<Rightarrow> verify E a now t) of
        Some u \<Rightarrow> Inr u
      | None \<Rightarrow> Inl Unauthorized)"

definition require_role :: "auth_user \<Rightarrow> access_role \<Rightarrow> http_error + unit" where
  "require_role u r =
     (if has u r then Inr () else Inl (Forbidden (''requires `'' @ access_as_str r @ ''` role'')))"

section \<open>Comparison of secrets\<close>

lemma xor_eq_zero: "x XOR y = (0 :: u8) \<longleftrightarrow> x = y"
proof
  assume "x XOR y = 0"
  then have "(x XOR y) XOR y = y" by simp
  then show "x = y" by (simp add: xor.assoc)
qed simp

lemma fold_or_zero:
  "foldl (\<lambda>diff (x, y). diff OR (x XOR y)) d ps = (0 :: u8) \<longleftrightarrow> d = 0 \<and> (\<forall>(x, y) \<in> set ps. x = y)"
  by (induction ps arbitrary: d) (auto simp: or_eq_0_iff xor_eq_zero)

lemma constant_time_eq_iff: "constant_time_eq a b \<longleftrightarrow> a = b"
proof
  assume "constant_time_eq a b"
  then have len: "length a = length b" and eq: "\<forall>(x, y) \<in> set (zip a b). x = y"
    by (auto simp: constant_time_eq_def fold_or_zero split: if_splits)
  from len eq show "a = b" by (induction rule: list_induct2) auto
next
  assume "a = b"
  moreover have "\<forall>(x, y) \<in> set (zip b b). x = y" by (induction b) auto
  ultimately show "constant_time_eq a b" by (simp add: constant_time_eq_def fold_or_zero)
qed

lemma byte_inj: "inj byte"
proof (rule injI)
  fix c d assume "byte c = byte d"
  then have "(of_char c :: nat) mod 256 = of_char d mod 256"
    by (simp add: byte_def of_nat_eq_iff unat_of_nat word_of_nat_eq_iff take_bit_eq_mod)
  then show "c = d" by simp
qed

text \<open>
  Login decides as documented: with a stored hash the verifier decides, otherwise the password
  must be exactly the configured one (the constant-time comparison is equality of the bytes), and
  an account with neither cannot log in; the roles are the account's.
\<close>

theorem authenticate_spec:
  "authenticate E a name pw =
     (case map_of (as_users a) name of
        None \<Rightarrow> None
      | Some c \<Rightarrow>
          if (case uc_hash c of Some h \<Rightarrow> verify_phc E pw h | None \<Rightarrow> uc_password c = Some pw)
          then Some \<lparr>au_name = name, au_roles = uc_roles c\<rparr> else None)"
proof -
  have "map byte pw = map byte p \<longleftrightarrow> p = pw" for p
    by (auto simp: inj_map_eq_map [OF byte_inj])
  then show ?thesis
    by (auto simp: authenticate_def constant_time_eq_iff Let_def split: option.splits)
qed

section \<open>From login to access\<close>

lemma access_parse_as_str: "access_parse (access_as_str r) = Some r"
  by (cases r) (simp_all add: access_parse_def string_eval)

lemma roles_roundtrip: "List.map_filter access_parse (map access_as_str rs) = rs"
  by (induction rs) (simp_all add: access_parse_as_str)

text \<open>
  C20: A login is good for access until it expires: if the codec returns the claims it signed as long
  as they have not expired, a request that carries the issued token as its bearer token runs as
  the user who logged in, with the same roles; the guard of a handler lets it pass exactly when one
  of these roles is at least the required one.
\<close>

theorem login_grants_access:
  assumes codec: "\<And>c t. jwt_encode E (as_secret a) c = Some t \<Longrightarrow> now \<le> jc_exp c \<Longrightarrow> jwt_decode E (as_secret a) now t = Some c"
    and login: "authenticate E a name pw = Some u" and token: "issue E a now0 u = Some t"
    and fresh: "now \<le> now0 + as_ttl a" "now0 + as_ttl a < 2 ^ 64"
    and request: "rq_authorization r = Some (''Bearer '' @ t)" "trim t = t" and enabled: "as_enabled a"
  shows "require_auth E a now r = Inr u \<and> au_name u = name \<and>
    (require_role u need = Inr () \<longleftrightarrow> (\<exists>x \<in> set (au_roles u). need \<le> x))"
proof -
  have name: "au_name u = name"
    using login by (auto simp: authenticate_def Let_def split: option.splits if_splits)
  have "extract_token r = Some t"
    using request by (simp add: extract_token_def bearer_def strip_prefix_def)
  moreover have "verify E a now t = Some u"
    using codec [OF token [unfolded issue_def]] fresh by (simp add: verify_def roles_roundtrip)
  ultimately show ?thesis
    using name enabled by (simp add: require_auth_def require_role_def has_def list_ex_iff)
qed

text \<open>A codec for the witness: the claims joined by a separator none of them contains.\<close>

definition demo_codec :: auth_env where
  "demo_codec = \<lparr>verify_phc = (\<lambda>p h. False),
     jwt_encode = (\<lambda>k c. let ws = jc_sub c # show_nat (jc_exp c) # jc_roles c
        in if list_all (\<lambda>w. CHR '':'' \<notin> set w) ws \<and> jc_exp c < 2 ^ 64 then Some (join '':'' ws) else None),
     jwt_decode = (\<lambda>k now t. case split_char CHR '':'' t of
        sub # e # roles \<Rightarrow>
          (case parse_unsigned (2 ^ 64) e of
             Some n \<Rightarrow> if now \<le> n then Some \<lparr>jc_sub = sub, jc_roles = roles, jc_exp = n\<rparr> else None
           | None \<Rightarrow> None)
      | _ \<Rightarrow> None)\<rparr>"

lemma split_char_join: "ws \<noteq> [] \<Longrightarrow> list_all (\<lambda>w. d \<notin> set w) ws \<Longrightarrow> split_char d (join [d] ws) = ws"
proof (induction "[d]" ws rule: join.induct)
  case (2 w)
  then show ?case by (simp add: split_char_no_sep)
next
  case (3 w v ws)
  then show ?case by (simp add: split_char_append)
qed simp

lemma demo_codec_law:
  assumes "jwt_encode demo_codec k c = Some t" and "now \<le> jc_exp c"
  shows "jwt_decode demo_codec k now t = Some c"
proof -
  let ?ws = "jc_sub c # show_nat (jc_exp c) # jc_roles c"
  have t: "t = join '':'' ?ws" "list_all (\<lambda>w. CHR '':'' \<notin> set w) ?ws" "jc_exp c < 2 ^ 64"
    using assms(1) by (auto simp: demo_codec_def Let_def split: if_splits)
  have "split_char CHR '':'' t = ?ws" unfolding t(1) using t(2) by (intro split_char_join) auto
  with t(3) assms(2) show ?thesis by (simp add: demo_codec_def parse_unsigned_show_nat)
qed

definition demo_auth :: auth_state where
  "demo_auth = \<lparr>as_enabled = True, as_secret = ''s'', as_ttl = 60,
     as_users = [(''ann'', \<lparr>uc_hash = None, uc_password = Some ''pw'', uc_roles = [Analyst]\<rparr>)]\<rparr>"

theorem login_grants_access_witness:
  "require_auth demo_codec demo_auth 9 \<lparr>rq_authorization = Some ''Bearer ann:65:analyst'', rq_query = None\<rparr> =
     Inr \<lparr>au_name = ''ann'', au_roles = [Analyst]\<rparr>"
proof -
  have token: "issue demo_codec demo_auth 5 \<lparr>au_name = ''ann'', au_roles = [Analyst]\<rparr> = Some ''ann:65:analyst''"
    by (simp add: issue_def demo_codec_def demo_auth_def show_nat_def show_nat_acc.simps char_of_def bit_iff_odd)
  have login: "authenticate demo_codec demo_auth ''ann'' ''pw'' = Some \<lparr>au_name = ''ann'', au_roles = [Analyst]\<rparr>"
    by (simp add: authenticate_def demo_auth_def constant_time_eq_iff)
  show ?thesis
    using login_grants_access [OF demo_codec_law login token, of 9 "\<lparr>rq_authorization = Some ''Bearer ann:65:analyst'', rq_query = None\<rparr>"]
    by (simp add: demo_auth_def string_eval)
qed

end
