(* ===== verification/Provenance_Graph.thy ===== *)
theory Provenance_Graph
  imports Core_Event
begin

text \<open>
  The provenance graph, \<open>crates/sigil-graph/src/lib.rs\<close>: entities as nodes, events as edges along
  host, actor and target, an index from entity keys to nodes and the events of each entity. The
  petgraph container is its documented content: the list of nodes, indexed in insertion order, and
  the list of edges with their end points; \<open>HashMap\<close>s are association lists and \<open>HashSet\<close>s are
  lists without duplicates.
\<close>

section \<open>The graph\<close>

record entity_node =
  en_kind :: string
  en_id :: string

record event_edge =
  ee_event :: string
  ee_action :: string
  ee_when :: timestamp

record event_ref =
  ef_id :: string
  ef_ts :: timestamp

record provenance_graph =
  pg_nodes :: "entity_node list"
  pg_edges :: "(nat \<times> nat \<times> event_edge) list"
  pg_index :: "(string \<times> nat) list"
  pg_events :: "(string \<times> event_ref list) list"

definition graph_new :: provenance_graph where
  "graph_new = \<lparr>pg_nodes = [], pg_edges = [], pg_index = [], pg_events = []\<rparr>"

definition node_key :: "entity_node \<Rightarrow> string" where
  "node_key n = en_kind n @ '':'' @ en_id n"

fun action_of_class :: "ocsf_class \<Rightarrow> string" where
  "action_of_class Authentication = ''authenticate''"
| "action_of_class ProcessActivity = ''execute''"
| "action_of_class FileSystemActivity = ''access''"
| "action_of_class NetworkActivity = ''connect''"
| "action_of_class HttpActivity = ''request''"
| "action_of_class ApiActivity = ''invoke''"
| "action_of_class DnsActivity = ''resolve''"
| "action_of_class ModuleActivity = ''load''"
| "action_of_class ScheduledJobActivity = ''schedule''"
| "action_of_class RegistryKeyActivity = ''modify''"
| "action_of_class (OtherClass _) = ''event''"

definition action_for :: "event \<Rightarrow> string" where
  "action_for e = action_of_class (ev_class e)"

definition node_for :: "entity_ref \<Rightarrow> provenance_graph \<Rightarrow> provenance_graph \<times> nat" where
  "node_for e g =
     (case map_of (pg_index g) (entity_key e) of
        Some idx \<Rightarrow> (g, idx)
      | None \<Rightarrow>
          let idx = length (pg_nodes g)
          in (g\<lparr>pg_nodes := pg_nodes g @ [\<lparr>en_kind = er_kind e, en_id = er_id e\<rparr>],
                pg_index := hash_insert (entity_key e) idx (pg_index g)\<rparr>, idx))"

definition events_on :: "entity_ref \<Rightarrow> provenance_graph \<Rightarrow> event_ref list" where
  "events_on e g = (case map_of (pg_events g) (entity_key e) of Some v \<Rightarrow> v | None \<Rightarrow> [])"

definition touch :: "event \<Rightarrow> entity_ref \<Rightarrow> provenance_graph \<Rightarrow> provenance_graph" where
  "touch ev e g =
     (let g' = fst (node_for e g)
      in g'\<lparr>pg_events := hash_insert (entity_key e)
              (events_on e g' @ [\<lparr>ef_id = ev_id ev, ef_ts = ev_ts ev\<rparr>]) (pg_events g')\<rparr>)"

definition link :: "event \<Rightarrow> entity_ref \<times> entity_ref \<Rightarrow> provenance_graph \<Rightarrow> provenance_graph" where
  "link ev p g =
     (let (g1, a) = node_for (fst p) g; (g2, b) = node_for (snd p) g1
      in g2\<lparr>pg_edges := pg_edges g2 @
            [(a, b, \<lparr>ee_event = ev_id ev, ee_action = action_for ev, ee_when = ev_ts ev\<rparr>)]\<rparr>)"

definition windows2 :: "'a list \<Rightarrow> ('a \<times> 'a) list" where
  "windows2 xs = zip xs (tl xs)"

definition add_event :: "event \<Rightarrow> provenance_graph \<Rightarrow> provenance_graph" where
  "add_event ev g =
     (let chain = event_entities ev
      in fold (link ev) (windows2 chain) (fold (touch ev) chain g))"

definition co_entity_events :: "event \<Rightarrow> provenance_graph \<Rightarrow> string list" where
  "co_entity_events ev g =
     remdups (concat (map (\<lambda>e. filter (\<lambda>i. i \<noteq> ev_id ev) (map ef_id (events_on e g))) (event_entities ev)))"

section \<open>Neighbourhoods\<close>

definition neighbours :: "provenance_graph \<Rightarrow> nat \<Rightarrow> nat list" where
  "neighbours g v =
     map (\<lambda>(a, b, _). b) (filter (\<lambda>(a, b, _). a = v) (pg_edges g)) @
     map (\<lambda>(a, b, _). a) (filter (\<lambda>(a, b, _). b = v) (pg_edges g))"

text \<open>The inner loop: neighbours whose key is new go to the next frontier.\<close>

fun expand :: "provenance_graph \<Rightarrow> nat list \<Rightarrow> string list \<Rightarrow> nat list \<Rightarrow> string list \<times> nat list" where
  "expand g [] seen nxt = (seen, nxt)"
| "expand g (nb # nbs) seen nxt =
     (let key = node_key (pg_nodes g ! nb)
      in if key \<in> set seen then expand g nbs seen nxt else expand g nbs (key # seen) (nxt @ [nb]))"

fun khop_loop :: "provenance_graph \<Rightarrow> nat \<Rightarrow> string list \<Rightarrow> nat list \<Rightarrow> string list" where
  "khop_loop g 0 seen frontier = seen"
| "khop_loop g (Suc n) seen frontier =
     (let (seen', nxt) = expand g (concat (map (neighbours g) frontier)) seen []
      in khop_loop g n seen' nxt)"

definition khop :: "entity_ref \<Rightarrow> nat \<Rightarrow> provenance_graph \<Rightarrow> string list" where
  "khop start hops g =
     (case map_of (pg_index g) (entity_key start) of
        None \<Rightarrow> []
      | Some s \<Rightarrow> filter (\<lambda>k. k \<noteq> node_key (pg_nodes g ! s)) (khop_loop g hops [] [s]))"

section \<open>Well-formed graphs\<close>

text \<open>The index and the node list name each other, and edges join existing nodes.\<close>

definition graph_wf :: "provenance_graph \<Rightarrow> bool" where
  "graph_wf g \<longleftrightarrow>
     (\<forall>k i. map_of (pg_index g) k = Some i \<longleftrightarrow> i < length (pg_nodes g) \<and> node_key (pg_nodes g ! i) = k) \<and>
     (\<forall>(a, b, x) \<in> set (pg_edges g). a < length (pg_nodes g) \<and> b < length (pg_nodes g))"

lemma node_key_entity: "node_key \<lparr>en_kind = er_kind e, en_id = er_id e\<rparr> = entity_key e"
  by (simp add: node_key_def entity_key_def)

lemma index_wf:
  "graph_wf g \<Longrightarrow> map_of (pg_index g) k = Some i \<longleftrightarrow> i < length (pg_nodes g) \<and> node_key (pg_nodes g ! i) = k"
  by (simp add: graph_wf_def)

lemma graph_wf_node_for:
  assumes "graph_wf g" and "node_for e g = (g', i)"
  shows "graph_wf g' \<and> i < length (pg_nodes g') \<and> node_key (pg_nodes g' ! i) = entity_key e \<and>
    pg_events g' = pg_events g \<and> length (pg_nodes g) \<le> length (pg_nodes g')"
proof (cases "map_of (pg_index g) (entity_key e)")
  case None
  let ?n = "length (pg_nodes g)"
  have g': "g' = g\<lparr>pg_nodes := pg_nodes g @ [\<lparr>en_kind = er_kind e, en_id = er_id e\<rparr>],
      pg_index := hash_insert (entity_key e) ?n (pg_index g)\<rparr>" "i = ?n"
    using assms(2) None by (auto simp: node_for_def Let_def)
  have new: "node_key (pg_nodes g ! j) \<noteq> entity_key e" if "j < ?n" for j
    using index_wf [OF assms(1), of "entity_key e" j] None that by auto
  have "graph_wf g'"
    unfolding graph_wf_def
  proof (intro conjI allI)
    fix k j
    show "map_of (pg_index g') k = Some j \<longleftrightarrow> j < length (pg_nodes g') \<and> node_key (pg_nodes g' ! j) = k"
      using index_wf [OF assms(1), of k j] new [of j]
      by (auto simp: g' map_of_hash_insert nth_append less_Suc_eq node_key_entity)
    show "\<forall>(a, b, x) \<in> set (pg_edges g'). a < length (pg_nodes g') \<and> b < length (pg_nodes g')"
      using assms(1) by (fastforce simp: graph_wf_def g')
  qed
  then show ?thesis by (simp add: g' node_key_entity)
next
  case (Some j)
  then have "g' = g" "i = j" using assms(2) by (auto simp: node_for_def)
  with assms(1) Some show ?thesis by (auto simp: graph_wf_def)
qed

lemma graph_wf_touch: "graph_wf g \<Longrightarrow> graph_wf (touch ev e g)"
  using graph_wf_node_for [of g e "fst (node_for e g)" "snd (node_for e g)"]
  by (simp add: touch_def Let_def graph_wf_def)

lemma graph_wf_link:
  assumes "graph_wf g"
  shows "graph_wf (link ev p g)"
proof -
  obtain g1 a g2 b where n: "node_for (fst p) g = (g1, a)" "node_for (snd p) g1 = (g2, b)" by (meson surj_pair)
  from graph_wf_node_for [OF assms n(1)] have 1: "graph_wf g1" "a < length (pg_nodes g1)" by auto
  from graph_wf_node_for [OF 1(1) n(2)] 1(2) have "graph_wf g2" "a < length (pg_nodes g2)" "b < length (pg_nodes g2)" by auto
  then show ?thesis by (auto simp: link_def n Let_def graph_wf_def)
qed

lemma graph_wf_fold: "(\<And>x g. graph_wf g \<Longrightarrow> graph_wf (f x g)) \<Longrightarrow> graph_wf g \<Longrightarrow> graph_wf (fold f xs g)"
  by (induction xs arbitrary: g) auto

lemma graph_wf_add: "graph_wf g \<Longrightarrow> graph_wf (add_event ev g)"
  by (simp add: add_event_def Let_def graph_wf_fold graph_wf_touch graph_wf_link)

definition graph_of :: "event list \<Rightarrow> provenance_graph" where
  "graph_of evs = fold add_event evs graph_new"

lemma graph_wf_of: "graph_wf (graph_of evs)"
  unfolding graph_of_def by (rule graph_wf_fold [OF graph_wf_add]) (simp_all add: graph_wf_def graph_new_def)

section \<open>Shared entities\<close>

lemma events_touch:
  "events_on x (touch ev e g) =
     events_on x g @ (if entity_key x = entity_key e then [\<lparr>ef_id = ev_id ev, ef_ts = ev_ts ev\<rparr>] else [])"
proof -
  have "pg_events (fst (node_for e g)) = pg_events g"
    by (auto simp: node_for_def Let_def split: option.splits)
  then show ?thesis
    by (auto simp: touch_def Let_def events_on_def map_of_hash_insert split: option.splits)
qed

lemma events_link: "events_on x (link ev p g) = events_on x g"
proof -
  have "pg_events (fst (node_for e h)) = pg_events h" for e h
    by (auto simp: node_for_def Let_def split: option.splits)
  then show ?thesis
    by (simp add: link_def Let_def events_on_def case_prod_beta)
qed

lemma events_touch_all:
  "set (events_on x (fold (touch ev) es g)) =
     set (events_on x g) \<union> (if entity_key x \<in> entity_key ` set es then {\<lparr>ef_id = ev_id ev, ef_ts = ev_ts ev\<rparr>} else {})"
  by (induction es arbitrary: g) (auto simp: events_touch)

lemma events_add:
  "set (events_on x (add_event ev g)) = set (events_on x g) \<union>
     (if entity_key x \<in> entity_key ` set (event_entities ev) then {\<lparr>ef_id = ev_id ev, ef_ts = ev_ts ev\<rparr>} else {})"
proof -
  have "events_on x (fold (link ev) ps g) = events_on x g" for ps g
    by (induction ps arbitrary: g) (auto simp: events_link)
  then show ?thesis by (simp add: add_event_def Let_def events_touch_all)
qed

lemma events_of:
  "set (events_on x (graph_of evs)) =
     {\<lparr>ef_id = ev_id e, ef_ts = ev_ts e\<rparr> |e. e \<in> set evs \<and> entity_key x \<in> entity_key ` set (event_entities e)}"
proof (induction evs rule: rev_induct)
  case Nil
  then show ?case by (simp add: graph_of_def graph_new_def events_on_def)
next
  case (snoc ev evs)
  then show ?case by (auto simp: graph_of_def events_add)
qed

text \<open>
  Co-entity events of a graph built from a list of events are the ids of the other events of the
  list that share the key of a host, actor or target with the given one.
\<close>

theorem co_entity_events_spec:
  "set (co_entity_events ev (graph_of evs)) =
     {ev_id e |e. e \<in> set evs \<and> ev_id e \<noteq> ev_id ev \<and>
        entity_key ` set (event_entities ev) \<inter> entity_key ` set (event_entities e) \<noteq> {}}"
proof -
  have "i \<in> set (co_entity_events ev (graph_of evs)) \<longleftrightarrow> (\<exists>x \<in> set (event_entities ev).
      \<exists>r \<in> set (events_on x (graph_of evs)). i = ef_id r \<and> i \<noteq> ev_id ev)" for i
    by (auto simp: co_entity_events_def)
  then show ?thesis by (fastforce simp: events_of)
qed

section \<open>k-hop traversal\<close>

definition adj :: "provenance_graph \<Rightarrow> (nat \<times> nat) set" where
  "adj g = {(v, w). w \<in> set (neighbours g v)}"

text \<open>Nodes at the end of a path of one to \<open>k\<close> edges, ignoring their direction.\<close>

definition within :: "provenance_graph \<Rightarrow> nat \<Rightarrow> nat \<Rightarrow> nat set" where
  "within g s k = {v. \<exists>j. 1 \<le> j \<and> j \<le> k \<and> (s, v) \<in> adj g ^^ j}"

lemma within_0 [simp]: "within g s 0 = {}"
  by (auto simp: within_def)

lemma within_Suc: "within g s (Suc k) = within g s k \<union> {v. (s, v) \<in> adj g ^^ Suc k}"
proof -
  have "(s, v) \<in> adj g ^^ Suc k \<Longrightarrow> v \<in> within g s (Suc k)" for v
    unfolding within_def by (intro CollectI exI [of _ "Suc k"]) simp
  then show ?thesis by (auto simp: within_def le_Suc_eq simp del: relpow.simps)
qed

text \<open>What a frontier holds after \<open>k\<close> rounds: all nodes that are new, and no node that is not reached.\<close>

definition frontier_ok :: "provenance_graph \<Rightarrow> nat \<Rightarrow> nat \<Rightarrow> nat set \<Rightarrow> bool" where
  "frontier_ok g s k F \<longleftrightarrow>
     (if k = 0 then F = {s} else within g s k - within g s (k - 1) \<subseteq> F \<and> F \<subseteq> within g s k)"

lemma within_extend: "v \<in> within g s k \<Longrightarrow> (v, w) \<in> adj g \<Longrightarrow> w \<in> within g s (Suc k)"
proof -
  assume "v \<in> within g s k" "(v, w) \<in> adj g"
  then obtain j where "1 \<le> j" "j \<le> k" "(s, v) \<in> adj g ^^ j" by (auto simp: within_def)
  with \<open>(v, w) \<in> adj g\<close> show ?thesis
    unfolding within_def by (intro CollectI exI [of _ "Suc j"]) auto
qed

lemma within_step:
  assumes "frontier_ok g s k F"
  shows "within g s (Suc k) = within g s k \<union> {w. \<exists>v \<in> F. (v, w) \<in> adj g}"
proof (cases k)
  case 0
  with assms show ?thesis by (auto simp: within_Suc frontier_ok_def)
next
  case (Suc m)
  have F: "within g s k - within g s m \<subseteq> F" "F \<subseteq> within g s k" using assms Suc by (auto simp: frontier_ok_def)
  have "w \<in> within g s k \<union> {w. \<exists>v \<in> F. (v, w) \<in> adj g}" if path: "(s, w) \<in> adj g ^^ Suc k" for w
  proof -
    from path obtain v where v: "(s, v) \<in> adj g ^^ k" "(v, w) \<in> adj g" by auto
    then have "v \<in> within g s k" unfolding within_def using Suc by (intro CollectI exI [of _ k]) simp
    then show ?thesis
      using F(1) v(2) within_extend [of v g s m w] Suc by (cases "v \<in> within g s m") auto
  qed
  moreover have "w \<in> within g s (Suc k)" if "v \<in> F" "(v, w) \<in> adj g" for v w
    using that F(2) by (blast intro: within_extend)
  ultimately show ?thesis by (auto simp: within_Suc simp del: relpow.simps)
qed

lemma expand_spec:
  assumes "expand g nbs seen nxt = (seen', nxt')"
  shows "set seen' = set seen \<union> (\<lambda>v. node_key (pg_nodes g ! v)) ` set nbs \<and>
    set nxt \<subseteq> set nxt' \<and> set nxt' \<subseteq> set nxt \<union> set nbs \<and>
    (\<lambda>v. node_key (pg_nodes g ! v)) ` set nbs \<subseteq> set seen \<union> (\<lambda>v. node_key (pg_nodes g ! v)) ` set nxt'"
  using assms
proof (induction g nbs seen nxt rule: expand.induct)
  case (2 g nb nbs seen nxt)
  show ?case
  proof (cases "node_key (pg_nodes g ! nb) \<in> set seen")
    case True
    with 2 show ?thesis by auto
  next
    case False
    with 2(2) [OF refl False] 2(3) show ?thesis by auto
  qed
qed simp

lemma neighbours_valid: "graph_wf g \<Longrightarrow> set (neighbours g v) \<subseteq> {..<length (pg_nodes g)}"
  by (fastforce simp: neighbours_def graph_wf_def)

lemma within_valid: "graph_wf g \<Longrightarrow> within g s k \<subseteq> {..<length (pg_nodes g)}"
proof
  fix v assume wf: "graph_wf g" and "v \<in> within g s k"
  then obtain j where "1 \<le> j" "(s, v) \<in> adj g ^^ j" by (auto simp: within_def)
  then obtain u where "(u, v) \<in> adj g" by (cases j) auto
  with neighbours_valid [OF wf] show "v \<in> {..<length (pg_nodes g)}" by (auto simp: adj_def)
qed

lemma keys_inj: "graph_wf g \<Longrightarrow> inj_on (\<lambda>v. node_key (pg_nodes g ! v)) {..<length (pg_nodes g)}"
  by (rule inj_onI) (metis index_wf lessThan_iff option.inject)

lemma khop_loop_spec:
  assumes wf: "graph_wf g" and "frontier_ok g s k (set F)"
    and "set seen = (\<lambda>v. node_key (pg_nodes g ! v)) ` within g s k"
  shows "set (khop_loop g n seen F) = (\<lambda>v. node_key (pg_nodes g ! v)) ` within g s (k + n)"
  using assms(2,3)
proof (induction n arbitrary: k seen F)
  case (Suc n)
  let ?key = "\<lambda>v. node_key (pg_nodes g ! v)" and ?nbs = "concat (map (neighbours g) F)"
  obtain seen' nxt where e: "expand g ?nbs seen [] = (seen', nxt)" by fastforce
  have nbs: "set ?nbs = {w. \<exists>v \<in> set F. (v, w) \<in> adj g}" by (auto simp: adj_def)
  have reach: "within g s (Suc k) = within g s k \<union> set ?nbs"
    using within_step [OF Suc.prems(1)] nbs by simp
  have seen': "set seen' = ?key ` within g s (Suc k)"
    using expand_spec [OF e] Suc.prems(2) reach by auto
  have "within g s (Suc k) - within g s k \<subseteq> set nxt"
  proof
    fix v assume v: "v \<in> within g s (Suc k) - within g s k"
    have valid: "within g s (Suc k) \<subseteq> {..<length (pg_nodes g)}" by (rule within_valid [OF wf])
    have "?key v \<notin> set seen"
      using v Suc.prems(2) inj_onD [OF keys_inj [OF wf]] within_valid [OF wf, of s k] valid by fastforce
    moreover have "?key v \<in> ?key ` set ?nbs" using v reach by blast
    ultimately obtain u where u: "u \<in> set nxt" "?key v = ?key u" using expand_spec [OF e] by blast
    then have "u \<in> within g s (Suc k)" using expand_spec [OF e] reach by auto
    with u v valid inj_onD [OF keys_inj [OF wf]] show "v \<in> set nxt" by (metis DiffD1 subsetD)
  qed
  moreover have "set nxt \<subseteq> within g s (Suc k)" using expand_spec [OF e] reach by auto
  ultimately have "frontier_ok g s (Suc k) (set nxt)" by (simp add: frontier_ok_def)
  from Suc.IH [OF this seen'] show ?case by (simp add: e)
qed simp

text \<open>
  The k-hop neighbourhood of an entity in a graph built from events is the set of keys of the
  other entities at the end of a path of at most \<open>k\<close> edges, whatever their direction; an entity
  no event touched has none.
\<close>

theorem khop_spec:
  "set (khop start k (graph_of evs)) =
     (case map_of (pg_index (graph_of evs)) (entity_key start) of
        None \<Rightarrow> {}
      | Some s \<Rightarrow> (\<lambda>v. node_key (pg_nodes (graph_of evs) ! v)) ` (within (graph_of evs) s k - {s}))"
proof (cases "map_of (pg_index (graph_of evs)) (entity_key start)")
  case (Some s)
  let ?g = "graph_of evs" and ?key = "\<lambda>v. node_key (pg_nodes (graph_of evs) ! v)"
  have s: "s < length (pg_nodes ?g)" using index_wf [OF graph_wf_of] Some by blast
  have "set (khop_loop ?g k [] [s]) = ?key ` within ?g s k"
    using khop_loop_spec [OF graph_wf_of, of evs s 0 "[s]" "[]" k] by (simp add: frontier_ok_def)
  moreover have "?key ` within ?g s k - {?key s} = ?key ` (within ?g s k - {s})"
    using inj_onD [OF keys_inj [OF graph_wf_of]] within_valid [OF graph_wf_of, of evs s k] s by fastforce
  ultimately show ?thesis using Some by (auto simp: khop_def)
qed (simp add: khop_def)

end
