(* ===== verification/Campaign_Dsu.thy ===== *)
theory Campaign_Dsu
  imports Sigil_Prelude
begin

text \<open>
  The disjoint-set forest of \<open>crates/sigil-correlate/src/campaign.rs\<close> (\<open>Dsu\<close>): the parent vector,
  \<open>find\<close> with path compression and \<open>union\<close> without ranks. The two loops of \<open>find\<close> are partial
  functions: \<open>None\<close> stands for an index out of bounds or a loop that does not end, and it is
  proved that neither happens on a forest built by \<open>new\<close> and \<open>union\<close>.
\<close>

section \<open>Operations\<close>

type_synonym dsu = "nat list"

definition dsu_new :: "nat \<Rightarrow> dsu" where
  "dsu_new n = [0 ..< n]"

partial_function (option) find_root :: "dsu \<Rightarrow> nat \<Rightarrow> nat option" where
  "find_root p root =
     (if length p \<le> root then None
      else if p ! root = root then Some root
      else find_root p (p ! root))"

partial_function (option) compress :: "dsu \<Rightarrow> nat \<Rightarrow> nat \<Rightarrow> dsu option" where
  "compress p cur root =
     (if length p \<le> cur then None
      else if p ! cur = root then Some p
      else compress (p[cur := root]) (p ! cur) root)"

definition dsu_find :: "dsu \<Rightarrow> nat \<Rightarrow> (dsu \<times> nat) option" where
  "dsu_find p x =
     (case find_root p x of
        None \<Rightarrow> None
      | Some root \<Rightarrow> map_option (\<lambda>p'. (p', root)) (compress p x root))"

definition dsu_union :: "dsu \<Rightarrow> nat \<Rightarrow> nat \<Rightarrow> dsu option" where
  "dsu_union p a b =
     (case dsu_find p a of
        None \<Rightarrow> None
      | Some (p1, ra) \<Rightarrow>
          (case dsu_find p1 b of
             None \<Rightarrow> None
           | Some (p2, rb) \<Rightarrow> Some (if ra \<noteq> rb then p2[ra := rb] else p2)))"

text \<open>The union of all recorded links, over any union operation that may fail.\<close>

fun unions :: "('p \<Rightarrow> nat \<Rightarrow> nat \<Rightarrow> 'p option) \<Rightarrow> (nat \<times> nat) list \<Rightarrow> 'p \<Rightarrow> 'p option" where
  "unions u [] p = Some p"
| "unions u ((a, b) # ls) p = (case u p a b of Some p' \<Rightarrow> unions u ls p' | None \<Rightarrow> None)"

text \<open>
  \<open>comps.entry(dsu.find(i)).or_default().push(i)\<close> for the indices \<open>is\<close>: the groups, keyed by the
  root. The map is an association list in the order of first insertion.
\<close>

fun push_comp :: "nat \<Rightarrow> nat \<Rightarrow> (nat \<times> nat list) list \<Rightarrow> (nat \<times> nat list) list" where
  "push_comp r i [] = [(r, [i])]"
| "push_comp r i ((k, v) # cs) = (if k = r then (k, v @ [i]) # cs else (k, v) # push_comp r i cs)"

fun group_comps :: "nat list \<Rightarrow> dsu \<Rightarrow> (nat \<times> nat list) list \<Rightarrow> (nat \<times> nat list) list option" where
  "group_comps [] p cs = Some cs"
| "group_comps (i # is) p cs =
     (case dsu_find p i of
        None \<Rightarrow> None
      | Some (p', r) \<Rightarrow> group_comps is p' (push_comp r i cs))"

definition components :: "nat \<Rightarrow> (nat \<times> nat) list \<Rightarrow> nat list list option" where
  "components n links =
     (case unions dsu_union links (dsu_new n) of
        None \<Rightarrow> None
      | Some p \<Rightarrow> map_option (map snd) (group_comps [0 ..< n] p []))"

section \<open>Roots\<close>

text \<open>The walk from \<open>x\<close> ends after \<open>k\<close> steps in the root \<open>r\<close>.\<close>

inductive walk :: "dsu \<Rightarrow> nat \<Rightarrow> nat \<Rightarrow> nat \<Rightarrow> bool" for p where
  stop: "x < length p \<Longrightarrow> p ! x = x \<Longrightarrow> walk p x 0 x"
| step: "x < length p \<Longrightarrow> p ! x \<noteq> x \<Longrightarrow> walk p (p ! x) k r \<Longrightarrow> walk p x (Suc k) r"

inductive_cases walkE: "walk p x k r"

definition forest :: "dsu \<Rightarrow> bool" where
  "forest p \<longleftrightarrow> (\<forall>x < length p. \<exists>k r. walk p x k r)"

lemma walk_bounds: "walk p x k r \<Longrightarrow> x < length p \<and> r < length p \<and> p ! r = r"
  by (induction rule: walk.induct) auto

lemma walk_unique: "walk p x k r \<Longrightarrow> walk p x k' r' \<Longrightarrow> k = k' \<and> r = r'"
proof (induction arbitrary: k' r' rule: walk.induct)
  case (stop x)
  then show ?case by (auto elim: walkE)
next
  case (step x k r)
  from step.prems step.hyps obtain j where "k' = Suc j" "walk p (p ! x) j r'" by (auto elim: walkE)
  with step.IH show ?case by auto
qed

definition root :: "dsu \<Rightarrow> nat \<Rightarrow> nat \<Rightarrow> bool" where
  "root p x r \<longleftrightarrow> (\<exists>k. walk p x k r)"

lemma find_root_walk: "walk p x k r \<Longrightarrow> find_root p x = Some r"
proof (induction rule: walk.induct)
  case (stop x)
  then show ?case by (subst find_root.simps) simp
next
  case (step x k r)
  then show ?case by (subst find_root.simps) simp
qed

text \<open>Pointing a node at its root shortens walks and changes no root.\<close>

lemma walk_shortcut:
  assumes c: "walk p c m r" "c \<noteq> r" and "walk p x k s"
  shows "\<exists>j \<le> k. walk (p[c := r]) x j s"
  using assms(3)
proof (induction rule: walk.induct)
  case (stop x)
  have "x \<noteq> c" using stop c by (metis walk.stop walk_unique)
  with stop show ?case by (intro exI [of _ 0]) (auto intro!: walk.stop)
next
  case (step x k s)
  show ?case
  proof (cases "x = c")
    case True
    with step.hyps c have "s = r" by (metis walk.step walk_unique)
    moreover have "walk (p[c := r]) r 0 r" using walk_bounds [OF c(1)] c(2) by (intro walk.stop) auto
    then have "walk (p[c := r]) c (Suc 0) r" using walk_bounds [OF c(1)] c(2) by (intro walk.step) auto
    ultimately show ?thesis using True by auto
  next
    case False
    from step.IH obtain j where "j \<le> k" "walk (p[c := r]) (p ! x) j s" by blast
    then have "walk (p[c := r]) x (Suc j) s" using step.hyps False by (intro walk.step) auto
    with \<open>j \<le> k\<close> show ?thesis by blast
  qed
qed

definition same_roots :: "dsu \<Rightarrow> dsu \<Rightarrow> bool" where
  "same_roots p q \<longleftrightarrow> length q = length p \<and> (\<forall>x r. root q x r \<longleftrightarrow> root p x r)"

lemma same_roots_shortcut:
  assumes "forest p" and "walk p c m r" and "c \<noteq> r"
  shows "forest (p[c := r]) \<and> same_roots p (p[c := r])"
proof -
  have fwd: "root p x s \<Longrightarrow> root (p[c := r]) x s" for x s
    using walk_shortcut [OF assms(2,3)] unfolding root_def by blast
  moreover have "root p x s" if "root (p[c := r]) x s" for x s
  proof -
    from that have "x < length p" unfolding root_def using walk_bounds by fastforce
    with assms(1) obtain s' where s': "root p x s'" unfolding forest_def root_def by blast
    from fwd [OF this] that have "s = s'" unfolding root_def by (blast dest: walk_unique)
    with s' show ?thesis by simp
  qed
  moreover have "forest (p[c := r])"
    using assms(1) fwd unfolding forest_def root_def by (metis length_list_update)
  ultimately show ?thesis by (auto simp: same_roots_def)
qed

lemma same_roots_trans: "same_roots p q \<Longrightarrow> same_roots q s \<Longrightarrow> same_roots p s"
  by (simp add: same_roots_def)

lemma compress_ok:
  "forest p \<Longrightarrow> walk p c k r \<Longrightarrow> \<exists>q. compress p c r = Some q \<and> forest q \<and> same_roots p q"
proof (induction k arbitrary: p c rule: less_induct)
  case (less k)
  have c: "c < length p" using walk_bounds [OF less.prems(2)] by simp
  show ?case
  proof (cases "p ! c = r")
    case True
    with c less.prems show ?thesis by (subst compress.simps) (auto simp: same_roots_def)
  next
    case False
    then have "c \<noteq> r" using less.prems(2) walk_bounds by blast
    with less.prems(2) obtain j where j: "k = Suc j" "walk p (p ! c) j r" by (auto elim: walkE)
    let ?q = "p[c := r]"
    have q: "forest ?q" "same_roots p ?q" using same_roots_shortcut [OF less.prems \<open>c \<noteq> r\<close>] by auto
    from walk_shortcut [OF less.prems(2) \<open>c \<noteq> r\<close> j(2)] obtain i where i: "i \<le> j" "walk ?q (p ! c) i r" by blast
    from less.IH [OF _ q(1) i(2)] i(1) j(1) obtain s where
      "compress ?q (p ! c) r = Some s" "forest s" "same_roots ?q s" by auto
    with q(2) c False show ?thesis by (subst compress.simps) (auto intro: same_roots_trans)
  qed
qed

lemma dsu_find_ok:
  assumes "forest p" and "x < length p"
  shows "\<exists>q r. dsu_find p x = Some (q, r) \<and> forest q \<and> same_roots p q \<and> root p x r"
proof -
  obtain k r where w: "walk p x k r" using assms by (auto simp: forest_def)
  with compress_ok [OF assms(1) w] find_root_walk [OF w] show ?thesis
    by (auto simp: dsu_find_def root_def)
qed


section \<open>Union\<close>

text \<open>Hanging the root \<open>ra\<close> below the root \<open>rb\<close> redirects the walks that ended in \<open>ra\<close>.\<close>

lemma walk_graft:
  assumes "walk p x k s" and b: "rb < length p" "p ! rb = rb" and ne: "ra \<noteq> rb" and a: "ra < length p" "p ! ra = ra"
  shows "\<exists>j. walk (p[ra := rb]) x j (if s = ra then rb else s)"
  using assms(1)
proof (induction rule: walk.induct)
  case (stop x)
  have rb: "walk (p[ra := rb]) rb 0 rb" using b ne by (intro walk.stop) auto
  show ?case
  proof (cases "x = ra")
    case True
    have "walk (p[ra := rb]) ra (Suc 0) rb" using rb a ne by (intro walk.step) auto
    with True show ?thesis by auto
  next
    case False
    then have "walk (p[ra := rb]) x 0 x" using stop by (intro walk.stop) auto
    with False show ?thesis by auto
  qed
next
  case (step x k s)
  from step.hyps a have "x \<noteq> ra" by auto
  from step.IH obtain j where "walk (p[ra := rb]) (p ! x) j (if s = ra then rb else s)" by blast
  then have "walk (p[ra := rb]) x (Suc j) (if s = ra then rb else s)"
    using step.hyps \<open>x \<noteq> ra\<close> by (intro walk.step) auto
  then show ?case by blast
qed

lemma root_unique: "root p x r \<Longrightarrow> root p x s \<Longrightarrow> r = s"
  unfolding root_def by (blast dest: walk_unique)

lemma root_bounds: "root p x r \<Longrightarrow> x < length p \<and> r < length p \<and> p ! r = r"
  unfolding root_def by (blast dest: walk_bounds)

lemma forest_root: "forest p \<Longrightarrow> x < length p \<Longrightarrow> \<exists>r. root p x r"
  unfolding forest_def root_def by blast

lemma graft_root:
  assumes "forest p" "root p a ra" "root p b rb" "ra \<noteq> rb" "root p x s"
  shows "root (p[ra := rb]) x (if s = ra then rb else s)"
  using assms walk_graft root_bounds unfolding root_def by meson

definition linked :: "dsu \<Rightarrow> nat \<Rightarrow> nat \<Rightarrow> bool" where
  "linked p x y \<longleftrightarrow> (\<exists>r. root p x r \<and> root p y r)"

lemma linked_iff:
  assumes "root p x r" "root p y s"
  shows "linked p x y \<longleftrightarrow> r = s"
  using assms by (auto simp: linked_def dest: root_unique)

lemma linked_trans: "linked p x y \<Longrightarrow> linked p y z \<Longrightarrow> linked p x z"
  unfolding linked_def by (blast dest: root_unique)

lemma same_roots_linked: "same_roots p q \<Longrightarrow> linked q = linked p"
  by (intro ext) (simp add: same_roots_def linked_def)

lemma graft_linked:
  assumes f: "forest p" and r: "root p a ra" "root p b rb" "ra \<noteq> rb" and xy: "x < length p" "y < length p"
  shows "linked (p[ra := rb]) x y \<longleftrightarrow>
    linked p x y \<or> linked p x a \<and> linked p b y \<or> linked p x b \<and> linked p a y"
proof -
  obtain s t where st: "root p x s" "root p y t" using forest_root [OF f] xy by blast
  note q = graft_root [OF f r st(1)] graft_root [OF f r st(2)]
  show ?thesis
    unfolding linked_iff [OF q] linked_iff [OF st] linked_iff [OF st(1) r(1)] linked_iff [OF st(1) r(2)]
      linked_iff [OF r(1) st(2)] linked_iff [OF r(2) st(2)]
    using r(3) by auto
qed

lemma graft_forest:
  assumes "forest p" "root p a ra" "root p b rb" "ra \<noteq> rb"
  shows "forest (p[ra := rb])"
  using graft_root [OF assms] forest_root [OF assms(1)] unfolding forest_def root_def by fastforce

definition dsu_wf :: "nat \<Rightarrow> dsu \<Rightarrow> bool" where
  "dsu_wf n p \<longleftrightarrow> length p = n \<and> forest p"

lemma dsu_union_ok:
  assumes wf: "dsu_wf n p" and ab: "a < n" "b < n"
  shows "\<exists>q. dsu_union p a b = Some q \<and> dsu_wf n q \<and>
    (\<forall>x < n. \<forall>y < n. linked q x y \<longleftrightarrow>
       linked p x y \<or> linked p x a \<and> linked p b y \<or> linked p x b \<and> linked p a y)"
proof -
  from wf have p: "forest p" "length p = n" by (auto simp: dsu_wf_def)
  from dsu_find_ok [OF p(1)] ab p(2) obtain p1 ra where
    f1: "dsu_find p a = Some (p1, ra)" "forest p1" "same_roots p p1" "root p a ra" by blast
  then have l1: "length p1 = n" using p(2) by (simp add: same_roots_def)
  from dsu_find_ok [OF f1(2)] ab l1 obtain p2 rb where
    f2: "dsu_find p1 b = Some (p2, rb)" "forest p2" "same_roots p1 p2" "root p1 b rb" by blast
  then have l2: "length p2 = n" using l1 by (simp add: same_roots_def)
  have eq: "linked p2 = linked p" using f1(3) f2(3) by (simp add: same_roots_linked)
  have ra: "root p2 a ra" and rb: "root p2 b rb" using f1(3,4) f2(3,4) by (simp_all add: same_roots_def)
  show ?thesis
  proof (cases "ra = rb")
    case True
    then have ab: "linked p2 a b" "linked p2 b a" using ra rb by (auto simp: linked_def)
    have "\<forall>x < n. \<forall>y < n. linked p2 x y \<longleftrightarrow>
        linked p2 x y \<or> linked p2 x a \<and> linked p2 b y \<or> linked p2 x b \<and> linked p2 a y"
    proof (intro allI impI iffI disjI1)
      fix x y
      assume "linked p2 x y \<or> linked p2 x a \<and> linked p2 b y \<or> linked p2 x b \<and> linked p2 a y"
      then show "linked p2 x y"
        using linked_trans [OF linked_trans [OF _ ab(1)]] linked_trans [OF linked_trans [OF _ ab(2)]] by metis
    qed
    moreover have "dsu_union p a b = Some p2" using True f1(1) f2(1) by (simp add: dsu_union_def)
    moreover have "dsu_wf n p2" using f2(2) l2 by (simp add: dsu_wf_def)
    ultimately show ?thesis unfolding eq [symmetric] by (intro exI [of _ p2] conjI)
  next
    case False
    have "dsu_wf n (p2[ra := rb])" using graft_forest [OF f2(2) ra rb False] l2 by (simp add: dsu_wf_def)
    moreover have "dsu_union p a b = Some (p2[ra := rb])" using False f1(1) f2(1) by (simp add: dsu_union_def)
    ultimately show ?thesis using graft_linked [OF f2(2) ra rb False] unfolding eq l2 by blast
  qed
qed

section \<open>The contract of a disjoint-set structure\<close>

text \<open>
  A union operation that joins exactly the two classes of its arguments. Whatever the representation,
  the union of a list of links leaves exactly the connected components of the link graph.
\<close>

definition conn :: "nat \<Rightarrow> (nat \<times> nat) list \<Rightarrow> nat \<Rightarrow> nat \<Rightarrow> bool" where
  "conn n ls x y \<longleftrightarrow> x < n \<and> y < n \<and> (x, y) \<in> (set ls \<union> (set ls)\<inverse>)\<^sup>*"

lemma rtrancl_insert_sym:
  assumes "sym r"
  shows "(x, y) \<in> (r \<union> {(a, b), (b, a)})\<^sup>* \<longleftrightarrow>
    (x, y) \<in> r\<^sup>* \<or> (x, a) \<in> r\<^sup>* \<and> (b, y) \<in> r\<^sup>* \<or> (x, b) \<in> r\<^sup>* \<and> (a, y) \<in> r\<^sup>*"
  (is "?L \<longleftrightarrow> ?R")
proof
  assume ?L
  then show ?R
  proof (induction rule: rtrancl_induct)
    case base
    then show ?case by simp
  next
    case (step y z)
    then show ?case by (auto intro: rtrancl_into_rtrancl)
  qed
next
  assume ?R
  moreover have "r\<^sup>* \<subseteq> (r \<union> {(a, b), (b, a)})\<^sup>*" by (rule rtrancl_mono) blast
  moreover have "(a, b) \<in> (r \<union> {(a, b), (b, a)})\<^sup>*" "(b, a) \<in> (r \<union> {(a, b), (b, a)})\<^sup>*" by auto
  ultimately show ?L by (meson rtrancl_trans subsetD)
qed

lemma conn_snoc:
  assumes "a < n" "b < n"
  shows "conn n (ls @ [(a, b)]) x y \<longleftrightarrow>
    conn n ls x y \<or> conn n ls x a \<and> conn n ls b y \<or> conn n ls x b \<and> conn n ls a y"
proof -
  have "set (ls @ [(a, b)]) \<union> (set (ls @ [(a, b)]))\<inverse> = (set ls \<union> (set ls)\<inverse>) \<union> {(a, b), (b, a)}" by auto
  moreover have "sym (set ls \<union> (set ls)\<inverse>)" by (auto simp: sym_def)
  ultimately show ?thesis using assms rtrancl_insert_sym unfolding conn_def by (metis (no_types, lifting))
qed

locale disjoint_sets =
  fixes union :: "'p \<Rightarrow> nat \<Rightarrow> nat \<Rightarrow> 'p option"
    and wf_sets :: "nat \<Rightarrow> 'p \<Rightarrow> bool"
    and same :: "'p \<Rightarrow> nat \<Rightarrow> nat \<Rightarrow> bool"
  assumes union_ok: "wf_sets n p \<Longrightarrow> a < n \<Longrightarrow> b < n \<Longrightarrow>
    \<exists>q. union p a b = Some q \<and> wf_sets n q \<and>
      (\<forall>x < n. \<forall>y < n. same q x y \<longleftrightarrow>
         same p x y \<or> same p x a \<and> same p b y \<or> same p x b \<and> same p a y)"
begin

lemma unions_from:
  assumes "wf_sets n p" and "\<forall>(a, b) \<in> set ls. a < n \<and> b < n"
    and "\<forall>x < n. \<forall>y < n. same p x y \<longleftrightarrow> conn n done x y"
  shows "\<exists>q. unions union ls p = Some q \<and> wf_sets n q \<and>
    (\<forall>x < n. \<forall>y < n. same q x y \<longleftrightarrow> conn n (done @ ls) x y)"
  using assms
proof (induction ls arbitrary: p "done")
  case Nil
  then show ?case by simp
next
  case (Cons l ls)
  obtain a b where l: "l = (a, b)" by (cases l)
  with Cons.prems have ab: "a < n" "b < n" by auto
  from union_ok [OF Cons.prems(1) ab] obtain q where q: "union p a b = Some q" "wf_sets n q"
    "\<forall>x < n. \<forall>y < n. same q x y \<longleftrightarrow>
       same p x y \<or> same p x a \<and> same p b y \<or> same p x b \<and> same p a y" by blast
  then have "\<forall>x < n. \<forall>y < n. same q x y \<longleftrightarrow> conn n (done @ [l]) x y"
    using Cons.prems(3) ab by (simp add: l conn_snoc)
  from Cons.IH [OF q(2) _ this] Cons.prems(2) q(1) l show ?case by simp
qed

lemma unions_components:
  assumes "wf_sets n p" and "\<forall>(a, b) \<in> set ls. a < n \<and> b < n" and "\<forall>x < n. \<forall>y < n. same p x y \<longleftrightarrow> x = y"
  shows "\<exists>q. unions union ls p = Some q \<and> wf_sets n q \<and> (\<forall>x < n. \<forall>y < n. same q x y \<longleftrightarrow> conn n ls x y)"
  using unions_from [OF assms(1,2), of "[]"] assms(3) by (simp add: conn_def)

end

interpretation dsu: disjoint_sets dsu_union dsu_wf linked
  by unfold_locales (rule dsu_union_ok)

section \<open>Components\<close>

lemma dsu_new_walk: "x < n \<Longrightarrow> walk (dsu_new n) x 0 x"
  by (rule walk.stop) (simp_all add: dsu_new_def)

lemma dsu_new_wf: "dsu_wf n (dsu_new n)"
  using dsu_new_walk unfolding dsu_wf_def forest_def by (fastforce simp: dsu_new_def)

lemma dsu_new_linked: "x < n \<Longrightarrow> y < n \<Longrightarrow> linked (dsu_new n) x y \<longleftrightarrow> x = y"
  using dsu_new_walk linked_iff unfolding root_def by metis

lemma push_comp_keys: "set (map fst (push_comp r i cs)) = insert r (set (map fst cs))"
  by (induction r i cs rule: push_comp.induct) auto

lemma push_comp_distinct: "distinct (map fst cs) \<Longrightarrow> distinct (map fst (push_comp r i cs))"
  by (induction r i cs rule: push_comp.induct) (use push_comp_keys in \<open>auto simp: \<close>)

lemma push_comp_map_of:
  "map_of (push_comp r i cs) = (map_of cs)(r \<mapsto> (case map_of cs r of None \<Rightarrow> [i] | Some v \<Rightarrow> v @ [i]))"
  by (induction r i cs rule: push_comp.induct) (auto simp: fun_eq_iff)

text \<open>The groups after \<open>is\<close>: for every root met, the indices with that root, in order.\<close>

definition grouped :: "dsu \<Rightarrow> nat list \<Rightarrow> (nat \<times> nat list) list \<Rightarrow> bool" where
  "grouped p is cs \<longleftrightarrow> distinct (map fst cs) \<and>
     (\<forall>r. map_of cs r = (case filter (\<lambda>i. root p i r) is of [] \<Rightarrow> None | xs \<Rightarrow> Some xs))"

lemma grouped_push:
  assumes g: "grouped p is cs" and r: "root p i r"
  shows "grouped p (is @ [i]) (push_comp r i cs)"
proof -
  have "root p i s \<longleftrightarrow> s = r" for s using r root_unique by blast
  with g show ?thesis
    by (auto simp: grouped_def push_comp_map_of push_comp_distinct split: list.splits)
qed

lemma grouped_same_roots: "same_roots p q \<Longrightarrow> grouped q is cs = grouped p is cs"
  by (simp add: grouped_def same_roots_def)

lemma group_comps_ok:
  assumes "dsu_wf n p" and "\<forall>i \<in> set is. i < n" and "grouped p before cs"
  shows "\<exists>cs'. group_comps is p cs = Some cs' \<and> grouped p (before @ is) cs'"
  using assms
proof (induction "is" arbitrary: p before cs)
  case Nil
  then show ?case by simp
next
  case (Cons i "is")
  then have p: "forest p" "length p = n" "i < length p" by (auto simp: dsu_wf_def)
  from dsu_find_ok [OF p(1,3)] obtain q r where
    q: "dsu_find p i = Some (q, r)" "forest q" "same_roots p q" "root p i r" by blast
  have "grouped q (before @ [i]) (push_comp r i cs)"
    using grouped_push [OF Cons.prems(3) q(4)] grouped_same_roots [OF q(3)] by simp
  moreover have "dsu_wf n q" using q p(2) by (simp add: dsu_wf_def same_roots_def)
  ultimately obtain cs' where "group_comps is q (push_comp r i cs) = Some cs'" "grouped q ((before @ [i]) @ is) cs'"
    using Cons.IH [of q "before @ [i]" "push_comp r i cs"] Cons.prems(2) by auto
  then show ?case using q(1) grouped_same_roots [OF q(3)] by auto
qed

lemma grouped_entry:
  assumes "grouped p is cs" and "(r, c) \<in> set cs"
  shows "c = filter (\<lambda>i. root p i r) is \<and> c \<noteq> []"
proof -
  from assms have "map_of cs r = Some c" unfolding grouped_def using map_of_is_SomeI by metis
  with assms(1) show ?thesis unfolding grouped_def by (auto split: list.splits)
qed

lemma grouped_member:
  assumes g: "grouped p is cs" and c: "c \<in> set (map snd cs)" and x: "x \<in> set c"
  shows "x \<in> set is \<and> c = filter (linked p x) is"
proof -
  from c obtain r where rc: "(r, c) \<in> set cs" by auto
  from grouped_entry [OF g this] have c: "c = filter (\<lambda>i. root p i r) is" by simp
  with x have r: "root p x r" "x \<in> set is" by auto
  have "root p i r \<longleftrightarrow> linked p x i" for i using r(1) root_unique by (auto simp: linked_def)
  with c r show ?thesis by (simp cong: filter_cong)
qed

lemma grouped_covers:
  assumes g: "grouped p is cs" and i: "i \<in> set is" and r: "root p i r"
  shows "\<exists>c \<in> set (map snd cs). i \<in> set c"
proof -
  from i r have i': "i \<in> set (filter (\<lambda>i. root p i r) is)" by simp
  have "map_of cs r = (case filter (\<lambda>i. root p i r) is of [] \<Rightarrow> None | xs \<Rightarrow> Some xs)"
    using g by (simp add: grouped_def)
  with i' obtain v where "map_of cs r = Some v" "i \<in> set v"
    by (cases "filter (\<lambda>i. root p i r) is") auto
  then show ?thesis by (force dest: map_of_SomeD)
qed

lemma grouped_nonempty:
  assumes "grouped p is cs" "c \<in> set (map snd cs)"
  shows "c \<noteq> []"
proof -
  from assms(2) obtain r where "(r, c) \<in> set cs" by auto
  from grouped_entry [OF assms(1) this] show ?thesis by (rule conjunct2)
qed

lemma grouped_distinct:
  assumes g: "grouped p is cs"
  shows "distinct (map snd cs)"
proof -
  have "inj_on snd (set cs)"
  proof (rule inj_onI)
    fix a b
    assume ab: "a \<in> set cs" "b \<in> set cs" "snd a = snd b"
    then have "snd a = filter (\<lambda>i. root p i (fst a)) is" "snd a = filter (\<lambda>i. root p i (fst b)) is" "snd a \<noteq> []"
      using grouped_entry [OF g] ab by (metis prod.collapse)+
    then obtain x where "x \<in> set (filter (\<lambda>i. root p i (fst a)) is)" "x \<in> set (filter (\<lambda>i. root p i (fst b)) is)"
      by (metis list.set_intros(1) neq_Nil_conv)
    then have "root p x (fst a)" "root p x (fst b)" by auto
    with ab(3) show "a = b" by (auto dest: root_unique intro: prod_eqI)
  qed
  moreover have "distinct cs" using g by (simp add: grouped_def distinct_map)
  ultimately show ?thesis by (simp add: distinct_map)
qed

lemma components_ok:
  assumes "\<forall>(a, b) \<in> set links. a < n \<and> b < n"
  shows "\<exists>cs. components n links = Some cs \<and> distinct cs \<and> [] \<notin> set cs \<and>
    (\<forall>x < n. \<exists>c \<in> set cs. x \<in> set c) \<and>
    (\<forall>c \<in> set cs. \<forall>x \<in> set c. c = filter (conn n links x) [0 ..< n])"
proof -
  from dsu.unions_components [OF dsu_new_wf assms] dsu_new_linked obtain p where
    p: "unions dsu_union links (dsu_new n) = Some p" "dsu_wf n p"
      "\<forall>x < n. \<forall>y < n. linked p x y \<longleftrightarrow> conn n links x y" by blast
  have "grouped p [] []" by (simp add: grouped_def)
  from group_comps_ok [OF p(2) _ this, of "[0 ..< n]"] obtain cs where
    cs: "group_comps [0 ..< n] p [] = Some cs" "grouped p [0 ..< n] cs" by auto
  have "c = filter (conn n links x) [0 ..< n]" if "c \<in> set (map snd cs)" "x \<in> set c" for c x
    using grouped_member [OF cs(2) that] p(3) by (auto intro: filter_cong)
  moreover have "\<exists>c \<in> set (map snd cs). x \<in> set c" if "x < n" for x
    using forest_root [of p x] grouped_covers [OF cs(2)] p(2) that unfolding dsu_wf_def by auto
  ultimately show ?thesis
    using p(1) cs(1) grouped_nonempty [OF cs(2), of "[]"] grouped_distinct [OF cs(2)]
    unfolding components_def by auto
qed

text \<open>
  C15: the events of a batch are split into the connected components of the recorded links: the two
  loops of \<open>find\<close> end and stay in bounds for every sequence of unions, every event is in a group, no
  group is empty or listed twice, and the group of an event lists, in ascending order, exactly the
  events it is connected to.
\<close>
theorem components_spec:
  assumes "\<forall>(a, b) \<in> set links. a < n \<and> b < n"
  shows "\<exists>cs. components n links = Some cs \<and> distinct cs \<and> [] \<notin> set cs \<and>
    (\<forall>x < n. \<exists>c \<in> set cs. x \<in> set c) \<and>
    (\<forall>c \<in> set cs. \<forall>x \<in> set c. c = filter (conn n links x) [0 ..< n])"
  using assms by (rule components_ok)

theorem components_spec_witness:
  "\<exists>cs. components 4 [(0, 2), (2, 3)] = Some cs \<and> distinct cs \<and> [] \<notin> set cs \<and>
    (\<forall>x < 4. \<exists>c \<in> set cs. x \<in> set c) \<and>
    (\<forall>c \<in> set cs. \<forall>x \<in> set c. c = filter (conn 4 [(0, 2), (2, 3)] x) [0 ..< 4])"
  by (rule components_spec) simp

end
