(* ===== verification/Ingest_Codec.thy ===== *)
theory Ingest_Codec
  imports Core_Event
begin

unbundle bit_operations_syntax

text \<open>
  The codecs of \<open>crates/sigil-ingest\<close>: \<open>codec.rs\<close> (JSON, syslog, raw), \<open>cef.rs\<close> and \<open>leef.rs\<close>. A
  frame is ASCII text, on which \<open>String::from_utf8_lossy\<close> is the identity. The JSON parser of
  \<open>serde_json\<close> is a parameter. The one regular expression of \<open>cef.rs\<close> is a literal of the source;
  \<open>key_matches\<close> lists its leftmost, non-overlapping matches.
\<close>

section \<open>Syslog\<close>

definition str_field :: "string \<Rightarrow> string \<Rightarrow> field_map \<Rightarrow> field_map" where
  "str_field k v m = btree_insert k (JString v) m"

definition nil_to_empty :: "string \<Rightarrow> string" where
  "nil_to_empty s = (if s = ''-'' then [] else s)"

definition strip_structured_data :: "string \<Rightarrow> string" where
  "strip_structured_data s0 =
     (let s = trim_start s0
      in case strip_prefix ''['' s of
           Some rest \<Rightarrow>
             (case find_str '']'' rest of
                Some i \<Rightarrow> trim_start (drop (i + 1) rest)
              | None \<Rightarrow> s)
         | None \<Rightarrow>
             (case strip_prefix ''-'' s of
                Some rest \<Rightarrow> trim_start rest
              | None \<Rightarrow> s))"

definition split_tag :: "string \<Rightarrow> field_map \<Rightarrow> field_map" where
  "split_tag remainder m =
     (case split_once '': '' remainder of
        Some (tag_part, msg) \<Rightarrow>
          let m' = (case split_once ''['' tag_part of
                      Some (tag, pid) \<Rightarrow> str_field ''procid'' (trim_end_matches CHR '']'' pid) (str_field ''app'' tag m)
                    | None \<Rightarrow> str_field ''app'' tag_part m)
          in str_field ''message'' msg m'
      | None \<Rightarrow> str_field ''message'' remainder m)"

definition months :: "string list" where
  "months = [''Jan'', ''Feb'', ''Mar'', ''Apr'', ''May'', ''Jun'', ''Jul'', ''Aug'', ''Sep'', ''Oct'', ''Nov'', ''Dec'']"

definition is_month :: "string \<Rightarrow> bool" where
  "is_month s \<longleftrightarrow> s \<in> set months"

text \<open>The \<open><PRI>\<close> prefix: the fields it gives and the rest of the line.\<close>

definition parse_pri :: "string \<Rightarrow> field_map \<times> string" where
  "parse_pri line =
     (case strip_prefix ''<'' line of
        None \<Rightarrow> ([], line)
      | Some stripped \<Rightarrow>
          (case find_str ''>'' stripped of
             None \<Rightarrow> ([], line)
           | Some i \<Rightarrow>
               ((case parse_unsigned 65535 (take i stripped) of
                   Some pri \<Rightarrow> btree_insert ''syslog_severity'' (JNumber (PosInt (pri AND 7)))
                                (btree_insert ''syslog_facility'' (JNumber (PosInt (drop_bit 3 pri))) [])
                 | None \<Rightarrow> []),
                drop (i + 1) stripped)))"

definition is_5424 :: "string \<Rightarrow> bool" where
  "is_5424 rest =
     (case split_once '' '' rest of
        Some (v, _) \<Rightarrow> v \<noteq> [] \<and> list_all is_digit v \<and> length v \<le> 2
      | None \<Rightarrow> False)"

text \<open>\<open>VERSION TIMESTAMP HOST APP PROCID MSGID [SD] MSG\<close>: each piece the iterator yields is stored.\<close>

definition fields_5424 :: "string list \<Rightarrow> field_map \<Rightarrow> field_map" where
  "fields_5424 ps m =
     fold (\<lambda>(f, v) m. f v m)
       (zip [\<lambda>_ m. m,
             str_field ''timestamp'',
             \<lambda>v. str_field ''host'' (nil_to_empty v),
             \<lambda>v. str_field ''app'' (nil_to_empty v),
             \<lambda>v. str_field ''procid'' (nil_to_empty v),
             \<lambda>v. str_field ''msgid'' (nil_to_empty v),
             \<lambda>v. str_field ''message'' (strip_structured_data v)] ps) m"

definition fields_3164 :: "string \<Rightarrow> field_map \<Rightarrow> field_map" where
  "fields_3164 rest m =
     (let tokens = splitn_char 5 CHR '' '' rest
      in if 4 \<le> length tokens \<and> is_month (tokens ! 0)
         then let m' = str_field ''host'' (tokens ! 3)
                        (str_field ''timestamp'' (tokens ! 0 @ '' '' @ tokens ! 1 @ '' '' @ tokens ! 2) m)
              in if 4 < length tokens then split_tag (tokens ! 4) m' else m'
         else str_field ''message'' rest m)"

definition parse_syslog :: "string \<Rightarrow> raw_record" where
  "parse_syslog line =
     (let (m, rest) = parse_pri line
      in \<lparr>rec_fields = (if is_5424 rest then fields_5424 (splitn_char 7 CHR '' '' rest) m else fields_3164 rest m),
          rec_raw = line\<rparr>)"

section \<open>CEF\<close>

definition cef_dead_letter :: "string \<Rightarrow> string \<Rightarrow> string \<Rightarrow> raw_record" where
  "cef_dead_letter line raw err =
     \<lparr>rec_fields = btree_insert ''decode_error'' (JString err) (btree_insert ''message'' (JString line) []),
      rec_raw = raw\<rparr>"

definition header_keys :: "string list" where
  "header_keys = [''cef_version'', ''device_vendor'', ''device_product'', ''device_version'', ''signature_id'',
     ''name'', ''cef_severity'']"

definition backslash :: char where
  "backslash = char_of (92 :: nat)"

fun split_header_from :: "string list \<Rightarrow> string \<Rightarrow> string \<Rightarrow> string list" where
  "split_header_from parts cur [] = parts @ [cur]"
| "split_header_from parts cur [c] =
     (if c = backslash then parts @ [cur @ [backslash]]
      else if c = CHR ''|'' \<and> length parts < 7 then parts @ [cur, []]
      else parts @ [cur @ [c]])"
| "split_header_from parts cur (c # d # s) =
     (if c = backslash then
        split_header_from parts
          (if d = CHR ''|'' then cur @ ''|''
           else if d = backslash then cur @ [backslash]
           else cur @ [backslash, d]) s
      else if c = CHR ''|'' \<and> length parts < 7 then split_header_from (parts @ [cur]) [] (d # s)
      else split_header_from parts (cur @ [c]) (d # s))"

definition split_header :: "string \<Rightarrow> string list" where
  "split_header body = split_header_from [] [] body"

definition is_letter :: "char \<Rightarrow> bool" where
  "is_letter c \<longleftrightarrow> is_alnum c \<and> \<not> is_digit c"

definition key_char :: "char \<Rightarrow> bool" where
  "key_char c \<longleftrightarrow> is_alnum c \<or> c = CHR ''_'' \<or> c = CHR ''.''"

text \<open>The matches of \<open>([A-Za-z][A-Za-z0-9_.]*)=\<close> from offset \<open>i\<close> on: key, end and start.\<close>

function key_matches :: "nat \<Rightarrow> string \<Rightarrow> (string \<times> nat \<times> nat) list" where
  "key_matches i [] = []"
| "key_matches i (c # s) =
     (let w = takeWhile key_char s; r = dropWhile key_char s
      in if is_letter c \<and> r \<noteq> [] \<and> hd r = CHR ''=''
         then (c # w, i + length w + 2, i) # key_matches (i + length w + 2) (tl r)
         else key_matches (i + 1) s)"
  by pat_completeness auto

termination
proof (relation "measure (\<lambda>(_, s). length s)")
  fix i :: nat and c :: char and s w r :: string
  assume "r = dropWhile key_char s"
  then show "((i + length w + 2, tl r), i, c # s) \<in> measure (\<lambda>(_, s). length s)"
    using length_dropWhile_le [of key_char s] by simp
qed auto

text \<open>\<open>u8::is_ascii_whitespace\<close>: unlike \<open>char::is_whitespace\<close> without the vertical tab.\<close>

definition is_ascii_whitespace :: "char \<Rightarrow> bool" where
  "is_ascii_whitespace c \<longleftrightarrow> is_space c \<and> of_char c \<noteq> (11 :: nat)"

definition ext_keys :: "string \<Rightarrow> (string \<times> nat \<times> nat) list" where
  "ext_keys ext = filter (\<lambda>(_, _, start). start = 0 \<or> is_ascii_whitespace (ext ! (start - 1))) (key_matches 0 ext)"

fun unescape_from :: "string \<Rightarrow> string" where
  "unescape_from [] = []"
| "unescape_from [c] = [c]"
| "unescape_from (c # d # s) =
     (if c = backslash then
        (if d = CHR ''='' then [d]
         else if d = backslash then [d]
         else if d = CHR ''n'' then [char_of (10 :: nat)]
         else if d = CHR ''r'' then [char_of (13 :: nat)]
         else [c, d]) @ unescape_from s
      else c # unescape_from (d # s))"

definition unescape :: "string \<Rightarrow> string" where
  "unescape s = (if backslash \<notin> set s then s else unescape_from s)"

definition slice :: "string \<Rightarrow> nat \<Rightarrow> nat \<Rightarrow> string" where
  "slice s a b = take (b - a) (drop a s)"

fun ext_pairs :: "string \<Rightarrow> (string \<times> nat \<times> nat) list \<Rightarrow> (string \<times> string) list" where
  "ext_pairs ext [] = []"
| "ext_pairs ext ((k, a, _) # ks) =
     (k, unescape (trim (slice ext a (case ks of [] \<Rightarrow> length ext | (_, _, start) # _ \<Rightarrow> start)))) # ext_pairs ext ks"

definition insert_strings :: "(string \<times> string) list \<Rightarrow> field_map \<Rightarrow> field_map" where
  "insert_strings ps m = fold (\<lambda>(k, v). btree_insert k (JString v)) ps m"

definition parse_extension :: "string \<Rightarrow> field_map \<Rightarrow> field_map" where
  "parse_extension ext m = insert_strings (ext_pairs ext (ext_keys ext)) m"

definition parse_cef :: "string \<Rightarrow> string \<Rightarrow> raw_record" where
  "parse_cef line raw =
     (case find_str ''CEF:'' line of
        None \<Rightarrow> cef_dead_letter line raw ''no CEF: header''
      | Some i \<Rightarrow>
          let parts = split_header (drop (i + 4) line)
          in if length parts < 7 then cef_dead_letter line raw ''incomplete CEF header''
             else let m = btree_insert ''message'' (JString (parts ! 5)) (insert_strings (zip header_keys parts) [])
                  in \<lparr>rec_fields = (if 7 < length parts then parse_extension (parts ! 7) m else m), rec_raw = raw\<rparr>)"

section \<open>LEEF\<close>

text \<open>\<open>u32::from_str_radix(_, 16)\<close>: an optional plus sign, at least one digit, no overflow.\<close>

definition parse_hex_u32 :: "string \<Rightarrow> nat option" where
  "parse_hex_u32 s =
     (let ds = (case s of c # r \<Rightarrow> if c = CHR ''+'' then r else s | [] \<Rightarrow> []);
          n = foldl (\<lambda>n c. 16 * n + (case hex_val c of Some d \<Rightarrow> d | None \<Rightarrow> 0)) 0 ds
      in if ds \<noteq> [] \<and> list_all (\<lambda>c. hex_val c \<noteq> None) ds \<and> n < 2 ^ 32 then Some n else None)"

text \<open>\<open>char::from_u32\<close>: code points without the surrogates.\<close>

definition from_u32 :: "nat \<Rightarrow> nat option" where
  "from_u32 n = (if n < 1114112 \<and> \<not> (55296 \<le> n \<and> n \<le> 57343) then Some n else None)"

definition tab :: nat where
  "tab = 9"

text \<open>The delimiter is a code point; one outside ASCII does not occur in the text.\<close>

definition parse_delim :: "string \<Rightarrow> nat" where
  "parse_delim spec =
     (let s = trim spec;
          hex = (case strip_prefix ''0x'' s of Some h \<Rightarrow> Some h | None \<Rightarrow> strip_prefix ''x'' s);
          first = (case s of [] \<Rightarrow> tab | c # _ \<Rightarrow> of_char c)
      in if s = [] then tab
         else case hex of
                None \<Rightarrow> first
              | Some h \<Rightarrow>
                  (case parse_hex_u32 h of
                     None \<Rightarrow> first
                   | Some n \<Rightarrow> (case from_u32 n of Some c \<Rightarrow> c | None \<Rightarrow> first)))"

definition split_at :: "nat \<Rightarrow> string \<Rightarrow> string list" where
  "split_at d s = (if d < 128 then split_char (char_of d) s else [s])"

fun insert_attrs :: "string list \<Rightarrow> field_map \<Rightarrow> field_map" where
  "insert_attrs [] m = m"
| "insert_attrs (p # ps) m =
     insert_attrs ps
       (case split_once ''='' p of
          None \<Rightarrow> m
        | Some (k, v) \<Rightarrow> if trim k = [] then m else btree_insert (trim k) (JString v) m)"

definition leef_message :: "field_map \<Rightarrow> string \<Rightarrow> string" where
  "leef_message m event_id =
     (case map_of m ''msg'' of Some (JString s) \<Rightarrow> s | _ \<Rightarrow> ''LEEF event '' @ event_id)"

definition parse_leef :: "string \<Rightarrow> string \<Rightarrow> raw_record" where
  "parse_leef line raw =
     (case find_str ''LEEF:'' line of
        None \<Rightarrow> cef_dead_letter line raw ''no LEEF: header''
      | Some i \<Rightarrow>
          (case split_once ''|'' (drop (i + 5) line) of
             None \<Rightarrow> cef_dead_letter line raw ''incomplete LEEF header''
           | Some (version, after_ver) \<Rightarrow>
               let is_v2 = prefix ''2'' (trim version);
                   non_attr = (if is_v2 then 5 else 4);
                   segs = splitn_char (non_attr + 1) CHR ''|'' after_ver
               in if length segs < non_attr + 1 then cef_dead_letter line raw ''incomplete LEEF header''
                  else let m = insert_strings
                             [(''leef_version'', trim version), (''device_vendor'', segs ! 0), (''device_product'', segs ! 1),
                              (''device_version'', segs ! 2), (''event_id'', segs ! 3)] [];
                           (delim, attrs) = (if is_v2 then (parse_delim (segs ! 4), segs ! 5) else (tab, segs ! 4));
                           m' = insert_attrs (split_at delim attrs) m
                       in \<lparr>rec_fields = btree_insert ''message'' (JString (leef_message m' (segs ! 3))) m', rec_raw = raw\<rparr>))"

section \<open>JSON, raw frames and the choice of codec\<close>

type_synonym json_parser = "string \<Rightarrow> string + json"

definition codec_dead_letter :: "string \<Rightarrow> string \<Rightarrow> raw_record" where
  "codec_dead_letter raw err =
     \<lparr>rec_fields = str_field ''decode_error'' err (str_field ''message'' raw []), rec_raw = raw\<rparr>"

definition record_from_json :: "json \<Rightarrow> string \<Rightarrow> raw_record" where
  "record_from_json v raw =
     \<lparr>rec_fields = (case v of
        JObject ps \<Rightarrow> fold (\<lambda>(k, w). btree_insert k w) ps []
      | _ \<Rightarrow> btree_insert ''message'' v []),
      rec_raw = raw\<rparr>"

definition decode_json :: "json_parser \<Rightarrow> string \<Rightarrow> raw_record list" where
  "decode_json from_slice raw =
     (case from_slice raw of
        Inl err \<Rightarrow> [codec_dead_letter raw err]
      | Inr v \<Rightarrow> map (\<lambda>x. record_from_json x raw) (case v of JArray xs \<Rightarrow> xs | _ \<Rightarrow> [v]))"

definition decode_raw :: "string \<Rightarrow> raw_record list" where
  "decode_raw raw = [\<lparr>rec_fields = str_field ''message'' raw [], rec_raw = raw\<rparr>]"

datatype codec = JsonCodec | SyslogCodec | CefCodec | LeefCodec | RawCodec

definition build_codec :: "string \<Rightarrow> codec" where
  "build_codec kind =
     (if kind = ''json'' then JsonCodec else if kind = ''syslog'' then SyslogCodec
      else if kind = ''cef'' then CefCodec else if kind = ''leef'' then LeefCodec else RawCodec)"

text \<open>\<open>Codec::decode\<close> of the five codecs; none of them has an error path.\<close>

fun decode :: "json_parser \<Rightarrow> codec \<Rightarrow> string \<Rightarrow> raw_record list result" where
  "decode from_slice JsonCodec raw = Inr (decode_json from_slice raw)"
| "decode from_slice SyslogCodec raw = Inr [parse_syslog (trim_end raw)]"
| "decode from_slice CefCodec raw = Inr [parse_cef (trim_end raw) raw]"
| "decode from_slice LeefCodec raw = Inr [parse_leef (trim_end raw) raw]"
| "decode from_slice RawCodec raw = Inr (decode_raw raw)"

section \<open>Fields are ordered maps\<close>

lemma insert_strings_wf: "btree_wf m \<Longrightarrow> btree_wf (insert_strings ps m)"
  unfolding insert_strings_def by (induction ps arbitrary: m) auto

lemma map_of_insert_strings:
  "map_of (insert_strings ps m) k = (case map_of (rev ps) k of Some v \<Rightarrow> Some (JString v) | None \<Rightarrow> map_of m k)"
  unfolding insert_strings_def
  by (induction ps arbitrary: m) (auto simp: map_of_btree_insert map_add_def split: option.splits)

lemma distinct_map_of_rev: "distinct (map fst ps) \<Longrightarrow> map_of (rev ps) = map_of ps"
  by (subst map_of_inject_set) (simp_all add: rev_map [symmetric])

section \<open>CEF lines as devices print them\<close>

text \<open>
  The printer of the format: header fields with \<open>|\<close> and backslash escaped, extension values with
  \<open>=\<close> and line breaks escaped, pairs separated by blanks. Backslashes in values are left out; the
  section after the next shows why.
\<close>

definition header_escape :: "string \<Rightarrow> string" where
  "header_escape s = concat (map (\<lambda>c. if c = CHR ''|'' \<or> c = backslash then [backslash, c] else [c]) s)"

definition value_escape :: "string \<Rightarrow> string" where
  "value_escape s = concat (map (\<lambda>c.
     if c = CHR ''='' then [backslash, c]
     else if c = char_of (10 :: nat) then [backslash, CHR ''n'']
     else if c = char_of (13 :: nat) then [backslash, CHR ''r'']
     else [c]) s)"

fun print_ext :: "(string \<times> string) list \<Rightarrow> string" where
  "print_ext [] = []"
| "print_ext [(k, v)] = k @ ''='' @ value_escape v"
| "print_ext ((k, v) # p # ps) = k @ ''='' @ value_escape v @ '' '' @ print_ext (p # ps)"

definition print_cef :: "string list \<Rightarrow> (string \<times> string) list \<Rightarrow> string" where
  "print_cef hs exts = ''CEF:'' @ concat (map (\<lambda>h. header_escape h @ ''|'') hs) @ print_ext exts"

definition ext_key :: "string \<Rightarrow> bool" where
  "ext_key k \<longleftrightarrow> k \<noteq> [] \<and> is_letter (hd k) \<and> list_all key_char k"

definition ext_value :: "string \<Rightarrow> bool" where
  "ext_value v \<longleftrightarrow> backslash \<notin> set v \<and> (v = [] \<or> \<not> is_space (hd v) \<and> \<not> is_space (last v))"

lemma header_escape_simps:
  "header_escape [] = []"
  "header_escape (c # s) = (if c = CHR ''|'' \<or> c = backslash then [backslash, c] else [c]) @ header_escape s"
  by (simp_all add: header_escape_def)

lemma backslash_neq [simp]:
  "backslash \<noteq> CHR ''|''" "backslash \<noteq> CHR ''=''" "backslash \<noteq> CHR '' ''" "backslash \<noteq> CHR ''n''" "backslash \<noteq> CHR ''r''"
  "CHR ''|'' \<noteq> backslash" "CHR ''='' \<noteq> backslash" "CHR '' '' \<noteq> backslash" "CHR ''n'' \<noteq> backslash" "CHR ''r'' \<noteq> backslash"
  "\<not> key_char backslash" "\<not> is_space backslash"
  by (simp_all add: backslash_def key_char_def is_alnum_def is_space_def char_of_def bit_iff_odd)

lemma split_header_plain:
  "c \<noteq> backslash \<Longrightarrow> c \<noteq> CHR ''|'' \<or> \<not> length parts < 7 \<Longrightarrow>
   split_header_from parts cur (c # s) = split_header_from parts (cur @ [c]) s"
  by (cases s) auto

lemma split_header_bar:
  "length parts < 7 \<Longrightarrow> split_header_from parts cur (CHR ''|'' # s) = split_header_from (parts @ [cur]) [] s"
  by (cases s) auto

lemma split_header_field:
  assumes "length parts < 7"
  shows "split_header_from parts cur (header_escape h @ ''|'' @ s) = split_header_from (parts @ [cur @ h]) [] s"
proof (induction h arbitrary: cur)
  case Nil
  then show ?case using assms by (simp add: header_escape_simps split_header_bar)
next
  case (Cons c h)
  have "split_header_from parts cur (header_escape (c # h) @ ''|'' @ s)
      = split_header_from parts (cur @ [c]) (header_escape h @ ''|'' @ s)"
    by (simp add: header_escape_simps split_header_plain)
  with Cons.IH show ?case by simp
qed

lemma split_header_fields:
  "length parts + length hs \<le> 7 \<Longrightarrow>
   split_header_from parts [] (concat (map (\<lambda>h. header_escape h @ ''|'') hs) @ s) = split_header_from (parts @ hs) [] s"
proof (induction hs arbitrary: parts)
  case Nil
  then show ?case by simp
next
  case (Cons h hs)
  then show ?case using split_header_field [of parts "[]" h] by simp
qed

text \<open>Text whose backslashes are followed by neither a bar nor a backslash passes the header scan.\<close>

fun unbarred :: "string \<Rightarrow> bool" where
  "unbarred [] = True"
| "unbarred [c] = (c \<noteq> backslash)"
| "unbarred (c # d # s) =
     (if c = backslash then d \<noteq> CHR ''|'' \<and> d \<noteq> backslash \<and> unbarred s else unbarred (d # s))"

lemma unbarred_Cons: "c \<noteq> backslash \<Longrightarrow> unbarred (c # s) = unbarred s"
  by (cases s) auto

lemma split_header_tail:
  "\<not> length parts < 7 \<Longrightarrow> unbarred s \<Longrightarrow> split_header_from parts cur s = parts @ [cur @ s]"
  by (induction s arbitrary: cur rule: unbarred.induct) (auto split: if_splits)

lemma unbarred_append: "unbarred s \<Longrightarrow> unbarred (s @ t) = unbarred t"
  by (induction s rule: unbarred.induct) (auto simp: unbarred_Cons split: if_splits)

lemma unbarred_plain: "backslash \<notin> set s \<Longrightarrow> unbarred s"
  by (induction s) (auto simp: unbarred_Cons)

lemma value_escape_simps:
  "value_escape [] = []"
  "value_escape (c # s) =
     (if c = CHR ''='' then [backslash, c]
      else if c = char_of (10 :: nat) then [backslash, CHR ''n'']
      else if c = char_of (13 :: nat) then [backslash, CHR ''r'']
      else [c]) @ value_escape s"
  by (simp_all add: value_escape_def)

lemma unbarred_value: "backslash \<notin> set v \<Longrightarrow> unbarred (value_escape v)"
  by (induction v) (auto simp: value_escape_simps unbarred_Cons)

lemma ext_key_no_backslash: "ext_key k \<Longrightarrow> backslash \<notin> set k"
  by (auto simp: ext_key_def list_all_iff)

lemma unbarred_ext:
  "list_all (\<lambda>(k, v). ext_key k \<and> ext_value v) ps \<Longrightarrow> unbarred (print_ext ps)"
proof (induction ps rule: print_ext.induct)
  case 1
  then show ?case by simp
next
  case (2 k v)
  then show ?case using unbarred_plain [OF ext_key_no_backslash [of k]]
    by (simp add: unbarred_append unbarred_Cons unbarred_value ext_value_def)
next
  case (3 k v p ps)
  then show ?case using unbarred_plain [OF ext_key_no_backslash [of k]]
    by (simp add: unbarred_append unbarred_Cons unbarred_value ext_value_def)
qed

section \<open>Keys of an extension\<close>

text \<open>Text in which every equals sign is escaped; the flag says that a backslash precedes it.\<close>

fun quiet :: "bool \<Rightarrow> string \<Rightarrow> bool" where
  "quiet b [] = True"
| "quiet b (c # s) = ((c = CHR ''='' \<longrightarrow> b) \<and> quiet (c = backslash) s)"

lemma quiet_value: "backslash \<notin> set v \<Longrightarrow> quiet b (value_escape v)"
  by (induction v arbitrary: b) (auto simp: value_escape_simps)

lemma key_char_not [simp]: "\<not> key_char CHR ''=''" "\<not> key_char CHR '' ''" "\<not> is_letter CHR '' ''"
  by (simp_all add: key_char_def is_letter_def is_alnum_def)

lemma quiet_run: "quiet False s \<Longrightarrow> dropWhile key_char s = d # r \<Longrightarrow> d \<noteq> CHR ''=''"
proof (induction s)
  case Nil
  then show ?case by simp
next
  case (Cons c s)
  show ?case
  proof (cases "key_char c")
    case True
    then have "c \<noteq> backslash" by auto
    with True Cons show ?thesis by simp
  next
    case False
    with Cons.prems show ?thesis by auto
  qed
qed

lemma is_letter_not_backslash: "is_letter c \<Longrightarrow> c \<noteq> backslash"
  by (auto simp: is_letter_def backslash_def is_alnum_def)

lemma key_matches_quiet_end: "quiet b e \<Longrightarrow> key_matches i e = []"
proof (induction e arbitrary: i b)
  case Nil
  then show ?case by simp
next
  case (Cons c e)
  have "is_letter c \<Longrightarrow> dropWhile key_char e \<noteq> [] \<Longrightarrow> hd (dropWhile key_char e) \<noteq> CHR ''=''"
    using Cons.prems is_letter_not_backslash [of c] quiet_run [of e] by (cases "dropWhile key_char e") auto
  with Cons show ?case by (auto simp: Let_def)
qed

lemma dropWhile_blank: "dropWhile key_char (e @ '' '' @ t) = dropWhile key_char e @ '' '' @ t"
  by (induction e) auto

lemma key_matches_quiet: "quiet b e \<Longrightarrow> key_matches i (e @ '' '' @ t) = key_matches (i + length e + 1) t"
proof (induction e arbitrary: i b)
  case Nil
  then show ?case by (simp add: Let_def)
next
  case (Cons c e)
  note quiet = Cons.prems
  have "\<not> (is_letter c \<and> hd (dropWhile key_char e @ '' '' @ t) = CHR ''='')"
  proof (cases "dropWhile key_char e")
    case (Cons d r)
    with quiet is_letter_not_backslash [of c] quiet_run [of e d r] show ?thesis by auto
  next
    case Nil
    then show ?thesis by (simp only: append_Nil) simp
  qed
  then have "key_matches i ((c # e) @ '' '' @ t) = key_matches (i + 1) (e @ '' '' @ t)"
    using dropWhile_blank [of e t] by (auto simp: Let_def)
  with Cons show ?case by auto
qed

lemma key_matches_key:
  assumes "ext_key k"
  shows "key_matches i (k @ ''='' @ s) = (k, i + length k + 1, i) # key_matches (i + length k + 1) s"
proof -
  obtain c w where k: "k = c # w" using assms by (cases k) (auto simp: ext_key_def)
  then have w: "list_all key_char w" "is_letter c" using assms by (auto simp: ext_key_def)
  have "takeWhile key_char (w @ ''='' @ s) = w" "dropWhile key_char (w @ ''='' @ s) = ''='' @ s"
    using w(1) by (auto simp: list_all_iff takeWhile_append2 dropWhile_append2)
  then show ?thesis using k w by (simp add: Let_def)
qed

fun positions :: "nat \<Rightarrow> (string \<times> string) list \<Rightarrow> (string \<times> nat \<times> nat) list" where
  "positions i [] = []"
| "positions i ((k, v) # ps) =
     (k, i + length k + 1, i) # positions (i + length k + 1 + length (value_escape v) + 1) ps"

definition ext_ok :: "(string \<times> string) list \<Rightarrow> bool" where
  "ext_ok ps \<longleftrightarrow> list_all (\<lambda>(k, v). ext_key k \<and> ext_value v) ps"

lemma ext_ok_simps [simp]: "ext_ok []" "ext_ok ((k, v) # ps) \<longleftrightarrow> ext_key k \<and> ext_value v \<and> ext_ok ps"
  by (auto simp: ext_ok_def)

lemma key_matches_print: "ext_ok ps \<Longrightarrow> key_matches i (print_ext ps) = positions i ps"
proof (induction ps arbitrary: i rule: print_ext.induct)
  case 1
  then show ?case by simp
next
  case (2 k v)
  then show ?case
    using key_matches_quiet_end [OF quiet_value] by (simp add: key_matches_key [simplified] ext_value_def)
next
  case (3 k v p ps)
  then have "key_matches j (value_escape v @ '' '' @ print_ext (p # ps)) = positions (j + length (value_escape v) + 1) (p # ps)" for j
    using key_matches_quiet [OF quiet_value] by (simp add: ext_value_def)
  with 3 show ?case by (simp add: key_matches_key [simplified] del: positions.simps(2))
     (simp add: algebra_simps)
qed

lemma blank_before:
  assumes "pre = [] \<or> last pre = CHR '' ''"
  shows "length pre = 0 \<or> is_ascii_whitespace ((pre @ s) ! (length pre - 1))"
proof (cases pre rule: rev_cases)
  case (snoc us c)
  with assms show ?thesis by (simp add: nth_append is_ascii_whitespace_def)
qed simp

lemma positions_accepted:
  assumes "pre = [] \<or> last pre = CHR '' ''" and "ext = pre @ print_ext ps"
  shows "list_all (\<lambda>(_, _, start). start = 0 \<or> is_ascii_whitespace (ext ! (start - 1))) (positions (length pre) ps)"
  using assms
proof (induction ps arbitrary: pre rule: print_ext.induct)
  case 1
  then show ?case by simp
next
  case (2 k v)
  then show ?case using blank_before [of pre] by simp
next
  case (3 k v p ps)
  let ?pre = "pre @ k @ ''='' @ value_escape v @ '' ''"
  have "list_all (\<lambda>(_, _, start). start = 0 \<or> is_ascii_whitespace (ext ! (start - 1))) (positions (length ?pre) (p # ps))"
    using 3 by (intro "3.IH") auto
  moreover have "pre = [] \<or> is_ascii_whitespace (ext ! (length pre - 1))"
    using 3 blank_before [of pre] by simp
  ultimately show ?case by (cases p) (simp add: add.assoc)
qed

lemma ext_keys_print: "ext_ok ps \<Longrightarrow> ext_keys (print_ext ps) = positions 0 ps"
  using positions_accepted [of "[]" "print_ext ps" ps] unfolding ext_keys_def key_matches_print
  by (simp add: key_matches_print list_all_iff)

lemma hd_value_escape: "v \<noteq> [] \<Longrightarrow> hd (value_escape v) \<in> {hd v, backslash}"
  by (cases v) (auto simp: value_escape_simps)

lemma space_value_escape:
  assumes "ext_value v"
  shows "value_escape v = [] \<or> \<not> is_space (hd (value_escape v)) \<and> \<not> is_space (last (value_escape v))"
proof (cases v rule: rev_cases)
  case (snoc us c)
  have "last (value_escape v) \<in> {c, CHR ''n'', CHR ''r''}"
    by (simp add: snoc value_escape_def)
  moreover have "hd (value_escape v) \<in> {hd v, backslash}"
    using snoc by (intro hd_value_escape) simp
  moreover have "\<not> is_space CHR ''n''" "\<not> is_space CHR ''r''" by (simp_all add: is_space_def)
  ultimately show ?thesis using assms snoc by (auto simp: ext_value_def)
qed (simp add: value_escape_def)

lemma unescape_from_plain: "c \<noteq> backslash \<Longrightarrow> unescape_from (c # s) = c # unescape_from s"
  by (cases s) auto

lemma unescape_from_value: "backslash \<notin> set v \<Longrightarrow> unescape_from (value_escape v) = v"
  by (induction v) (auto simp: value_escape_simps unescape_from_plain)

lemma unescape_value: "backslash \<notin> set v \<Longrightarrow> unescape (value_escape v) = v"
proof -
  assume v: "backslash \<notin> set v"
  have "backslash \<notin> set s \<Longrightarrow> unescape_from s = s" for s
    by (induction s) (auto simp: unescape_from_plain)
  with v show ?thesis using unescape_from_value [of v] by (metis unescape_def)
qed

lemma trim_value: "ext_value v \<Longrightarrow> unescape (trim (value_escape v)) = v"
  using space_value_escape [of v] by (simp add: trim_noop unescape_value ext_value_def)

lemma trim_value_blank:
  assumes "ext_value v"
  shows "unescape (trim (value_escape v @ '' '')) = v"
proof -
  have "trim (value_escape v @ '' '') = trim (value_escape v)"
    using space_value_escape [OF assms]
    by (cases "value_escape v") (auto simp: trim_def trim_start_def trim_end_def)
  with trim_value [OF assms] show ?thesis by simp
qed

lemma slice_mid: "slice (a @ b @ c) (length a) (length a + length b) = b"
  by (simp add: slice_def)

lemma ext_pairs_print:
  "ext_ok ps \<Longrightarrow> ext = pre @ print_ext ps \<Longrightarrow> ext_pairs ext (positions (length pre) ps) = ps"
proof (induction ps arbitrary: pre rule: print_ext.induct)
  case 1
  then show ?case by simp
next
  case (2 k v)
  then show ?case using slice_mid [of "pre @ k @ ''=''" "value_escape v" "[]"] by (simp add: trim_value add.assoc)
next
  case (3 k v p ps)
  let ?pre = "pre @ k @ ''=''" and ?val = "value_escape v @ '' ''"
  have "ext_pairs ext (positions (length (?pre @ ?val)) (p # ps)) = p # ps"
    using 3 by (intro "3.IH") auto
  moreover have "slice ext (length ?pre) (length ?pre + length ?val) = ?val"
    using 3 slice_mid [of ?pre ?val "print_ext (p # ps)"] by simp
  moreover have "unescape (trim ?val) = v" using 3 by (intro trim_value_blank) simp
  ultimately show ?case by (cases p) (simp add: add.assoc)
qed

lemma parse_extension_print:
  "ext_ok ps \<Longrightarrow> parse_extension (print_ext ps) m = insert_strings ps m"
  using ext_pairs_print [of ps "print_ext ps" "[]"] by (simp add: parse_extension_def ext_keys_print)

lemma split_header_print:
  assumes "length hs = 7" and "ext_ok exts"
  shows "split_header (concat (map (\<lambda>h. header_escape h @ ''|'') hs) @ print_ext exts) = hs @ [print_ext exts]"
  using split_header_fields [of "[]" hs "print_ext exts"] split_header_tail [of hs "print_ext exts" "[]"]
    unbarred_ext [of exts] assms by (simp add: split_header_def ext_ok_def)

text \<open>
  C13: A CEF line whose extension values hold no backslash and neither start nor end with white space,
  printed as the format prescribes, is decoded to what it says: the seven header fields, with any bars
  and backslashes in them, under their names, the name also as the message, and every extension pair
  with its value, blanks, bars, equals signs and inner line breaks included; an extension key with
  the name of a header field replaces it. White space around a value is trimmed, and a value with a
  backslash is not given back (\<open>cef_value_unescaped_twice\<close>).
\<close>

theorem cef_roundtrip:
  assumes "length hs = 7" and "ext_ok exts" and "distinct (map fst exts)"
  shows "map_of (rec_fields (parse_cef (print_cef hs exts) raw)) k =
      (case map_of exts k of
         Some v \<Rightarrow> Some (JString v)
       | None \<Rightarrow> if k = ''message'' then Some (JString (hs ! 5)) else map_option JString (map_of (zip header_keys hs) k))"
proof -
  have find: "find_str ''CEF:'' (''CEF:'' @ s) = Some 0" for s by simp
  have dist: "distinct (map fst (zip header_keys hs))" using assms(1) by (simp add: header_keys_def)
  have zip: "zip header_keys (hs @ [e]) = zip header_keys hs" for e
    using assms(1) by (simp add: zip_append2 header_keys_def)
  let ?m = "btree_insert ''message'' (JString (hs ! 5)) (insert_strings (zip header_keys hs) [])"
  have "rec_fields (parse_cef (print_cef hs exts) raw) = insert_strings exts ?m"
    using assms find split_header_print [OF assms(1,2)]
    by (simp add: parse_cef_def print_cef_def Let_def zip nth_append parse_extension_print)
  then show ?thesis
    using assms(3) dist
    by (simp add: map_of_insert_strings map_of_btree_insert distinct_map_of_rev split: option.splits)
qed

theorem cef_roundtrip_witness:
  "map_of (rec_fields (parse_cef (print_cef [''0'', ''V|1'', ''P'', ''1.0'', ''100'', ''worm'', ''10''] [(''src'', ''a b=c'')]) [])) ''src''
     = Some (JString ''a b=c'')"
  using cef_roundtrip [of "[''0'', ''V|1'', ''P'', ''1.0'', ''100'', ''worm'', ''10'']" "[(''src'', ''a b=c'')]" "[]" "''src''"]
  by (simp add: ext_ok_def ext_key_def ext_value_def backslash_def is_letter_def key_char_def string_eval)

section \<open>Backslashes in CEF values\<close>

text \<open>
  Extension values are unescaped twice: the scan for the header fields, which already turns an
  escaped backslash into a backslash, runs over the extension too, and \<open>unescape\<close> runs again over
  its result. A path printed as \<open>C:\\new\<close>, as the format prescribes, is decoded with a line break in
  place of the backslash and the letter after it.
\<close>

theorem cef_value_unescaped_twice:
  "map_of (rec_fields (parse_cef (''CEF:0|V|P|1|1|worm|5|path=C:'' @ [backslash, backslash] @ ''new'') [])) ''path''
     = Some (JString (''C:'' @ [char_of (10 :: nat)] @ ''ew'')) \<and>
   unescape (''C:'' @ [backslash, backslash] @ ''new'') = ''C:'' @ [backslash] @ ''new''"
  by (simp add: parse_cef_def split_header_def backslash_def string_eval header_keys_def insert_strings_def
      parse_extension_def ext_keys_def key_char_def is_letter_def slice_def unescape_def)

section \<open>Syslog lines as devices print them\<close>

lemma splitn_char_Cons:
  "d \<notin> set w \<Longrightarrow> splitn_char (Suc (Suc n)) d (w @ d # s) = w # splitn_char (Suc n) d s"
proof -
  assume "d \<notin> set w"
  then have "takeWhile (\<lambda>c. c \<noteq> d) (w @ d # s) = w" "dropWhile (\<lambda>c. c \<noteq> d) (w @ d # s) = d # s"
    by (induction w) auto
  then show ?thesis by simp
qed

lemma find_str_single: "c \<notin> set w \<Longrightarrow> find_str [c] (w @ c # s) = Some (length w)"
  by (induction w) auto

lemma split_once_single: "c \<notin> set w \<Longrightarrow> split_once [c] (w @ c # s) = Some (w, s)"
  by (simp add: split_once_def find_str_single)

definition no_blank :: "string \<Rightarrow> bool" where
  "no_blank s \<longleftrightarrow> CHR '' '' \<notin> set s"

definition pri_fields :: "nat \<Rightarrow> field_map" where
  "pri_fields pri = btree_insert ''syslog_severity'' (JNumber (PosInt (pri mod 8)))
     (btree_insert ''syslog_facility'' (JNumber (PosInt (pri div 8))) [])"

lemma and_7: "(n :: nat) AND 7 = n mod 8"
  using take_bit_eq_mask [of 3 n] by (simp add: take_bit_eq_mod mask_eq_exp_minus_1)

lemma parse_pri_print:
  assumes "pri \<le> 65535"
  shows "parse_pri (''<'' @ show_nat pri @ ''>'' @ rest) = (pri_fields pri, rest)"
proof -
  have "CHR ''>'' \<notin> set (show_nat pri)"
    using show_nat_digits [of pri] by (auto simp: list_all_iff is_digit_def)
  then have "find_str ''>'' (show_nat pri @ CHR ''>'' # rest) = Some (length (show_nat pri))"
    by (rule find_str_single)
  then show ?thesis
    using assms by (simp add: parse_pri_def strip_prefix_def parse_unsigned_show_nat pri_fields_def and_7 drop_bit_eq_div)
qed

text \<open>
  A line of RFC 5424 is decoded to what it says: priority \<open>8 * facility + severity\<close> is split into
  the two, and the parts of the header, a dash standing for none, and the message are stored under
  their names.
\<close>

theorem syslog_5424_roundtrip:
  assumes "8 * facility + severity \<le> 65535" and "severity < 8"
    and "no_blank ts" "no_blank host" "no_blank app" "no_blank procid" "no_blank msgid" and "trim_start msg = msg"
  shows "map_of (rec_fields (parse_syslog (''<'' @ show_nat (8 * facility + severity) @ ''>1 '' @ ts @ '' '' @ host @ '' '' @
        app @ '' '' @ procid @ '' '' @ msgid @ '' - '' @ msg))) k =
      map_of [(''syslog_facility'', JNumber (PosInt facility)), (''syslog_severity'', JNumber (PosInt severity)),
        (''timestamp'', JString ts), (''host'', JString (nil_to_empty host)), (''app'', JString (nil_to_empty app)),
        (''procid'', JString (nil_to_empty procid)), (''msgid'', JString (nil_to_empty msgid)), (''message'', JString msg)] k"
proof -
  let ?rest = "''1'' @ '' '' @ ts @ '' '' @ host @ '' '' @ app @ '' '' @ procid @ '' '' @ msgid @ '' '' @ (''- '' @ msg)"
  have pri: "parse_pri (''<'' @ show_nat (8 * facility + severity) @ ''>'' @ ?rest) =
      (pri_fields (8 * facility + severity), ?rest)"
    using assms(1) by (rule parse_pri_print)
  have v: "is_5424 ?rest"
    using split_once_single [of "CHR '' ''" "''1''"] by (simp add: is_5424_def is_digit_def)
  have ps: "splitn_char 7 CHR '' '' ?rest = [''1'', ts, host, app, procid, msgid, ''- '' @ msg]"
    using assms(3-7) splitn_char_Cons [of "CHR '' ''" "''1''"]
    by (simp add: no_blank_def numeral_eq_Suc splitn_char_Cons del: splitn_char.simps(3))
  have sd: "strip_structured_data (''- '' @ msg) = msg"
    using assms(8) by (simp add: strip_structured_data_def strip_prefix_def trim_start_def is_space_def)
  have div: "(8 * facility + severity) div 8 = facility" "(8 * facility + severity) mod 8 = severity"
    using assms(2) by auto
  show ?thesis
    using pri v ps sd assms(2)
    by (simp add: parse_syslog_def fields_5424_def str_field_def map_of_btree_insert pri_fields_def div)
qed

theorem syslog_5424_roundtrip_witness:
  "map_of (rec_fields (parse_syslog (''<'' @ show_nat (8 * 4 + 2) @ ''>1 '' @ ''2003-10-11T22:14:15Z'' @ '' '' @ ''web'' @ '' '' @
      ''su'' @ '' '' @ ''-'' @ '' '' @ ''ID47'' @ '' - '' @ ''failed for root''))) ''host'' = Some (JString ''web'')"
  using syslog_5424_roundtrip [of 4 2 "''2003-10-11T22:14:15Z''" "''web''" "''su''" "''-''" "''ID47''" "''failed for root''" "''host''"]
  by (simp add: no_blank_def trim_start_def is_space_def nil_to_empty_def)

lemma month_not_5424: "is_month mon \<Longrightarrow> \<not> is_5424 (mon @ '' '' @ s)"
  using split_once_single [of "CHR '' ''" mon s]
  by (auto simp: is_month_def months_def is_5424_def is_digit_def)

lemma month_no_blank: "is_month mon \<Longrightarrow> CHR '' '' \<notin> set mon"
  by (auto simp: is_month_def months_def)

lemma splitn_3164:
  assumes "is_month mon" "no_blank day" "no_blank time" "no_blank host"
  shows "splitn_char 5 CHR '' '' (mon @ '' '' @ day @ '' '' @ time @ '' '' @ host @ '' '' @ s) = [mon, day, time, host, s]"
  using assms month_no_blank [OF assms(1)]
  by (simp add: no_blank_def numeral_eq_Suc splitn_char_Cons del: splitn_char.simps(3))

definition tag_part :: "string \<Rightarrow> bool" where
  "tag_part s \<longleftrightarrow> CHR '':'' \<notin> set s \<and> CHR ''['' \<notin> set s \<and> CHR '']'' \<notin> set s"

lemma find_colon: "CHR '':'' \<notin> set w \<Longrightarrow> find_str '': '' (w @ '': '' @ s) = Some (length w)"
  by (induction w) auto

lemma split_colon: "CHR '':'' \<notin> set w \<Longrightarrow> split_once '': '' (w @ '': '' @ s) = Some (w, s)"
  by (simp add: split_once_def find_colon [simplified])

lemma split_tag_print:
  assumes "tag_part tag" "tag_part pid"
  shows "split_tag (tag @ ''['' @ pid @ '']: '' @ msg) m =
    str_field ''message'' msg (str_field ''procid'' pid (str_field ''app'' tag m))"
proof -
  have "split_once '': '' ((tag @ ''['' @ pid @ '']'') @ '': '' @ msg) = Some (tag @ ''['' @ pid @ '']'', msg)"
    using assms by (intro split_colon) (auto simp: tag_part_def)
  moreover have "split_once ''['' (tag @ ''['' @ pid @ '']'') = Some (tag, pid @ '']'')"
    using assms split_once_single [of "CHR ''[''" tag "pid @ '']''"] by (simp add: tag_part_def)
  moreover have "trim_end_matches CHR '']'' (pid @ '']'') = pid"
    using assms(2) by (cases pid rule: rev_cases) (auto simp: trim_end_matches_def tag_part_def)
  ultimately show ?thesis by (simp add: split_tag_def)
qed

text \<open>
  A line of RFC 3164 is decoded to what it says, but only if the day of the month is one token.
  The format pads days below ten with a second blank; such a line is split one token too early, so
  that the time of day is stored as the host and the timestamp ends with the day.
\<close>

theorem syslog_3164_fields:
  assumes "pri \<le> 65535" and "is_month mon" and "no_blank day" "no_blank time" "no_blank host"
    and "tag_part tag" "tag_part pid"
  shows "(let r = parse_syslog (''<'' @ show_nat pri @ ''>'' @ mon @ '' '' @ day @ '' '' @ time @ '' '' @ host @ '' '' @
              tag @ ''['' @ pid @ '']: '' @ msg)
          in map_of (rec_fields r) ''timestamp'' = Some (JString (mon @ '' '' @ day @ '' '' @ time)) \<and>
             map_of (rec_fields r) ''host'' = Some (JString host) \<and> map_of (rec_fields r) ''app'' = Some (JString tag) \<and>
             map_of (rec_fields r) ''procid'' = Some (JString pid) \<and> map_of (rec_fields r) ''message'' = Some (JString msg)) \<and>
    (let r = parse_syslog (''<'' @ show_nat pri @ ''>'' @ mon @ ''  '' @ day @ '' '' @ time @ '' '' @ host)
     in map_of (rec_fields r) ''timestamp'' = Some (JString (mon @ ''  '' @ day)) \<and>
        map_of (rec_fields r) ''host'' = Some (JString time))"
proof
  let ?tail = "tag @ ''['' @ pid @ '']: '' @ msg"
  let ?rest = "mon @ '' '' @ day @ '' '' @ time @ '' '' @ host @ '' '' @ ?tail"
  have r: "rec_fields (parse_syslog (''<'' @ show_nat pri @ ''>'' @ ?rest)) = fields_3164 ?rest (pri_fields pri)"
    using parse_pri_print [OF assms(1), of ?rest] month_not_5424 [OF assms(2)] by (simp add: parse_syslog_def)
  have f: "fields_3164 ?rest m = split_tag ?tail (str_field ''host'' host (str_field ''timestamp'' (mon @ '' '' @ day @ '' '' @ time) m))" for m
    using splitn_3164 [OF assms(2-5), of ?tail] assms(2) by (simp add: fields_3164_def Let_def)
  show "let r = parse_syslog (''<'' @ show_nat pri @ ''>'' @ ?rest)
      in map_of (rec_fields r) ''timestamp'' = Some (JString (mon @ '' '' @ day @ '' '' @ time)) \<and>
         map_of (rec_fields r) ''host'' = Some (JString host) \<and> map_of (rec_fields r) ''app'' = Some (JString tag) \<and>
         map_of (rec_fields r) ''procid'' = Some (JString pid) \<and> map_of (rec_fields r) ''message'' = Some (JString msg)"
    unfolding Let_def r f split_tag_print [OF assms(6,7)] by (simp add: str_field_def map_of_btree_insert)
next
  let ?rest = "mon @ '' '' @ [] @ '' '' @ day @ '' '' @ time @ '' '' @ host"
  have r: "rec_fields (parse_syslog (''<'' @ show_nat pri @ ''>'' @ ?rest)) = fields_3164 ?rest (pri_fields pri)"
    using parse_pri_print [OF assms(1), of ?rest] month_not_5424 [OF assms(2)] by (simp add: parse_syslog_def)
  have "fields_3164 ?rest m = split_tag host (str_field ''host'' time (str_field ''timestamp'' (mon @ '' '' @ [] @ '' '' @ day) m))" for m
    using splitn_3164 [OF assms(2) _ assms(3,4), of "[]" host] assms(2)
    by (simp add: fields_3164_def Let_def no_blank_def)
  then show "let r = parse_syslog (''<'' @ show_nat pri @ ''>'' @ mon @ ''  '' @ day @ '' '' @ time @ '' '' @ host)
     in map_of (rec_fields r) ''timestamp'' = Some (JString (mon @ ''  '' @ day)) \<and>
        map_of (rec_fields r) ''host'' = Some (JString time)"
    using r by (auto simp: Let_def split_tag_def str_field_def map_of_btree_insert split: option.splits)
qed

theorem syslog_3164_fields_witness:
  "map_of (rec_fields (parse_syslog (''<'' @ show_nat 34 @ ''>'' @ ''Oct'' @ ''  '' @ ''5'' @ '' '' @ ''22:14:15'' @ '' '' @ ''web''))) ''host''
     = Some (JString ''22:14:15'')"
  using syslog_3164_fields [of 34 "''Oct''" "''5''" "''22:14:15''" "''web''" "''su''" "''7''"]
  unfolding Let_def by (simp add: is_month_def months_def no_blank_def tag_part_def)

section \<open>No frame is refused\<close>

lemma str_field_wf [intro]: "btree_wf m \<Longrightarrow> btree_wf (str_field k v m)"
  unfolding str_field_def by (rule btree_insert_wf)

lemma split_tag_wf [intro]: "btree_wf m \<Longrightarrow> btree_wf (split_tag s m)"
  by (auto simp: split_tag_def Let_def split: option.splits)

lemma fields_3164_wf [intro]: "btree_wf m \<Longrightarrow> btree_wf (fields_3164 s m)"
  by (auto simp: fields_3164_def Let_def)

lemma fold_wf: "(\<And>f v m. (f, v) \<in> set fs \<Longrightarrow> btree_wf m \<Longrightarrow> btree_wf (f v m)) \<Longrightarrow> btree_wf m \<Longrightarrow>
  btree_wf (fold (\<lambda>(f, v) m. f v m) fs m)"
  by (induction fs arbitrary: m) auto

lemma fields_5424_wf [intro]: "btree_wf m \<Longrightarrow> btree_wf (fields_5424 ps m)"
  unfolding fields_5424_def by (rule fold_wf) (auto dest!: set_zip_leftD)

lemma parse_pri_wf: "btree_wf (fst (parse_pri line))"
  by (auto simp: parse_pri_def btree_wf_def split: option.splits)

lemma parse_syslog_wf: "btree_wf (rec_fields (parse_syslog line))"
  using parse_pri_wf [of line] by (auto simp: parse_syslog_def split: prod.splits)

lemma parse_syslog_raw: "rec_raw (parse_syslog line) = line"
  by (simp add: parse_syslog_def split: prod.splits)

lemma insert_attrs_wf: "btree_wf m \<Longrightarrow> btree_wf (insert_attrs ps m)"
  by (induction ps arbitrary: m) (auto split: option.splits)

lemma dead_letter_wf: "btree_wf (rec_fields (cef_dead_letter line raw err))"
  by (simp add: cef_dead_letter_def btree_wf_def)

lemma parse_cef_wf: "btree_wf (rec_fields (parse_cef line raw))"
  by (auto simp: parse_cef_def Let_def parse_extension_def dead_letter_wf intro!: insert_strings_wf split: option.splits)

lemma parse_leef_wf: "btree_wf (rec_fields (parse_leef line raw))"
  by (auto simp: parse_leef_def Let_def dead_letter_wf intro!: insert_strings_wf insert_attrs_wf split: option.splits prod.splits)

lemma record_from_json_wf: "btree_wf (rec_fields (record_from_json v raw))"
proof -
  have "btree_wf m \<Longrightarrow> btree_wf (fold (\<lambda>(k, w). btree_insert k w) ps m)" for m :: field_map and ps
    by (induction ps arbitrary: m) auto
  moreover have "btree_wf [(k, w)]" for k :: string and w :: json by (simp add: btree_wf_def)
  ultimately show ?thesis by (auto simp: record_from_json_def split: json.splits)
qed

lemma record_from_json_raw: "rec_raw (record_from_json v raw) = raw"
  by (simp add: record_from_json_def)

lemma codec_dead_letter_ok: "btree_wf (rec_fields (codec_dead_letter raw err))" "rec_raw (codec_dead_letter raw err) = raw"
  by (simp_all add: codec_dead_letter_def str_field_def btree_wf_def)

lemma decode_json_ok: "list_all (\<lambda>r. btree_wf (rec_fields r) \<and> rec_raw r = raw) (decode_json from_slice raw)"
  by (cases "from_slice raw")
    (simp_all add: decode_json_def list_all_iff codec_dead_letter_ok record_from_json_wf record_from_json_raw)

lemma length_decode_json:
  "length (decode_json from_slice raw) = (case from_slice raw of Inr (JArray xs) \<Rightarrow> length xs | _ \<Rightarrow> 1)"
  by (simp add: decode_json_def split: sum.splits json.splits)

lemma parse_cef_raw: "rec_raw (parse_cef line raw) = raw"
  by (auto simp: parse_cef_def Let_def cef_dead_letter_def split: option.splits)

lemma parse_leef_raw: "rec_raw (parse_leef line raw) = raw"
  by (auto simp: parse_leef_def Let_def cef_dead_letter_def split: option.splits prod.splits)

text \<open>
  Ingestion never fails: whatever the configured codec and the frame, decoding succeeds with
  well-formed records, one per frame except for a JSON array, which gives one per element; every
  record carries the frame it came from, syslog records without its trailing white space.
\<close>

theorem decode_total:
  "\<exists>rs. decode from_slice (build_codec kind) raw = Inr rs \<and>
     length rs = (case (kind = ''json'', from_slice raw) of (True, Inr (JArray xs)) \<Rightarrow> length xs | _ \<Rightarrow> 1) \<and>
     list_all (\<lambda>r. btree_wf (rec_fields r) \<and> rec_raw r = (if kind = ''syslog'' then trim_end raw else raw)) rs"
proof -
  consider "kind = ''json''" | "kind = ''syslog''" | "kind = ''cef''" | "kind = ''leef''"
    | "build_codec kind = RawCodec" "kind \<noteq> ''json''" "kind \<noteq> ''syslog''"
    unfolding build_codec_def by metis
  then show ?thesis
  proof cases
    case 1
    then show ?thesis using decode_json_ok [of raw] length_decode_json [of from_slice raw]
      by (simp add: build_codec_def split: sum.splits json.splits)
  next
    case 2
    then show ?thesis by (simp add: build_codec_def parse_syslog_wf parse_syslog_raw)
  next
    case 5
    then show ?thesis by (simp add: decode_raw_def str_field_def btree_wf_def)
  qed (simp_all add: build_codec_def parse_cef_wf parse_leef_wf parse_cef_raw parse_leef_raw)
qed

end
