(* ===== verification/Ingest_Tail.thy ===== *)
theory Ingest_Tail
  imports Sigil_Prelude
begin

text \<open>
  The file tailer of \<open>crates/sigil-ingest/src/input.rs\<close>: polling for complete lines, the byte offset
  and its checkpoint, and the framing of the TCP listener, which splits lines the same way. The
  file system is explicit: the tailed file, the checkpoint file and whether the latter can be
  written. Failures of \<open>metadata\<close>, \<open>seek\<close> and \<open>read\<close> on an opened file are not modelled.
\<close>

section \<open>State\<close>

record fs =
  fs_file :: file_view
  fs_checkpoint :: "string option"
  fs_writable :: bool

record tailer =
  ft_offset :: nat

definition u64_max :: nat where
  "u64_max = 2 ^ 64 - 1"

definition newline :: char where
  "newline = char_of (10 :: nat)"

definition carriage_return :: char where
  "carriage_return = char_of (13 :: nat)"

definition read_checkpoint :: "fs \<Rightarrow> nat" where
  "read_checkpoint w =
     (case fs_checkpoint w of
        None \<Rightarrow> 0
      | Some s \<Rightarrow> (case parse_unsigned u64_max (trim s) of Some n \<Rightarrow> n | None \<Rightarrow> 0))"

definition tailer_open :: "fs \<Rightarrow> tailer" where
  "tailer_open w = \<lparr>ft_offset = read_checkpoint w\<rparr>"

definition write_checkpoint :: "tailer \<Rightarrow> fs \<Rightarrow> fs" where
  "write_checkpoint t w = (if fs_writable w then w\<lparr>fs_checkpoint := Some (show_nat (ft_offset t))\<rparr> else w)"

section \<open>Reading lines\<close>

text \<open>\<open>read_until(b'\n')\<close>: the bytes up to and including the newline, or all of them.\<close>

definition read_until :: "string \<Rightarrow> string \<times> string" where
  "read_until s =
     (case dropWhile (\<lambda>c. c \<noteq> newline) s of
        [] \<Rightarrow> (s, [])
      | _ # rest \<Rightarrow> (takeWhile (\<lambda>c. c \<noteq> newline) s @ [newline], rest))"

text \<open>The line without its newline, and without a carriage return before that.\<close>

definition chomp :: "string \<Rightarrow> string" where
  "chomp buf =
     (if buf \<noteq> [] \<and> last buf = newline
      then let b = butlast buf in if b \<noteq> [] \<and> last b = carriage_return then butlast b else b
      else buf)"

lemma read_until_cases:
  obtains (partial) "newline \<notin> set s" "read_until s = (s, [])"
  | (line) u rest where "newline \<notin> set u" "s = u @ newline # rest" "read_until s = (u @ [newline], rest)"
proof (cases "newline \<in> set s")
  case True
  then obtain u rest where u: "s = u @ newline # rest" "newline \<notin> set u" by (meson split_list_first)
  then have "takeWhile (\<lambda>c. c \<noteq> newline) s = u" "dropWhile (\<lambda>c. c \<noteq> newline) s = newline # rest"
    by (induction u arbitrary: s) auto
  with u line show ?thesis by (simp add: read_until_def)
next
  case False
  then have "dropWhile (\<lambda>c. c \<noteq> newline) s = []" by auto
  with False partial show ?thesis by (simp add: read_until_def)
qed

lemma read_until_length: "length (snd (read_until s)) + length (fst (read_until s)) = length s"
  by (cases s rule: read_until_cases) auto

text \<open>The loop of \<open>poll_lines\<close> over the unread bytes: how many it consumes and the lines.\<close>

function poll_loop :: "string \<Rightarrow> nat \<times> string list" where
  "poll_loop s =
     (let (buf, rest) = read_until s
      in if buf = [] \<or> last buf \<noteq> newline then (0, [])
         else let (n, ls) = poll_loop rest; line = chomp buf
              in (length buf + n, if line = [] then ls else line # ls))"
  by pat_completeness auto

termination
proof (relation "measure length")
  fix s buf rest :: string and x
  assume x: "x = read_until s" "(buf, rest) = x" and "\<not> (buf = [] \<or> last buf \<noteq> newline)"
  then have "read_until s = (buf, rest)" "buf \<noteq> []" by simp_all
  then show "(rest, s) \<in> measure length" using read_until_length [of s] by (cases buf) auto
qed simp

declare poll_loop.simps [simp del]

definition poll_lines :: "fs \<Rightarrow> tailer \<Rightarrow> fs \<times> tailer \<times> string list result" where
  "poll_lines w t =
     (case fs_file w of
        NotFound \<Rightarrow> (w, t, Inr [])
      | Denied e \<Rightarrow> (w, t, Inl (Io e))
      | Content s \<Rightarrow>
          let len = length s;
              t1 = (if len < ft_offset t then t\<lparr>ft_offset := 0\<rparr> else t)
          in if len = ft_offset t1 then (w, t1, Inr [])
             else let (n, ls) = poll_loop (drop (ft_offset t1) s)
                  in if n \<noteq> 0
                     then let t2 = t1\<lparr>ft_offset := ft_offset t1 + n\<rparr> in (write_checkpoint t2 w, t2, Inr ls)
                     else (w, t1, Inr ls))"

text \<open>The frames a TCP connection delivers before it closes; a last line needs no newline.\<close>

function tcp_frames :: "string \<Rightarrow> string list" where
  "tcp_frames s =
     (let (line, rest) = read_until s
      in if line = [] then []
         else (if chomp line = [] then [] else [chomp line]) @ tcp_frames rest)"
  by pat_completeness auto

termination
proof (relation "measure length")
  fix s line rest :: string and x
  assume x: "x = read_until s" "(line, rest) = x" and "line \<noteq> []"
  then have "read_until s = (line, rest)" by simp
  with \<open>line \<noteq> []\<close> show "(rest, s) \<in> measure length" using read_until_length [of s] by (cases line) auto
qed simp

declare tcp_frames.simps [simp del]

section \<open>Complete lines\<close>

text \<open>The specification: the pieces between newlines, without the last, less empty ones.\<close>

definition strip_cr :: "string \<Rightarrow> string" where
  "strip_cr b = (if b \<noteq> [] \<and> last b = carriage_return then butlast b else b)"

definition nonempty_lines :: "string list \<Rightarrow> string list" where
  "nonempty_lines bs = filter (\<lambda>l. l \<noteq> []) (map strip_cr bs)"

definition complete_lines :: "string \<Rightarrow> string list" where
  "complete_lines s = nonempty_lines (butlast (split_char newline s))"

lemma nonempty_lines_append [simp]: "nonempty_lines (a @ b) = nonempty_lines a @ nonempty_lines b"
  by (simp add: nonempty_lines_def)

lemma split_char_append_sep: "split_char d (a @ d # b) = split_char d a @ split_char d b"
proof (induction a)
  case Nil
  then show ?case by simp
next
  case (Cons c a)
  then show ?case by (cases "split_char d a") auto
qed

lemma complete_lines_append_sep:
  "complete_lines (a @ newline # b) = nonempty_lines (split_char newline a) @ complete_lines b"
  by (simp add: complete_lines_def split_char_append_sep butlast_append)

lemma complete_lines_append:
  assumes "a = [] \<or> last a = newline"
  shows "complete_lines (a @ b) = complete_lines a @ complete_lines b"
proof (cases a rule: rev_cases)
  case Nil
  then show ?thesis by (simp add: complete_lines_def nonempty_lines_def)
next
  case (snoc u c)
  with assms have "a = u @ [newline]" by simp
  then show ?thesis using complete_lines_append_sep [of u b] complete_lines_append_sep [of u "[]"]
    by (simp add: complete_lines_def nonempty_lines_def)
qed

lemma complete_lines_partial: "newline \<notin> set s \<Longrightarrow> complete_lines s = []"
  by (simp add: complete_lines_def split_char_no_sep nonempty_lines_def)

lemma chomp_newline: "chomp (u @ [newline]) = strip_cr u"
  by (simp add: chomp_def strip_cr_def Let_def)

lemma chomp_partial: "newline \<notin> set u \<Longrightarrow> chomp u = u"
  by (auto simp: chomp_def dest: last_in_set)

lemma poll_loop_spec:
  "poll_loop s = (n, ls) \<Longrightarrow> n \<le> length s \<and> ls = complete_lines s \<and> ls = complete_lines (take n s) \<and>
     (take n s = [] \<or> last (take n s) = newline) \<and> newline \<notin> set (drop n s)"
proof (induction "length s" arbitrary: s n ls rule: less_induct)
  case less
  show ?case
  proof (cases s rule: read_until_cases)
    case partial
    then have "poll_loop s = (0, [])" by (subst poll_loop.simps) (auto dest: last_in_set)
    with less.prems partial show ?thesis by (simp add: complete_lines_partial)
  next
    case (line u rest)
    obtain m ks where mk: "poll_loop rest = (m, ks)" by (cases "poll_loop rest")
    from line have "length rest < length s" by simp
    from less.hyps [OF this mk] have ih: "m \<le> length rest" "ks = complete_lines rest" "ks = complete_lines (take m rest)"
      "take m rest = [] \<or> last (take m rest) = newline" "newline \<notin> set (drop m rest)" by auto
    have p: "poll_loop s = (length u + 1 + m, nonempty_lines [u] @ ks)"
      using line mk by (subst poll_loop.simps) (simp add: chomp_newline nonempty_lines_def Let_def)
    have "take (length u + 1 + m) s = (u @ [newline]) @ take m rest" using line by simp
    moreover have "complete_lines s = nonempty_lines [u] @ complete_lines rest"
      using line complete_lines_append_sep [of u rest] by (simp add: split_char_no_sep)
    moreover have "complete_lines ((u @ [newline]) @ take m rest) = nonempty_lines [u] @ complete_lines (take m rest)"
      using line complete_lines_append_sep [of u "take m rest"] by (simp add: split_char_no_sep)
    ultimately show ?thesis using p less.prems ih line by (auto simp: last_append)
  qed
qed

section \<open>Polling\<close>

lemma poll_content:
  assumes "fs_file w = Content s"
  shows "\<exists>n. poll_lines w t =
    (if n = 0 then w else write_checkpoint (t\<lparr>ft_offset := (if length s < ft_offset t then 0 else ft_offset t) + n\<rparr>) w,
     t\<lparr>ft_offset := (if length s < ft_offset t then 0 else ft_offset t) + n\<rparr>,
     Inr (complete_lines (drop (if length s < ft_offset t then 0 else ft_offset t) s))) \<and>
    poll_loop (drop (if length s < ft_offset t then 0 else ft_offset t) s) =
      (n, complete_lines (drop (if length s < ft_offset t then 0 else ft_offset t) s))"
proof -
  let ?off = "if length s < ft_offset t then 0 else ft_offset t"
  obtain n ls where p: "poll_loop (drop ?off s) = (n, ls)" by (cases "poll_loop (drop ?off s)")
  then have ls: "ls = complete_lines (drop ?off s)" using poll_loop_spec by blast
  have "length s = ?off \<Longrightarrow> n = 0 \<and> ls = []" using p poll_loop_spec [OF p] by (auto simp: complete_lines_partial)
  moreover have "(if length s < ft_offset t then t\<lparr>ft_offset := 0\<rparr> else t) = t\<lparr>ft_offset := ?off\<rparr>" by simp
  ultimately show ?thesis
    using assms p ls by (intro exI [of _ n]) (auto simp: poll_lines_def Let_def)
qed

text \<open>
  What a poll returns, on every branch: nothing while the file is missing, an error if it cannot be
  opened, and otherwise the complete, non-empty lines from the offset on, or from the start if
  the file is shorter than the offset. That is the only sign of a rotation: of a new file that
  is at least as long as the old offset, the first \<open>offset\<close> bytes are never delivered.
\<close>

theorem poll_lines_spec:
  "(case fs_file w of
      NotFound \<Rightarrow> poll_lines w t = (w, t, Inr [])
    | Denied e \<Rightarrow> poll_lines w t = (w, t, Inl (Io e))
    | Content s \<Rightarrow>
        (let off = (if length s < ft_offset t then 0 else ft_offset t); (w', t', r) = poll_lines w t
         in r = Inr (complete_lines (drop off s)) \<and> off \<le> ft_offset t' \<and> ft_offset t' \<le> length s \<and>
            complete_lines (drop (ft_offset t') s) = [] \<and> fs_file w' = fs_file w))"
proof (cases "fs_file w")
  case (Content s)
  let ?off = "if length s < ft_offset t then 0 else ft_offset t"
  from poll_content [OF Content, of t] obtain n where n:
    "poll_lines w t = (if n = 0 then w else write_checkpoint (t\<lparr>ft_offset := ?off + n\<rparr>) w, t\<lparr>ft_offset := ?off + n\<rparr>,
       Inr (complete_lines (drop ?off s)))"
    "poll_loop (drop ?off s) = (n, complete_lines (drop ?off s))" by auto
  from poll_loop_spec [OF n(2)] have "n \<le> length (drop ?off s)" "newline \<notin> set (drop n (drop ?off s))" by auto
  then have "?off + n \<le> length s" "complete_lines (drop (?off + n) s) = []"
    by (auto simp: complete_lines_partial add.commute)
  then show ?thesis using Content n(1) by (simp add: Let_def write_checkpoint_def)
qed (simp_all add: poll_lines_def)

section \<open>Appends, polls, restarts and checkpoints that fail\<close>

text \<open>
  A log that is only appended to, polled and re-opened from its checkpoint in any order; the last
  component collects what was delivered. With \<open>faults\<close> the checkpoint may become unwritable and
  writable again, a write of it may stop after the file was truncated, with the poll going on, and the
  process may be killed at that point and start again.
\<close>

inductive tail_step :: "bool \<Rightarrow> fs \<times> tailer \<times> string list \<Rightarrow> fs \<times> tailer \<times> string list \<Rightarrow> bool" for faults where
  append: "fs_file w = Content s \<Longrightarrow> length (s @ x) \<le> u64_max \<Longrightarrow>
    tail_step faults (w, t, out) (w\<lparr>fs_file := Content (s @ x)\<rparr>, t, out)"
| poll: "poll_lines w t = (w', t', Inr ls) \<Longrightarrow> tail_step faults (w, t, out) (w', t', out @ ls)"
| reopen: "tail_step faults (w, t, out) (w, tailer_open w, out)"
| lock: "faults \<Longrightarrow> tail_step faults (w, t, out) (w\<lparr>fs_writable := b\<rparr>, t, out)"
| torn: "faults \<Longrightarrow> poll_lines (w\<lparr>fs_checkpoint := Some [], fs_writable := False\<rparr>) t = (w', t', Inr ls) \<Longrightarrow>
    tail_step faults (w, t, out) (w'\<lparr>fs_writable := fs_writable w\<rparr>, t', out @ ls)"
| killed: "faults \<Longrightarrow> w' = w\<lparr>fs_checkpoint := Some []\<rparr> \<Longrightarrow> tail_step faults (w, t, out) (w', tailer_open w', out)"

section \<open>Exactly once without faults\<close>

definition tail_inv :: "fs \<times> tailer \<times> string list \<Rightarrow> bool" where
  "tail_inv st = (case st of (w, t, out) \<Rightarrow>
     (\<exists>s. fs_file w = Content s \<and> length s \<le> u64_max \<and> fs_writable w \<and> ft_offset t \<le> length s \<and>
        read_checkpoint w = ft_offset t \<and> (take (ft_offset t) s = [] \<or> last (take (ft_offset t) s) = newline) \<and>
        out = complete_lines (take (ft_offset t) s)))"

lemma checkpoint_roundtrip:
  "fs_writable w \<Longrightarrow> ft_offset t \<le> u64_max \<Longrightarrow> read_checkpoint (write_checkpoint t w) = ft_offset t"
proof -
  assume a: "fs_writable w" "ft_offset t \<le> u64_max"
  have d: "list_all is_digit (show_nat (ft_offset t))" by (rule show_nat_digits)
  have "trim (show_nat (ft_offset t)) = show_nat (ft_offset t)"
    using d is_digit_not_space show_nat_not_Nil [of "ft_offset t"]
    by (intro trim_noop) (metis hd_in_set last_in_set list_all_iff)
  with a show ?thesis by (simp add: read_checkpoint_def write_checkpoint_def parse_unsigned_show_nat)
qed

lemma tail_inv_poll:
  assumes "tail_inv (w, t, out)" and "poll_lines w t = (w', t', Inr ls)"
  shows "tail_inv (w', t', out @ ls)"
proof -
  from assms(1) obtain s where s: "fs_file w = Content s" "length s \<le> u64_max" "fs_writable w" "ft_offset t \<le> length s"
    "read_checkpoint w = ft_offset t" "take (ft_offset t) s = [] \<or> last (take (ft_offset t) s) = newline"
    "out = complete_lines (take (ft_offset t) s)" by (auto simp: tail_inv_def)
  let ?rest = "drop (ft_offset t) s"
  from poll_content [OF s(1), of t] s(4) obtain n where n:
    "poll_lines w t = (if n = 0 then w else write_checkpoint (t\<lparr>ft_offset := ft_offset t + n\<rparr>) w,
       t\<lparr>ft_offset := ft_offset t + n\<rparr>, Inr (complete_lines ?rest))"
    "poll_loop ?rest = (n, complete_lines ?rest)" by auto
  from poll_loop_spec [OF n(2)] have p: "n \<le> length ?rest" "complete_lines ?rest = complete_lines (take n ?rest)"
    "take n ?rest = [] \<or> last (take n ?rest) = newline" by auto
  have t: "take (ft_offset t + n) s = take (ft_offset t) s @ take n ?rest" by (simp add: take_add)
  have "out @ complete_lines ?rest = complete_lines (take (ft_offset t + n) s)"
    unfolding t complete_lines_append [OF s(6)] using s(7) p(2) by simp
  moreover have "take (ft_offset t + n) s = [] \<or> last (take (ft_offset t + n) s) = newline"
    unfolding t using s(6) p(3) by (auto simp: last_append)
  moreover have "n \<noteq> 0 \<Longrightarrow> read_checkpoint (write_checkpoint (t\<lparr>ft_offset := ft_offset t + n\<rparr>) w) = ft_offset t + n"
    using checkpoint_roundtrip [OF s(3), of "t\<lparr>ft_offset := ft_offset t + n\<rparr>"] s(2,4) p(1) by simp
  ultimately show ?thesis
    using assms(2) n(1) s p(1) by (auto simp: tail_inv_def write_checkpoint_def split: if_splits)
qed

lemma tail_inv_append:
  "fs_file w = Content s \<Longrightarrow> length (s @ x) \<le> u64_max \<Longrightarrow> tail_inv (w, t, out) \<Longrightarrow> tail_inv (w\<lparr>fs_file := Content (s @ x)\<rparr>, t, out)"
  by (auto simp: tail_inv_def read_checkpoint_def)

lemma tail_inv_step: "tail_step False st st' \<Longrightarrow> tail_inv st \<Longrightarrow> tail_inv st'"
proof (induction rule: tail_step.induct)
  case (append w s x t out)
  then show ?case by (rule tail_inv_append)
next
  case (poll w t w' t' ls out)
  then show ?case by (blast intro: tail_inv_poll)
next
  case (reopen w t out)
  then show ?case by (auto simp: tail_inv_def tailer_open_def)
qed simp_all

lemma tail_inv_delivers:
  assumes "tail_inv (w, t, out)"
  shows "\<exists>s. fs_file w = Content s \<and> prefix out (complete_lines s) \<and>
    (\<forall>w' t' ls. poll_lines w t = (w', t', Inr ls) \<longrightarrow> out @ ls = complete_lines s)"
proof -
  from assms obtain s where s: "fs_file w = Content s" "ft_offset t \<le> length s"
    "take (ft_offset t) s = [] \<or> last (take (ft_offset t) s) = newline" "out = complete_lines (take (ft_offset t) s)"
    by (auto simp: tail_inv_def)
  have all: "complete_lines s = out @ complete_lines (drop (ft_offset t) s)"
    using complete_lines_append [OF s(3), of "drop (ft_offset t) s"] s(4) by simp
  then have "prefix out (complete_lines s)" by simp
  moreover have "out @ ls = complete_lines s" if "poll_lines w t = (w', t', Inr ls)" for w' t' ls
    using poll_content [OF s(1), of t] that s(2) all by auto
  ultimately show ?thesis using s(1) by blast
qed

lemma tail_inv_start:
  "length s0 \<le> u64_max \<Longrightarrow> tail_inv (\<lparr>fs_file = Content s0, fs_checkpoint = None, fs_writable = True\<rparr>, \<lparr>ft_offset = 0\<rparr>, [])"
  by (simp add: tail_inv_def read_checkpoint_def complete_lines_def nonempty_lines_def)

section \<open>At least once with faults\<close>

definition boundary :: "string \<Rightarrow> nat \<Rightarrow> bool" where
  "boundary s n \<longleftrightarrow> n \<le> length s \<and> (take n s = [] \<or> last (take n s) = newline)"

lemma boundary_lines: "boundary s n \<Longrightarrow> complete_lines s = complete_lines (take n s) @ complete_lines (drop n s)"
  using complete_lines_append [of "take n s" "drop n s"] by (auto simp: boundary_def)

lemma boundary_append: "boundary s n \<Longrightarrow> boundary (s @ x) n"
  by (simp add: boundary_def)

lemma boundary_mono:
  assumes "boundary s m" "m \<le> n" "n \<le> length s"
  shows "prefix (complete_lines (take m s)) (complete_lines (take n s))"
proof -
  have "boundary (take n s) m" using assms by (simp add: boundary_def)
  from boundary_lines [OF this] assms(2) show ?thesis by simp
qed

lemma complete_lines_grow: "prefix (complete_lines s) (complete_lines (s @ x))"
proof -
  obtain n ls where p: "poll_loop s = (n, ls)" by fastforce
  from poll_loop_spec [OF p] have "boundary s n" "complete_lines s = complete_lines (take n s)" by (auto simp: boundary_def)
  with boundary_lines [OF boundary_append [of s n x]] show ?thesis by (simp add: boundary_def)
qed

definition tail_weak :: "fs \<times> tailer \<times> string list \<Rightarrow> bool" where
  "tail_weak st = (case st of (w, t, out) \<Rightarrow>
     (\<exists>s. fs_file w = Content s \<and> length s \<le> u64_max \<and> boundary s (ft_offset t) \<and> boundary s (read_checkpoint w) \<and>
        read_checkpoint w \<le> ft_offset t \<and> subseq (complete_lines (take (ft_offset t) s)) out \<and>
        set out \<subseteq> set (complete_lines s)))"

lemma weak_poll:
  assumes "fs_file w = Content s" "boundary s (ft_offset t)" "poll_lines w t = (w', t', Inr ls)"
  shows "boundary s (ft_offset t') \<and> ft_offset t \<le> ft_offset t' \<and> ls = complete_lines (drop (ft_offset t) s) \<and>
    complete_lines (take (ft_offset t') s) = complete_lines (take (ft_offset t) s) @ ls \<and>
    (w' = w \<or> w' = write_checkpoint t' w)"
proof -
  let ?rest = "drop (ft_offset t) s"
  have off: "\<not> length s < ft_offset t" using assms(2) by (simp add: boundary_def)
  from poll_content [OF assms(1), of t] off obtain n where n:
    "poll_lines w t = (if n = 0 then w else write_checkpoint (t\<lparr>ft_offset := ft_offset t + n\<rparr>) w,
       t\<lparr>ft_offset := ft_offset t + n\<rparr>, Inr (complete_lines ?rest))"
    "poll_loop ?rest = (n, complete_lines ?rest)" by auto
  from poll_loop_spec [OF n(2)] have p: "n \<le> length ?rest" "complete_lines ?rest = complete_lines (take n ?rest)"
    "take n ?rest = [] \<or> last (take n ?rest) = newline" by auto
  have t: "take (ft_offset t + n) s = take (ft_offset t) s @ take n ?rest" by (simp add: take_add)
  have "complete_lines (take (ft_offset t + n) s) = complete_lines (take (ft_offset t) s) @ complete_lines ?rest"
    unfolding t using complete_lines_append [of "take (ft_offset t) s"] assms(2) p(2) by (simp add: boundary_def)
  moreover have "boundary s (ft_offset t + n)"
    unfolding boundary_def t using assms(2) p(1,3) by (auto simp: boundary_def last_append)
  ultimately show ?thesis using assms(3) n(1) by (auto split: if_splits)
qed

lemma weak_poll_inv:
  assumes inv: "tail_weak (w, t, out)" and p: "poll_lines w t = (w', t', Inr ls)"
  shows "tail_weak (w', t', out @ ls)"
proof -
  from inv obtain s where s: "fs_file w = Content s" "length s \<le> u64_max" "boundary s (ft_offset t)"
    "boundary s (read_checkpoint w)" "read_checkpoint w \<le> ft_offset t"
    "subseq (complete_lines (take (ft_offset t) s)) out" "set out \<subseteq> set (complete_lines s)" by (auto simp: tail_weak_def)
  note q = weak_poll [OF s(1,3) p]
  have "ft_offset t' \<le> u64_max" using q s(2) by (simp add: boundary_def)
  then have "read_checkpoint (write_checkpoint t' w) \<in> {read_checkpoint w, ft_offset t'}"
    using checkpoint_roundtrip [of w t'] by (cases "fs_writable w") (simp_all add: write_checkpoint_def)
  then have "boundary s (read_checkpoint w')" "read_checkpoint w' \<le> ft_offset t'" using q s(4,5) by auto
  moreover have "fs_file w' = Content s" using q s(1) by (auto simp: write_checkpoint_def)
  moreover have "subseq (complete_lines (take (ft_offset t') s)) (out @ ls)"
    using q list_emb_append_mono [OF s(6) subseq_order.refl] by simp
  moreover have "set ls \<subseteq> set (complete_lines s)" using q boundary_lines [OF s(3)] by auto
  ultimately show ?thesis using q s(2,7) by (simp add: tail_weak_def)
qed

lemma weak_reopen:
  assumes "tail_weak (w, t, out)"
  shows "tail_weak (w, tailer_open w, out)"
proof -
  from assms obtain s where s: "fs_file w = Content s" "length s \<le> u64_max" "boundary s (ft_offset t)"
    "boundary s (read_checkpoint w)" "read_checkpoint w \<le> ft_offset t"
    "subseq (complete_lines (take (ft_offset t) s)) out" "set out \<subseteq> set (complete_lines s)" by (auto simp: tail_weak_def)
  have "prefix (complete_lines (take (read_checkpoint w) s)) (complete_lines (take (ft_offset t) s))"
    using boundary_mono [OF s(4,5)] s(3) by (simp add: boundary_def)
  then have "subseq (complete_lines (take (read_checkpoint w) s)) out"
    using s(6) by (blast intro: subseq_order.trans prefix_imp_subseq)
  then show ?thesis using s by (simp add: tail_weak_def tailer_open_def)
qed

lemma read_empty: "read_checkpoint (w\<lparr>fs_checkpoint := Some [], fs_writable := b\<rparr>) = 0"
  by (simp add: read_checkpoint_def parse_unsigned_def trim_def trim_start_def trim_end_def)

lemma weak_checkpoint: "tail_weak (w, t, out) \<Longrightarrow> tail_weak (w\<lparr>fs_checkpoint := Some [], fs_writable := b\<rparr>, t, out)"
  unfolding tail_weak_def using read_empty [where w = w and b = b] by (auto simp: boundary_def)

lemma weak_lock: "tail_weak (w\<lparr>fs_writable := b\<rparr>, t, out) = tail_weak (w, t, out)"
  by (simp add: tail_weak_def read_checkpoint_def)

lemma tail_weak_step: "tail_step faults st st' \<Longrightarrow> tail_weak st \<Longrightarrow> tail_weak st'"
proof (induction rule: tail_step.induct)
  case (append w s x t out)
  then show ?case
    using boundary_append set_mono_prefix [OF complete_lines_grow [of s x]]
    by (fastforce simp: tail_weak_def read_checkpoint_def boundary_def)
next
  case (torn w t w' t' ls out)
  from weak_poll_inv [OF weak_checkpoint [OF torn(3)] torn(2)] show ?case by (simp add: weak_lock)
next
  case (killed w' w t out)
  from weak_checkpoint [OF killed(3), of "fs_writable w"] killed(2) show ?case by (intro weak_reopen) simp
qed (auto simp: weak_lock intro: weak_poll_inv weak_reopen)

lemma tail_weak_start:
  "length s0 \<le> u64_max \<Longrightarrow> tail_weak (\<lparr>fs_file = Content s0, fs_checkpoint = None, fs_writable = True\<rparr>, \<lparr>ft_offset = 0\<rparr>, [])"
  by (simp add: tail_weak_def boundary_def read_checkpoint_def complete_lines_def nonempty_lines_def)

text \<open>
  C9: No complete line of an append-only log is skipped: whatever appends, polls and restarts happened,
  with checkpoints that could not be written, were left empty by a torn write, or were lost with the
  process, one more poll brings what was delivered to a list that contains all complete lines in
  order, possibly some of them again, and nothing else; without such faults it is exactly the complete
  lines, each once, and what was delivered before is a prefix of them. Lines handed out by a poll count
  as delivered.
\<close>

theorem tailer_delivery:
  assumes "(tail_step faults)\<^sup>*\<^sup>*
      (\<lparr>fs_file = Content s0, fs_checkpoint = None, fs_writable = True\<rparr>, \<lparr>ft_offset = 0\<rparr>, []) (w, t, out)"
    and "length s0 \<le> u64_max"
  shows "\<exists>s w' t' ls. fs_file w = Content s \<and> poll_lines w t = (w', t', Inr ls) \<and>
    subseq (complete_lines s) (out @ ls) \<and> set (out @ ls) = set (complete_lines s) \<and>
    (faults \<or> out @ ls = complete_lines s)"
proof -
  from assms(1) tail_weak_start [OF assms(2)] have "tail_weak (w, t, out)"
    by (induction rule: rtranclp_induct) (auto intro: tail_weak_step)
  then obtain s where s: "fs_file w = Content s" "boundary s (ft_offset t)"
    "subseq (complete_lines (take (ft_offset t) s)) out" "set out \<subseteq> set (complete_lines s)" by (auto simp: tail_weak_def)
  from poll_content [OF s(1), of t] obtain w' t' ls where p: "poll_lines w t = (w', t', Inr ls)" by blast
  note q = weak_poll [OF s(1,2) p]
  have all: "complete_lines s = complete_lines (take (ft_offset t) s) @ ls" using q boundary_lines [OF s(2)] by simp
  have sub: "subseq (complete_lines s) (out @ ls)"
    unfolding all using list_emb_append_mono [OF s(3) subseq_order.refl] by blast
  have set: "set (out @ ls) = set (complete_lines s)"
    using s(4) all list_emb_set [OF sub] by auto
  have "out @ ls = complete_lines s" if "\<not> faults"
  proof -
    have "(tail_step False)\<^sup>*\<^sup>* (\<lparr>fs_file = Content s0, fs_checkpoint = None, fs_writable = True\<rparr>, \<lparr>ft_offset = 0\<rparr>, []) (w, t, out)"
      using assms(1) that by simp
    then have "tail_inv (w, t, out)"
      by (induction rule: rtranclp_induct) (use tail_inv_start [OF assms(2)] in \<open>auto intro: tail_inv_step\<close>)
    from tail_inv_delivers [OF this] p s(1) show ?thesis by auto
  qed
  then show ?thesis using s(1) p sub set by blast
qed

theorem tailer_delivery_witness:
  "\<exists>s w' t' ls. fs_file \<lparr>fs_file = Content [CHR ''a'', newline], fs_checkpoint = Some [], fs_writable = True\<rparr> = Content s \<and>
     poll_lines \<lparr>fs_file = Content [CHR ''a'', newline], fs_checkpoint = Some [], fs_writable = True\<rparr> \<lparr>ft_offset = 0\<rparr> = (w', t', Inr ls) \<and>
     subseq (complete_lines s) ([''a''] @ ls) \<and> set ([''a''] @ ls) = set (complete_lines s)"
proof -
  let ?w = "\<lparr>fs_file = Content [CHR ''a'', newline], fs_checkpoint = None, fs_writable = True\<rparr>"
  let ?w1 = "?w\<lparr>fs_checkpoint := Some ''2''\<rparr>" and ?w2 = "?w\<lparr>fs_checkpoint := Some []\<rparr>"
  have "poll_lines ?w \<lparr>ft_offset = 0\<rparr> = (?w1, \<lparr>ft_offset = 2\<rparr>, Inr [''a''])"
    by (simp add: poll_lines_def poll_loop.simps read_until_def newline_def chomp_def carriage_return_def
        write_checkpoint_def show_nat_def show_nat_acc.simps char_of_def bit_iff_odd)
  from tail_step.poll [OF this, of True "[]"] have 1: "tail_step True (?w, \<lparr>ft_offset = 0\<rparr>, []) (?w1, \<lparr>ft_offset = 2\<rparr>, [''a''])" by simp
  have "tailer_open ?w2 = \<lparr>ft_offset = 0\<rparr>" using read_empty [where w = ?w and b = True] by (simp add: tailer_open_def)
  with tail_step.killed [of True ?w2 ?w1 "\<lparr>ft_offset = 2\<rparr>" "[''a'']"]
  have 2: "tail_step True (?w1, \<lparr>ft_offset = 2\<rparr>, [''a'']) (?w2, \<lparr>ft_offset = 0\<rparr>, [''a''])" by simp
  have "(tail_step True)\<^sup>*\<^sup>* (?w, \<lparr>ft_offset = 0\<rparr>, []) (?w2, \<lparr>ft_offset = 0\<rparr>, [''a''])"
    by (rule converse_rtranclp_into_rtranclp [OF 1 r_into_rtranclp [of "tail_step True", OF 2]])
  from tailer_delivery [OF this] show ?thesis by (auto simp: u64_max_def)
qed

section \<open>TCP frames\<close>

text \<open>A connection delivers the complete lines of its stream and the unfinished last one, if any.\<close>

lemma tcp_frames_spec:
  "tcp_frames s = complete_lines s @ (let l = last (split_char newline s) in if l = [] then [] else [l])"
proof (induction "length s" arbitrary: s rule: less_induct)
  case less
  show ?case
  proof (cases s rule: read_until_cases)
    case partial
    have "tcp_frames [] = []" by (subst tcp_frames.simps) (simp add: read_until_def)
    with partial show ?thesis
      by (subst tcp_frames.simps) (auto simp: complete_lines_partial split_char_no_sep chomp_partial Let_def)
  next
    case (line u rest)
    then have "tcp_frames s = nonempty_lines [u] @ tcp_frames rest"
      by (subst tcp_frames.simps) (simp add: chomp_newline nonempty_lines_def)
    moreover have "complete_lines s = nonempty_lines [u] @ complete_lines rest"
      using line complete_lines_append_sep [of u rest] by (simp add: split_char_no_sep)
    moreover have "last (split_char newline s) = last (split_char newline rest)"
      using line by (simp add: split_char_append_sep last_append)
    ultimately show ?thesis using less line by simp
  qed
qed

end
