(* ===== verification/Ingest_Template.thy ===== *)
theory Ingest_Template
  imports Sigil_Prelude
begin

text \<open>
  The online template miner of \<open>crates/sigil-ingest/src/template.rs\<close>. The similarity is an \<open>f32\<close>
  quotient; the arithmetic is a parameter, the function \<open>ratio\<close> into an ordered type with its
  value for \<open>1.0\<close>, and nothing that is proved depends on it: whatever the floating-point unit
  answers, a message stays covered by the template of the cluster it was put into.
\<close>

section \<open>Operations\<close>

definition wildcard :: string where
  "wildcard = ''<*>''"

record mined =
  mn_template_id :: nat
  mn_template :: string
  mn_variables :: "string list"

record cluster =
  cl_id :: nat
  cl_tokens :: "string list"

record 'f template_miner =
  tm_threshold :: 'f
  tm_buckets :: "(nat \<times> cluster list) list"
  tm_next_id :: nat

record 'f f32_ops =
  f32_one :: 'f
  f32_ratio :: "nat \<Rightarrow> nat \<Rightarrow> 'f"

definition template_miner_new :: "'f \<Rightarrow> 'f template_miner" where
  "template_miner_new threshold = \<lparr>tm_threshold = threshold, tm_buckets = [], tm_next_id = 1\<rparr>"

definition similarity :: "'f f32_ops \<Rightarrow> string list \<Rightarrow> string list \<Rightarrow> 'f" where
  "similarity F template tokens =
     (if template = [] then f32_one F
      else f32_ratio F (length (filter (\<lambda>(t, k). t = wildcard \<or> t = k) (zip template tokens))) (length template))"

text \<open>The two iterators stop at the shorter of the lists.\<close>

fun merge_tokens :: "string list \<Rightarrow> string list \<Rightarrow> string list" where
  "merge_tokens (t # ts) (k # ks) = (if t \<noteq> wildcard \<and> t \<noteq> k then wildcard else t) # merge_tokens ts ks"
| "merge_tokens ts [] = ts"
| "merge_tokens [] ks = []"

definition variables :: "string list \<Rightarrow> string list \<Rightarrow> string list" where
  "variables template tokens = map snd (filter (\<lambda>(t, _). t = wildcard) (zip template tokens))"

definition bucket_of_length :: "'f template_miner \<Rightarrow> nat \<Rightarrow> cluster list" where
  "bucket_of_length m n = (case map_of (tm_buckets m) n of Some b \<Rightarrow> b | None \<Rightarrow> [])"

definition widen :: "string list \<Rightarrow> cluster \<Rightarrow> cluster" where
  "widen tokens c = c\<lparr>cl_tokens := merge_tokens (cl_tokens c) tokens\<rparr>"

definition best_cluster :: "'f::linorder f32_ops \<Rightarrow> cluster list \<Rightarrow> string list \<Rightarrow> (nat \<times> 'f) option" where
  "best_cluster F bucket tokens =
     max_by_key snd (map (\<lambda>i. (i, similarity F (cl_tokens (bucket ! i)) tokens)) [0 ..< length bucket])"

definition mine_merge :: "nat \<Rightarrow> string list \<Rightarrow> 'f template_miner \<Rightarrow> 'f template_miner \<times> mined" where
  "mine_merge i tokens m =
     (let bucket = bucket_of_length m (length tokens); c = widen tokens (bucket ! i)
      in (m\<lparr>tm_buckets := hash_insert (length tokens) (bucket[i := c]) (tm_buckets m)\<rparr>,
          \<lparr>mn_template_id = cl_id c, mn_template = join '' '' (cl_tokens c), mn_variables = variables (cl_tokens c) tokens\<rparr>))"

definition mine_new :: "string list \<Rightarrow> 'f template_miner \<Rightarrow> 'f template_miner \<times> mined" where
  "mine_new tokens m =
     (m\<lparr>tm_next_id := tm_next_id m + 1,
         tm_buckets := hash_insert (length tokens)
           (bucket_of_length m (length tokens) @ [\<lparr>cl_id = tm_next_id m, cl_tokens = tokens\<rparr>]) (tm_buckets m)\<rparr>,
      \<lparr>mn_template_id = tm_next_id m, mn_template = join '' '' tokens, mn_variables = []\<rparr>)"

definition mine :: "'f::linorder f32_ops \<Rightarrow> string \<Rightarrow> 'f template_miner \<Rightarrow> 'f template_miner \<times> mined" where
  "mine F message m =
     (let tokens = split_whitespace message
      in case best_cluster F (bucket_of_length m (length tokens)) tokens of
           Some (i, sim) \<Rightarrow> if tm_threshold m \<le> sim then mine_merge i tokens m else mine_new tokens m
         | None \<Rightarrow> mine_new tokens m)"

definition template_count :: "'f template_miner \<Rightarrow> nat" where
  "template_count m = sum_list (map (\<lambda>(_, b). length b) (tm_buckets m))"

section \<open>Templates cover their messages\<close>

definition covers :: "string list \<Rightarrow> string list \<Rightarrow> bool" where
  "covers ts ks \<longleftrightarrow> list_all2 (\<lambda>t k. t = wildcard \<or> t = k) ts ks"

text \<open>The message a template stands for when its wildcards are replaced by the variables.\<close>

fun fill :: "string list \<Rightarrow> string list \<Rightarrow> string list" where
  "fill [] vs = []"
| "fill (t # ts) vs =
     (if t = wildcard then (case vs of [] \<Rightarrow> t # fill ts [] | v # vs' \<Rightarrow> v # fill ts vs') else t # fill ts vs)"

lemma length_merge [simp]: "length (merge_tokens ts ks) = length ts"
  by (induction ts ks rule: merge_tokens.induct) auto

lemma covers_merge_new: "length ts = length ks \<Longrightarrow> covers (merge_tokens ts ks) ks"
  by (induction ts ks rule: merge_tokens.induct) (auto simp: covers_def)

lemma covers_merge_old: "length ts = length ks \<Longrightarrow> covers ts xs \<Longrightarrow> covers (merge_tokens ts ks) xs"
  unfolding covers_def
  by (induction ts ks arbitrary: xs rule: merge_tokens.induct) (auto simp: list_all2_Cons1)

lemma fill_variables: "covers ts ks \<Longrightarrow> fill ts (variables ts ks) = ks"
  unfolding covers_def by (induction ts ks rule: list_all2_induct) (auto simp: variables_def)

lemma fill_plain: "wildcard \<notin> set ts \<Longrightarrow> fill ts vs = ts"
  by (induction ts) auto

lemma covers_refl: "covers ts ts"
  by (simp add: covers_def list.rel_refl)

lemma merge_words: "list_all is_word ts \<Longrightarrow> list_all is_word (merge_tokens ts ks)"
  by (induction ts ks rule: merge_tokens.induct) (auto simp: wildcard_def is_word_def is_space_def)

section \<open>The state of the miner\<close>

definition clusters :: "'f template_miner \<Rightarrow> cluster list" where
  "clusters m = concat (map snd (tm_buckets m))"

text \<open>A bucket holds clusters of its length, tokens are words, ids are below the next one.\<close>

definition miner_wf :: "'f template_miner \<Rightarrow> bool" where
  "miner_wf m \<longleftrightarrow> distinct (map fst (tm_buckets m)) \<and>
     (\<forall>(n, b) \<in> set (tm_buckets m). \<forall>c \<in> set b. length (cl_tokens c) = n \<and> list_all is_word (cl_tokens c) \<and> cl_id c < tm_next_id m)"

text \<open>The template of the cluster with this id.\<close>

definition has_template :: "'f template_miner \<Rightarrow> nat \<Rightarrow> string list \<Rightarrow> bool" where
  "has_template m i ts \<longleftrightarrow> (\<exists>c \<in> set (bucket_of_length m (length ts)). cl_id c = i \<and> cl_tokens c = ts)"

text \<open>What one call does: a cluster is widened in place, or a new one is added at the end.\<close>

lemma mine_cases:
  "(\<exists>i < length (bucket_of_length m (length (split_whitespace message))). mine F message m = mine_merge i (split_whitespace message) m) \<or>
   mine F message m = mine_new (split_whitespace message) m"
proof -
  let ?b = "bucket_of_length m (length (split_whitespace message))"
  have "i < length ?b" if "best_cluster F ?b (split_whitespace message) = Some (i, sim)" for i sim
    using max_by_key_mem [OF that [unfolded best_cluster_def]] by auto
  then show ?thesis by (auto simp: mine_def Let_def split: option.splits)
qed

lemma widen_simps [simp]: "cl_id (widen ks c) = cl_id c" "cl_tokens (widen ks c) = merge_tokens (cl_tokens c) ks"
  by (simp_all add: widen_def)

lemma miner_bucket:
  "miner_wf m \<Longrightarrow> c \<in> set (bucket_of_length m n) \<Longrightarrow>
     length (cl_tokens c) = n \<and> list_all is_word (cl_tokens c) \<and> cl_id c < tm_next_id m"
  by (fastforce simp: miner_wf_def bucket_of_length_def dest: map_of_SomeD split: option.splits)

lemma bucket_hash_insert:
  "bucket_of_length (m\<lparr>tm_buckets := hash_insert n b (tm_buckets m)\<rparr>) k = (if k = n then b else bucket_of_length m k)"
  "bucket_of_length (m\<lparr>tm_next_id := x, tm_buckets := hash_insert n b (tm_buckets m)\<rparr>) k = (if k = n then b else bucket_of_length m k)"
  by (simp_all add: bucket_of_length_def map_of_hash_insert)

lemma miner_wf_iff:
  "miner_wf m \<longleftrightarrow> distinct (map fst (tm_buckets m)) \<and>
     (\<forall>n. \<forall>c \<in> set (bucket_of_length m n). length (cl_tokens c) = n \<and> list_all is_word (cl_tokens c) \<and> cl_id c < tm_next_id m)"
proof
  assume "miner_wf m"
  then show "distinct (map fst (tm_buckets m)) \<and>
     (\<forall>n. \<forall>c \<in> set (bucket_of_length m n). length (cl_tokens c) = n \<and> list_all is_word (cl_tokens c) \<and> cl_id c < tm_next_id m)"
    using miner_bucket by (auto simp: miner_wf_def)
next
  assume a: "distinct (map fst (tm_buckets m)) \<and>
     (\<forall>n. \<forall>c \<in> set (bucket_of_length m n). length (cl_tokens c) = n \<and> list_all is_word (cl_tokens c) \<and> cl_id c < tm_next_id m)"
  then have "bucket_of_length m n = b" if "(n, b) \<in> set (tm_buckets m)" for n b
    using that by (simp add: bucket_of_length_def)
  with a show "miner_wf m" unfolding miner_wf_def by blast
qed

lemma mine_wf: "miner_wf m \<Longrightarrow> miner_wf (fst (mine F message m))"
proof -
  assume wf: "miner_wf m"
  let ?ks = "split_whitespace message"
  have words: "list_all is_word ?ks" by (rule split_whitespace_words)
  note b = miner_bucket [OF wf]
  from mine_cases [of m message F] show ?thesis
  proof (elim disjE exE conjE)
    fix i
    assume i: "i < length (bucket_of_length m (length ?ks))" and e: "mine F message m = mine_merge i ?ks m"
    let ?b = "bucket_of_length m (length ?ks)"
    let ?ok = "\<lambda>c. length (cl_tokens c) = length ?ks \<and> list_all is_word (cl_tokens c) \<and> cl_id c < tm_next_id m"
    have "?ok (widen ?ks (?b ! i))" using b [OF nth_mem [OF i]] by (simp add: merge_words)
    then have "?ok c" if "c \<in> set (?b[i := widen ?ks (?b ! i)])" for c
      using that set_update_subset_insert [of ?b i] b by blast
    with wf b show ?thesis
      unfolding e miner_wf_iff by (simp add: mine_merge_def Let_def bucket_hash_insert distinct_hash_insert)
  next
    assume "mine F message m = mine_new ?ks m"
    with wf words b show ?thesis
      by (auto simp: miner_wf_iff mine_new_def bucket_hash_insert distinct_hash_insert less_SucI)
  qed
qed

text \<open>Ids are unique, within a bucket and across buckets.\<close>

definition bucket_ids :: "'f template_miner \<Rightarrow> nat \<Rightarrow> nat list" where
  "bucket_ids m n = map cl_id (bucket_of_length m n)"

definition ids_unique :: "'f template_miner \<Rightarrow> bool" where
  "ids_unique m \<longleftrightarrow> (\<forall>n. distinct (bucket_ids m n)) \<and> (\<forall>n k x. x \<in> set (bucket_ids m n) \<longrightarrow> x \<in> set (bucket_ids m k) \<longrightarrow> n = k)"

lemma bucket_ids_merge:
  assumes "i < length (bucket_of_length m (length ks))"
  shows "bucket_ids (fst (mine_merge i ks m)) n = bucket_ids m n"
  using assms by (simp add: bucket_ids_def mine_merge_def Let_def bucket_hash_insert map_update widen_def list_update_same_conv)

lemma bucket_ids_new:
  "bucket_ids (fst (mine_new ks m)) n = bucket_ids m n @ (if n = length ks then [tm_next_id m] else [])"
  by (simp add: bucket_ids_def mine_new_def bucket_hash_insert)

lemma mine_ids_unique: "miner_wf m \<Longrightarrow> ids_unique m \<Longrightarrow> ids_unique (fst (mine F message m))"
proof -
  assume wf: "miner_wf m" and u: "ids_unique m"
  have fresh: "tm_next_id m \<notin> set (bucket_ids m n)" for n
    using miner_bucket [OF wf] by (fastforce simp: bucket_ids_def)
  from mine_cases [of m message F] show ?thesis
  proof (elim disjE exE conjE)
    fix i
    assume "i < length (bucket_of_length m (length (split_whitespace message)))"
      and "mine F message m = mine_merge i (split_whitespace message) m"
    with u show ?thesis by (simp add: ids_unique_def bucket_ids_merge)
  next
    assume "mine F message m = mine_new (split_whitespace message) m"
    with u fresh show ?thesis by (auto simp: ids_unique_def bucket_ids_new)
  qed
qed

definition mine_all :: "'f::linorder f32_ops \<Rightarrow> string list \<Rightarrow> 'f template_miner \<Rightarrow> 'f template_miner" where
  "mine_all F msgs m = fold (\<lambda>msg m. fst (mine F msg m)) msgs m"

lemma mine_all_inv:
  "miner_wf m \<Longrightarrow> ids_unique m \<Longrightarrow> miner_wf (mine_all F msgs m) \<and> ids_unique (mine_all F msgs m)"
  unfolding mine_all_def by (induction msgs arbitrary: m) (auto simp: mine_wf mine_ids_unique)

lemma new_inv: "miner_wf (template_miner_new th)" "ids_unique (template_miner_new th)"
  by (simp_all add: miner_wf_def ids_unique_def template_miner_new_def bucket_ids_def bucket_of_length_def)

lemma mine_covers_step:
  assumes wf: "miner_wf m" and t: "has_template m k ts" and c: "covers ts xs"
  shows "\<exists>us. has_template (fst (mine F message m)) k us \<and> covers us xs"
proof -
  let ?ks = "split_whitespace message" and ?n = "length (split_whitespace message)"
  let ?b = "bucket_of_length m ?n"
  from t obtain d where d: "d \<in> set (bucket_of_length m (length ts))" "cl_id d = k" "cl_tokens d = ts"
    by (auto simp: has_template_def)
  from mine_cases [of m message F] show ?thesis
  proof (elim disjE exE conjE)
    fix i
    assume i: "i < length ?b" and e: "mine F message m = mine_merge i ?ks m"
    show ?thesis
    proof (cases "length ts = ?n \<and> d = ?b ! i")
      case True
      have "widen ?ks d \<in> set (?b[i := widen ?ks (?b ! i)])" using True i by (auto intro: set_update_memI)
      then have "has_template (fst (mine F message m)) k (merge_tokens ts ?ks)"
        using True d unfolding e has_template_def
        by (intro bexI [of _ "widen ?ks d"]) (simp_all add: mine_merge_def Let_def bucket_hash_insert)
      with covers_merge_old [OF _ c] True show ?thesis by blast
    next
      case False
      have "d \<in> set (?b[i := y])" if "d \<in> set ?b" "d \<noteq> ?b ! i" for y
        using that i by (metis in_set_conv_nth length_list_update nth_list_update_neq)
      with False d have "has_template (fst (mine F message m)) k ts"
        unfolding e by (auto simp: has_template_def mine_merge_def Let_def bucket_hash_insert)
      with c show ?thesis by blast
    qed
  next
    assume "mine F message m = mine_new ?ks m"
    with d have "has_template (fst (mine F message m)) k ts"
      by (auto simp: has_template_def mine_new_def bucket_hash_insert)
    with c show ?thesis by blast
  qed
qed

lemma mine_all_covers:
  assumes "miner_wf m" "ids_unique m" "has_template m k ts" "covers ts xs"
  shows "\<exists>us. has_template (mine_all F msgs m) k us \<and> covers us xs"
  using assms
proof (induction msgs arbitrary: m ts)
  case Nil
  then show ?case by (auto simp: mine_all_def)
next
  case (Cons a msgs)
  from mine_covers_step [OF Cons.prems(1,3,4)] obtain us where
    "has_template (fst (mine F a m)) k us" "covers us xs" by blast
  with Cons.IH [of "fst (mine F a m)" us] Cons.prems show ?case
    by (simp add: mine_all_def mine_wf mine_ids_unique)
qed

lemma has_template_unique:
  assumes "ids_unique m" "has_template m k ts" "has_template m k us"
  shows "ts = us"
proof -
  from assms(2,3) obtain c d where c: "c \<in> set (bucket_of_length m (length ts))" "cl_id c = k" "cl_tokens c = ts"
    and d: "d \<in> set (bucket_of_length m (length us))" "cl_id d = k" "cl_tokens d = us" by (auto simp: has_template_def)
  then have "k \<in> set (bucket_ids m (length ts))" "k \<in> set (bucket_ids m (length us))"
    unfolding bucket_ids_def set_map by (metis image_eqI)+
  then have "length ts = length us" using assms(1) unfolding ids_unique_def by blast
  moreover have "inj_on cl_id (set (bucket_of_length m (length ts)))"
    using assms(1) by (simp add: ids_unique_def bucket_ids_def distinct_map)
  ultimately show ?thesis using c d by (auto dest: inj_onD)
qed

section \<open>What mining promises\<close>

lemma mine_result:
  assumes wf: "miner_wf m"
  shows "has_template (fst (mine F message m)) (mn_template_id (snd (mine F message m)))
      (split_whitespace (mn_template (snd (mine F message m)))) \<and>
    covers (split_whitespace (mn_template (snd (mine F message m)))) (split_whitespace message) \<and>
    (wildcard \<notin> set (split_whitespace message) \<longrightarrow>
      fill (split_whitespace (mn_template (snd (mine F message m)))) (mn_variables (snd (mine F message m))) = split_whitespace message)"
proof -
  let ?ks = "split_whitespace message"
  let ?b = "bucket_of_length m (length ?ks)"
  from mine_cases [of m message F] show ?thesis
  proof (elim disjE exE conjE)
    fix i
    assume i: "i < length ?b" and e: "mine F message m = mine_merge i ?ks m"
    let ?ts = "merge_tokens (cl_tokens (?b ! i)) ?ks"
    have b: "length (cl_tokens (?b ! i)) = length ?ks" "list_all is_word (cl_tokens (?b ! i))"
      using miner_bucket [OF wf nth_mem [OF i]] by auto
    have split: "split_whitespace (join '' '' ?ts) = ?ts" using b(2) by (simp add: split_whitespace_join merge_words)
    have "covers ?ts ?ks" using b(1) by (rule covers_merge_new)
    moreover have "widen ?ks (?b ! i) \<in> set (?b[i := widen ?ks (?b ! i)])" using i by (rule set_update_memI)
    ultimately show ?thesis
      unfolding e using b(1) i
      by (auto simp: mine_merge_def Let_def split has_template_def bucket_hash_insert fill_variables intro!: bexI [of _ "widen ?ks (?b ! i)"])
  next
    assume e: "mine F message m = mine_new ?ks m"
    have "split_whitespace (join '' '' ?ks) = ?ks" by (simp add: split_whitespace_join split_whitespace_words)
    then show ?thesis unfolding e by (simp add: mine_new_def has_template_def bucket_hash_insert covers_refl fill_plain)
  qed
qed

text \<open>
  C28: Template mining keeps the words of a message: whatever was mined before, a message of which no
  word is the wildcard \<open><*>\<close> itself has its words, split at white space, given back by putting the
  variables of the result into the wildcards of its template (the white space between them is not kept);
  and for any message, whatever is mined later, the id of the result names exactly one template, and
  it still covers the words of the message.
\<close>

theorem mining_lossless:
  "let m = mine_all F before (template_miner_new th);
       (m1, r) = mine F message m;
       m2 = mine_all F after m1
   in (wildcard \<in> set (split_whitespace message) \<or>
         fill (split_whitespace (mn_template r)) (mn_variables r) = split_whitespace message) \<and>
      (\<exists>!ts. has_template m2 (mn_template_id r) ts) \<and>
      (\<exists>ts. has_template m2 (mn_template_id r) ts \<and> covers ts (split_whitespace message))"
proof -
  define m where "m = mine_all F before (template_miner_new th)"
  have inv: "miner_wf m" "ids_unique m" using mine_all_inv [OF new_inv] by (auto simp: m_def)
  let ?m1 = "fst (mine F message m)" and ?r = "snd (mine F message m)"
  note res = mine_result [OF inv(1), of F message]
  have inv1: "miner_wf ?m1" "ids_unique ?m1" using inv by (auto simp: mine_wf mine_ids_unique)
  from res have "has_template ?m1 (mn_template_id ?r) (split_whitespace (mn_template ?r))"
    "covers (split_whitespace (mn_template ?r)) (split_whitespace message)" by auto
  from mine_all_covers [OF inv1 this, of F after] obtain us where
    "has_template (mine_all F after ?m1) (mn_template_id ?r) us" "covers us (split_whitespace message)" by blast
  moreover have "ids_unique (mine_all F after ?m1)" using mine_all_inv [OF inv1] by blast
  ultimately show ?thesis
    using res has_template_unique unfolding m_def [symmetric] by (auto simp: Let_def split: prod.splits)
qed

end
