(* ===== verification/Plugin_Host.thy ===== *)
theory Plugin_Host
  imports Core_Event
begin

text \<open>
  Plugin admission, \<open>crates/sigil-plugin-wasm\<close>: capabilities and their policy (\<open>capability.rs\<close>), the
  manifest (\<open>manifest.rs\<close>), module signatures (\<open>signature.rs\<close>) and the host that admits a module
  (\<open>host.rs\<close>). The ed25519 implementation, the WAT parser and wasmtime are parameters.
\<close>

section \<open>Capabilities\<close>

datatype capability = NetEgress | ReadField string | Enrich string

definition parse_capability :: "string \<Rightarrow> capability result" where
  "parse_capability s0 =
     (let s = trim s0
      in case strip_prefix ''read:field:'' s of
           Some f \<Rightarrow> Inr (ReadField f)
         | None \<Rightarrow>
             (case strip_prefix ''enrich:'' s of
                Some n \<Rightarrow> Inr (Enrich n)
              | None \<Rightarrow>
                  if s = ''net:egress'' then Inr NetEgress
                  else Inl (Config (''unknown capability `'' @ s @ ''`''))))"

fun capability_str :: "capability \<Rightarrow> string" where
  "capability_str NetEgress = ''net:egress''"
| "capability_str (ReadField f) = ''read:field:'' @ f"
| "capability_str (Enrich e) = ''enrich:'' @ e"

record capability_policy =
  cp_allowed :: "capability list"

definition policy_from_strings :: "string list \<Rightarrow> capability_policy result" where
  "policy_from_strings items =
     and_then (collect_results parse_capability items) (\<lambda>allowed. Inr \<lparr>cp_allowed = allowed\<rparr>)"

definition grants :: "capability_policy \<Rightarrow> capability \<Rightarrow> bool" where
  "grants p c \<longleftrightarrow> c \<in> set (cp_allowed p)"

definition policy_check :: "capability_policy \<Rightarrow> capability list \<Rightarrow> string list + unit" where
  "policy_check p requested =
     (let denied = map capability_str (filter (\<lambda>c. \<not> grants p c) requested)
      in if denied = [] then Inr () else Inl denied)"

record wasm_manifest =
  wm_name :: string
  wm_capabilities :: "string list"
  wm_signature :: "string option"

definition requested_capabilities :: "wasm_manifest \<Rightarrow> capability list result" where
  "requested_capabilities m = collect_results parse_capability (wm_capabilities m)"

section \<open>Signatures\<close>

text \<open>Keys and signatures of the \<open>ed25519-dalek\<close> crate.\<close>

record 'k ed25519 =
  key_from_bytes :: "u8 list \<Rightarrow> string + 'k"
  key_verify :: "'k \<Rightarrow> u8 list \<Rightarrow> u8 list \<Rightarrow> bool"
  secret_sign :: "u8 list \<Rightarrow> u8 list \<Rightarrow> u8 list"
  secret_public :: "u8 list \<Rightarrow> u8 list"

definition encode_hex :: "u8 list \<Rightarrow> string" where
  "encode_hex bytes = concat (map (\<lambda>b. [hex_digit (unat b div 16), hex_digit (unat b mod 16)]) bytes)"

fun hex_pairs :: "string \<Rightarrow> u8 list option" where
  "hex_pairs [] = Some []"
| "hex_pairs [_] = None"
| "hex_pairs (a # b # s) =
     (case (hex_val a, hex_val b, hex_pairs s) of
        (Some x, Some y, Some bs) \<Rightarrow> Some (of_nat (16 * x + y) # bs)
      | _ \<Rightarrow> None)"

definition decode_hex :: "string \<Rightarrow> u8 list result" where
  "decode_hex s =
     (case hex_pairs (trim s) of Some bs \<Rightarrow> Inr bs | None \<Rightarrow> Inl (Config ''invalid hex string''))"

record 'k signature_policy =
  sp_keys :: "'k list"

definition policy_key :: "'k ed25519 \<Rightarrow> string \<Rightarrow> 'k result" where
  "policy_key E k =
     and_then (decode_hex k) (\<lambda>bytes.
       if length bytes \<noteq> 32 then Inl (Config ''public key must be 32 bytes'')
       else case key_from_bytes E bytes of
              Inl e \<Rightarrow> Inl (Config (''invalid ed25519 public key: '' @ e))
            | Inr key \<Rightarrow> Inr key)"

definition from_hex_keys :: "'k ed25519 \<Rightarrow> string list \<Rightarrow> 'k signature_policy result" where
  "from_hex_keys E ks = and_then (collect_results (policy_key E) ks) (\<lambda>keys. Inr \<lparr>sp_keys = keys\<rparr>)"

definition signing_required :: "'k signature_policy \<Rightarrow> bool" where
  "signing_required p \<longleftrightarrow> sp_keys p \<noteq> []"

definition signature_verify :: "'k ed25519 \<Rightarrow> 'k signature_policy \<Rightarrow> u8 list \<Rightarrow> string option \<Rightarrow> unit result" where
  "signature_verify E p module signature_hex =
     (if \<not> signing_required p then Inr ()
      else case signature_hex of
             None \<Rightarrow> Inl (Other ''plugin is unsigned but signing is enforced'')
           | Some h \<Rightarrow>
               and_then (decode_hex h) (\<lambda>sig.
                 if length sig \<noteq> 64 then Inl (Config ''signature must be 64 bytes'')
                 else if list_ex (\<lambda>k. key_verify E k module sig) (sp_keys p) then Inr ()
                 else Inl (Other ''plugin signature does not verify against any trusted key'')))"

definition sign_module :: "'k ed25519 \<Rightarrow> u8 list \<Rightarrow> u8 list \<Rightarrow> string" where
  "sign_module E secret module = encode_hex (secret_sign E secret module)"

definition public_key_hex :: "'k ed25519 \<Rightarrow> u8 list \<Rightarrow> string" where
  "public_key_hex E secret = encode_hex (secret_public E secret)"

section \<open>The host\<close>

datatype plugin_source = Wat string | Wasm "u8 list"

text \<open>The WAT parser, and compiling and linking a module against an empty linker.\<close>

record 'i wasm_runtime =
  wat_parse :: "string \<Rightarrow> string + u8 list"
  link_module :: "u8 list \<Rightarrow> string + 'i"

record 'i loaded_plugin =
  lp_granted :: "capability list"
  lp_instance :: 'i

definition backend :: "string + 'a \<Rightarrow> 'a result" where
  "backend r = (case r of Inl e \<Rightarrow> Inl (Backend e) | Inr x \<Rightarrow> Inr x)"

fun source_bytes :: "'i wasm_runtime \<Rightarrow> plugin_source \<Rightarrow> u8 list result" where
  "source_bytes R (Wat t) = backend (wat_parse R t)"
| "source_bytes R (Wasm b) = Inr b"

definition instantiate ::
  "'k ed25519 \<Rightarrow> 'i wasm_runtime \<Rightarrow> 'k signature_policy \<Rightarrow> wasm_manifest \<Rightarrow> capability_policy \<Rightarrow> plugin_source \<Rightarrow>
     'i loaded_plugin result" where
  "instantiate E R signatures m policy source =
     and_then (requested_capabilities m) (\<lambda>requested.
       case policy_check policy requested of
         Inl denied \<Rightarrow> Inl (Other (''plugin `'' @ wm_name m @ ''` denied capabilities: '' @ join '', '' denied))
       | Inr _ \<Rightarrow>
           and_then (source_bytes R source) (\<lambda>bytes.
             case signature_verify E signatures bytes (wm_signature m) of
               Inl e \<Rightarrow> Inl (Other (''plugin `'' @ wm_name m @ ''`: '' @ error_display e))
             | Inr _ \<Rightarrow>
                 and_then (backend (link_module R bytes)) (\<lambda>inst.
                   Inr \<lparr>lp_granted = requested, lp_instance = inst\<rparr>)))"

section \<open>Capability strings\<close>

lemma strip_prefix_append [simp]: "strip_prefix p (p @ s) = Some s"
  by (simp add: strip_prefix_def)

text \<open>Trimming text that starts with a letter only touches its end.\<close>

lemma trim_letter: "\<not> is_space c \<Longrightarrow> trim (c # s) = trim_end (c # s)"
  by (simp add: trim_def trim_start_def)

lemma trim_end_append:
  assumes "p \<noteq> []" and "\<not> is_space (last p)"
  shows "trim_end (p @ s) = p @ trim_end s"
proof -
  have "dropWhile is_space (rev s @ rev p) = dropWhile is_space (rev s) @ rev p"
    using assms by (cases p rule: rev_cases) (auto simp: dropWhile_append)
  then show ?thesis by (simp add: trim_end_def)
qed

lemma trim_capability:
  "trim (''read:field:'' @ f) = ''read:field:'' @ trim_end f"
  "trim (''enrich:'' @ f) = ''enrich:'' @ trim_end f"
proof -
  have c: "\<not> is_space CHR ''r''" "\<not> is_space CHR ''e''" "\<not> is_space CHR '':''" by (simp_all add: is_space_def)
  show "trim (''read:field:'' @ f) = ''read:field:'' @ trim_end f"
    using trim_letter [OF c(1)] trim_end_append [of "''read:field:''" f] c(3) by simp
  show "trim (''enrich:'' @ f) = ''enrich:'' @ trim_end f"
    using trim_letter [OF c(2)] trim_end_append [of "''enrich:''" f] c(3) by simp
qed

text \<open>
  Capability strings read back as the capability that printed them, except that white space at the
  end of a name is lost.
\<close>

theorem capability_roundtrip:
  "parse_capability (capability_str c) =
     Inr (case c of NetEgress \<Rightarrow> NetEgress | ReadField f \<Rightarrow> ReadField (trim_end f) | Enrich e \<Rightarrow> Enrich (trim_end e))"
proof (cases c)
  case NetEgress
  then show ?thesis by (simp add: parse_capability_def string_eval)
next
  case (ReadField f)
  show ?thesis
    unfolding ReadField parse_capability_def capability_str.simps trim_capability by (simp add: strip_prefix_def)
next
  case (Enrich e)
  show ?thesis
    unfolding Enrich parse_capability_def capability_str.simps trim_capability by (simp add: strip_prefix_def)
qed

section \<open>Admission\<close>

lemma policy_check_ok: "policy_check p cs = Inr () \<longleftrightarrow> set cs \<subseteq> set (cp_allowed p)"
  by (auto simp: policy_check_def grants_def Let_def filter_empty_conv)

lemma signature_verify_ok:
  "signature_verify E p module h = Inr () \<longleftrightarrow>
     sp_keys p = [] \<or> (\<exists>t sig k. h = Some t \<and> decode_hex t = Inr sig \<and> length sig = 64 \<and> k \<in> set (sp_keys p) \<and> key_verify E k module sig)"
  by (auto simp: signature_verify_def signing_required_def and_then_Inr_iff list_ex_iff split: option.splits if_splits)

text \<open>
  A plugin is admitted exactly when every capability its manifest requests parses and is granted by
  the policy, its module parses, compiles and links, and, once a publisher key is configured, its
  signature over the very bytes that are compiled verifies under one of the keys. An admitted
  plugin holds exactly the capabilities it requested, all of them granted.
\<close>

theorem instantiate_admits:
  "instantiate E R signatures m policy source = Inr l \<longleftrightarrow>
     (\<exists>bytes.
        requested_capabilities m = Inr (lp_granted l) \<and> list_all (grants policy) (lp_granted l) \<and>
        source_bytes R source = Inr bytes \<and> link_module R bytes = Inr (lp_instance l) \<and>
        (sp_keys signatures = [] \<or>
         (\<exists>t sig k. wm_signature m = Some t \<and> decode_hex t = Inr sig \<and> length sig = 64 \<and>
            k \<in> set (sp_keys signatures) \<and> key_verify E k bytes sig)))"
proof -
  have check: "policy_check policy cs = Inr x \<longleftrightarrow> list_all (grants policy) cs" for cs x
    using policy_check_ok [of policy cs] by (auto simp: list_all_iff grants_def)
  have link: "and_then (backend (link_module R bytes)) (\<lambda>inst. Inr \<lparr>lp_granted = cs, lp_instance = inst\<rparr>) = Inr l \<longleftrightarrow>
      link_module R bytes = Inr (lp_instance l) \<and> cs = lp_granted l" for bytes cs
    by (cases "link_module R bytes"; cases l) (auto simp: backend_def)
  have sig: "signature_verify E signatures bytes (wm_signature m) = Inr x \<longleftrightarrow>
      sp_keys signatures = [] \<or> (\<exists>t sig k. wm_signature m = Some t \<and> decode_hex t = Inr sig \<and> length sig = 64 \<and>
            k \<in> set (sp_keys signatures) \<and> key_verify E k bytes sig)" for bytes x
    using signature_verify_ok [of E signatures bytes "wm_signature m"] by simp
  have "instantiate E R signatures m policy source = Inr l \<longleftrightarrow>
     (\<exists>cs bytes. requested_capabilities m = Inr cs \<and> policy_check policy cs = Inr () \<and> source_bytes R source = Inr bytes \<and>
        signature_verify E signatures bytes (wm_signature m) = Inr () \<and>
        and_then (backend (link_module R bytes)) (\<lambda>inst. Inr \<lparr>lp_granted = cs, lp_instance = inst\<rparr>) = Inr l)"
    unfolding instantiate_def
    by (cases "requested_capabilities m"; cases "source_bytes R source")
      (auto split: sum.splits)
  then show ?thesis unfolding check link sig by auto
qed

section \<open>Signing and verifying\<close>

lemma hex_pairs_encode: "hex_pairs (encode_hex bs) = Some bs"
proof (induction bs)
  case Nil
  then show ?case by (simp add: encode_hex_def)
next
  case (Cons b bs)
  have "unat b < 256" using unsigned_less [of b, where ?'a = nat] by simp
  then have d: "unat b div 16 < 16" "unat b mod 16 < 16" by auto
  have "(of_nat (16 * (unat b div 16) + unat b mod 16) :: u8) = b"
    using mult_div_mod_eq [of 16 "unat b"] by simp
  with Cons d show ?case by (simp add: encode_hex_def hex_digit_val)
qed

lemma hex_digit_not_space: "d < 16 \<Longrightarrow> \<not> is_space (hex_digit d)"
  by (auto simp: hex_digit_def is_space_def Let_def)

lemma encode_hex_chars: "c \<in> set (encode_hex bs) \<Longrightarrow> \<not> is_space c"
proof -
  have "unat b div 16 < 16" for b :: u8 using unsigned_less [of b, where ?'a = nat] by auto
  then show "c \<in> set (encode_hex bs) \<Longrightarrow> \<not> is_space c" by (auto simp: encode_hex_def hex_digit_not_space)
qed

lemma decode_encode_hex: "decode_hex (encode_hex bs) = Inr bs"
proof -
  have "trim (encode_hex bs) = encode_hex bs"
    by (rule trim_noop) (metis encode_hex_chars hd_in_set last_in_set)
  then show ?thesis by (simp add: decode_hex_def hex_pairs_encode)
qed

text \<open>
  What a publisher signs with the tool of the repository, the host accepts: if the signature scheme
  verifies its own 64-byte signatures and reads back its own 32-byte public keys, a policy built from
  the hexadecimal form of the publisher's public key, among others, accepts the hexadecimal
  signature of the module in the manifest; the hexadecimal codec loses nothing.
\<close>

theorem signed_module_accepted:
  assumes public: "length (secret_public E sk) = 32" "key_from_bytes E (secret_public E sk) = Inr k"
    and sign: "length (secret_sign E sk module) = 64" "key_verify E k module (secret_sign E sk module)"
    and policy: "from_hex_keys E keys = Inr p" "public_key_hex E sk \<in> set keys"
  shows "signature_verify E p module (Some (sign_module E sk module)) = Inr ()"
proof -
  have "policy_key E (public_key_hex E sk) = Inr k"
    using public by (simp add: policy_key_def public_key_hex_def decode_encode_hex)
  moreover from policy(1) have "list_all2 (\<lambda>x y. policy_key E x = Inr y) keys (sp_keys p)"
    by (auto simp: from_hex_keys_def and_then_Inr_iff collect_results_Inr_iff)
  ultimately have "k \<in> set (sp_keys p)"
    using policy(2) by (metis (mono_tags, lifting) in_set_conv_nth list_all2_conv_all_nth sum.inject(2))
  with sign show ?thesis by (auto simp: signature_verify_ok sign_module_def decode_encode_hex)
qed

definition demo_scheme :: "u8 list ed25519" where
  "demo_scheme = \<lparr>key_from_bytes = Inr, key_verify = (\<lambda>k m s. s = replicate 64 (hd k + sum_list m)),
     secret_sign = (\<lambda>sk m. replicate 64 (hd sk + sum_list m)), secret_public = (\<lambda>sk. replicate 32 (hd sk))\<rparr>"

theorem signed_module_accepted_witness:
  "signature_verify demo_scheme \<lparr>sp_keys = [replicate 32 7]\<rparr> [1, 2, 3] (Some (sign_module demo_scheme [7] [1, 2, 3])) = Inr ()"
proof (rule signed_module_accepted [where keys = "[public_key_hex demo_scheme [7]]" and k = "replicate 32 7"])
  show "from_hex_keys demo_scheme [public_key_hex demo_scheme [7]] = Inr \<lparr>sp_keys = [replicate 32 7]\<rparr>"
    by (simp add: from_hex_keys_def policy_key_def public_key_hex_def decode_encode_hex demo_scheme_def)
qed (simp_all add: demo_scheme_def)

end
