(* ===== verification/Enrich.thy ===== *)
theory Enrich
  imports Plugin_Host
begin

text \<open>
  The enrichers of \<open>crates/sigil-enrich\<close>: redaction (\<open>redact.rs\<close>), entropy scoring (\<open>entropy.rs\<close>),
  threat intelligence (\<open>threatintel.rs\<close>) and the chain (\<open>lib.rs\<close>). The three regular-expression
  replacements of redaction, the \<open>f64\<close> entropy of a label with its order and rendering, and the
  display of JSON values are parameters; step settings are what the YAML accessors return.
\<close>

section \<open>Parameters and settings\<close>

record 'f enrich_env =
  en_email :: "string \<Rightarrow> string"
  en_aws_key :: "string \<Rightarrow> string"
  en_secret_kv :: "string \<Rightarrow> string"
  en_entropy :: "string \<Rightarrow> 'f"
  en_render :: "'f \<Rightarrow> json"
  en_default_threshold :: 'f
  en_display :: json_display

text \<open>The \<open>feed\<close> setting: absent, a file that cannot be read, or the text of the file.\<close>

datatype feed = NoFeed | UnreadableFeed | FeedText string

record 'f settings =
  se_threshold :: "'f option"
  se_feed :: feed

datatype 'f enricher = RedactEnricher | EntropyEnricher 'f | ThreatIntelEnricher "string list"

fun enricher_name :: "'f enricher \<Rightarrow> string" where
  "enricher_name RedactEnricher = ''redact''"
| "enricher_name (EntropyEnricher _) = ''entropy''"
| "enricher_name (ThreatIntelEnricher _) = ''threatintel''"

fun enricher_capabilities :: "'f enricher \<Rightarrow> capability list" where
  "enricher_capabilities RedactEnricher = [Enrich ''redact'']"
| "enricher_capabilities (EntropyEnricher _) = [Enrich ''entropy'']"
| "enricher_capabilities (ThreatIntelEnricher _) = [Enrich ''threatintel'']"

section \<open>Redaction\<close>

definition redact :: "'f enrich_env \<Rightarrow> string \<Rightarrow> string" where
  "redact E input =
     replace_str ''http://'' ''hxxp://''
       (replace_str ''https://'' ''hxxps://'' (en_secret_kv E (en_aws_key E (en_email E input))))"

fun redact_value :: "'f enrich_env \<Rightarrow> json \<Rightarrow> json" where
  "redact_value E (JString s) = JString (redact E s)"
| "redact_value E v = v"

definition enrich_redact :: "'f enrich_env \<Rightarrow> event \<Rightarrow> event" where
  "enrich_redact E ev =
     ev\<lparr>ev_message := redact E (ev_message ev), ev_fields := map (\<lambda>(k, v). (k, redact_value E v)) (ev_fields ev)\<rparr>"

section \<open>Entropy\<close>

definition domain_fields :: "string list" where
  "domain_fields = [''domain'', ''dns_query'', ''query'', ''dns.question.name'', ''host'']"

fun first_nonempty :: "json_display \<Rightarrow> event \<Rightarrow> string list \<Rightarrow> string option" where
  "first_nonempty sj ev [] = None"
| "first_nonempty sj ev (k # ks) =
     (case field_str sj ev k of
        Some s \<Rightarrow> if s \<noteq> [] then Some s else first_nonempty sj ev ks
      | None \<Rightarrow> first_nonempty sj ev ks)"

definition candidate_domain :: "json_display \<Rightarrow> event \<Rightarrow> string option" where
  "candidate_domain sj ev =
     (case ev_target ev of
        Some t \<Rightarrow> if er_kind t = ''domain'' \<or> er_kind t = ''host'' then Some (er_id t) else first_nonempty sj ev domain_fields
      | None \<Rightarrow> first_nonempty sj ev domain_fields)"

text \<open>The label left of the registrable domain, or the first one of a shorter name.\<close>

definition significant_label :: "string \<Rightarrow> string" where
  "significant_label d = (let parts = split_char CHR ''.'' (trim_end_matches CHR ''.'' d) in parts ! (length parts - 3))"

definition min_len :: nat where
  "min_len = 8"

definition add_label :: "string \<Rightarrow> event \<Rightarrow> event" where
  "add_label l ev = (if l \<in> set (ev_labels ev) then ev else ev\<lparr>ev_labels := ev_labels ev @ [l]\<rparr>)"

definition set_field :: "string \<Rightarrow> json \<Rightarrow> event \<Rightarrow> event" where
  "set_field k v ev = ev\<lparr>ev_fields := btree_insert k v (ev_fields ev)\<rparr>"

definition enrich_entropy :: "'f::linorder enrich_env \<Rightarrow> 'f \<Rightarrow> event \<Rightarrow> event" where
  "enrich_entropy E threshold ev =
     (case candidate_domain (en_display E) ev of
        None \<Rightarrow> ev
      | Some d \<Rightarrow>
          let l = significant_label d
          in if length l < min_len then ev
             else let bits = en_entropy E l;
                      ev' = set_field ''dga.score'' (en_render E bits) (set_field ''dga.entropy'' (en_render E bits) ev)
                  in if threshold \<le> bits then add_label ''dga-suspect'' ev' else ev')"

section \<open>Threat intelligence\<close>

definition ioc_fields :: "string list" where
  "ioc_fields = [''src_ip'', ''dst_ip'', ''ip'', ''domain'', ''dns_query'', ''query'', ''url'', ''hash'', ''md5'', ''sha1'', ''sha256'']"

definition load_feed :: "feed \<Rightarrow> string list" where
  "load_feed f =
     (case f of
        FeedText t \<Rightarrow> map to_lowercase (filter (\<lambda>l. l \<noteq> [] \<and> \<not> prefix ''#'' l) (map trim (text_lines t)))
      | _ \<Rightarrow> [])"

text \<open>The values an event is checked for: its entities, then the indicator fields.\<close>

definition ioc_values :: "json_display \<Rightarrow> event \<Rightarrow> string list" where
  "ioc_values sj ev = map er_id (event_entities ev) @ List.map_filter (field_str sj ev) ioc_fields"

definition match_event :: "json_display \<Rightarrow> string list \<Rightarrow> event \<Rightarrow> string option" where
  "match_event sj indicators ev =
     (if indicators = [] then None
      else find (\<lambda>v. v \<in> set indicators) (map to_lowercase (ioc_values sj ev)))"

definition enrich_threatintel :: "'f enrich_env \<Rightarrow> string list \<Rightarrow> event \<Rightarrow> event" where
  "enrich_threatintel E indicators ev =
     (case match_event (en_display E) indicators ev of
        None \<Rightarrow> ev
      | Some i \<Rightarrow>
          add_label ''threat-intel-hit''
            (set_field ''threat.indicator'' (JString i) (set_field ''threat.matched'' (JBool True) ev)))"

section \<open>The chain\<close>

fun enrich :: "'f::linorder enrich_env \<Rightarrow> 'f enricher \<Rightarrow> event \<Rightarrow> event" where
  "enrich E RedactEnricher ev = enrich_redact E ev"
| "enrich E (EntropyEnricher t) ev = enrich_entropy E t ev"
| "enrich E (ThreatIntelEnricher is) ev = enrich_threatintel E is ev"

type_synonym 'f enrich_chain = "'f enricher list"

definition chain_apply :: "'f::linorder enrich_env \<Rightarrow> 'f enrich_chain \<Rightarrow> event \<Rightarrow> event" where
  "chain_apply E chain ev = fold (enrich E) chain ev"

definition build_enricher :: "'f enrich_env \<Rightarrow> string \<Rightarrow> 'f settings \<Rightarrow> 'f enricher option" where
  "build_enricher E name s =
     (if name = ''redact'' then Some RedactEnricher
      else if name = ''entropy'' then
        Some (EntropyEnricher (case se_threshold s of Some t \<Rightarrow> t | None \<Rightarrow> en_default_threshold E))
      else if name = ''threatintel'' \<or> name = ''threat_intel'' then Some (ThreatIntelEnricher (load_feed (se_feed s)))
      else None)"

section \<open>Redaction defangs links\<close>

lemma redact_no_links:
  "\<not> contains (redact E s) ''http://'' \<and> \<not> contains (redact E s) ''https://''"
proof -
  let ?t = "en_secret_kv E (en_aws_key E (en_email E s))"
  have s: "\<not> sublist ''https://'' (replace_str ''https://'' ''hxxps://'' ?t)"
    by (rule replace_str_removes [of _ "CHR ''h''" "''ttps://''" _ "''xxps://''" _ "''ttps://''"]) auto
  have "\<not> sublist ''http://'' (redact E s)"
    unfolding redact_def by (rule replace_str_removes [of _ "CHR ''h''" "''ttp://''" _ "''xxp://''" _ "''ttp://''"]) auto
  moreover have "\<not> sublist ''https://'' (redact E s)"
    unfolding redact_def using s
    by (intro replace_str_removes [of _ "CHR ''h''" "''ttp://''" _ "''xxp://''" _ "''ttps://''"]) auto
  ultimately show ?thesis by (simp add: contains_iff_sublist)
qed

text \<open>
  Redaction leaves no clickable link, whatever the regular expressions for addresses and secrets
  do before: neither the message nor a string field contains \<open>http://\<close> or \<open>https://\<close> afterwards.
  Everything else of the event stays as it is, which includes the raw frame, entity names and
  strings nested in arrays and objects.
\<close>

theorem redact_defangs:
  "let ev' = enrich E RedactEnricher ev
   in \<not> contains (ev_message ev') ''http://'' \<and> \<not> contains (ev_message ev') ''https://'' \<and>
      list_all (\<lambda>(k, v). case v of JString s \<Rightarrow> \<not> contains s ''http://'' \<and> \<not> contains s ''https://'' | _ \<Rightarrow> (k, v) \<in> set (ev_fields ev))
        (ev_fields ev') \<and>
      map fst (ev_fields ev') = map fst (ev_fields ev) \<and>
      ev' = ev\<lparr>ev_message := ev_message ev', ev_fields := ev_fields ev'\<rparr>"
proof -
  have "list_all (\<lambda>(k, v). case v of JString s \<Rightarrow> \<not> contains s ''http://'' \<and> \<not> contains s ''https://'' | _ \<Rightarrow> (k, v) \<in> set (ev_fields ev))
      (map (\<lambda>(k, v). (k, redact_value E v)) m)" if "set m \<subseteq> set (ev_fields ev)" for m
    using that
  proof (induction m)
    case Nil
    then show ?case by simp
  next
    case (Cons p m)
    then show ?case by (cases p; cases "snd p") (auto simp: redact_no_links)
  qed
  then show ?thesis by (simp add: Let_def enrich_redact_def redact_no_links case_prod_beta comp_def)
qed

section \<open>Indicator matching\<close>

lemma match_event_Some:
  "match_event sj is ev \<noteq> None \<longleftrightarrow> (\<exists>v \<in> set (ioc_values sj ev). to_lowercase v \<in> set is)"
  using find_None_iff [of "\<lambda>v. v \<in> set is" "map to_lowercase (ioc_values sj ev)"]
  by (auto simp: match_event_def simp del: not_None_eq)

lemma load_feed_mem:
  "i \<in> set (load_feed (FeedText t)) \<longleftrightarrow>
     (\<exists>l \<in> set (text_lines t). trim l \<noteq> [] \<and> \<not> prefix ''#'' (trim l) \<and> i = to_lowercase (trim l))"
  by (auto simp: load_feed_def)

lemma ioc_value_iff:
  "v \<in> set (ioc_values sj ev) \<longleftrightarrow>
     (\<exists>x \<in> set (event_entities ev). v = er_id x) \<or> (\<exists>k \<in> set ioc_fields. field_str sj ev k = Some v)"
  by (force simp: ioc_values_def List.map_filter_def)

text \<open>
  An event is labelled as a threat-intelligence hit exactly when the id of one of its entities or
  the value of an indicator field equals a line of the feed, trimmed and compared without case;
  blank lines and comments never match, and the label is not added twice.
\<close>

theorem threatintel_spec:
  assumes "build_enricher E ''threatintel'' s = Some e" and "se_feed s = FeedText t" and "''threat-intel-hit'' \<notin> set (ev_labels ev)"
  shows "(''threat-intel-hit'' \<in> set (ev_labels (enrich E e ev)) \<longleftrightarrow>
      (\<exists>v l. ((\<exists>x \<in> set (event_entities ev). v = er_id x) \<or> (\<exists>k \<in> set ioc_fields. field_str (en_display E) ev k = Some v)) \<and>
         l \<in> set (text_lines t) \<and> trim l \<noteq> [] \<and> \<not> prefix ''#'' (trim l) \<and> eq_ignore_ascii_case v (trim l))) \<and>
    count_list (ev_labels (enrich E e (enrich E e ev))) ''threat-intel-hit'' \<le> 1"
proof -
  let ?is = "load_feed (FeedText t)"
  have e: "e = ThreatIntelEnricher ?is" using assms(1,2) by (simp add: build_enricher_def)
  have hit: "''threat-intel-hit'' \<in> set (ev_labels (enrich E e ev)) \<longleftrightarrow> match_event (en_display E) ?is ev \<noteq> None"
    using assms(3) by (auto simp: e enrich_threatintel_def add_label_def set_field_def split: option.splits)
  have count: "count_list (ev_labels (enrich_threatintel E is w)) ''threat-intel-hit'' \<le> 1"
    if "count_list (ev_labels w) ''threat-intel-hit'' \<le> 1" for "is" w
    using that count_notin [of "''threat-intel-hit''" "ev_labels w"]
    by (auto simp: enrich_threatintel_def add_label_def set_field_def split: option.splits)
  have "count_list (ev_labels ev) ''threat-intel-hit'' \<le> 1" using assms(3) count_notin by (metis zero_le)
  then have "count_list (ev_labels (enrich E e (enrich E e ev))) ''threat-intel-hit'' \<le> 1"
    using count by (simp add: e)
  then show ?thesis
    unfolding hit match_event_Some load_feed_mem eq_ignore_ascii_case_def Bex_def ioc_value_iff by blast
qed

definition demo_enrich_env :: "nat enrich_env" where
  "demo_enrich_env = \<lparr>en_email = id, en_aws_key = id, en_secret_kv = id, en_entropy = length, en_render = (\<lambda>n. JNumber (PosInt n)),
     en_default_threshold = 4, en_display = (\<lambda>_. [])\<rparr>"

theorem threatintel_spec_witness:
  "''threat-intel-hit'' \<in> set (ev_labels (enrich demo_enrich_env (ThreatIntelEnricher [''evil.example''])
      (new_event ''e'' 0 ''t''\<lparr>ev_host := Some (entity ''host'' ''EVIL.example'')\<rparr>)))"
proof -
  let ?ev = "new_event ''e'' 0 ''t''\<lparr>ev_host := Some (entity ''host'' ''EVIL.example'')\<rparr>"
  let ?s = "\<lparr>se_threshold = None, se_feed = FeedText ''Evil.example''\<rparr>"
  have b: "build_enricher demo_enrich_env ''threatintel'' ?s = Some (ThreatIntelEnricher [''evil.example''])"
    by (simp add: build_enricher_def load_feed_def text_lines_def string_eval)
  have "eq_ignore_ascii_case ''EVIL.example'' (trim ''Evil.example'')" "''Evil.example'' \<in> set (text_lines ''Evil.example'')"
    "trim ''Evil.example'' \<noteq> []" "\<not> prefix ''#'' (trim ''Evil.example'')"
    by (simp_all add: text_lines_def string_eval)
  moreover have "\<exists>x \<in> set (event_entities ?ev). ''EVIL.example'' = er_id x"
    by (simp add: event_entities_def new_event_def entity_def List.map_filter_def)
  ultimately show ?thesis
    using threatintel_spec [OF b, of "''Evil.example''" ?ev] by (auto simp: new_event_def)
qed

end
