(* ===== verification/Detect.thy ===== *)
theory Detect
  imports Core_Event
begin

text \<open>
  The custom detectors of \<open>crates/sigil-detect\<close>: indicators of compromise (\<open>ioc.rs\<close>), DGA scores
  (\<open>dga.rs\<close>) and the chain (\<open>lib.rs\<close>). Reading \<open>f64\<close> numbers and their order, and the display of
  JSON values, are parameters; settings are what the YAML accessors return.
\<close>

section \<open>Indicators\<close>

text \<open>A setting: absent, a file (its text, if it can be read), or an inline list.\<close>

datatype indicator_source = NoIndicators | IndicatorFile "string option" | IndicatorList "string list"

definition add_indicator :: "string \<Rightarrow> string list \<Rightarrow> string list" where
  "add_indicator raw set' =
     (let v = trim raw
      in if v = [] \<or> prefix ''#'' v then set' else List.insert (to_lowercase v) set')"

definition load_set :: "indicator_source \<Rightarrow> string list" where
  "load_set src =
     (case src of
        IndicatorFile (Some t) \<Rightarrow> fold add_indicator (text_lines t) []
      | IndicatorList is \<Rightarrow> fold add_indicator is []
      | _ \<Rightarrow> [])"

record ioc_detector =
  id_hashes :: "string list"
  id_ips :: "string list"
  id_domains :: "string list"

record ioc_settings =
  is_hashes :: indicator_source
  is_ips :: indicator_source
  is_domains :: indicator_source

definition ioc_from_settings :: "ioc_settings \<Rightarrow> ioc_detector" where
  "ioc_from_settings s =
     \<lparr>id_hashes = load_set (is_hashes s), id_ips = load_set (is_ips s), id_domains = load_set (is_domains s)\<rparr>"

definition ioc_len :: "ioc_detector \<Rightarrow> nat" where
  "ioc_len d = length (id_hashes d) + length (id_ips d) + length (id_domains d)"

text \<open>The first of the fields whose value, rewritten by \<open>f\<close>, is in the set.\<close>

fun field_hit :: "json_display \<Rightarrow> (string \<Rightarrow> string) \<Rightarrow> string list \<Rightarrow> event \<Rightarrow> string list \<Rightarrow> string option" where
  "field_hit sj f is ev [] = None"
| "field_hit sj f is ev (k # ks) =
     (case field_str sj ev k of
        Some v \<Rightarrow> if f v \<in> set is then Some (f v) else field_hit sj f is ev ks
      | None \<Rightarrow> field_hit sj f is ev ks)"

definition hash_hit :: "json_display \<Rightarrow> ioc_detector \<Rightarrow> event \<Rightarrow> string option" where
  "hash_hit sj d ev =
     field_hit sj to_lowercase (id_hashes d) ev [''process.hash.sha256'', ''file.hash.sha256'', ''module.hash.sha256'']"

definition ip_hit :: "json_display \<Rightarrow> ioc_detector \<Rightarrow> event \<Rightarrow> string option" where
  "ip_hit sj d ev = field_hit sj id (id_ips d) ev [''destination.ip'', ''source.ip'']"

definition domain_hit :: "json_display \<Rightarrow> ioc_detector \<Rightarrow> event \<Rightarrow> string option" where
  "domain_hit sj d ev =
     (case field_hit sj to_lowercase (id_domains d) ev [''dns.question.name''] of
        Some v \<Rightarrow> Some v
      | None \<Rightarrow>
          (case ev_target ev of
             Some t \<Rightarrow> if er_kind t = ''domain'' \<and> to_lowercase (er_id t) \<in> set (id_domains d) then Some (er_id t) else None
           | None \<Rightarrow> None))"

definition ioc_alert :: "string \<Rightarrow> string \<Rightarrow> string \<Rightarrow> event \<Rightarrow> alert" where
  "ioc_alert kind v technique ev =
     \<lparr>al_rule_id = ''ioc-'' @ kind @ ''-match'', al_title = ''IOC match ('' @ kind @ ''): '' @ v, al_severity = High,
      al_technique = Some technique, al_events = [ev_id ev], al_ts = ev_ts ev\<rparr>"

definition ioc_eval :: "json_display \<Rightarrow> ioc_detector \<Rightarrow> event \<Rightarrow> alert option" where
  "ioc_eval sj d ev =
     (case hash_hit sj d ev of
        Some h \<Rightarrow> Some (ioc_alert ''hash'' h ''T1204'' ev)
      | None \<Rightarrow>
          (case ip_hit sj d ev of
             Some ip \<Rightarrow> Some (ioc_alert ''ip'' ip ''T1071'' ev)
           | None \<Rightarrow> map_option (\<lambda>v. ioc_alert ''domain'' v ''T1071'' ev) (domain_hit sj d ev)))"

section \<open>DGA scores\<close>

record 'f f64_env =
  fe_parse :: "string \<Rightarrow> 'f option"
  fe_less :: "'f \<Rightarrow> 'f \<Rightarrow> bool"
  fe_default_threshold :: 'f
  fe_display :: json_display

definition dga_eval :: "'f f64_env \<Rightarrow> 'f \<Rightarrow> event \<Rightarrow> alert option" where
  "dga_eval E threshold ev =
     (case field_str (fe_display E) ev ''dga.score'' of
        None \<Rightarrow> None
      | Some s \<Rightarrow>
          (case fe_parse E s of
             None \<Rightarrow> None
           | Some score \<Rightarrow>
               if fe_less E score threshold then None
               else let domain = (case ev_target ev of
                                    Some t \<Rightarrow> er_id t
                                  | None \<Rightarrow> (case field_str (fe_display E) ev ''domain'' of Some d \<Rightarrow> d | None \<Rightarrow> []))
                    in Some \<lparr>al_rule_id = ''dga-domain'',
                             al_title = (if domain = [] then ''DGA-like domain'' else ''DGA-like domain: '' @ domain),
                             al_severity = Medium, al_technique = Some ''T1568.002'', al_events = [ev_id ev], al_ts = ev_ts ev\<rparr>))"

section \<open>The chain\<close>

datatype 'f detector = DgaDetector 'f | IocDetector ioc_detector

fun detector_eval :: "'f f64_env \<Rightarrow> 'f detector \<Rightarrow> event \<Rightarrow> alert option" where
  "detector_eval E (DgaDetector t) ev = dga_eval E t ev"
| "detector_eval E (IocDetector d) ev = ioc_eval (fe_display E) d ev"

definition detector_chain_eval :: "'f f64_env \<Rightarrow> 'f detector list \<Rightarrow> event \<Rightarrow> alert list" where
  "detector_chain_eval E ds ev = List.map_filter (\<lambda>d. detector_eval E d ev) ds"

record 'f detector_settings =
  ds_threshold :: "'f option"
  ds_ioc :: ioc_settings

definition build_detector :: "'f f64_env \<Rightarrow> string \<Rightarrow> 'f detector_settings \<Rightarrow> 'f detector option" where
  "build_detector E name s =
     (if name = ''dga'' then Some (DgaDetector (case ds_threshold s of Some t \<Rightarrow> t | None \<Rightarrow> fe_default_threshold E))
      else if name = ''ioc'' then
        let d = ioc_from_settings (ds_ioc s) in if ioc_len d = 0 then None else Some (IocDetector d)
      else None)"

section \<open>What the indicator detector fires on\<close>

text \<open>The lines of a source that count: trimmed, neither blank nor a comment.\<close>

definition source_lines :: "indicator_source \<Rightarrow> string list" where
  "source_lines src = (case src of IndicatorFile (Some t) \<Rightarrow> text_lines t | IndicatorList is \<Rightarrow> is | _ \<Rightarrow> [])"

definition listed :: "indicator_source \<Rightarrow> string \<Rightarrow> bool" where
  "listed src v \<longleftrightarrow> (\<exists>l \<in> set (source_lines src). trim l \<noteq> [] \<and> \<not> prefix ''#'' (trim l) \<and> to_lowercase (trim l) = v)"

lemma fold_add_indicator:
  "v \<in> set (fold add_indicator ls acc) \<longleftrightarrow>
     v \<in> set acc \<or> (\<exists>l \<in> set ls. trim l \<noteq> [] \<and> \<not> prefix ''#'' (trim l) \<and> to_lowercase (trim l) = v)"
proof (induction ls arbitrary: acc)
  case Nil
  then show ?case by simp
next
  case (Cons l ls)
  have "v \<in> set (add_indicator l acc) \<longleftrightarrow> v \<in> set acc \<or> (trim l \<noteq> [] \<and> \<not> prefix ''#'' (trim l) \<and> to_lowercase (trim l) = v)"
    by (auto simp: add_indicator_def Let_def)
  with Cons show ?case by auto
qed

lemma load_set_listed: "v \<in> set (load_set src) \<longleftrightarrow> listed src v"
  using fold_add_indicator [of v "source_lines src" "[]"]
  by (auto simp: load_set_def listed_def source_lines_def split: indicator_source.splits option.splits)

lemma field_hit_Some:
  "field_hit sj f is ev ks \<noteq> None \<longleftrightarrow> (\<exists>k \<in> set ks. \<exists>v. field_str sj ev k = Some v \<and> f v \<in> set is)"
  by (induction ks) (auto split: option.splits)

definition hash_listed :: "json_display \<Rightarrow> ioc_settings \<Rightarrow> event \<Rightarrow> bool" where
  "hash_listed sj s ev \<longleftrightarrow>
     (\<exists>k \<in> {''process.hash.sha256'', ''file.hash.sha256'', ''module.hash.sha256''}.
        \<exists>v. field_str sj ev k = Some v \<and> listed (is_hashes s) (to_lowercase v))"

definition ip_listed :: "json_display \<Rightarrow> ioc_settings \<Rightarrow> event \<Rightarrow> bool" where
  "ip_listed sj s ev \<longleftrightarrow>
     (\<exists>k \<in> {''destination.ip'', ''source.ip''}. \<exists>v. field_str sj ev k = Some v \<and> listed (is_ips s) v)"

definition domain_listed :: "json_display \<Rightarrow> ioc_settings \<Rightarrow> event \<Rightarrow> bool" where
  "domain_listed sj s ev \<longleftrightarrow>
     (\<exists>v. field_str sj ev ''dns.question.name'' = Some v \<and> listed (is_domains s) (to_lowercase v)) \<or>
     (\<exists>t. ev_target ev = Some t \<and> er_kind t = ''domain'' \<and> listed (is_domains s) (to_lowercase (er_id t)))"

lemma hits_listed:
  "hash_hit sj (ioc_from_settings s) ev \<noteq> None \<longleftrightarrow> hash_listed sj s ev"
  "ip_hit sj (ioc_from_settings s) ev \<noteq> None \<longleftrightarrow> ip_listed sj s ev"
  "domain_hit sj (ioc_from_settings s) ev \<noteq> None \<longleftrightarrow> domain_listed sj s ev"
proof -
  show "hash_hit sj (ioc_from_settings s) ev \<noteq> None \<longleftrightarrow> hash_listed sj s ev"
    unfolding hash_hit_def field_hit_Some by (simp add: hash_listed_def ioc_from_settings_def load_set_listed)
  show "ip_hit sj (ioc_from_settings s) ev \<noteq> None \<longleftrightarrow> ip_listed sj s ev"
    unfolding ip_hit_def field_hit_Some by (simp add: ip_listed_def ioc_from_settings_def load_set_listed)
  show "domain_hit sj (ioc_from_settings s) ev \<noteq> None \<longleftrightarrow> domain_listed sj s ev"
    by (auto simp: domain_hit_def domain_listed_def ioc_from_settings_def load_set_listed split: option.splits)
qed

lemma listed_lower: "listed src v \<Longrightarrow> to_lowercase v = v"
  by (auto simp: listed_def)

text \<open>
  The indicator detector fires on an event exactly when a hash field, compared without case, an
  address field, compared as it is, or the queried name or target domain, compared without case,
  is a listed indicator in lower case; hashes come before addresses and those before domains. As
  indicators are lower-cased when they are loaded and addresses are not when they are looked up,
  an address with a capital letter, as in IPv6, never matches, not even the very text that was
  listed.
\<close>

theorem ioc_detector_spec:
  "map_option al_rule_id (ioc_eval sj (ioc_from_settings s) ev) =
     (if hash_listed sj s ev then Some ''ioc-hash-match''
      else if ip_listed sj s ev then Some ''ioc-ip-match''
      else if domain_listed sj s ev then Some ''ioc-domain-match'' else None) \<and>
   \<not> (listed src ip \<and> to_lowercase ip \<noteq> ip)"
proof
  show "map_option al_rule_id (ioc_eval sj (ioc_from_settings s) ev) =
     (if hash_listed sj s ev then Some ''ioc-hash-match''
      else if ip_listed sj s ev then Some ''ioc-ip-match''
      else if domain_listed sj s ev then Some ''ioc-domain-match'' else None)"
    using hits_listed [of sj s ev] unfolding ioc_eval_def
    by (cases "hash_hit sj (ioc_from_settings s) ev"; cases "ip_hit sj (ioc_from_settings s) ev";
        cases "domain_hit sj (ioc_from_settings s) ev") (simp_all add: ioc_alert_def)
  show "\<not> (listed src ip \<and> to_lowercase ip \<noteq> ip)" using listed_lower by blast
qed

end
