(* ===== verification/Index_Segments.thy ===== *)
theory Index_Segments
  imports Core_Event
begin

text \<open>
  The tiered segment store of \<open>crates/sigil-index\<close>: the catalog (\<open>catalog.rs\<close>), the rows of a
  segment (\<open>columnar.rs\<close>), the archive (\<open>object.rs\<close>) and the store (\<open>store.rs\<close>). A Parquet file is
  the list of its rows. The local directory and the object store are explicit maps; reading a
  missing file or object, a refused upload or deletion and a catalog that cannot be written during
  retention are errors, other failures of the file system are not modelled. The clock is an argument.
\<close>

section \<open>Rows\<close>

text \<open>One row of the event schema.\<close>

record event_row =
  rw_id :: string
  rw_ts :: timestamp
  rw_ingest_ts :: timestamp
  rw_class :: u32
  rw_class_name :: string
  rw_severity :: string
  rw_severity_id :: int
  rw_tenant :: string
  rw_host :: "string option"
  rw_actor :: "string option"
  rw_actor_kind :: "string option"
  rw_target :: "string option"
  rw_target_kind :: "string option"
  rw_message :: string
  rw_fields_json :: string

fun class_name :: "ocsf_class \<Rightarrow> string" where
  "class_name FileSystemActivity = ''file_system_activity''"
| "class_name ProcessActivity = ''process_activity''"
| "class_name Authentication = ''authentication''"
| "class_name NetworkActivity = ''network_activity''"
| "class_name HttpActivity = ''http_activity''"
| "class_name ApiActivity = ''api_activity''"
| "class_name DnsActivity = ''dns_activity''"
| "class_name ModuleActivity = ''module_activity''"
| "class_name ScheduledJobActivity = ''scheduled_job_activity''"
| "class_name RegistryKeyActivity = ''registry_key_activity''"
| "class_name (OtherClass _) = ''other''"

fun severity_name :: "severity \<Rightarrow> string" where
  "severity_name Unknown = ''unknown''"
| "severity_name Informational = ''informational''"
| "severity_name Low = ''low''"
| "severity_name Medium = ''medium''"
| "severity_name High = ''high''"
| "severity_name Critical = ''critical''"
| "severity_name Fatal = ''fatal''"

text \<open>The display and the parser of \<open>serde_json\<close>.\<close>

record json_text =
  jt_show :: "json \<Rightarrow> string"
  jt_parse :: "string \<Rightarrow> json option"

definition event_to_row :: "json_text \<Rightarrow> event \<Rightarrow> event_row" where
  "event_to_row J ev =
     \<lparr>rw_id = ev_id ev, rw_ts = ev_ts ev, rw_ingest_ts = ev_ingest_ts ev, rw_class = uid (ev_class ev),
      rw_class_name = class_name (ev_class ev), rw_severity = severity_name (ev_severity ev),
      rw_severity_id = uint (severity_id (ev_severity ev)), rw_tenant = ev_tenant ev,
      rw_host = map_option er_id (ev_host ev),
      rw_actor = map_option er_id (ev_actor ev), rw_actor_kind = map_option er_kind (ev_actor ev),
      rw_target = map_option er_id (ev_target ev), rw_target_kind = map_option er_kind (ev_target ev),
      rw_message = ev_message ev, rw_fields_json = jt_show J (JObject (ev_fields ev))\<rparr>"

definition events_to_batch :: "json_text \<Rightarrow> event list \<Rightarrow> event_row list" where
  "events_to_batch J evs = map (event_to_row J) evs"

definition row_entity :: "string \<Rightarrow> string option \<Rightarrow> string option \<Rightarrow> entity_ref option" where
  "row_entity default_kind kind i =
     map_option (entity (case kind of Some k \<Rightarrow> k | None \<Rightarrow> default_kind)) i"

definition row_to_event :: "json_text \<Rightarrow> event_row \<Rightarrow> event" where
  "row_to_event J r =
     \<lparr>ev_id = rw_id r, ev_ts = rw_ts r, ev_ingest_ts = rw_ingest_ts r, ev_class = from_uid (rw_class r),
      ev_tenant = rw_tenant r, ev_severity = severity_from_id (of_int (max 0 (min (rw_severity_id r) 255))),
      ev_host = map_option (entity ''host'') (rw_host r),
      ev_actor = row_entity ''user'' (rw_actor_kind r) (rw_actor r),
      ev_target = row_entity ''host'' (rw_target_kind r) (rw_target r),
      ev_message = rw_message r,
      ev_fields = (case jt_parse J (rw_fields_json r) of Some (JObject m) \<Rightarrow> m | _ \<Rightarrow> []),
      ev_template_id = None, ev_labels = [], ev_raw = []\<rparr>"

definition batch_into_events :: "json_text \<Rightarrow> event_row list \<Rightarrow> event list" where
  "batch_into_events J rows = map (row_to_event J) rows"

section \<open>The catalog\<close>

datatype tier = Hot | Warm | Cold

record segment_meta =
  sg_id :: string
  sg_path :: string
  sg_tier :: tier
  sg_min_ts :: timestamp
  sg_max_ts :: timestamp
  sg_rows :: nat
  sg_created_ts :: timestamp

type_synonym catalog = "segment_meta list"

definition catalog_add :: "segment_meta \<Rightarrow> catalog \<Rightarrow> catalog" where
  "catalog_add seg c = c @ [seg]"

definition catalog_total_rows :: "catalog \<Rightarrow> nat" where
  "catalog_total_rows c = sum_list (map sg_rows c)"

definition overlapping :: "timestamp \<Rightarrow> timestamp \<Rightarrow> catalog \<Rightarrow> catalog" where
  "overlapping start end' c = filter (\<lambda>s. sg_min_ts s \<le> end' \<and> start \<le> sg_max_ts s) c"

definition is_expired :: "timestamp \<Rightarrow> int \<Rightarrow> segment_meta \<Rightarrow> bool" where
  "is_expired now max_age s \<longleftrightarrow> max_age < wrap64 (now - sg_max_ts s)"

definition expired :: "timestamp \<Rightarrow> int \<Rightarrow> catalog \<Rightarrow> catalog" where
  "expired now max_age c = filter (is_expired now max_age) c"

text \<open>Only the first segment with the id is changed.\<close>

fun catalog_migrate :: "string \<Rightarrow> tier \<Rightarrow> string \<Rightarrow> catalog \<Rightarrow> catalog \<times> bool" where
  "catalog_migrate i t path [] = ([], False)"
| "catalog_migrate i t path (s # c) =
     (if sg_id s = i then (s\<lparr>sg_tier := t, sg_path := path\<rparr> # c, True)
      else let (c', b) = catalog_migrate i t path c in (s # c', b))"

type_synonym files = "string \<rightharpoonup> event_row list"

text \<open>The entries that stay, the files without those of the removed entries, and their number.\<close>

definition catalog_remove :: "string list \<Rightarrow> catalog \<Rightarrow> files \<Rightarrow> catalog \<times> files \<times> nat" where
  "catalog_remove ids c fs =
     (let gone = filter (\<lambda>s. sg_id s \<in> set ids) c
      in (filter (\<lambda>s. sg_id s \<notin> set ids) c, fold (\<lambda>s f. f(sg_path s := None)) gone fs, length gone))"

definition per_unit :: "string \<Rightarrow> int option" where
  "per_unit u =
     (if u = ''s'' then Some 1000000
      else if u = ''m'' then Some (60 * 1000000)
      else if u = ''h'' then Some (3600 * 1000000)
      else if u = ''d'' then Some (86400 * 1000000)
      else if u = ''w'' then Some (7 * 86400 * 1000000)
      else None)"

definition parse_duration_micros :: "string \<Rightarrow> int option" where
  "parse_duration_micros s0 =
     (let s = trim s0; num = takeWhile is_digit s; unit = dropWhile is_digit s
      in if unit = [] then None
         else case parse_i64 num of
                None \<Rightarrow> None
              | Some n \<Rightarrow> map_option (\<lambda>per. wrap64 (n * per)) (per_unit unit))"

definition segment_meta_new ::
  "timestamp \<Rightarrow> string \<Rightarrow> string \<Rightarrow> timestamp \<Rightarrow> timestamp \<Rightarrow> nat \<Rightarrow> segment_meta" where
  "segment_meta_new now i path min_ts max_ts rows =
     \<lparr>sg_id = i, sg_path = path, sg_tier = Warm, sg_min_ts = min_ts, sg_max_ts = max_ts, sg_rows = rows,
      sg_created_ts = now\<rparr>"

section \<open>The archive\<close>

record cold_archive =
  ca_prefix :: string
  ca_objects :: files

definition archive_key :: "cold_archive \<Rightarrow> string \<Rightarrow> string" where
  "archive_key a i = ca_prefix a @ ''/'' @ i @ ''.parquet''"

definition archive_put :: "string \<Rightarrow> event_row list \<Rightarrow> cold_archive \<Rightarrow> cold_archive" where
  "archive_put key rows a = a\<lparr>ca_objects := (ca_objects a)(key \<mapsto> rows)\<rparr>"

definition archive_get :: "string \<Rightarrow> cold_archive \<Rightarrow> event_row list result" where
  "archive_get key a =
     (case ca_objects a key of Some rows \<Rightarrow> Inr rows | None \<Rightarrow> Inl (Backend ''object store: not found''))"

definition archive_delete :: "string \<Rightarrow> cold_archive \<Rightarrow> cold_archive" where
  "archive_delete key a = a\<lparr>ca_objects := (ca_objects a)(key := None)\<rparr>"

section \<open>The store\<close>

record columnar_store =
  cs_dir :: string
  cs_files :: files
  cs_catalog :: catalog
  cs_archive :: "cold_archive option"

definition local_path :: "string \<Rightarrow> string \<Rightarrow> string" where
  "local_path dir i = dir @ ''/'' @ i @ ''.parquet''"

definition ulid_like :: "timestamp \<Rightarrow> string" where
  "ulid_like now = ''seg-'' @ hex16 (of_int now)"

definition write_segment ::
  "json_text \<Rightarrow> timestamp \<Rightarrow> event list \<Rightarrow> columnar_store \<Rightarrow> columnar_store \<times> segment_meta option" where
  "write_segment J now evs st =
     (if evs = [] then (st, None)
      else let i = ulid_like now;
               path = local_path (cs_dir st) i;
               meta = segment_meta_new now i path (Min (set (map ev_ts evs))) (Max (set (map ev_ts evs))) (length evs)
           in (st\<lparr>cs_files := (cs_files st)(path \<mapsto> events_to_batch J evs), cs_catalog := catalog_add meta (cs_catalog st)\<rparr>,
               Some meta))"

definition read_local :: "string \<Rightarrow> columnar_store \<Rightarrow> event_row list result" where
  "read_local path st =
     (case cs_files st path of Some rows \<Rightarrow> Inr rows | None \<Rightarrow> Inl (Io (''open segment '' @ path)))"

definition segment_rows :: "columnar_store \<Rightarrow> segment_meta \<Rightarrow> event_row list result" where
  "segment_rows st s =
     (case (sg_tier s, cs_archive st) of
        (Cold, Some a) \<Rightarrow> archive_get (sg_path s) a
      | _ \<Rightarrow> read_local (sg_path s) st)"

definition read_range :: "json_text \<Rightarrow> timestamp \<Rightarrow> timestamp \<Rightarrow> columnar_store \<Rightarrow> event list result" where
  "read_range J start end' st =
     and_then (collect_results (segment_rows st) (overlapping start end' (cs_catalog st))) (\<lambda>batches.
       Inr (filter (\<lambda>e. start \<le> ev_ts e \<and> ev_ts e \<le> end') (concat (map (batch_into_events J) batches))))"

text \<open>
  The loop of \<open>migrate_warm\<close>; \<open>put_ok\<close> says whether the archive accepts an upload under the key. The
  state reached is kept when a step fails.
\<close>

fun migrate_segments ::
  "(string \<Rightarrow> bool) \<Rightarrow> catalog \<Rightarrow> nat \<Rightarrow> columnar_store \<Rightarrow> columnar_store \<times> nat result" where
  "migrate_segments put_ok [] n st = (st, Inr n)"
| "migrate_segments put_ok (s # ss) n st =
     (case cs_archive st of
        None \<Rightarrow> (st, Inr n)
      | Some a \<Rightarrow>
          (case cs_files st (sg_path s) of
             None \<Rightarrow> (st, Inl (Io (''read segment '' @ sg_path s)))
           | Some rows \<Rightarrow>
               let key = archive_key a (sg_id s)
               in if \<not> put_ok key then (st, Inl (Backend ''object store: refused''))
                  else migrate_segments put_ok ss (n + 1)
                         (st\<lparr>cs_archive := Some (archive_put key rows a),
                             cs_catalog := fst (catalog_migrate (sg_id s) Cold key (cs_catalog st)),
                             cs_files := (cs_files st)(sg_path s := None)\<rparr>)))"

definition aged :: "timestamp \<Rightarrow> int \<Rightarrow> catalog \<Rightarrow> catalog" where
  "aged now max_warm_age c = filter (\<lambda>s. sg_tier s = Warm \<and> is_expired now max_warm_age s) c"

definition migrate_warm :: "(string \<Rightarrow> bool) \<Rightarrow> timestamp \<Rightarrow> int \<Rightarrow> columnar_store \<Rightarrow> columnar_store \<times> nat result" where
  "migrate_warm put_ok now max_warm_age st =
     (case cs_archive st of
        None \<Rightarrow> (st, Inr 0)
      | Some _ \<Rightarrow> migrate_segments put_ok (aged now max_warm_age (cs_catalog st)) 0 st)"

definition enforce_retention :: "timestamp \<Rightarrow> int \<Rightarrow> columnar_store \<Rightarrow> columnar_store \<times> nat" where
  "enforce_retention now max_age st =
     (let gone = expired now max_age (cs_catalog st);
          archive = map_option (fold (\<lambda>s. archive_delete (sg_path s)) (filter (\<lambda>s. sg_tier s = Cold) gone)) (cs_archive st);
          (c, fs, n) = catalog_remove (map sg_id gone) (cs_catalog st) (cs_files st)
      in (st\<lparr>cs_archive := archive, cs_catalog := c, cs_files := fs\<rparr>, n))"

text \<open>
  The same with its errors: \<open>refuse\<close> says which deletions the archive refuses, \<open>save\<close> whether the
  catalog can be written. The state reached is kept when a step fails.
\<close>

fun delete_objects ::
  "(string \<Rightarrow> error option) \<Rightarrow> catalog \<Rightarrow> cold_archive \<Rightarrow> cold_archive \<times> unit result" where
  "delete_objects refuse [] a = (a, Inr ())"
| "delete_objects refuse (s # ss) a =
     (case refuse (sg_path s) of
        Some e \<Rightarrow> (a, Inl e)
      | None \<Rightarrow> delete_objects refuse ss (archive_delete (sg_path s) a))"

definition retention_run ::
  "(string \<Rightarrow> error option) \<Rightarrow> error option \<Rightarrow> timestamp \<Rightarrow> int \<Rightarrow> columnar_store \<Rightarrow> columnar_store \<times> nat result" where
  "retention_run refuse save now max_age st =
     (let gone = expired now max_age (cs_catalog st);
          (archive, r) = (case cs_archive st of
              None \<Rightarrow> (None, Inr ())
            | Some a \<Rightarrow> (let (a', r) = delete_objects refuse (filter (\<lambda>s. sg_tier s = Cold) gone) a in (Some a', r)))
      in case r of
           Inl e \<Rightarrow> (st\<lparr>cs_archive := archive\<rparr>, Inl e)
         | Inr _ \<Rightarrow>
             (let (c, fs, n) = catalog_remove (map sg_id gone) (cs_catalog st) (cs_files st);
                  st' = st\<lparr>cs_archive := archive, cs_catalog := c, cs_files := fs\<rparr>
              in case (n, save) of (Suc _, Some e) \<Rightarrow> (st', Inl e) | _ \<Rightarrow> (st', Inr n)))"

definition segment_count :: "columnar_store \<Rightarrow> nat" where
  "segment_count st = length (cs_catalog st)"

definition store_total_rows :: "columnar_store \<Rightarrow> nat" where
  "store_total_rows st = catalog_total_rows (cs_catalog st)"

definition tier_counts :: "columnar_store \<Rightarrow> nat \<times> nat \<times> nat" where
  "tier_counts st =
     (let n = (\<lambda>t. length (filter (\<lambda>s. sg_tier s = t) (cs_catalog st))) in (n Hot, n Warm, n Cold))"

section \<open>The store as a list of batches\<close>

definition rows_of :: "columnar_store \<Rightarrow> segment_meta \<Rightarrow> event_row list" where
  "rows_of st s = (case segment_rows st s of Inr rows \<Rightarrow> rows | Inl _ \<Rightarrow> [])"

text \<open>What the store holds: the ids of the segments with their rows, oldest first.\<close>

definition contents :: "columnar_store \<Rightarrow> (string \<times> event_row list) list" where
  "contents st = map (\<lambda>s. (sg_id s, rows_of st s)) (cs_catalog st)"

definition is_cold :: "segment_meta \<Rightarrow> bool" where
  "is_cold s \<longleftrightarrow> sg_tier s = Cold"

definition meta_of_rows :: "segment_meta \<Rightarrow> event_row list \<Rightarrow> bool" where
  "meta_of_rows s rows \<longleftrightarrow> rows \<noteq> [] \<and> sg_min_ts s = Min (set (map rw_ts rows)) \<and>
     sg_max_ts s = Max (set (map rw_ts rows)) \<and> sg_rows s = length rows"

text \<open>
  A segment is where its tier says, under the name its id gives, and the catalog describes its rows.
\<close>

definition seg_ok :: "columnar_store \<Rightarrow> segment_meta \<Rightarrow> bool" where
  "seg_ok st s \<longleftrightarrow> CHR ''/'' \<notin> set (sg_id s) \<and>
     (if is_cold s
      then \<exists>a. cs_archive st = Some a \<and> sg_path s = archive_key a (sg_id s) \<and>
             (\<exists>rows. ca_objects a (sg_path s) = Some rows \<and> meta_of_rows s rows)
      else sg_path s = local_path (cs_dir st) (sg_id s) \<and>
             (\<exists>rows. cs_files st (sg_path s) = Some rows \<and> meta_of_rows s rows))"

definition store_ok :: "columnar_store \<Rightarrow> bool" where
  "store_ok st \<longleftrightarrow> distinct (map sg_id (cs_catalog st)) \<and> (\<forall>s \<in> set (cs_catalog st). seg_ok st s)"

lemma archive_key_eq [simp]: "archive_key a i = archive_key a j \<longleftrightarrow> i = j"
  by (simp add: archive_key_def)

lemma local_path_eq [simp]: "local_path d i = local_path d j \<longleftrightarrow> i = j"
  by (simp add: local_path_def)

lemma archive_local_eq:
  assumes "CHR ''/'' \<notin> set i" "CHR ''/'' \<notin> set j" and "archive_key a i = local_path d j"
  shows "i = j"
proof -
  have "ca_prefix a @ CHR ''/'' # i = d @ CHR ''/'' # j" using assms(3) by (simp add: archive_key_def local_path_def)
  then have "rev i @ CHR ''/'' # rev (ca_prefix a) = rev j @ CHR ''/'' # rev d"
    by (metis append.assoc append_Cons append_Nil rev.simps(2) rev_append)
  then show ?thesis using assms(1,2) sep_split_inj [of "CHR ''/''" "rev i" "rev j"] by simp
qed

lemma seg_path_cases:
  assumes "seg_ok st s"
  shows "CHR ''/'' \<notin> set (sg_id s) \<and>
    ((\<exists>a. cs_archive st = Some a \<and> sg_path s = archive_key a (sg_id s)) \<or> sg_path s = local_path (cs_dir st) (sg_id s))"
  using assms by (auto simp: seg_ok_def split: if_splits)

lemma seg_path_inj:
  assumes "seg_ok st s" "seg_ok st t" "sg_path s = sg_path t"
  shows "sg_id s = sg_id t"
proof -
  from seg_path_cases [OF assms(1)] seg_path_cases [OF assms(2)] assms(3)
  consider "local_path (cs_dir st) (sg_id s) = local_path (cs_dir st) (sg_id t)"
    | a where "archive_key a (sg_id s) = archive_key a (sg_id t)"
    | a where "archive_key a (sg_id s) = local_path (cs_dir st) (sg_id t)"
    | a where "archive_key a (sg_id t) = local_path (cs_dir st) (sg_id s)"
    by (metis option.sel)
  then show ?thesis
  proof cases
    case 1
    then show ?thesis by simp
  next
    case 2
    then show ?thesis by simp
  next
    case 3
    then show ?thesis using seg_path_cases [OF assms(1)] seg_path_cases [OF assms(2)] archive_local_eq by blast
  next
    case 4
    then have "sg_id t = sg_id s" using seg_path_cases [OF assms(1)] seg_path_cases [OF assms(2)] archive_local_eq by blast
    then show ?thesis ..
  qed
qed

lemma segment_rows_ok:
  assumes "seg_ok st s"
  shows "segment_rows st s = Inr (rows_of st s) \<and> meta_of_rows s (rows_of st s)"
proof (cases "is_cold s")
  case True
  with assms obtain a rows where "cs_archive st = Some a" "ca_objects a (sg_path s) = Some rows" "meta_of_rows s rows"
    by (auto simp: seg_ok_def)
  with True show ?thesis by (simp add: segment_rows_def rows_of_def is_cold_def archive_get_def)
next
  case False
  with assms obtain rows where rows: "cs_files st (sg_path s) = Some rows" "meta_of_rows s rows" by (auto simp: seg_ok_def)
  from False have "segment_rows st s = read_local (sg_path s) st"
    by (cases "sg_tier s") (simp_all add: segment_rows_def is_cold_def)
  with rows show ?thesis by (simp add: read_local_def rows_of_def)
qed

text \<open>A segment does not notice changes elsewhere.\<close>

lemma seg_ok_frame:
  assumes "seg_ok st s" and "cs_dir st' = cs_dir st"
    and "\<not> is_cold s \<Longrightarrow> cs_files st' (local_path (cs_dir st) (sg_id s)) = cs_files st (local_path (cs_dir st) (sg_id s))"
    and "\<And>a. is_cold s \<Longrightarrow> cs_archive st = Some a \<Longrightarrow>
      \<exists>a'. cs_archive st' = Some a' \<and> ca_prefix a' = ca_prefix a \<and>
        ca_objects a' (archive_key a (sg_id s)) = ca_objects a (archive_key a (sg_id s))"
  shows "seg_ok st' s \<and> rows_of st' s = rows_of st s"
proof (cases "is_cold s")
  case True
  with assms(1) obtain a rows where a: "cs_archive st = Some a" "sg_path s = archive_key a (sg_id s)"
    "ca_objects a (sg_path s) = Some rows" "meta_of_rows s rows" by (auto simp: seg_ok_def)
  from assms(4) [OF True a(1)] obtain a' where a': "cs_archive st' = Some a'" "ca_prefix a' = ca_prefix a"
    "ca_objects a' (sg_path s) = Some rows" using a by auto
  from a' have "archive_key a' (sg_id s) = archive_key a (sg_id s)" by (simp add: archive_key_def)
  with True assms(1) a a' show ?thesis
    by (auto simp: seg_ok_def rows_of_def segment_rows_def is_cold_def archive_get_def)
next
  case False
  then have "segment_rows st s = read_local (sg_path s) st" "segment_rows st' s = read_local (sg_path s) st'"
    by (cases "sg_tier s"; simp add: segment_rows_def is_cold_def)+
  with False assms show ?thesis by (auto simp: seg_ok_def rows_of_def read_local_def)
qed

section \<open>Writing\<close>

lemma hex_digit_not_slash: "d < 16 \<Longrightarrow> hex_digit d \<noteq> CHR ''/''"
proof -
  assume d: "d < 16"
  have "(of_char (hex_digit d) :: nat) = (if d < 10 then d + 48 else d + 87)"
    using d by (auto simp: hex_digit_def)
  then show ?thesis by (auto split: if_splits)
qed

lemma ulid_like_no_slash: "CHR ''/'' \<notin> set (ulid_like now)"
proof -
  have "hex_digit (k mod 16) \<noteq> CHR ''/''" for k by (rule hex_digit_not_slash) simp
  then show ?thesis by (auto simp: ulid_like_def hex16_def dest: sym)
qed

lemma Min_Max_rows:
  "set (map rw_ts (events_to_batch J evs)) = set (map ev_ts evs)" "events_to_batch J evs = [] \<longleftrightarrow> evs = []"
  by (auto simp: events_to_batch_def event_to_row_def)

lemma write_segment_refines:
  assumes ok: "store_ok st" and fresh: "ulid_like now \<notin> sg_id ` set (cs_catalog st)" and evs: "evs \<noteq> []"
  shows "store_ok (fst (write_segment J now evs st)) \<and>
    contents (fst (write_segment J now evs st)) = contents st @ [(ulid_like now, events_to_batch J evs)]"
proof -
  let ?i = "ulid_like now" and ?st' = "fst (write_segment J now evs st)"
  let ?path = "local_path (cs_dir st) (ulid_like now)"
  define meta where "meta = segment_meta_new now ?i ?path (Min (set (map ev_ts evs))) (Max (set (map ev_ts evs))) (length evs)"
  have st': "?st' = st\<lparr>cs_files := (cs_files st)(?path \<mapsto> events_to_batch J evs), cs_catalog := cs_catalog st @ [meta]\<rparr>"
    using evs by (simp add: write_segment_def Let_def catalog_add_def meta_def)
  have frame: "seg_ok ?st' s \<and> rows_of ?st' s = rows_of st s" if "s \<in> set (cs_catalog st)" for s
  proof (rule seg_ok_frame)
    show "seg_ok st s" using ok that by (simp add: store_ok_def)
    have "sg_id s \<noteq> ?i" using fresh that by (metis imageI)
    then show "cs_files ?st' (local_path (cs_dir st) (sg_id s)) = cs_files st (local_path (cs_dir st) (sg_id s))"
      by (simp add: st')
  qed (auto simp: st')
  have "meta_of_rows meta (events_to_batch J evs)"
    using evs Min_Max_rows [of J evs] unfolding meta_of_rows_def
    by (simp add: meta_def segment_meta_new_def events_to_batch_def)
  then have new: "seg_ok ?st' meta" "rows_of ?st' meta = events_to_batch J evs"
    by (auto simp: seg_ok_def rows_of_def segment_rows_def read_local_def is_cold_def st' meta_def segment_meta_new_def
        ulid_like_no_slash)
  have "sg_id meta = ?i" by (simp add: meta_def segment_meta_new_def)
  with ok fresh frame new show ?thesis
    by (auto simp: store_ok_def contents_def st')
qed

section \<open>Migration\<close>

lemma catalog_migrate_map:
  "distinct (map sg_id c) \<Longrightarrow>
     fst (catalog_migrate i t path c) = map (\<lambda>s. if sg_id s = i then s\<lparr>sg_tier := t, sg_path := path\<rparr> else s) c"
proof (induction c)
  case Nil
  then show ?case by simp
next
  case (Cons s c)
  have "map (\<lambda>s. if sg_id s = i then s\<lparr>sg_tier := t, sg_path := path\<rparr> else s) c = c" if "i \<notin> sg_id ` set c"
    using that by (intro map_idI) (auto dest: imageI)
  with Cons show ?case by (auto simp: Let_def split: prod.splits)
qed

text \<open>Moving one warm segment, the body of the loop.\<close>

definition migrate_one :: "cold_archive \<Rightarrow> segment_meta \<Rightarrow> event_row list \<Rightarrow> columnar_store \<Rightarrow> columnar_store" where
  "migrate_one a s rows st =
     st\<lparr>cs_archive := Some (archive_put (archive_key a (sg_id s)) rows a),
        cs_catalog := fst (catalog_migrate (sg_id s) Cold (archive_key a (sg_id s)) (cs_catalog st)),
        cs_files := (cs_files st)(sg_path s := None)\<rparr>"

lemma migrate_one_refines:
  assumes ok: "store_ok st" and a: "cs_archive st = Some a" and s: "s \<in> set (cs_catalog st)" "sg_tier s = Warm"
    and rows: "cs_files st (sg_path s) = Some rows"
  shows "store_ok (migrate_one a s rows st) \<and> contents (migrate_one a s rows st) = contents st \<and>
    (\<forall>t \<in> set (cs_catalog st). sg_id t \<noteq> sg_id s \<longrightarrow> t \<in> set (cs_catalog (migrate_one a s rows st)))"
proof -
  let ?st' = "migrate_one a s rows st" and ?key = "archive_key a (sg_id s)"
  define m where "m = (\<lambda>t :: segment_meta. if sg_id t = sg_id s then t\<lparr>sg_tier := Cold, sg_path := ?key\<rparr> else t)"
  have dist: "distinct (map sg_id (cs_catalog st))" using ok by (simp add: store_ok_def)
  have cat: "cs_catalog ?st' = map m (cs_catalog st)"
    using catalog_migrate_map [OF dist] by (simp add: migrate_one_def m_def)
  have s_ok: "seg_ok st s" using ok s by (simp add: store_ok_def)
  have path: "sg_path s = local_path (cs_dir st) (sg_id s)" using s_ok s(2) by (simp add: seg_ok_def is_cold_def)
  have meta: "meta_of_rows s rows" using s_ok s(2) rows by (auto simp: seg_ok_def is_cold_def)
  have key': "archive_key (archive_put ?key rows a) i = archive_key a i" for i by (simp add: archive_key_def archive_put_def)
  have moved: "seg_ok ?st' (s\<lparr>sg_tier := Cold, sg_path := ?key\<rparr>) \<and> rows_of ?st' (s\<lparr>sg_tier := Cold, sg_path := ?key\<rparr>) = rows"
    using s_ok meta key' by (simp add: seg_ok_def is_cold_def migrate_one_def archive_put_def rows_of_def segment_rows_def
        archive_get_def meta_of_rows_def)
  have other: "seg_ok ?st' t \<and> rows_of ?st' t = rows_of st t" if "t \<in> set (cs_catalog st)" "sg_id t \<noteq> sg_id s" for t
  proof (rule seg_ok_frame)
    show "seg_ok st t" using ok that by (simp add: store_ok_def)
  qed (use that a path in \<open>auto simp: migrate_one_def archive_put_def\<close>)
  have same: "t = s" if "t \<in> set (cs_catalog st)" "sg_id t = sg_id s" for t
    using dist that s(1) by (simp add: distinct_map inj_on_def)
  have rows_s: "rows_of st s = rows"
    using s(2) rows by (simp add: rows_of_def segment_rows_def read_local_def)
  have each: "seg_ok ?st' (m t) \<and> sg_id (m t) = sg_id t \<and> rows_of ?st' (m t) = rows_of st t"
    if "t \<in> set (cs_catalog st)" for t
    using moved other [OF that] same [OF that] rows_s unfolding m_def by (cases "sg_id t = sg_id s") auto
  have "map sg_id (map m (cs_catalog st)) = map sg_id (cs_catalog st)" using each by simp
  then have "store_ok ?st'" using dist each unfolding store_ok_def cat by (auto simp del: map_map)
  moreover have "contents ?st' = contents st" using each unfolding contents_def cat by (simp add: comp_def)
  moreover have "t \<in> set (cs_catalog ?st')" if "t \<in> set (cs_catalog st)" "sg_id t \<noteq> sg_id s" for t
    using that unfolding cat m_def by force
  ultimately show ?thesis by blast
qed

lemma migrate_segments_refines:
  assumes "store_ok st" and "set ss \<subseteq> set (cs_catalog st)" and "distinct (map sg_id ss)" and "\<forall>s \<in> set ss. sg_tier s = Warm"
  shows "store_ok (fst (migrate_segments put_ok ss n st)) \<and> contents (fst (migrate_segments put_ok ss n st)) = contents st"
  using assms
proof (induction ss arbitrary: n st)
  case Nil
  then show ?case by simp
next
  case (Cons s ss)
  show ?case
  proof (cases "cs_archive st")
    case None
    with Cons.prems show ?thesis by simp
  next
    case (Some a)
    show ?thesis
    proof (cases "cs_files st (sg_path s)")
      case None
      with Cons.prems Some show ?thesis by simp
    next
      case rows: (Some rows)
      let ?st' = "migrate_one a s rows st"
      have m: "store_ok ?st'" "contents ?st' = contents st"
        "\<forall>t \<in> set (cs_catalog st). sg_id t \<noteq> sg_id s \<longrightarrow> t \<in> set (cs_catalog ?st')"
        using migrate_one_refines [OF Cons.prems(1) Some, of s rows] Cons.prems rows by auto
      have "t \<in> set (cs_catalog ?st')" if "t \<in> set ss" for t
      proof -
        have "sg_id t \<in> sg_id ` set ss" using that by (rule imageI)
        then have "sg_id t \<noteq> sg_id s" using Cons.prems(3) by auto
        moreover have "t \<in> set (cs_catalog st)" using that Cons.prems(2) by auto
        ultimately show ?thesis using m(3) by blast
      qed
      then have ih: "store_ok (fst (migrate_segments put_ok ss (n + 1) ?st')) \<and>
          contents (fst (migrate_segments put_ok ss (n + 1) ?st')) = contents st"
        using Cons.IH [OF m(1), of "n + 1"] Cons.prems(3,4) m(2) by auto
      have "migrate_segments put_ok (s # ss) n st =
          (if put_ok (archive_key a (sg_id s)) then migrate_segments put_ok ss (n + 1) ?st'
           else (st, Inl (Backend ''object store: refused'')))"
        using Some rows by (simp add: Let_def migrate_one_def)
      with ih Cons.prems(1) show ?thesis by (cases "put_ok (archive_key a (sg_id s))") simp_all
    qed
  qed
qed

lemma migrate_warm_refines:
  assumes ok: "store_ok st"
  shows "store_ok (fst (migrate_warm put_ok now age st)) \<and> contents (fst (migrate_warm put_ok now age st)) = contents st"
proof (cases "cs_archive st")
  case None
  with ok show ?thesis by (simp add: migrate_warm_def)
next
  case (Some a)
  let ?ss = "aged now age (cs_catalog st)"
  have "distinct (map sg_id ?ss)" using ok by (simp add: store_ok_def aged_def distinct_map_filter)
  moreover have "set ?ss \<subseteq> set (cs_catalog st)" "\<forall>s \<in> set ?ss. sg_tier s = Warm" by (auto simp: aged_def)
  ultimately show ?thesis using migrate_segments_refines [OF ok, of ?ss] Some by (simp add: migrate_warm_def)
qed

section \<open>Retention\<close>

lemma fold_remove_files: "fold (\<lambda>s f. f(sg_path s := None)) ss fs p = (if p \<in> sg_path ` set ss then None else fs p)"
  by (induction ss arbitrary: fs) auto

lemma fold_archive_delete:
  "ca_objects (fold (\<lambda>s. archive_delete (sg_path s)) ss a) p = (if p \<in> sg_path ` set ss then None else ca_objects a p) \<and>
   ca_prefix (fold (\<lambda>s. archive_delete (sg_path s)) ss a) = ca_prefix a"
  by (induction ss arbitrary: a) (auto simp: archive_delete_def)

lemma enforce_retention_refines:
  assumes ok: "store_ok st"
  shows "store_ok (fst (enforce_retention now age st)) \<and>
    cs_catalog (fst (enforce_retention now age st)) = filter (\<lambda>s. \<not> is_expired now age s) (cs_catalog st) \<and>
    (\<forall>s \<in> set (cs_catalog (fst (enforce_retention now age st))). rows_of (fst (enforce_retention now age st)) s = rows_of st s) \<and>
    snd (enforce_retention now age st) = length (filter (is_expired now age) (cs_catalog st))"
proof -
  let ?c = "cs_catalog st" and ?st' = "fst (enforce_retention now age st)"
  let ?gone = "filter (is_expired now age) ?c"
  have dist: "distinct (map sg_id ?c)" using ok by (simp add: store_ok_def)
  then have inj: "inj_on sg_id (set ?c)" by (simp add: distinct_map)
  have mem: "sg_id s \<in> sg_id ` set ?gone \<longleftrightarrow> is_expired now age s" if "s \<in> set ?c" for s
    using that inj by (auto dest: inj_onD)
  have gone: "filter (\<lambda>s. sg_id s \<in> set (map sg_id ?gone)) ?c = ?gone"
    and keep: "filter (\<lambda>s. sg_id s \<notin> set (map sg_id ?gone)) ?c = filter (\<lambda>s. \<not> is_expired now age s) ?c"
    using mem by (auto intro!: filter_cong)
  have st': "?st' = st\<lparr>cs_archive := map_option (fold (\<lambda>s. archive_delete (sg_path s)) (filter (\<lambda>s. sg_tier s = Cold) ?gone)) (cs_archive st),
      cs_catalog := filter (\<lambda>s. \<not> is_expired now age s) ?c, cs_files := fold (\<lambda>s f. f(sg_path s := None)) ?gone (cs_files st)\<rparr>"
    and n: "snd (enforce_retention now age st) = length ?gone"
    using gone keep by (simp_all add: enforce_retention_def catalog_remove_def expired_def Let_def)
  have path: "sg_path g \<noteq> sg_path s" if "g \<in> set ?gone" "s \<in> set ?c" "\<not> is_expired now age s" for g s
  proof
    assume eq: "sg_path g = sg_path s"
    have "seg_ok st g" "seg_ok st s" using ok that by (auto simp: store_ok_def)
    then have "sg_id g = sg_id s" using eq by (rule seg_path_inj)
    with inj that show False by (auto dest: inj_onD)
  qed
  have frame: "seg_ok ?st' s \<and> rows_of ?st' s = rows_of st s" if "s \<in> set ?c" "\<not> is_expired now age s" for s
  proof (rule seg_ok_frame)
    show s: "seg_ok st s" using ok that by (simp add: store_ok_def)
    show "cs_dir ?st' = cs_dir st" by (simp add: st')
    have np: "sg_path s \<notin> sg_path ` set ?gone" using path [OF _ that] by force
    show "cs_files ?st' (local_path (cs_dir st) (sg_id s)) = cs_files st (local_path (cs_dir st) (sg_id s))" if "\<not> is_cold s"
      using np s that by (simp add: st' fold_remove_files seg_ok_def)
    show "\<exists>a'. cs_archive ?st' = Some a' \<and> ca_prefix a' = ca_prefix a \<and>
        ca_objects a' (archive_key a (sg_id s)) = ca_objects a (archive_key a (sg_id s))"
      if "is_cold s" "cs_archive st = Some a" for a
      using np s that by (auto simp: st' fold_archive_delete seg_ok_def)
  qed
  then have "store_ok ?st'" using dist by (auto simp: store_ok_def st' distinct_map_filter)
  with frame n show ?thesis by (simp add: st')
qed

lemma delete_objects_ok:
  "delete_objects refuse ss a = (a', Inr u) \<Longrightarrow> a' = fold (\<lambda>s. archive_delete (sg_path s)) ss a"
  by (induction ss arbitrary: a) (auto split: option.splits)

text \<open>A run of the retention that reports no error did what \<open>enforce_retention\<close> says.\<close>

lemma retention_run_ok: "retention_run refuse save now age st = (st', Inr n) \<Longrightarrow> enforce_retention now age st = (st', n)"
  by (cases "cs_archive st"; cases save)
    (auto simp: retention_run_def enforce_retention_def Let_def dest!: delete_objects_ok
      split: prod.splits sum.splits nat.splits)

lemma retention_run_no_fault: "\<exists>st' n. retention_run (\<lambda>_. None) None now age st = (st', Inr n)"
proof -
  have ok: "snd (delete_objects (\<lambda>_. None) ss a) = Inr ()" for ss a by (induction ss arbitrary: a) auto
  show ?thesis
  proof (cases "cs_archive st")
    case (Some a)
    let ?ss = "filter (\<lambda>s. sg_tier s = Cold) (expired now age (cs_catalog st))"
    obtain a' where "delete_objects (\<lambda>_. None) ?ss a = (a', Inr ())" using ok [of ?ss a] by (metis prod.collapse)
    with Some show ?thesis by (simp add: retention_run_def Let_def split: prod.split nat.split)
  qed (simp add: retention_run_def Let_def split: prod.split nat.split)
qed

lemma delete_objects_gone:
  "ca_objects a p = None \<Longrightarrow> ca_objects (fst (delete_objects refuse ss a)) p = None"
  by (induction ss arbitrary: a) (simp_all add: archive_delete_def split: option.split)

lemma delete_objects_fails:
  "list_ex (\<lambda>s. refuse (sg_path s) \<noteq> None) ss \<Longrightarrow> \<exists>e. snd (delete_objects refuse ss a) = Inl e"
  by (induction ss arbitrary: a) (auto split: option.splits)

section \<open>Reading a range\<close>

lemma row_event_ts [simp]: "ev_ts (row_to_event J r) = rw_ts r"
  by (simp add: row_to_event_def)

lemma pruned_empty:
  assumes "meta_of_rows s rows" and "\<not> (sg_min_ts s \<le> b \<and> a \<le> sg_max_ts s)"
  shows "filter (\<lambda>e. a \<le> ev_ts e \<and> ev_ts e \<le> b) (batch_into_events J rows) = []"
proof -
  have "sg_min_ts s \<le> rw_ts r \<and> rw_ts r \<le> sg_max_ts s" if "r \<in> set rows" for r
    using assms(1) that by (auto simp: meta_of_rows_def)
  with assms(2) show ?thesis by (force simp: batch_into_events_def filter_empty_conv)
qed

lemma filter_concat_pruned:
  assumes "\<And>s. s \<in> set c \<Longrightarrow> \<not> P s \<Longrightarrow> filter Q (f s) = []"
  shows "filter Q (concat (map f (filter P c))) = filter Q (concat (map f c))"
  using assms by (induction c) auto

lemma read_range_contents:
  assumes "store_ok st"
  shows "read_range J a b st =
    Inr (filter (\<lambda>e. a \<le> ev_ts e \<and> ev_ts e \<le> b) (concat (map (\<lambda>(_, rows). batch_into_events J rows) (contents st))))"
proof -
  let ?c = "cs_catalog st" and ?P = "\<lambda>s. sg_min_ts s \<le> b \<and> a \<le> sg_max_ts s"
  let ?f = "\<lambda>s. batch_into_events J (rows_of st s)"
  have ok: "segment_rows st s = Inr (rows_of st s)" "meta_of_rows s (rows_of st s)" if "s \<in> set ?c" for s
    using assms that segment_rows_ok by (auto simp: store_ok_def)
  have "collect_results (segment_rows st) c = Inr (map (rows_of st) c)" if "set c \<subseteq> set ?c" for c
    using that ok(1) by (induction c) auto
  then have "collect_results (segment_rows st) (filter ?P ?c) = Inr (map (rows_of st) (filter ?P ?c))" by auto
  moreover have "filter (\<lambda>e. a \<le> ev_ts e \<and> ev_ts e \<le> b) (concat (map ?f (filter ?P ?c)))
      = filter (\<lambda>e. a \<le> ev_ts e \<and> ev_ts e \<le> b) (concat (map ?f ?c))"
    using pruned_empty ok(2) by (intro filter_concat_pruned) blast
  ultimately show ?thesis by (simp add: read_range_def overlapping_def contents_def comp_def)
qed

section \<open>The store refines a list of batches\<close>

definition columnar_open :: "string \<Rightarrow> cold_archive option \<Rightarrow> columnar_store" where
  "columnar_open dir archive = \<lparr>cs_dir = dir, cs_files = Map.empty, cs_catalog = [], cs_archive = archive\<rparr>"

text \<open>
  The operations of the maintenance loop beside what they mean for the list of batches: writing adds a
  batch, moving segments, also if it fails half-way, changes nothing, and retention drops the batches
  whose newest row is too old.
\<close>

inductive store_step ::
  "json_text \<Rightarrow> columnar_store \<times> (string \<times> event_row list) list \<Rightarrow> columnar_store \<times> (string \<times> event_row list) list \<Rightarrow> bool" for J where
  written: "evs \<noteq> [] \<Longrightarrow> ulid_like now \<notin> fst ` set log \<Longrightarrow>
    store_step J (st, log) (fst (write_segment J now evs st), log @ [(ulid_like now, events_to_batch J evs)])"
| migrate: "store_step J (st, log) (fst (migrate_warm put_ok now age st), log)"
| retention: "store_step J (st, log) (fst (enforce_retention now age st),
    filter (\<lambda>(_, rows). wrap64 (now - Max (set (map rw_ts rows))) \<le> age) log)"

lemma contents_ids: "fst ` set (contents st) = sg_id ` set (cs_catalog st)"
  by (force simp: contents_def)

lemma retention_contents:
  assumes "store_ok st"
  shows "contents (fst (enforce_retention now age st)) =
    filter (\<lambda>(_, rows). wrap64 (now - Max (set (map rw_ts rows))) \<le> age) (contents st)"
proof -
  let ?st' = "fst (enforce_retention now age st)"
  have r: "cs_catalog ?st' = filter (\<lambda>s. \<not> is_expired now age s) (cs_catalog st)"
    "\<forall>s \<in> set (cs_catalog ?st'). rows_of ?st' s = rows_of st s"
    using enforce_retention_refines [OF assms, of now age] by auto
  have "is_expired now age s \<longleftrightarrow> \<not> wrap64 (now - Max (set (map rw_ts (rows_of st s)))) \<le> age" if "s \<in> set (cs_catalog st)" for s
    using assms that segment_rows_ok [of st s] by (auto simp: store_ok_def is_expired_def meta_of_rows_def)
  then have "filter (\<lambda>s. \<not> is_expired now age s) (cs_catalog st) =
      filter (\<lambda>s. wrap64 (now - Max (set (map rw_ts (rows_of st s)))) \<le> age) (cs_catalog st)"
    by (intro filter_cong) auto
  with r show ?thesis by (simp add: contents_def filter_map comp_def)
qed

lemma store_step_refines:
  "store_step J x y \<Longrightarrow> store_ok (fst x) \<and> contents (fst x) = snd x \<Longrightarrow> store_ok (fst y) \<and> contents (fst y) = snd y"
proof (induction rule: store_step.induct)
  case (written evs now log st)
  then have "ulid_like now \<notin> sg_id ` set (cs_catalog st)" using contents_ids [of st] by simp
  with written write_segment_refines [of st now evs J] show ?case by simp
next
  case (migrate st log put_ok now age)
  then show ?case using migrate_warm_refines [of st put_ok now age] by simp
next
  case (retention st log now age)
  then show ?case using enforce_retention_refines [of st now age] retention_contents [of st now age] by simp
qed

lemma store_steps_refine:
  "(store_step J)\<^sup>*\<^sup>* x y \<Longrightarrow> store_ok (fst x) \<and> contents (fst x) = snd x \<Longrightarrow> store_ok (fst y) \<and> contents (fst y) = snd y"
proof (induction rule: rtranclp_induct)
  case base
  then show ?case .
next
  case (step y z)
  show ?case using store_step_refines [OF step.hyps(2) step.IH [OF step.prems]] .
qed

lemma total_rows_contents:
  assumes "store_ok st"
  shows "store_total_rows st = length (concat (map snd (contents st)))"
proof -
  have "sg_rows s = length (rows_of st s)" if "s \<in> set (cs_catalog st)" for s
    using assms that segment_rows_ok [of st s] by (simp add: store_ok_def meta_of_rows_def)
  then have "map sg_rows (cs_catalog st) = map (\<lambda>s. length (rows_of st s)) (cs_catalog st)" by simp
  then have "sum_list (map sg_rows (cs_catalog st)) = sum_list (map (\<lambda>s. length (rows_of st s)) (cs_catalog st))" by (rule arg_cong)
  then show ?thesis by (simp add: store_total_rows_def catalog_total_rows_def contents_def length_concat comp_def)
qed

text \<open>
  C6: The tiered store keeps every batch until it expires, and reading does not depend on where it
  lies: after any sequence of writes with distinct segment ids, migrations to the archive, which may be
  refused half-way, and retention runs, a range query succeeds and returns, in the order they were
  written, exactly the events in the range of the batches that have not expired, although it only
  reads the segments the catalog does not prune; the row count is theirs too.
\<close>

theorem tiered_store_faithful:
  assumes "(store_step J)\<^sup>*\<^sup>* (columnar_open dir archive, []) (st, log)"
  shows "read_range J a b st =
      Inr (filter (\<lambda>e. a \<le> ev_ts e \<and> ev_ts e \<le> b) (concat (map (\<lambda>(_, rows). batch_into_events J rows) log))) \<and>
    store_total_rows st = length (concat (map snd log)) \<and> segment_count st = length log"
proof -
  have "store_ok (columnar_open dir archive)" "contents (columnar_open dir archive) = []"
    by (simp_all add: store_ok_def contents_def columnar_open_def)
  with store_steps_refine [OF assms] have "store_ok st \<and> contents st = log" by simp
  then show ?thesis using read_range_contents [of st J a b] total_rows_contents [of st]
    by (auto simp: segment_count_def contents_def)
qed

lemma collect_fails: "s \<in> set ss \<Longrightarrow> f s = Inl e \<Longrightarrow> \<exists>e'. collect_results f ss = Inl e'"
proof (induction ss)
  case (Cons a ss)
  then show ?case by (cases "f a") auto
qed simp

text \<open>
  C37: Retention deletes the archived objects of the expired segments before it takes any of them off
  the catalog. If the archive refuses one after another was deleted, the run ends with an error, the
  deleted segment is still listed, and every range query that touches it fails.
\<close>

theorem retention_strands_segments:
  assumes "cs_archive st = Some a"
    and "filter (\<lambda>s. sg_tier s = Cold) (expired now age (cs_catalog st)) = s # ss"
    and "refuse (sg_path s) = None" and "list_ex (\<lambda>t. refuse (sg_path t) \<noteq> None) ss"
    and "lo \<le> sg_max_ts s" "sg_min_ts s \<le> hi"
  shows "\<exists>st' e e'. retention_run refuse save now age st = (st', Inl e) \<and> s \<in> set (cs_catalog st') \<and>
    read_range J lo hi st' = Inl e'"
proof -
  obtain a' r where d: "delete_objects refuse ss (archive_delete (sg_path s) a) = (a', r)" by fastforce
  from delete_objects_fails [OF assms(4), of "archive_delete (sg_path s) a"] d obtain e where e: "r = Inl e" by auto
  let ?st' = "st\<lparr>cs_archive := Some a'\<rparr>"
  have run: "retention_run refuse save now age st = (?st', Inl e)"
    using d e assms(1,3) by (simp add: retention_run_def Let_def assms(2))
  have s: "s \<in> set (cs_catalog st)" "sg_tier s = Cold"
    using arg_cong [OF assms(2), of set] by (auto simp: expired_def)
  have "ca_objects a' (sg_path s) = None"
    using delete_objects_gone [of "archive_delete (sg_path s) a" "sg_path s" refuse ss] d by (simp add: archive_delete_def)
  then have rows: "segment_rows ?st' s = Inl (Backend ''object store: not found'')"
    using s(2) by (simp add: segment_rows_def archive_get_def)
  have "s \<in> set (overlapping lo hi (cs_catalog ?st'))" using s(1) assms(5,6) by (simp add: overlapping_def)
  from collect_fails [OF this, of "segment_rows ?st'", OF rows] obtain e' where
    "collect_results (segment_rows ?st') (overlapping lo hi (cs_catalog ?st')) = Inl e'" ..
  then have "read_range J lo hi ?st' = Inl e'" by (simp add: read_range_def)
  with run s(1) show ?thesis by auto
qed

definition demo_json :: json_text where
  "demo_json = \<lparr>jt_show = (\<lambda>_. ''{}''), jt_parse = (\<lambda>_. Some (JObject []))\<rparr>"

theorem tiered_store_faithful_witness:
  "let st = fst (migrate_warm (\<lambda>_. True) 100 10
         (fst (write_segment demo_json 50 [new_event ''e'' 50 ''t''] (columnar_open ''d'' (Some \<lparr>ca_prefix = ''s'', ca_objects = Map.empty\<rparr>)))))
   in read_range demo_json 0 60 st = Inr [new_event ''e'' 50 ''t''] \<and> segment_count st = 1"
proof -
  let ?open = "columnar_open ''d'' (Some \<lparr>ca_prefix = ''s'', ca_objects = Map.empty\<rparr>)" and ?e = "new_event ''e'' 50 ''t''"
  let ?st1 = "fst (write_segment demo_json 50 [?e] ?open)" and ?log = "[(ulid_like 50, events_to_batch demo_json [?e])]"
  have "store_step demo_json (?open, []) (?st1, ?log)" using store_step.written [of "[?e]" 50 "[]"] by simp
  moreover have "store_step demo_json (?st1, ?log) (fst (migrate_warm (\<lambda>_. True) 100 10 ?st1), ?log)" by (rule store_step.migrate)
  ultimately have "(store_step demo_json)\<^sup>*\<^sup>* (?open, []) (fst (migrate_warm (\<lambda>_. True) 100 10 ?st1), ?log)"
    by (meson converse_rtranclp_into_rtranclp r_into_rtranclp)
  from tiered_store_faithful [OF this, of 0 60] show ?thesis
    by (simp add: Let_def events_to_batch_def batch_into_events_def event_to_row_def row_to_event_def new_event_def demo_json_def
        default_class_def from_uid_def severity_from_id_def row_entity_def)
qed

definition demo_segment :: "string \<Rightarrow> segment_meta" where
  "demo_segment i = \<lparr>sg_id = i, sg_path = i, sg_tier = Cold, sg_min_ts = 0, sg_max_ts = 5, sg_rows = 1, sg_created_ts = 0\<rparr>"

definition demo_cold :: columnar_store where
  "demo_cold = \<lparr>cs_dir = ''d'', cs_files = Map.empty, cs_catalog = [demo_segment ''a'', demo_segment ''b''],
     cs_archive = Some \<lparr>ca_prefix = ''s'', ca_objects = [''a'' \<mapsto> [], ''b'' \<mapsto> []]\<rparr>\<rparr>"

theorem retention_strands_segments_witness:
  "\<exists>st' e e'. retention_run (\<lambda>p. if p = ''b'' then Some (Backend ''busy'') else None) None 100 10 demo_cold = (st', Inl e) \<and>
     read_range demo_json 0 9 st' = Inl e'"
proof -
  let ?refuse = "\<lambda>p. if p = ''b'' then Some (Backend ''busy'') else None"
  have arch: "cs_archive demo_cold = Some \<lparr>ca_prefix = ''s'', ca_objects = [''a'' \<mapsto> [], ''b'' \<mapsto> []]\<rparr>"
    by (simp add: demo_cold_def)
  have gone: "filter (\<lambda>s. sg_tier s = Cold) (expired 100 10 (cs_catalog demo_cold)) = demo_segment ''a'' # [demo_segment ''b'']"
    by (simp add: demo_cold_def demo_segment_def expired_def is_expired_def wrap64_def)
  have s: "?refuse (sg_path (demo_segment ''a'')) = None" "list_ex (\<lambda>t. ?refuse (sg_path t) \<noteq> None) [demo_segment ''b'']"
    "0 \<le> sg_max_ts (demo_segment ''a'')" "sg_min_ts (demo_segment ''a'') \<le> 9"
    by (simp_all add: demo_segment_def)
  from retention_strands_segments [OF arch gone s] show ?thesis by blast
qed

section \<open>Columns\<close>

text \<open>What the columns keep of an event.\<close>

definition columnar_view :: "event \<Rightarrow> event" where
  "columnar_view ev =
     ev\<lparr>ev_host := map_option (\<lambda>x. entity ''host'' (er_id x)) (ev_host ev),
        ev_actor := map_option (\<lambda>x. entity (er_kind x) (er_id x)) (ev_actor ev),
        ev_target := map_option (\<lambda>x. entity (er_kind x) (er_id x)) (ev_target ev),
        ev_template_id := None, ev_labels := [], ev_raw := []\<rparr>"

lemma severity_column: "severity_from_id (of_int (max 0 (min (uint (severity_id v)) 255))) = v"
  by (cases v) (simp_all add: severity_from_id_def)

text \<open>
  Writing events to columns and reading them back keeps, if the JSON library reads what it writes,
  id, times, class, severity, tenant, message and fields; entities keep kind and id. Besides raw
  frame, labels and template id the names of entities are lost, and every host comes back with the
  kind \<open>host\<close>.
\<close>

theorem columns_roundtrip:
  assumes "list_all (\<lambda>ev. jt_parse J (jt_show J (JObject (ev_fields ev))) = Some (JObject (ev_fields ev))) evs"
    and "list_all (\<lambda>ev. canonical_class (ev_class ev)) evs"
  shows "batch_into_events J (events_to_batch J evs) = map columnar_view evs"
proof -
  have "row_to_event J (event_to_row J ev) = columnar_view ev"
    if "canonical_class (ev_class ev)" "jt_parse J (jt_show J (JObject (ev_fields ev))) = Some (JObject (ev_fields ev))" for ev
    using from_uid_uid [OF that(1)] severity_column [of "ev_severity ev"] that(2)
    by (cases ev; cases "ev_host ev"; cases "ev_actor ev"; cases "ev_target ev")
      (simp_all add: row_to_event_def event_to_row_def columnar_view_def row_entity_def)
  with assms show ?thesis by (simp add: batch_into_events_def events_to_batch_def list_all_iff)
qed

theorem columns_roundtrip_witness:
  "batch_into_events demo_json (events_to_batch demo_json [new_event ''e'' 50 ''t''\<lparr>ev_labels := [''x'']\<rparr>]) = [new_event ''e'' 50 ''t'']"
  using columns_roundtrip [of demo_json "[new_event ''e'' 50 ''t''\<lparr>ev_labels := [''x'']\<rparr>]"]
  by (simp add: demo_json_def new_event_def default_class_def canonical_class_def known_uids_def columnar_view_def)

text \<open>
  Two segments written at the same clock reading share an id and a file: the second overwrites the
  rows of the first, and the catalog lists the file twice, so that a range query returns the rows of
  the second twice and those of the first never.
\<close>

theorem same_instant_overwrites:
  assumes "evs1 \<noteq> []" "evs2 \<noteq> []"
  shows "let st = fst (write_segment J now evs2 (fst (write_segment J now evs1 (columnar_open dir archive))))
    in map (rows_of st) (cs_catalog st) = [events_to_batch J evs2, events_to_batch J evs2] \<and>
       map sg_id (cs_catalog st) = [ulid_like now, ulid_like now]"
  using assms
  by (simp add: write_segment_def columnar_open_def Let_def catalog_add_def segment_meta_new_def rows_of_def segment_rows_def read_local_def)

theorem same_instant_overwrites_witness:
  "let st = fst (write_segment demo_json 50 [new_event ''b'' 50 ''t''] (fst (write_segment demo_json 50 [new_event ''a'' 50 ''t''] (columnar_open ''d'' None))))
   in map (map rw_id \<circ> rows_of st) (cs_catalog st) = [[''b''], [''b'']]"
proof -
  let ?st = "fst (write_segment demo_json 50 [new_event ''b'' 50 ''t''] (fst (write_segment demo_json 50 [new_event ''a'' 50 ''t''] (columnar_open ''d'' None))))"
  have "map (rows_of ?st) (cs_catalog ?st) = [events_to_batch demo_json [new_event ''b'' 50 ''t''], events_to_batch demo_json [new_event ''b'' 50 ''t'']]"
    using same_instant_overwrites [of "[new_event ''a'' 50 ''t'']" "[new_event ''b'' 50 ''t'']" demo_json 50 "''d''" None] by (simp add: Let_def)
  then have "map (map rw_id) (map (rows_of ?st) (cs_catalog ?st)) = [[''b''], [''b'']]"
    by (simp add: events_to_batch_def event_to_row_def new_event_def)
  then show ?thesis by (simp add: Let_def)
qed

end
