(* ===== verification/Normalize.thy ===== *)
theory Normalize
  imports Core_Event
begin

text \<open>
  The normalizer of \<open>crates/sigil-normalize/src/lib.rs\<close>: message, host, severity, class and entities
  of an event from the fields of a decoded record. The event id and the clock are arguments, the
  display of JSON values a parameter.
\<close>

section \<open>Operations\<close>

fun first_str :: "json_display \<Rightarrow> field_map \<Rightarrow> string list \<Rightarrow> string option" where
  "first_str sj f [] = None"
| "first_str sj f (k # ks) =
     (case map_of f k of
        Some v \<Rightarrow> if value_to_string sj v \<noteq> [] then Some (value_to_string sj v) else first_str sj f ks
      | None \<Rightarrow> first_str sj f ks)"

definition has_any :: "field_map \<Rightarrow> string list \<Rightarrow> bool" where
  "has_any f ks \<longleftrightarrow> list_ex (\<lambda>k. map_of f k \<noteq> None) ks"

definition u64_limit :: nat where
  "u64_limit = 2 ^ 64 - 1"

fun value_as_u64 :: "json \<Rightarrow> nat option" where
  "value_as_u64 (JNumber (PosInt n)) = Some n"
| "value_as_u64 (JString s) = parse_unsigned u64_limit s"
| "value_as_u64 _ = None"

definition extract_user_from_message :: "string \<Rightarrow> string option" where
  "extract_user_from_message msg =
     (case find_str ''for '' (to_lowercase msg) of
        None \<Rightarrow> None
      | Some i \<Rightarrow>
          let rest = drop (i + 4) msg;
              rest' = (case strip_prefix ''invalid user '' rest of Some r \<Rightarrow> r | None \<Rightarrow> rest)
          in (case split_whitespace rest' of [] \<Rightarrow> None | w # _ \<Rightarrow> Some w))"

definition severity_from :: "field_map \<Rightarrow> string \<Rightarrow> severity" where
  "severity_from f message =
     (case Option.bind (map_of f ''syslog_severity'') value_as_u64 of
        Some sev \<Rightarrow>
          if sev \<le> 2 then Critical else if sev = 3 then High else if sev = 4 then Medium else if sev = 5 then Low
          else Informational
      | None \<Rightarrow>
          let m = to_lowercase message
          in if contains m ''failed'' \<or> contains m ''error'' \<or> contains m ''denied'' then Medium else Informational)"

definition looks_auth :: "field_map \<Rightarrow> string \<Rightarrow> bool" where
  "looks_auth f message \<longleftrightarrow>
     has_any f [''user'', ''username'', ''user.name'', ''auth'', ''logon_type''] \<or>
     list_ex (contains (to_lowercase message)) [''authentication'', ''failed password'', ''login'', ''logon'', ''sshd'']"

definition http_keys :: "string list" where
  "http_keys = [''http_method'', ''method'', ''url'', ''uri'', ''http.request.method'', ''status_code'']"

definition network_keys :: "string list" where
  "network_keys = [''src_ip'', ''dst_ip'', ''source.ip'', ''destination.ip'', ''dest_ip'', ''dst_port'']"

definition process_keys :: "string list" where
  "process_keys = [''process'', ''process.name'', ''cmd'', ''command_line'', ''exe'', ''image'']"

definition cloud_keys :: "string list" where
  "cloud_keys = [''eventName'', ''methodName'', ''protoPayload'', ''eventSource'']"

text \<open>An entity that is only set if a value was found.\<close>

definition set_actor :: "string \<Rightarrow> string option \<Rightarrow> event \<Rightarrow> event" where
  "set_actor kind v ev = (case v of Some x \<Rightarrow> ev\<lparr>ev_actor := Some (entity kind x)\<rparr> | None \<Rightarrow> ev)"

definition set_target :: "string \<Rightarrow> string option \<Rightarrow> event \<Rightarrow> event" where
  "set_target kind v ev = (case v of Some x \<Rightarrow> ev\<lparr>ev_target := Some (entity kind x)\<rparr> | None \<Rightarrow> ev)"

definition classify :: "json_display \<Rightarrow> field_map \<Rightarrow> string \<Rightarrow> event \<Rightarrow> event \<times> ocsf_class" where
  "classify sj f message ev =
     (let str = first_str sj f
      in if looks_auth f message then
           (let user = (case str [''user'', ''username'', ''user.name'', ''user_name''] of
                          Some u \<Rightarrow> Some u
                        | None \<Rightarrow> extract_user_from_message message)
            in (set_target ''ip'' (str [''src_ip'', ''source.ip'', ''src'', ''client_ip'']) (set_actor ''user'' user ev),
                Authentication))
         else if has_any f http_keys then
           (set_target ''url'' (str [''url'', ''uri'', ''url.full'']) ev, HttpActivity)
         else if has_any f network_keys then
           (set_target ''ip'' (str [''dst_ip'', ''destination.ip'', ''dest_ip'', ''dst''])
              (set_actor ''ip'' (str [''src_ip'', ''source.ip'', ''src'']) ev), NetworkActivity)
         else if has_any f process_keys then
           (set_actor ''process'' (str [''process'', ''process.name'', ''exe'', ''image'']) ev, ProcessActivity)
         else if has_any f cloud_keys then (ev, ApiActivity)
         else case str [''app'', ''appname'', ''tag''] of
                Some app \<Rightarrow> if app \<noteq> [] then (set_actor ''process'' (Some app) ev, ProcessActivity) else (ev, default_class)
              | None \<Rightarrow> (ev, default_class))"

definition normalize :: "json_display \<Rightarrow> string \<Rightarrow> timestamp \<Rightarrow> string \<Rightarrow> raw_record \<Rightarrow> event" where
  "normalize sj ulid now tenant r =
     (let f = rec_fields r;
          message = (case first_str sj f [''message'', ''msg'', ''event.original''] of Some m \<Rightarrow> m | None \<Rightarrow> []);
          ev = (new_event ulid now tenant)\<lparr>ev_raw := rec_raw r, ev_message := message\<rparr>;
          ev1 = (case first_str sj f [''host'', ''hostname'', ''host.name'', ''host_name''] of
                   Some h \<Rightarrow> if h \<noteq> [] then ev\<lparr>ev_host := Some (entity ''host'' h)\<rparr> else ev
                 | None \<Rightarrow> ev);
          ev2 = ev1\<lparr>ev_severity := severity_from f message\<rparr>;
          (ev3, c) = classify sj f message ev2
      in ev3\<lparr>ev_class := c, ev_fields := fold (\<lambda>(k, v). btree_insert k v) f (ev_fields ev3)\<rparr>)"

section \<open>What a normalized event carries\<close>

lemma set_entity_other [simp]:
  "ev_fields (set_actor k v ev) = ev_fields ev" "ev_fields (set_target k v ev) = ev_fields ev"
  "ev_message (set_actor k v ev) = ev_message ev" "ev_message (set_target k v ev) = ev_message ev"
  "ev_severity (set_actor k v ev) = ev_severity ev" "ev_severity (set_target k v ev) = ev_severity ev"
  "ev_host (set_actor k v ev) = ev_host ev" "ev_host (set_target k v ev) = ev_host ev"
  "ev_raw (set_actor k v ev) = ev_raw ev" "ev_raw (set_target k v ev) = ev_raw ev"
  "ev_id (set_actor k v ev) = ev_id ev" "ev_id (set_target k v ev) = ev_id ev"
  "ev_tenant (set_actor k v ev) = ev_tenant ev" "ev_tenant (set_target k v ev) = ev_tenant ev"
  "ev_ts (set_actor k v ev) = ev_ts ev" "ev_ts (set_target k v ev) = ev_ts ev"
  by (simp_all add: set_actor_def set_target_def split: option.splits)

lemma classify_frame:
  "ev_fields (fst (classify sj f m ev)) = ev_fields ev" "ev_message (fst (classify sj f m ev)) = ev_message ev"
  "ev_severity (fst (classify sj f m ev)) = ev_severity ev" "ev_host (fst (classify sj f m ev)) = ev_host ev"
  "ev_raw (fst (classify sj f m ev)) = ev_raw ev" "ev_id (fst (classify sj f m ev)) = ev_id ev"
  "ev_tenant (fst (classify sj f m ev)) = ev_tenant ev" "ev_ts (fst (classify sj f m ev)) = ev_ts ev"
  by (simp_all add: classify_def Let_def split: option.splits)

lemma fold_insert_sorted:
  fixes f :: field_map
  assumes "btree_wf f"
  shows "fold (\<lambda>(k, v). btree_insert k v) f [] = f"
proof -
  have last: "btree_insert k v m = m @ [(k, v)]" if "\<forall>x \<in> fst ` set m. x < k" for k :: string and v :: json and m
    using that by (induction m) (auto simp: not_less_iff_gr_or_eq dest: order.strict_trans)
  have "fold (\<lambda>(k, v). btree_insert k v) g m = m @ g"
    if "sorted_wrt (<) (map fst (m @ g))" for g m :: field_map
    using that
  proof (induction g arbitrary: m)
    case Nil
    then show ?case by simp
  next
    case (Cons p g)
    obtain k v where p: "p = (k, v)" by (cases p)
    have "btree_insert k v m = m @ [(k, v)]" using Cons.prems p by (intro last) (auto simp: sorted_wrt_append)
    moreover have "fold (\<lambda>(k, v). btree_insert k v) g (m @ [(k, v)]) = (m @ [(k, v)]) @ g"
      using Cons.prems p by (intro Cons.IH) simp
    ultimately show ?case using p by simp
  qed
  from this [of "[]" f] assms show ?thesis by (simp add: btree_wf_def)
qed

text \<open>
  Normalization carries a decoded record through: the event has the record's raw bytes and, key for
  key, all of its fields; its message is the first non-empty of the message fields; its host is the
  first non-empty host field, if there is one; it is an authentication event exactly when fields
  or text say so, which takes precedence over every other class, and then only a user can be its
  actor.
\<close>

theorem normalize_carries:
  assumes "btree_wf (rec_fields r)"
  shows "let ev = normalize sj ulid now tenant r;
             message = (case first_str sj (rec_fields r) [''message'', ''msg'', ''event.original''] of Some m \<Rightarrow> m | None \<Rightarrow> [])
         in ev_fields ev = rec_fields r \<and> ev_raw ev = rec_raw r \<and> ev_message ev = message \<and>
            map_option er_id (ev_host ev) = first_str sj (rec_fields r) [''host'', ''hostname'', ''host.name'', ''host_name''] \<and>
            ev_severity ev = severity_from (rec_fields r) message \<and>
            (ev_class ev = Authentication \<longleftrightarrow> looks_auth (rec_fields r) message) \<and>
            (ev_class ev = Authentication \<longrightarrow> pred_option (\<lambda>x. er_kind x = ''user'') (ev_actor ev))"
proof -
  let ?f = "rec_fields r"
  have ne: "first_str sj ?f ks = Some h \<Longrightarrow> h \<noteq> []" for ks h
    by (induction ks) (auto split: option.splits if_splits)
  have cls: "snd (classify sj ?f m ev) = Authentication \<longleftrightarrow> looks_auth ?f m" for m ev
    by (auto simp: classify_def Let_def default_class_def split: option.splits)
  have act: "looks_auth ?f m \<Longrightarrow> ev_actor ev = None \<Longrightarrow> pred_option (\<lambda>x. er_kind x = ''user'') (ev_actor (fst (classify sj ?f m ev)))" for m ev
    by (auto simp: classify_def Let_def set_actor_def set_target_def entity_def split: option.splits)
  show ?thesis
    using ne fold_insert_sorted [OF assms] act
    by (auto simp: normalize_def Let_def classify_frame cls new_event_def entity_def case_prod_beta split: option.splits)
qed

theorem normalize_carries_witness:
  "ev_class (normalize (\<lambda>_. []) ''e'' 5 ''t'' \<lparr>rec_fields = [(''message'', JString ''sshd: bye'')], rec_raw = ''x''\<rparr>) = Authentication"
  using normalize_carries [of "\<lparr>rec_fields = [(''message'', JString ''sshd: bye'')], rec_raw = ''x''\<rparr>" "\<lambda>_. []" "''e''" 5 "''t''"]
  by (simp add: Let_def btree_wf_def looks_auth_def has_any_def string_eval)

end
