(* ===== verification/Config_File.thy ===== *)
theory Config_File
  imports Sigma_Matcher Api_Auth
begin

text \<open>
  The declarative configuration: the structures and accessors of \<open>crates/sigil-config/src/lib.rs\<close>,
  semantic validation (\<open>validate.rs\<close>), the plan, apply and drift verbs (\<open>plan.rs\<close>) and the hiding
  and restoring of secrets in \<open>crates/sigil-api/src/config_ext.rs\<close>. A validation message is a
  constructor with the values its text interpolates. The serde codecs are parameters: \<open>yt\<close> renders
  a YAML value, \<open>cy\<close> holds the conversions of a configuration.
\<close>

section \<open>Structures\<close>

record cluster_config =
  cc_targets :: "string list"
  cc_nodes :: "string list"
  cc_shards :: "nat option"
  cc_replication :: "nat option"
  cc_object_store :: yaml
  cc_transport :: yaml

record codec_config =
  ck_kind :: string
  ck_settings :: "(string \<times> yaml) list"

record input_config =
  ic_id :: string
  ic_kind :: string
  ic_codec :: codec_config
  ic_settings :: "(string \<times> yaml) list"

record pipeline_config =
  pc_id :: string
  pc_from :: "string list"
  pc_steps :: "yaml list"
  pc_route :: "string list"

record pagerduty_output =
  po_routing_key :: string
  po_url :: "string option"

record jira_output =
  jo_url :: string
  jo_project :: string
  jo_user :: string
  jo_token :: string
  jo_issue_type :: "string option"

record misp_output =
  mo_url :: string
  mo_api_key :: string

record alert_outputs =
  ao_file :: "string option"
  ao_webhook :: "string option"
  ao_slack :: "string option"
  ao_pagerduty :: "pagerduty_output option"
  ao_jira :: "jira_output option"
  ao_misp :: "misp_output option"

record sigma_config =
  sc_enabled :: bool
  sc_rulepacks :: "string list"
  sc_rules_dir :: "string option"
  sc_outputs :: alert_outputs

record edr_config =
  ec_enabled :: bool
  ec_listen :: string
  ec_tls_cert :: "string option"
  ec_tls_key :: "string option"
  ec_tokens :: "string list"

record retention =
  re_hot :: string
  re_warm :: string
  re_cold :: string

record index_config =
  ix_retention :: retention
  ix_path :: "string option"
  ix_cold_path :: "string option"
  ix_catalog_path :: "string option"

record config =
  cf_version :: nat
  cf_cluster :: cluster_config
  cf_inputs :: "input_config list"
  cf_pipelines :: "pipeline_config list"
  cf_index :: index_config
  cf_sigma :: sigma_config
  cf_auth :: auth_config
  cf_data_dir :: "string option"
  cf_ml_sidecar :: "string option"
  cf_detectors :: yaml
  cf_edr :: edr_config
  cf_correlation :: yaml
  cf_plugins :: "yaml list"

definition unwrap_path :: "string \<Rightarrow> string option \<Rightarrow> string" where
  "unwrap_path d x = (case x of Some p \<Rightarrow> p | None \<Rightarrow> d)"

definition resolved_data_dir :: "config \<Rightarrow> string" where
  "resolved_data_dir c = unwrap_path ''./data/store'' (cf_data_dir c)"

definition resolved_path :: "index_config \<Rightarrow> string" where
  "resolved_path i = unwrap_path ''./data/index'' (ix_path i)"

definition resolved_cold_path :: "index_config \<Rightarrow> string" where
  "resolved_cold_path i = unwrap_path ''./data/cold'' (ix_cold_path i)"

definition resolved_catalog_path :: "index_config \<Rightarrow> string" where
  "resolved_catalog_path i = unwrap_path ''./data/catalog.json'' (ix_catalog_path i)"

text \<open>Defaults of the blocks a document leaves out.\<close>

definition retention_default :: retention where
  "retention_default = \<lparr>re_hot = ''7d'', re_warm = ''30d'', re_cold = ''365d''\<rparr>"

definition sigma_default :: sigma_config where
  "sigma_default = \<lparr>sc_enabled = True, sc_rulepacks = [], sc_rules_dir = None,
     sc_outputs = \<lparr>ao_file = None, ao_webhook = None, ao_slack = None, ao_pagerduty = None, ao_jira = None, ao_misp = None\<rparr>\<rparr>"

definition auth_default :: auth_config where
  "auth_default = \<lparr>ac_enabled = True, ac_secret = [], ac_ttl = 8 * 60 * 60, ac_users = []\<rparr>"

definition edr_default :: edr_config where
  "edr_default = \<lparr>ec_enabled = False, ec_listen = ''0.0.0.0:50055'', ec_tls_cert = None, ec_tls_key = None, ec_tokens = []\<rparr>"

definition empty_config :: config where
  "empty_config =
     \<lparr>cf_version = 1,
      cf_cluster = \<lparr>cc_targets = [], cc_nodes = [], cc_shards = None, cc_replication = None, cc_object_store = YNull, cc_transport = YNull\<rparr>,
      cf_inputs = [], cf_pipelines = [],
      cf_index = \<lparr>ix_retention = retention_default, ix_path = None, ix_cold_path = None, ix_catalog_path = None\<rparr>,
      cf_sigma = sigma_default, cf_auth = auth_default, cf_data_dir = None, cf_ml_sidecar = None,
      cf_detectors = YNull, cf_edr = edr_default, cf_correlation = YNull, cf_plugins = []\<rparr>"

section \<open>Accessors\<close>

fun named_entries :: "(yaml \<times> yaml) list \<Rightarrow> (string \<times> yaml) list" where
  "named_entries [] = []"
| "named_entries ((YString name, v) # m) = (name, v) # named_entries m"
| "named_entries (_ # m) = named_entries m"

fun collect_named_steps :: "yaml \<Rightarrow> (string \<times> yaml) list" where
  "collect_named_steps (YString name) = [(name, YNull)]"
| "collect_named_steps (YSequence items) = concat (map collect_named_steps items)"
| "collect_named_steps (YMapping m) = named_entries m"
| "collect_named_steps _ = []"

definition step_enrich :: "yaml \<Rightarrow> (string \<times> yaml) list" where
  "step_enrich step =
     (case step of
        YMapping m \<Rightarrow> (case map_of m (YString ''enrich'') of Some e \<Rightarrow> collect_named_steps e | None \<Rightarrow> [])
      | _ \<Rightarrow> [])"

definition enrich_steps :: "config \<Rightarrow> (string \<times> yaml) list" where
  "enrich_steps c = concat (map (\<lambda>p. concat (map step_enrich (pc_steps p))) (cf_pipelines c))"

definition detector_steps :: "config \<Rightarrow> (string \<times> yaml) list" where
  "detector_steps c = collect_named_steps (cf_detectors c)"

definition transport_kind_of :: "cluster_config \<Rightarrow> string option" where
  "transport_kind_of c =
     (case cc_transport c of
        YMapping m \<Rightarrow> (case map_of m (YString ''kind'') of Some (YString s) \<Rightarrow> Some s | _ \<Rightarrow> None)
      | _ \<Rightarrow> None)"

type_synonym yaml_display = "yaml \<Rightarrow> string option"

definition setting_str :: "yaml_display \<Rightarrow> input_config \<Rightarrow> string \<Rightarrow> string option" where
  "setting_str yt i key =
     (case map_of (ic_settings i) key of
        None \<Rightarrow> None
      | Some (YString s) \<Rightarrow> Some s
      | Some other \<Rightarrow> map_option trim (yt other))"

section \<open>Validation\<close>

datatype config_issue =
    UnsupportedVersion nat
  | EmptyInputId
  | DuplicateInput string
  | InputKindNotImplemented string string
  | CodecNotImplemented string string
  | FileNeedsPath string
  | SyslogNeedsListen string
  | DuplicatePipeline string
  | PipelineWithoutFrom string
  | UnknownInput string string
  | PipelineWithoutRoute string
  | UnknownSink string string
  | CorrelationNotWired string
  | RulepacksNotResolvable "string list"
  | RulesDirNotFound string
  | NoRulesConfigured
  | NoUsers
  | EmptySecret
  | EmptyUsername
  | DuplicateUser string
  | NoCredential string
  | UnknownRole string string
  | EdrNeedsListen
  | TlsPairIncomplete
  | EdrPlaintext
  | NoEnrollmentTokens

record report =
  rp_errors :: "config_issue list"
  rp_warnings :: "config_issue list"

definition report_ok :: "report \<Rightarrow> bool" where
  "report_ok r \<longleftrightarrow> rp_errors r = []"

definition report_empty :: report where
  "report_empty = \<lparr>rp_errors = [], rp_warnings = []\<rparr>"

definition err :: "bool \<Rightarrow> config_issue \<Rightarrow> report \<Rightarrow> report" where
  "err b i r = (if b then r\<lparr>rp_errors := rp_errors r @ [i]\<rparr> else r)"

definition warn :: "bool \<Rightarrow> config_issue \<Rightarrow> report \<Rightarrow> report" where
  "warn b i r = (if b then r\<lparr>rp_warnings := rp_warnings r @ [i]\<rparr> else r)"

definition implemented_inputs :: "string list" where
  "implemented_inputs = [''file'', ''syslog'']"

definition known_codecs :: "string list" where
  "known_codecs = [''json'', ''syslog'', ''cef'', ''leef'']"

definition known_sinks :: "string list" where
  "known_sinks = [''index'', ''sigma'', ''correlation'']"

definition validate_input :: "yaml_display \<Rightarrow> string list \<Rightarrow> input_config \<Rightarrow> report \<Rightarrow> report" where
  "validate_input yt seen i r =
     (let r1 = err (trim (ic_id i) = []) EmptyInputId r;
          r2 = err (ic_id i \<in> set seen) (DuplicateInput (ic_id i)) r1;
          r3 = warn (ic_kind i \<notin> set implemented_inputs) (InputKindNotImplemented (ic_id i) (ic_kind i)) r2;
          r4 = warn (ck_kind (ic_codec i) \<notin> set known_codecs) (CodecNotImplemented (ic_id i) (ck_kind (ic_codec i))) r3
      in if ic_kind i = ''file'' \<and> setting_str yt i ''path'' = None then err True (FileNeedsPath (ic_id i)) r4
         else if ic_kind i = ''syslog'' \<and> setting_str yt i ''listen'' = None then err True (SyslogNeedsListen (ic_id i)) r4
         else r4)"

fun validate_inputs :: "yaml_display \<Rightarrow> string list \<Rightarrow> input_config list \<Rightarrow> report \<Rightarrow> report" where
  "validate_inputs yt seen [] r = r"
| "validate_inputs yt seen (i # inputs) r = validate_inputs yt (ic_id i # seen) inputs (validate_input yt seen i r)"

definition validate_route :: "string \<Rightarrow> string \<Rightarrow> report \<Rightarrow> report" where
  "validate_route p t r =
     (if t \<notin> set known_sinks then err True (UnknownSink p t) r
      else warn (t = ''correlation'') (CorrelationNotWired p) r)"

definition validate_pipeline :: "string list \<Rightarrow> string list \<Rightarrow> pipeline_config \<Rightarrow> report \<Rightarrow> report" where
  "validate_pipeline inputs seen p r =
     (let r1 = err (pc_id p \<in> set seen) (DuplicatePipeline (pc_id p)) r;
          r2 = warn (pc_from p = []) (PipelineWithoutFrom (pc_id p)) r1;
          r3 = fold (\<lambda>src. err (src \<notin> set inputs) (UnknownInput (pc_id p) src)) (pc_from p) r2;
          r4 = warn (pc_route p = []) (PipelineWithoutRoute (pc_id p)) r3
      in fold (validate_route (pc_id p)) (pc_route p) r4)"

fun validate_pipelines :: "string list \<Rightarrow> string list \<Rightarrow> pipeline_config list \<Rightarrow> report \<Rightarrow> report" where
  "validate_pipelines inputs seen [] r = r"
| "validate_pipelines inputs seen (p # ps) r =
     validate_pipelines inputs (pc_id p # seen) ps (validate_pipeline inputs seen p r)"

definition validate_sigma :: "(string \<Rightarrow> bool) \<Rightarrow> config \<Rightarrow> report \<Rightarrow> report" where
  "validate_sigma is_dir c r =
     (let routes = list_ex (\<lambda>p. list_ex (\<lambda>t. t = ''sigma'') (pc_route p)) (cf_pipelines c);
          s = cf_sigma c
      in if sc_enabled s \<and> routes
         then let r1 = warn (sc_rulepacks s \<noteq> [] \<and> sc_rules_dir s = None) (RulepacksNotResolvable (sc_rulepacks s)) r
              in (case sc_rules_dir s of
                    Some dir \<Rightarrow> warn (\<not> is_dir dir) (RulesDirNotFound dir) r1
                  | None \<Rightarrow> warn (sc_rulepacks s = []) NoRulesConfigured r1)
         else r)"

definition validate_user :: "string list \<Rightarrow> user_config \<Rightarrow> report \<Rightarrow> report" where
  "validate_user seen u r =
     (let r1 = err (trim (cu_name u) = []) EmptyUsername r;
          r2 = err (cu_name u \<in> set seen) (DuplicateUser (cu_name u)) r1;
          r3 = err (cu_hash u = None \<and> cu_password u = None) (NoCredential (cu_name u)) r2
      in fold (\<lambda>role. warn (role \<notin> set [''viewer'', ''analyst'', ''admin'']) (UnknownRole (cu_name u) role)) (cu_roles u) r3)"

fun validate_users :: "string list \<Rightarrow> user_config list \<Rightarrow> report \<Rightarrow> report" where
  "validate_users seen [] r = r"
| "validate_users seen (u # us) r = validate_users (cu_name u # seen) us (validate_user seen u r)"

definition validate_auth :: "auth_config \<Rightarrow> report \<Rightarrow> report" where
  "validate_auth a r =
     (if ac_enabled a
      then validate_users [] (ac_users a)
             (warn (trim (ac_secret a) = []) EmptySecret (warn (ac_users a = []) NoUsers r))
      else r)"

definition validate_edr :: "edr_config \<Rightarrow> report \<Rightarrow> report" where
  "validate_edr e r =
     (if ec_enabled e
      then let r1 = err (trim (ec_listen e) = []) EdrNeedsListen r;
               r2 = (case (ec_tls_cert e, ec_tls_key e) of
                       (Some _, None) \<Rightarrow> err True TlsPairIncomplete r1
                     | (None, Some _) \<Rightarrow> err True TlsPairIncomplete r1
                     | (None, None) \<Rightarrow> warn True EdrPlaintext r1
                     | _ \<Rightarrow> r1)
           in warn (list_all (\<lambda>t. trim t = []) (ec_tokens e)) NoEnrollmentTokens r2
      else r)"

definition validate :: "yaml_display \<Rightarrow> (string \<Rightarrow> bool) \<Rightarrow> config \<Rightarrow> report" where
  "validate yt is_dir c =
     (let r1 = err (cf_version c \<noteq> 1) (UnsupportedVersion (cf_version c)) report_empty;
          r2 = validate_inputs yt [] (cf_inputs c) r1;
          r3 = validate_pipelines (map ic_id (cf_inputs c)) [] (cf_pipelines c) r2;
          r4 = validate_sigma is_dir c r3;
          r5 = validate_auth (cf_auth c) r4
      in validate_edr (cf_edr c) r5)"

section \<open>What a valid configuration is\<close>

definition input_valid :: "yaml_display \<Rightarrow> input_config \<Rightarrow> bool" where
  "input_valid yt i \<longleftrightarrow> trim (ic_id i) \<noteq> [] \<and>
     (ic_kind i = ''file'' \<longrightarrow> setting_str yt i ''path'' \<noteq> None) \<and>
     (ic_kind i = ''syslog'' \<longrightarrow> setting_str yt i ''listen'' \<noteq> None)"

definition config_valid :: "yaml_display \<Rightarrow> config \<Rightarrow> bool" where
  "config_valid yt c \<longleftrightarrow>
     cf_version c = 1 \<and>
     (\<forall>i \<in> set (cf_inputs c). input_valid yt i) \<and> distinct (map ic_id (cf_inputs c)) \<and>
     distinct (map pc_id (cf_pipelines c)) \<and>
     (\<forall>p \<in> set (cf_pipelines c). set (pc_from p) \<subseteq> ic_id ` set (cf_inputs c) \<and> set (pc_route p) \<subseteq> set known_sinks) \<and>
     (ac_enabled (cf_auth c) \<longrightarrow> distinct (map cu_name (ac_users (cf_auth c))) \<and>
        (\<forall>u \<in> set (ac_users (cf_auth c)). trim (cu_name u) \<noteq> [] \<and> (cu_hash u \<noteq> None \<or> cu_password u \<noteq> None))) \<and>
     (ec_enabled (cf_edr c) \<longrightarrow> trim (ec_listen (cf_edr c)) \<noteq> [] \<and>
        (ec_tls_cert (cf_edr c) = None \<longleftrightarrow> ec_tls_key (cf_edr c) = None))"

lemma err_ok [simp]: "rp_errors (err b i r) = [] \<longleftrightarrow> \<not> b \<and> rp_errors r = []"
  by (simp add: err_def)

lemma warn_ok [simp]: "rp_errors (warn b i r) = rp_errors r"
  by (simp add: warn_def)

lemma fold_err_ok: "rp_errors (fold (\<lambda>x. err (P x) (f x)) xs r) = [] \<longleftrightarrow> (\<forall>x \<in> set xs. \<not> P x) \<and> rp_errors r = []"
  by (induction xs arbitrary: r) auto

lemma fold_warn_ok: "rp_errors (fold (\<lambda>x. warn (P x) (f x)) xs r) = rp_errors r"
  by (induction xs arbitrary: r) auto

lemma fold_route_ok: "rp_errors (fold (validate_route p) ts r) = [] \<longleftrightarrow> set ts \<subseteq> set known_sinks \<and> rp_errors r = []"
  by (induction ts arbitrary: r) (auto simp: validate_route_def)

lemma validate_inputs_ok:
  "rp_errors (validate_inputs yt seen is r) = [] \<longleftrightarrow>
     (\<forall>i \<in> set is. input_valid yt i) \<and> distinct (map ic_id is) \<and> ic_id ` set is \<inter> set seen = {} \<and> rp_errors r = []"
  by (induction yt seen "is" r rule: validate_inputs.induct) (auto simp: validate_input_def input_valid_def Let_def)

lemma validate_pipelines_ok:
  "rp_errors (validate_pipelines inputs seen ps r) = [] \<longleftrightarrow>
     (\<forall>p \<in> set ps. set (pc_from p) \<subseteq> set inputs \<and> set (pc_route p) \<subseteq> set known_sinks) \<and>
     distinct (map pc_id ps) \<and> pc_id ` set ps \<inter> set seen = {} \<and> rp_errors r = []"
  by (induction inputs seen ps r rule: validate_pipelines.induct)
    (auto simp: validate_pipeline_def Let_def fold_err_ok fold_route_ok)

lemma validate_users_ok:
  "rp_errors (validate_users seen us r) = [] \<longleftrightarrow>
     (\<forall>u \<in> set us. trim (cu_name u) \<noteq> [] \<and> (cu_hash u \<noteq> None \<or> cu_password u \<noteq> None)) \<and>
     distinct (map cu_name us) \<and> cu_name ` set us \<inter> set seen = {} \<and> rp_errors r = []"
  by (induction seen us r rule: validate_users.induct) (auto simp: validate_user_def Let_def fold_warn_ok)

lemma validate_sigma_errors [simp]: "rp_errors (validate_sigma d c r) = rp_errors r"
  by (simp add: validate_sigma_def Let_def split: option.splits)

lemma validate_edr_ok:
  "rp_errors (validate_edr e r) = [] \<longleftrightarrow>
     (ec_enabled e \<longrightarrow> trim (ec_listen e) \<noteq> [] \<and> (ec_tls_cert e = None \<longleftrightarrow> ec_tls_key e = None)) \<and> rp_errors r = []"
  by (cases "ec_tls_cert e"; cases "ec_tls_key e") (auto simp: validate_edr_def Let_def)

text \<open>
  What validation checks: version 1, inputs with distinct, non-blank ids and their required settings,
  pipelines with distinct ids that read declared inputs and route to known sinks, users with distinct
  names and a credential when authentication is on, and a listen address and a complete TLS pair when
  the agent gateway is on. A required setting only has to be there: an empty \<open>path:\<close> is a null and
  passes as the text \<open>null\<close>. Nothing else is checked; what a start needs besides is in \<open>Node_Startup\<close>.
\<close>

theorem validate_spec: "report_ok (validate yt is_dir c) \<longleftrightarrow> config_valid yt c"
  by (auto simp: report_ok_def validate_def config_valid_def Let_def validate_edr_ok validate_auth_def
      validate_users_ok validate_pipelines_ok validate_inputs_ok report_empty_def)

section \<open>Plan, apply and drift\<close>

text \<open>
  Equality of YAML values: mappings are equal when they have as many entries and every entry of
  one is found in the other. Keys are compared as they are; the keys of a configuration are strings.
\<close>

fun yaml_eq :: "yaml \<Rightarrow> yaml \<Rightarrow> bool"
  and entries_eq :: "(yaml \<times> yaml) list \<Rightarrow> (yaml \<times> yaml) list \<Rightarrow> bool"
  and items_eq :: "yaml list \<Rightarrow> yaml list \<Rightarrow> bool" where
  "yaml_eq (YMapping c) (YMapping d) = (length c = length d \<and> entries_eq c d)"
| "yaml_eq (YSequence c) (YSequence d) = items_eq c d"
| "yaml_eq (YTagged t v) (YTagged t' v') = (t = t' \<and> yaml_eq v v')"
| "yaml_eq c d = (c = d)"
| "entries_eq [] d = True"
| "entries_eq ((k, v) # c) d = ((case map_of d k of Some v' \<Rightarrow> yaml_eq v v' | None \<Rightarrow> False) \<and> entries_eq c d)"
| "items_eq [] [] = True"
| "items_eq (v # c) (v' # d) = (yaml_eq v v' \<and> items_eq c d)"
| "items_eq _ _ = False"

datatype change =
    Added string string
  | Removed string string
  | Changed string string string

definition scalar :: "yaml_display \<Rightarrow> yaml \<Rightarrow> string" where
  "scalar yt v = (case yt v of Some s \<Rightarrow> trim s | None \<Rightarrow> ''?'')"

definition path_join :: "string \<Rightarrow> string \<Rightarrow> string" where
  "path_join path key = (if path = [] then key else path @ ''.'' @ key)"

definition indexed :: "(string \<Rightarrow> string \<Rightarrow> change) \<Rightarrow> yaml_display \<Rightarrow> string \<Rightarrow> nat \<Rightarrow> yaml list \<Rightarrow> change list" where
  "indexed f yt path i vs =
     map (\<lambda>(j, v). f (path_join path (show_nat j)) (scalar yt v)) (zip [i..<i + length vs] vs)"

definition added_keys :: "yaml_display \<Rightarrow> string \<Rightarrow> (yaml \<times> yaml) list \<Rightarrow> (yaml \<times> yaml) list \<Rightarrow> change list" where
  "added_keys yt path c d =
     map (\<lambda>(k, v). Added (path_join path (scalar yt k)) (scalar yt v)) (filter (\<lambda>(k, v). map_of c k = None) d)"

fun walk :: "yaml_display \<Rightarrow> string \<Rightarrow> yaml \<Rightarrow> yaml \<Rightarrow> change list"
  and walk_map :: "yaml_display \<Rightarrow> string \<Rightarrow> (yaml \<times> yaml) list \<Rightarrow> (yaml \<times> yaml) list \<Rightarrow> change list"
  and walk_seq :: "yaml_display \<Rightarrow> string \<Rightarrow> nat \<Rightarrow> yaml list \<Rightarrow> yaml list \<Rightarrow> change list" where
  "walk yt path (YMapping c) (YMapping d) = walk_map yt path c d @ added_keys yt path c d"
| "walk yt path (YSequence c) (YSequence d) = walk_seq yt path 0 c d"
| "walk yt path c d = (if yaml_eq c d then [] else [Changed path (scalar yt c) (scalar yt d)])"
| "walk_map yt path [] d = []"
| "walk_map yt path ((k, cv) # c) d =
     (case map_of d k of
        Some dv \<Rightarrow> walk yt (path_join path (scalar yt k)) cv dv
      | None \<Rightarrow> [Removed (path_join path (scalar yt k)) (scalar yt cv)]) @ walk_map yt path c d"
| "walk_seq yt path i (cv # c) (dv # d) =
     walk yt (path_join path (show_nat i)) cv dv @ walk_seq yt path (Suc i) c d"
| "walk_seq yt path i c [] = indexed Removed yt path i c"
| "walk_seq yt path i [] d = indexed Added yt path i d"

record config_codec =
  cy_value :: "config \<Rightarrow> string + yaml"
  cy_text :: "config \<Rightarrow> string + string"
  cy_parse :: "string \<Rightarrow> string + config"

fun config_err :: "string \<Rightarrow> string + 'a \<Rightarrow> 'a result" where
  "config_err ctx (Inl e) = Inl (Config (ctx @ '': '' @ e))"
| "config_err ctx (Inr x) = Inr x"

definition config_parse :: "config_codec \<Rightarrow> string \<Rightarrow> config result" where
  "config_parse cy t = config_err ''parsing config'' (cy_parse cy t)"

definition to_value :: "config_codec \<Rightarrow> config \<Rightarrow> yaml result" where
  "to_value cy c = config_err ''serializing config'' (cy_value cy c)"

definition diff :: "config_codec \<Rightarrow> yaml_display \<Rightarrow> config \<Rightarrow> config \<Rightarrow> change list result" where
  "diff cy yt current desired =
     and_then (to_value cy current) (\<lambda>cur. and_then (to_value cy desired) (\<lambda>des. Inr (walk yt [] cur des)))"

text \<open>The snapshot file, and the errors creating its directory and writing it would give.\<close>

record snapshot_fs =
  sn_file :: file_view
  sn_dir_error :: "string option"
  sn_write_error :: "string option"

definition snapshot_path :: "string \<Rightarrow> string" where
  "snapshot_path dir =
     (if dir = [] \<or> last dir = CHR ''/'' then dir @ ''applied-config.yaml'' else dir @ ''/applied-config.yaml'')"

definition load_snapshot :: "config_codec \<Rightarrow> string \<Rightarrow> snapshot_fs \<Rightarrow> config option result" where
  "load_snapshot cy dir fs =
     (case sn_file fs of
        Content t \<Rightarrow> and_then (config_parse cy t) (\<lambda>c. Inr (Some c))
      | NotFound \<Rightarrow> Inr None
      | Denied e \<Rightarrow> Inl (Io (''reading '' @ snapshot_path dir @ '': '' @ e)))"

definition plan :: "config_codec \<Rightarrow> yaml_display \<Rightarrow> string \<Rightarrow> config \<Rightarrow> snapshot_fs \<Rightarrow> change list result" where
  "plan cy yt dir c fs =
     and_then (load_snapshot cy dir fs) (\<lambda>snap.
       diff cy yt (case snap of Some s \<Rightarrow> s | None \<Rightarrow> empty_config\<lparr>cf_version := cf_version c\<rparr>) c)"

definition apply_config ::
  "config_codec \<Rightarrow> yaml_display \<Rightarrow> string \<Rightarrow> config \<Rightarrow> snapshot_fs \<Rightarrow> snapshot_fs \<times> change list result" where
  "apply_config cy yt dir c fs =
     (case plan cy yt dir c fs of
        Inl e \<Rightarrow> (fs, Inl e)
      | Inr changes \<Rightarrow>
          (case sn_dir_error fs of
             Some e \<Rightarrow> (fs, Inl (Io e))
           | None \<Rightarrow>
               (case config_err ''serializing config'' (cy_text cy c) of
                  Inl e \<Rightarrow> (fs, Inl e)
                | Inr body \<Rightarrow>
                    (case sn_write_error fs of
                       Some e \<Rightarrow> (fs, Inl (Io (''writing '' @ snapshot_path dir @ '': '' @ e)))
                     | None \<Rightarrow> (fs\<lparr>sn_file := Content body\<rparr>, Inr changes)))))"

definition drift :: "config_codec \<Rightarrow> yaml_display \<Rightarrow> string \<Rightarrow> config \<Rightarrow> snapshot_fs \<Rightarrow> change list result" where
  "drift cy yt dir c fs =
     and_then (load_snapshot cy dir fs) (\<lambda>snap.
       case snap of
         None \<Rightarrow> Inl (Config ''no applied snapshot; run `sigil config apply` first'')
       | Some applied \<Rightarrow> diff cy yt applied c)"

subsection \<open>A diff is empty exactly for equal documents\<close>

fun yaml_wf :: "yaml \<Rightarrow> bool"
  and entries_wf :: "(yaml \<times> yaml) list \<Rightarrow> bool"
  and items_wf :: "yaml list \<Rightarrow> bool" where
  "yaml_wf (YMapping m) = (distinct (map fst m) \<and> entries_wf m)"
| "yaml_wf (YSequence s) = items_wf s"
| "yaml_wf (YTagged t v) = yaml_wf v"
| "yaml_wf v = True"
| "entries_wf [] = True"
| "entries_wf ((k, v) # m) = (yaml_wf v \<and> entries_wf m)"
| "items_wf [] = True"
| "items_wf (v # s) = (yaml_wf v \<and> items_wf s)"

lemma entries_wf_lookup: "entries_wf m \<Longrightarrow> map_of m k = Some v \<Longrightarrow> yaml_wf v"
  by (induction m) (auto split: if_splits)

lemma entries_eq_keys: "entries_eq c d \<Longrightarrow> fst ` set c \<subseteq> fst ` set d"
  by (induction c) (force split: option.splits dest: map_of_SomeD)+

lemma same_keys_iff:
  fixes c d :: "(yaml \<times> yaml) list"
  assumes "distinct (map fst c)" "distinct (map fst d)" "fst ` set c \<subseteq> fst ` set d"
  shows "length c = length d \<longleftrightarrow> fst ` set d \<subseteq> fst ` set c"
proof -
  have card: "card (fst ` set m) = length m" if "distinct (map fst m)" for m :: "(yaml \<times> yaml) list"
    using distinct_card [OF that] by simp
  show ?thesis
  proof
    assume "length c = length d"
    with card [OF assms(1)] card [OF assms(2)] have "card (fst ` set c) = card (fst ` set d)" by simp
    with card_subset_eq [OF _ assms(3)] show "fst ` set d \<subseteq> fst ` set c" by simp
  next
    assume "fst ` set d \<subseteq> fst ` set c"
    with assms(3) have "fst ` set c = fst ` set d" by (rule subset_antisym)
    with card [OF assms(1)] card [OF assms(2)] show "length c = length d" by simp
  qed
qed

lemma added_keys_Nil: "added_keys yt path c d = [] \<longleftrightarrow> fst ` set d \<subseteq> fst ` set c"
  by (force simp: added_keys_def filter_empty_conv map_of_eq_None_iff)

lemma indexed_Nil [simp]: "indexed f yt path i vs = [] \<longleftrightarrow> vs = []"
  by (cases vs) (auto simp: indexed_def upt_conv_Cons)

lemma items_eq_Nil [simp]: "items_eq c [] \<longleftrightarrow> c = []"
  by (cases c) auto

lemma walk_Nil:
  "yaml_wf a \<Longrightarrow> yaml_wf b \<Longrightarrow> walk yt path a b = [] \<longleftrightarrow> yaml_eq a b"
  "entries_wf c \<Longrightarrow> entries_wf d \<Longrightarrow> walk_map yt path c d = [] \<longleftrightarrow> entries_eq c d"
  "items_wf cs \<Longrightarrow> items_wf ds \<Longrightarrow> walk_seq yt path i cs ds = [] \<longleftrightarrow> items_eq cs ds"
proof (induction yt path a b and yt path c d and yt path i cs ds rule: walk_walk_map_walk_seq.induct)
  case (1 yt path c d)
  then show ?case using entries_eq_keys [of c d] same_keys_iff [of c d] by (auto simp: added_keys_Nil)
qed (auto split: option.splits dest: entries_wf_lookup)

text \<open>
  Drift tells exactly whether the declared configuration is the applied one: if the text form reads
  back as the configuration, then after a successful apply the drift of a configuration is empty
  if and only if its document equals the applied one; the drift of what was applied is empty.
\<close>

theorem drift_detects:
  assumes applied: "apply_config cy yt dir c fs = (fs', Inr changes)"
    and codec: "\<And>t. cy_text cy c = Inr t \<Longrightarrow> cy_parse cy t = Inr c"
    and docs: "cy_value cy c = Inr v" "cy_value cy c' = Inr v'" "yaml_wf v" "yaml_wf v'"
  shows "drift cy yt dir c' fs' = Inr [] \<longleftrightarrow> yaml_eq v v'"
proof -
  from applied obtain t where "cy_text cy c = Inr t" "sn_file fs' = Content t"
    by (cases "cy_text cy c") (auto simp: apply_config_def split: sum.splits option.splits)
  with codec have "load_snapshot cy dir fs' = Inr (Some c)" by (simp add: load_snapshot_def config_parse_def)
  with docs show ?thesis by (simp add: drift_def diff_def to_value_def walk_Nil(1))
qed

definition demo_codec :: config_codec where
  "demo_codec =
     \<lparr>cy_value = (\<lambda>c. Inr (YMapping [(YString ''version'', YNumber (show_nat (cf_version c)))])),
      cy_text = (\<lambda>c. Inr (show_nat (cf_version c))), cy_parse = (\<lambda>t. Inr empty_config)\<rparr>"

theorem drift_detects_witness:
  "drift demo_codec (\<lambda>_. None) ''d'' (empty_config\<lparr>cf_version := 2\<rparr>)
     (fst (apply_config demo_codec (\<lambda>_. None) ''d'' empty_config
       \<lparr>sn_file = NotFound, sn_dir_error = None, sn_write_error = None\<rparr>)) \<noteq> Inr []"
proof -
  let ?fs = "\<lparr>sn_file = NotFound, sn_dir_error = None, sn_write_error = None\<rparr>"
  let ?val = "\<lambda>c. YMapping [(YString ''version'', YNumber (show_nat (cf_version c)))]"
  let ?c' = "empty_config\<lparr>cf_version := 2\<rparr>"
  have "cf_version empty_config = 1" by (simp add: empty_config_def)
  then have "apply_config demo_codec (\<lambda>_. None) ''d'' empty_config ?fs = (?fs\<lparr>sn_file := Content (show_nat 1)\<rparr>, Inr [])"
    by (simp add: apply_config_def plan_def load_snapshot_def diff_def to_value_def demo_codec_def added_keys_def)
  from drift_detects [OF this, of "?val empty_config" ?c' "?val ?c'"] this
  have "drift demo_codec (\<lambda>_. None) ''d'' ?c' (fst (apply_config demo_codec (\<lambda>_. None) ''d'' empty_config ?fs)) = Inr []
      \<longleftrightarrow> yaml_eq (?val empty_config) (?val ?c')"
    by (simp add: demo_codec_def)
  moreover have "show_nat (cf_version empty_config) \<noteq> show_nat 2"
    by (simp add: empty_config_def show_nat_def show_nat_acc.simps char_of_def bit_iff_odd)
  ultimately show ?thesis by simp
qed

section \<open>Secrets\<close>

definition blank_user :: "user_config \<Rightarrow> user_config" where
  "blank_user u = u\<lparr>cu_password := None, cu_hash := None\<rparr>"

definition redact_config :: "config \<Rightarrow> config" where
  "redact_config c =
     c\<lparr>cf_auth := (cf_auth c)\<lparr>ac_secret := [], ac_users := map blank_user (ac_users (cf_auth c))\<rparr>,
       cf_edr := (cf_edr c)\<lparr>ec_tokens := []\<rparr>\<rparr>"

definition merge_user :: "user_config list \<Rightarrow> user_config \<Rightarrow> user_config" where
  "merge_user current u =
     (if cu_password u = None \<and> cu_hash u = None
      then (case find (\<lambda>c. cu_name c = cu_name u) current of
              Some cur \<Rightarrow> u\<lparr>cu_password := cu_password cur, cu_hash := cu_hash cur\<rparr>
            | None \<Rightarrow> u)
      else u)"

definition merge_secrets :: "config \<Rightarrow> config \<Rightarrow> config" where
  "merge_secrets new current =
     (let a = cf_auth new; e = cf_edr new
      in new\<lparr>cf_auth := a\<lparr>ac_secret := (if trim (ac_secret a) = [] then ac_secret (cf_auth current) else ac_secret a),
                           ac_users := map (merge_user (ac_users (cf_auth current))) (ac_users a)\<rparr>,
             cf_edr := e\<lparr>ec_tokens := (if ec_tokens e = [] then ec_tokens (cf_edr current) else ec_tokens e)\<rparr>\<rparr>)"

definition jwt_ph :: string where
  "jwt_ph = ''<redacted:jwt_secret>''"

definition user_hash_ph :: "string \<Rightarrow> string" where
  "user_hash_ph u = ''<redacted:user:'' @ u @ '':password_hash>''"

definition user_pw_ph :: "string \<Rightarrow> string" where
  "user_pw_ph u = ''<redacted:user:'' @ u @ '':password>''"

definition token_ph :: "nat \<Rightarrow> string" where
  "token_ph i = ''<redacted:edr_token:'' @ show_nat i @ ''>''"

definition hide :: "string option \<Rightarrow> string \<Rightarrow> string \<Rightarrow> string" where
  "hide secret ph out = (case secret of Some s \<Rightarrow> if s \<noteq> [] then replace_str s ph out else out | None \<Rightarrow> out)"

definition redact_yaml :: "string \<Rightarrow> config \<Rightarrow> string" where
  "redact_yaml yaml c =
     (let o1 = hide (Some (trim (ac_secret (cf_auth c)))) jwt_ph yaml;
          o2 = fold (\<lambda>u out. hide (cu_password u) (user_pw_ph (cu_name u)) (hide (cu_hash u) (user_hash_ph (cu_name u)) out))
                 (ac_users (cf_auth c)) o1
      in fold (\<lambda>(i, t) out. hide (Some t) (token_ph i) out) (enumerate 0 (ec_tokens (cf_edr c))) o2)"

definition reveal :: "string option \<Rightarrow> string \<Rightarrow> string \<Rightarrow> string" where
  "reveal secret ph out = (case secret of Some s \<Rightarrow> replace_str ph s out | None \<Rightarrow> out)"

definition restore_yaml :: "string \<Rightarrow> config \<Rightarrow> string" where
  "restore_yaml yaml c =
     (let o1 = replace_str jwt_ph (ac_secret (cf_auth c)) yaml;
          o2 = fold (\<lambda>u out. reveal (cu_password u) (user_pw_ph (cu_name u)) (reveal (cu_hash u) (user_hash_ph (cu_name u)) out))
                 (ac_users (cf_auth c)) o1
      in fold (\<lambda>(i, t) out. replace_str (token_ph i) t out) (enumerate 0 (ec_tokens (cf_edr c))) o2)"

text \<open>The user a merge finds for a blank one is the user itself when names are unique.\<close>

lemma find_by_name: "distinct (map cu_name us) \<Longrightarrow> u \<in> set us \<Longrightarrow> find (\<lambda>c. cu_name c = cu_name u) us = Some u"
  by (induction us) (auto dest: rev_image_eqI [of _ _ _ cu_name])

lemma merge_blank_user:
  assumes "distinct (map cu_name us)" "u \<in> set us"
  shows "merge_user us (blank_user u) = u"
  using find_by_name [OF assms] by (simp add: merge_user_def blank_user_def)

text \<open>
  The form editor never sees a secret and never loses one: the redacted configuration has no
  signing secret, password, hash or enrollment token, and merging it back, unchanged, into the
  configuration it came from gives that configuration again, if user names are unique.
\<close>

theorem secrets_roundtrip:
  assumes "distinct (map cu_name (ac_users (cf_auth c)))"
  shows "merge_secrets (redact_config c) c = c \<and>
    ac_secret (cf_auth (redact_config c)) = [] \<and> ec_tokens (cf_edr (redact_config c)) = [] \<and>
    list_all (\<lambda>u. cu_hash u = None \<and> cu_password u = None) (ac_users (cf_auth (redact_config c)))"
proof -
  have "map (merge_user us) (map blank_user us) = us" if "us = ac_users (cf_auth c)" for us
    using merge_blank_user [of us] assms that by (simp add: map_idI)
  then show ?thesis
    by (simp add: merge_secrets_def redact_config_def Let_def list_all_iff blank_user_def trim_def trim_start_def trim_end_def)
qed

theorem secrets_roundtrip_witness:
  "merge_secrets (redact_config empty_config) empty_config = empty_config"
  using secrets_roundtrip [of empty_config] by (simp add: empty_config_def auth_default_def)

definition clash_user :: "string \<Rightarrow> string option \<Rightarrow> string option \<Rightarrow> user_config" where
  "clash_user n h p = \<lparr>cu_name = n, cu_hash = h, cu_password = p, cu_roles = []\<rparr>"

definition clash_config :: config where
  "clash_config = empty_config\<lparr>cf_auth := auth_default\<lparr>ac_secret := '' k '',
     ac_users := [clash_user ''a'' (Some ''h1'') None, clash_user ''b'' None (Some ''user'')]\<rparr>\<rparr>"

definition dquote :: char where
  "dquote = CHR 0x22"

lemmas raw_view_defs =
  restore_yaml_def redact_yaml_def clash_config_def clash_user_def empty_config_def auth_default_def edr_default_def
  hide_def reveal_def jwt_ph_def user_hash_ph_def user_pw_ph_def replace_str_def dquote_def

text \<open>
  The raw view does lose secrets: each secret is replaced in the text the earlier replacements
  produced, placeholders included. A password that occurs in a placeholder, here \<open>user\<close>, breaks
  the placeholder of another user's hash, and saving the unchanged text writes the placeholder in
  place of the hash; a signing secret with outer blanks gains them again with every save.
\<close>

theorem raw_view_loses_secrets:
  "restore_yaml (redact_yaml ''hash: h1'' clash_config) clash_config = ''hash: <redacted:user:a:password_hash>'' \<and>
   restore_yaml (redact_yaml (''s: '' @ [dquote] @ '' k '' @ [dquote]) clash_config) clash_config =
     ''s: '' @ [dquote] @ ''  k  '' @ [dquote]"
proof
  show "restore_yaml (redact_yaml ''hash: h1'' clash_config) clash_config = ''hash: <redacted:user:a:password_hash>''"
    by (simp add: raw_view_defs string_eval)
  show "restore_yaml (redact_yaml (''s: '' @ [dquote] @ '' k '' @ [dquote]) clash_config) clash_config =
     ''s: '' @ [dquote] @ ''  k  '' @ [dquote]"
    by (simp add: raw_view_defs string_eval)
qed

end
