(* ===== verification/Api_Alerts.thy ===== *)
theory Api_Alerts
  imports Store
begin

text \<open>
  The alert store of \<open>crates/sigil-api/src/lib.rs\<close>: a bounded ring of recent alerts, written through
  to the durable store when there is one. The ring is the queue front first; the durable store is
  shared with other components and therefore an argument and a result of its own. A push also gives
  the record it broadcasts to subscribers; database failures and lagging subscribers are not
  modelled.
\<close>

section \<open>Operations\<close>

record alert_ring =
  rg_queue :: "alert list"
  rg_cap :: nat

definition ring_new :: "nat \<Rightarrow> alert_ring" where
  "ring_new cap = \<lparr>rg_queue = [], rg_cap = max cap 1\<rparr>"

definition ring_default :: alert_ring where
  "ring_default = ring_new 10000"

definition ring_push :: "alert \<Rightarrow> alert_ring \<Rightarrow> alert_ring" where
  "ring_push a r =
     (let q = (if length (rg_queue r) = rg_cap r then tl (rg_queue r) else rg_queue r)
      in r\<lparr>rg_queue := q @ [a]\<rparr>)"

definition hydrate :: "'b store option \<Rightarrow> alert_ring \<Rightarrow> alert_ring" where
  "hydrate st r =
     (case st of
        None \<Rightarrow> r
      | Some s \<Rightarrow> fold (\<lambda>rec. ring_push (ar_alert rec)) (rev (list_alerts (rg_cap r) None s)) r)"

definition push :: "alert_hasher \<Rightarrow> timestamp \<Rightarrow> alert \<Rightarrow> 'b store option \<times> alert_ring \<Rightarrow> ('b store option \<times> alert_ring) \<times> alert_record" where
  "push h now a x =
     (let (st, r) = x; r' = ring_push a r
      in case st of
           Some s \<Rightarrow> (let (s', rec) = upsert_alert h now a s in ((Some s', r'), rec))
         | None \<Rightarrow> ((None, r'), alert_record_new h now a))"

definition alerts_len :: "'b store option \<Rightarrow> alert_ring \<Rightarrow> nat" where
  "alerts_len st r = (case st of Some s \<Rightarrow> alert_count s | None \<Rightarrow> length (rg_queue r))"

definition wanted :: "string option \<Rightarrow> alert \<Rightarrow> bool" where
  "wanted technique a = (case technique of Some t \<Rightarrow> al_technique a = Some t | None \<Rightarrow> True)"

definition recent :: "nat \<Rightarrow> string option \<Rightarrow> alert_ring \<Rightarrow> alert list" where
  "recent limit technique r = take limit (filter (wanted technique) (rev (rg_queue r)))"

definition records :: "alert_hasher \<Rightarrow> timestamp \<Rightarrow> nat \<Rightarrow> string option \<Rightarrow> 'b store option \<Rightarrow> alert_ring \<Rightarrow> alert_record list" where
  "records h now limit technique st r =
     (case st of
        Some s \<Rightarrow> list_alerts limit technique s
      | None \<Rightarrow> map (alert_record_new h now) (recent limit technique r))"

text \<open>A run of pushes, as the detection path makes them.\<close>

definition push_all :: "alert_hasher \<Rightarrow> timestamp \<Rightarrow> alert list \<Rightarrow> 'b store option \<times> alert_ring \<Rightarrow> 'b store option \<times> alert_ring" where
  "push_all h now as x = fold (\<lambda>a x. fst (push h now a x)) as x"

section \<open>The ring keeps the last alerts\<close>

definition ring_ok :: "alert_ring \<Rightarrow> bool" where
  "ring_ok r \<longleftrightarrow> 0 < rg_cap r \<and> length (rg_queue r) \<le> rg_cap r"

definition last_n :: "nat \<Rightarrow> 'a list \<Rightarrow> 'a list" where
  "last_n n xs = drop (length xs - n) xs"

lemma last_n_snoc: "0 < n \<Longrightarrow> last_n n (last_n n xs @ ys) = last_n n (xs @ ys)"
  by (cases "length xs \<le> n") (simp_all add: last_n_def add.commute)

lemma ring_push_queue:
  assumes "ring_ok r"
  shows "ring_ok (ring_push a r)" "rg_queue (ring_push a r) = last_n (rg_cap r) (rg_queue r @ [a])"
    "rg_cap (ring_push a r) = rg_cap r"
  using assms by (auto simp: ring_ok_def ring_push_def last_n_def Let_def drop_Suc)

lemma fold_ring_push:
  assumes "ring_ok r"
  shows "ring_ok (fold (\<lambda>x. ring_push (f x)) xs r) \<and> rg_cap (fold (\<lambda>x. ring_push (f x)) xs r) = rg_cap r \<and>
    rg_queue (fold (\<lambda>x. ring_push (f x)) xs r) = last_n (rg_cap r) (rg_queue r @ map f xs)"
  using assms
proof (induction xs arbitrary: r)
  case Nil
  then show ?case by (simp add: last_n_def ring_ok_def)
next
  case (Cons x xs)
  have "0 < rg_cap r" using Cons.prems by (simp add: ring_ok_def)
  with Cons.IH [OF ring_push_queue(1) [OF Cons.prems, of "f x"]] ring_push_queue [OF Cons.prems, of "f x"] show ?case
    by (simp add: last_n_snoc)
qed

lemma ring_ok_new [simp]: "ring_ok (ring_new cap)" "rg_queue (ring_new cap) = []" "rg_cap (ring_new cap) = max cap 1"
  by (simp_all add: ring_new_def ring_ok_def)

lemma push_parts: "snd (fst (push h now a x)) = ring_push a (snd x)"
  "fst (fst (push h now a x)) = map_option (\<lambda>s. fst (upsert_alert h now a s)) (fst x)"
  by (auto simp: push_def Let_def split: prod.splits option.splits)

lemma push_all_ring: "snd (push_all h now as x) = fold ring_push as (snd x)"
  by (induction as arbitrary: x) (simp_all add: push_all_def push_parts)

lemma push_all_store:
  "fst (push_all h now as x) = map_option (fold (\<lambda>a s. fst (upsert_alert h now a s)) as) (fst x)"
  by (induction as arbitrary: x) (auto simp: push_all_def push_parts option.map_comp comp_def option.map_id)

lemma get_upsert:
  "get_alert fp (fst (upsert_alert h now a s)) =
     (if fp = fingerprint h a \<and> get_alert fp s = None then Some (alert_record_new h now a) else get_alert fp s)"
  by (auto simp: upsert_alert_def Let_def get_write_alert alert_record_new_def split: option.splits)

lemma get_upserts:
  "get_alert fp (fold (\<lambda>a s. fst (upsert_alert h now a s)) as s) =
     (case get_alert fp s of
        Some r \<Rightarrow> Some r
      | None \<Rightarrow> map_option (alert_record_new h now) (find (\<lambda>a. fingerprint h a = fp) as))"
  by (induction as arbitrary: s) (auto simp: get_upsert split: option.splits)

text \<open>
  Recording alerts: whatever is pushed, the ring holds the last \<open>cap\<close> alerts in order and the
  durable store holds every alert ever pushed under its fingerprint. A record that was there is kept
  as it was, with its triage; otherwise the first alert of a fingerprint made it, open.
\<close>

theorem alerts_recorded:
  "(let (st, r) = push_all h now as (Some s, ring_new cap)
    in rg_queue r = last_n (max cap 1) as \<and>
       (\<forall>fp. map_option (get_alert fp) st = Some
          (case get_alert fp s of
             Some rec \<Rightarrow> Some rec
           | None \<Rightarrow> map_option (alert_record_new h now) (find (\<lambda>a. fingerprint h a = fp) as))))"
  using fold_ring_push [of "ring_new cap" "\<lambda>x. x" as] push_all_ring [of h now as "(Some s, ring_new cap)"]
    push_all_store [of h now as "(Some s, ring_new cap)"]
  by (auto simp: get_upserts split: prod.splits)

text \<open>
  A restart loses no alert from the recent view: if the store has no more alerts than the ring has
  places, the ring filled from the store answers every question for recent alerts, of any technique
  and any length, with the alerts of the records the store itself lists.
\<close>

theorem hydrated_recent:
  assumes "alert_count s \<le> cap" and "0 < cap"
  shows "recent limit technique (hydrate (Some s) (ring_new cap)) = map ar_alert (list_alerts limit technique s)"
proof -
  let ?f = "\<lambda>r. - al_ts (ar_alert r)" and ?all = "map snd (st_alerts s)"
  have cap: "max cap 1 = cap" using assms(2) by simp
  have page: "list_alerts cap None s = sort_key ?f ?all"
    using assms(1) by (simp add: list_alerts_def Let_def sort_desc_def alert_count_def)
  have "rg_queue (hydrate (Some s) (ring_new cap)) = last_n cap (rev (map ar_alert (sort_key ?f ?all)))"
    using fold_ring_push [of "ring_new cap" ar_alert "rev (list_alerts cap None s)"] cap
    by (simp add: hydrate_def page rev_map)
  also have "\<dots> = rev (map ar_alert (sort_key ?f ?all))"
    using assms(1) by (simp add: last_n_def alert_count_def)
  finally have "recent limit technique (hydrate (Some s) (ring_new cap)) =
      take limit (map ar_alert (filter (\<lambda>r. wanted technique (ar_alert r)) (sort_key ?f ?all)))"
    by (simp add: recent_def filter_map comp_def)
  also have "\<dots> = map ar_alert (list_alerts limit technique s)"
    by (simp add: list_alerts_def Let_def sort_desc_def filter_sort take_map wanted_def)
  finally show ?thesis .
qed

definition demo_alert :: "string \<Rightarrow> timestamp \<Rightarrow> alert" where
  "demo_alert i t = \<lparr>al_rule_id = i, al_title = [], al_severity = Low, al_technique = None, al_events = [i], al_ts = t\<rparr>"

theorem hydrated_recent_witness:
  "recent 5 None (hydrate (Some (fst (upsert_alert (\<lambda>_ _ _. 7) 0 (demo_alert ''r'' 3) (store_open :: nat store)))) (ring_new 4)) =
     [demo_alert ''r'' 3]"
proof -
  let ?s = "fst (upsert_alert (\<lambda>_ _ _. 7) 0 (demo_alert ''r'' 3) (store_open :: nat store))"
  have s: "st_alerts ?s = [(fingerprint (\<lambda>_ _ _. 7) (demo_alert ''r'' 3), alert_record_new (\<lambda>_ _ _. 7) 0 (demo_alert ''r'' 3))]"
    by (simp add: upsert_alert_def get_alert_def store_open_def write_alert_def Let_def alert_record_new_def)
  then have "list_alerts 5 None ?s = [alert_record_new (\<lambda>_ _ _. 7) 0 (demo_alert ''r'' 3)]"
    by (simp add: list_alerts_def Let_def sort_desc_def)
  with hydrated_recent [of ?s 4 5 None] s show ?thesis by (simp add: alert_count_def alert_record_new_def)
qed

end
