(* ===== verification/Api_Control.thy ===== *)
theory Api_Control
  imports Api_Alerts Edr_Control Sigma_Engine Config_File
begin

text \<open>
  The control surface of \<open>crates/sigil-api/src/lib.rs\<close>: triage, rule editing, saved objects, the
  agent fleet and the configuration file, behind the role guards of \<open>auth.rs\<close>. The store, the
  saved objects and the fleet are one state, as all of them live in the node's store; two flags
  say whether the API was given the store and the fleet. The rules directory is the list of its
  files by relative path, in the order a walk visits them. A response is its status and payload.
  Fresh ULIDs and the clock are arguments; parsing rule documents, configurations and tokens are
  parameters of \<open>api_env\<close>. Search, SQL and streaming only read, in other components.
\<close>

section \<open>State, requests and responses\<close>

record api_env =
  ae_sigma :: sigma_env
  ae_doc :: "string \<Rightarrow> sigma_rule result"
  ae_corr :: "string \<Rightarrow> bool"
  ae_auth :: auth_env
  ae_hash :: alert_hasher
  ae_codec :: config_codec
  ae_yaml :: yaml_display
  ae_is_dir :: "string \<Rightarrow> bool"

text \<open>How writing a file can fail: before anything is written, or after some of it.\<close>

datatype write_fault = NotWritten string | CutShort string nat

record api_state =
  api_auth :: auth_state
  api_ring :: alert_ring
  api_fleet :: edr
  api_store_on :: bool
  api_edr_on :: bool
  api_engine :: sigma_engine
  api_rules :: "(string \<times> string) list option"
  api_dir_error :: "string option"
  api_rules_error :: "string option"
  api_scan_error :: "string option"
  api_config_on :: bool
  api_config_file :: file_view
  api_config_backup :: "string option"
  api_copy_error :: "write_fault option"
  api_config_error :: "write_fault option"

datatype payload =
    PError string
  | PAlerts "alert_record list"
  | PAlert alert_record
  | PRules "rule_info list"
  | PRule string nat
  | PTest bool nat "string list"
  | PObjects string "edr_body saved_object list"
  | PObject "edr_body saved_object"
  | PNothing
  | PAgents "agent_view list"
  | PAgent agent_view "command_record list"
  | PCommand command_record
  | PCommands "command_record list"
  | PTokens "token_info list"
  | PToken string string
  | PConfig string "config option" report
  | PConfigError string
  | PReport report
  | PSaved report "nat option"

datatype response = Reply nat payload

definition bad_request :: "string \<Rightarrow> response" where "bad_request m = Reply 400 (PError m)"
definition not_found :: "string \<Rightarrow> response" where "not_found m = Reply 404 (PError m)"
definition conflict :: "string \<Rightarrow> response" where "conflict m = Reply 409 (PError m)"
definition error_response :: "error \<Rightarrow> response" where "error_response e = Reply 500 (PError (error_display e))"

text \<open>\<open>if let Err(r) = auth::require(..) { return r }\<close> and the checks for an attached store or fleet.\<close>

definition guarded :: "auth_user \<Rightarrow> access_role \<Rightarrow> api_state \<Rightarrow> api_state \<times> response \<Rightarrow> api_state \<times> response" where
  "guarded u role s k =
     (case require_role u role of
        Inl (Forbidden m) \<Rightarrow> (s, Reply 403 (PError m))
      | Inl Unauthorized \<Rightarrow> (s, Reply 401 (PError ''unauthorized''))
      | Inr _ \<Rightarrow> k)"

definition stored :: "api_state \<Rightarrow> api_state \<times> response \<Rightarrow> api_state \<times> response" where
  "stored s k = (if api_store_on s then k else (s, conflict ''persistence not enabled (set `data_dir`)''))"

definition fleet :: "api_state \<Rightarrow> api_state \<times> response \<Rightarrow> api_state \<times> response" where
  "fleet s k = (if api_edr_on s then k else (s, conflict ''EDR is not enabled''))"

abbreviation api_store :: "api_state \<Rightarrow> edr_store" where
  "api_store s \<equiv> ed_store (api_fleet s)"

definition set_store :: "edr_store \<Rightarrow> api_state \<Rightarrow> api_state" where
  "set_store st s = s\<lparr>api_fleet := (api_fleet s)\<lparr>ed_store := st\<rparr>\<rparr>"

definition clamp :: "nat \<Rightarrow> nat \<Rightarrow> nat \<Rightarrow> nat" where
  "clamp lo hi n = (if n < lo then lo else if hi < n then hi else n)"

definition opt_or :: "'a \<Rightarrow> 'a option \<Rightarrow> 'a" where
  "opt_or d x = (case x of Some v \<Rightarrow> v | None \<Rightarrow> d)"

section \<open>Triage\<close>

record patch_body =
  pb_status :: "string option"
  pb_assignee :: "string option"
  pb_note :: "string option"

definition alerts_handler :: "api_env \<Rightarrow> timestamp \<Rightarrow> string option \<Rightarrow> nat option \<Rightarrow> api_state \<Rightarrow> response" where
  "alerts_handler E now technique limit s =
     Reply 200 (PAlerts (records (ae_hash E) now (clamp 1 1000 (opt_or 50 limit)) technique
       (if api_store_on s then Some (api_store s) else None) (api_ring s)))"

definition to_patch :: "timestamp \<Rightarrow> patch_body \<Rightarrow> auth_user \<Rightarrow> response + alert_patch" where
  "to_patch now b u =
     (let rest = (\<lambda>st. \<lparr>ap_status = st,
            ap_assignee = map_option (\<lambda>a. if a = [] then None else Some a) (pb_assignee b),
            ap_note = (case pb_note b of
                Some t \<Rightarrow> if trim t = [] then None else Some \<lparr>no_ts = now, no_author = au_name u, no_text = t\<rparr>
              | None \<Rightarrow> None)\<rparr>)
      in case pb_status b of
           None \<Rightarrow> Inr (rest None)
         | Some st \<Rightarrow> (case triage_parse st of None \<Rightarrow> Inl (bad_request ''invalid status'') | Some x \<Rightarrow> Inr (rest (Some x))))"

definition alert_patch_handler ::
  "timestamp \<Rightarrow> auth_user \<Rightarrow> string \<Rightarrow> patch_body \<Rightarrow> api_state \<Rightarrow> api_state \<times> response" where
  "alert_patch_handler now u fp b s =
     guarded u Analyst s (stored s
       (case to_patch now b u of
          Inl r \<Rightarrow> (s, r)
        | Inr p \<Rightarrow>
            (case patch_alert now fp p (api_store s) of
               (st, Some r) \<Rightarrow> (set_store st s, Reply 200 (PAlert r))
             | (st, None) \<Rightarrow> (set_store st s, not_found ''no alert with that fingerprint''))))"

fun patch_each :: "timestamp \<Rightarrow> alert_patch \<Rightarrow> string list \<Rightarrow> edr_store \<Rightarrow> edr_store \<times> alert_record list" where
  "patch_each now p [] st = (st, [])"
| "patch_each now p (fp # fps) st =
     (let (st1, r) = patch_alert now fp p st; (st2, rs) = patch_each now p fps st1
      in (st2, case r of Some x \<Rightarrow> x # rs | None \<Rightarrow> rs))"

definition alerts_bulk_patch ::
  "timestamp \<Rightarrow> auth_user \<Rightarrow> string list \<Rightarrow> patch_body \<Rightarrow> api_state \<Rightarrow> api_state \<times> response" where
  "alerts_bulk_patch now u fps b s =
     guarded u Analyst s (stored s
       (case to_patch now b u of
          Inl r \<Rightarrow> (s, r)
        | Inr p \<Rightarrow> (let (st, rs) = patch_each now p fps (api_store s) in (set_store st s, Reply 200 (PAlerts rs)))))"

section \<open>Rules\<close>

definition compile_text :: "api_env \<Rightarrow> string \<Rightarrow> compiled_rule result" where
  "compile_text E text = and_then (ae_doc E text) (from_rule (ae_sigma E))"

definition sanitize :: "string \<Rightarrow> string" where
  "sanitize t = map (\<lambda>c. if is_alnum c \<or> c = CHR ''-'' \<or> c = CHR ''_'' then c else CHR ''_'') t"

definition rule_path :: "string \<Rightarrow> string" where
  "rule_path i = sanitize i @ ''.yml''"

text \<open>A file directly in the directory, with one of the two extensions.\<close>

definition has_yaml_ext :: "string \<Rightarrow> bool" where
  "has_yaml_ext p \<longleftrightarrow> (\<exists>stem \<in> set (prefixes p). stem \<noteq> [] \<and> last stem \<noteq> CHR ''/'' \<and> (p = stem @ ''.yml'' \<or> p = stem @ ''.yaml''))"

definition in_top :: "string \<Rightarrow> bool" where
  "in_top p \<longleftrightarrow> CHR ''/'' \<notin> set p"

abbreviation no_rules_dir :: response where
  "no_rules_dir \<equiv> conflict ''rule editing requires `sigma.rules_dir`''"

definition write_rule_file :: "string \<Rightarrow> string \<Rightarrow> api_state \<Rightarrow> response + api_state" where
  "write_rule_file i text s =
     (case api_rules s of
        None \<Rightarrow> Inl no_rules_dir
      | Some files \<Rightarrow>
          (case api_dir_error s of
             Some e \<Rightarrow> Inl (conflict (''cannot create rules dir: '' @ e))
           | None \<Rightarrow>
               (case api_rules_error s of
                  Some e \<Rightarrow> Inl (conflict (''cannot write rule: '' @ e))
                | None \<Rightarrow> Inr (s\<lparr>api_rules := Some (hash_insert (rule_path i) text files)\<rparr>))))"

definition find_rule_path :: "api_env \<Rightarrow> string \<Rightarrow> (string \<times> string) list \<Rightarrow> string option" where
  "find_rule_path E i files =
     map_option fst (find (\<lambda>(p, text). in_top p \<and> has_yaml_ext p \<and>
       (case compile_text E text of Inr r \<Rightarrow> cr_rule_id r = i | Inl _ \<Rightarrow> False)) files)"

definition delete_rule_file :: "api_env \<Rightarrow> string \<Rightarrow> api_state \<Rightarrow> response + api_state option" where
  "delete_rule_file E i s =
     (case api_rules s of
        None \<Rightarrow> Inl no_rules_dir
      | Some files \<Rightarrow>
          (let remove = (\<lambda>p. case api_rules_error s of
                 Some e \<Rightarrow> Inl (conflict (''cannot delete rule: '' @ e))
               | None \<Rightarrow> Inr (Some (s\<lparr>api_rules := Some (hash_remove p files)\<rparr>)))
           in if map_of files (rule_path i) \<noteq> None then remove (rule_path i)
              else case find_rule_path E i files of Some p \<Rightarrow> remove p | None \<Rightarrow> Inr None))"

definition load_dir :: "api_env \<Rightarrow> (string \<times> string) list \<Rightarrow> sigma_engine" where
  "load_dir E files =
     \<lparr>en_rules = fst (load_rules (ae_sigma E) (ae_doc E) (ae_corr E) (filter (\<lambda>f. has_yaml_ext (fst f)) files))\<rparr>"

definition reload_engine :: "api_env \<Rightarrow> api_state \<Rightarrow> response + (api_state \<times> nat)" where
  "reload_engine E s =
     (case api_rules s of
        None \<Rightarrow> Inl no_rules_dir
      | Some files \<Rightarrow>
          (case api_scan_error s of
             Some e \<Rightarrow> Inl (error_response (Io e))
           | None \<Rightarrow> (let en = load_dir E files in Inr (s\<lparr>api_engine := en\<rparr>, length (en_rules en)))))"

definition reload_reply :: "api_env \<Rightarrow> nat \<Rightarrow> string \<Rightarrow> api_state \<Rightarrow> api_state \<times> response" where
  "reload_reply E status i s =
     (case reload_engine E s of Inl r \<Rightarrow> (s, r) | Inr (s', n) \<Rightarrow> (s', Reply status (PRule i n)))"

definition rule_create :: "api_env \<Rightarrow> auth_user \<Rightarrow> string \<Rightarrow> api_state \<Rightarrow> api_state \<times> response" where
  "rule_create E u text s =
     guarded u Analyst s
       (case compile_text E text of
          Inl e \<Rightarrow> (s, bad_request (error_display e))
        | Inr c \<Rightarrow>
            (case write_rule_file (cr_rule_id c) text s of
               Inl r \<Rightarrow> (s, r)
             | Inr s1 \<Rightarrow> reload_reply E 201 (cr_rule_id c) s1))"

definition rule_update :: "api_env \<Rightarrow> auth_user \<Rightarrow> string \<Rightarrow> string \<Rightarrow> api_state \<Rightarrow> api_state \<times> response" where
  "rule_update E u i text s =
     guarded u Analyst s
       (case compile_text E text of
          Inl e \<Rightarrow> (s, bad_request (error_display e))
        | Inr c \<Rightarrow>
            (case write_rule_file i text s of
               Inl r \<Rightarrow> (s, r)
             | Inr s1 \<Rightarrow> reload_reply E 200 i s1))"

definition rule_delete :: "api_env \<Rightarrow> auth_user \<Rightarrow> string \<Rightarrow> api_state \<Rightarrow> api_state \<times> response" where
  "rule_delete E u i s =
     guarded u Analyst s
       (case delete_rule_file E i s of
          Inl r \<Rightarrow> (s, r)
        | Inr None \<Rightarrow> (s, not_found ''rule not found'')
        | Inr (Some s1) \<Rightarrow> reload_reply E 200 i s1)"

definition load_rule_by_id :: "api_env \<Rightarrow> string \<Rightarrow> api_state \<Rightarrow> compiled_rule option" where
  "load_rule_by_id E i s =
     (case api_rules s of
        None \<Rightarrow> None
      | Some files \<Rightarrow>
          (case find_rule_path E i files of
             None \<Rightarrow> None
           | Some p \<Rightarrow>
               (case map_of files p of
                  None \<Rightarrow> None
                | Some text \<Rightarrow> (case compile_text E text of Inr c \<Rightarrow> Some c | Inl _ \<Rightarrow> None))))"

definition event_from_fields :: "string \<Rightarrow> timestamp \<Rightarrow> string \<Rightarrow> (string \<times> string) list \<Rightarrow> event" where
  "event_from_fields ulid now message fs =
     (new_event ulid now ''test'')\<lparr>ev_message := message, ev_fields := rec_fields (from_pairs fs)\<rparr>"

record rule_case =
  rk_name :: string
  rk_message :: string
  rk_fields :: "(string \<times> string) list"
  rk_expect :: bool

definition rule_test ::
  "api_env \<Rightarrow> string \<Rightarrow> timestamp \<Rightarrow> auth_user \<Rightarrow> string \<Rightarrow> string option \<Rightarrow> rule_case list \<Rightarrow> api_state \<Rightarrow> api_state \<times> response" where
  "rule_test E ulid now u i text cases s =
     guarded u Analyst s
       (case (case text of
                Some t \<Rightarrow> (case compile_text E t of Inr c \<Rightarrow> Inr c | Inl e \<Rightarrow> Inl (bad_request (error_display e)))
              | None \<Rightarrow> (case load_rule_by_id E i s of Some c \<Rightarrow> Inr c | None \<Rightarrow> Inl (not_found ''rule not found''))) of
          Inl r \<Rightarrow> (s, r)
        | Inr c \<Rightarrow>
            (let fails = run_cases (ae_sigma E) c
                   (map (\<lambda>k. \<lparr>tc_name = rk_name k, tc_event = event_from_fields ulid now (rk_message k) (rk_fields k),
                              tc_expect_match = rk_expect k\<rparr>) cases)
             in (s, Reply 200 (PTest (fails = []) (length cases) fails))))"

section \<open>Saved objects\<close>

definition saved_list :: "string \<Rightarrow> api_state \<Rightarrow> response" where
  "saved_list kind s =
     Reply 200 (PObjects kind (if api_store_on s then list_saved kind (api_store s) else []))"

definition saved_put ::
  "nat \<Rightarrow> timestamp \<Rightarrow> auth_user \<Rightarrow> string \<Rightarrow> string \<Rightarrow> string option \<Rightarrow> edr_body \<Rightarrow> api_state \<Rightarrow> api_state \<times> response" where
  "saved_put status now u kind i name body s =
     guarded u Analyst s (stored s
       (let ob = \<lparr>so_kind = kind, so_id = i, so_name = opt_or [] name, so_owner = Some (au_name u),
                  so_updated = now, so_body = body\<rparr>
        in (set_store (put_saved ob (api_store s)) s, Reply status (PObject ob))))"

definition saved_create where
  "saved_create ulid now u kind name body s = saved_put 201 now u kind ulid name body s"

definition saved_update where
  "saved_update now u kind i name body s = saved_put 200 now u kind i name body s"

definition saved_delete :: "auth_user \<Rightarrow> string \<Rightarrow> string \<Rightarrow> api_state \<Rightarrow> api_state \<times> response" where
  "saved_delete u kind i s =
     guarded u Analyst s (stored s
       (case delete_saved kind i (api_store s) of
          (st, True) \<Rightarrow> (set_store st s, Reply 204 PNothing)
        | (st, False) \<Rightarrow> (set_store st s, not_found ''saved object not found'')))"

section \<open>The agent fleet\<close>

definition edr_agents :: "api_state \<Rightarrow> api_state \<times> response" where
  "edr_agents s = fleet s (s, Reply 200 (PAgents (registry_list (api_fleet s))))"

definition edr_agent :: "string \<Rightarrow> api_state \<Rightarrow> api_state \<times> response" where
  "edr_agent i s =
     fleet s (case registry_get i (api_fleet s) of
        Some a \<Rightarrow> (s, Reply 200 (PAgent a (list_commands 50 (Some i) (api_store s))))
      | None \<Rightarrow> (s, not_found ''agent not found''))"

definition edr_action ::
  "string \<Rightarrow> timestamp \<Rightarrow> auth_user \<Rightarrow> string \<Rightarrow> string \<Rightarrow> command_params \<Rightarrow> api_state \<Rightarrow> api_state \<times> response" where
  "edr_action ulid now u i action params s =
     guarded u Analyst s (fleet s
       (case registry_get i (api_fleet s) of
          None \<Rightarrow> (s, not_found ''agent not found'')
        | Some _ \<Rightarrow>
            (case enqueue now ulid i action params (au_name u) (api_fleet s) of
               Inr (e, r) \<Rightarrow> (s\<lparr>api_fleet := e\<rparr>, Reply 202 (PCommand r))
             | Inl (Config m) \<Rightarrow> (s, bad_request m)
             | Inl e \<Rightarrow> (s, error_response e))))"

definition edr_commands :: "string option \<Rightarrow> nat option \<Rightarrow> api_state \<Rightarrow> api_state \<times> response" where
  "edr_commands agent limit s =
     fleet s (s, Reply 200 (PCommands (list_commands (min (opt_or 100 limit) 1000) agent (api_store s))))"

definition edr_tokens :: "auth_user \<Rightarrow> api_state \<Rightarrow> api_state \<times> response" where
  "edr_tokens u s = guarded u Admin s (fleet s (s, Reply 200 (PTokens (token_list (api_store s)))))"

definition edr_token_create ::
  "string \<Rightarrow> timestamp \<Rightarrow> auth_user \<Rightarrow> string option \<Rightarrow> api_state \<Rightarrow> api_state \<times> response" where
  "edr_token_create fresh now u label s =
     guarded u Admin s (fleet s
       (let l = opt_or ''api'' label; (st, token) = token_issue now fresh l (Some (au_name u)) (api_store s)
        in (set_store st s, Reply 201 (PToken token l))))"

section \<open>The configuration file\<close>

datatype config_input = YamlInput string | Structured config

definition read_current_config :: "api_env \<Rightarrow> api_state \<Rightarrow> config" where
  "read_current_config E s =
     (case api_config_file s of
        Content t \<Rightarrow> (case config_parse (ae_codec E) t of Inr c \<Rightarrow> c | Inl _ \<Rightarrow> empty_config)
      | _ \<Rightarrow> empty_config)"

definition resolve_config_input :: "api_env \<Rightarrow> config_input \<Rightarrow> config \<Rightarrow> string + string" where
  "resolve_config_input E b current =
     (case b of
        YamlInput y \<Rightarrow> Inr (restore_yaml y current)
      | Structured c \<Rightarrow>
          (case cy_text (ae_codec E) (merge_secrets c current) of
             Inl e \<Rightarrow> Inl (''serialize config: '' @ e)
           | Inr y \<Rightarrow> Inr y))"

definition check_config :: "api_env \<Rightarrow> string \<Rightarrow> error + report" where
  "check_config E y =
     and_then (config_parse (ae_codec E) y) (\<lambda>c. Inr (validate (ae_yaml E) (ae_is_dir E) c))"

definition from_file :: "api_state \<Rightarrow> api_state \<times> response \<Rightarrow> api_state \<times> response" where
  "from_file s k = (if api_config_on s then k else (s, conflict ''this node was not started from a config file''))"

definition config_get :: "api_env \<Rightarrow> auth_user \<Rightarrow> api_state \<Rightarrow> api_state \<times> response" where
  "config_get E u s =
     guarded u Admin s (from_file s
       (case api_config_file s of
          NotFound \<Rightarrow> (s, error_response (Io ''read config: not found''))
        | Denied e \<Rightarrow> (s, error_response (Io (''read config: '' @ e)))
        | Content y \<Rightarrow>
            (case config_parse (ae_codec E) y of
               Inr c \<Rightarrow> (s, Reply 200 (PConfig (redact_yaml y c) (Some (redact_config c)) (validate (ae_yaml E) (ae_is_dir E) c)))
             | Inl e \<Rightarrow> (s, Reply 200 (PConfigError (error_display e))))))"

definition config_validate :: "api_env \<Rightarrow> auth_user \<Rightarrow> config_input \<Rightarrow> api_state \<Rightarrow> api_state \<times> response" where
  "config_validate E u b s =
     guarded u Admin s (from_file s
       (case resolve_config_input E b (read_current_config E s) of
          Inl e \<Rightarrow> (s, Reply 200 (PConfigError e))
        | Inr y \<Rightarrow>
            (case check_config E y of
               Inl e \<Rightarrow> (s, Reply 200 (PConfigError (error_display e)))
             | Inr r \<Rightarrow> (s, Reply 200 (PReport r)))))"

text \<open>
  Backup, write and reload, for a document that passed validation. A copy that fails is ignored, and
  so is a reload that does; a write that fails may leave the beginning of the document.
\<close>

fun overwrite :: "write_fault option \<Rightarrow> string \<Rightarrow> 'a \<Rightarrow> (string \<Rightarrow> 'a) \<Rightarrow> 'a \<times> string option" where
  "overwrite None text old file = (file text, None)"
| "overwrite (Some (NotWritten e)) text old file = (old, Some e)"
| "overwrite (Some (CutShort e n)) text old file = (file (take n text), Some e)"

definition copy_config :: "api_state \<Rightarrow> api_state" where
  "copy_config s =
     (case api_config_file s of
        Content old \<Rightarrow> s\<lparr>api_config_backup := fst (overwrite (api_copy_error s) old (api_config_backup s) Some)\<rparr>
      | _ \<Rightarrow> s)"

definition save_config :: "api_env \<Rightarrow> string \<Rightarrow> report \<Rightarrow> api_state \<Rightarrow> api_state \<times> response" where
  "save_config E y r s =
     (let (file, failed) = overwrite (api_config_error s) y (api_config_file s) Content;
          s2 = (copy_config s)\<lparr>api_config_file := file\<rparr>
      in case failed of
           Some e \<Rightarrow> (s2, error_response (Io (''write config: '' @ e)))
         | None \<Rightarrow>
             (case reload_engine E s2 of
                Inl _ \<Rightarrow> (s2, Reply 200 (PSaved r None))
              | Inr (s3, n) \<Rightarrow> (s3, Reply 200 (PSaved r (Some n)))))"

definition config_put :: "api_env \<Rightarrow> auth_user \<Rightarrow> config_input \<Rightarrow> api_state \<Rightarrow> api_state \<times> response" where
  "config_put E u b s =
     guarded u Admin s (from_file s
       (case resolve_config_input E b (read_current_config E s) of
          Inl e \<Rightarrow> (s, Reply 200 (PConfigError e))
        | Inr y \<Rightarrow>
            (case check_config E y of
               Inl e \<Rightarrow> (s, Reply 200 (PConfigError (error_display e)))
             | Inr r \<Rightarrow> if report_ok r then save_config E y r s else (s, Reply 200 (PReport r)))))"

section \<open>The router\<close>

datatype api_request =
    ListAlerts "string option" "nat option"
  | PatchAlert string patch_body
  | BulkPatch "string list" patch_body
  | ListRules
  | RuleCreate string
  | RuleUpdate string string
  | RuleDelete string
  | RuleTest string "string option" "rule_case list"
  | SavedList string
  | SavedCreate string "string option" edr_body
  | SavedUpdate string string "string option" edr_body
  | SavedDelete string string
  | Agents
  | Agent string
  | Action string string command_params
  | Commands "string option" "nat option"
  | Tokens
  | TokenCreate "string option"
  | ConfigGet
  | ConfigValidate config_input
  | ConfigPut config_input

fun handle :: "api_env \<Rightarrow> string \<Rightarrow> timestamp \<Rightarrow> auth_user \<Rightarrow> api_request \<Rightarrow> api_state \<Rightarrow> api_state \<times> response" where
  "handle E ulid now u (ListAlerts t l) s = (s, alerts_handler E now t l s)"
| "handle E ulid now u (PatchAlert fp b) s = alert_patch_handler now u fp b s"
| "handle E ulid now u (BulkPatch fps b) s = alerts_bulk_patch now u fps b s"
| "handle E ulid now u ListRules s = (s, Reply 200 (PRules (rule_infos (api_engine s))))"
| "handle E ulid now u (RuleCreate y) s = rule_create E u y s"
| "handle E ulid now u (RuleUpdate i y) s = rule_update E u i y s"
| "handle E ulid now u (RuleDelete i) s = rule_delete E u i s"
| "handle E ulid now u (RuleTest i y cs) s = rule_test E ulid now u i y cs s"
| "handle E ulid now u (SavedList k) s = (s, saved_list k s)"
| "handle E ulid now u (SavedCreate k n b) s = saved_create ulid now u k n b s"
| "handle E ulid now u (SavedUpdate k i n b) s = saved_update now u k i n b s"
| "handle E ulid now u (SavedDelete k i) s = saved_delete u k i s"
| "handle E ulid now u Agents s = edr_agents s"
| "handle E ulid now u (Agent i) s = edr_agent i s"
| "handle E ulid now u (Action i a p) s = edr_action ulid now u i a p s"
| "handle E ulid now u (Commands a l) s = edr_commands a l s"
| "handle E ulid now u Tokens s = edr_tokens u s"
| "handle E ulid now u (TokenCreate l) s = edr_token_create ulid now u l s"
| "handle E ulid now u ConfigGet s = config_get E u s"
| "handle E ulid now u (ConfigValidate b) s = config_validate E u b s"
| "handle E ulid now u (ConfigPut b) s = config_put E u b s"

definition serve ::
  "api_env \<Rightarrow> string \<Rightarrow> timestamp \<Rightarrow> nat \<Rightarrow> request \<Rightarrow> api_request \<Rightarrow> api_state \<Rightarrow> api_state \<times> response" where
  "serve E ulid now secs http rq s =
     (case require_auth (ae_auth E) (api_auth s) secs http of
        Inl _ \<Rightarrow> (s, Reply 401 (PError ''unauthorized''))
      | Inr u \<Rightarrow> handle E ulid now u rq s)"

section \<open>Roles guard every change\<close>

lemma guarded_denied [simp]: "\<not> has u role \<Longrightarrow> fst (guarded u role s k) = s"
  by (simp add: guarded_def require_role_def)

lemma guarded_allowed [simp]: "has u role \<Longrightarrow> guarded u role s k = k"
  by (simp add: guarded_def require_role_def)

lemma has_mono: "has u Admin \<Longrightarrow> has u r"
  by (cases r) (force simp: has_def list_ex_iff less_eq_access_role_def)+

fun required :: "api_request \<Rightarrow> access_role" where
  "required (TokenCreate _) = Admin"
| "required (ConfigPut _) = Admin"
| "required _ = Analyst"

lemmas handler_defs =
  alert_patch_handler_def alerts_bulk_patch_def rule_create_def rule_update_def rule_delete_def rule_test_def
  saved_create_def saved_update_def saved_put_def saved_delete_def edr_agents_def edr_agent_def edr_action_def
  edr_commands_def edr_token_create_def config_put_def
  fleet_def from_file_def stored_def

lemma rule_test_reads: "fst (rule_test E ulid now u i y cs s) = s"
  by (cases "has u Analyst") (auto simp: rule_test_def Let_def split: sum.splits option.splits)

lemma config_reads: "fst (config_get E u s) = s" "fst (config_validate E u b s) = s"
  by (cases "has u Admin"; auto simp: config_get_def config_validate_def from_file_def split: file_view.splits sum.splits)+

lemma tokens_reads: "fst (edr_tokens u s) = s"
  by (cases "has u Admin") (auto simp: edr_tokens_def fleet_def)

lemma denied_unchanged:
  assumes "\<not> has u (required rq)"
  shows "fst (handle E ulid now u rq s) = s"
  using assms
  by (cases rq) (auto simp: handler_defs rule_test_reads config_reads tokens_reads split: option.splits)

text \<open>
  C3: Whatever a request changes, in the store, the agent fleet, the rules, the engine or the
  configuration file, it changes on behalf of an authenticated user with the role the route asks
  for: an administrator for enrollment tokens and the configuration, an analyst for the rest.
\<close>

theorem mutations_need_role:
  assumes "fst (serve E ulid now secs http rq s) \<noteq> s"
  shows "\<exists>u. require_auth (ae_auth E) (api_auth s) secs http = Inr u \<and> has u (required rq)"
  using assms denied_unchanged by (fastforce simp: serve_def split: sum.splits)

text \<open>A small environment and state: every document is the one rule of the example, all users are the system.\<close>

definition demo_api :: api_env where
  "demo_api = \<lparr>ae_sigma = demo_env, ae_doc = (\<lambda>t. Inr demo_rule), ae_corr = (\<lambda>t. False),
     ae_auth = \<lparr>verify_phc = (\<lambda>_ _. False), jwt_encode = (\<lambda>_ _. None), jwt_decode = (\<lambda>_ _ _. None)\<rparr>,
     ae_hash = (\<lambda>_ _ _. 0), ae_codec = demo_codec, ae_yaml = (\<lambda>_. None), ae_is_dir = (\<lambda>_. False)\<rparr>"

definition demo_state :: api_state where
  "demo_state = \<lparr>api_auth = \<lparr>as_enabled = False, as_secret = [], as_ttl = 0, as_users = []\<rparr>, api_ring = ring_new 1,
     api_fleet = \<lparr>ed_store = store_open, ed_live = [], ed_sessions = [], ed_next = 0\<rparr>, api_store_on = True, api_edr_on = True,
     api_engine = \<lparr>en_rules = []\<rparr>, api_rules = Some [(''old.yml'', ''v1'')], api_dir_error = None, api_rules_error = None,
     api_scan_error = None, api_config_on = True, api_config_file = Content ''c'', api_config_backup = None,
     api_copy_error = None, api_config_error = None\<rparr>"

theorem mutations_need_role_witness:
  "fst (serve demo_api ''t'' 0 0 \<lparr>rq_authorization = None, rq_query = None\<rparr> (TokenCreate None) demo_state) \<noteq> demo_state \<and>
   has system_user Admin"
proof -
  let ?q = "\<lparr>rq_authorization = None, rq_query = None\<rparr>"
  have sys: "require_auth (ae_auth demo_api) (api_auth demo_state) 0 ?q = Inr system_user"
    by (simp add: require_auth_def demo_state_def)
  have adm: "has system_user Admin" by (simp add: has_def system_user_def)
  have "fst (serve demo_api ''t'' 0 0 ?q (TokenCreate None) demo_state) \<noteq> demo_state"
    using adm unfolding serve_def sys
    by (simp add: edr_token_create_def fleet_def demo_state_def token_issue_def token_write_def
        put_saved_def set_store_def store_open_def opt_or_def Let_def)
  with mutations_need_role [OF this] sys show ?thesis by simp
qed

section \<open>Saved objects reach behind the token routes\<close>

text \<open>
  C39: The administrator's guard on enrollment tokens can be walked around: tokens are saved objects of
  the kind \<open>edr-token\<close>, and the saved-object routes accept any kind. An analyst who puts any object
  of that kind enrolls agents with its id as the token, and every user who lists that kind reads
  all tokens in full.
\<close>

theorem saved_routes_bypass_admin:
  assumes "has u Analyst" and "api_store_on s" and "t \<noteq> []"
  shows "token_valid t (api_store (fst (saved_update now u token_kind t name body s))) \<and>
    (\<forall>t'. token_valid t' (api_store s) \<longrightarrow>
       (\<exists>obs ob. saved_list token_kind s = Reply 200 (PObjects token_kind obs) \<and> ob \<in> set obs \<and>
          get_saved token_kind t' (api_store s) = Some ob))"
proof -
  have "token_valid t (api_store (fst (saved_update now u token_kind t name body s)))"
    using assms by (simp add: saved_update_def saved_put_def stored_def set_store_def token_valid_def saved.get_put
        legal_kind_def sep_def Let_def)
  moreover have "ob \<in> set (list_saved token_kind st)" if "get_saved token_kind t' st = Some ob" for t' st and ob :: "edr_body saved_object"
    using that by (force simp: get_saved_def list_saved_def saved_key_def prefix_def dest: map_of_SomeD)
  ultimately show ?thesis
    using assms(2) by (auto simp: token_valid_def saved_list_def)
qed

theorem saved_routes_bypass_admin_witness:
  "token_valid ''mine'' (api_store (fst (saved_update 0 \<lparr>au_name = ''eve'', au_roles = [Analyst]\<rparr> token_kind ''mine'' None
     (OtherBody JNull) demo_state)))"
  using saved_routes_bypass_admin [of "\<lparr>au_name = ''eve'', au_roles = [Analyst]\<rparr>" demo_state "''mine''"]
  by (simp add: has_def demo_state_def)

section \<open>Rules\<close>

lemma load_rules_mem:
  "r \<in> set (fst (load_rules E doc corr files)) \<longleftrightarrow>
     (\<exists>p t. (p, t) \<in> set files \<and> \<not> corr t \<and> and_then (doc t) (from_rule E) = Inr r)"
proof (induction files)
  case (Cons f files)
  obtain p t where "f = (p, t)" by (cases f)
  with Cons show ?case by (cases "and_then (doc t) (from_rule E)") (auto simp: Let_def split: prod.splits)
qed simp

lemma load_dirI:
  "(p, t) \<in> set files \<Longrightarrow> has_yaml_ext p \<Longrightarrow> \<not> ae_corr E t \<Longrightarrow> compile_text E t = Inr r \<Longrightarrow>
   r \<in> set (en_rules (load_dir E files))"
  by (auto simp: load_dir_def load_rules_mem compile_text_def)

lemma sanitize_safe: "CHR ''/'' \<notin> set (sanitize i)" "CHR ''.'' \<notin> set (sanitize i)"
  by (auto simp: sanitize_def is_alnum_def)

lemma rule_path_ext: "i \<noteq> [] \<Longrightarrow> has_yaml_ext (rule_path i)"
proof -
  assume "i \<noteq> []"
  then have ne: "sanitize i \<noteq> []" by (simp add: sanitize_def)
  then have "last (sanitize i) \<noteq> CHR ''/''" using sanitize_safe(1) [of i] last_in_set by metis
  with ne show ?thesis unfolding has_yaml_ext_def rule_path_def by (intro bexI [of _ "sanitize i"]) auto
qed

lemma hash_insert_mem: "(k, v) \<in> set (hash_insert k v m)" "(k', v') \<in> set m \<Longrightarrow> k' \<noteq> k \<Longrightarrow> (k', v') \<in> set (hash_insert k v m)"
  by (induction m) auto

lemma write_reload:
  assumes "write_rule_file i text s = Inr s1" and "api_scan_error s = None"
  obtains files where "api_rules s = Some files" "s1 = s\<lparr>api_rules := Some (hash_insert (rule_path i) text files)\<rparr>"
    "reload_reply E st j s1 = (s1\<lparr>api_engine := load_dir E (hash_insert (rule_path i) text files)\<rparr>,
       Reply st (PRule j (length (en_rules (load_dir E (hash_insert (rule_path i) text files))))))"
  using assms by (auto simp: write_rule_file_def reload_reply_def reload_engine_def Let_def split: option.splits)

text \<open>
  A created rule is live: when the reply is 201 the engine holds the rule compiled from the
  document, the document is stored under a name that cannot leave the directory, and every file
  under another name is as before; any other reply leaves the state as it was, except that the file
  stays when only the directory could not be read again.
\<close>

theorem rule_create_live:
  assumes "compile_text E text = Inr r" and "\<not> ae_corr E text" and "cr_rule_id r \<noteq> []"
    and "rule_create E u text s = (s', Reply status p)"
  shows "(if status = 201
      then r \<in> set (en_rules (api_engine s')) \<and>
        (\<exists>files files'. api_rules s = Some files \<and> api_rules s' = Some files' \<and>
          map_of files' = (map_of files)(rule_path (cr_rule_id r) \<mapsto> text)) \<and>
        CHR ''/'' \<notin> set (rule_path (cr_rule_id r))
      else s' = s \<or> api_scan_error s \<noteq> None \<and> s' = s\<lparr>api_rules := api_rules s'\<rparr>)"
proof (cases "has u Analyst \<and> api_scan_error s = None")
  case False
  then show ?thesis
    using assms by (cases "has u Analyst") (auto simp: rule_create_def guarded_def require_role_def write_rule_file_def
        reload_reply_def reload_engine_def error_response_def conflict_def split: option.splits)
next
  case True
  then have scan: "api_scan_error s = None" and True: "has u Analyst" by auto
  show ?thesis
  proof (cases "write_rule_file (cr_rule_id r) text s")
    case (Inl a)
    then have "a \<noteq> Reply 201 x" for x
      by (auto simp: write_rule_file_def conflict_def split: option.splits)
    with Inl assms True show ?thesis by (auto simp: rule_create_def)
  next
    case (Inr s1)
    from write_reload [OF Inr scan, of E 201 "cr_rule_id r"] obtain files where f: "api_rules s = Some files"
      "s1 = s\<lparr>api_rules := Some (hash_insert (rule_path (cr_rule_id r)) text files)\<rparr>"
      "reload_reply E 201 (cr_rule_id r) s1 =
         (s1\<lparr>api_engine := load_dir E (hash_insert (rule_path (cr_rule_id r)) text files)\<rparr>,
          Reply 201 (PRule (cr_rule_id r) (length (en_rules (load_dir E (hash_insert (rule_path (cr_rule_id r)) text files))))))"
      by blast
    with Inr assms True have s': "s' = s1\<lparr>api_engine := load_dir E (hash_insert (rule_path (cr_rule_id r)) text files)\<rparr>" "status = 201"
      by (auto simp: rule_create_def)
    have "r \<in> set (en_rules (load_dir E (hash_insert (rule_path (cr_rule_id r)) text files)))"
      by (rule load_dirI [OF hash_insert_mem(1) rule_path_ext [OF assms(3)] assms(2,1)])
    with f s' sanitize_safe(1) [of "cr_rule_id r"] show ?thesis by (auto simp: map_of_hash_insert rule_path_def)
  qed
qed

lemma demo_compile_text [simp]: "compile_text demo_api t = Inr demo_compiled" "ae_corr demo_api t = False"
  by (simp_all add: compile_text_def demo_api_def demo_compiles)

lemma write_reload_ok:
  "write_rule_file i text s = Inr s1 \<Longrightarrow> api_scan_error s = None \<Longrightarrow> \<exists>s' p. reload_reply E st j s1 = (s', Reply st p)"
  by (auto simp: write_rule_file_def reload_reply_def reload_engine_def Let_def split: option.splits)

theorem rule_create_live_witness:
  "demo_compiled \<in> set (en_rules (api_engine (fst (rule_create demo_api system_user ''doc'' demo_state))))"
proof -
  have adm: "has system_user Analyst" by (simp add: has_def system_user_def less_eq_access_role_def)
  obtain s1 where s1: "write_rule_file (cr_rule_id demo_compiled) ''doc'' demo_state = Inr s1"
    by (simp add: write_rule_file_def demo_state_def)
  obtain s' p where "rule_create demo_api system_user ''doc'' demo_state = (s', Reply 201 p)"
    using write_reload_ok [OF s1, of demo_api 201 "cr_rule_id demo_compiled"] s1 adm
    by (auto simp: rule_create_def) (auto simp: demo_state_def)
  from rule_create_live [OF demo_compile_text(1) _ _ this] this show ?thesis by (simp add: demo_compiled_def)
qed

text \<open>
  Updating a rule does not replace a rule that came from a file of another name, as the rules
  shipped with the system do: the new document goes to a file named after the id, and the old
  version stays loaded beside it.
\<close>

theorem rule_update_keeps_old:
  assumes "api_rules s = Some files" and "(p, old) \<in> set files" and "has_yaml_ext p" and "p \<noteq> rule_path i"
    and "compile_text E old = Inr r" and "\<not> ae_corr E old"
    and "rule_update E u i text s = (s', Reply 200 payload)"
  shows "r \<in> set (en_rules (api_engine s'))"
proof -
  have u: "has u Analyst" using assms(7) by (cases "has u Analyst") (auto simp: rule_update_def guarded_def require_role_def)
  then obtain c s1 where c: "compile_text E text = Inr c" "write_rule_file i text s = Inr s1"
    using assms(7) by (auto simp: rule_update_def bad_request_def write_rule_file_def conflict_def
        split: sum.splits option.splits)
  have scan: "api_scan_error s = None"
    using assms(7) u c by (auto simp: rule_update_def write_rule_file_def reload_reply_def reload_engine_def error_response_def
        split: option.splits)
  from write_reload [OF c(2) scan, of E 200 i] obtain fs where f: "api_rules s = Some fs"
      "reload_reply E 200 i s1 = (s1\<lparr>api_engine := load_dir E (hash_insert (rule_path i) text fs)\<rparr>,
         Reply 200 (PRule i (length (en_rules (load_dir E (hash_insert (rule_path i) text fs))))))"
    by blast
  from f(1) assms(1) have "fs = files" by simp
  with f(2) have "fst (reload_reply E 200 i s1) = s1\<lparr>api_engine := load_dir E (hash_insert (rule_path i) text files)\<rparr>" by simp
  with u c assms(7) have "s' = s1\<lparr>api_engine := load_dir E (hash_insert (rule_path i) text files)\<rparr>"
    by (auto simp: rule_update_def)
  moreover have "r \<in> set (en_rules (load_dir E (hash_insert (rule_path i) text files)))"
    by (rule load_dirI [OF hash_insert_mem(2) [OF assms(2,4)] assms(3,6,5)])
  ultimately show ?thesis by simp
qed

theorem rule_update_keeps_old_witness:
  "demo_compiled \<in> set (en_rules (api_engine (fst (rule_update demo_api system_user ''r1'' ''v2'' demo_state))))"
proof -
  have adm: "has system_user Analyst" by (simp add: has_def system_user_def less_eq_access_role_def)
  obtain s1 where s1: "write_rule_file ''r1'' ''v2'' demo_state = Inr s1"
    by (simp add: write_rule_file_def demo_state_def)
  obtain s' p where u: "rule_update demo_api system_user ''r1'' ''v2'' demo_state = (s', Reply 200 p)"
    using write_reload_ok [OF s1, of demo_api 200 "''r1''"] s1 adm
    by (auto simp: rule_update_def) (auto simp: demo_state_def)
  have "has_yaml_ext ''old.yml''" unfolding has_yaml_ext_def by (rule bexI [of _ "''old''"]) auto
  then show ?thesis
    using rule_update_keeps_old [OF _ _ _ _ demo_compile_text(1) _ u, of "[(''old.yml'', ''v1'')]" "''old.yml''" "''v1''"] u
    by (simp add: demo_state_def rule_path_def sanitize_def is_alnum_def)
qed

section \<open>Configuration\<close>

lemma overwrite_some: "fst (overwrite (Some f) text old file) \<in> insert old (range (\<lambda>n. file (take n text)))"
  by (cases f) auto

lemma copy_config_backup:
  "copy_config s = s\<lparr>api_config_backup := api_config_backup (copy_config s)\<rparr>"
  "case (api_config_file s, api_copy_error s) of
     (Content old, None) \<Rightarrow> api_config_backup (copy_config s) = Some old
   | (Content old, Some _) \<Rightarrow> api_config_backup (copy_config s) \<in> insert (api_config_backup s) (range (\<lambda>n. Some (take n old)))
   | _ \<Rightarrow> api_config_backup (copy_config s) = api_config_backup s"
proof -
  show "copy_config s = s\<lparr>api_config_backup := api_config_backup (copy_config s)\<rparr>"
    by (simp add: copy_config_def split: file_view.split)
  show "case (api_config_file s, api_copy_error s) of
     (Content old, None) \<Rightarrow> api_config_backup (copy_config s) = Some old
   | (Content old, Some _) \<Rightarrow> api_config_backup (copy_config s) \<in> insert (api_config_backup s) (range (\<lambda>n. Some (take n old)))
   | _ \<Rightarrow> api_config_backup (copy_config s) = api_config_backup s"
  proof (cases "api_config_file s")
    case (Content old)
    then show ?thesis
      using overwrite_some [of _ old "api_config_backup s" Some]
      by (cases "api_copy_error s") (simp_all add: copy_config_def)
  qed (simp_all add: copy_config_def)
qed

text \<open>
  C30: What saving the configuration does, in every case: unless an administrator submits a document that
  resolves, parses and validates, nothing changes; otherwise the file is exactly that document and the
  reply says so, or, if the write fails, the reply is an error and the file is as before or holds the
  beginning of the document. If copying works the backup is the previous text; if it does not, the
  new text is written all the same. The engine is as before or reloaded from the rules directory.
\<close>

theorem config_put_safe:
  "case config_put E u b s of (s', r) \<Rightarrow>
     (if has u Admin \<and> api_config_on s \<and>
         (\<exists>y c. resolve_config_input E b (read_current_config E s) = Inr y \<and> config_parse (ae_codec E) y = Inr c \<and>
            report_ok (validate (ae_yaml E) (ae_is_dir E) c))
      then \<exists>y. resolve_config_input E b (read_current_config E s) = Inr y \<and>
        (case api_config_error s of
           None \<Rightarrow> api_config_file s' = Content y \<and> (\<exists>rep n. r = Reply 200 (PSaved rep n))
         | Some _ \<Rightarrow> api_config_file s' \<in> insert (api_config_file s) (range (\<lambda>n. Content (take n y))) \<and>
             (\<exists>m. r = Reply 500 (PError m)) \<and> api_engine s' = api_engine s) \<and>
        (case (api_config_file s, api_copy_error s) of
           (Content old, None) \<Rightarrow> api_config_backup s' = Some old
         | (Content old, Some _) \<Rightarrow> api_config_backup s' \<in> insert (api_config_backup s) (range (\<lambda>n. Some (take n old)))
         | _ \<Rightarrow> api_config_backup s' = api_config_backup s) \<and>
        s' = s\<lparr>api_config_file := api_config_file s', api_config_backup := api_config_backup s', api_engine := api_engine s'\<rparr> \<and>
        api_engine s' \<in> insert (api_engine s) (load_dir E ` set_option (api_rules s))
      else s' = s)"
proof (cases "has u Admin \<and> api_config_on s \<and>
    (\<exists>y c. resolve_config_input E b (read_current_config E s) = Inr y \<and> config_parse (ae_codec E) y = Inr c \<and>
       report_ok (validate (ae_yaml E) (ae_is_dir E) c))")
  case False
  obtain s' r where p: "config_put E u b s = (s', r)" by fastforce
  from False have "fst (config_put E u b s) = s"
    by (cases "has u Admin") (auto simp: config_put_def from_file_def check_config_def and_then_Inr_iff split: sum.splits)
  then show ?thesis unfolding p prod.case if_not_P [OF False] by simp
next
  case True
  then obtain y c where y: "resolve_config_input E b (read_current_config E s) = Inr y" "config_parse (ae_codec E) y = Inr c"
    "report_ok (validate (ae_yaml E) (ae_is_dir E) c)" by blast
  with True have put: "config_put E u b s = save_config E y (validate (ae_yaml E) (ae_is_dir E) c) s"
    by (simp add: config_put_def from_file_def check_config_def)
  obtain s' r where save: "save_config E y (validate (ae_yaml E) (ae_is_dir E) c) s = (s', r)" by fastforce
  define s1 where "s1 = copy_config s"
  obtain bk where bk: "s1 = s\<lparr>api_config_backup := bk\<rparr>" using copy_config_backup(1) s1_def by blast
  have out: "(case api_config_error s of
      None \<Rightarrow> api_config_file s' = Content y \<and> (\<exists>rep n. r = Reply 200 (PSaved rep n))
    | Some _ \<Rightarrow> api_config_file s' \<in> insert (api_config_file s) (range (\<lambda>n. Content (take n y))) \<and>
        (\<exists>m. r = Reply 500 (PError m)) \<and> api_engine s' = api_engine s) \<and>
    api_config_backup s' = api_config_backup s1 \<and>
    s' = s\<lparr>api_config_file := api_config_file s', api_config_backup := api_config_backup s', api_engine := api_engine s'\<rparr> \<and>
    api_engine s' \<in> insert (api_engine s) (load_dir E ` set_option (api_rules s))"
  proof (cases "api_config_error s")
    case None
    then show ?thesis using save unfolding save_config_def s1_def [symmetric] bk
      by (auto simp: reload_engine_def Let_def split: option.splits)
  next
    case (Some f)
    then show ?thesis using save unfolding save_config_def s1_def [symmetric] bk
      by (cases f) (auto simp: error_response_def Let_def)
  qed
  then have eq: "api_config_backup s' = api_config_backup s1" by blast
  have kept: "case (api_config_file s, api_copy_error s) of
       (Content old, None) \<Rightarrow> api_config_backup s' = Some old
     | (Content old, Some _) \<Rightarrow> api_config_backup s' \<in> insert (api_config_backup s) (range (\<lambda>n. Some (take n old)))
     | _ \<Rightarrow> api_config_backup s' = api_config_backup s" unfolding eq s1_def by (rule copy_config_backup(2))
  show ?thesis unfolding put save prod.case if_P [OF True] using y(1) out kept by blast
qed

end
