(* ===== verification/Node_Pipeline.thy ===== *)
theory Node_Pipeline
  imports Ingest_Codec Ingest_Tail Ingest_Template Normalize Enrich Detect Sigma_Engine Sigma_Correlation
    Index_Segments Api_Alerts Cluster_Topology Config_File
begin

text \<open>
  The pipeline of a node, \<open>crates/sigil-cli/src/run.rs\<close>: frames are decoded, normalized, enriched,
  given a template, run through detection and indexed into both tiers. The loop of \<open>run\<close> is a step
  function per branch of its \<open>select!\<close>. The hot index is Tantivy's: a document is searchable after
  the commit that follows its addition; its documents and the search are in \<open>Index_Search\<close>. Every reading of
  the clock that names a segment is a separate one, \<open>pe_clock\<close>; fresh ULIDs are \<open>pe_ulid\<close>.
\<close>

section \<open>Environment and state\<close>

record event_index =
  ei_docs :: "event list"
  ei_writer :: "event list"

definition index_open :: event_index where
  "index_open = \<lparr>ei_docs = [], ei_writer = []\<rparr>"

definition index_add :: "event \<Rightarrow> event_index \<Rightarrow> event_index" where
  "index_add ev x = x\<lparr>ei_writer := ei_writer x @ [ev]\<rparr>"

definition index_commit :: "event_index \<Rightarrow> event_index" where
  "index_commit x = \<lparr>ei_docs = ei_docs x @ ei_writer x, ei_writer = []\<rparr>"

definition index_events :: "event list \<Rightarrow> event_index \<Rightarrow> event_index" where
  "index_events evs x = (if evs = [] then x else index_commit (fold index_add evs x))"

definition index_count :: "event_index \<Rightarrow> nat" where
  "index_count x = length (ei_docs x)"

record ('f, 'g) pipeline_env =
  pe_parse_json :: json_parser
  pe_display :: json_display
  pe_tenant :: string
  pe_sigma :: sigma_env
  pe_enrich :: "'f enrich_env"
  pe_detect :: "'f f64_env"
  pe_f32 :: "'g f32_ops"
  pe_json :: json_text
  pe_hash :: alert_hasher
  pe_ulid :: "nat \<Rightarrow> string"
  pe_clock :: "nat \<Rightarrow> timestamp"
  pe_chain :: "'f enrich_chain"
  pe_detectors :: "'f detector list"
  pe_sigma_active :: bool
  pe_retention :: "int option"
  pe_warm :: "int option"

record raw_frame =
  fr_codec :: string
  fr_index :: bool
  fr_sigma :: bool
  fr_bytes :: string

record ('g, 'b) node =
  nd_codecs :: "(string \<times> codec) list"
  nd_miner :: "'g template_miner"
  nd_engine :: sigma_engine
  nd_corr :: correlation_engine
  nd_alerts :: "'b store option \<times> alert_ring"
  nd_emitted :: "alert list"
  nd_index :: event_index
  nd_dirty :: nat
  nd_buffer :: "event list"
  nd_cold :: columnar_store
  nd_fresh :: nat
  nd_readings :: nat

definition roll_max :: nat where
  "roll_max = 2000"

section \<open>One event\<close>

definition codec_get :: "string \<Rightarrow> (string \<times> codec) list \<Rightarrow> (string \<times> codec) list \<times> codec" where
  "codec_get kind m =
     (case map_of m kind of
        Some c \<Rightarrow> (m, c)
      | None \<Rightarrow> (hash_insert kind (build_codec kind) m, build_codec kind))"

definition normalize_from ::
  "('f::linorder, 'g) pipeline_env \<Rightarrow> timestamp \<Rightarrow> nat \<Rightarrow> raw_record list \<Rightarrow> event list" where
  "normalize_from E now n rs =
     map (\<lambda>(i, r). chain_apply (pe_enrich E) (pe_chain E) (normalize (pe_display E) (pe_ulid E i) now (pe_tenant E) r))
       (enumerate n rs)"

definition decode_normalize ::
  "('f::linorder, 'g) pipeline_env \<Rightarrow> timestamp \<Rightarrow> raw_frame \<Rightarrow> ('g, 'b) node \<Rightarrow> (('g, 'b) node \<times> event list) result" where
  "decode_normalize E now fr nd =
     (let (m, c) = codec_get (fr_codec fr) (nd_codecs nd)
      in and_then (decode (pe_parse_json E) c (fr_bytes fr)) (\<lambda>rs.
           Inr (nd\<lparr>nd_codecs := m, nd_fresh := nd_fresh nd + length rs\<rparr>, normalize_from E now (nd_fresh nd) rs)))"

definition roll :: "('f, 'g) pipeline_env \<Rightarrow> ('g, 'b) node \<Rightarrow> ('g, 'b) node" where
  "roll E nd =
     (if nd_buffer nd = [] then nd
      else nd\<lparr>nd_cold := fst (write_segment (pe_json E) (pe_clock E (nd_readings nd)) (nd_buffer nd) (nd_cold nd)),
              nd_buffer := [], nd_readings := Suc (nd_readings nd)\<rparr>)"

text \<open>The alerts of one event: base alerts no correlation suppresses, correlations fired, custom detectors.\<close>

definition detect_alerts ::
  "('f, 'g) pipeline_env \<Rightarrow> timestamp \<Rightarrow> event \<Rightarrow> ('g, 'b) node \<Rightarrow> correlation_engine \<times> alert list" where
  "detect_alerts E now ev nd =
     (let base = engine_eval (pe_sigma E) now (nd_engine nd) ev;
          (corr, fired) = process (pe_sigma E) now (nd_corr nd) ev base
      in (corr, filter (\<lambda>a. \<not> suppressed corr (al_rule_id a)) base @ fired @
            detector_chain_eval (pe_detect E) (pe_detectors E) ev))"

definition detect :: "('f, 'g) pipeline_env \<Rightarrow> timestamp \<Rightarrow> event \<Rightarrow> ('g, 'b) node \<Rightarrow> ('g, 'b) node" where
  "detect E now ev nd =
     (let (corr, alerts) = detect_alerts E now ev nd
      in nd\<lparr>nd_corr := corr, nd_alerts := push_all (pe_hash E) now alerts (nd_alerts nd),
            nd_emitted := nd_emitted nd @ alerts\<rparr>)"

definition index_event :: "('f, 'g) pipeline_env \<Rightarrow> event \<Rightarrow> ('g, 'b) node \<Rightarrow> ('g, 'b) node" where
  "index_event E ev nd =
     (let nd' = nd\<lparr>nd_index := index_add ev (nd_index nd), nd_dirty := Suc (nd_dirty nd), nd_buffer := nd_buffer nd @ [ev]\<rparr>
      in if roll_max \<le> length (nd_buffer nd') then roll E nd' else nd')"

definition with_template :: "('f, 'g::linorder) pipeline_env \<Rightarrow> event \<Rightarrow> ('g, 'b) node \<Rightarrow> ('g, 'b) node \<times> event" where
  "with_template E ev nd =
     (let (m, x) = mine (pe_f32 E) (ev_message ev) (nd_miner nd)
      in (nd\<lparr>nd_miner := m\<rparr>, ev\<lparr>ev_template_id := Some (mn_template_id x)\<rparr>))"

definition process_event ::
  "('f, 'g::linorder) pipeline_env \<Rightarrow> timestamp \<Rightarrow> bool \<Rightarrow> bool \<Rightarrow> event \<Rightarrow> ('g, 'b) node \<Rightarrow> ('g, 'b) node" where
  "process_event E now sigma index ev nd =
     (let (nd1, ev') = with_template E ev nd;
          nd2 = (if sigma then detect E now ev' nd1 else nd1)
      in if index then index_event E ev' nd2 else nd2)"

section \<open>The branches of the loop\<close>

definition on_frame ::
  "('f::linorder, 'g::linorder) pipeline_env \<Rightarrow> timestamp \<Rightarrow> raw_frame \<Rightarrow> ('g, 'b) node \<Rightarrow> ('g, 'b) node result" where
  "on_frame E now fr nd =
     and_then (decode_normalize E now fr nd) (\<lambda>(nd', evs).
       Inr (fold (process_event E now (fr_sigma fr) (fr_index fr)) evs nd'))"

definition on_agent_event :: "('f, 'g::linorder) pipeline_env \<Rightarrow> timestamp \<Rightarrow> event \<Rightarrow> ('g, 'b) node \<Rightarrow> ('g, 'b) node" where
  "on_agent_event E now ev nd = process_event E now (pe_sigma_active E) True ev nd"

definition on_commit :: "('g, 'b) node \<Rightarrow> ('g, 'b) node" where
  "on_commit nd = (if 0 < nd_dirty nd then nd\<lparr>nd_index := index_commit (nd_index nd), nd_dirty := 0\<rparr> else nd)"

definition on_rollover :: "('f, 'g) pipeline_env \<Rightarrow> ('g, 'b) node \<Rightarrow> ('g, 'b) node" where
  "on_rollover E nd = roll E nd"

text \<open>Retention, then migration, when no step of the retention fails.\<close>

definition age_store :: "int option \<Rightarrow> int option \<Rightarrow> (string \<Rightarrow> bool) \<Rightarrow> timestamp \<Rightarrow> columnar_store \<Rightarrow> columnar_store" where
  "age_store retention warm put_ok now c =
     (let c1 = (case retention of Some age \<Rightarrow> fst (enforce_retention now age c) | None \<Rightarrow> c)
      in case warm of Some age \<Rightarrow> fst (migrate_warm put_ok now age c1) | None \<Rightarrow> c1)"

text \<open>
  The retention tick: \<open>refuse\<close> and \<open>save\<close> are the errors of the archive and the catalog, which leave the
  loop; a migration that fails is only a warning.
\<close>

definition on_retention ::
  "('f, 'g) pipeline_env \<Rightarrow> (string \<Rightarrow> error option) \<Rightarrow> error option \<Rightarrow> (string \<Rightarrow> bool) \<Rightarrow> timestamp \<Rightarrow>
     ('g, 'b) node \<Rightarrow> ('g, 'b) node result" where
  "on_retention E refuse save put_ok now nd =
     (let (c1, r) = (case pe_retention E of
           Some age \<Rightarrow> retention_run refuse save now age (nd_cold nd)
         | None \<Rightarrow> (nd_cold nd, Inr 0))
      in and_then r (\<lambda>_.
           Inr (nd\<lparr>nd_cold := (case pe_warm E of Some age \<Rightarrow> fst (migrate_warm put_ok now age c1) | None \<Rightarrow> c1)\<rparr>)))"

definition on_shutdown :: "('f, 'g) pipeline_env \<Rightarrow> ('g, 'b) node \<Rightarrow> ('g, 'b) node" where
  "on_shutdown E nd = roll E (nd\<lparr>nd_index := index_commit (nd_index nd)\<rparr>)"

lemma on_retention_ok:
  "on_retention E refuse save put_ok now nd = Inr nd' \<Longrightarrow>
     nd' = nd\<lparr>nd_cold := age_store (pe_retention E) (pe_warm E) put_ok now (nd_cold nd)\<rparr>"
  by (auto simp: on_retention_def age_store_def Let_def and_then_Inr_iff dest!: retention_run_ok split: prod.splits option.splits)

inductive node_step :: "('f::linorder, 'g::linorder) pipeline_env \<Rightarrow> ('g, 'b) node \<Rightarrow> ('g, 'b) node \<Rightarrow> bool" for E where
  frame: "on_frame E now fr nd = Inr nd' \<Longrightarrow> node_step E nd nd'"
| agent_event: "node_step E nd (on_agent_event E now ev nd)"
| commit: "node_step E nd (on_commit nd)"
| rollover: "node_step E nd (on_rollover E nd)"
| retention: "on_retention E refuse save put_ok now nd = Inr nd' \<Longrightarrow> node_step E nd nd'"

section \<open>What a node is built from\<close>

text \<open>
  Enrichers get the capabilities they ask for but never network egress; one that asks for it is
  left out. \<open>caps\<close> is the trait method \<open>capabilities\<close>.
\<close>

definition grant_all :: "('e \<Rightarrow> capability list) \<Rightarrow> 'e list \<Rightarrow> capability list" where
  "grant_all caps built =
     fold (\<lambda>e granted. fold (\<lambda>c g. if c \<noteq> NetEgress \<and> c \<notin> set g then g @ [c] else g) (caps e) granted) built []"

definition admit_enrichers :: "('e \<Rightarrow> capability list) \<Rightarrow> 'e list \<Rightarrow> 'e list" where
  "admit_enrichers caps built =
     (if built = [] then []
      else let policy = \<lparr>cp_allowed = grant_all caps built\<rparr>
           in filter (\<lambda>e. policy_check policy (caps e) = Inr ()) built)"

definition build_enrich_chain :: "'f enrich_env \<Rightarrow> (yaml \<Rightarrow> 'f settings) \<Rightarrow> config \<Rightarrow> 'f enrich_chain" where
  "build_enrich_chain E settings c =
     admit_enrichers enricher_capabilities
       (List.map_filter (\<lambda>(name, s). build_enricher E name (settings s)) (enrich_steps c))"

definition build_detector_chain :: "'f f64_env \<Rightarrow> (yaml \<Rightarrow> 'f detector_settings) \<Rightarrow> config \<Rightarrow> 'f detector list" where
  "build_detector_chain E settings c =
     List.map_filter (\<lambda>(name, s). build_detector E name (settings s)) (detector_steps c)"

definition sources_routed_to :: "config \<Rightarrow> string \<Rightarrow> string set" where
  "sources_routed_to c sink = (\<Union>p \<in> set (filter (\<lambda>p. sink \<in> set (pc_route p)) (cf_pipelines c)). set (pc_from p))"

definition should_index :: "config \<Rightarrow> role list \<Rightarrow> string \<Rightarrow> bool" where
  "should_index c roles i \<longleftrightarrow>
     runs roles Index \<and> (sources_routed_to c ''index'' = {} \<or> i \<in> sources_routed_to c ''index'')"

definition should_sigma :: "config \<Rightarrow> role list \<Rightarrow> bool \<Rightarrow> string \<Rightarrow> bool" where
  "should_sigma c roles sigma_active i \<longleftrightarrow>
     runs roles Index \<and> sigma_active \<and> i \<in> sources_routed_to c ''sigma''"

text \<open>The frames of the lines a file input polled.\<close>

definition file_frames :: "config \<Rightarrow> role list \<Rightarrow> bool \<Rightarrow> input_config \<Rightarrow> string list \<Rightarrow> raw_frame list" where
  "file_frames c roles active i ls =
     map (\<lambda>l. \<lparr>fr_codec = ck_kind (ic_codec i), fr_index = should_index c roles (ic_id i),
               fr_sigma = should_sigma c roles active (ic_id i), fr_bytes = l\<rparr>) ls"

section \<open>Buffering over a segment store\<close>

text \<open>
  What the pipeline needs of the cold tier: a batch written under a fresh name is held after the
  earlier ones, and ageing only drops batches.
\<close>

definition accounted ::
  "('s \<Rightarrow> bool) \<Rightarrow> ('s \<Rightarrow> (string \<times> 'r list) list) \<Rightarrow> ('e list \<Rightarrow> 'r list) \<Rightarrow>
     's \<Rightarrow> (string \<times> 'r list) list \<Rightarrow> 'e list \<Rightarrow> 'e list \<Rightarrow> bool" where
  "accounted ok held batch s W buf evs \<longleftrightarrow>
     ok s \<and> subseq (held s) W \<and> distinct (map fst W) \<and> concat (map snd W) @ batch buf = batch evs"

locale segment_log =
  fixes wr :: "'t \<Rightarrow> 'e list \<Rightarrow> 's \<Rightarrow> 's" and age :: "'a \<Rightarrow> 's \<Rightarrow> 's" and held :: "'s \<Rightarrow> (string \<times> 'r list) list"
    and ok :: "'s \<Rightarrow> bool" and ident :: "'t \<Rightarrow> string" and batch :: "'e list \<Rightarrow> 'r list"
  assumes wr_held: "ok s \<Longrightarrow> evs \<noteq> [] \<Longrightarrow> ident now \<notin> fst ` set (held s) \<Longrightarrow>
      ok (wr now evs s) \<and> held (wr now evs s) = held s @ [(ident now, batch evs)]"
    and age_held: "ok s \<Longrightarrow> ok (age a s) \<and> subseq (held (age a s)) (held s)"
    and batch_append: "batch (xs @ ys) = batch xs @ batch ys"
begin

lemma batch_Nil: "batch [] = []"
  using batch_append [of "[]" "[]"] by simp

lemma held_names: "accounted ok held batch s W buf evs \<Longrightarrow> fst ` set (held s) \<subseteq> fst ` set W"
  by (auto simp: accounted_def dest: list_emb_set)

lemma accounted_buffer:
  "accounted ok held batch s W buf evs \<Longrightarrow> accounted ok held batch s W (buf @ xs) (evs @ xs)"
  using batch_append by (simp add: accounted_def flip: append_assoc)

lemma accounted_flush:
  assumes "accounted ok held batch s W buf evs" and "buf \<noteq> []" and "ident now \<notin> fst ` set W"
  shows "accounted ok held batch (wr now buf s) (W @ [(ident now, batch buf)]) [] evs"
    "held (wr now buf s) = held s @ [(ident now, batch buf)]"
proof -
  have "ident now \<notin> fst ` set (held s)" using held_names [OF assms(1)] assms(3) by blast
  with assms(1,2) wr_held [of s buf now] have w: "ok (wr now buf s)" "held (wr now buf s) = held s @ [(ident now, batch buf)]"
    by (auto simp: accounted_def)
  then show "held (wr now buf s) = held s @ [(ident now, batch buf)]" by simp
  show "accounted ok held batch (wr now buf s) (W @ [(ident now, batch buf)]) [] evs"
    using assms(1,3) w by (auto simp: accounted_def batch_Nil intro!: list_emb_append_mono)
qed

lemma accounted_age: "accounted ok held batch s W buf evs \<Longrightarrow> accounted ok held batch (age a s) W buf evs"
  using age_held [of s a] by (auto simp: accounted_def intro: subseq_order.trans)

end

lemma age_store_refines:
  assumes "store_ok c"
  shows "store_ok (age_store r w put_ok now c) \<and> subseq (contents (age_store r w put_ok now c)) (contents c) \<and>
    (r = None \<longrightarrow> contents (age_store r w put_ok now c) = contents c)"
proof -
  let ?c1 = "case r of Some age \<Rightarrow> fst (enforce_retention now age c) | None \<Rightarrow> c"
  have c1: "store_ok ?c1" "subseq (contents ?c1) (contents c)" "r = None \<longrightarrow> contents ?c1 = contents c"
    using enforce_retention_refines [OF assms] retention_contents [OF assms] assms by (auto split: option.splits)
  with migrate_warm_refines [of ?c1 put_ok now] show ?thesis
    by (cases r; cases w) (simp_all add: age_store_def Let_def)
qed

interpretation segments: segment_log "\<lambda>now evs c. fst (write_segment J now evs c)"
  "\<lambda>(r, w, put_ok, now). age_store r w put_ok now" contents store_ok ulid_like "events_to_batch J" for J
proof
  fix s and evs :: "event list" and now
  assume a: "store_ok s" "evs \<noteq> []" "ulid_like now \<notin> fst ` set (contents s)"
  then have "ulid_like now \<notin> sg_id ` set (cs_catalog s)" by (simp add: contents_ids)
  with a show "store_ok (fst (write_segment J now evs s)) \<and>
      contents (fst (write_segment J now evs s)) = contents s @ [(ulid_like now, events_to_batch J evs)]"
    using write_segment_refines by blast
qed (auto simp: events_to_batch_def dest: age_store_refines)

section \<open>Both tiers hold the same events\<close>

text \<open>Everything handed to the hot index, committed or not.\<close>

definition stream :: "('g, 'b) node \<Rightarrow> event list" where
  "stream nd = ei_docs (nd_index nd) @ ei_writer (nd_index nd)"

definition segment_name :: "('f, 'g) pipeline_env \<Rightarrow> nat \<Rightarrow> string" where
  "segment_name E n = ulid_like (pe_clock E n)"

definition node_acc :: "('f, 'g) pipeline_env \<Rightarrow> ('g, 'b) node \<Rightarrow> (string \<times> event_row list) list \<Rightarrow> bool" where
  "node_acc E nd W \<longleftrightarrow>
     accounted store_ok contents (events_to_batch (pe_json E)) (nd_cold nd) W (nd_buffer nd) (stream nd) \<and>
     fst ` set W \<subseteq> segment_name E ` {..<nd_readings nd} \<and>
     nd_dirty nd = length (ei_writer (nd_index nd)) \<and>
     (pe_retention E = None \<longrightarrow> contents (nd_cold nd) = W)"

definition node_ok :: "('f, 'g) pipeline_env \<Rightarrow> ('g, 'b) node \<Rightarrow> (string \<times> event_row list) list \<Rightarrow> bool" where
  "node_ok E nd W \<longleftrightarrow> node_acc E nd W \<and> length (nd_buffer nd) < roll_max"

definition node_new ::
  "'g template_miner \<Rightarrow> sigma_engine \<Rightarrow> correlation_engine \<Rightarrow> 'b store option \<times> alert_ring \<Rightarrow> string \<Rightarrow>
     cold_archive option \<Rightarrow> ('g, 'b) node" where
  "node_new miner engine corr alerts dir archive =
     \<lparr>nd_codecs = [], nd_miner = miner, nd_engine = engine, nd_corr = corr, nd_alerts = alerts, nd_emitted = [],
      nd_index = index_open, nd_dirty = 0, nd_buffer = [], nd_cold = columnar_open dir archive, nd_fresh = 0,
      nd_readings = 0\<rparr>"

lemma node_ok_new: "node_ok E (node_new miner engine corr alerts dir archive) []"
  by (simp add: node_ok_def node_acc_def node_new_def accounted_def stream_def index_open_def columnar_open_def contents_def store_ok_def
      roll_max_def events_to_batch_def)

text \<open>What detection and the template miner leave alone.\<close>

lemma detect_frame [simp]:
  "nd_index (detect E now ev nd) = nd_index nd" "nd_dirty (detect E now ev nd) = nd_dirty nd"
  "nd_buffer (detect E now ev nd) = nd_buffer nd" "nd_cold (detect E now ev nd) = nd_cold nd"
  "nd_readings (detect E now ev nd) = nd_readings nd" "nd_codecs (detect E now ev nd) = nd_codecs nd"
  by (simp_all add: detect_def split: prod.splits)

lemma node_acc_cong:
  "nd_index nd' = nd_index nd \<Longrightarrow> nd_dirty nd' = nd_dirty nd \<Longrightarrow> nd_buffer nd' = nd_buffer nd \<Longrightarrow>
   nd_cold nd' = nd_cold nd \<Longrightarrow> nd_readings nd' = nd_readings nd \<Longrightarrow> node_acc E nd' W = node_acc E nd W"
  by (simp add: node_acc_def stream_def)

lemma with_template_frame:
  assumes "with_template E ev nd = (nd', ev')"
  shows "ev'\<lparr>ev_template_id := None\<rparr> = ev\<lparr>ev_template_id := None\<rparr>" "nd_index nd' = nd_index nd"
    "nd_dirty nd' = nd_dirty nd" "nd_buffer nd' = nd_buffer nd" "nd_cold nd' = nd_cold nd"
    "nd_readings nd' = nd_readings nd" "nd_codecs nd' = nd_codecs nd"
  using assms by (auto simp: with_template_def split: prod.splits)

lemma roll_frame [simp]:
  "nd_index (roll E nd) = nd_index nd" "nd_dirty (roll E nd) = nd_dirty nd" "nd_buffer (roll E nd) = []"
  "nd_codecs (roll E nd) = nd_codecs nd" "stream (roll E nd) = stream nd"
  by (simp_all add: roll_def stream_def)

text \<open>The clock readings that named the segments so far gave different names.\<close>

definition fresh_names :: "('f, 'g) pipeline_env \<Rightarrow> ('g, 'b) node \<Rightarrow> bool" where
  "fresh_names E nd \<longleftrightarrow> inj_on (segment_name E) {..<nd_readings nd}"

lemma fresh_names_mono: "fresh_names E nd' \<Longrightarrow> nd_readings nd \<le> nd_readings nd' \<Longrightarrow> fresh_names E nd"
  unfolding fresh_names_def by (erule inj_on_subset) auto

lemma readings_roll: "nd_readings nd \<le> nd_readings (roll E nd)"
  by (simp add: roll_def)

lemma readings_index: "nd_readings nd \<le> nd_readings (index_event E ev nd)"
  by (auto simp: index_event_def Let_def intro: order_trans [OF _ readings_roll])

lemma readings_event: "nd_readings nd \<le> nd_readings (process_event E now sigma index ev nd)"
proof -
  obtain nd1 ev' where t: "with_template E ev nd = (nd1, ev')" by fastforce
  from with_template_frame(6) [OF t] show ?thesis
    using readings_index [of nd1 E ev'] readings_index [of "detect E now ev' nd1" E ev']
    by (simp add: process_event_def t Let_def)
qed

lemma readings_events: "nd_readings nd \<le> nd_readings (fold (process_event E now sigma index) evs nd)"
  by (induction evs arbitrary: nd) (auto intro: order_trans [OF readings_event])

lemma readings_step: "node_step E nd nd' \<Longrightarrow> nd_readings nd \<le> nd_readings nd'"
proof (induction rule: node_step.induct)
  case (frame now fr nd nd')
  then obtain nd1 evs where d: "decode_normalize E now fr nd = Inr (nd1, evs)"
    "nd' = fold (process_event E now (fr_sigma fr) (fr_index fr)) evs nd1"
    by (auto simp: on_frame_def and_then_Inr_iff)
  then have "nd_readings nd1 = nd_readings nd"
    by (auto simp: decode_normalize_def and_then_Inr_iff split: prod.splits)
  with d(2) readings_events [of nd1] show ?case by simp
qed (auto simp: on_agent_event_def readings_event on_commit_def on_rollover_def readings_roll dest: on_retention_ok)

lemma node_acc_roll:
  assumes "fresh_names E (roll E nd)" and acc: "node_acc E nd W"
  shows "\<exists>W'. node_acc E (roll E nd) W'"
proof (cases "nd_buffer nd = []")
  case True
  with acc show ?thesis by (auto simp: roll_def)
next
  case False
  let ?name = "segment_name E (nd_readings nd)" and ?J = "pe_json E"
  let ?W = "W @ [(?name, events_to_batch ?J (nd_buffer nd))]"
  have "?name \<notin> segment_name E ` {..<nd_readings nd}"
    using inj_onD [of "segment_name E" "{..<Suc (nd_readings nd)}" "nd_readings nd"] assms(1) False
    by (fastforce simp: fresh_names_def roll_def)
  with acc have new: "ulid_like (pe_clock E (nd_readings nd)) \<notin> fst ` set W"
    by (auto simp: node_acc_def segment_name_def)
  from acc have a: "accounted store_ok contents (events_to_batch ?J) (nd_cold nd) W (nd_buffer nd) (stream nd)"
    by (simp add: node_acc_def)
  note f = segments.accounted_flush [OF a False new]
  have "node_acc E (roll E nd) ?W"
    using acc f False by (auto simp: node_acc_def roll_def stream_def segment_name_def lessThan_Suc)
  then show ?thesis ..
qed

lemma node_ok_index_event:
  assumes "fresh_names E (index_event E ev nd)" and "node_acc E nd W"
  shows "\<exists>W'. node_ok E (index_event E ev nd) W'" "stream (index_event E ev nd) = stream nd @ [ev]"
proof -
  let ?nd = "nd\<lparr>nd_index := index_add ev (nd_index nd), nd_dirty := Suc (nd_dirty nd), nd_buffer := nd_buffer nd @ [ev]\<rparr>"
  have st: "stream ?nd = stream nd @ [ev]" by (simp add: stream_def index_add_def)
  have "node_acc E ?nd W"
    using assms(2) segments.accounted_buffer [of "pe_json E" "nd_cold nd" W "nd_buffer nd" "stream nd" "[ev]"] st
    by (auto simp: node_acc_def index_add_def)
  with node_acc_roll [of E ?nd W] assms(1) show "\<exists>W'. node_ok E (index_event E ev nd) W'"
    by (auto simp: index_event_def Let_def node_ok_def roll_max_def split: if_splits)
  show "stream (index_event E ev nd) = stream nd @ [ev]"
    using st by (simp add: index_event_def Let_def)
qed

definition untemplated :: "event \<Rightarrow> event" where
  "untemplated ev = ev\<lparr>ev_template_id := None\<rparr>"

lemma process_event_ok:
  assumes names: "fresh_names E (process_event E now sigma index ev nd)" and ok: "node_ok E nd W"
  shows "\<exists>W'. node_ok E (process_event E now sigma index ev nd) W'"
    "map untemplated (stream (process_event E now sigma index ev nd)) =
       map untemplated (stream nd) @ (if index then [untemplated ev] else [])"
    "nd_codecs (process_event E now sigma index ev nd) = nd_codecs nd"
proof -
  obtain nd1 ev' where t: "with_template E ev nd = (nd1, ev')" by fastforce
  let ?nd2 = "if sigma then detect E now ev' nd1 else nd1"
  have acc: "node_acc E ?nd2 W" and buf: "nd_buffer ?nd2 = nd_buffer nd" and st: "stream ?nd2 = stream nd"
    and ev: "untemplated ev' = untemplated ev" and c: "nd_codecs ?nd2 = nd_codecs nd"
    using ok with_template_frame [OF t] node_acc_cong [of ?nd2 nd E W]
    by (auto simp: node_ok_def stream_def untemplated_def)
  have p: "process_event E now sigma index ev nd = (if index then index_event E ev' ?nd2 else ?nd2)"
    by (simp add: process_event_def t Let_def)
  show "\<exists>W'. node_ok E (process_event E now sigma index ev nd) W'"
    using node_ok_index_event(1) [OF _ acc] names acc buf ok by (auto simp: p node_ok_def)
  show "map untemplated (stream (process_event E now sigma index ev nd)) =
      map untemplated (stream nd) @ (if index then [untemplated ev] else [])"
    using node_ok_index_event(2) [OF _ acc] names ev st by (auto simp: p)
  show "nd_codecs (process_event E now sigma index ev nd) = nd_codecs nd"
    using c by (simp add: p index_event_def Let_def)
qed

lemma process_events_ok:
  assumes "fresh_names E (fold (process_event E now sigma index) evs nd)" and "node_ok E nd W"
  shows "(\<exists>W'. node_ok E (fold (process_event E now sigma index) evs nd) W') \<and>
    map untemplated (stream (fold (process_event E now sigma index) evs nd)) =
      map untemplated (stream nd) @ (if index then map untemplated evs else []) \<and>
    nd_codecs (fold (process_event E now sigma index) evs nd) = nd_codecs nd"
  using assms
proof (induction evs arbitrary: nd W)
  case Nil
  then show ?case by auto
next
  case (Cons ev evs)
  have f: "fresh_names E (process_event E now sigma index ev nd)"
    by (rule fresh_names_mono [OF Cons.prems(1)]) (simp add: readings_events)
  from process_event_ok(1) [OF f Cons.prems(2)] obtain W1 where
    "node_ok E (process_event E now sigma index ev nd) W1" ..
  from Cons.IH [OF _ this] Cons.prems(1) process_event_ok(2,3) [OF f Cons.prems(2)] show ?case by simp
qed

lemma decode_normalize_ok:
  assumes "decode_normalize E now fr nd = Inr (nd', evs)" and "node_ok E nd W"
  shows "node_ok E nd' W" "stream nd' = stream nd"
  using assms node_acc_cong [of nd' nd E W]
  by (auto simp: decode_normalize_def and_then_Inr_iff node_ok_def stream_def split: prod.splits)

lemma node_step_ok:
  assumes "node_step E nd nd'" and "fresh_names E nd'" and "node_ok E nd W"
  shows "\<exists>W'. node_ok E nd' W'"
  using assms
proof (induction rule: node_step.induct)
  case (frame now fr nd nd')
  then obtain nd1 evs where d: "decode_normalize E now fr nd = Inr (nd1, evs)"
    "nd' = fold (process_event E now (fr_sigma fr) (fr_index fr)) evs nd1"
    by (auto simp: on_frame_def and_then_Inr_iff)
  from process_events_ok [OF _ decode_normalize_ok(1) [OF d(1) frame.prems(2)]] frame.prems(1) d(2) show ?case by blast
next
  case (agent_event nd now ev)
  then show ?case unfolding on_agent_event_def by (rule process_event_ok(1))
next
  case (commit nd)
  then show ?case by (auto simp: on_commit_def node_ok_def node_acc_def stream_def index_commit_def)
next
  case (rollover nd)
  then show ?case using node_acc_roll [of E nd W] by (auto simp: on_rollover_def node_ok_def roll_max_def)
next
  case (retention refuse save put_ok now nd nd')
  note nd' = on_retention_ok [OF retention(1)]
  from retention have "store_ok (nd_cold nd)" by (simp add: node_ok_def node_acc_def accounted_def)
  from retention(3) age_store_refines [OF this, of "pe_retention E" "pe_warm E" put_ok now]
    segments.accounted_age [of "pe_json E" "nd_cold nd" W "nd_buffer nd" "stream nd" "(pe_retention E, pe_warm E, put_ok, now)"]
  show ?case by (auto simp: nd' node_ok_def node_acc_def stream_def)
qed

lemma node_steps_ok:
  "(node_step E)\<^sup>*\<^sup>* nd nd' \<Longrightarrow> fresh_names E nd' \<Longrightarrow> node_ok E nd W \<Longrightarrow> \<exists>W'. node_ok E nd' W'"
proof (induction arbitrary: W rule: rtranclp_induct)
  case (step y z)
  from step.prems(1) readings_step [OF step.hyps(2)] have "fresh_names E y" by (rule fresh_names_mono)
  with step.IH step.prems(2) obtain W' where "node_ok E y W'" by blast
  with node_step_ok [OF step.hyps(2) step.prems(1)] show ?case by blast
qed blast

text \<open>
  C1: Nothing is lost or doubled between the tiers before retention: if the clock readings that named
  the segments differ, then in every state a node can reach, whatever frames, agent events and ticks
  came in, in any order, the batches written so far followed by the buffer are exactly the rows of the
  events handed to the hot index, in the same order, each once. The cold tier holds a sub-sequence of
  these batches, because retention, which is on by default, drops expired ones; with retention off it
  holds all of them. The buffer stays below the rollover limit, and the dirty counter is the number
  of events waiting for the commit.
\<close>

theorem tiers_agree:
  assumes "inj_on (segment_name E) {..<nd_readings nd}" and "(node_step E)\<^sup>*\<^sup>* (node_new miner engine corr alerts dir archive) nd"
  shows "\<exists>W. concat (map snd W) @ events_to_batch (pe_json E) (nd_buffer nd) = events_to_batch (pe_json E) (stream nd) \<and>
    subseq (contents (nd_cold nd)) W \<and> distinct (map fst W) \<and>
    (pe_retention E = None \<longrightarrow> contents (nd_cold nd) = W) \<and>
    length (nd_buffer nd) < roll_max \<and> nd_dirty nd = length (ei_writer (nd_index nd))"
proof -
  from node_steps_ok [OF assms(2) _ node_ok_new] assms(1) obtain W where "node_ok E nd W"
    by (auto simp: fresh_names_def)
  then show ?thesis by (auto simp: node_ok_def node_acc_def accounted_def)
qed

section \<open>Every event becomes searchable and durable\<close>

text \<open>
  No event waits for ever: in every reachable state the next commit tick makes everything handed to
  the index searchable, and the next rollover tick empties the buffer into a segment; after both,
  with retention off, the cold tier holds the rows of exactly the searchable events.
\<close>

theorem ticks_flush:
  assumes "inj_on (segment_name E) {..nd_readings nd}" and "(node_step E)\<^sup>*\<^sup>* (node_new miner engine corr alerts dir archive) nd"
  shows "let nd' = on_rollover E (on_commit nd)
    in ei_docs (nd_index nd') = stream nd \<and> ei_writer (nd_index nd') = [] \<and> nd_buffer nd' = [] \<and>
       (case pe_retention E of
          None \<Rightarrow> concat (map snd (contents (nd_cold nd'))) = events_to_batch (pe_json E) (ei_docs (nd_index nd'))
        | Some _ \<Rightarrow> True)"
proof -
  let ?nd' = "on_rollover E (on_commit nd)"
  have "nd_readings ?nd' \<le> Suc (nd_readings nd)" by (simp add: on_rollover_def on_commit_def roll_def)
  with assms(1) have f: "fresh_names E ?nd'"
    unfolding fresh_names_def by (elim inj_on_subset) auto
  have "(node_step E)\<^sup>*\<^sup>* (node_new miner engine corr alerts dir archive) ?nd'"
    using assms(2) node_step.commit node_step.rollover by (meson rtranclp.rtrancl_into_rtrancl)
  from node_steps_ok [OF this f node_ok_new] obtain W where W: "node_ok E ?nd' W" by blast
  from f have "fresh_names E nd"
    by (rule fresh_names_mono) (simp add: on_rollover_def on_commit_def roll_def)
  from node_steps_ok [OF assms(2) this node_ok_new] obtain W0 where "node_ok E nd W0" by blast
  then have "nd_dirty nd = length (ei_writer (nd_index nd))" by (simp add: node_ok_def node_acc_def)
  then have c: "ei_docs (nd_index (on_commit nd)) = stream nd" "ei_writer (nd_index (on_commit nd)) = []"
    by (auto simp: on_commit_def index_commit_def stream_def)
  with W show ?thesis
    by (auto simp: on_rollover_def node_ok_def node_acc_def accounted_def stream_def segments.batch_Nil Let_def
        split: option.splits)
qed

section \<open>Detection on the hot path\<close>

lemma suppressed_process: "process S now ce ev base = (ce', fired) \<Longrightarrow> suppressed ce' rid = suppressed ce rid"
  by (auto simp: process_def suppressed_def Let_def)

lemma fingerprint_stored:
  "a \<in> set as \<Longrightarrow> get_alert (fingerprint h a) (fold (\<lambda>a s. fst (upsert_alert h now a s)) as s) \<noteq> None"
  using find_None_iff [of "\<lambda>x. fingerprint h x = fingerprint h a" as]
  by (cases "find (\<lambda>x. fingerprint h x = fingerprint h a) as") (auto simp: get_upserts split: option.splits)

lemma set_map_filter: "set (List.map_filter f xs) = {y. \<exists>x \<in> set xs. f x = Some y}"
  by (force simp: List.map_filter_def)

lemma set_engine_alerts:
  "{a \<in> set (engine_eval S now en ev). P (al_rule_id a)} =
     {to_alert now r ev |r. r \<in> set (en_rules en) \<and> rule_matches S r ev \<and> P (cr_rule_id r)}"
  by (force simp: engine_eval_def to_alert_def)

text \<open>
  C18: The alerts of an event: a matching rule alerts unless a correlation rule that does not generate
  base alerts refers to it, every correlation that fires and every custom detector that hits alerts
  too, and nothing else does; each alert is emitted to the outputs and, with a store, recorded.
\<close>

theorem detect_spec:
  "\<exists>new. nd_emitted (detect E now ev nd) = nd_emitted nd @ new \<and>
     set new = {to_alert now r ev |r. r \<in> set (en_rules (nd_engine nd)) \<and> rule_matches (pe_sigma E) r ev \<and>
                   \<not> suppressed (nd_corr nd) (cr_rule_id r)} \<union>
       set (snd (process (pe_sigma E) now (nd_corr nd) ev (engine_eval (pe_sigma E) now (nd_engine nd) ev))) \<union>
       {a. \<exists>d \<in> set (pe_detectors E). detector_eval (pe_detect E) d ev = Some a} \<and>
     list_all (\<lambda>a. case fst (nd_alerts (detect E now ev nd)) of
         Some st \<Rightarrow> get_alert (fingerprint (pe_hash E) a) st \<noteq> None
       | None \<Rightarrow> fst (nd_alerts nd) = None) new"
proof -
  let ?base = "engine_eval (pe_sigma E) now (nd_engine nd) ev"
  obtain corr fired where p: "process (pe_sigma E) now (nd_corr nd) ev ?base = (corr, fired)" by fastforce
  let ?new = "filter (\<lambda>a. \<not> suppressed corr (al_rule_id a)) ?base @ fired @ detector_chain_eval (pe_detect E) (pe_detectors E) ev"
  have d: "detect E now ev nd = nd\<lparr>nd_corr := corr, nd_alerts := push_all (pe_hash E) now ?new (nd_alerts nd),
      nd_emitted := nd_emitted nd @ ?new\<rparr>"
    by (simp add: detect_def detect_alerts_def p Let_def)
  have "set ?new = {to_alert now r ev |r. r \<in> set (en_rules (nd_engine nd)) \<and> rule_matches (pe_sigma E) r ev \<and>
        \<not> suppressed (nd_corr nd) (cr_rule_id r)} \<union> set fired \<union>
      {a. \<exists>d \<in> set (pe_detectors E). detector_eval (pe_detect E) d ev = Some a}"
    using set_engine_alerts [of "pe_sigma E" now "nd_engine nd" ev "\<lambda>i. \<not> suppressed (nd_corr nd) i"]
    by (simp add: suppressed_process [OF p] detector_chain_eval_def set_map_filter Un_assoc)
  moreover have "list_all (\<lambda>a. case fst (push_all (pe_hash E) now ?new (nd_alerts nd)) of
      Some st \<Rightarrow> get_alert (fingerprint (pe_hash E) a) st \<noteq> None | None \<Rightarrow> fst (nd_alerts nd) = None) ?new"
  proof (cases "fst (nd_alerts nd)")
    case (Some st)
    show ?thesis unfolding push_all_store Some list_all_iff option.map option.case
      using fingerprint_stored [where s = st] by blast
  qed (simp add: push_all_store list_all_iff)
  ultimately show ?thesis unfolding d by (intro exI [of _ ?new]) (simp add: p)
qed

section \<open>The enrichment chain has no network egress\<close>

lemma grant_one:
  "set (fold (\<lambda>c g. if c \<noteq> NetEgress \<and> c \<notin> set g then g @ [c] else g) cs g) = set g \<union> (set cs - {NetEgress})"
  by (induction cs arbitrary: g) auto

lemma grant_all_set: "set (grant_all caps built) = (\<Union>e \<in> set built. set (caps e)) - {NetEgress}"
proof -
  have "set (fold (\<lambda>e granted. fold (\<lambda>c g. if c \<noteq> NetEgress \<and> c \<notin> set g then g @ [c] else g) (caps e) granted) built g) =
      set g \<union> ((\<Union>e \<in> set built. set (caps e)) - {NetEgress})" for g
    by (induction built arbitrary: g) (auto simp: grant_one)
  then show ?thesis by (simp add: grant_all_def)
qed

lemma enricher_no_egress [simp]: "NetEgress \<notin> set (enricher_capabilities e)"
  by (cases e) simp_all

text \<open>
  Network egress is never granted on the hot path: of any list of enrichers exactly those that do
  not ask for it are admitted, in order; all built-in enrichers are, so the chain of a configuration
  is its known steps in the order of its pipelines.
\<close>

theorem enrichers_without_egress:
  "admit_enrichers caps built = filter (\<lambda>e. NetEgress \<notin> set (caps e)) built \<and>
   build_enrich_chain E settings c = List.map_filter (\<lambda>(name, s). build_enricher E name (settings s)) (enrich_steps c)"
proof -
  have adm: "admit_enrichers caps built = filter (\<lambda>e. NetEgress \<notin> set (caps e)) built" for caps and built :: "'z list"
    unfolding admit_enrichers_def Let_def
    by (auto simp: policy_check_ok grant_all_set intro!: filter_cong)
  have "build_enrich_chain E settings c = List.map_filter (\<lambda>(name, s). build_enricher E name (settings s)) (enrich_steps c)"
    using adm [of enricher_capabilities] by (simp add: build_enrich_chain_def filter_id_conv)
  with adm show ?thesis by blast
qed

section \<open>From a log file to the index\<close>

text \<open>The stream a node gets, without looking at the segments.\<close>

lemma stream_index_event [simp]: "stream (index_event E ev nd) = stream nd @ [ev]"
  by (simp add: index_event_def Let_def) (simp add: stream_def index_add_def)

lemma stream_cong: "nd_index a = nd_index b \<Longrightarrow> stream a = stream b"
  by (simp add: stream_def)

lemma index_event_frame [simp]:
  "nd_codecs (index_event E ev nd) = nd_codecs nd" "nd_fresh (index_event E ev nd) = nd_fresh nd"
  "nd_miner (index_event E ev nd) = nd_miner nd"
  by (simp_all add: index_event_def Let_def roll_def)

lemma process_event_stream:
  "map untemplated (stream (process_event E now sigma index ev nd)) =
     map untemplated (stream nd) @ (if index then [untemplated ev] else [])"
  "nd_codecs (process_event E now sigma index ev nd) = nd_codecs nd"
proof -
  obtain nd1 ev' where t: "with_template E ev nd = (nd1, ev')" by fastforce
  have "stream nd1 = stream nd" "stream (detect E now ev' nd1) = stream nd" "untemplated ev' = untemplated ev"
    using with_template_frame [OF t] by (auto intro!: stream_cong simp: untemplated_def)
  then show "map untemplated (stream (process_event E now sigma index ev nd)) =
      map untemplated (stream nd) @ (if index then [untemplated ev] else [])"
    by (simp add: process_event_def t Let_def)
  show "nd_codecs (process_event E now sigma index ev nd) = nd_codecs nd"
    using with_template_frame(7) [OF t] by (simp add: process_event_def t Let_def)
qed

lemma process_events_stream:
  "map untemplated (stream (fold (process_event E now sigma index) evs nd)) =
     map untemplated (stream nd) @ (if index then map untemplated evs else [])"
  "nd_codecs (fold (process_event E now sigma index) evs nd) = nd_codecs nd"
  by (induction evs arbitrary: nd) (simp_all add: process_event_stream)

text \<open>The codec cache only saves work.\<close>

definition codecs_ok :: "(string \<times> codec) list \<Rightarrow> bool" where
  "codecs_ok m \<longleftrightarrow> (\<forall>k c. map_of m k = Some c \<longrightarrow> c = build_codec k)"

lemma codec_get_ok:
  assumes "codecs_ok m"
  shows "snd (codec_get k m) = build_codec k \<and> codecs_ok (fst (codec_get k m))"
  using assms by (auto simp: codec_get_def codecs_ok_def map_of_hash_insert split: option.splits if_splits)

lemma rec_raw_Let: "rec_raw (Let x f) = Let x (\<lambda>y. rec_raw (f y))"
  by (simp add: Let_def)

lemmas rec_raw_distrib =
  option.case_distrib [where h = rec_raw] prod.case_distrib [where h = rec_raw] if_distrib [where f = rec_raw] rec_raw_Let
  raw_record.select_convs

lemma Let_same: "Let x (\<lambda>_. y) = y"
  by (simp add: Let_def)

lemma option_same: "case_option y (\<lambda>_. y) x = y"
  by (cases x) simp_all

lemma decoded_raw:
  "rec_raw (parse_syslog l) = l" "rec_raw (parse_cef l raw) = raw" "rec_raw (parse_leef l raw) = raw"
  by (simp_all only: parse_syslog_def parse_cef_def parse_leef_def cef_dead_letter_def rec_raw_distrib if_cancel Let_same
      option_same case_prod_beta)

lemma decode_line:
  assumes "kind \<noteq> ''json''"
  shows "\<exists>r. decode P (build_codec kind) raw = Inr [r] \<and> trim_end (rec_raw r) = trim_end raw"
proof -
  have "trim_end (trim_end raw) = trim_end raw" by (simp add: trim_end_def dropWhile_idem)
  moreover have "build_codec kind \<noteq> JsonCodec" using assms by (simp add: build_codec_def)
  ultimately show ?thesis
    by (cases "build_codec kind") (simp_all add: decoded_raw decode_raw_def)
qed

lemma enrich_raw [simp]: "ev_raw (enrich E e ev) = ev_raw ev"
  by (cases e) (auto simp: enrich_redact_def enrich_entropy_def enrich_threatintel_def set_field_def add_label_def Let_def
      split: option.splits)

lemma chain_raw [simp]: "ev_raw (chain_apply E chain ev) = ev_raw ev"
  unfolding chain_apply_def by (induction chain arbitrary: ev) simp_all

lemma normalize_raw [simp]: "ev_raw (normalize sj ulid now tenant r) = rec_raw r"
  by (simp add: normalize_def Let_def classify_frame case_prod_beta new_event_def split: option.split)

fun run_frames :: "('f::linorder, 'g::linorder) pipeline_env \<Rightarrow> timestamp \<Rightarrow> raw_frame list \<Rightarrow> ('g, 'b) node \<Rightarrow> ('g, 'b) node result" where
  "run_frames E now [] nd = Inr nd"
| "run_frames E now (fr # frs) nd = and_then (on_frame E now fr nd) (run_frames E now frs)"

definition raw_text :: "event \<Rightarrow> string" where
  "raw_text ev = trim_end (ev_raw ev)"

lemma raw_text_stream: "map raw_text (stream nd) = map raw_text (map untemplated (stream nd))"
  by (simp add: raw_text_def untemplated_def)

lemma frame_line:
  assumes "codecs_ok (nd_codecs nd)" and "fr_codec fr \<noteq> ''json''" and "fr_index fr"
  shows "\<exists>nd'. on_frame E now fr nd = Inr nd' \<and> codecs_ok (nd_codecs nd') \<and>
    map raw_text (stream nd') = map raw_text (stream nd) @ [trim_end (fr_bytes fr)]"
proof -
  obtain m c where g: "codec_get (fr_codec fr) (nd_codecs nd) = (m, c)" by fastforce
  with codec_get_ok [OF assms(1), of "fr_codec fr"] have c: "c = build_codec (fr_codec fr)" "codecs_ok m" by auto
  from decode_line [OF assms(2), of "pe_parse_json E" "fr_bytes fr"] obtain r where
    r: "decode (pe_parse_json E) c (fr_bytes fr) = Inr [r]" "trim_end (rec_raw r) = trim_end (fr_bytes fr)" using c by auto
  let ?nd = "nd\<lparr>nd_codecs := m, nd_fresh := nd_fresh nd + 1\<rparr>" and ?evs = "normalize_from E now (nd_fresh nd) [r]"
  have f: "on_frame E now fr nd = Inr (fold (process_event E now (fr_sigma fr) True) ?evs ?nd)"
    using assms(3) by (simp add: on_frame_def decode_normalize_def g r)
  have st: "stream ?nd = stream nd" by (rule stream_cong) simp
  have "map raw_text (stream (fold (process_event E now (fr_sigma fr) True) ?evs ?nd)) =
      map raw_text (stream nd) @ map (raw_text \<circ> untemplated) ?evs"
    unfolding raw_text_stream process_events_stream st by simp
  also have "map (raw_text \<circ> untemplated) ?evs = [trim_end (fr_bytes fr)]"
    using r(2) by (simp add: normalize_from_def raw_text_def untemplated_def)
  finally show ?thesis using f c(2) by (simp add: process_events_stream)
qed

definition line_frame :: "string \<Rightarrow> bool \<Rightarrow> string \<Rightarrow> raw_frame" where
  "line_frame kind sigma l = \<lparr>fr_codec = kind, fr_index = True, fr_sigma = sigma, fr_bytes = l\<rparr>"

lemma run_lines:
  assumes "codecs_ok (nd_codecs nd)" and "kind \<noteq> ''json''"
  shows "\<exists>nd'. run_frames E now (map (line_frame kind sigma) ls) nd = Inr nd' \<and> codecs_ok (nd_codecs nd') \<and>
    map raw_text (stream nd') = map raw_text (stream nd) @ map trim_end ls"
  using assms(1)
proof (induction ls arbitrary: nd)
  case (Cons l ls)
  from frame_line [OF Cons.prems, of "line_frame kind sigma l" E now] assms(2) obtain nd1 where
    "on_frame E now (line_frame kind sigma l) nd = Inr nd1" "codecs_ok (nd_codecs nd1)"
    "map raw_text (stream nd1) = map raw_text (stream nd) @ [trim_end l]" by (auto simp: line_frame_def)
  with Cons.IH [of nd1] show ?case by auto
qed simp

text \<open>
  A node that tails one file: the file grows, the tailer polls and the loop consumes the frames of
  the lines, and the ticks go off, in any order.
\<close>

inductive file_step ::
  "('f::linorder, 'g::linorder) pipeline_env \<Rightarrow> string \<Rightarrow> bool \<Rightarrow>
     fs \<times> tailer \<times> ('g, 'b) node \<Rightarrow> fs \<times> tailer \<times> ('g, 'b) node \<Rightarrow> bool" for E kind sigma where
  append: "fs_file w = Content s \<Longrightarrow> length (s @ x) \<le> u64_max \<Longrightarrow>
    file_step E kind sigma (w, t, nd) (w\<lparr>fs_file := Content (s @ x)\<rparr>, t, nd)"
| poll: "poll_lines w t = (w', t', Inr ls) \<Longrightarrow> run_frames E now (map (line_frame kind sigma) ls) nd = Inr nd' \<Longrightarrow>
    file_step E kind sigma (w, t, nd) (w', t', nd')"
| commit: "file_step E kind sigma (w, t, nd) (w, t, on_commit nd)"
| rollover: "file_step E kind sigma (w, t, nd) (w, t, on_rollover E nd)"
| retention: "on_retention E refuse save put_ok now nd = Inr nd' \<Longrightarrow> file_step E kind sigma (w, t, nd) (w, t, nd')"

definition file_inv :: "fs \<times> tailer \<times> ('g, 'b) node \<Rightarrow> bool" where
  "file_inv x \<longleftrightarrow> (case x of (w, t, nd) \<Rightarrow> codecs_ok (nd_codecs nd) \<and>
     (\<exists>out. tail_inv (w, t, out) \<and> map raw_text (stream nd) = map trim_end out))"

lemma stream_ticks [simp]:
  "stream (on_commit nd) = stream nd" "stream (on_rollover E nd) = stream nd"
  "nd_codecs (on_commit nd) = nd_codecs nd" "nd_codecs (on_rollover E nd) = nd_codecs nd"
  by (simp_all add: on_commit_def index_commit_def on_rollover_def stream_def)

lemma retention_keeps:
  "on_retention E refuse save put_ok now nd = Inr nd' \<Longrightarrow> stream nd' = stream nd \<and> nd_codecs nd' = nd_codecs nd"
  by (auto simp: stream_def dest: on_retention_ok)

lemma file_inv_step:
  assumes "kind \<noteq> ''json''"
  shows "file_step E kind sigma x y \<Longrightarrow> file_inv x \<Longrightarrow> file_inv y"
proof (induction rule: file_step.induct)
  case (append w s x t nd)
  then show ?case by (fastforce simp: file_inv_def intro: tail_inv_append)
next
  case (poll w t w' t' ls now nd nd')
  then obtain out where o: "tail_inv (w, t, out)" "map raw_text (stream nd) = map trim_end out" "codecs_ok (nd_codecs nd)"
    by (auto simp: file_inv_def)
  from tail_inv_poll [OF o(1) poll.hyps(1)] have "tail_inv (w', t', out @ ls)" .
  with run_lines [OF o(3) assms, of E now sigma ls] poll.hyps(2) o(2) show ?case
    by (auto simp: file_inv_def intro!: exI [of _ "out @ ls"])
qed (auto simp: file_inv_def dest!: retention_keeps)

text \<open>
  C2: From a log to the index, for a codec other than json (whose lines may hold no event or several), a
  file that is only appended to and a tailer that starts without a checkpoint and is not restarted:
  up to white space at the end of a line, which the syslog codec removes, the events handed to the
  index carry, in order and each once, the complete lines of the log up to the last poll, whatever
  appends, polls and ticks happened; one more poll brings them to all complete lines.
\<close>

theorem file_to_index:
  assumes "kind \<noteq> ''json''" and "length s0 \<le> u64_max"
    and "(file_step E kind sigma)\<^sup>*\<^sup>*
      (\<lparr>fs_file = Content s0, fs_checkpoint = None, fs_writable = True\<rparr>, \<lparr>ft_offset = 0\<rparr>, node_new miner engine corr alerts dir archive)
      (w, t, nd)"
  shows "\<exists>s. fs_file w = Content s \<and> prefix (map raw_text (stream nd)) (map trim_end (complete_lines s)) \<and>
    (\<forall>w' t' ls. poll_lines w t = (w', t', Inr ls) \<longrightarrow>
       map raw_text (stream nd) @ map trim_end ls = map trim_end (complete_lines s))"
proof -
  have "file_inv (\<lparr>fs_file = Content s0, fs_checkpoint = None, fs_writable = True\<rparr>, \<lparr>ft_offset = 0\<rparr>,
      node_new miner engine corr alerts dir archive)"
    using tail_inv_start [OF assms(2)]
    by (auto simp: file_inv_def codecs_ok_def node_new_def stream_def index_open_def intro!: exI [of _ "[]"])
  with assms(3) have "file_inv (w, t, nd)"
    by (induction rule: rtranclp_induct) (auto intro: file_inv_step [OF assms(1)])
  then obtain out where o: "tail_inv (w, t, out)" "map raw_text (stream nd) = map trim_end out"
    by (auto simp: file_inv_def)
  from tail_inv_delivers [OF o(1)] obtain s where s: "fs_file w = Content s" "prefix out (complete_lines s)"
    "\<forall>w' t' ls. poll_lines w t = (w', t', Inr ls) \<longrightarrow> out @ ls = complete_lines s" by blast
  then show ?thesis using o(2) map_mono_prefix [OF s(2), of trim_end] by (metis map_append)
qed

section \<open>A restart between poll and commit\<close>

text \<open>What a restarted process finds: committed documents, segments and the durable alerts.\<close>

definition node_restart ::
  "'g template_miner \<Rightarrow> sigma_engine \<Rightarrow> correlation_engine \<Rightarrow> ('g, 'b) node \<Rightarrow> ('g, 'b) node" where
  "node_restart miner engine corr nd =
     nd\<lparr>nd_codecs := [], nd_miner := miner, nd_engine := engine, nd_corr := corr,
        nd_alerts := (fst (nd_alerts nd), hydrate (fst (nd_alerts nd)) ring_default), nd_emitted := [],
        nd_index := \<lparr>ei_docs = ei_docs (nd_index nd), ei_writer = []\<rparr>, nd_dirty := 0, nd_buffer := []\<rparr>"

lemma index_event_docs [simp]: "ei_docs (nd_index (index_event E ev nd)) = ei_docs (nd_index nd)"
  by (simp add: index_event_def Let_def) (simp add: index_add_def)

lemma process_event_docs: "ei_docs (nd_index (process_event E now sigma index ev nd)) = ei_docs (nd_index nd)"
proof -
  obtain nd1 ev' where t: "with_template E ev nd = (nd1, ev')" by fastforce
  show ?thesis using with_template_frame(2) [OF t] by (simp add: process_event_def t Let_def)
qed

lemma process_events_docs: "ei_docs (nd_index (fold (process_event E now sigma index) evs nd)) = ei_docs (nd_index nd)"
  by (induction evs arbitrary: nd) (simp_all add: process_event_docs)

lemma run_frames_docs: "run_frames E now frs nd = Inr nd' \<Longrightarrow> ei_docs (nd_index nd') = ei_docs (nd_index nd)"
proof (induction frs arbitrary: nd)
  case (Cons fr frs)
  then obtain nd1 where f: "on_frame E now fr nd = Inr nd1" "run_frames E now frs nd1 = Inr nd'"
    by (auto simp: and_then_Inr_iff)
  then have "ei_docs (nd_index nd1) = ei_docs (nd_index nd)"
    by (auto simp: on_frame_def decode_normalize_def and_then_Inr_iff process_events_docs split: prod.splits)
  with Cons.IH [OF f(2)] show ?case by simp
qed simp

text \<open>
  C38: The tailer's checkpoint is written when lines are polled, before their events are committed. A
  node that stops in between has lost them: after the restart the index has no event of the line,
  and the tailer, reopened from its checkpoint, finds nothing new, so the line is delivered at most
  once.
\<close>

theorem restart_loses_line:
  "\<exists>w t nd'. poll_lines \<lparr>fs_file = Content [CHR ''a'', newline], fs_checkpoint = None, fs_writable = True\<rparr> \<lparr>ft_offset = 0\<rparr> =
       (w, t, Inr [''a'']) \<and>
     run_frames E now (map (line_frame ''raw'' sigma) [''a'']) (node_new miner engine corr alerts dir archive) = Inr nd' \<and>
     length (stream nd') = 1 \<and> stream (node_restart miner engine corr nd') = [] \<and>
     poll_lines w (tailer_open w) = (w, tailer_open w, Inr [])"
proof -
  let ?w0 = "\<lparr>fs_file = Content [CHR ''a'', newline], fs_checkpoint = None, fs_writable = True\<rparr>"
  let ?nd = "node_new miner engine corr alerts dir archive"
  have p: "poll_lines ?w0 \<lparr>ft_offset = 0\<rparr> = (?w0\<lparr>fs_checkpoint := Some ''2''\<rparr>, \<lparr>ft_offset = 2\<rparr>, Inr [''a''])"
    by (simp add: poll_lines_def poll_loop.simps read_until_def newline_def chomp_def carriage_return_def
        write_checkpoint_def show_nat_def show_nat_acc.simps char_of_def bit_iff_odd)
  let ?w = "?w0\<lparr>fs_checkpoint := Some ''2''\<rparr>"
  have "tail_inv (?w, \<lparr>ft_offset = 2\<rparr>, [] @ [''a''])"
    by (rule tail_inv_poll [OF tail_inv_start p]) (simp add: u64_max_def)
  then have "read_checkpoint ?w = 2" unfolding tail_inv_def by (elim case_prodE exE conjE) simp
  then have reopen: "tailer_open ?w = \<lparr>ft_offset = 2\<rparr>" by (simp add: tailer_open_def)
  have again: "poll_lines ?w \<lparr>ft_offset = 2\<rparr> = (?w, \<lparr>ft_offset = 2\<rparr>, Inr [])"
    by (simp add: poll_lines_def poll_loop.simps read_until_def newline_def)
  have "codecs_ok (nd_codecs ?nd)" by (simp add: node_new_def codecs_ok_def)
  from run_lines [OF this, of "''raw''" E now sigma "[''a'']"] obtain nd' where
    r: "run_frames E now (map (line_frame ''raw'' sigma) [''a'']) ?nd = Inr nd'"
    "map raw_text (stream nd') = map raw_text (stream ?nd) @ [trim_end ''a'']" by auto
  have "stream ?nd = []" by (simp add: node_new_def stream_def index_open_def)
  with arg_cong [OF r(2), of length] have "length (stream nd') = 1" by simp
  moreover have "stream (node_restart miner engine corr nd') = []"
    using run_frames_docs [OF r(1)] by (simp add: node_restart_def stream_def node_new_def index_open_def)
  ultimately show ?thesis using p r(1) again unfolding reopen [symmetric] by blast
qed

section \<open>Replay\<close>

fun mine_events :: "'g::linorder f32_ops \<Rightarrow> event list \<Rightarrow> 'g template_miner \<Rightarrow> event list \<times> 'g template_miner" where
  "mine_events F [] m = ([], m)"
| "mine_events F (ev # evs) m =
     (let (m1, x) = mine F (ev_message ev) m; (es, m2) = mine_events F evs m1
      in (ev\<lparr>ev_template_id := Some (mn_template_id x)\<rparr> # es, m2))"

fun decode_lines ::
  "('f, 'g::linorder) pipeline_env \<Rightarrow> timestamp \<Rightarrow> string \<Rightarrow> string list \<Rightarrow> nat \<Rightarrow> 'g template_miner \<Rightarrow>
     (event list \<times> 'g template_miner) result" where
  "decode_lines E now kind [] n m = Inr ([], m)"
| "decode_lines E now kind (l # ls) n m =
     and_then (decode (pe_parse_json E) (build_codec kind) l) (\<lambda>rs.
       let (es, m1) = mine_events (pe_f32 E)
             (map (\<lambda>(i, r). normalize (pe_display E) (pe_ulid E i) now (pe_tenant E) r) (enumerate n rs)) m
       in and_then (decode_lines E now kind ls (n + length rs) m1) (\<lambda>(es', m2). Inr (es @ es', m2)))"

definition file_lines :: "string \<Rightarrow> string list" where
  "file_lines content = filter (\<lambda>l. l \<noteq> []) (split_char newline content)"

definition decode_file ::
  "('f, 'g::linorder) pipeline_env \<Rightarrow> timestamp \<Rightarrow> 'g template_miner \<Rightarrow> string \<Rightarrow> string \<Rightarrow> file_view \<Rightarrow> event list result" where
  "decode_file E now m kind path f =
     (case f of
        Content s \<Rightarrow> and_then (decode_lines E now kind (file_lines s) 0 m) (\<lambda>(es, _). Inr es)
      | NotFound \<Rightarrow> Inl (Io (''reading '' @ path @ '': not found''))
      | Denied e \<Rightarrow> Inl (Io (''reading '' @ path @ '': '' @ e)))"

record replay_outcome =
  ro_events :: nat
  ro_alerts :: "alert list"

definition replay_file ::
  "('f, 'g::linorder) pipeline_env \<Rightarrow> timestamp \<Rightarrow> 'g template_miner \<Rightarrow> sigma_engine \<Rightarrow> string \<Rightarrow> string \<Rightarrow> file_view \<Rightarrow>
     event_index \<times> columnar_store \<Rightarrow> (event_index \<times> columnar_store \<times> replay_outcome) result" where
  "replay_file E now m engine kind path f x =
     and_then (decode_file E now m kind path f) (\<lambda>es.
       Inr (index_events es (fst x), fst (write_segment (pe_json E) now es (snd x)),
            \<lparr>ro_events = length es, ro_alerts = concat (map (engine_eval (pe_sigma E) now engine) es)\<rparr>))"

lemma detect_keeps [simp]: "nd_miner (detect E now ev nd) = nd_miner nd" "nd_fresh (detect E now ev nd) = nd_fresh nd"
  by (simp_all add: detect_def split: prod.splits)

lemma process_mined:
  assumes "mine_events (pe_f32 E) evs (nd_miner nd) = (es, m)"
  shows "let nd' = fold (process_event E now sigma True) evs nd
    in stream nd' = stream nd @ es \<and> nd_miner nd' = m \<and> nd_codecs nd' = nd_codecs nd \<and> nd_fresh nd' = nd_fresh nd"
  using assms
proof (induction evs arbitrary: nd es)
  case (Cons ev evs)
  obtain m1 x es' where m: "mine (pe_f32 E) (ev_message ev) (nd_miner nd) = (m1, x)"
    "mine_events (pe_f32 E) evs m1 = (es', m)" "es = ev\<lparr>ev_template_id := Some (mn_template_id x)\<rparr> # es'"
    using Cons.prems by (auto simp: Let_def split: prod.splits)
  let ?ev = "ev\<lparr>ev_template_id := Some (mn_template_id x)\<rparr>" and ?nd1 = "nd\<lparr>nd_miner := m1\<rparr>"
  let ?nd = "index_event E ?ev (if sigma then detect E now ?ev ?nd1 else ?nd1)"
  have "process_event E now sigma True ev nd = ?nd"
    using m(1) by (simp add: process_event_def with_template_def Let_def)
  moreover have "stream ?nd = stream nd @ [?ev]" "nd_miner ?nd = m1" "nd_codecs ?nd = nd_codecs nd" "nd_fresh ?nd = nd_fresh nd"
    by (simp_all add: stream_cong [of ?nd1 nd] stream_cong [of "detect E now ?ev ?nd1" nd])
  ultimately show ?case using Cons.IH [of ?nd es'] m(2,3) by (simp add: Let_def)
qed simp

lemma run_lines_decode:
  assumes "codecs_ok (nd_codecs nd)"
  shows "\<exists>nd' es m. run_frames (E\<lparr>pe_chain := []\<rparr>) now (map (line_frame kind sigma) ls) nd = Inr nd' \<and>
    decode_lines E now kind ls (nd_fresh nd) (nd_miner nd) = Inr (es, m) \<and> stream nd' = stream nd @ es"
  using assms
proof (induction ls arbitrary: nd)
  case (Cons l ls)
  let ?E = "E\<lparr>pe_chain := []\<rparr>"
  obtain cs c where g: "codec_get kind (nd_codecs nd) = (cs, c)" by fastforce
  with codec_get_ok [OF Cons.prems, of kind] have c: "c = build_codec kind" "codecs_ok cs" by auto
  obtain rs where rs: "decode (pe_parse_json E) c l = Inr rs" by (cases c) auto
  let ?evs = "map (\<lambda>(i, r). normalize (pe_display E) (pe_ulid E i) now (pe_tenant E) r) (enumerate (nd_fresh nd) rs)"
  let ?nd = "nd\<lparr>nd_codecs := cs, nd_fresh := nd_fresh nd + length rs\<rparr>"
  obtain es1 m1 where m1: "mine_events (pe_f32 E) ?evs (nd_miner nd) = (es1, m1)" by fastforce
  let ?nd1 = "fold (process_event ?E now sigma True) ?evs ?nd"
  have f: "on_frame ?E now (line_frame kind sigma l) nd = Inr ?nd1"
    by (simp add: on_frame_def decode_normalize_def line_frame_def g rs normalize_from_def chain_apply_def case_prod_beta)
  have nd1: "stream ?nd1 = stream nd @ es1" "nd_miner ?nd1 = m1" "nd_codecs ?nd1 = cs" "nd_fresh ?nd1 = nd_fresh nd + length rs"
    using process_mined [of ?E ?evs ?nd es1 m1 now sigma] m1 by (simp_all add: Let_def stream_cong [of ?nd nd])
  from Cons.IH [of ?nd1] c(2) nd1(3) obtain nd' es m where
    "run_frames ?E now (map (line_frame kind sigma) ls) ?nd1 = Inr nd'"
    "decode_lines E now kind ls (nd_fresh ?nd1) (nd_miner ?nd1) = Inr (es, m)" "stream nd' = stream ?nd1 @ es" by auto
  then show ?case using f nd1 rs m1 c(1) by (simp add: Let_def)
qed simp

lemma set_split_char: "l \<in> set (split_char d s) \<Longrightarrow> set l \<subseteq> set s"
proof (induction s arbitrary: l)
  case (Cons c s)
  obtain w ws where ws: "split_char d s = w # ws" by (cases "split_char d s") auto
  have "set k \<subseteq> set s" if "k \<in> {w} \<union> set ws" for k using that by (intro Cons.IH) (auto simp: ws)
  then show ?case using Cons.prems by (fastforce simp: ws split: if_splits)
qed simp

text \<open>On a file of complete lines without carriage returns, replay cuts the lines the tailer delivers.\<close>

lemma file_lines_complete:
  assumes "carriage_return \<notin> set s" and "s = [] \<or> last s = newline"
  shows "file_lines s = complete_lines s"
proof (cases s rule: rev_cases)
  case Nil
  then show ?thesis by (simp add: file_lines_def complete_lines_def nonempty_lines_def)
next
  case (snoc u c)
  with assms have s: "s = u @ [newline]" by simp
  have pieces: "set l \<subseteq> set u" if "l \<in> set (split_char newline u)" for l
    using that by (rule set_split_char)
  have "strip_cr l = l" if "l \<in> set (split_char newline u)" for l
  proof -
    have "carriage_return \<notin> set l" using pieces [OF that] assms(1) by (auto simp: s)
    then show ?thesis unfolding strip_cr_def by (metis last_in_set)
  qed
  then show ?thesis
    by (simp add: s file_lines_def complete_lines_def split_char_append_sep nonempty_lines_def map_idI)
qed

text \<open>
  C26: Replay is the pipeline without enrichers: for a file whose lines all end in a newline and hold no
  carriage return, replaying it gives exactly the events, ids and templates included, that the loop
  of a node without enrichers, whether or not it runs detection, hands to its index for the frames of
  the lines the tailer delivers; they are searchable at once and form one segment; the alerts
  are those of the Sigma rules alone.
\<close>

theorem replay_is_live:
  assumes "carriage_return \<notin> set s" and "s = [] \<or> last s = newline"
  shows "\<exists>nd'. run_frames (E\<lparr>pe_chain := []\<rparr>) now (map (line_frame kind sigma) (complete_lines s))
       (node_new m engine corr alerts dir archive) = Inr nd' \<and>
     (\<exists>x' c'. replay_file E now m engine kind path (Content s) (index_open, columnar_open dir archive) =
        Inr (x', c', \<lparr>ro_events = length (stream nd'), ro_alerts = concat (map (engine_eval (pe_sigma E) now engine) (stream nd'))\<rparr>) \<and>
      ei_docs x' = stream nd' \<and> ei_writer x' = [] \<and>
      contents c' = (if stream nd' = [] then [] else [(ulid_like now, events_to_batch (pe_json E) (stream nd'))]))"
proof -
  let ?nd = "node_new m engine corr alerts dir archive"
  note lines = file_lines_complete [OF assms]
  have "codecs_ok (nd_codecs ?nd)" by (simp add: node_new_def codecs_ok_def)
  from run_lines_decode [OF this, of E now kind sigma "file_lines s"] obtain nd' es m' where
    r: "run_frames (E\<lparr>pe_chain := []\<rparr>) now (map (line_frame kind sigma) (file_lines s)) ?nd = Inr nd'"
    "decode_lines E now kind (file_lines s) 0 m = Inr (es, m')" "stream nd' = es"
    by (auto simp: node_new_def stream_def index_open_def)
  have add: "fold index_add evs x = x\<lparr>ei_writer := ei_writer x @ evs\<rparr>" for evs x
    by (induction evs arbitrary: x) (simp_all add: index_add_def)
  have docs: "ei_docs (index_events es index_open) = es" "ei_writer (index_events es index_open) = []"
    by (simp_all add: index_events_def add index_commit_def index_open_def)
  have c0: "store_ok (columnar_open dir archive)" "contents (columnar_open dir archive) = []"
    by (simp_all add: store_ok_def contents_def columnar_open_def)
  have cold: "contents (fst (write_segment (pe_json E) now es (columnar_open dir archive))) =
      (if es = [] then [] else [(ulid_like now, events_to_batch (pe_json E) es)])"
    using segments.wr_held [OF c0(1), of es now] c0 by (auto simp: write_segment_def)
  show ?thesis using r docs cold unfolding lines by (auto simp: replay_file_def decode_file_def lines)
qed

section \<open>Examples\<close>

definition demo_pipe :: "(nat, nat) pipeline_env" where
  "demo_pipe =
     \<lparr>pe_parse_json = (\<lambda>_. Inl []), pe_display = (\<lambda>_. []), pe_tenant = ''t'', pe_sigma = demo_env, pe_enrich = demo_enrich_env,
      pe_detect = \<lparr>fe_parse = (\<lambda>_. None), fe_less = (<), fe_default_threshold = 0, fe_display = (\<lambda>_. [])\<rparr>,
      pe_f32 = \<lparr>f32_one = 1, f32_ratio = (\<lambda>_ _. 0)\<rparr>, pe_json = demo_json, pe_hash = (\<lambda>_ _ _. 0), pe_ulid = (\<lambda>_. ''u''),
      pe_clock = int, pe_chain = [], pe_detectors = [], pe_sigma_active = False, pe_retention = None, pe_warm = None\<rparr>"

abbreviation demo_node :: "(nat, nat) node" where
  "demo_node \<equiv> node_new (template_miner_new 1) \<lparr>en_rules = []\<rparr> (correlation_engine_new []) (None, ring_new 1) ''d'' None"

definition demo_run :: "(nat, nat) node" where
  "demo_run = on_agent_event demo_pipe 0 (new_event ''e'' 5 ''t'') demo_node"

lemma demo_run_facts: "length (stream demo_run) = 1" "nd_readings demo_run = 0" "(node_step demo_pipe)\<^sup>*\<^sup>* demo_node demo_run"
proof -
  have "length (map untemplated (stream demo_run)) = 1"
    unfolding demo_run_def on_agent_event_def process_event_stream by (simp add: node_new_def stream_def index_open_def)
  then show "length (stream demo_run) = 1" by simp
  obtain m x where "mine (pe_f32 demo_pipe) [] (template_miner_new 1) = (m, x)" by fastforce
  then show "nd_readings demo_run = 0"
    by (simp add: demo_run_def on_agent_event_def process_event_def with_template_def node_new_def new_event_def demo_pipe_def
        index_event_def roll_max_def)
  show "(node_step demo_pipe)\<^sup>*\<^sup>* demo_node demo_run"
    unfolding demo_run_def by (rule r_into_rtranclp, rule node_step.agent_event)
qed

theorem tiers_agree_witness:
  "\<exists>W. concat (map snd W) @ events_to_batch demo_json (nd_buffer demo_run) = events_to_batch demo_json (stream demo_run) \<and>
     contents (nd_cold demo_run) = W \<and> length (stream demo_run) = 1"
  using tiers_agree [OF _ demo_run_facts(3)] demo_run_facts(1,2) by (auto simp: demo_pipe_def)

theorem replay_is_live_witness:
  "\<exists>nd' x' c' ro. run_frames (demo_pipe\<lparr>pe_chain := []\<rparr>) 0 (map (line_frame ''raw'' False) (complete_lines [CHR ''a'', newline])) demo_node =
       Inr nd' \<and>
     replay_file demo_pipe 0 (template_miner_new 1) \<lparr>en_rules = []\<rparr> ''raw'' ''p'' (Content [CHR ''a'', newline])
       (index_open, columnar_open ''d'' None) = Inr (x', c', ro) \<and> ei_docs x' = stream nd'"
proof -
  have pre: "carriage_return \<notin> set [CHR ''a'', newline]" "[CHR ''a'', newline] = [] \<or> last [CHR ''a'', newline] = newline"
    by (simp_all add: carriage_return_def newline_def char_of_def bit_iff_odd)
  from replay_is_live [OF pre, of demo_pipe 0 "''raw''" False "template_miner_new 1" "\<lparr>en_rules = []\<rparr>" "correlation_engine_new []"
      "(None, ring_new 1)" "''d''" None "''p''"]
  show ?thesis by blast
qed

theorem ticks_flush_witness:
  "let nd' = on_rollover demo_pipe (on_commit demo_run)
   in length (ei_docs (nd_index nd')) = 1 \<and> nd_buffer nd' = [] \<and>
      concat (map snd (contents (nd_cold nd'))) = events_to_batch demo_json (ei_docs (nd_index nd'))"
  using ticks_flush [OF _ demo_run_facts(3)] demo_run_facts(1,2) by (simp add: Let_def) (simp add: demo_pipe_def)

theorem file_to_index_witness:
  "\<exists>nd'. run_frames demo_pipe 0 (map (line_frame ''raw'' False) [''a'']) demo_node = Inr nd' \<and>
     prefix (map raw_text (stream nd')) (map trim_end (complete_lines [CHR ''a'', newline])) \<and> map raw_text (stream nd') = [''a'']"
proof -
  let ?w0 = "\<lparr>fs_file = Content [CHR ''a'', newline], fs_checkpoint = None, fs_writable = True\<rparr>"
  have p: "poll_lines ?w0 \<lparr>ft_offset = 0\<rparr> = (?w0\<lparr>fs_checkpoint := Some ''2''\<rparr>, \<lparr>ft_offset = 2\<rparr>, Inr [''a''])"
    by (simp add: poll_lines_def poll_loop.simps read_until_def newline_def chomp_def carriage_return_def
        write_checkpoint_def show_nat_def show_nat_acc.simps char_of_def bit_iff_odd)
  have "codecs_ok (nd_codecs demo_node)" by (simp add: node_new_def codecs_ok_def)
  from run_lines [OF this, of "''raw''" demo_pipe 0 False "[''a'']"] obtain nd' where
    r: "run_frames demo_pipe 0 (map (line_frame ''raw'' False) [''a'']) demo_node = Inr nd'"
    "map raw_text (stream nd') = map raw_text (stream demo_node) @ [trim_end ''a'']" by auto
  have "stream demo_node = []" by (simp add: node_new_def stream_def index_open_def)
  with r(2) have a: "map raw_text (stream nd') = [''a'']" by (simp add: trim_end_def is_space_def)
  from file_step.poll [OF p r(1)] have
    "(file_step demo_pipe ''raw'' False)\<^sup>*\<^sup>* (?w0, \<lparr>ft_offset = 0\<rparr>, demo_node) (?w0\<lparr>fs_checkpoint := Some ''2''\<rparr>, \<lparr>ft_offset = 2\<rparr>, nd')"
    by (rule r_into_rtranclp)
  note run = this
  have pre: "''raw'' \<noteq> ''json''" "length [CHR ''a'', newline] \<le> u64_max" by (simp_all add: u64_max_def)
  from file_to_index [OF pre run] obtain s where s: "fs_file (?w0\<lparr>fs_checkpoint := Some ''2''\<rparr>) = Content s"
    "prefix (map raw_text (stream nd')) (map trim_end (complete_lines s))" by blast
  from s(1) have "s = [CHR ''a'', newline]" by simp
  with s(2) have pre': "prefix (map raw_text (stream nd')) (map trim_end (complete_lines [CHR ''a'', newline]))" by simp
  show ?thesis by (intro exI [of _ nd'] conjI) (rule r(1), rule pre', rule a)
qed

end
