(* ===== verification/Ieee_Float.thy ===== *)
theory Ieee_Float
  imports Sigil_Prelude Complex_Main
begin

text \<open>
  The floating-point numbers of the language, as the correlation, evaluation and analytics code uses
  them: binary interchange formats (\<open>f32\<close>, \<open>f64\<close>) with rounding to nearest, ties to even, gradual
  underflow and overflow to infinity. A number is NaN (payload and sign are not specified by the
  language and not kept; \<open>total_cmp\<close> places the positive quiet NaN last), an infinity, the negative
  zero, or a rational value. All operations compute; the square root is exactly rounded. Functions of
  the C library such as \<open>ln\<close> are parameters where they are used.
\<close>

section \<open>Numbers\<close>

datatype fl = NaN | PInf | NInf | NZero | Num rat

record fl_format =
  fm_prec :: nat
  fm_emin :: int

definition f32 :: fl_format where
  "f32 = \<lparr>fm_prec = 24, fm_emin = -126\<rparr>"

definition f64 :: fl_format where
  "f64 = \<lparr>fm_prec = 53, fm_emin = -1022\<rparr>"

definition pow2 :: "int \<Rightarrow> rat" where
  "pow2 e = (if 0 \<le> e then 2 ^ nat e else 1 / 2 ^ nat (- e))"

function bit_len :: "int \<Rightarrow> int" where
  "bit_len n = (if n \<le> 0 then 0 else 1 + bit_len (n div 2))"
  by pat_completeness auto
termination by (relation "measure nat") auto

declare bit_len.simps [simp del]

text \<open>The exponent of a positive rational: \<open>pow2 e \<le> q < pow2 (e + 1)\<close>.\<close>

definition ilog2 :: "rat \<Rightarrow> int" where
  "ilog2 q =
     (let (a, b) = quotient_of q; e = bit_len a - bit_len b
      in if pow2 e \<le> q then e else e - 1)"

definition round_half_even :: "rat \<Rightarrow> int" where
  "round_half_even q =
     (let f = \<lfloor>q\<rfloor>; d = q - of_int f
      in if d < 1 / 2 then f else if 1 / 2 < d then f + 1 else if even f then f else f + 1)"

text \<open>The distance of neighbouring numbers around \<open>q\<close>, and the smallest value out of range.\<close>

definition ulp :: "fl_format \<Rightarrow> int \<Rightarrow> rat" where
  "ulp m e = pow2 (max e (fm_emin m) - (int (fm_prec m) - 1))"

definition too_big :: "fl_format \<Rightarrow> rat" where
  "too_big m = pow2 (2 - fm_emin m)"

definition pack :: "fl_format \<Rightarrow> bool \<Rightarrow> rat \<Rightarrow> fl" where
  "pack m neg v =
     (if too_big m \<le> v then PInf else if v \<le> - too_big m then NInf
      else if v = 0 \<and> neg then NZero else Num v)"

definition fround :: "fl_format \<Rightarrow> rat \<Rightarrow> fl" where
  "fround m q =
     (if q = 0 then Num 0
      else let u = ulp m (ilog2 \<bar>q\<bar>) in pack m (q < 0) (of_int (round_half_even (q / u)) * u))"

section \<open>Operations\<close>

fun fval :: "fl \<Rightarrow> rat" where
  "fval (Num q) = q"
| "fval _ = 0"

fun negative :: "fl \<Rightarrow> bool" where
  "negative NInf = True"
| "negative NZero = True"
| "negative (Num q) = (q < 0)"
| "negative _ = False"

definition fsign :: "bool \<Rightarrow> fl" where
  "fsign neg = (if neg then NInf else PInf)"

definition fzero :: "bool \<Rightarrow> fl" where
  "fzero neg = (if neg then NZero else Num 0)"

definition is_zero :: "fl \<Rightarrow> bool" where
  "is_zero x \<longleftrightarrow> x = NZero \<or> x = Num 0"

definition is_inf :: "fl \<Rightarrow> bool" where
  "is_inf x \<longleftrightarrow> x = PInf \<or> x = NInf"

fun fneg :: "fl \<Rightarrow> fl" where
  "fneg NaN = NaN"
| "fneg PInf = NInf"
| "fneg NInf = PInf"
| "fneg NZero = Num 0"
| "fneg (Num q) = (if q = 0 then NZero else Num (- q))"

definition fadd :: "fl_format \<Rightarrow> fl \<Rightarrow> fl \<Rightarrow> fl" where
  "fadd m x y =
     (if x = NaN \<or> y = NaN then NaN
      else if is_inf x \<and> is_inf y \<and> x \<noteq> y then NaN
      else if is_inf x then x
      else if is_inf y then y
      else if x = NZero \<and> y = NZero then NZero
      else fround m (fval x + fval y))"

definition fsub :: "fl_format \<Rightarrow> fl \<Rightarrow> fl \<Rightarrow> fl" where
  "fsub m x y = fadd m x (fneg y)"

definition fmul :: "fl_format \<Rightarrow> fl \<Rightarrow> fl \<Rightarrow> fl" where
  "fmul m x y =
     (let neg = (negative x \<noteq> negative y)
      in if x = NaN \<or> y = NaN then NaN
         else if is_inf x \<and> is_zero y \<or> is_zero x \<and> is_inf y then NaN
         else if is_inf x \<or> is_inf y then fsign neg
         else if is_zero x \<or> is_zero y then fzero neg
         else fround m (fval x * fval y))"

definition fdiv :: "fl_format \<Rightarrow> fl \<Rightarrow> fl \<Rightarrow> fl" where
  "fdiv m x y =
     (let neg = (negative x \<noteq> negative y)
      in if x = NaN \<or> y = NaN then NaN
         else if is_inf x \<and> is_inf y \<or> is_zero x \<and> is_zero y then NaN
         else if is_inf x \<or> is_zero y then fsign neg
         else if is_inf y \<or> is_zero x then fzero neg
         else fround m (fval x / fval y))"

text \<open>Exact integer square root, and the rounded root of a positive rational.\<close>

function isqrt :: "int \<Rightarrow> int" where
  "isqrt n =
     (if n \<le> 0 then 0
      else let r = 2 * isqrt (n div 4) in if (r + 1) * (r + 1) \<le> n then r + 1 else r)"
  by pat_completeness auto
termination by (relation "measure nat") auto

declare isqrt.simps [simp del]

definition fsqrt :: "fl_format \<Rightarrow> fl \<Rightarrow> fl" where
  "fsqrt m x =
     (case x of
        Num q \<Rightarrow>
          if q < 0 then NaN
          else if q = 0 then Num 0
          else
            (let u = ulp m (ilog2 q div 2); z = q / (u * u); n = isqrt \<lfloor>z\<rfloor>;
                 h = (of_int n + 1 / 2) * (of_int n + 1 / 2);
                 k = (if h < z \<or> h = z \<and> odd n then n + 1 else n)
             in pack m False (of_int k * u))
      | NInf \<Rightarrow> NaN
      | _ \<Rightarrow> x)"

text \<open>A literal, and the cast of an integer.\<close>

definition flit :: "fl_format \<Rightarrow> rat \<Rightarrow> fl" where
  "flit m q = fround m q"

definition of_integer :: "fl_format \<Rightarrow> int \<Rightarrow> fl" where
  "of_integer m i = fround m (of_int i)"

section \<open>Order\<close>

text \<open>
  \<open>rank\<close> embeds the numbers into a lexicographic product; \<open>total_cmp\<close> is its order, made the
  \<open>linorder\<close> of the type. The partial comparisons of the operators are false on NaN and do not
  distinguish the zeros.
\<close>

fun rank :: "fl \<Rightarrow> int" where
  "rank NInf = 0"
| "rank NZero = 1"
| "rank (Num q) = 1"
| "rank PInf = 2"
| "rank NaN = 3"

instantiation fl :: linorder
begin

definition less_eq_fl :: "fl \<Rightarrow> fl \<Rightarrow> bool" where
  "less_eq_fl x y \<longleftrightarrow>
     rank x < rank y \<or>
     rank x = rank y \<and> (fval x < fval y \<or> fval x = fval y \<and> (x = NZero \<or> y \<noteq> NZero))"

definition less_fl :: "fl \<Rightarrow> fl \<Rightarrow> bool" where
  "less_fl x y \<longleftrightarrow> \<not> (y :: fl) \<le> x"

instance
proof
  fix x y z :: fl
  show "x \<le> x" by (simp add: less_eq_fl_def)
  show "x \<le> z" if "x \<le> y" "y \<le> z"
    using that by (cases x; cases y; cases z) (auto simp: less_eq_fl_def)
  show "x = y" if "x \<le> y" "y \<le> x"
    using that by (cases x; cases y) (auto simp: less_eq_fl_def)
  show "x \<le> y \<or> y \<le> x" by (cases x; cases y) (auto simp: less_eq_fl_def)
  show "x < y \<longleftrightarrow> x \<le> y \<and> \<not> y \<le> x"
    by (cases x; cases y) (auto simp: less_eq_fl_def less_fl_def)
qed

end

definition flt :: "fl \<Rightarrow> fl \<Rightarrow> bool" where
  "flt x y \<longleftrightarrow>
     x \<noteq> NaN \<and> y \<noteq> NaN \<and> (rank x < rank y \<or> rank x = rank y \<and> fval x < fval y)"

definition feq :: "fl \<Rightarrow> fl \<Rightarrow> bool" where
  "feq x y \<longleftrightarrow> x \<noteq> NaN \<and> y \<noteq> NaN \<and> rank x = rank y \<and> fval x = fval y"

definition fle :: "fl \<Rightarrow> fl \<Rightarrow> bool" where
  "fle x y \<longleftrightarrow> flt x y \<or> feq x y"

text \<open>\<open>min\<close> and \<open>max\<close> ignore a NaN operand; \<open>clamp\<close> keeps it.\<close>

definition fmin :: "fl \<Rightarrow> fl \<Rightarrow> fl" where
  "fmin x y = (if x = NaN then y else if y = NaN then x else if flt y x then y else x)"

definition fmax :: "fl \<Rightarrow> fl \<Rightarrow> fl" where
  "fmax x y = (if x = NaN then y else if y = NaN then x else if flt x y then y else x)"

definition fclamp :: "fl \<Rightarrow> fl \<Rightarrow> fl \<Rightarrow> fl" where
  "fclamp lo hi x = (if flt x lo then lo else if flt hi x then hi else x)"

text \<open>\<open>iter().sum()\<close> starts from the negative zero.\<close>

definition fsum :: "fl_format \<Rightarrow> fl list \<Rightarrow> fl" where
  "fsum m xs = fold (\<lambda>x s. fadd m s x) xs NZero"

text \<open>\<open>sort_by(|a, b| b.total_cmp(a))\<close>: a stable sort by descending key.\<close>

definition sort_down :: "('a \<Rightarrow> fl) \<Rightarrow> 'a list \<Rightarrow> 'a list" where
  "sort_down f xs = rev (sort_key f (rev xs))"

text \<open>Formatting with a fixed number of decimals, \<open>{:.d}\<close>: the exact value, ties to even.\<close>

definition pad_left :: "nat \<Rightarrow> string \<Rightarrow> string" where
  "pad_left n s = replicate (n - length s) CHR ''0'' @ s"

definition show_fixed :: "nat \<Rightarrow> fl \<Rightarrow> string" where
  "show_fixed d x =
     (let sign = (if negative x then ''-'' else []); n = nat (round_half_even (\<bar>fval x\<bar> * 10 ^ d))
      in if x = NaN then ''NaN''
         else if is_inf x then sign @ ''inf''
         else if d = 0 then sign @ show_nat n
         else sign @ show_nat (n div 10 ^ d) @ ''.'' @ pad_left d (show_nat (n mod 10 ^ d)))"

section \<open>Facts\<close>

text \<open>Numbers that are neither NaN nor below zero; they are closed under the sums and products.\<close>

fun nonneg :: "fl \<Rightarrow> bool" where
  "nonneg (Num q) = (0 \<le> q)"
| "nonneg PInf = True"
| "nonneg _ = False"

fun positive :: "fl \<Rightarrow> bool" where
  "positive (Num q) = (0 < q)"
| "positive PInf = True"
| "positive _ = False"

lemma nonneg_simps: "nonneg x \<Longrightarrow> x \<noteq> NaN \<and> x \<noteq> NInf \<and> x \<noteq> NZero \<and> 0 \<le> fval x"
  by (cases x) auto

lemma pow2_pos [simp]: "0 < pow2 e"
  by (simp add: pow2_def)

lemma ulp_pos [simp]: "0 < ulp m e"
  by (simp add: ulp_def)

lemma round_half_even_nonneg: "0 \<le> q \<Longrightarrow> 0 \<le> round_half_even q"
  by (simp add: round_half_even_def Let_def)

lemma pack_nonneg: "0 \<le> v \<Longrightarrow> nonneg (pack m False v)"
  using pow2_pos [of "2 - fm_emin m"] by (auto simp: pack_def too_big_def simp del: pow2_pos)

lemma fround_nonneg [simp]: "0 \<le> q \<Longrightarrow> nonneg (fround m q)"
  by (simp add: fround_def Let_def pack_nonneg round_half_even_nonneg less_imp_le)

lemma nonneg_add [simp]: "nonneg x \<Longrightarrow> nonneg y \<Longrightarrow> nonneg (fadd m x y)"
  by (cases x; cases y) (auto simp: fadd_def is_inf_def)

lemma nonneg_mul [simp]: "positive x \<Longrightarrow> x \<noteq> PInf \<Longrightarrow> nonneg y \<Longrightarrow> nonneg (fmul m x y)"
  by (cases x; cases y) (auto simp: fmul_def is_inf_def is_zero_def fsign_def fzero_def Let_def)

lemma nonneg_div [simp]: "nonneg x \<Longrightarrow> x \<noteq> PInf \<Longrightarrow> positive y \<Longrightarrow> nonneg (fdiv m x y)"
  by (cases x; cases y) (auto simp: fdiv_def is_inf_def is_zero_def fsign_def fzero_def Let_def)

text \<open>The order on numbers that are not NaN; a bounded number is finite.\<close>

lemma flt_le: "flt x y \<Longrightarrow> x \<le> y"
  by (cases x; cases y) (auto simp: flt_def less_eq_fl_def)

lemma not_flt_le: "\<not> flt y x \<Longrightarrow> nonneg x \<Longrightarrow> nonneg y \<Longrightarrow> x \<le> y"
  by (cases x; cases y) (auto simp: flt_def less_eq_fl_def)

definition between :: "rat \<Rightarrow> rat \<Rightarrow> fl \<Rightarrow> bool" where
  "between a b x \<longleftrightarrow> (\<exists>q. x = Num q \<and> a \<le> q \<and> q \<le> b)"

lemma between_min: "nonneg x \<Longrightarrow> 0 \<le> b \<Longrightarrow> between 0 b (fmin x (Num b))"
  by (cases x) (auto simp: between_def fmin_def flt_def)

lemma between_clamp: "nonneg x \<Longrightarrow> 0 \<le> b \<Longrightarrow> between 0 b (fclamp (Num 0) (Num b) x)"
  by (cases x) (auto simp: between_def fclamp_def flt_def)

lemma between_nonneg: "between a b x \<Longrightarrow> 0 \<le> a \<Longrightarrow> nonneg x \<and> x \<noteq> PInf"
  by (auto simp: between_def)

lemma set_sort_down [simp]: "set (sort_down f xs) = set xs"
  by (simp add: sort_down_def)

lemma mset_sort_down [simp]: "mset (sort_down f xs) = mset xs"
  by (simp add: sort_down_def)

lemma length_sort_down [simp]: "length (sort_down f xs) = length xs"
  by (simp add: sort_down_def)

lemma sorted_sort_down: "sorted_wrt (\<lambda>x y. f y \<le> f x) (sort_down f xs)"
  using sorted_sort_key [of f "rev xs"]
  by (simp add: sort_down_def sorted_wrt_rev sorted_map)

lemma take_sort_down_top:
  assumes "x \<in> set (take n (sort_down f xs))" and "y \<in> set (drop n (sort_down f xs))"
  shows "f y \<le> f x"
proof -
  have "sorted_wrt (\<lambda>x y. f y \<le> f x) (take n (sort_down f xs) @ drop n (sort_down f xs))"
    using sorted_sort_down [of f xs] by simp
  then show ?thesis using assms by (simp add: sorted_wrt_append del: append_take_drop_id)
qed

subsection \<open>Rounding is close\<close>

lemma pow2_powi: "pow2 e = 2 powi e"
  by (cases "0 \<le> e") (simp_all add: pow2_def power_int_def power_one_over)

lemma pow2_add: "pow2 (a + b) = pow2 a * pow2 b"
  unfolding pow2_powi by (rule power_int_add) simp

lemma pow2_mono: "a \<le> b \<Longrightarrow> pow2 a \<le> pow2 b"
  unfolding pow2_powi by (rule power_int_increasing) simp_all

lemma pow2_nonneg [simp]: "0 \<le> pow2 e"
  using pow2_pos [of e] by linarith

lemma pow2_1 [simp]: "pow2 0 = 1" "pow2 1 = 2"
  by (simp_all add: pow2_def)

lemma bit_len_nonneg: "0 \<le> bit_len n"
  by (induction n rule: bit_len.induct) (subst bit_len.simps, simp)

lemma bit_len_bounds: "0 < n \<Longrightarrow> pow2 (bit_len n - 1) \<le> of_int n \<and> of_int n < pow2 (bit_len n)"
proof (induction n rule: bit_len.induct)
  case (1 n)
  show ?case
  proof (cases "n = 1")
    case True
    have "bit_len 1 = 1" by (simp add: bit_len.simps)
    with True show ?thesis by (simp add: pow2_def)
  next
    case False
    let ?h = "n div 2"
    have h: "0 < ?h" using 1(2) False by simp
    have n: "2 * ?h \<le> n" "n + 1 \<le> 2 * (?h + 1)" by simp_all
    have ih: "pow2 (bit_len ?h - 1) \<le> of_int ?h" "of_int ?h < pow2 (bit_len ?h)"
      using 1(1) h 1(2) by auto
    have b: "bit_len n = 1 + bit_len ?h" using 1(2) by (subst bit_len.simps) simp
    have le: "(of_int (2 * ?h) :: rat) \<le> of_int n" using n(1) by (simp only: of_int_le_iff)
    have "(pow2 (bit_len ?h) :: rat) = of_int (2 ^ nat (bit_len ?h))"
      using bit_len_nonneg [of ?h] by (simp add: pow2_def)
    with ih(2) have "?h < 2 ^ nat (bit_len ?h)" by (simp only: of_int_less_iff)
    then have "n < 2 * 2 ^ nat (bit_len ?h)" using n(2) by linarith
    then have "(of_int n :: rat) < of_int (2 * 2 ^ nat (bit_len ?h))" by (simp only: of_int_less_iff)
    also have "\<dots> = pow2 (bit_len n)" using bit_len_nonneg [of ?h] b by (simp add: pow2_def nat_add_distrib)
    finally have up: "of_int n < pow2 (bit_len n)" .
    have "pow2 (bit_len n - 1) = 2 * pow2 (bit_len ?h - 1)"
      using pow2_add [of 1 "bit_len ?h - 1"] b by simp
    also have "\<dots> \<le> of_int n" using ih(1) le by simp
    finally show ?thesis using up by simp
  qed
qed

lemma ilog2_le:
  assumes "0 < q"
  shows "pow2 (ilog2 q) \<le> q"
proof -
  obtain a b where ab: "quotient_of q = (a, b)" by fastforce
  have b: "0 < b" and q: "q = of_int a / of_int b"
    using quotient_of_denom_pos [OF ab] quotient_of_div [OF ab] by auto
  have a: "0 < a" using assms b q by (simp add: zero_less_divide_iff)
  let ?e = "bit_len a - bit_len b"
  have "pow2 (?e - 1) * pow2 (bit_len b) = pow2 (bit_len a - 1)"
    by (simp add: pow2_add [symmetric] algebra_simps)
  also have "\<dots> \<le> of_int a" using bit_len_bounds [OF a] by simp
  finally have "pow2 (?e - 1) * pow2 (bit_len b) \<le> of_int a" .
  moreover have "pow2 (?e - 1) * of_int b \<le> pow2 (?e - 1) * pow2 (bit_len b)"
    using bit_len_bounds [OF b] by (intro mult_left_mono) auto
  ultimately have "pow2 (?e - 1) * of_int b \<le> of_int a" by linarith
  then have "pow2 (?e - 1) \<le> q" using b by (simp add: q le_divide_eq)
  then show ?thesis by (simp add: ilog2_def ab Let_def)
qed

lemma round_half_even_close: "\<bar>of_int (round_half_even q) - q\<bar> \<le> 1 / 2"
proof -
  have "of_int \<lfloor>q\<rfloor> \<le> q" "q < of_int \<lfloor>q\<rfloor> + 1" by linarith+
  then show ?thesis by (auto simp: round_half_even_def Let_def)
qed

text \<open>The rounding error is at most half a unit in the last place.\<close>

lemma rounded_close:
  "\<bar>of_int (round_half_even (q / ulp m e)) * ulp m e - q\<bar> \<le> ulp m e / 2"
proof -
  have "of_int (round_half_even (q / ulp m e)) * ulp m e - q
      = (of_int (round_half_even (q / ulp m e)) - q / ulp m e) * ulp m e"
    using ulp_pos [of m e] by (simp add: field_simps del: ulp_pos)
  also have "\<bar>\<dots>\<bar> \<le> 1 / 2 * ulp m e"
    using round_half_even_close [of "q / ulp m e"] ulp_pos [of m e]
    by (simp add: abs_mult mult_right_mono del: ulp_pos)
  finally show ?thesis by simp
qed

text \<open>A number of the normal range is rounded to one between its half and its double.\<close>

lemma fround_normal:
  assumes "1 \<le> q" and "2 * q < too_big m" and "fm_emin m \<le> 0" and "1 \<le> fm_prec m"
  shows "\<exists>v. fround m q = Num v \<and> q / 2 \<le> v \<and> v \<le> 2 * q"
proof -
  let ?e = "ilog2 \<bar>q\<bar>" let ?u = "ulp m ?e" let ?v = "of_int (round_half_even (q / ?u)) * ?u"
  have q: "\<bar>q\<bar> = q" "0 < q" using assms(1) by auto
  have "?u \<le> pow2 (max ?e (fm_emin m))" using assms(4) by (auto simp: ulp_def intro!: pow2_mono)
  also have "\<dots> \<le> q"
    using ilog2_le [OF q(2)] pow2_mono [OF assms(3)] assms(1) q(1) by (auto simp: max_def)
  finally have "?u \<le> q" .
  with rounded_close [of q m ?e] have v: "q / 2 \<le> ?v" "?v \<le> 2 * q" by linarith+
  then have "\<not> too_big m \<le> ?v" "\<not> ?v \<le> - too_big m" using assms(1,2) by linarith+
  then have "fround m q = Num ?v" using q v(1) by (simp add: fround_def Let_def pack_def)
  with v show ?thesis by blast
qed

lemma nonneg_div_finite [simp]: "nonneg x \<Longrightarrow> positive y \<Longrightarrow> y \<noteq> PInf \<Longrightarrow> nonneg (fdiv m x y)"
  by (cases x; cases y) (auto simp: fdiv_def is_inf_def is_zero_def fsign_def fzero_def Let_def)

lemma of_nat_finite:
  assumes "1 \<le> n" and "n < 2 ^ 64"
  shows "\<exists>v. of_integer f32 (int n) = Num v \<and> of_nat n / 2 \<le> v"
proof -
  have "(of_nat n :: rat) \<le> of_nat (2 ^ 64)" using assms(2) by (simp only: of_nat_le_iff less_imp_le)
  moreover have "too_big f32 = 2 ^ 128" by (simp add: too_big_def f32_def pow2_def)
  ultimately have "2 * of_nat n < too_big f32" by simp
  with fround_normal [of "of_nat n" f32] assms(1) show ?thesis
    by (auto simp: of_integer_def f32_def)
qed

lemma positive_one_plus: "nonneg x \<Longrightarrow> positive (fadd f32 (Num 1) x)"
proof (cases x)
  case (Num q)
  assume "nonneg x"
  with Num have q: "1 \<le> 1 + q" by simp
  show ?thesis
  proof (cases "2 * (1 + q) < too_big f32")
    case True
    with fround_normal [OF q True] q Num show ?thesis
      by (auto simp: fadd_def is_inf_def f32_def)
  next
    case False
    let ?e = "ilog2 \<bar>1 + q\<bar>" let ?v = "of_int (round_half_even ((1 + q) / ulp f32 ?e)) * ulp f32 ?e"
    have "ulp f32 ?e \<le> pow2 (max ?e (-126))" by (auto simp: ulp_def f32_def intro!: pow2_mono)
    also have "\<dots> \<le> 1 + q"
      using ilog2_le [of "1 + q"] q pow2_mono [of "-126" 0] by (auto simp: max_def)
    finally have "0 < ?v" using rounded_close [of "1 + q" f32 ?e] q by linarith
    then show ?thesis using q Num pow2_pos [of 128]
      by (auto simp: fadd_def is_inf_def fround_def Let_def pack_def too_big_def f32_def simp del: pow2_pos)
  qed
qed (auto simp: fadd_def is_inf_def)

lemma nonneg_fsum: "xs \<noteq> [] \<Longrightarrow> list_all nonneg xs \<Longrightarrow> nonneg (fsum m xs)"
proof -
  have *: "nonneg s \<Longrightarrow> list_all nonneg ys \<Longrightarrow> nonneg (fold (\<lambda>x s. fadd m s x) ys s)" for s ys
    by (induction ys arbitrary: s) auto
  have "nonneg (fadd m NZero x)" if "nonneg x" for x
    using that by (cases x) (auto simp: fadd_def is_inf_def)
  then show "xs \<noteq> [] \<Longrightarrow> list_all nonneg xs \<Longrightarrow> ?thesis"
    by (cases xs) (auto simp: fsum_def intro: *)
qed

end
