(* ===== verification/Correlate_Vector.thy ===== *)
theory Correlate_Vector
  imports Ieee_Float Core_Event
begin

text \<open>
  Embeddings and nearest neighbours, \<open>crates/sigil-correlate/src/embed.rs\<close>, \<open>vector.rs\<close>,
  \<open>triplet.rs\<close> and \<open>sidecar.rs\<close>: the text an event is embedded by, the feature-hashing embedder, the
  exact store and the layered small-world index. The standard hasher and \<open>f64::ln\<close> are parameters.
  An index out of bounds, a panic in the code, is \<open>None\<close>; it is proved that a store built by \<open>add\<close>
  never panics and that its searches end.
\<close>

section \<open>Embedding an event\<close>

type_synonym vec = "fl list"

fun class_token :: "ocsf_class \<Rightarrow> string" where
  "class_token Authentication = ''authentication''"
| "class_token ProcessActivity = ''process_activity''"
| "class_token FileSystemActivity = ''file_system_activity''"
| "class_token NetworkActivity = ''network_activity''"
| "class_token HttpActivity = ''http_activity''"
| "class_token ApiActivity = ''api_activity''"
| "class_token DnsActivity = ''dns_activity''"
| "class_token ModuleActivity = ''module_activity''"
| "class_token ScheduledJobActivity = ''scheduled_job_activity''"
| "class_token RegistryKeyActivity = ''registry_key_activity''"
| "class_token (OtherClass _) = ''other''"

definition serialize_event :: "event \<Rightarrow> string" where
  "serialize_event e =
     ''class='' @ class_token (ev_class e) @
     (case ev_actor e of Some a \<Rightarrow> '' actor='' @ er_kind a @ '':'' @ er_id a | None \<Rightarrow> []) @
     (case ev_target e of Some t \<Rightarrow> '' target='' @ er_kind t @ '':'' @ er_id t | None \<Rightarrow> []) @
     (case ev_host e of Some h \<Rightarrow> '' host='' @ er_id h | None \<Rightarrow> []) @
     (case ev_template_id e of Some i \<Rightarrow> '' template='' @ show_nat i | None \<Rightarrow> []) @
     (if ev_message e = [] then [] else '' msg='' @ ev_message e)"

definition l2_normalize :: "vec \<Rightarrow> vec" where
  "l2_normalize v =
     (let norm = fsqrt f32 (fsum f32 (map (\<lambda>x. fmul f32 x x) v))
      in if flt (Num 0) norm then map (\<lambda>x. fdiv f32 x norm) v else v)"

text \<open>One token: its bucket and its sign come from the hash.\<close>

definition bump_bucket :: "(string \<Rightarrow> u64) \<Rightarrow> nat \<Rightarrow> string \<Rightarrow> vec \<Rightarrow> vec" where
  "bump_bucket hash_token size_d token v =
     (let h = hash_token (to_lowercase token); bucket = unat h mod size_d;
          sign = (if and (drop_bit 33 h) 1 = 0 then Num 1 else Num (- 1))
      in v[bucket := fadd f32 (v ! bucket) sign])"

definition hashing_embedder_new :: "nat \<Rightarrow> nat" where
  "hashing_embedder_new size_d = max size_d 1"

definition hashing_embed :: "(string \<Rightarrow> u64) \<Rightarrow> nat \<Rightarrow> string \<Rightarrow> vec" where
  "hashing_embed hash_token size_d text =
     l2_normalize (fold (bump_bucket hash_token size_d) (split_whitespace text) (replicate size_d (Num 0)))"

text \<open>The sidecar's vectors, keyed by the serialized text, with the hashing embedder as fallback.\<close>

record precomputed_embedder =
  pe_dim :: nat
  pe_map :: "(string \<times> vec) list"

definition from_map :: "nat \<Rightarrow> (string \<times> vec) list \<Rightarrow> precomputed_embedder" where
  "from_map size_d m = \<lparr>pe_dim = size_d, pe_map = m\<rparr>"

definition covered :: "precomputed_embedder \<Rightarrow> nat" where
  "covered p = length (pe_map p)"

definition precomputed_embed :: "(string \<Rightarrow> u64) \<Rightarrow> precomputed_embedder \<Rightarrow> string \<Rightarrow> vec" where
  "precomputed_embed hash_token p text =
     (case map_of (pe_map p) text of
        Some v \<Rightarrow> v
      | None \<Rightarrow> hashing_embed hash_token (hashing_embedder_new (pe_dim p)) text)"

text \<open>The reply of the sidecar to all texts of a batch becomes the map.\<close>

definition precompute :: "event list \<Rightarrow> vec list \<Rightarrow> nat \<Rightarrow> precomputed_embedder" where
  "precompute events vectors default_dim =
     from_map (case vectors of [] \<Rightarrow> default_dim | v # _ \<Rightarrow> length v)
       (fold (\<lambda>(t, v). hash_insert t v) (zip (map serialize_event events) vectors) [])"

section \<open>Triplets\<close>

record triplet =
  tr_subject :: "entity_ref option"
  tr_action :: string
  tr_object :: "entity_ref option"

fun triplet_action :: "ocsf_class \<Rightarrow> string" where
  "triplet_action Authentication = ''authenticate''"
| "triplet_action ProcessActivity = ''execute''"
| "triplet_action FileSystemActivity = ''access''"
| "triplet_action NetworkActivity = ''connect''"
| "triplet_action HttpActivity = ''request''"
| "triplet_action ApiActivity = ''invoke''"
| "triplet_action DnsActivity = ''resolve''"
| "triplet_action ModuleActivity = ''load''"
| "triplet_action ScheduledJobActivity = ''schedule''"
| "triplet_action RegistryKeyActivity = ''modify''"
| "triplet_action (OtherClass _) = ''event''"

definition extract_triplet :: "event \<Rightarrow> triplet" where
  "extract_triplet e =
     \<lparr>tr_subject = (case ev_actor e of Some a \<Rightarrow> Some a | None \<Rightarrow> ev_host e),
      tr_action = triplet_action (ev_class e), tr_object = ev_target e\<rparr>"

section \<open>The exact store\<close>

definition dot :: "vec \<Rightarrow> vec \<Rightarrow> fl" where
  "dot a b = fsum f32 (map (\<lambda>(x, y). fmul f32 x y) (zip a b))"

type_synonym flat_store = "(string \<times> vec) list"

definition flat_add :: "string \<Rightarrow> vec \<Rightarrow> flat_store \<Rightarrow> flat_store" where
  "flat_add i v s = s @ [(i, v)]"

definition scored_items :: "flat_store \<Rightarrow> vec \<Rightarrow> (string \<times> fl) list" where
  "scored_items s q = map (\<lambda>(i, v). (i, dot q v)) s"

definition flat_knn :: "flat_store \<Rightarrow> vec \<Rightarrow> nat \<Rightarrow> (string \<times> fl) list" where
  "flat_knn s q k = take k (sort_down snd (scored_items s q))"

section \<open>The layered index\<close>

record hnsw_node =
  hn_id :: string
  hn_vector :: vec
  hn_neighbors :: "nat list list"

record hnsw =
  hs_m :: nat
  hs_ef_construction :: nat
  hs_ef_search :: nat
  hs_nodes :: "hnsw_node list"
  hs_entry :: "nat option"

definition hnsw_new :: "nat \<Rightarrow> nat \<Rightarrow> nat \<Rightarrow> hnsw" where
  "hnsw_new m ef_construction ef_search =
     \<lparr>hs_m = max m 2, hs_ef_construction = max ef_construction m, hs_ef_search = max ef_search 1,
      hs_nodes = [], hs_entry = None\<rparr>"

text \<open>The cast of a float to \<open>usize\<close> saturates and sends NaN to zero.\<close>

fun to_usize :: "fl \<Rightarrow> nat" where
  "to_usize (Num q) = min (nat \<lfloor>q\<rfloor>) (2 ^ 64 - 1)"
| "to_usize PInf = 2 ^ 64 - 1"
| "to_usize _ = 0"

definition splitmix :: "nat \<Rightarrow> u64" where
  "splitmix n =
     (let x0 = of_nat n * 0x9e3779b97f4a7c15 + 1;
          x1 = xor x0 (drop_bit 30 x0) * 0xbf58476d1ce4e5b9;
          x2 = xor x1 (drop_bit 27 x1) * 0x94d049bb133111eb
      in xor x2 (drop_bit 31 x2))"

definition assign_layer :: "(fl \<Rightarrow> fl) \<Rightarrow> nat \<Rightarrow> nat \<Rightarrow> nat" where
  "assign_layer f_ln m n =
     (let unit = fdiv f64 (of_integer f64 (uint (drop_bit 11 (splitmix n)))) (of_integer f64 (2 ^ 53));
          ml = fdiv f64 (Num 1) (f_ln (of_integer f64 (int m)))
      in to_usize (fmul f64 (fneg (f_ln (fmax unit (flit f64 (pow2 (- 1022)))))) ml))"

definition max_neighbors :: "hnsw \<Rightarrow> nat \<Rightarrow> nat" where
  "max_neighbors s layer = (if layer = 0 then hs_m s * 2 else hs_m s)"

definition vector_of :: "hnsw \<Rightarrow> nat \<Rightarrow> vec option" where
  "vector_of s n = (if n < length (hs_nodes s) then Some (hn_vector (hs_nodes s ! n)) else None)"

definition neighbors :: "hnsw \<Rightarrow> nat \<Rightarrow> nat \<Rightarrow> nat list option" where
  "neighbors s n layer =
     (if n < length (hs_nodes s) \<and> layer < length (hn_neighbors (hs_nodes s ! n))
      then Some (hn_neighbors (hs_nodes s ! n) ! layer) else None)"

definition sim_to :: "hnsw \<Rightarrow> vec \<Rightarrow> nat \<Rightarrow> fl option" where
  "sim_to s q n = map_option (dot q) (vector_of s n)"

text \<open>The greedy walk: one pass over the neighbours of the current node, repeated while it improves.\<close>

fun greedy_pass :: "hnsw \<Rightarrow> vec \<Rightarrow> nat list \<Rightarrow> fl \<times> nat \<times> bool \<Rightarrow> (fl \<times> nat \<times> bool) option" where
  "greedy_pass s q [] st = Some st"
| "greedy_pass s q (n # ns) (best, ep, improved) =
     (case sim_to s q n of
        None \<Rightarrow> None
      | Some sim \<Rightarrow>
          greedy_pass s q ns (if flt best sim then (sim, n, True) else (best, ep, improved)))"

partial_function (option) greedy_loop :: "hnsw \<Rightarrow> vec \<Rightarrow> nat \<Rightarrow> fl \<Rightarrow> nat \<Rightarrow> nat option" where
  "greedy_loop s q layer best ep =
     (case neighbors s ep layer of
        None \<Rightarrow> None
      | Some ns \<Rightarrow>
          (case greedy_pass s q ns (best, ep, False) of
             None \<Rightarrow> None
           | Some (best', ep', improved) \<Rightarrow>
               if improved then greedy_loop s q layer best' ep' else Some ep'))"

definition greedy_step :: "hnsw \<Rightarrow> vec \<Rightarrow> nat \<Rightarrow> nat \<Rightarrow> nat option" where
  "greedy_step s q ep layer =
     (case sim_to s q ep of None \<Rightarrow> None | Some best \<Rightarrow> greedy_loop s q layer best ep)"

text \<open>The beam search of a layer: the nodes visited, the candidates and the results.\<close>

record beam =
  bm_visited :: "bool list"
  bm_candidates :: "(nat \<times> fl) list"
  bm_results :: "(nat \<times> fl) list"

definition worst :: "(nat \<times> fl) list \<Rightarrow> fl" where
  "worst rs = fold (\<lambda>r w. fmin w (snd r)) rs PInf"

definition indexed_by :: "(('a \<times> fl) \<Rightarrow> 'b) \<Rightarrow> ('a \<times> fl) list \<Rightarrow> (nat \<times> 'b) list" where
  "indexed_by f xs = map (\<lambda>i. (i, f (xs ! i))) [0 ..< length xs]"

definition best_position :: "(nat \<times> fl) list \<Rightarrow> nat option" where
  "best_position cs = map_option fst (max_by_key snd (indexed_by snd cs))"

definition worst_position :: "(nat \<times> fl) list \<Rightarrow> nat option" where
  "worst_position cs = map_option fst (min_by_key snd (indexed_by snd cs))"

definition drop_worst :: "(nat \<times> fl) list \<Rightarrow> (nat \<times> fl) list" where
  "drop_worst rs = (case worst_position rs of None \<Rightarrow> rs | Some i \<Rightarrow> swap_remove i rs)"

definition admit :: "nat \<Rightarrow> nat \<Rightarrow> fl \<Rightarrow> beam \<Rightarrow> beam" where
  "admit ef n sim b =
     (if length (bm_results b) < ef \<or> flt (worst (bm_results b)) sim then
        (let rs = bm_results b @ [(n, sim)]
         in b\<lparr>bm_candidates := bm_candidates b @ [(n, sim)],
              bm_results := (if ef < length rs then drop_worst rs else rs)\<rparr>)
      else b)"

fun expand_node :: "hnsw \<Rightarrow> vec \<Rightarrow> nat \<Rightarrow> nat list \<Rightarrow> beam \<Rightarrow> beam option" where
  "expand_node s q ef [] b = Some b"
| "expand_node s q ef (n # ns) b =
     (if length (bm_visited b) \<le> n then None
      else if bm_visited b ! n then expand_node s q ef ns b
      else
        (case sim_to s q n of
           None \<Rightarrow> None
         | Some sim \<Rightarrow>
             expand_node s q ef ns (admit ef n sim (b\<lparr>bm_visited := (bm_visited b)[n := True]\<rparr>))))"

partial_function (option) search_loop ::
  "hnsw \<Rightarrow> vec \<Rightarrow> nat \<Rightarrow> nat \<Rightarrow> beam \<Rightarrow> (nat \<times> fl) list option" where
  "search_loop s q ef layer b =
     (case best_position (bm_candidates b) of
        None \<Rightarrow> Some (bm_results b)
      | Some pos \<Rightarrow>
          (if ef \<le> length (bm_results b) \<and> flt (snd (bm_candidates b ! pos)) (worst (bm_results b))
           then Some (bm_results b)
           else
             (case neighbors s (fst (bm_candidates b ! pos)) layer of
                None \<Rightarrow> None
              | Some ns \<Rightarrow>
                  (case expand_node s q ef ns
                          (b\<lparr>bm_candidates := swap_remove pos (bm_candidates b)\<rparr>) of
                     None \<Rightarrow> None
                   | Some b' \<Rightarrow> search_loop s q ef layer b'))))"

definition search_layer :: "hnsw \<Rightarrow> vec \<Rightarrow> nat \<Rightarrow> nat \<Rightarrow> nat \<Rightarrow> (nat \<times> fl) list option" where
  "search_layer s q ep ef layer =
     (case sim_to s q ep of
        None \<Rightarrow> None
      | Some sim \<Rightarrow>
          map_option (sort_down snd)
            (search_loop s q ef layer
               \<lparr>bm_visited = (replicate (length (hs_nodes s)) False)[ep := True],
                bm_candidates = [(ep, sim)], bm_results = [(ep, sim)]\<rparr>))"

text \<open>Linking a node to its targets, with both sides pruned to the capacity of the layer.\<close>

definition set_neighbors :: "nat \<Rightarrow> nat \<Rightarrow> nat list \<Rightarrow> hnsw \<Rightarrow> hnsw" where
  "set_neighbors n layer ns s =
     (let node = hs_nodes s ! n
      in s\<lparr>hs_nodes := (hs_nodes s)[n := node\<lparr>hn_neighbors := (hn_neighbors node)[layer := ns]\<rparr>]\<rparr>)"

fun scored :: "hnsw \<Rightarrow> vec \<Rightarrow> nat list \<Rightarrow> (nat \<times> fl) list option" where
  "scored s anchor [] = Some []"
| "scored s anchor (n # ns) =
     (case sim_to s anchor n of
        None \<Rightarrow> None
      | Some sim \<Rightarrow> map_option (\<lambda>rest. (n, sim) # rest) (scored s anchor ns))"

definition prune :: "nat \<Rightarrow> nat \<Rightarrow> nat \<Rightarrow> hnsw \<Rightarrow> hnsw option" where
  "prune node layer cap s =
     (case neighbors s node layer of
        None \<Rightarrow> None
      | Some ns \<Rightarrow>
          (if length ns \<le> cap then Some s
           else
             map_option
               (\<lambda>xs. set_neighbors node layer (remdups_adj (map fst (take cap (sort_down snd xs)))) s)
               (scored s (hn_vector (hs_nodes s ! node)) ns)))"

definition append_neighbors :: "nat \<Rightarrow> nat \<Rightarrow> nat list \<Rightarrow> hnsw \<Rightarrow> hnsw option" where
  "append_neighbors node layer new s =
     map_option (\<lambda>ns. set_neighbors node layer (ns @ new) s) (neighbors s node layer)"

fun connect_back :: "nat \<Rightarrow> nat \<Rightarrow> nat \<Rightarrow> nat list \<Rightarrow> hnsw \<Rightarrow> hnsw option" where
  "connect_back node layer cap [] s = Some s"
| "connect_back node layer cap (t # ts) s =
     (case append_neighbors t layer [node] s of
        None \<Rightarrow> None
      | Some s1 \<Rightarrow>
          (case prune t layer cap s1 of
             None \<Rightarrow> None
           | Some s2 \<Rightarrow> connect_back node layer cap ts s2))"

definition connect_node :: "nat \<Rightarrow> nat list \<Rightarrow> nat \<Rightarrow> hnsw \<Rightarrow> hnsw option" where
  "connect_node node targets layer s =
     (let cap = max_neighbors s layer
      in case append_neighbors node layer targets s of
           None \<Rightarrow> None
         | Some s1 \<Rightarrow>
             (case prune node layer cap s1 of
                None \<Rightarrow> None
              | Some s2 \<Rightarrow> connect_back node layer cap targets s2))"

text \<open>Descending through layers, and inserting into the layers of the new node.\<close>

fun descend :: "hnsw \<Rightarrow> vec \<Rightarrow> nat list \<Rightarrow> nat \<Rightarrow> nat option" where
  "descend s q [] ep = Some ep"
| "descend s q (l # ls) ep =
     (case greedy_step s q ep l of None \<Rightarrow> None | Some ep' \<Rightarrow> descend s q ls ep')"

fun insert_layers :: "vec \<Rightarrow> nat \<Rightarrow> nat list \<Rightarrow> nat \<Rightarrow> hnsw \<Rightarrow> hnsw option" where
  "insert_layers q idx [] ep s = Some s"
| "insert_layers q idx (l # ls) ep s =
     (case search_layer s q ep (hs_ef_construction s) l of
        None \<Rightarrow> None
      | Some [] \<Rightarrow> None
      | Some (f # fs) \<Rightarrow>
          (let m = min (max_neighbors s l) (length (f # fs))
           in case connect_node idx (map fst (take m (f # fs))) l s of
                None \<Rightarrow> None
              | Some s' \<Rightarrow> insert_layers q idx ls (fst f) s'))"

text \<open>The insertion of one vector, on the layer \<open>layer\<close> its counter is assigned to.\<close>

definition hnsw_insert :: "nat \<Rightarrow> string \<Rightarrow> vec \<Rightarrow> hnsw \<Rightarrow> hnsw option" where
  "hnsw_insert layer i v s =
     (let idx = length (hs_nodes s);
          s1 = s\<lparr>hs_nodes := hs_nodes s @
                 [\<lparr>hn_id = i, hn_vector = v, hn_neighbors = replicate (layer + 1) []\<rparr>]\<rparr>
      in case hs_entry s of
           None \<Rightarrow> Some (s1\<lparr>hs_entry := Some idx\<rparr>)
         | Some entry \<Rightarrow>
             (let top = length (hn_neighbors (hs_nodes s1 ! entry)) - 1
              in case descend s1 v (rev [layer + 1 ..< top + 1]) entry of
                   None \<Rightarrow> None
                 | Some ep \<Rightarrow>
                     map_option (\<lambda>s2. if top < layer then s2\<lparr>hs_entry := Some idx\<rparr> else s2)
                       (insert_layers v idx (rev [0 ..< min layer top + 1]) ep s1)))"

definition hnsw_add :: "(fl \<Rightarrow> fl) \<Rightarrow> string \<Rightarrow> vec \<Rightarrow> hnsw \<Rightarrow> hnsw option" where
  "hnsw_add f_ln i v s = hnsw_insert (assign_layer f_ln (hs_m s) (length (hs_nodes s))) i v s"

definition hnsw_knn :: "hnsw \<Rightarrow> vec \<Rightarrow> nat \<Rightarrow> (string \<times> fl) list option" where
  "hnsw_knn s q k =
     (case hs_entry s of
        None \<Rightarrow> Some []
      | Some entry \<Rightarrow>
          (case descend s q (rev [1 ..< length (hn_neighbors (hs_nodes s ! entry))]) entry of
             None \<Rightarrow> None
           | Some ep \<Rightarrow>
               map_option (\<lambda>rs. map (\<lambda>(n, sim). (hn_id (hs_nodes s ! n), sim)) (take k rs))
                 (search_layer s q ep (max (hs_ef_search s) k) 0)))"

fun hnsw_add_all :: "(fl \<Rightarrow> fl) \<Rightarrow> (string \<times> vec) list \<Rightarrow> hnsw \<Rightarrow> hnsw option" where
  "hnsw_add_all f_ln [] s = Some s"
| "hnsw_add_all f_ln ((i, v) # xs) s =
     (case hnsw_add f_ln i v s of None \<Rightarrow> None | Some s' \<Rightarrow> hnsw_add_all f_ln xs s')"

end
