(* ===== verification/Correlate_Hnsw.thy ===== *)
theory Correlate_Hnsw
  imports Correlate_Vector
begin

text \<open>
  Correctness of the layered index of \<open>vector.rs\<close>: whatever is added, no operation indexes out of
  bounds, the greedy walk and the beam search end, and a query returns distinct stored items with
  their true similarities, best first. On a store that the beam covers the answer is exact.
\<close>

section \<open>Well-formed graphs\<close>

definition layers :: "hnsw \<Rightarrow> nat \<Rightarrow> nat" where
  "layers s n = length (hn_neighbors (hs_nodes s ! n))"

definition links :: "hnsw \<Rightarrow> nat \<Rightarrow> nat \<Rightarrow> nat list" where
  "links s n l = hn_neighbors (hs_nodes s ! n) ! l"

definition on_layer :: "hnsw \<Rightarrow> nat \<Rightarrow> nat \<Rightarrow> bool" where
  "on_layer s l n \<longleftrightarrow> n < length (hs_nodes s) \<and> l < layers s n"

definition simv :: "hnsw \<Rightarrow> vec \<Rightarrow> nat \<Rightarrow> fl" where
  "simv s q n = dot q (hn_vector (hs_nodes s ! n))"

text \<open>Every link of a layer leads to a node of that layer.\<close>

definition links_ok :: "hnsw \<Rightarrow> bool" where
  "links_ok s \<longleftrightarrow> (\<forall>n l. on_layer s l n \<longrightarrow> (\<forall>t \<in> set (links s n l). on_layer s l t))"

definition entry_ok :: "hnsw \<Rightarrow> bool" where
  "entry_ok s \<longleftrightarrow>
     (\<forall>n < length (hs_nodes s). 0 < layers s n) \<and>
     (case hs_entry s of
        None \<Rightarrow> hs_nodes s = []
      | Some e \<Rightarrow> e < length (hs_nodes s) \<and> (\<forall>n < length (hs_nodes s). layers s n \<le> layers s e))"

definition hnsw_wf :: "hnsw \<Rightarrow> bool" where
  "hnsw_wf s \<longleftrightarrow> links_ok s \<and> entry_ok s"

lemma on_layer_bound: "on_layer s l n \<Longrightarrow> n < length (hs_nodes s)"
  by (simp add: on_layer_def)

lemma on_layer_less: "on_layer s l n \<Longrightarrow> l' \<le> l \<Longrightarrow> on_layer s l' n"
  by (simp add: on_layer_def)

lemma neighbors_on [simp]: "on_layer s l n \<Longrightarrow> neighbors s n l = Some (links s n l)"
  by (simp add: neighbors_def on_layer_def layers_def links_def)

lemma sim_to_on [simp]: "n < length (hs_nodes s) \<Longrightarrow> sim_to s q n = Some (simv s q n)"
  by (simp add: sim_to_def vector_of_def simv_def)

lemma links_okD: "links_ok s \<Longrightarrow> on_layer s l n \<Longrightarrow> t \<in> set (links s n l) \<Longrightarrow> on_layer s l t"
  by (auto simp: links_ok_def)

text \<open>A search stays in a set of nodes of the layer that is closed under its links.\<close>

definition closed :: "hnsw \<Rightarrow> nat \<Rightarrow> nat set \<Rightarrow> bool" where
  "closed s l C \<longleftrightarrow> (\<forall>n \<in> C. on_layer s l n \<and> set (links s n l) \<subseteq> C)"

lemma closed_layer: "links_ok s \<Longrightarrow> closed s l {n. on_layer s l n}"
  by (auto simp: closed_def links_ok_def)

definition inside :: "hnsw \<Rightarrow> nat set \<Rightarrow> bool" where
  "inside s C \<longleftrightarrow> (\<forall>n \<in> C. n < length (hs_nodes s))"

lemma closed_inside: "closed s l C \<Longrightarrow> inside s C"
  by (auto simp: closed_def inside_def on_layer_def)

section \<open>The greedy walk ends\<close>

lemma flt_trans: "flt x y \<Longrightarrow> flt y z \<Longrightarrow> flt x z"
  by (cases x; cases y; cases z) (auto simp: flt_def)

lemma flt_irrefl [simp]: "\<not> flt x x"
  by (simp add: flt_def)

lemma greedy_pass_ok:
  assumes "inside s C" and "set ns \<subseteq> C" and "ep \<in> C" and "best = simv s q ep"
  shows "\<exists>ep' imp'. greedy_pass s q ns (best, ep, imp) = Some (simv s q ep', ep', imp') \<and>
    ep' \<in> C \<and> (flt best (simv s q ep') \<or> ep' = ep \<and> imp' = imp)"
  using assms(2-)
proof (induction ns arbitrary: best ep imp)
  case (Cons n ns)
  have n: "n \<in> C" "n < length (hs_nodes s)" and rest: "set ns \<subseteq> C"
    using Cons.prems assms(1) by (auto simp: inside_def)
  show ?case
  proof (cases "flt best (simv s q n)")
    case True
    from Cons.IH [OF rest n(1) refl, of True] obtain e i where
      "greedy_pass s q ns (simv s q n, n, True) = Some (simv s q e, e, i)" "e \<in> C"
      "flt (simv s q n) (simv s q e) \<or> e = n" by auto
    with True n show ?thesis by (auto intro: flt_trans)
  next
    case False
    from Cons.IH [OF rest Cons.prems(2,3), of imp] False n show ?thesis by simp
  qed
qed simp

definition better :: "hnsw \<Rightarrow> vec \<Rightarrow> fl \<Rightarrow> nat set" where
  "better s q best = {n. n < length (hs_nodes s) \<and> flt best (simv s q n)}"

lemma better_less:
  assumes "flt best (simv s q ep)" and "ep < length (hs_nodes s)"
  shows "card (better s q (simv s q ep)) < card (better s q best)"
proof (rule psubset_card_mono)
  show "finite (better s q best)" by (simp add: better_def)
  have "ep \<in> better s q best" "ep \<notin> better s q (simv s q ep)" using assms by (auto simp: better_def)
  moreover have "better s q (simv s q ep) \<subseteq> better s q best"
    by (auto simp: better_def dest: flt_trans [OF assms(1)])
  ultimately show "better s q (simv s q ep) \<subset> better s q best" by blast
qed

lemma greedy_loop_ok:
  assumes "closed s l C" and "ep \<in> C"
  shows "\<exists>ep'. greedy_loop s q l (simv s q ep) ep = Some ep' \<and> ep' \<in> C"
  using assms(2)
proof (induction "card (better s q (simv s q ep))" arbitrary: ep rule: less_induct)
  case less
  note ins = closed_inside [OF assms(1)]
  have on: "on_layer s l ep" "set (links s ep l) \<subseteq> C" using assms(1) less.prems by (auto simp: closed_def)
  from greedy_pass_ok [OF ins on(2) less.prems refl, of q False] obtain ep' imp' where
    pass: "greedy_pass s q (links s ep l) (simv s q ep, ep, False) = Some (simv s q ep', ep', imp')"
    and c: "ep' \<in> C" and b: "flt (simv s q ep) (simv s q ep') \<or> ep' = ep \<and> \<not> imp'" by auto
  show ?case
  proof (cases imp')
    case True
    with b have "flt (simv s q ep) (simv s q ep')" by simp
    with less.hyps [OF better_less [OF this] c] True pass on ins c
    show ?thesis by (subst greedy_loop.simps) (simp add: inside_def)
  next
    case False
    with pass c on show ?thesis by (subst greedy_loop.simps) simp
  qed
qed

lemma greedy_step_ok:
  assumes "closed s l C" and "ep \<in> C"
  shows "\<exists>ep'. greedy_step s q ep l = Some ep' \<and> ep' \<in> C"
  using greedy_loop_ok [OF assms, of q] closed_inside [OF assms(1)] assms(2)
  by (simp add: greedy_step_def inside_def)

lemma descend_ok:
  assumes "\<And>l l'. l' \<le> l \<Longrightarrow> D l \<subseteq> D l'" and "sorted_wrt (\<ge>) ls"
    and "\<forall>l \<in> set ls. k \<le> l \<and> closed s l (D l) \<and> ep \<in> D l" and "ep \<in> D k"
  shows "\<exists>ep'. descend s q ls ep = Some ep' \<and> ep' \<in> D k"
  using assms(2-)
proof (induction ls arbitrary: ep)
  case (Cons l ls)
  from Cons.prems greedy_step_ok [of s l "D l" ep q] obtain ep' where
    ep': "greedy_step s q ep l = Some ep'" "ep' \<in> D l" by auto
  have "\<exists>ep2. descend s q ls ep' = Some ep2 \<and> ep2 \<in> D k"
    using Cons.prems ep'(2) assms(1) by (intro Cons.IH) (auto dest: subsetD)
  with ep' show ?case by simp
qed simp

lemma descend_layers_ok:
  assumes "links_ok s" and "sorted_wrt (\<ge>) ls" and "\<forall>l \<in> set ls. k \<le> l \<and> on_layer s l ep"
    and "on_layer s k ep"
  shows "\<exists>ep'. descend s q ls ep = Some ep' \<and> on_layer s k ep'"
  using descend_ok [of "\<lambda>l. {n. on_layer s l n}" ls k s ep q] assms closed_layer [OF assms(1)]
  by (auto intro: on_layer_less)

section \<open>The beam search ends\<close>

definition hit_ok :: "hnsw \<Rightarrow> vec \<Rightarrow> nat set \<Rightarrow> bool list \<Rightarrow> nat \<times> fl \<Rightarrow> bool" where
  "hit_ok s q C vis h \<longleftrightarrow> fst h \<in> C \<and> snd h = simv s q (fst h) \<and> vis ! fst h"

definition beam_ok :: "hnsw \<Rightarrow> vec \<Rightarrow> nat set \<Rightarrow> nat \<Rightarrow> beam \<Rightarrow> bool" where
  "beam_ok s q C ef b \<longleftrightarrow>
     length (bm_visited b) = length (hs_nodes s) \<and>
     (\<forall>h \<in> set (bm_candidates b) \<union> set (bm_results b). hit_ok s q C (bm_visited b) h) \<and>
     distinct (map fst (bm_results b)) \<and> bm_results b \<noteq> [] \<and> length (bm_results b) \<le> max ef 1"

definition work :: "beam \<Rightarrow> nat" where
  "work b = length (filter Not (bm_visited b)) + length (bm_candidates b)"

lemma best_position_Some:
  "best_position cs = Some i \<Longrightarrow> i < length cs"
  by (auto simp: best_position_def indexed_by_def dest!: max_by_key_mem)

lemma best_position_None: "best_position cs = None \<longleftrightarrow> cs = []"
  by (auto simp: best_position_def indexed_by_def max_by_key_None)

lemma worst_position_Some: "worst_position cs = Some i \<Longrightarrow> i < length cs"
  by (auto simp: worst_position_def indexed_by_def dest!: min_by_key_mem)

lemma mset_drop_worst:
  assumes "rs \<noteq> []"
  shows "\<exists>x. add_mset x (mset (drop_worst rs)) = mset rs"
proof -
  have "worst_position rs \<noteq> None" using assms by (simp add: worst_position_def indexed_by_def min_by_key_None)
  then obtain i where i: "worst_position rs = Some i" by auto
  show ?thesis
    using mset_swap_remove [OF worst_position_Some [OF i]] i
    by (intro exI [of _ "rs ! i"]) (simp add: drop_worst_def)
qed

lemma drop_worst_facts:
  assumes "rs \<noteq> []"
  shows "set (drop_worst rs) \<subseteq> set rs" and "length (drop_worst rs) = length rs - 1"
    and "distinct (map fst rs) \<Longrightarrow> distinct (map fst (drop_worst rs))"
proof -
  obtain x where x: "add_mset x (mset (drop_worst rs)) = mset rs"
    using mset_drop_worst [OF assms] by blast
  have "set_mset (mset (drop_worst rs)) \<subseteq> set_mset (mset rs)" using x [symmetric] by auto
  then show "set (drop_worst rs) \<subseteq> set rs" by simp
  have "Suc (size (mset (drop_worst rs))) = size (mset rs)" using x by (metis size_add_mset)
  then show "length (drop_worst rs) = length rs - 1" by simp
  assume "distinct (map fst rs)"
  moreover have "mset (fst x # map fst (drop_worst rs)) = mset (map fst rs)"
    using x by (metis image_mset_add_mset mset.simps(2) mset_map)
  ultimately have "distinct (fst x # map fst (drop_worst rs))" by (metis mset_eq_imp_distinct_iff)
  then show "distinct (map fst (drop_worst rs))" by simp
qed

lemma filter_Not_update:
  "n < length vs \<Longrightarrow> \<not> vs ! n \<Longrightarrow> Suc (length (filter Not (vs[n := True]))) = length (filter Not vs)"
proof (induction vs arbitrary: n)
  case (Cons v vs)
  then show ?case by (cases n) auto
qed simp

lemma admit_ok:
  assumes C: "inside s C" and b: "beam_ok s q C ef b" and n: "n \<in> C" "\<not> bm_visited b ! n"
  defines "b' \<equiv> admit ef n (simv s q n) (b\<lparr>bm_visited := (bm_visited b)[n := True]\<rparr>)"
  shows "beam_ok s q C ef b'" and "work b' \<le> work b"
    and "bm_visited b' = (bm_visited b)[n := True]"
proof -
  let ?v = "(bm_visited b)[n := True]" and ?rs = "bm_results b @ [(n, simv s q n)]"
  have len: "n < length (bm_visited b)" using C b n(1) by (simp add: beam_ok_def inside_def)
  have keep: "hit_ok s q C ?v h" if "h \<in> set (bm_candidates b) \<union> set (bm_results b)" for h
    using b that len by (cases "fst h = n") (auto simp: beam_ok_def hit_ok_def)
  have new: "hit_ok s q C ?v (n, simv s q n)" using n len by (simp add: hit_ok_def)
  have "n \<notin> fst ` set (bm_results b)" using b n(2) by (force simp: beam_ok_def hit_ok_def)
  then have dist: "distinct (map fst ?rs)" using b by (simp add: beam_ok_def)
  have res: "set (drop_worst ?rs) \<subseteq> set ?rs" "length (drop_worst ?rs) = length (bm_results b)"
    "distinct (map fst (drop_worst ?rs))"
    using drop_worst_facts [of ?rs] dist by auto
  have ne: "drop_worst ?rs \<noteq> []" using b res(2) by (metis beam_ok_def length_0_conv)
  show v: "bm_visited b' = ?v" by (simp add: b'_def admit_def Let_def)
  have cs: "set (bm_candidates b') \<subseteq> insert (n, simv s q n) (set (bm_candidates b))"
    and rs: "bm_results b' \<in> {bm_results b, ?rs, drop_worst ?rs}"
    and lr: "length (bm_results b') \<le> max ef (length (bm_results b))"
    using res(2) by (auto simp: b'_def admit_def Let_def)
  have sub: "set (bm_results b') \<subseteq> insert (n, simv s q n) (set (bm_results b))"
    and d: "distinct (map fst (bm_results b'))" and ne': "bm_results b' \<noteq> []"
    using rs res ne dist b by (auto simp: beam_ok_def)
  show "beam_ok s q C ef b'"
    unfolding beam_ok_def v using keep new cs sub d ne' lr b by (auto simp: beam_ok_def)
  show "work b' \<le> work b"
    using filter_Not_update [OF len n(2)] by (simp add: work_def b'_def admit_def Let_def)
qed

lemma expand_ok:
  assumes "inside s C" and "set ns \<subseteq> C" and "beam_ok s q C ef b"
  shows "\<exists>b'. expand_node s q ef ns b = Some b' \<and> beam_ok s q C ef b' \<and> work b' \<le> work b"
  using assms(2,3)
proof (induction ns arbitrary: b)
  case (Cons n ns)
  have n: "n \<in> C" "n < length (hs_nodes s)" "n < length (bm_visited b)"
    using Cons.prems assms(1) by (auto simp: inside_def beam_ok_def)
  show ?case
  proof (cases "bm_visited b ! n")
    case True
    with Cons n show ?thesis by simp
  next
    case False
    let ?b = "admit ef n (simv s q n) (b\<lparr>bm_visited := (bm_visited b)[n := True]\<rparr>)"
    have "\<exists>b'. expand_node s q ef ns ?b = Some b' \<and> beam_ok s q C ef b' \<and> work b' \<le> work ?b"
      using Cons.prems admit_ok(1) [OF assms(1) Cons.prems(2) n(1) False] by (intro Cons.IH) auto
    with admit_ok(2) [OF assms(1) Cons.prems(2) n(1) False] False n show ?thesis by (auto intro: le_trans)
  qed
qed simp

lemma take_candidate_ok:
  assumes "beam_ok s q C ef b" and "i < length (bm_candidates b)"
  defines "b' \<equiv> b\<lparr>bm_candidates := swap_remove i (bm_candidates b)\<rparr>"
  shows "beam_ok s q C ef b'" and "work b' < work b"
    and "fst (bm_candidates b ! i) \<in> C"
proof -
  have "set (swap_remove i (bm_candidates b)) \<subseteq> set (bm_candidates b)"
    using set_swap_remove [OF assms(2)] by blast
  with assms(1) show "beam_ok s q C ef b'" by (auto simp: beam_ok_def b'_def)
  show "work b' < work b" using assms(2) by (simp add: b'_def work_def length_swap_remove)
  show "fst (bm_candidates b ! i) \<in> C"
    using assms(1) nth_mem [OF assms(2)] by (auto simp: beam_ok_def hit_ok_def)
qed

definition hits_ok :: "hnsw \<Rightarrow> vec \<Rightarrow> nat set \<Rightarrow> nat \<Rightarrow> (nat \<times> fl) list \<Rightarrow> bool" where
  "hits_ok s q C ef rs \<longleftrightarrow>
     (\<forall>h \<in> set rs. fst h \<in> C \<and> snd h = simv s q (fst h)) \<and>
     distinct (map fst rs) \<and> rs \<noteq> [] \<and> length rs \<le> max ef 1"

lemma beam_hits: "beam_ok s q C ef b \<Longrightarrow> hits_ok s q C ef (bm_results b)"
  by (auto simp: beam_ok_def hits_ok_def hit_ok_def)

lemma search_loop_ok:
  assumes "closed s l C" and "beam_ok s q C ef b"
  shows "\<exists>rs. search_loop s q ef l b = Some rs \<and> hits_ok s q C ef rs"
  using assms(2)
proof (induction "work b" arbitrary: b rule: less_induct)
  case less
  show ?case
  proof (cases "best_position (bm_candidates b)")
    case None
    with beam_hits [OF less.prems] show ?thesis by (subst search_loop.simps) simp
  next
    case (Some i)
    note i = best_position_Some [OF Some]
    let ?n = "fst (bm_candidates b ! i)"
    note c = take_candidate_ok [OF less.prems i]
    have on: "on_layer s l ?n" "set (links s ?n l) \<subseteq> C" using assms(1) c(3) by (auto simp: closed_def)
    from expand_ok [OF closed_inside [OF assms(1)] on(2) c(1)] obtain b' where
      b': "expand_node s q ef (links s ?n l) (b\<lparr>bm_candidates := swap_remove i (bm_candidates b)\<rparr>) = Some b'"
      "beam_ok s q C ef b'" "work b' < work b"
      using c(2) by (auto intro: le_less_trans)
    show ?thesis
      using less.hyps [OF b'(3,2)] b'(1) Some on(1) beam_hits [OF less.prems]
      by (subst search_loop.simps) simp
  qed
qed

lemma start_beam_ok:
  assumes "inside s C" and "ep \<in> C"
  shows "beam_ok s q C ef
    \<lparr>bm_visited = (replicate (length (hs_nodes s)) False)[ep := True],
     bm_candidates = [(ep, simv s q ep)], bm_results = [(ep, simv s q ep)]\<rparr>"
  using assms by (auto simp: beam_ok_def hit_ok_def inside_def)

lemma hits_ok_sort: "hits_ok s q C ef rs \<Longrightarrow> hits_ok s q C ef (sort_down snd rs)"
  unfolding hits_ok_def
  by (metis distinct_map length_0_conv length_sort_down mset_map mset_sort_down mset_eq_imp_distinct_iff
      set_sort_down)

lemma search_layer_ok:
  assumes "closed s l C" and "ep \<in> C"
  shows "\<exists>rs. search_layer s q ep ef l = Some rs \<and> hits_ok s q C ef rs \<and>
    sorted_wrt (\<lambda>x y. snd y \<le> snd x) rs"
proof -
  note ins = closed_inside [OF assms(1)]
  have "ep < length (hs_nodes s)" using ins assms(2) by (simp add: inside_def)
  with search_loop_ok [OF assms(1) start_beam_ok [OF ins assms(2)], of q ef] show ?thesis
    by (auto simp: search_layer_def hits_ok_sort sorted_sort_down)
qed

section \<open>Linking keeps the graph well formed\<close>

definition same_shape :: "hnsw \<Rightarrow> hnsw \<Rightarrow> bool" where
  "same_shape s s' \<longleftrightarrow>
     length (hs_nodes s') = length (hs_nodes s) \<and> hs_m s' = hs_m s \<and>
     hs_ef_construction s' = hs_ef_construction s \<and> hs_ef_search s' = hs_ef_search s \<and>
     hs_entry s' = hs_entry s \<and>
     (\<forall>n. layers s' n = layers s n \<and> hn_id (hs_nodes s' ! n) = hn_id (hs_nodes s ! n) \<and>
       hn_vector (hs_nodes s' ! n) = hn_vector (hs_nodes s ! n))"

lemma same_shape_refl [simp]: "same_shape s s"
  by (simp add: same_shape_def)

lemma same_shape_trans: "same_shape s s' \<Longrightarrow> same_shape s' s'' \<Longrightarrow> same_shape s s''"
  by (simp add: same_shape_def)

lemma same_shape_on: "same_shape s s' \<Longrightarrow> on_layer s' l n = on_layer s l n"
  by (simp add: same_shape_def on_layer_def)

lemma set_neighbors_shape: "on_layer s l n \<Longrightarrow> same_shape s (set_neighbors n l ns s)"
  by (auto simp: same_shape_def set_neighbors_def Let_def on_layer_def layers_def nth_list_update)

lemma links_set_neighbors:
  "on_layer s l n \<Longrightarrow>
    links (set_neighbors n l ns s) k j = (if k = n \<and> j = l then ns else links s k j)"
  by (auto simp: set_neighbors_def Let_def on_layer_def layers_def links_def nth_list_update)

text \<open>A step on layer \<open>l\<close>: it returns, keeps the graph, and leaves the other layers alone.\<close>

definition layer_step :: "nat \<Rightarrow> hnsw \<Rightarrow> hnsw option \<Rightarrow> bool" where
  "layer_step l s r \<longleftrightarrow>
     (\<exists>s'. r = Some s' \<and> links_ok s' \<and> same_shape s s' \<and> (\<forall>n k. k \<noteq> l \<longrightarrow> links s' n k = links s n k))"

lemma layer_step_set:
  assumes "links_ok s" and "on_layer s l n" and "\<forall>t \<in> set ns. on_layer s l t"
  shows "layer_step l s (Some (set_neighbors n l ns s))"
  using assms set_neighbors_shape [OF assms(2), of ns] same_shape_on [OF set_neighbors_shape [OF assms(2), of ns]]
  by (auto simp: layer_step_def links_ok_def links_set_neighbors)

lemma layer_step_append:
  assumes "links_ok s" and "on_layer s l n" and "\<forall>t \<in> set new. on_layer s l t"
  shows "layer_step l s (append_neighbors n l new s)"
  using layer_step_set [OF assms(1,2), of "links s n l @ new"] assms
  by (auto simp: append_neighbors_def intro: links_okD)

lemma scored_ok:
  "\<forall>n \<in> set ns. n < length (hs_nodes s) \<Longrightarrow> scored s q ns = Some (map (\<lambda>n. (n, simv s q n)) ns)"
  by (induction ns) auto

lemma layer_step_prune:
  assumes "links_ok s" and "on_layer s l n"
  shows "layer_step l s (prune n l cap s)"
proof -
  have t: "on_layer s l t" if "t \<in> set (links s n l)" for t using assms that by (rule links_okD)
  then have sc: "scored s q (links s n l) = Some (map (\<lambda>n. (n, simv s q n)) (links s n l))" for q
    by (intro scored_ok) (auto simp: on_layer_def)
  have "layer_step l s (Some (set_neighbors n l (remdups_adj (map fst (take cap (sort_down snd
      (map (\<lambda>k. (k, simv s q k)) (links s n l)))))) s))" for q
    using assms t by (intro layer_step_set) (auto dest!: in_set_takeD)
  with assms sc show ?thesis by (simp add: prune_def) (simp add: layer_step_def)
qed

lemma layer_step_bind:
  assumes "layer_step l s r"
    and "\<And>s'. links_ok s' \<Longrightarrow> same_shape s s' \<Longrightarrow> layer_step l s' (f s')"
  shows "layer_step l s (case r of None \<Rightarrow> None | Some s' \<Rightarrow> f s')"
proof -
  from assms(1) obtain s' where s': "r = Some s'" "links_ok s'" "same_shape s s'"
    "\<forall>n k. k \<noteq> l \<longrightarrow> links s' n k = links s n k" by (auto simp: layer_step_def)
  from assms(2) [OF s'(2,3)] s' show ?thesis
    by (auto simp: layer_step_def intro: same_shape_trans)
qed

lemma layer_step_connect_back:
  assumes "links_ok s" and "on_layer s l idx" and "\<forall>t \<in> set ts. on_layer s l t"
  shows "layer_step l s (connect_back idx l cap ts s)"
  using assms
proof (induction ts arbitrary: s)
  case Nil
  then show ?case by (simp add: layer_step_def)
next
  case (Cons t ts)
  show ?case
    using Cons.prems
    by (auto intro!: layer_step_bind layer_step_append layer_step_prune Cons.IH
        simp: same_shape_on intro: same_shape_trans)
qed

lemma layer_step_connect:
  assumes "links_ok s" and "on_layer s l idx" and "\<forall>t \<in> set ts. on_layer s l t"
  shows "layer_step l s (connect_node idx ts l s)"
  unfolding connect_node_def Let_def
  using assms
  by (auto intro!: layer_step_bind layer_step_append layer_step_prune layer_step_connect_back
      simp: same_shape_on)

lemma insert_layers_ok:
  assumes "links_ok s" and "sorted_wrt (\<ge>) ls" and "\<forall>l \<in> set ls. on_layer s l idx \<and> on_layer s l ep"
  shows "\<exists>s'. insert_layers q idx ls ep s = Some s' \<and> links_ok s' \<and> same_shape s s'"
  using assms
proof (induction ls arbitrary: ep s)
  case (Cons l ls)
  from search_layer_ok [OF closed_layer [OF Cons.prems(1)], of ep l q "hs_ef_construction s"] Cons.prems(3)
  obtain f fs where found: "search_layer s q ep (hs_ef_construction s) l = Some (f # fs)"
    "\<forall>h \<in> set (f # fs). on_layer s l (fst h)"
    by (auto simp: hits_ok_def neq_Nil_conv)
  let ?ts = "map fst (take (min (max_neighbors s l) (length (f # fs))) (f # fs))"
  have "\<forall>t \<in> set ?ts. on_layer s l t" using found(2) by (auto dest!: in_set_takeD)
  with layer_step_connect [of s l idx ?ts] Cons.prems obtain s' where
    s': "connect_node idx ?ts l s = Some s'" "links_ok s'" "same_shape s s'"
    by (auto simp: layer_step_def)
  have "\<exists>s2. insert_layers q idx ls (fst f) s' = Some s2 \<and> links_ok s2 \<and> same_shape s' s2"
    using Cons.prems found(2) s' by (intro Cons.IH) (auto simp: same_shape_on intro: on_layer_less)
  with found(1) s' show ?case by (auto simp: Let_def intro: same_shape_trans)
qed simp

section \<open>Insertion and queries\<close>

definition items :: "hnsw \<Rightarrow> flat_store" where
  "items s = map (\<lambda>n. (hn_id n, hn_vector n)) (hs_nodes s)"

lemma length_items [simp]: "length (items s) = length (hs_nodes s)"
  by (simp add: items_def)

lemma same_shape_items: "same_shape s s' \<Longrightarrow> items s' = items s"
  by (auto simp: items_def same_shape_def intro: nth_equalityI)

definition with_node :: "nat \<Rightarrow> string \<Rightarrow> vec \<Rightarrow> hnsw \<Rightarrow> hnsw" where
  "with_node layer i v s =
     s\<lparr>hs_nodes := hs_nodes s @
         [\<lparr>hn_id = i, hn_vector = v, hn_neighbors = replicate (layer + 1) []\<rparr>]\<rparr>"

lemma with_node_simps [simp]:
  "hs_m (with_node layer i v s) = hs_m s" "hs_entry (with_node layer i v s) = hs_entry s"
  "hs_ef_construction (with_node layer i v s) = hs_ef_construction s"
  "hs_ef_search (with_node layer i v s) = hs_ef_search s"
  "length (hs_nodes (with_node layer i v s)) = Suc (length (hs_nodes s))"
  "items (with_node layer i v s) = items s @ [(i, v)]"
  by (auto simp: with_node_def items_def)

lemma with_node_layers:
  "n < length (hs_nodes s) \<Longrightarrow> layers (with_node layer i v s) n = layers s n"
  "layers (with_node layer i v s) (length (hs_nodes s)) = layer + 1"
  by (auto simp: with_node_def layers_def nth_append)

lemma with_node_links:
  "n < length (hs_nodes s) \<Longrightarrow> links (with_node layer i v s) n l = links s n l"
  "l \<le> layer \<Longrightarrow> links (with_node layer i v s) (length (hs_nodes s)) l = []"
  by (auto simp: with_node_def links_def nth_append nth_Cons')

lemma with_node_on:
  "on_layer (with_node layer i v s) l n \<longleftrightarrow>
     on_layer s l n \<or> n = length (hs_nodes s) \<and> l \<le> layer"
  unfolding on_layer_def
  by (cases "n < length (hs_nodes s)"; cases "n = length (hs_nodes s)")
    (auto simp: with_node_layers)

lemma with_node_links_ok: "links_ok s \<Longrightarrow> links_ok (with_node layer i v s)"
  by (auto simp: links_ok_def with_node_on with_node_links on_layer_bound)

lemma hnsw_insert_eq:
  "hnsw_insert layer i v s =
     (case hs_entry s of
        None \<Rightarrow> Some ((with_node layer i v s)\<lparr>hs_entry := Some (length (hs_nodes s))\<rparr>)
      | Some entry \<Rightarrow>
          (let top = layers (with_node layer i v s) entry - 1
           in case descend (with_node layer i v s) v (rev [layer + 1 ..< top + 1]) entry of
                None \<Rightarrow> None
              | Some ep \<Rightarrow>
                  map_option
                    (\<lambda>s2. if top < layer then s2\<lparr>hs_entry := Some (length (hs_nodes s))\<rparr> else s2)
                    (insert_layers v (length (hs_nodes s)) (rev [0 ..< min layer top + 1]) ep
                      (with_node layer i v s))))"
  unfolding hnsw_insert_def with_node_def layers_def Let_def by (rule refl)

lemma set_entry_simps [simp]:
  "links_ok (s\<lparr>hs_entry := e\<rparr>) = links_ok s" "items (s\<lparr>hs_entry := e\<rparr>) = items s"
  "layers (s\<lparr>hs_entry := e\<rparr>) n = layers s n" "links (s\<lparr>hs_entry := e\<rparr>) n l = links s n l"
  by (auto simp: links_ok_def on_layer_def layers_def links_def items_def)

lemma sorted_rev_upt: "sorted_wrt (\<ge>) (rev [a ..< b])"
  by (simp add: sorted_wrt_rev)

definition params :: "hnsw \<Rightarrow> nat \<times> nat \<times> nat" where
  "params s = (hs_m s, hs_ef_construction s, hs_ef_search s)"

lemma hnsw_insert_ok:
  assumes wf: "hnsw_wf s"
  shows "\<exists>s'. hnsw_insert layer i v s = Some s' \<and> hnsw_wf s' \<and>
    items s' = items s @ [(i, v)] \<and> params s' = params s"
proof (cases "hs_entry s")
  case None
  with wf with_node_layers(2) [of layer i v s] show ?thesis
    by (auto simp: hnsw_insert_eq hnsw_wf_def entry_ok_def with_node_links_ok with_node_layers params_def)
next
  case (Some e)
  let ?s1 = "with_node layer i v s" and ?idx = "length (hs_nodes s)"
  let ?top = "layers ?s1 e - 1"
  have e: "e < ?idx" "0 < layers s e" "\<forall>n < ?idx. 0 < layers s n \<and> layers s n \<le> layers s e"
    using wf Some by (auto simp: hnsw_wf_def entry_ok_def)
  have le: "layers ?s1 e = layers s e" using e by (simp add: with_node_layers)
  have ok: "links_ok ?s1" using wf by (simp add: hnsw_wf_def with_node_links_ok)
  have on: "on_layer ?s1 l e" if "l \<le> ?top" for l
    using that e le by (auto simp: on_layer_def)
  have "\<exists>ep. descend ?s1 v (rev [layer + 1 ..< ?top + 1]) e = Some ep \<and> on_layer ?s1 (min layer ?top) ep"
    by (rule descend_layers_ok [OF ok sorted_rev_upt]) (auto intro: on simp del: upt_Suc)
  then obtain ep where ep: "descend ?s1 v (rev [layer + 1 ..< ?top + 1]) e = Some ep"
    "on_layer ?s1 (min layer ?top) ep" by blast
  have "\<forall>l \<in> set (rev [0 ..< min layer ?top + 1]). on_layer ?s1 l ?idx \<and> on_layer ?s1 l ep"
    using on_layer_less [OF ep(2)] by (auto simp: with_node_on [of _ _ _ _ _ "length (hs_nodes s)"] less_Suc_eq_le simp del: upt_Suc)
  from insert_layers_ok [OF ok sorted_rev_upt this, of v] obtain s2 where
    s2: "insert_layers v ?idx (rev [0 ..< min layer ?top + 1]) ep ?s1 = Some s2" "links_ok s2"
    "same_shape ?s1 s2" by blast
  have size: "length (hs_nodes s2) = Suc ?idx" "hs_entry s2 = Some e"
    using s2(3) Some by (simp_all add: same_shape_def)
  have old: "layers s2 n = layers s n" if "n < ?idx" for n
    using s2(3) that by (simp add: same_shape_def with_node_layers)
  have new: "layers s2 ?idx = layer + 1"
    using s2(3) by (simp add: same_shape_def with_node_layers)
  have pos: "0 < layers s2 n" and bound: "layers s2 n \<le> max (layers s e) (layer + 1)"
    if "n < Suc ?idx" for n
    using that e(3) old new by (auto simp: less_Suc_eq max_def intro: le_SucI le_trans)
  have top: "max (layers s e) (layer + 1) = (if ?top < layer then layer + 1 else layers s e)"
    using e(2) le by auto
  have "entry_ok (if ?top < layer then s2\<lparr>hs_entry := Some ?idx\<rparr> else s2)"
    using pos bound old [OF e(1)] new e(1) unfolding top
    by (auto simp: entry_ok_def size less_SucI)
  moreover have "hnsw_insert layer i v s =
      Some (if ?top < layer then s2\<lparr>hs_entry := Some ?idx\<rparr> else s2)"
    unfolding hnsw_insert_eq Let_def using Some ep(1) s2(1) by (simp del: upt_Suc)
  moreover have "params s2 = params s" "items s2 = items s @ [(i, v)]"
    using s2(3) same_shape_items [OF s2(3)] by (simp_all add: params_def same_shape_def)
  ultimately show ?thesis using s2(2) by (simp add: hnsw_wf_def params_def)
qed

lemma hnsw_new_wf: "hnsw_wf (hnsw_new m c e)"
  by (simp add: hnsw_wf_def links_ok_def on_layer_def entry_ok_def hnsw_new_def)

lemma hnsw_add_all_ok:
  "hnsw_wf s \<Longrightarrow> \<exists>s'. hnsw_add_all f_ln xs s = Some s' \<and> hnsw_wf s' \<and>
     items s' = items s @ xs \<and> params s' = params s"
proof (induction xs arbitrary: s)
  case (Cons x xs)
  obtain i v where x: "x = (i, v)" by (cases x)
  from hnsw_insert_ok [OF Cons.prems, of "assign_layer f_ln (hs_m s) (length (hs_nodes s))" i v]
  obtain s1 where s1: "hnsw_add f_ln i v s = Some s1" "hnsw_wf s1" "items s1 = items s @ [(i, v)]"
    "params s1 = params s" by (auto simp: hnsw_add_def)
  from Cons.IH [OF s1(2)] s1 x show ?case by auto
qed simp

text \<open>The answer to a query: the items of distinct nodes, best first.\<close>

definition answer :: "flat_store \<Rightarrow> vec \<Rightarrow> nat \<Rightarrow> (string \<times> fl) list \<Rightarrow> bool" where
  "answer st q k hits \<longleftrightarrow>
     sorted_wrt (\<lambda>x y. snd y \<le> snd x) hits \<and> length hits \<le> k \<and>
     (hits = [] \<longleftrightarrow> st = [] \<or> k = 0) \<and>
     (\<exists>ns. distinct ns \<and> (\<forall>n \<in> set ns. n < length st) \<and> hits = map (\<lambda>n. scored_items st q ! n) ns)"

lemma descend_entry:
  assumes "hnsw_wf s" and "hs_entry s = Some e"
  shows "\<exists>ep. descend s q (rev [1 ..< layers s e]) e = Some ep \<and> on_layer s 0 ep"
  using assms by (intro descend_layers_ok sorted_rev_upt) (auto simp: hnsw_wf_def entry_ok_def on_layer_def)

lemma scored_items_nth:
  "n < length (hs_nodes s) \<Longrightarrow> scored_items (items s) q ! n = (hn_id (hs_nodes s ! n), simv s q n)"
  by (simp add: scored_items_def items_def simv_def)

lemma hits_answer:
  assumes "hits_ok s q {n. on_layer s 0 n} ef rs" and "sorted_wrt (\<lambda>x y. snd y \<le> snd x) rs"
  shows "answer (items s) q k (map (\<lambda>(n, sim). (hn_id (hs_nodes s ! n), sim)) (take k rs))"
  unfolding answer_def
proof (intro conjI exI [of _ "map fst (take k rs)"])
  have "sorted_wrt (\<lambda>x y. snd y \<le> snd x) (take k rs)" using assms(2) by (rule sorted_wrt_take)
  then show "sorted_wrt (\<lambda>x y. snd y \<le> snd x) (map (\<lambda>(n, sim). (hn_id (hs_nodes s ! n), sim)) (take k rs))"
    by (simp add: sorted_wrt_map case_prod_beta)
  show "distinct (map fst (take k rs))" using assms(1) by (simp add: hits_ok_def take_map [symmetric])
  show "\<forall>n \<in> set (map fst (take k rs)). n < length (items s)"
    using assms(1) by (auto simp: hits_ok_def on_layer_def dest!: in_set_takeD)
  show "map (\<lambda>(n, sim). (hn_id (hs_nodes s ! n), sim)) (take k rs)
      = map (\<lambda>n. scored_items (items s) q ! n) (map fst (take k rs))"
    using assms(1) by (auto simp: hits_ok_def on_layer_def scored_items_nth dest!: in_set_takeD)
  have "rs \<noteq> []" "hs_nodes s \<noteq> []"
    using assms(1) by (cases rs; auto simp: hits_ok_def on_layer_def)+
  then show "map (\<lambda>(n, sim). (hn_id (hs_nodes s ! n), sim)) (take k rs) = [] \<longleftrightarrow> items s = [] \<or> k = 0"
    by (simp add: items_def)
qed simp

lemma hnsw_knn_ok:
  assumes "hnsw_wf s"
  shows "\<exists>hits. hnsw_knn s q k = Some hits \<and> answer (items s) q k hits"
proof (cases "hs_entry s")
  case None
  with assms have "items s = []" by (simp add: hnsw_wf_def entry_ok_def items_def)
  with None show ?thesis by (auto simp: hnsw_knn_def answer_def intro: exI [of _ "[]"])
next
  case (Some e)
  from descend_entry [OF assms Some] obtain ep where
    ep: "descend s q (rev [1 ..< layers s e]) e = Some ep" "on_layer s 0 ep" by blast
  from search_layer_ok [OF closed_layer, of s ep 0 q "max (hs_ef_search s) k"] assms ep(2) obtain rs where
    "search_layer s q ep (max (hs_ef_search s) k) 0 = Some rs"
    "hits_ok s q {n. on_layer s 0 n} (max (hs_ef_search s) k) rs" "sorted_wrt (\<lambda>x y. snd y \<le> snd x) rs"
    by (auto simp: hnsw_wf_def)
  with hits_answer ep(1) Some show ?thesis by (simp add: hnsw_knn_def layers_def)
qed

section \<open>A beam that is wide enough is exact\<close>

text \<open>A component of a layer: all its nodes are linked to each other, and to nothing else.\<close>

definition clique :: "hnsw \<Rightarrow> nat \<Rightarrow> nat set \<Rightarrow> bool" where
  "clique s l S \<longleftrightarrow>
     finite S \<and> (\<forall>n \<in> S. on_layer s l n \<and> distinct (links s n l) \<and> set (links s n l) = S - {n})"

lemma expand_visited:
  "\<forall>n \<in> set ns. n < length (bm_visited b) \<and> bm_visited b ! n \<Longrightarrow> expand_node s q ef ns b = Some b"
  by (induction ns) auto

definition covers :: "nat set \<Rightarrow> beam \<Rightarrow> bool" where
  "covers S b \<longleftrightarrow> fst ` set (bm_results b) = {n \<in> S. bm_visited b ! n}"

lemma clique_closed: "clique s l S \<Longrightarrow> closed s l S"
  by (auto simp: clique_def closed_def)

lemma admit_covers:
  assumes b: "beam_ok s q S ef b" "covers S b"
    and S: "finite S" "card S \<le> ef" "inside s S" and n: "n \<in> S" "\<not> bm_visited b ! n"
  shows "covers S (admit ef n x (b\<lparr>bm_visited := (bm_visited b)[n := True]\<rparr>))"
proof -
  have len: "n < length (bm_visited b)" using b(1) n(1) S(3) by (simp add: beam_ok_def inside_def)
  have "length (bm_results b) = card (fst ` set (bm_results b))"
    using b(1) distinct_card [of "map fst (bm_results b)"] by (simp add: beam_ok_def)
  also have "\<dots> < card S" using b(2) S(1) n by (intro psubset_card_mono) (auto simp: covers_def)
  finally have "length (bm_results b) < ef" using S(2) by simp
  with b(2) n len show ?thesis
    by (auto simp: covers_def admit_def Let_def nth_list_update)
qed

lemma expand_covers:
  assumes "finite S" "card S \<le> ef" and "inside s S" and "set ns \<subseteq> S"
    and "beam_ok s q S ef b" "covers S b"
  shows "\<exists>b'. expand_node s q ef ns b = Some b' \<and> beam_ok s q S ef b' \<and> covers S b' \<and>
    (\<forall>n. bm_visited b ! n \<or> n \<in> set ns \<longrightarrow> bm_visited b' ! n)"
  using assms(4-)
proof (induction ns arbitrary: b)
  case (Cons n ns)
  have n: "n \<in> S" "n < length (hs_nodes s)" "n < length (bm_visited b)"
    using Cons.prems assms(3) by (auto simp: inside_def beam_ok_def)
  show ?case
  proof (cases "bm_visited b ! n")
    case True
    from Cons.IH [of b] Cons.prems obtain b' where
      "expand_node s q ef ns b = Some b' \<and> beam_ok s q S ef b' \<and> covers S b' \<and>
        (\<forall>n. bm_visited b ! n \<or> n \<in> set ns \<longrightarrow> bm_visited b' ! n)" by auto
    with True n show ?thesis by (intro exI [of _ b']) auto
  next
    case False
    let ?b = "admit ef n (simv s q n) (b\<lparr>bm_visited := (bm_visited b)[n := True]\<rparr>)"
    have vis: "bm_visited ?b = (bm_visited b)[n := True]" by (simp add: admit_def Let_def)
    have "beam_ok s q S ef ?b" "covers S ?b"
      using admit_ok(1) [OF assms(3) Cons.prems(2) n(1) False]
        admit_covers [OF Cons.prems(2,3) assms(1-3) n(1) False]
      by auto
    with Cons.IH [of ?b] Cons.prems(1) obtain b' where
      b': "expand_node s q ef ns ?b = Some b'" "beam_ok s q S ef b'" "covers S b'"
      "\<forall>k. bm_visited ?b ! k \<or> k \<in> set ns \<longrightarrow> bm_visited b' ! k" by auto
    have "bm_visited b' ! k" if "bm_visited b ! k \<or> k \<in> set (n # ns)" for k
      using b'(4) that n(3) unfolding vis by (cases "k = n") auto
    with b' False n show ?thesis by (intro exI [of _ b']) auto
  qed
qed simp

lemma search_loop_done:
  assumes "clique s l S" and "beam_ok s q S ef b" and "\<forall>n \<in> S. bm_visited b ! n"
  shows "search_loop s q ef l b = Some (bm_results b)"
  using assms(2-)
proof (induction "length (bm_candidates b)" arbitrary: b rule: less_induct)
  case less
  show ?case
  proof (cases "best_position (bm_candidates b)")
    case None
    then show ?thesis by (subst search_loop.simps) simp
  next
    case (Some i)
    note i = best_position_Some [OF Some]
    let ?n = "fst (bm_candidates b ! i)"
      and ?b = "b\<lparr>bm_candidates := swap_remove i (bm_candidates b)\<rparr>"
    note c = take_candidate_ok [OF less.prems(1) i]
    have n: "on_layer s l ?n" "set (links s ?n l) \<subseteq> S" using c(3) assms(1) by (auto simp: clique_def)
    then have "expand_node s q ef (links s ?n l) ?b = Some ?b"
      using less.prems(1,2) assms(1)
      by (intro expand_visited) (auto simp: clique_def beam_ok_def on_layer_def)
    moreover have "search_loop s q ef l ?b = Some (bm_results ?b)"
      using less.prems c(1) i set_swap_remove [OF i]
      by (intro less.hyps) (auto simp: length_swap_remove)
    ultimately show ?thesis using Some n(1) by (subst search_loop.simps) simp
  qed
qed

definition start_beam :: "hnsw \<Rightarrow> vec \<Rightarrow> nat \<Rightarrow> (nat \<times> fl) list \<Rightarrow> beam" where
  "start_beam s q ep cs =
     \<lparr>bm_visited = (replicate (length (hs_nodes s)) False)[ep := True],
      bm_candidates = cs, bm_results = [(ep, simv s q ep)]\<rparr>"

lemma worst_single: "\<not> flt x (worst [(n, x)])"
  by (cases x) (auto simp: worst_def fmin_def flt_def)

lemma search_loop_start:
  assumes "on_layer s l ep"
    and "expand_node s q ef (links s ep l) (start_beam s q ep []) = Some b'"
  shows "search_loop s q ef l (start_beam s q ep [(ep, simv s q ep)]) = search_loop s q ef l b'"
proof -
  have "best_position [(ep, simv s q ep)] = Some 0"
    by (simp add: best_position_def indexed_by_def)
  then show ?thesis
    using assms by (subst search_loop.simps) (simp add: start_beam_def worst_single swap_remove_def)
qed

lemma search_layer_exact:
  assumes S: "clique s l S" "ep \<in> S" "card S \<le> ef"
  shows "\<exists>rs. search_layer s q ep ef l = Some rs \<and> hits_ok s q S ef rs \<and>
    sorted_wrt (\<lambda>x y. snd y \<le> snd x) rs \<and> fst ` set rs = S"
proof -
  have ins: "inside s S" and ep: "on_layer s l ep" "ep < length (hs_nodes s)"
    and sub: "set (links s ep l) = S - {ep}" and fin: "finite S"
    using S closed_inside [OF clique_closed [OF S(1)]] by (auto simp: clique_def on_layer_def)
  have b0: "beam_ok s q S ef (start_beam s q ep [])" "covers S (start_beam s q ep [])"
    using start_beam_ok [OF ins S(2), of q ef] S(2) ep ins
    by (auto simp: beam_ok_def covers_def start_beam_def nth_list_update inside_def)
  have "set (links s ep l) \<subseteq> S" using sub by blast
  from expand_covers [OF fin S(3) ins this b0] obtain b' where
    b': "expand_node s q ef (links s ep l) (start_beam s q ep []) = Some b'" "beam_ok s q S ef b'"
      "covers S b'"
      "\<forall>n. bm_visited (start_beam s q ep []) ! n \<or> n \<in> set (links s ep l) \<longrightarrow> bm_visited b' ! n"
    by blast
  have "bm_visited (start_beam s q ep []) ! ep" using ep(2) by (simp add: start_beam_def)
  with b'(4) sub have all: "\<forall>n \<in> S. bm_visited b' ! n" by blast
  have "search_loop s q ef l b' = Some (bm_results b')"
    by (rule search_loop_done [OF S(1) b'(2) all])
  then have "search_layer s q ep ef l = Some (sort_down snd (bm_results b'))"
    using search_loop_start [OF ep(1) b'(1)] ep(2) by (simp add: search_layer_def start_beam_def)
  moreover have "fst ` set (bm_results b') = S" using b'(3) all by (auto simp: covers_def)
  ultimately show ?thesis
    using beam_hits [OF b'(2)] by (simp add: hits_ok_sort sorted_sort_down)
qed

section \<open>Small stores are complete graphs\<close>

definition complete :: "hnsw \<Rightarrow> bool" where
  "complete s \<longleftrightarrow> clique s 0 {0 ..< length (hs_nodes s)}"

lemma prune_short: "on_layer s l n \<Longrightarrow> length (links s n l) \<le> cap \<Longrightarrow> prune n l cap s = Some s"
  by (simp add: prune_def)

lemma connect_back_short:
  assumes "\<forall>t \<in> set ts. on_layer s l t \<and> length (links s t l) < cap" and "distinct ts"
  shows "\<exists>s'. connect_back idx l cap ts s = Some s' \<and> same_shape s s' \<and>
    (\<forall>n. links s' n l = (if n \<in> set ts then links s n l @ [idx] else links s n l))"
  using assms
proof (induction ts arbitrary: s)
  case (Cons t ts)
  let ?s = "set_neighbors t l (links s t l @ [idx]) s"
  have t: "on_layer s l t" "length (links s t l) < cap" using Cons.prems by auto
  note sh = set_neighbors_shape [OF t(1), of "links s t l @ [idx]"]
  have "prune t l cap ?s = Some ?s"
    using t by (intro prune_short) (auto simp: links_set_neighbors same_shape_on [OF sh])
  moreover have "\<forall>k \<in> set ts. on_layer ?s l k \<and> length (links ?s k l) < cap"
    using Cons.prems t by (auto simp: links_set_neighbors same_shape_on [OF sh])
  with Cons.IH [of ?s] Cons.prems obtain s' where
    "connect_back idx l cap ts ?s = Some s'" "same_shape ?s s'"
    "\<forall>n. links s' n l = (if n \<in> set ts then links ?s n l @ [idx] else links ?s n l)" by auto
  ultimately show ?case
    using t sh Cons.prems(2)
    by (intro exI [of _ s']) (auto simp: append_neighbors_def links_set_neighbors intro: same_shape_trans)
qed simp

lemma connect_short:
  assumes "\<forall>t \<in> set ts. on_layer s l t \<and> length (links s t l) < max_neighbors s l"
    and "distinct ts" and "idx \<notin> set ts" and "on_layer s l idx" and "links s idx l = []"
    and "length ts \<le> max_neighbors s l"
  shows "\<exists>s'. connect_node idx ts l s = Some s' \<and> same_shape s s' \<and> links s' idx l = ts \<and>
    (\<forall>n. n \<noteq> idx \<longrightarrow> links s' n l = (if n \<in> set ts then links s n l @ [idx] else links s n l))"
proof -
  let ?s = "set_neighbors idx l ts s" and ?cap = "max_neighbors s l"
  note sh = set_neighbors_shape [OF assms(4), of ts]
  have "prune idx l ?cap ?s = Some ?s"
    using assms(4,6) by (intro prune_short) (auto simp: links_set_neighbors same_shape_on [OF sh])
  moreover have "\<forall>k \<in> set ts. on_layer ?s l k \<and> length (links ?s k l) < ?cap"
    using assms(1,3,4) by (auto simp: links_set_neighbors same_shape_on [OF sh])
  from connect_back_short [OF this assms(2), of idx] obtain s' where
    "connect_back idx l ?cap ts ?s = Some s'" "same_shape ?s s'"
    "\<forall>n. links s' n l = (if n \<in> set ts then links ?s n l @ [idx] else links ?s n l)" by blast
  ultimately show ?thesis
    using assms(3-5) sh
    by (intro exI [of _ s'])
      (auto simp: connect_node_def append_neighbors_def links_set_neighbors intro: same_shape_trans)
qed

text \<open>The last step of an insertion, on layer zero of a store that is complete so far.\<close>

lemma insert_bottom:
  assumes idx: "idx = length (hs_nodes s) - 1" "on_layer s 0 idx" "links s idx 0 = []"
    and old: "clique s 0 {0 ..< idx}" and ep: "ep < idx"
    and fit: "idx \<le> 2 * hs_m s" "idx \<le> hs_ef_construction s"
  shows "\<exists>s'. insert_layers q idx [0] ep s = Some s' \<and> complete s'"
proof -
  from search_layer_exact [OF old, of ep "hs_ef_construction s" q] ep fit obtain rs where
    rs: "search_layer s q ep (hs_ef_construction s) 0 = Some rs"
      "hits_ok s q {0 ..< idx} (hs_ef_construction s) rs" "fst ` set rs = {0 ..< idx}" by auto
  then obtain f fs where f: "rs = f # fs" by (auto simp: hits_ok_def neq_Nil_conv)
  have d: "distinct (map fst rs)" using rs(2) by (simp add: hits_ok_def)
  have len: "length rs = idx" using distinct_card [OF d] rs(3) by simp
  have all: "map fst (take (min (max_neighbors s 0) (length rs)) rs) = map fst rs"
    using len fit by (simp add: max_neighbors_def)
  have dl: "length (links s t 0) = idx - 1" if "t < idx" for t
    using old that distinct_card [of "links s t 0"] by (auto simp: clique_def)
  have "\<forall>t \<in> set (map fst rs). on_layer s 0 t \<and> length (links s t 0) < max_neighbors s 0"
    using rs(3) old dl ep fit by (auto simp: clique_def max_neighbors_def)
  from connect_short [OF this d _ idx(2,3)] rs(3) len fit obtain s' where
    s': "connect_node idx (map fst rs) 0 s = Some s'" "same_shape s s'" "links s' idx 0 = map fst rs"
      "\<forall>n. n \<noteq> idx \<longrightarrow> links s' n 0 = (if n \<in> set (map fst rs) then links s n 0 @ [idx] else links s n 0)"
    by (auto simp: max_neighbors_def)
  have lk: "links s' n 0 = links s n 0 @ [idx]" if "n < idx" for n
    using s'(4) that rs(3) by auto
  have sz: "length (hs_nodes s') = Suc idx" "{0 ..< Suc idx} = insert idx {0 ..< idx}"
    using s'(2) idx ep by (auto simp: same_shape_def on_layer_def)
  have "complete s'"
    unfolding complete_def clique_def sz
    using s'(2,3) idx(2) old rs(3) d lk
    by (auto simp: clique_def same_shape_on)
  with rs(1) s'(1) all f show ?thesis by (simp add: Let_def)
qed

definition older :: "hnsw \<Rightarrow> nat \<Rightarrow> nat \<Rightarrow> nat set" where
  "older s idx l = {n. n < idx \<and> on_layer s l n}"

lemma insert_upper:
  assumes "links_ok s" and "distinct (ls @ [0])" and "sorted_wrt (\<ge>) ls"
    and "\<forall>l \<in> set (ls @ [0]). on_layer s l idx \<and> on_layer s l ep \<and> closed s l (older s idx l)"
    and "idx = length (hs_nodes s) - 1" "links s idx 0 = []" "clique s 0 {0 ..< idx}" "ep < idx"
      "idx \<le> 2 * hs_m s" "idx \<le> hs_ef_construction s"
  shows "\<exists>s'. insert_layers q idx (ls @ [0]) ep s = Some s' \<and> complete s'"
  using assms
proof (induction ls arbitrary: ep s)
  case Nil
  then show ?case using insert_bottom [of idx s ep q] by simp
next
  case (Cons l ls)
  have "ep \<in> older s idx l" "closed s l (older s idx l)" using Cons.prems by (auto simp: older_def)
  from search_layer_ok [OF this(2,1), of q "hs_ef_construction s"] obtain f fs where
    found: "search_layer s q ep (hs_ef_construction s) l = Some (f # fs)"
    "\<forall>h \<in> set (f # fs). fst h < idx \<and> on_layer s l (fst h)"
    by (auto simp: hits_ok_def neq_Nil_conv older_def)
  let ?ts = "map fst (take (min (max_neighbors s l) (length (f # fs))) (f # fs))"
  have "\<forall>t \<in> set ?ts. on_layer s l t" using found(2) by (auto dest!: in_set_takeD)
  with layer_step_connect [of s l idx ?ts] Cons.prems(1,4) obtain s' where
    s': "connect_node idx ?ts l s = Some s'" "links_ok s'" "same_shape s s'"
      "\<forall>n k. k \<noteq> l \<longrightarrow> links s' n k = links s n k"
    by (auto simp: layer_step_def)
  note on = same_shape_on [OF s'(3)]
  have old: "older s' idx k = older s idx k" for k by (simp add: older_def on)
  have cl: "closed s' k (older s' idx k)" if "k \<in> set (ls @ [0])" for k
  proof -
    have "k \<noteq> l" using that Cons.prems(2) by auto
    moreover have "closed s k (older s idx k)" using that Cons.prems(4) by auto
    ultimately show ?thesis using s'(4) by (simp add: closed_def on old)
  qed
  have "\<exists>s2. insert_layers q idx (ls @ [0]) (fst f) s' = Some s2 \<and> complete s2"
  proof (rule Cons.IH)
    show "\<forall>k \<in> set (ls @ [0]). on_layer s' k idx \<and> on_layer s' k (fst f) \<and> closed s' k (older s' idx k)"
      using Cons.prems(3,4) found(2) cl by (auto simp: on intro: on_layer_less)
    show "clique s' 0 {0 ..< idx}" "links s' idx 0 = []" "idx = length (hs_nodes s') - 1"
      "idx \<le> 2 * hs_m s'" "idx \<le> hs_ef_construction s'"
      using Cons.prems s'(3,4) by (auto simp: clique_def on same_shape_def)
  qed (use Cons.prems found(2) s'(2) in auto)
  with found(1) s'(1) show ?case by (simp add: Let_def)
qed

lemma with_node_closed:
  assumes "links_ok s"
  shows "closed (with_node layer i v s) l (older (with_node layer i v s) (length (hs_nodes s)) l)"
  using assms unfolding closed_def older_def
  by (auto simp: with_node_on with_node_links on_layer_bound dest: links_okD [OF assms])

lemma rev_upt_split: "rev [0 ..< n + 1] = rev [1 ..< n + 1] @ [0]"
  by (simp add: upt_conv_Cons)

lemma complete_entry [simp]: "complete (s\<lparr>hs_entry := e\<rparr>) = complete s"
  by (simp add: complete_def clique_def on_layer_def)

lemma hnsw_insert_complete:
  assumes wf: "hnsw_wf s" and c: "complete s"
    and fit: "length (hs_nodes s) \<le> 2 * hs_m s" "length (hs_nodes s) \<le> hs_ef_construction s"
    and res: "hnsw_insert layer i v s = Some s'"
  shows "complete s'"
proof (cases "hs_entry s")
  case None
  with wf res show ?thesis
    using with_node_links(2) [of 0 layer i v s] with_node_on [of layer i v s 0 0]
    by (auto simp: hnsw_insert_eq complete_def clique_def hnsw_wf_def entry_ok_def on_layer_def)
next
  case (Some e)
  let ?s1 = "with_node layer i v s" and ?idx = "length (hs_nodes s)"
  let ?top = "layers ?s1 e - 1"
  let ?k = "min layer ?top"
  have e: "e < ?idx" "0 < layers s e" "\<forall>n < ?idx. 0 < layers s n"
    using wf Some by (auto simp: hnsw_wf_def entry_ok_def)
  have ok: "links_ok ?s1" using wf by (simp add: hnsw_wf_def with_node_links_ok)
  from res Some obtain ep s2 where
    r: "descend ?s1 v (rev [layer + 1 ..< ?top + 1]) e = Some ep"
      "insert_layers v ?idx (rev [0 ..< ?k + 1]) ep ?s1 = Some s2"
      "s' = (if ?top < layer then s2\<lparr>hs_entry := Some ?idx\<rparr> else s2)"
    by (auto simp: hnsw_insert_eq Let_def simp del: upt_Suc split: option.splits)
  have top: "on_layer ?s1 ?top e" using e by (auto simp: on_layer_def with_node_layers)
  then have on: "on_layer ?s1 l e" if "l \<le> ?top" for l using that by (rule on_layer_less)
  have "\<exists>ep. descend ?s1 v (rev [layer + 1 ..< ?top + 1]) e = Some ep \<and> ep \<in> older ?s1 ?idx ?k"
    using e(1) with_node_closed [of s layer i v] wf
    by (intro descend_ok sorted_rev_upt)
      (auto simp: older_def hnsw_wf_def simp del: upt_Suc intro: on on_layer_less)
  then have ep: "ep < ?idx" "on_layer ?s1 ?k ep" using r(1) by (auto simp: older_def)
  have "\<exists>s2. insert_layers v ?idx (rev [1 ..< ?k + 1] @ [0]) ep ?s1 = Some s2 \<and> complete s2"
  proof (rule insert_upper [OF ok])
    show "\<forall>l \<in> set (rev [1 ..< ?k + 1] @ [0]).
        on_layer ?s1 l ?idx \<and> on_layer ?s1 l ep \<and> closed ?s1 l (older ?s1 ?idx l)"
      using wf with_node_closed [of s layer i v] on_layer_less [OF ep(2)]
      by (auto simp: with_node_on [of _ _ _ _ _ ?idx] hnsw_wf_def less_Suc_eq_le simp del: upt_Suc)
    show "clique ?s1 0 {0 ..< ?idx}"
      using c by (auto simp: complete_def clique_def with_node_on with_node_links)
  qed (use ep fit in \<open>auto simp: sorted_rev_upt with_node_links simp del: upt_Suc\<close>)
  then have "complete s2" using r(2) unfolding rev_upt_split by auto
  then show ?thesis using r(3) by simp
qed

lemma hnsw_add_all_complete:
  assumes "hnsw_wf s" and "complete s"
    and "length (hs_nodes s) + length xs \<le> 2 * hs_m s + 1"
    and "length (hs_nodes s) + length xs \<le> hs_ef_construction s + 1"
    and "hnsw_add_all f_ln xs s = Some s'"
  shows "complete s'"
  using assms
proof (induction xs arbitrary: s)
  case (Cons x xs)
  obtain i v where x: "x = (i, v)" by (cases x)
  from hnsw_insert_ok [OF Cons.prems(1), of "assign_layer f_ln (hs_m s) (length (hs_nodes s))" i v]
  obtain s1 where s1: "hnsw_add f_ln i v s = Some s1" "hnsw_wf s1" "items s1 = items s @ [(i, v)]"
    "params s1 = params s" by (auto simp: hnsw_add_def)
  have "complete s1"
    using hnsw_insert_complete [OF Cons.prems(1,2)] Cons.prems(3,4) s1(1) by (simp add: hnsw_add_def)
  moreover have "length (hs_nodes s1) = Suc (length (hs_nodes s))"
    using arg_cong [OF s1(3), of length] by simp
  ultimately show ?case
    using Cons.IH [of s1] Cons.prems(3-) s1 x by (simp add: params_def)
qed simp

text \<open>Two descending arrangements of the same scores agree in the scores.\<close>

lemma sorted_down_unique:
  assumes "sorted_wrt (\<lambda>x y. snd y \<le> snd x) xs" and "sorted_wrt (\<lambda>x y. snd y \<le> snd x) ys"
    and "mset xs = mset (ys :: ('a \<times> fl) list)"
  shows "map snd xs = map snd ys"
proof -
  have "sorted (rev (map snd xs))" "sorted (rev (map snd ys))"
    using assms(1,2) by (simp_all add: sorted_wrt_rev sorted_wrt_map rev_map [symmetric] sorted_map)
  moreover have "mset (rev (map snd xs)) = mset (rev (map snd ys))" 
    using arg_cong [OF assms(3), of "image_mset snd"] by simp
  ultimately have "rev (map snd xs) = rev (map snd ys)" by (metis sorted_sort_id properties_for_sort)
  then show ?thesis by simp
qed

lemma distinct_scores_unique:
  assumes "map snd xs = map snd ys" and "mset xs = mset ys" and "distinct (map snd ys)"
  shows "xs = ys"
proof -
  have "set xs = set ys" using assms(2) by (metis set_mset_mset)
  with assms(3) have "inj_on snd (set xs \<union> set ys)" by (simp add: distinct_map)
  with assms(1) show ?thesis by (rule map_inj_on)
qed

lemma hnsw_knn_complete:
  assumes wf: "hnsw_wf s" and c: "complete s" and fit: "length (hs_nodes s) \<le> max (hs_ef_search s) k"
  shows "\<exists>xs. hnsw_knn s q k = Some (take k xs) \<and> sorted_wrt (\<lambda>x y. snd y \<le> snd x) xs \<and>
    mset xs = mset (scored_items (items s) q)"
proof (cases "hs_entry s")
  case None
  with wf show ?thesis
    by (auto simp: hnsw_knn_def hnsw_wf_def entry_ok_def items_def scored_items_def intro: exI [of _ "[]"])
next
  case (Some e)
  let ?N = "length (hs_nodes s)" and ?ef = "max (hs_ef_search s) k"
  let ?g = "\<lambda>(n, sim). (hn_id (hs_nodes s ! n), sim)"
  from descend_entry [OF wf Some] obtain ep where
    ep: "descend s q (rev [1 ..< layers s e]) e = Some ep" "on_layer s 0 ep" by blast
  from search_layer_exact [of s 0 "{0 ..< ?N}" ep ?ef q] c ep(2) fit obtain rs where
    rs: "search_layer s q ep ?ef 0 = Some rs" "hits_ok s q {0 ..< ?N} ?ef rs"
      "sorted_wrt (\<lambda>x y. snd y \<le> snd x) rs" "fst ` set rs = {0 ..< ?N}"
    by (auto simp: complete_def on_layer_def)
  have "mset (map fst rs) = mset [0 ..< ?N]"
    using rs(2,4) by (intro set_eq_iff_mset_eq_distinct [THEN iffD1]) (auto simp: hits_ok_def)
  then have "mset (map (\<lambda>n. scored_items (items s) q ! n) (map fst rs)) =
      mset (map (\<lambda>n. scored_items (items s) q ! n) [0 ..< ?N])" by (metis mset_map)
  moreover have "map ?g rs = map (\<lambda>n. scored_items (items s) q ! n) (map fst rs)"
    using rs(2) by (auto simp: hits_ok_def scored_items_nth)
  moreover have "map (\<lambda>n. scored_items (items s) q ! n) [0 ..< ?N] = scored_items (items s) q"
    using map_nth [of "scored_items (items s) q"] by (simp add: scored_items_def)
  moreover have "sorted_wrt (\<lambda>x y. snd y \<le> snd x) (map ?g rs)"
    using rs(3) by (simp add: sorted_wrt_map case_prod_beta)
  ultimately have "mset (map ?g rs) = mset (scored_items (items s) q)"
    "sorted_wrt (\<lambda>x y. snd y \<le> snd x) (map ?g rs)" by metis+
  then show ?thesis
    using Some ep(1) rs(1)
    by (intro exI [of _ "map ?g rs"]) (simp add: hnsw_knn_def layers_def take_map)
qed

lemma flat_store_of: "fold (\<lambda>(i, v). flat_add i v) xs st = st @ xs"
  by (induction xs arbitrary: st) (auto simp: flat_add_def)

section \<open>Properties\<close>

text \<open>
  The layered index never fails. Whatever vectors are added and whatever layers the logarithm
  assigns, building the index and querying it index no vector out of bounds and end; a query returns
  distinct stored items, each with its dot product with the query, best first and at most \<open>k\<close> of
  them, and it is empty only if nothing is stored or nothing is asked for.
\<close>
theorem hnsw_sound:
  "\<exists>s. hnsw_add_all f_ln xs (hnsw_new m c e) = Some s \<and>
     (\<forall>q k. \<exists>hits. hnsw_knn s q k = Some hits \<and> answer xs q k hits)"
proof -
  from hnsw_add_all_ok [OF hnsw_new_wf, of f_ln xs m c e] obtain s where
    s: "hnsw_add_all f_ln xs (hnsw_new m c e) = Some s" "hnsw_wf s" "items s = xs"
    by (auto simp: hnsw_new_def items_def)
  with hnsw_knn_ok [OF s(2)] show ?thesis by auto
qed

text \<open>
  On small stores the layered index is the exact store. If the number of vectors does not exceed
  \<open>2 m + 1\<close>, the construction width plus one, and the search width or \<open>k\<close>, then a query to the index
  has the same similarities as the query to \<open>FlatVectorStore\<close> holding the same vectors, its hits are
  scored items of that store, and the two answers are equal when no two items tie.
\<close>
theorem hnsw_small_exact:
  assumes "length xs \<le> 2 * max m 2 + 1" and "length xs \<le> max c m + 1" and "length xs \<le> max (max e 1) k"
  shows "\<exists>s hits. hnsw_add_all f_ln xs (hnsw_new m c e) = Some s \<and> hnsw_knn s q k = Some hits \<and>
    map snd hits = map snd (flat_knn (fold (\<lambda>(i, v). flat_add i v) xs []) q k) \<and>
    set hits \<subseteq> set (scored_items xs q) \<and>
    (distinct (map snd (scored_items xs q)) \<longrightarrow>
      hits = flat_knn (fold (\<lambda>(i, v). flat_add i v) xs []) q k)"
proof -
  have new: "complete (hnsw_new m c e)" by (simp add: complete_def clique_def hnsw_new_def)
  from hnsw_add_all_ok [OF hnsw_new_wf, of f_ln xs m c e] obtain s where
    s: "hnsw_add_all f_ln xs (hnsw_new m c e) = Some s" "hnsw_wf s" "items s = xs"
      "params s = (max m 2, max c m, max e 1)"
    by (auto simp: hnsw_new_def items_def params_def)
  have "complete s"
    using hnsw_add_all_complete [OF hnsw_new_wf new _ _ s(1)] assms by (simp add: hnsw_new_def)
  moreover have "length (hs_nodes s) \<le> max (hs_ef_search s) k"
    using s(3,4) assms(3) by (metis length_items params_def prod.inject)
  ultimately obtain ys where ys: "hnsw_knn s q k = Some (take k ys)"
    "sorted_wrt (\<lambda>x y. snd y \<le> snd x) ys" "mset ys = mset (scored_items xs q)"
    using hnsw_knn_complete [OF s(2)] s(3) by blast
  let ?zs = "sort_down snd (scored_items xs q)"
  have eq: "map snd ys = map snd ?zs" "mset ys = mset ?zs"
    using ys by (auto intro: sorted_down_unique sorted_sort_down)
  have "ys = ?zs" if "distinct (map snd (scored_items xs q))"
  proof (rule distinct_scores_unique [OF eq])
    have "mset (map snd ?zs) = mset (map snd (scored_items xs q))" by simp
    with that show "distinct (map snd ?zs)" by (metis mset_eq_imp_distinct_iff)
  qed
  then show ?thesis
    using s(1) ys eq
    by (intro exI [of _ s] exI [of _ "take k ys"])
      (auto simp: flat_store_of flat_knn_def take_map [symmetric] dest: in_set_takeD mset_eq_setD)
qed

theorem hnsw_small_exact_witness:
  "\<exists>s hits. hnsw_add_all (\<lambda>_. Num 1) [(''a'', [Num 1, Num 0]), (''b'', [Num 0, Num 1])] (hnsw_new 16 100 64)
      = Some s \<and>
    hnsw_knn s [Num 1, Num 0] 1 = Some hits \<and>
    hits = flat_knn [(''a'', [Num 1, Num 0]), (''b'', [Num 0, Num 1])] [Num 1, Num 0] 1"
proof -
  have "distinct (map snd (scored_items [(''a'', [Num 1, Num 0]), (''b'', [Num 0, Num 1])] [Num 1, Num 0]))"
    by code_simp
  with hnsw_small_exact [of "[(''a'', [Num 1, Num 0]), (''b'', [Num 0, Num 1])]" 16 100 64 1
      "\<lambda>_. Num 1" "[Num 1, Num 0]"]
  show ?thesis by (simp only: flat_store_of) auto
qed

end
