(* ===== verification/Correlate_Incident.thy ===== *)
theory Correlate_Incident
  imports Ieee_Float Core_Event
begin

text \<open>
  From the events of a candidate to an incident: ATT\&CK tactics (\<open>attack.rs\<close>), the causal graph
  (\<open>causal.rs\<close> and the graph types of \<open>sigil-core/src/plugin.rs\<close>), the two path selectors
  (\<open>pathselect.rs\<close>, \<open>sigil-correlate-rl\<close>) and incident assembly (\<open>incident.rs\<close>). A node index out
  of range, a panic in the code, is \<open>None\<close>; the loops of the selectors are partial functions that are
  proved to end. Strings that leave ASCII are written in UTF-8 bytes.
\<close>

section \<open>Tactics\<close>

fun tactic_for_class :: "ocsf_class \<Rightarrow> string" where
  "tactic_for_class Authentication = ''credential-access''"
| "tactic_for_class ProcessActivity = ''execution''"
| "tactic_for_class NetworkActivity = ''command-and-control''"
| "tactic_for_class FileSystemActivity = ''collection''"
| "tactic_for_class HttpActivity = ''command-and-control''"
| "tactic_for_class ApiActivity = ''execution''"
| "tactic_for_class DnsActivity = ''command-and-control''"
| "tactic_for_class ModuleActivity = ''defense-evasion''"
| "tactic_for_class ScheduledJobActivity = ''persistence''"
| "tactic_for_class RegistryKeyActivity = ''persistence''"
| "tactic_for_class (OtherClass _) = ''unknown''"

definition tactic_by_technique :: "string \<Rightarrow> string option" where
  "tactic_by_technique technique =
     (let t = to_uppercase technique; p = (\<lambda>x. prefix x t)
      in if p ''T1110'' \<or> p ''T1003'' \<or> p ''T1552'' then Some ''credential-access''
         else if p ''T1548'' \<or> p ''T1068'' \<or> p ''T1078'' then Some ''privilege-escalation''
         else if p ''T1059'' \<or> p ''T1203'' then Some ''execution''
         else if p ''T1071'' \<or> p ''T1572'' \<or> p ''T1105'' then Some ''command-and-control''
         else if p ''T1041'' \<or> p ''T1048'' then Some ''exfiltration''
         else if p ''T1021'' \<or> p ''T1210'' then Some ''lateral-movement''
         else None)"

definition tactic_for :: "string option \<Rightarrow> ocsf_class \<Rightarrow> string" where
  "tactic_for technique c =
     (case Option.bind technique tactic_by_technique of
        Some t \<Rightarrow> t
      | None \<Rightarrow> tactic_for_class c)"

section \<open>The causal graph\<close>

record causal_node =
  cn_event_id :: string
  cn_label :: string
  cn_ts :: timestamp
  cn_technique :: "string option"
  cn_tactic :: "string option"
  cn_anomaly :: fl

record causal_edge =
  ce_from :: nat
  ce_to :: nat
  ce_score :: fl

record causal_graph =
  cg_nodes :: "causal_node list"
  cg_edges :: "causal_edge list"

record attack_chain =
  ac_path :: "nat list"
  ac_score :: fl

definition outgoing :: "causal_graph \<Rightarrow> nat \<Rightarrow> causal_edge list" where
  "outgoing g n = filter (\<lambda>e. ce_from e = n) (cg_edges g)"

record causal_config =
  cc_window_micros :: int
  cc_beam_width :: nat

definition causal_config_default :: causal_config where
  "causal_config_default = \<lparr>cc_window_micros = 30 * 60 * 1000000, cc_beam_width = 4\<rparr>"

record causal_build =
  cb_graph :: causal_graph
  cb_reasons :: "((nat \<times> nat) \<times> string) list"

fun label_class :: "ocsf_class \<Rightarrow> string" where
  "label_class Authentication = ''authentication''"
| "label_class ProcessActivity = ''process_activity''"
| "label_class FileSystemActivity = ''file_system_activity''"
| "label_class NetworkActivity = ''network_activity''"
| "label_class HttpActivity = ''http_activity''"
| "label_class ApiActivity = ''api_activity''"
| "label_class DnsActivity = ''dns_activity''"
| "label_class ModuleActivity = ''module_activity''"
| "label_class ScheduledJobActivity = ''scheduled_job_activity''"
| "label_class RegistryKeyActivity = ''registry_key_activity''"
| "label_class (OtherClass _) = ''other''"

definition label_for :: "event \<Rightarrow> string" where
  "label_for e =
     (case ev_actor e of
        Some a \<Rightarrow> label_class (ev_class e) @ '' '' @ er_kind a @ '':'' @ er_id a
      | None \<Rightarrow> label_class (ev_class e))"

text \<open>The anomaly heuristic: a base by severity, a tenth per suspicious keyword, at most one.\<close>

fun severity_base :: "severity \<Rightarrow> fl" where
  "severity_base Critical = flit f32 (9 / 10)"
| "severity_base Fatal = flit f32 (9 / 10)"
| "severity_base High = flit f32 (3 / 4)"
| "severity_base Medium = flit f32 (1 / 2)"
| "severity_base Low = flit f32 (3 / 10)"
| "severity_base _ = flit f32 (1 / 5)"

definition suspicious :: "string list" where
  "suspicious =
     [''shadow'', ''reverse shell'', ''nc -e'', ''/bin/sh'', ''mimikatz'', ''failed password'', ''exploit'']"

definition anomaly_score :: "event \<Rightarrow> fl" where
  "anomaly_score e =
     (let msg = to_lowercase (ev_message e)
      in fmin (fold (\<lambda>kw s. if contains kw msg then fadd f32 s (flit f32 (1 / 10)) else s) suspicious
                 (severity_base (ev_severity e)))
           (Num 1))"

definition shared_entities :: "event \<Rightarrow> event \<Rightarrow> string list" where
  "shared_entities a b =
     (let keys = (\<lambda>e. map entity_key (event_entities e))
      in filter (\<lambda>k. k \<in> set (keys b)) (keys a))"

definition temporal_score :: "int \<Rightarrow> fl" where
  "temporal_score dt =
     (let secs = fdiv f32 (of_integer f32 (max dt 0)) (Num 1000000)
      in fdiv f32 (Num 1) (fadd f32 (Num 1) (fdiv f32 secs (Num 60))))"

definition human_dt :: "int \<Rightarrow> string" where
  "human_dt dt =
     (let secs = fdiv f64 (of_integer f64 (max dt 0)) (Num 1000000)
      in if flt secs (Num 90) then show_fixed 0 secs @ ''s''
         else show_fixed 1 (fdiv f64 secs (Num 60)) @ ''m'')"

definition edge_score :: "int \<Rightarrow> fl \<Rightarrow> fl" where
  "edge_score dt anomaly =
     fmin (fadd f32 (fadd f32 (flit f32 (45 / 100)) (fmul f32 (flit f32 (1 / 4)) (temporal_score dt)))
             (fmul f32 (flit f32 (3 / 10)) anomaly))
       (Num 1)"

definition causal_node_of :: "(string \<times> string) list \<Rightarrow> event \<Rightarrow> causal_node" where
  "causal_node_of techniques e =
     (let technique = map_of techniques (ev_id e)
      in \<lparr>cn_event_id = ev_id e, cn_label = label_for e, cn_ts = ev_ts e, cn_technique = technique,
          cn_tactic = Some (tactic_for technique (ev_class e)), cn_anomaly = anomaly_score e\<rparr>)"

text \<open>
  The pairs \<open>i < j\<close> in the order of the two loops. The difference of the time stamps wraps at 64
  bits; a pair needs a shared entity within the window.
\<close>

definition linked_pair :: "causal_config \<Rightarrow> event list \<Rightarrow> nat \<times> nat \<Rightarrow> bool" where
  "linked_pair cfg es p =
     (let a = es ! fst p; b = es ! snd p
      in \<not> cc_window_micros cfg < wrap64 (ev_ts b - ev_ts a) \<and> shared_entities a b \<noteq> [])"

definition index_pairs :: "nat \<Rightarrow> (nat \<times> nat) list" where
  "index_pairs n = concat (map (\<lambda>i. map (Pair i) [i + 1 ..< n]) [0 ..< n])"

definition pair_reason :: "event list \<Rightarrow> nat \<times> nat \<Rightarrow> string" where
  "pair_reason es p =
     (let a = es ! fst p; b = es ! snd p
      in ''shares '' @ join '', '' (shared_entities a b) @ ''; '' @ [CHR 0xCE, CHR 0x94] @ ''t='' @
         human_dt (wrap64 (ev_ts b - ev_ts a)))"

definition build_causal_graph :: "event list \<Rightarrow> (string \<times> string) list \<Rightarrow> causal_config \<Rightarrow> causal_build" where
  "build_causal_graph events techniques cfg =
     (let es = sort_key ev_ts events; nodes = map (causal_node_of techniques) es;
          ps = filter (linked_pair cfg es) (index_pairs (length es))
      in \<lparr>cb_graph =
            \<lparr>cg_nodes = nodes,
             cg_edges = map (\<lambda>(i, j). \<lparr>ce_from = i, ce_to = j,
               ce_score = edge_score (wrap64 (ev_ts (es ! j) - ev_ts (es ! i))) (cn_anomaly (nodes ! j))\<rparr>) ps\<rparr>,
          cb_reasons = map (\<lambda>p. (p, pair_reason es p)) ps\<rparr>)"

section \<open>Path selection\<close>

definition node_bonus :: "causal_graph \<Rightarrow> nat \<Rightarrow> fl option" where
  "node_bonus g n =
     (if n < length (cg_nodes g) then Some (fmul f32 (cn_anomaly (cg_nodes g ! n)) (flit f32 (1 / 10)))
      else None)"

type_synonym partial_path = "nat list \<times> fl"

fun extensions :: "causal_graph \<Rightarrow> partial_path \<Rightarrow> causal_edge list \<Rightarrow> partial_path list option" where
  "extensions g p [] = Some []"
| "extensions g p (e # es) =
     (if ce_to e \<in> set (fst p) then extensions g p es
      else
        (case node_bonus g (ce_to e) of
           None \<Rightarrow> None
         | Some b \<Rightarrow>
             map_option ((#) (fst p @ [ce_to e], fadd f32 (fadd f32 (snd p) (ce_score e)) b))
               (extensions g p es)))"

fun candidates :: "causal_graph \<Rightarrow> partial_path list \<Rightarrow> partial_path list option" where
  "candidates g [] = Some []"
| "candidates g (p # ps) =
     (case extensions g p (outgoing g (last (fst p))) of
        None \<Rightarrow> None
      | Some xs \<Rightarrow> map_option ((@) xs) (candidates g ps))"

definition keep_best :: "partial_path \<Rightarrow> partial_path \<Rightarrow> partial_path" where
  "keep_best c best = (if flt (snd best) (snd c) then c else best)"

partial_function (option) beam_loop ::
  "causal_graph \<Rightarrow> nat \<Rightarrow> partial_path list \<Rightarrow> partial_path \<Rightarrow> partial_path option" where
  "beam_loop g width beam best =
     (case candidates g beam of
        None \<Rightarrow> None
      | Some cs \<Rightarrow>
          (if cs = [] then Some best
           else beam_loop g width (take width (sort_down snd cs)) (fold keep_best cs best)))"

definition single_paths :: "causal_graph \<Rightarrow> partial_path list" where
  "single_paths g =
     map (\<lambda>(i, n). ([i], fmul f32 (cn_anomaly n) (flit f32 (1 / 10)))) (enumerate 0 (cg_nodes g))"

definition beam_search :: "causal_graph \<Rightarrow> nat \<Rightarrow> attack_chain option" where
  "beam_search g width =
     (if cg_nodes g = [] then Some \<lparr>ac_path = [], ac_score = Num 0\<rparr>
      else
        (let best = (case max_by_key snd (single_paths g) of Some b \<Rightarrow> b | None \<Rightarrow> ([0], Num 0))
         in map_option (\<lambda>(p, s). \<lparr>ac_path = p, ac_score = s\<rparr>)
              (beam_loop g width (single_paths g) best)))"

definition beam_selector :: "nat \<Rightarrow> causal_graph \<Rightarrow> attack_chain option" where
  "beam_selector beam_width g = beam_search g (max beam_width 1)"

text \<open>The value-guided selector: from a start, the edge with the largest value is followed.\<close>

definition edge_value :: "causal_graph \<Rightarrow> fl \<Rightarrow> causal_edge \<Rightarrow> fl" where
  "edge_value g gamma e =
     fadd f32 (ce_score e)
       (fmul f32 gamma (fold (\<lambda>x acc. fmax acc x) (map ce_score (outgoing g (ce_to e))) (Num 0)))"

definition choose_edge ::
  "causal_graph \<Rightarrow> fl \<Rightarrow> nat list \<Rightarrow> causal_edge \<Rightarrow> (nat \<times> fl \<times> fl) option \<Rightarrow> (nat \<times> fl \<times> fl) option" where
  "choose_edge g gamma path e best =
     (if ce_to e \<in> set path then best
      else
        (let q = edge_value g gamma e
         in case best of
              None \<Rightarrow> Some (ce_to e, q, ce_score e)
            | Some (_, q', _) \<Rightarrow> if flt q' q then Some (ce_to e, q, ce_score e) else best))"

partial_function (option) rollout ::
  "causal_graph \<Rightarrow> fl \<Rightarrow> nat list \<Rightarrow> fl \<Rightarrow> partial_path option" where
  "rollout g gamma path sofar =
     (case fold (choose_edge g gamma path) (outgoing g (last path)) None of
        None \<Rightarrow> Some (path, sofar)
      | Some (to, _, score) \<Rightarrow>
          (case node_bonus g to of
             None \<Rightarrow> None
           | Some b \<Rightarrow> rollout g gamma (path @ [to]) (fadd f32 sofar (fadd f32 score b))))"

fun rollouts :: "causal_graph \<Rightarrow> fl \<Rightarrow> nat list \<Rightarrow> partial_path \<Rightarrow> partial_path option" where
  "rollouts g gamma [] best = Some best"
| "rollouts g gamma (i # is) best =
     (case node_bonus g i of
        None \<Rightarrow> None
      | Some b \<Rightarrow>
          (case rollout g gamma [i] b of
             None \<Rightarrow> None
           | Some chain \<Rightarrow>
               rollouts g gamma is (if flt (snd best) (snd chain) then chain else best)))"

definition f32_min :: fl where
  "f32_min = Num (- ((2 ^ 24 - 1) * 2 ^ 104))"

definition rl_selector :: "fl \<Rightarrow> causal_graph \<Rightarrow> attack_chain option" where
  "rl_selector gamma g =
     (if cg_nodes g = [] then Some \<lparr>ac_path = [], ac_score = Num 0\<rparr>
      else map_option (\<lambda>(p, s). \<lparr>ac_path = p, ac_score = s\<rparr>)
             (rollouts g gamma [0 ..< length (cg_nodes g)] ([0], f32_min)))"

section \<open>Incidents\<close>

record campaign_candidate =
  cd_id :: nat
  cd_events :: "string list"
  cd_domains :: "string list"
  cd_links :: nat
  cd_score :: fl

record incident_step =
  is_event_id :: string
  is_label :: string
  is_ts :: timestamp
  is_tactic :: "string option"
  is_technique :: "string option"
  is_anomaly :: fl

record incident =
  in_id :: nat
  in_events :: "string list"
  in_chain :: "incident_step list"
  in_tactics :: "string list"
  in_techniques :: "string list"
  in_confidence :: fl
  in_explanation :: "string list"

definition step_of :: "causal_node \<Rightarrow> incident_step" where
  "step_of n =
     \<lparr>is_event_id = cn_event_id n, is_label = cn_label n, is_ts = cn_ts n, is_tactic = cn_tactic n,
      is_technique = cn_technique n, is_anomaly = cn_anomaly n\<rparr>"

definition distinct_strings :: "string list \<Rightarrow> string list" where
  "distinct_strings xs = fold (\<lambda>x out. if x \<in> set out then out else out @ [x]) xs []"

definition confidence :: "incident_step list \<Rightarrow> string list \<Rightarrow> fl" where
  "confidence steps tactics =
     (if length steps < 2 then Num 0
      else
        (let n = of_integer f32 (int (length steps));
             avg = fdiv f32 (fsum f32 (map is_anomaly steps)) n;
             len_term = fmul f32 (flit f32 (15 / 100)) (fsub f32 n (Num 1));
             tactic_term = fmul f32 (flit f32 (1 / 10))
               (fmax (fsub f32 (of_integer f32 (int (length tactics))) (Num 1)) (Num 0))
         in fclamp (Num 0) (flit f32 (99 / 100))
              (fadd f32 (fadd f32 (fadd f32 (flit f32 (1 / 5)) len_term) tactic_term)
                (fmul f32 (flit f32 (3 / 10)) avg))))"

definition explain_edge :: "causal_build \<Rightarrow> nat \<times> nat \<Rightarrow> string" where
  "explain_edge b p =
     (let g = cb_graph b;
          reason = (case map_of (cb_reasons b) p of Some r \<Rightarrow> r | None \<Rightarrow> []);
          score = (case find (\<lambda>e. ce_to e = snd p) (outgoing g (fst p)) of
                     Some e \<Rightarrow> ce_score e | None \<Rightarrow> Num 0)
      in cn_label (cg_nodes g ! fst p) @ '' '' @ [CHR 0xE2, CHR 0x86, CHR 0x92] @ '' '' @
         cn_label (cg_nodes g ! snd p) @ '' ('' @ reason @ ''; causal='' @ show_fixed 2 score @ '')'')"

text \<open>\<open>HashMap\<close> collected from pairs: of two events with one id the later one counts.\<close>

definition member_events :: "event list \<Rightarrow> string list \<Rightarrow> event list" where
  "member_events all ids =
     List.map_filter (map_of (rev (map (\<lambda>e. (ev_id e, e)) all))) ids"

text \<open>An incident, given the chain that a selector found; an index out of range is a panic.\<close>

definition build_incident ::
  "nat \<Rightarrow> campaign_candidate \<Rightarrow> event list \<Rightarrow> (string \<times> string) list \<Rightarrow>
   (causal_graph \<Rightarrow> attack_chain option) \<Rightarrow> causal_config \<Rightarrow> incident option" where
  "build_incident i candidate all techniques select cfg =
     (let build = build_causal_graph (member_events all (cd_events candidate)) techniques cfg;
          g = cb_graph build
      in case select g of
           None \<Rightarrow> None
         | Some chain \<Rightarrow>
             (if \<exists>n \<in> set (ac_path chain). length (cg_nodes g) \<le> n then None
              else
                (let steps = map (\<lambda>n. step_of (cg_nodes g ! n)) (ac_path chain);
                     tactics = distinct_strings (List.map_filter is_tactic steps)
                 in Some
                   \<lparr>in_id = i, in_events = cd_events candidate, in_chain = steps, in_tactics = tactics,
                    in_techniques = distinct_strings (List.map_filter is_technique steps),
                    in_confidence = confidence steps tactics,
                    in_explanation =
                      map (explain_edge build) (zip (ac_path chain) (tl (ac_path chain)))\<rparr>)))"

end
