(* ===== verification/Correlate_Chains.thy ===== *)
theory Correlate_Chains
  imports Correlate_Incident
begin

text \<open>
  What the chain assembly of \<open>sigil-correlate\<close> guarantees: both selectors end and return a simple
  path of the graph, the beam search is exhaustive when no level overflows its width, and an
  incident is a time-ordered chain of member events whose links are explained by shared entities.
\<close>

section \<open>Paths\<close>

definition bonus :: "causal_graph \<Rightarrow> nat \<Rightarrow> fl" where
  "bonus g n = fmul f32 (cn_anomaly (cg_nodes g ! n)) (flit f32 (1 / 10))"

definition graph_ok :: "causal_graph \<Rightarrow> bool" where
  "graph_ok g \<longleftrightarrow> (\<forall>e \<in> set (cg_edges g). ce_to e < length (cg_nodes g))"

text \<open>A path without repetition along the edges, with the score that its edges and nodes add up to.\<close>

inductive scored_path :: "causal_graph \<Rightarrow> nat list \<Rightarrow> fl \<Rightarrow> bool" for g where
  start: "n < length (cg_nodes g) \<Longrightarrow> scored_path g [n] (bonus g n)"
| step: "scored_path g p s \<Longrightarrow> e \<in> set (cg_edges g) \<Longrightarrow> ce_from e = last p \<Longrightarrow>
    ce_to e \<notin> set p \<Longrightarrow> ce_to e < length (cg_nodes g) \<Longrightarrow>
    scored_path g (p @ [ce_to e]) (fadd f32 (fadd f32 s (ce_score e)) (bonus g (ce_to e)))"

definition edge_between :: "causal_graph \<Rightarrow> nat \<Rightarrow> nat \<Rightarrow> bool" where
  "edge_between g a b \<longleftrightarrow> (\<exists>e \<in> set (cg_edges g). ce_from e = a \<and> ce_to e = b)"

definition simple_path :: "causal_graph \<Rightarrow> nat list \<Rightarrow> bool" where
  "simple_path g p \<longleftrightarrow>
     p \<noteq> [] \<and> distinct p \<and> (\<forall>n \<in> set p. n < length (cg_nodes g)) \<and>
     (\<forall>(a, b) \<in> set (zip p (tl p)). edge_between g a b)"

lemma zip_tl_snoc: "p \<noteq> [] \<Longrightarrow> zip (p @ [x]) (tl (p @ [x])) = zip p (tl p) @ [(last p, x)]"
  by (induction p rule: induct_list012) auto

lemma simple_path_snoc:
  assumes "simple_path g p" and "e \<in> set (cg_edges g)" and "ce_from e = last p"
    and "ce_to e \<notin> set p" and "ce_to e < length (cg_nodes g)"
  shows "simple_path g (p @ [ce_to e])"
  using assms zip_tl_snoc [of p "ce_to e"] by (auto simp: simple_path_def edge_between_def)

lemma scored_simple: "scored_path g p s \<Longrightarrow> simple_path g p"
  by (induction rule: scored_path.induct) (auto simp: simple_path_snoc, simp add: simple_path_def)

lemma simple_path_length: "simple_path g p \<Longrightarrow> length p \<le> length (cg_nodes g)"
  using card_mono [of "{..< length (cg_nodes g)}" "set p"] distinct_card [of p]
  by (auto simp: simple_path_def)

lemma node_bonus_ok [simp]: "n < length (cg_nodes g) \<Longrightarrow> node_bonus g n = Some (bonus g n)"
  by (simp add: node_bonus_def bonus_def)

lemma set_outgoing: "set (outgoing g n) = {e \<in> set (cg_edges g). ce_from e = n}"
  by (auto simp: outgoing_def)

section \<open>One level of the beam\<close>

definition extend :: "causal_graph \<Rightarrow> partial_path \<Rightarrow> causal_edge \<Rightarrow> partial_path" where
  "extend g p e =
     (fst p @ [ce_to e], fadd f32 (fadd f32 (snd p) (ce_score e)) (bonus g (ce_to e)))"

definition next_of :: "causal_graph \<Rightarrow> partial_path \<Rightarrow> partial_path list" where
  "next_of g p =
     map (extend g p) (filter (\<lambda>e. ce_to e \<notin> set (fst p)) (outgoing g (last (fst p))))"

definition next_paths :: "causal_graph \<Rightarrow> partial_path list \<Rightarrow> partial_path list" where
  "next_paths g ps = concat (map (next_of g) ps)"

lemma extensions_ok:
  "\<forall>e \<in> set es. ce_to e < length (cg_nodes g) \<Longrightarrow>
    extensions g p es = Some (map (extend g p) (filter (\<lambda>e. ce_to e \<notin> set (fst p)) es))"
  by (induction es) (auto simp: extend_def)

lemma candidates_ok: "graph_ok g \<Longrightarrow> candidates g ps = Some (next_paths g ps)"
  by (induction ps)
    (auto simp: next_paths_def next_of_def extensions_ok graph_ok_def set_outgoing)

lemma next_paths_scored:
  assumes "graph_ok g" and "\<forall>(p, s) \<in> set ps. scored_path g p s" and "(p', s') \<in> set (next_paths g ps)"
  shows "scored_path g p' s' \<and> (\<exists>(p, s) \<in> set ps. length p' = Suc (length p))"
proof -
  from assms(3) obtain p s e where e: "(p, s) \<in> set ps" "e \<in> set (cg_edges g)" "ce_from e = last p"
    "ce_to e \<notin> set p" "p' = p @ [ce_to e]"
    "s' = fadd f32 (fadd f32 s (ce_score e)) (bonus g (ce_to e))"
    by (auto simp: next_paths_def next_of_def extend_def set_outgoing)
  have "scored_path g p s" using assms(2) e(1) by auto
  moreover have "ce_to e < length (cg_nodes g)" using assms(1) e(2) by (simp add: graph_ok_def)
  ultimately have "scored_path g p' s'" unfolding e(5,6) using e(2-4) by (intro scored_path.step)
  moreover have "length p' = Suc (length p)" by (simp add: e(5))
  ultimately show ?thesis using e(1) by blast
qed

lemma mset_concat_map:
  assumes "mset xs = mset ys"
  shows "mset (concat (map f xs)) = mset (concat (map f ys))"
proof -
  have "mset (concat (map f zs)) = (\<Sum>x \<in># mset zs. mset (f x))" for zs
    by (induction zs) auto
  with assms show ?thesis by simp
qed

lemma mset_next_paths: "mset xs = mset ys \<Longrightarrow> mset (next_paths g xs) = mset (next_paths g ys)"
  unfolding next_paths_def by (rule mset_concat_map)

section \<open>The best path seen\<close>

definition no_better :: "partial_path \<Rightarrow> partial_path \<Rightarrow> bool" where
  "no_better best c \<longleftrightarrow> \<not> flt (snd best) (snd c)"

lemma flt_chain: "flt x y \<Longrightarrow> flt y z \<Longrightarrow> flt x z"
  by (cases x; cases y; cases z) (auto simp: flt_def)

lemma le_not_flt: "x \<le> y \<Longrightarrow> \<not> flt y x"
  by (cases x; cases y) (auto simp: flt_def less_eq_fl_def)

lemma keep_best_no_better:
  "no_better (keep_best c best) c" "no_better best x \<Longrightarrow> no_better (keep_best c best) x"
  by (auto simp: no_better_def keep_best_def flt_def dest: flt_chain [unfolded flt_def])

lemma fold_keep_best:
  "no_better best x \<or> x \<in> set cs \<Longrightarrow> no_better (fold keep_best cs best) x"
proof (induction cs arbitrary: best)
  case (Cons c cs)
  then have "no_better (keep_best c best) x \<or> x \<in> set cs"
    using keep_best_no_better(1) [of c best] keep_best_no_better(2) [of best x c] by auto
  then show ?case using Cons.IH by simp
qed simp

lemma fold_keep_best_mem: "fold keep_best cs best \<in> insert best (set cs)"
  by (induction cs arbitrary: best) (force simp: keep_best_def)+

lemma single_paths_set:
  "set (single_paths g) = {([n], bonus g n) | n. n < length (cg_nodes g)}"
  by (auto simp: single_paths_def bonus_def in_set_enumerate_eq image_iff Bex_def)

lemma best_single:
  assumes "cg_nodes g \<noteq> []"
  obtains best where "max_by_key snd (single_paths g) = Some best"
    and "best \<in> set (single_paths g)" and "\<forall>c \<in> set (single_paths g). no_better best c"
proof -
  have "single_paths g \<noteq> []" using assms by (simp add: single_paths_def enumerate_eq_zip)
  then obtain best where b: "max_by_key snd (single_paths g) = Some best"
    by (metis max_by_key_None option.exhaust)
  have "no_better best c" if "c \<in> set (single_paths g)" for c
    using max_by_key_ge [OF b that] by (simp add: no_better_def le_not_flt)
  with b max_by_key_mem [OF b] that show ?thesis by blast
qed

section \<open>The beam search\<close>

lemma too_long:
  assumes "\<forall>(p, s) \<in> set beam. scored_path g p s \<and> length (cg_nodes g) < length p"
  shows "beam = []"
proof (cases beam)
  case (Cons b bs)
  then have "scored_path g (fst b) (snd b)" "length (cg_nodes g) < length (fst b)" using assms by auto
  with simple_path_length [OF scored_simple] show ?thesis by fastforce
qed

lemma beam_loop_ok:
  assumes "graph_ok g" and "\<forall>(p, s) \<in> set beam. scored_path g p s \<and> length (cg_nodes g) < length p + k"
    and "scored_path g (fst best) (snd best)"
  shows "\<exists>r. beam_loop g w beam best = Some r \<and> scored_path g (fst r) (snd r) \<and>
    (\<forall>x. no_better best x \<longrightarrow> no_better r x)"
  using assms(2,3)
proof (induction k arbitrary: beam best)
  case 0
  then have "beam = []" by (intro too_long) simp
  with assms(1) 0(2) show ?case
    by (subst beam_loop.simps) simp
next
  case (Suc k)
  let ?cs = "next_paths g beam" and ?best = "fold keep_best (next_paths g beam) best"
  have sc: "\<forall>(p, s) \<in> set ?cs. scored_path g p s \<and> length (cg_nodes g) < length p + k"
    using next_paths_scored [OF assms(1), of beam] Suc.prems(1) by fastforce
  then have "\<forall>(p, s) \<in> set (take w (sort_down snd ?cs)). scored_path g p s \<and> length (cg_nodes g) < length p + k"
    by (auto dest!: in_set_takeD)
  moreover have "scored_path g (fst ?best) (snd ?best)"
    using fold_keep_best_mem [of ?cs best] sc Suc.prems(2) by auto
  ultimately obtain r where
    r: "beam_loop g w (take w (sort_down snd ?cs)) ?best = Some r" "scored_path g (fst r) (snd r)"
      "\<forall>x. no_better ?best x \<longrightarrow> no_better r x"
    using Suc.IH by blast
  show ?case
  proof (cases "?cs = []")
    case True
    with Suc.prems(2) assms(1) show ?thesis by (subst beam_loop.simps) (simp add: candidates_ok)
  next
    case False
    with r assms(1) show ?thesis
      by (subst beam_loop.simps) (auto simp: candidates_ok fold_keep_best)
  qed
qed

text \<open>All simple paths, level by level.\<close>

fun all_paths :: "causal_graph \<Rightarrow> nat \<Rightarrow> partial_path list" where
  "all_paths g 0 = single_paths g"
| "all_paths g (Suc k) = next_paths g (all_paths g k)"

lemma scored_in_all: "scored_path g p s \<Longrightarrow> (p, s) \<in> set (all_paths g (length p - 1))"
proof (induction rule: scored_path.induct)
  case (step p s e)
  have "p \<noteq> []" using scored_simple [OF step.hyps(1)] by (simp add: simple_path_def)
  then have "length (p @ [ce_to e]) - 1 = Suc (length p - 1)" by (cases p) auto
  moreover have "(p @ [ce_to e], fadd f32 (fadd f32 s (ce_score e)) (bonus g (ce_to e)))
      \<in> set (next_of g (p, s))"
    using step.hyps by (auto simp: next_of_def extend_def set_outgoing)
  ultimately show ?case using step.IH by (simp only: all_paths.simps next_paths_def) auto
qed (auto simp: single_paths_set)

lemma all_paths_scored:
  "graph_ok g \<Longrightarrow> \<forall>(p, s) \<in> set (all_paths g k). scored_path g p s \<and> length p = Suc k"
proof (induction k)
  case 0
  then show ?case by (auto simp: single_paths_set intro: scored_path.start)
next
  case (Suc k)
  with next_paths_scored [OF Suc.prems, of "all_paths g k"] show ?case by fastforce
qed

lemma all_paths_end: "graph_ok g \<Longrightarrow> length (cg_nodes g) \<le> k \<Longrightarrow> all_paths g k = []"
  using all_paths_scored [of g k] by (intro too_long) auto

lemma beam_loop_exhaustive:
  assumes ok: "graph_ok g" and fit: "\<forall>k. length (all_paths g (Suc k)) \<le> w"
    and "mset beam = mset (all_paths g k)"
    and "\<forall>j \<le> k. \<forall>c \<in> set (all_paths g j). no_better best c"
    and "beam_loop g w beam best = Some r"
    and "\<forall>(p, s) \<in> set beam. scored_path g p s \<and> length (cg_nodes g) < length p + n"
  shows "\<forall>j. \<forall>c \<in> set (all_paths g j). no_better r c"
  using assms(3-)
proof (induction n arbitrary: beam best k)
  case (0 beam best k)
  then have "beam = []" by (intro too_long) simp
  with 0 have "all_paths g k = []" "r = best"
    using ok by (auto simp: candidates_ok next_paths_def beam_loop.simps [of g w "[]"])
  note nil = this(1)
  have "all_paths g j = []" if "k \<le> j" for j
    using that by (induction rule: dec_induct) (auto simp: next_paths_def nil)
  with 0(2) \<open>r = best\<close> show ?case by (metis empty_iff linear list.set(1))
next
  case (Suc n beam best k)
  let ?cs = "next_paths g beam" and ?best = "fold keep_best (next_paths g beam) best"
  have m: "mset ?cs = mset (all_paths g (Suc k))" using mset_next_paths [OF Suc.prems(1)] by simp
  have all: "\<forall>j \<le> Suc k. \<forall>c \<in> set (all_paths g j). no_better ?best c"
    using Suc.prems(2) mset_eq_setD [OF m] by (auto simp: le_Suc_eq intro!: fold_keep_best)
  show ?case
  proof (cases "?cs = []")
    case True
    with m have nil: "all_paths g (Suc k) = []" by simp
    have "r = best" using Suc.prems(3) True ok by (subst (asm) beam_loop.simps) (simp add: candidates_ok)
    moreover have "all_paths g j = []" if "Suc k \<le> j" for j
      using that by (induction rule: dec_induct) (auto simp: next_paths_def nil [unfolded all_paths.simps next_paths_def])
    ultimately show ?thesis using Suc.prems(2) by (metis empty_iff list.set(1) not_less_eq_eq)
  next
    case False
    have "length ?cs \<le> w" using fit m by (metis size_mset)
    then have tk: "take w (sort_down snd ?cs) = sort_down snd ?cs" by simp
    have "beam_loop g w (sort_down snd ?cs) ?best = Some r"
      using Suc.prems(3) False ok tk by (subst (asm) beam_loop.simps) (simp add: candidates_ok)
    moreover have "\<forall>(p, s) \<in> set (sort_down snd ?cs). scored_path g p s \<and> length (cg_nodes g) < length p + n"
      using next_paths_scored [OF ok, of beam] Suc.prems(4) by fastforce
    ultimately show ?thesis using Suc.IH [of "sort_down snd ?cs" "Suc k" ?best] m all by simp
  qed
qed

text \<open>Every start of the search meets the invariants.\<close>

lemma single_paths_scored:
  "\<forall>(p, s) \<in> set (single_paths g). scored_path g p s \<and> length (cg_nodes g) < length p + length (cg_nodes g)"
  by (auto simp: single_paths_set intro: scored_path.start)

lemma beam_search_loop:
  assumes "graph_ok g" and "cg_nodes g \<noteq> []"
  obtains best r where "beam_search g w = Some \<lparr>ac_path = fst r, ac_score = snd r\<rparr>"
    and "beam_loop g w (single_paths g) best = Some r" and "scored_path g (fst r) (snd r)"
    and "\<forall>c \<in> set (single_paths g). no_better best c" and "\<forall>x. no_better best x \<longrightarrow> no_better r x"
proof -
  from best_single [OF assms(2)] obtain best where
    b: "max_by_key snd (single_paths g) = Some best" "best \<in> set (single_paths g)"
      "\<forall>c \<in> set (single_paths g). no_better best c" .
  have "scored_path g (fst best) (snd best)" using single_paths_scored b(2) by fastforce
  from beam_loop_ok [OF assms(1) single_paths_scored this] obtain r where
    "beam_loop g w (single_paths g) best = Some r" "scored_path g (fst r) (snd r)"
    "\<forall>x. no_better best x \<longrightarrow> no_better r x" by blast
  with b assms(2) that show ?thesis by (simp add: beam_search_def case_prod_beta)
qed

lemma beam_selector_ok:
  assumes "graph_ok g"
  shows "\<exists>c. beam_selector w g = Some c \<and> (ac_path c = [] \<longleftrightarrow> cg_nodes g = []) \<and>
    (ac_path c \<noteq> [] \<longrightarrow> simple_path g (ac_path c))"
proof (cases "cg_nodes g = []")
  case True
  then show ?thesis by (simp add: beam_selector_def beam_search_def)
next
  case False
  from beam_search_loop [OF assms False, of "max w 1"] obtain r where
    "beam_search g (max w 1) = Some \<lparr>ac_path = fst r, ac_score = snd r\<rparr>" "scored_path g (fst r) (snd r)"
    by metis
  with scored_simple [of g "fst r" "snd r"] False show ?thesis
    by (auto simp: beam_selector_def simple_path_def)
qed

section \<open>The value-guided selector\<close>

lemma fold_choose_edge:
  "fold (choose_edge g gamma path) es best = Some (n, q, s) \<Longrightarrow>
    best = Some (n, q, s) \<or> (\<exists>e \<in> set es. n = ce_to e \<and> ce_to e \<notin> set path)"
  by (induction es arbitrary: best)
    (fastforce simp: choose_edge_def Let_def split: if_splits option.splits)+

lemma rollout_ok:
  assumes "graph_ok g" and "simple_path g path" and "length (cg_nodes g) < length path + k"
  shows "\<exists>p s. rollout g gamma path acc = Some (p, s) \<and> simple_path g p"
  using assms(2,3)
proof (induction k arbitrary: path acc)
  case 0
  then show ?case using simple_path_length by fastforce
next
  case (Suc k)
  show ?case
  proof (cases "fold (choose_edge g gamma path) (outgoing g (last path)) None")
    case None
    with Suc.prems(1) show ?thesis by (subst rollout.simps) simp
  next
    case (Some b)
    obtain n q s where b: "b = (n, q, s)" by (cases b)
    from fold_choose_edge [OF Some [unfolded b]] obtain e where
      e: "e \<in> set (cg_edges g)" "ce_from e = last path" "n = ce_to e" "ce_to e \<notin> set path"
      by (auto simp: set_outgoing)
    then have n: "n < length (cg_nodes g)" using assms(1) by (simp add: graph_ok_def)
    have "simple_path g (path @ [n])" using simple_path_snoc [OF Suc.prems(1) e(1,2,4)] e(3) n by simp
    with Suc.IH Suc.prems(2) have "\<exists>p s'. rollout g gamma (path @ [n])
        (fadd f32 acc (fadd f32 s (bonus g n))) = Some (p, s') \<and> simple_path g p" by simp
    with Some b n show ?thesis by (subst rollout.simps) simp
  qed
qed

lemma rollouts_ok:
  assumes "graph_ok g" and "\<forall>i \<in> set is. i < length (cg_nodes g)" and "simple_path g (fst best)"
  shows "\<exists>r. rollouts g gamma is best = Some r \<and> simple_path g (fst r)"
  using assms(2,3)
proof (induction "is" arbitrary: best)
  case (Cons i "is")
  have "simple_path g [i]" using Cons.prems(1) by (simp add: simple_path_def)
  from rollout_ok [OF assms(1) this, of "length (cg_nodes g)" gamma "bonus g i"] obtain p s where
    r: "rollout g gamma [i] (bonus g i) = Some (p, s)" "simple_path g p" by auto
  have "simple_path g (fst (if flt (snd best) s then (p, s) else best))" using r(2) Cons.prems(2) by simp
  from Cons.IH [OF _ this] Cons.prems(1) r(1) show ?case by auto
qed simp

section \<open>The causal graph of events\<close>

lemma index_pairs_set: "set (index_pairs n) = {(i, j). i < j \<and> j < n}"
  by (fastforce simp: index_pairs_def image_iff)

lemma build_nodes:
  "cg_nodes (cb_graph (build_causal_graph es ts cfg)) = map (causal_node_of ts) (sort_key ev_ts es)"
  by (simp add: build_causal_graph_def Let_def)

lemma build_edges:
  "e \<in> set (cg_edges (cb_graph (build_causal_graph es ts cfg))) \<Longrightarrow>
     ce_from e < ce_to e \<and> ce_to e < length es \<and>
     linked_pair cfg (sort_key ev_ts es) (ce_from e, ce_to e)"
  by (auto simp: build_causal_graph_def Let_def index_pairs_set)

lemma build_graph_ok: "graph_ok (cb_graph (build_causal_graph es ts cfg))"
  by (auto simp: graph_ok_def build_nodes dest: build_edges)

lemma nonneg_anomaly: "nonneg (severity_base s)"
  by (cases s) (simp_all add: flit_def)

lemma anomaly_bounds: "between 0 1 (anomaly_score e)"
proof -
  have "nonneg s \<Longrightarrow> nonneg (fold (\<lambda>kw s. if contains kw msg then fadd f32 s (flit f32 (1 / 10)) else s) kws s)"
    for s kws msg by (induction kws arbitrary: s) (auto simp: flit_def)
  then show ?thesis unfolding anomaly_score_def Let_def
    by (intro between_min) (auto simp: nonneg_anomaly)
qed

lemma temporal_nonneg: "nonneg (temporal_score dt)"
proof -
  have "nonneg (fdiv f32 (fdiv f32 (of_integer f32 (max dt 0)) (Num 1000000)) (Num 60))"
    by (intro nonneg_div_finite) (auto simp: of_integer_def)
  from positive_one_plus [OF this] show ?thesis
    unfolding temporal_score_def Let_def by (intro nonneg_div) auto
qed

lemma literals:
  "flit f32 (45 / 100) = Num (15099494 / 33554432)" "flit f32 (1 / 4) = Num (1 / 4)"
  "flit f32 (3 / 10) = Num (10066330 / 33554432)" "flit f32 (99 / 100) = Num (16609444 / 16777216)"
  "flit f32 (15 / 100) = Num (10066330 / 67108864)" "flit f32 (1 / 10) = Num (13421773 / 134217728)"
  "flit f32 (1 / 5) = Num (13421773 / 67108864)"
  by code_simp+

lemma edge_score_bounds:
  assumes "between 0 1 x"
  shows "between 0 1 (edge_score dt x)"
  unfolding edge_score_def literals
  using between_nonneg [OF assms] by (intro between_min nonneg_add nonneg_mul) (auto simp: temporal_nonneg)

section \<open>Incidents\<close>

text \<open>A path of the causal graph goes forward in time.\<close>

lemma path_ascending:
  assumes "simple_path (cb_graph (build_causal_graph es ts cfg)) p"
  shows "sorted_wrt (<) p"
proof -
  have "\<forall>(a, b) \<in> set (zip p (tl p)). a < b"
    using assms build_edges unfolding simple_path_def edge_between_def by fastforce
  then show ?thesis
  proof (induction p rule: induct_list012)
    case (3 x y zs)
    then show ?case by (auto intro: order.strict_trans)
  qed auto
qed

lemma map_of_pairs: "map_of (map (\<lambda>p. (p, f p)) ps) p = (if p \<in> set ps then Some (f p) else None)"
  by (induction ps) auto

lemma find_edge:
  assumes "p \<in> set ps"
  shows "find (\<lambda>e. ce_to e = snd p) (filter (\<lambda>e. ce_from e = fst p)
      (map (\<lambda>(i, j). \<lparr>ce_from = i, ce_to = j, ce_score = f i j\<rparr>) ps))
    = Some \<lparr>ce_from = fst p, ce_to = snd p, ce_score = f (fst p) (snd p)\<rparr>"
  using assms by (induction ps) (auto split: prod.splits)

text \<open>The explanation of a link, from its two events.\<close>

definition explained :: "causal_config \<Rightarrow> event list \<Rightarrow> nat \<times> nat \<Rightarrow> string" where
  "explained cfg es p =
     label_for (es ! fst p) @ '' '' @ [CHR 0xE2, CHR 0x86, CHR 0x92] @ '' '' @ label_for (es ! snd p) @
     '' ('' @ pair_reason es p @ ''; causal='' @
     show_fixed 2 (edge_score (wrap64 (ev_ts (es ! snd p) - ev_ts (es ! fst p))) (anomaly_score (es ! snd p))) @
     '')''"

lemma explain_edge_ok:
  assumes "linked_pair cfg (sort_key ev_ts es) p" and "fst p < snd p" and "snd p < length es"
  shows "explain_edge (build_causal_graph es ts cfg) p = explained cfg (sort_key ev_ts es) p"
proof -
  let ?es = "sort_key ev_ts es"
  have p: "p \<in> set (filter (linked_pair cfg ?es) (index_pairs (length ?es)))"
    using assms by (auto simp: index_pairs_set case_prod_beta)
  show ?thesis
    unfolding explain_edge_def build_causal_graph_def Let_def
    using assms find_edge [OF p] p
    by (simp add: map_of_pairs outgoing_def explained_def causal_node_of_def Let_def)
qed

lemma fmax_zero: "nonneg x \<Longrightarrow> nonneg (fmax x (Num 0))"
  by (cases x) (auto simp: fmax_def flt_def)

lemma small_counts:
  "of_integer f32 0 = Num 0" "of_integer f32 1 = Num 1" "fsub f32 (Num 0) (Num 1) = Num (- 1)"
  "fsub f32 (Num 1) (Num 1) = Num 0" "fmax (Num (- 1)) (Num 0) = Num 0"
  by code_simp+

lemma minus_one_nonneg: "1 \<le> v \<Longrightarrow> nonneg (fsub f32 (Num v) (Num 1))"
  by (simp add: fsub_def fadd_def is_inf_def)

lemma count_at_least: "2 \<le> n \<Longrightarrow> of_nat n / 2 \<le> v \<Longrightarrow> (1 :: rat) \<le> v"
proof -
  assume "2 \<le> n" and v: "of_nat n / 2 \<le> v"
  then have "(2 :: rat) \<le> of_nat n" by (metis of_nat_le_iff of_nat_numeral)
  with v show ?thesis by linarith
qed

lemma nonneg_max_zero:
  assumes "n < 2 ^ 64"
  shows "nonneg (fmax (fsub f32 (of_integer f32 (int n)) (Num 1)) (Num 0))"
proof -
  consider "n = 0" | "n = 1" | "2 \<le> n" by linarith
  then show ?thesis
  proof cases
    case 1
    have "int n = 0" using 1 by simp
    then show ?thesis by (simp only: small_counts) (simp add: fmax_def flt_def)
  next
    case 2
    have "int n = 1" using 2 by simp
    then show ?thesis by (simp only: small_counts) (simp add: fmax_def flt_def)
  next
    case 3
    then obtain v where v: "of_integer f32 (int n) = Num v" "of_nat n / 2 \<le> v"
      using of_nat_finite [of n] assms by auto
    show ?thesis unfolding v(1) by (intro fmax_zero minus_one_nonneg count_at_least [OF 3 v(2)])
  qed
qed

lemma confidence_bounds:
  assumes "list_all (\<lambda>s. between 0 1 (is_anomaly s)) steps"
    and "length steps < 2 ^ 64" and "length tactics < 2 ^ 64"
  shows "between 0 (16609444 / 16777216) (confidence steps tactics)"
proof (cases "length steps < 2")
  case True
  then show ?thesis by (simp add: confidence_def between_def)
next
  case False
  then have n: "1 \<le> length steps" "2 \<le> length steps" by auto
  from of_nat_finite [OF n(1) assms(2)] obtain v where
    v: "of_integer f32 (int (length steps)) = Num v" "of_nat (length steps) / 2 \<le> v" by blast
  note v1 = count_at_least [OF n(2) v(2)]
  have "list_all nonneg (map is_anomaly steps)"
    using assms(1) by (auto simp: list_all_iff dest!: bspec between_nonneg)
  moreover have "steps \<noteq> []" using n(1) by auto
  ultimately have "nonneg (fsum f32 (map is_anomaly steps))" by (intro nonneg_fsum) auto
  with v1 have avg: "nonneg (fdiv f32 (fsum f32 (map is_anomaly steps)) (Num v))"
    by (intro nonneg_div_finite) auto
  note len = minus_one_nonneg [OF v1]
  show ?thesis
    unfolding confidence_def Let_def v(1) literals if_not_P [OF False]
  proof (rule between_clamp)
    show "nonneg (fadd f32 (fadd f32 (fadd f32 (Num (13421773 / 67108864))
        (fmul f32 (Num (10066330 / 67108864)) (fsub f32 (Num v) (Num 1))))
        (fmul f32 (Num (13421773 / 134217728))
          (fmax (fsub f32 (of_integer f32 (int (length tactics))) (Num 1)) (Num 0))))
        (fmul f32 (Num (10066330 / 33554432)) (fdiv f32 (fsum f32 (map is_anomaly steps)) (Num v))))"
      by (intro nonneg_add nonneg_mul avg len nonneg_max_zero [OF assms(3)]) simp_all
  qed simp
qed

lemma length_distinct_strings: "length (distinct_strings xs) \<le> length xs"
proof -
  have "length (fold (\<lambda>x out. if x \<in> set out then out else out @ [x]) xs out) \<le> length xs + length out"
    for out :: "string list"
  proof (induction xs arbitrary: out)
    case (Cons x xs)
    have "length (fold (\<lambda>x out. if x \<in> set out then out else out @ [x]) xs
        (if x \<in> set out then out else out @ [x])) \<le> length xs + length (out @ [x])"
      using Cons [of "if x \<in> set out then out else out @ [x]"] by (auto split: if_splits)
    then show ?case by simp
  qed simp
  from this [of "[]"] show ?thesis by (simp add: distinct_strings_def)
qed

lemma length_map_filter: "length (List.map_filter f xs) \<le> length xs"
  by (simp add: List.map_filter_def)

lemma sort_key_Nil: "sort_key f xs = [] \<longleftrightarrow> xs = []"
  by (metis length_0_conv length_sort)

lemma sorted_path_steps:
  assumes "sorted_wrt (<) p" and "\<forall>n \<in> set p. n < length (es :: event list)"
  shows "sorted (map (\<lambda>n. ev_ts (sort_key ev_ts es ! n)) p)"
proof -
  have "sorted (map ev_ts (sort_key ev_ts es))" by simp
  then have "ev_ts (sort_key ev_ts es ! a) \<le> ev_ts (sort_key ev_ts es ! b)" if "a < b" "b < length es" for a b
    using sorted_nth_mono [of "map ev_ts (sort_key ev_ts es)" a b] that by simp
  then have "sorted_wrt (\<lambda>a b. ev_ts (sort_key ev_ts es ! a) \<le> ev_ts (sort_key ev_ts es ! b)) p"
    using assms(2) by (intro sorted_wrt_mono_rel [OF _ assms(1)]) auto
  then show ?thesis by (simp add: sorted_map)
qed

section \<open>Properties\<close>

lemma incident_built:
  assumes "length (cd_events candidate) < 2 ^ 64"
  shows "\<exists>inc p es. build_incident i candidate all ts (beam_selector w) cfg = Some inc \<and>
    es = sort_key ev_ts (member_events all (cd_events candidate)) \<and>
    in_events inc = cd_events candidate \<and>
    in_chain inc = map (\<lambda>n. step_of (causal_node_of ts (es ! n))) p \<and>
    sorted_wrt (<) p \<and> set p \<subseteq> {..< length es} \<and> (p = [] \<longleftrightarrow> es = []) \<and>
    sorted (map is_ts (in_chain inc)) \<and>
    list_all (linked_pair cfg es) (zip p (tl p)) \<and>
    in_explanation inc = map (explained cfg es) (zip p (tl p)) \<and>
    list_all (\<lambda>s. between 0 1 (is_anomaly s)) (in_chain inc) \<and>
    fle (Num 0) (in_confidence inc) \<and> fle (in_confidence inc) (flit f32 (99 / 100))"
proof -
  let ?m = "member_events all (cd_events candidate)" let ?b = "build_causal_graph ?m ts cfg"
  let ?es = "sort_key ev_ts ?m" and ?g = "cb_graph ?b"
  from beam_selector_ok [OF build_graph_ok, of w ?m ts cfg] obtain c where
    c: "beam_selector w ?g = Some c" "ac_path c = [] \<longleftrightarrow> ?m = []"
      "ac_path c \<noteq> [] \<longrightarrow> simple_path ?g (ac_path c)"
    by (auto simp: build_nodes sort_key_Nil)
  let ?p = "ac_path c"
  have asc: "sorted_wrt (<) ?p" using c(3) path_ascending by (cases "?p = []") auto
  have bound: "\<forall>n \<in> set ?p. n < length ?m" using c(3) by (auto simp: simple_path_def build_nodes)
  have nodes: "cg_nodes ?g ! n = causal_node_of ts (?es ! n)" if "n \<in> set ?p" for n
    using bound that by (simp add: build_nodes)
  let ?steps = "map (\<lambda>n. step_of (causal_node_of ts (?es ! n))) ?p"
  have steps: "map (\<lambda>n. step_of (cg_nodes ?g ! n)) ?p = ?steps" using nodes by simp
  have pairs: "\<forall>q \<in> set (zip ?p (tl ?p)). linked_pair cfg ?es q \<and> fst q < snd q \<and> snd q < length ?m"
    using c(3) build_edges [of _ ?m ts cfg]
    by (cases "?p = []") (fastforce simp: simple_path_def edge_between_def)+
  have anom: "list_all (\<lambda>s. between 0 1 (is_anomaly s)) ?steps"
    by (auto simp: list_all_iff step_of_def causal_node_of_def Let_def anomaly_bounds)
  have "length ?p \<le> length ?m" using asc bound
    by (metis c(3) build_nodes length_map length_sort list.size(3) simple_path_length zero_le)
  also have "\<dots> \<le> length (cd_events candidate)" by (simp add: member_events_def length_map_filter)
  finally have len: "length ?steps < 2 ^ 64" using assms by simp
  have "length (distinct_strings (List.map_filter is_tactic ?steps)) < 2 ^ 64"
    using length_distinct_strings [of "List.map_filter is_tactic ?steps"]
      length_map_filter [of is_tactic ?steps] len by linarith
  from confidence_bounds [OF anom len this] have conf:
    "fle (Num 0) (confidence ?steps (distinct_strings (List.map_filter is_tactic ?steps)))"
    "fle (confidence ?steps (distinct_strings (List.map_filter is_tactic ?steps))) (flit f32 (99 / 100))"
    unfolding literals by (auto simp: between_def fle_def flt_def feq_def)
  have "map is_ts ?steps = map (\<lambda>n. ev_ts (?es ! n)) ?p"
    by (simp add: step_of_def causal_node_of_def Let_def)
  with sorted_path_steps [OF asc bound] have times: "sorted (map is_ts ?steps)" by metis
  have expl: "map (explain_edge ?b) (zip ?p (tl ?p)) = map (explained cfg ?es) (zip ?p (tl ?p))"
    using pairs explain_edge_ok by simp
  let ?tac = "distinct_strings (List.map_filter is_tactic ?steps)"
  let ?inc = "\<lparr>in_id = i, in_events = cd_events candidate, in_chain = ?steps, in_tactics = ?tac,
    in_techniques = distinct_strings (List.map_filter is_technique ?steps),
    in_confidence = confidence ?steps ?tac, in_explanation = map (explained cfg ?es) (zip ?p (tl ?p))\<rparr>"
  have "\<not> (\<exists>n \<in> set ?p. length (cg_nodes ?g) \<le> n)" using bound by (auto simp: build_nodes)
  then have inc: "build_incident i candidate all ts (beam_selector w) cfg = Some ?inc"
    unfolding build_incident_def Let_def c(1) option.case steps expl by (simp only: if_False)
  show ?thesis
  proof (intro exI conjI)
    show "build_incident i candidate all ts (beam_selector w) cfg = Some ?inc" by (rule inc)
    show "?p = [] \<longleftrightarrow> ?es = []" using c(2) by (simp add: sort_key_Nil)
    show "set ?p \<subseteq> {..< length ?es}" using bound by auto
    show "list_all (linked_pair cfg ?es) (zip ?p (tl ?p))" using pairs by (auto simp: list_all_iff)
  qed (simp_all only: incident.select_convs asc anom conf times)
qed

text \<open>
  C12: The incident reconstructed for a candidate is sound. With the beam selector of any width,
  assembly never indexes out of the graph; the chain is made of distinct member events in
  ascending time, is empty only if no member event is known, and every two neighbours on it share
  an entity within the window. Each step carries its tactic and an anomaly in \<open>[0, 1]\<close>, the
  confidence lies in \<open>[0, 0.99]\<close>, and the explanations are those of the links on the chain.
\<close>
theorem incident_sound:
  assumes "length (cd_events candidate) < 2 ^ 64"
  shows "\<exists>inc p es. build_incident i candidate all ts (beam_selector w) cfg = Some inc \<and>
    es = sort_key ev_ts (member_events all (cd_events candidate)) \<and>
    in_events inc = cd_events candidate \<and>
    in_chain inc = map (\<lambda>n. step_of (causal_node_of ts (es ! n))) p \<and>
    sorted_wrt (<) p \<and> set p \<subseteq> {..< length es} \<and> (p = [] \<longleftrightarrow> es = []) \<and>
    sorted (map is_ts (in_chain inc)) \<and>
    list_all (linked_pair cfg es) (zip p (tl p)) \<and>
    in_explanation inc = map (explained cfg es) (zip p (tl p)) \<and>
    list_all (\<lambda>s. between 0 1 (is_anomaly s)) (in_chain inc) \<and>
    fle (Num 0) (in_confidence inc) \<and> fle (in_confidence inc) (flit f32 (99 / 100))"
  by (rule incident_built [OF assms])

text \<open>
  The beam search is exhaustive on small graphs: if the beam is at least as wide as every level
  of the enumeration of simple paths, the chain it returns is a simple path along the edges with the
  score that its edges and nodes add up to in \<open>f32\<close>, and no simple path of the graph scores more.
\<close>
theorem beam_exhaustive:
  assumes "graph_ok g" and "cg_nodes g \<noteq> []" and "\<forall>k. length (all_paths g (Suc k)) \<le> max w 1"
  shows "\<exists>c. beam_selector w g = Some c \<and> scored_path g (ac_path c) (ac_score c) \<and>
    (\<forall>p s. scored_path g p s \<longrightarrow> \<not> flt (ac_score c) s)"
proof -
  from beam_search_loop [OF assms(1,2), of "max w 1"] obtain best r where
    r: "beam_search g (max w 1) = Some \<lparr>ac_path = fst r, ac_score = snd r\<rparr>"
      "beam_loop g (max w 1) (single_paths g) best = Some r" "scored_path g (fst r) (snd r)"
      "\<forall>c \<in> set (single_paths g). no_better best c" by metis
  have "\<forall>j. \<forall>c \<in> set (all_paths g j). no_better r c"
    using r(4) by (intro beam_loop_exhaustive [OF assms(1,3) _ _ r(2) single_paths_scored, of 0]) auto
  then have "\<forall>p s. scored_path g p s \<longrightarrow> \<not> flt (snd r) s"
    using scored_in_all by (fastforce simp: no_better_def)
  with r(1,3) show ?thesis by (simp add: beam_selector_def)
qed

text \<open>
  The selectors are interchangeable: on a graph whose edges stay in range, the beam search and
  the value-guided selector both return, for any width and discount, and what they return is a
  simple path along the edges of the graph.
\<close>
theorem selectors_agree_on_contract:
  assumes "graph_ok g" and "cg_nodes g \<noteq> []"
  shows "(\<exists>c. beam_selector w g = Some c \<and> simple_path g (ac_path c)) \<and>
    (\<exists>c. rl_selector gamma g = Some c \<and> simple_path g (ac_path c))"
proof
  show "\<exists>c. beam_selector w g = Some c \<and> simple_path g (ac_path c)"
    using beam_selector_ok [OF assms(1), of w] assms(2) by auto
  have "simple_path g [0]" using assms(2) by (simp add: simple_path_def)
  with rollouts_ok [OF assms(1), of "[0 ..< length (cg_nodes g)]" "([0], f32_min)" gamma] assms(2)
  show "\<exists>c. rl_selector gamma g = Some c \<and> simple_path g (ac_path c)"
    by (auto simp: rl_selector_def)
qed

section \<open>Instances\<close>

definition demo_event :: "string \<Rightarrow> timestamp \<Rightarrow> ocsf_class \<Rightarrow> string \<Rightarrow> event" where
  "demo_event i t c msg =
     (new_event i t ''acme'')\<lparr>ev_class := c, ev_host := Some (entity ''host'' ''web01''), ev_message := msg\<rparr>"

definition demo_events :: "event list" where
  "demo_events =
     [demo_event ''e2'' 200 ProcessActivity ''nc -e /bin/sh'',
      demo_event ''e1'' 100 Authentication ''failed password for root'']"

definition demo_candidate :: campaign_candidate where
  "demo_candidate =
     \<lparr>cd_id = 0, cd_events = [''e1'', ''e2''], cd_domains = [], cd_links = 1, cd_score = Num 3\<rparr>"

definition demo_graph :: causal_graph where
  "demo_graph =
     \<lparr>cg_nodes = map (causal_node_of []) (sort_key ev_ts
        (demo_events @ [demo_event ''e3'' 300 NetworkActivity ''outbound''])),
      cg_edges =
        [\<lparr>ce_from = 0, ce_to = 1, ce_score = flit f32 (4 / 5)\<rparr>,
         \<lparr>ce_from = 1, ce_to = 2, ce_score = flit f32 (4 / 5)\<rparr>,
         \<lparr>ce_from = 0, ce_to = 2, ce_score = flit f32 (1 / 5)\<rparr>]\<rparr>"

theorem incident_sound_witness:
  "\<exists>inc. build_incident 0 demo_candidate demo_events [] (beam_selector 4) causal_config_default = Some inc \<and>
     in_chain inc \<noteq> [] \<and> sorted (map is_ts (in_chain inc)) \<and>
     fle (in_confidence inc) (flit f32 (99 / 100))"
proof -
  have "member_events demo_events (cd_events demo_candidate) \<noteq> []" by code_simp
  moreover have "length (cd_events demo_candidate) < 2 ^ 64" by (simp add: demo_candidate_def)
  ultimately show ?thesis
    using incident_sound [of demo_candidate 0 demo_events "[]" 4 causal_config_default]
    by (auto simp: sort_key_Nil)
qed

lemma demo_graph_ok: "graph_ok demo_graph" "cg_nodes demo_graph \<noteq> []"
  by code_simp+

theorem beam_exhaustive_witness:
  "\<exists>c. beam_selector 4 demo_graph = Some c \<and> scored_path demo_graph (ac_path c) (ac_score c)"
proof -
  have "length (cg_nodes demo_graph) = 3" by code_simp
  then have nil: "all_paths demo_graph k = []" if "3 \<le> k" for k
    using all_paths_end [OF demo_graph_ok(1)] that by simp
  have few: "length (all_paths demo_graph (Suc 0)) \<le> 4" "length (all_paths demo_graph (Suc (Suc 0))) \<le> 4"
    by (simp_all add: next_paths_def next_of_def outgoing_def demo_graph_def demo_events_def demo_event_def
        single_paths_def new_event_def extend_def)
  have "length (all_paths demo_graph (Suc k)) \<le> max 4 1" for k
  proof -
    consider "k = 0" | "k = Suc 0" | "3 \<le> Suc k" by linarith
    then show ?thesis
    proof cases
      case 3
      then show ?thesis by (simp only: nil list.size)
    qed (use few in auto)
  qed
  then show ?thesis using beam_exhaustive [OF demo_graph_ok, of 4] by auto
qed

theorem selectors_agree_on_contract_witness:
  "(\<exists>c. beam_selector 4 demo_graph = Some c \<and> simple_path demo_graph (ac_path c)) \<and>
   (\<exists>c. rl_selector (flit f32 (1 / 2)) demo_graph = Some c \<and> simple_path demo_graph (ac_path c))"
  by (rule selectors_agree_on_contract [OF demo_graph_ok])

end
