(* ===== verification/Correlate_Campaign.thy ===== *)
theory Correlate_Campaign
  imports Correlate_Vector Correlate_Incident Campaign_Dsu Provenance_Graph
begin

text \<open>
  Campaign candidates, \<open>build_campaigns\<close> of \<open>crates/sigil-correlate/src/campaign.rs\<close>: links between
  events that are similar or share an entity, their connected components (\<open>Campaign_Dsu\<close>) and the
  candidates built from them. The embedder is a parameter, and so is the order in which the two hash
  maps of the code are iterated: \<open>iter_links\<close> and \<open>iter_comps\<close> rearrange their entries.
\<close>

section \<open>Links\<close>

record campaign_config =
  cf_window_micros :: int
  cf_sim_threshold :: fl
  cf_knn :: nat
  cf_require_cross_domain :: bool
  cf_semantic_links :: bool
  cf_entity_links :: bool

definition campaign_config_default :: campaign_config where
  "campaign_config_default =
     \<lparr>cf_window_micros = 30 * 60 * 1000000, cf_sim_threshold = flit f32 (1 / 2), cf_knn = 10,
      cf_require_cross_domain = True, cf_semantic_links = True, cf_entity_links = True\<rparr>"

type_synonym link_map = "((nat \<times> nat) \<times> (fl \<times> bool)) list"

definition in_window :: "campaign_config \<Rightarrow> event \<Rightarrow> event \<Rightarrow> bool" where
  "in_window cfg a b \<longleftrightarrow> \<not> cf_window_micros cfg < wrap64 \<bar>wrap64 (ev_ts a - ev_ts b)\<bar>"

definition record_link ::
  "campaign_config \<Rightarrow> event list \<Rightarrow> nat \<Rightarrow> nat \<Rightarrow> fl \<Rightarrow> link_map \<Rightarrow> link_map" where
  "record_link cfg events a b sim links =
     (if a = b then links
      else if \<not> in_window cfg (events ! a) (events ! b) then links
      else
        (let key = (if a < b then (a, b) else (b, a));
             cross = (uid (ev_class (events ! a)) \<noteq> uid (ev_class (events ! b)));
             best = (case map_of links key of Some v \<Rightarrow> fst v | None \<Rightarrow> f32_min)
         in hash_insert key (if flt best sim then sim else best, cross) links))"

definition event_positions :: "event list \<Rightarrow> string \<Rightarrow> nat option" where
  "event_positions events = map_of (rev (zip (map ev_id events) [0 ..< length events]))"

definition record_at ::
  "campaign_config \<Rightarrow> event list \<Rightarrow> nat \<Rightarrow> string \<Rightarrow> (nat \<Rightarrow> fl) \<Rightarrow> link_map \<Rightarrow> link_map" where
  "record_at cfg events i id_j sim links =
     (case event_positions events id_j of
        Some j \<Rightarrow> record_link cfg events i j (sim j) links
      | None \<Rightarrow> links)"

definition semantic_links ::
  "campaign_config \<Rightarrow> event list \<Rightarrow> vec list \<Rightarrow> link_map \<Rightarrow> link_map" where
  "semantic_links cfg events vectors =
     fold (\<lambda>i. fold (\<lambda>(id_j, sim) links.
             if flt sim (cf_sim_threshold cfg) then links
             else record_at cfg events i id_j (\<lambda>_. sim) links)
           (flat_knn (zip (map ev_id events) vectors) (vectors ! i) (cf_knn cfg + 1)))
       [0 ..< length vectors]"

definition entity_links ::
  "campaign_config \<Rightarrow> event list \<Rightarrow> vec list \<Rightarrow> link_map \<Rightarrow> link_map" where
  "entity_links cfg events vectors =
     fold (\<lambda>i. fold (\<lambda>id_j. record_at cfg events i id_j (\<lambda>j. dot (vectors ! i) (vectors ! j)))
           (co_entity_events (events ! i) (graph_of events)))
       [0 ..< length events]"

definition all_links :: "campaign_config \<Rightarrow> event list \<Rightarrow> vec list \<Rightarrow> link_map" where
  "all_links cfg events vectors =
     (let links1 = (if cf_semantic_links cfg then semantic_links cfg events vectors [] else [])
      in if cf_entity_links cfg then entity_links cfg events vectors links1 else links1)"

section \<open>Candidates\<close>

definition member_order :: "event list \<Rightarrow> nat list \<Rightarrow> (int \<times> string) list" where
  "member_order events members =
     sort_key fst (sort_key snd (map (\<lambda>i. (ev_ts (events ! i), ev_id (events ! i))) members))"

definition domains_of :: "event list \<Rightarrow> nat list \<Rightarrow> string list" where
  "domains_of events members = sort (remdups (map (\<lambda>i. class_token (ev_class (events ! i))) members))"

definition average_sim :: "fl list \<Rightarrow> fl" where
  "average_sim sims =
     (if sims = [] then Num 0 else fdiv f32 (fsum f32 sims) (of_integer f32 (int (length sims))))"

definition candidate_score :: "nat \<Rightarrow> nat \<Rightarrow> fl \<Rightarrow> fl" where
  "candidate_score domains members avg =
     fadd f32
       (fadd f32 (of_integer f32 (int domains))
         (fmul f32 (fsub f32 (of_integer f32 (int members)) (Num 1)) (flit f32 (1 / 2))))
       (fmax avg (Num 0))"

definition candidate_of ::
  "campaign_config \<Rightarrow> event list \<Rightarrow> link_map \<Rightarrow> nat list \<Rightarrow> campaign_candidate option" where
  "candidate_of cfg events links members =
     (if length members < 2 then None
      else
        (let domains = domains_of events members
         in if cf_require_cross_domain cfg \<and> length domains < 2 then None
            else
              (let sims = map (fst \<circ> snd)
                     (filter (\<lambda>((a, b), _). a \<in> set members \<and> b \<in> set members) links)
               in Some
                 \<lparr>cd_id = 0, cd_events = map snd (member_order events members), cd_domains = domains,
                  cd_links = length sims,
                  cd_score = candidate_score (length domains) (length members) (average_sim sims)\<rparr>)))"

definition renumber :: "campaign_candidate list \<Rightarrow> campaign_candidate list" where
  "renumber cs = map (\<lambda>(i, c). c\<lparr>cd_id := i\<rparr>) (enumerate 0 cs)"

definition build_campaigns ::
  "(event \<Rightarrow> vec) \<Rightarrow> (link_map \<Rightarrow> link_map) \<Rightarrow> (nat list list \<Rightarrow> nat list list) \<Rightarrow>
   event list \<Rightarrow> campaign_config \<Rightarrow> campaign_candidate list option" where
  "build_campaigns emb iter_links iter_comps events cfg =
     (if events = [] then Some []
      else
        (let links = iter_links (all_links cfg events (map emb events))
         in map_option
              (\<lambda>comps. renumber
                 (sort_down cd_score (List.map_filter (candidate_of cfg events links) (iter_comps comps))))
              (components (length events) (map fst links))))"

section \<open>Which events are linked\<close>

definition shares_entity :: "event \<Rightarrow> event \<Rightarrow> bool" where
  "shares_entity a b \<longleftrightarrow>
     entity_key ` set (event_entities a) \<inter> entity_key ` set (event_entities b) \<noteq> {}"

definition similar :: "campaign_config \<Rightarrow> vec \<Rightarrow> vec \<Rightarrow> bool" where
  "similar cfg u v \<longleftrightarrow> \<not> flt (dot u v) (cf_sim_threshold cfg) \<or> \<not> flt (dot v u) (cf_sim_threshold cfg)"

text \<open>The reasons for a link of the events at two indices, and the reasons that always make one.\<close>

definition related :: "campaign_config \<Rightarrow> (event \<Rightarrow> vec) \<Rightarrow> event list \<Rightarrow> (nat \<times> nat) set" where
  "related cfg emb events =
     {(a, b). a < length events \<and> b < length events \<and> a \<noteq> b \<and> in_window cfg (events ! a) (events ! b) \<and>
        (cf_semantic_links cfg \<and> similar cfg (emb (events ! a)) (emb (events ! b)) \<or>
         cf_entity_links cfg \<and> shares_entity (events ! a) (events ! b))}"

definition entity_related :: "campaign_config \<Rightarrow> event list \<Rightarrow> (nat \<times> nat) set" where
  "entity_related cfg events =
     {(a, b). a < length events \<and> b < length events \<and> a \<noteq> b \<and> in_window cfg (events ! a) (events ! b) \<and>
        cf_entity_links cfg \<and> shares_entity (events ! a) (events ! b)}"

lemma fold_keeps:
  "P s \<Longrightarrow> (\<And>x s. x \<in> set xs \<Longrightarrow> P s \<Longrightarrow> P (f x s)) \<Longrightarrow> P (fold f xs s)"
  by (induction xs arbitrary: s) auto

lemma fold_reaches:
  "x \<in> set xs \<Longrightarrow> (\<And>s. Q (f x s)) \<Longrightarrow> (\<And>y s. Q s \<Longrightarrow> Q (f y s)) \<Longrightarrow> Q (fold f xs s)"
proof (induction xs arbitrary: s)
  case (Cons y ys)
  then show ?case by (cases "x = y") (auto intro: fold_keeps)
qed simp

definition pair_key :: "nat \<Rightarrow> nat \<Rightarrow> nat \<times> nat" where
  "pair_key a b = (if a < b then (a, b) else (b, a))"

definition links_sound :: "(nat \<times> nat) set \<Rightarrow> link_map \<Rightarrow> bool" where
  "links_sound r links \<longleftrightarrow>
     distinct (map fst links) \<and> (\<forall>(a, b) \<in> fst ` set links. (a, b) \<in> r \<or> (b, a) \<in> r)"

lemma keys_record_link:
  "fst ` set (record_link cfg es a b sim links) =
     (if a = b \<or> \<not> in_window cfg (es ! a) (es ! b) then fst ` set links
      else insert (pair_key a b) (fst ` set links))"
  by (simp add: record_link_def Let_def pair_key_def fst_hash_insert)

lemma sound_record_link:
  assumes "links_sound r links" and "a \<noteq> b \<Longrightarrow> in_window cfg (es ! a) (es ! b) \<Longrightarrow> (a, b) \<in> r"
  shows "links_sound r (record_link cfg es a b sim links)"
proof -
  have "distinct (map fst (record_link cfg es a b sim links))"
    using assms(1) by (simp add: record_link_def Let_def links_sound_def distinct_hash_insert)
  with assms show ?thesis
    by (auto simp: links_sound_def keys_record_link pair_key_def split: if_splits)
qed

text \<open>With distinct ids, the position of an id is the index of its event.\<close>

lemma positions_at:
  assumes "distinct (map ev_id es)" and "j < length es"
  shows "event_positions es (ev_id (es ! j)) = Some j"
proof -
  have "distinct (map fst (rev (zip (map ev_id es) [0 ..< length es])))"
    using assms(1) by (simp add: rev_map [symmetric])
  moreover have "(ev_id (es ! j), j) \<in> set (rev (zip (map ev_id es) [0 ..< length es]))"
    using assms(2) by (auto simp: set_zip intro!: exI [of _ j])
  ultimately show ?thesis unfolding event_positions_def by (rule map_of_is_SomeI)
qed

lemma record_at_index:
  "distinct (map ev_id es) \<Longrightarrow> j < length es \<Longrightarrow>
    record_at cfg es i (ev_id (es ! j)) sim links = record_link cfg es i j (sim j) links"
  by (simp add: record_at_def positions_at)

lemma knn_hit:
  assumes "(id_j, sim) \<in> set (flat_knn (zip (map ev_id es) vs) q k)" and "length vs = length es"
  shows "\<exists>j < length es. id_j = ev_id (es ! j) \<and> sim = dot q (vs ! j)"
proof -
  from assms obtain j where "j < length es" "id_j = ev_id (es ! j)" "sim = dot q (vs ! j)"
    by (auto simp: flat_knn_def scored_items_def set_zip dest!: in_set_takeD)
  then show ?thesis by blast
qed

lemma co_entity_index:
  assumes "i < length es"
  shows "id_j \<in> set (co_entity_events (es ! i) (graph_of es)) \<longleftrightarrow>
    (\<exists>j < length es. id_j = ev_id (es ! j) \<and> ev_id (es ! j) \<noteq> ev_id (es ! i) \<and> shares_entity (es ! i) (es ! j))"
  unfolding co_entity_events_spec shares_entity_def by (auto simp: in_set_conv_nth)

lemma ids_differ: "distinct (map ev_id es) \<Longrightarrow> i < length es \<Longrightarrow> j < length es \<Longrightarrow> i \<noteq> j \<Longrightarrow>
    ev_id (es ! i) \<noteq> ev_id (es ! j)"
  by (metis distinct_conv_nth length_map nth_map)

lemma all_links_sound:
  assumes d: "distinct (map ev_id es)"
  shows "links_sound (related cfg emb es) (all_links cfg es (map emb es))"
proof -
  let ?vs = "map emb es" and ?r = "related cfg emb es"
  have "links_sound ?r (semantic_links cfg es ?vs [])" if "cf_semantic_links cfg"
    unfolding semantic_links_def
  proof (intro fold_keeps [of "links_sound ?r"])
    fix i links h links'
    assume i: "i \<in> set [0 ..< length ?vs]" and l: "links_sound ?r links'"
      and h: "h \<in> set (flat_knn (zip (map ev_id es) ?vs) (?vs ! i) (cf_knn cfg + 1))"
    obtain id_j sim where h': "h = (id_j, sim)" by (cases h)
    from knn_hit [OF h [unfolded h']] obtain j where
      j: "j < length es" "id_j = ev_id (es ! j)" "sim = dot (?vs ! i) (?vs ! j)" by auto
    have "(i, j) \<in> ?r" if "\<not> flt sim (cf_sim_threshold cfg)" "i \<noteq> j" "in_window cfg (es ! i) (es ! j)"
      using that i j \<open>cf_semantic_links cfg\<close> by (simp add: related_def similar_def)
    with l show "links_sound ?r ((\<lambda>(id_j, sim) links.
             if flt sim (cf_sim_threshold cfg) then links
             else record_at cfg es i id_j (\<lambda>_. sim) links) h links')"
      unfolding h' using d j by (auto simp: record_at_index intro!: sound_record_link)
  qed (simp add: links_sound_def)
  then have sem: "links_sound ?r (if cf_semantic_links cfg then semantic_links cfg es ?vs [] else [])"
    by (simp add: links_sound_def)
  have "links_sound ?r (entity_links cfg es ?vs links)" if "cf_entity_links cfg" "links_sound ?r links" for links
    unfolding entity_links_def
  proof (intro fold_keeps [of "links_sound ?r"])
    fix i links h links'
    assume i: "i \<in> set [0 ..< length es]" and l: "links_sound ?r links'"
      and h: "h \<in> set (co_entity_events (es ! i) (graph_of es))"
    then obtain j where j: "j < length es" "h = ev_id (es ! j)" "shares_entity (es ! i) (es ! j)"
      using co_entity_index [of i es h] by auto
    have "(i, j) \<in> ?r" if "i \<noteq> j" "in_window cfg (es ! i) (es ! j)"
      using that i j \<open>cf_entity_links cfg\<close> by (simp add: related_def)
    with l show "links_sound ?r (record_at cfg es i h (\<lambda>j. dot (?vs ! i) (?vs ! j)) links')"
      using d j by (auto simp: record_at_index intro!: sound_record_link)
  qed (rule that(2))
  with sem show ?thesis by (simp add: all_links_def Let_def)
qed

lemma all_links_complete:
  assumes d: "distinct (map ev_id es)" and r: "(i, j) \<in> entity_related cfg es"
  shows "pair_key i j \<in> fst ` set (all_links cfg es vs)"
proof -
  have ij: "i < length es" "j < length es" "i \<noteq> j" "in_window cfg (es ! i) (es ! j)"
    "cf_entity_links cfg" "shares_entity (es ! i) (es ! j)" using r by (auto simp: entity_related_def)
  let ?Q = "\<lambda>links. pair_key i j \<in> fst ` set (links :: link_map)"
  have keep: "?Q (record_at cfg es a h f links)" if "?Q links" for a h f links
    using that by (auto simp: record_at_def keys_record_link split: option.splits)
  have mem: "ev_id (es ! j) \<in> set (co_entity_events (es ! i) (graph_of es))"
    using co_entity_index [OF ij(1)] ij ids_differ [OF d ij(2,1)] by auto
  have inner: "?Q (fold (\<lambda>h. record_at cfg es i h (\<lambda>j. dot (vs ! i) (vs ! j)))
      (co_entity_events (es ! i) (graph_of es)) links)" for links
    by (rule fold_reaches [OF mem, where Q = ?Q]) (use d ij keep in \<open>auto simp: record_at_index keys_record_link\<close>)
  have "?Q (entity_links cfg es vs links)" for links
    unfolding entity_links_def
    by (rule fold_reaches [of i, where Q = ?Q])
      (use ij(1) inner in \<open>auto intro!: fold_keeps [of ?Q] keep\<close>)
  with ij(5) show ?thesis by (simp add: all_links_def Let_def)
qed

section \<open>Candidates are components\<close>

lemma map_insort_key: "map g (insort_key (f \<circ> g) x xs) = insort_key f (g x) (map g xs)"
  by (induction xs) auto

lemma map_sort_key: "map g (sort_key (f \<circ> g) xs) = sort_key f (map g xs)"
  by (induction xs) (simp_all add: map_insort_key [unfolded comp_def] comp_def)

lemma map_sort_down: "map g (sort_down (f \<circ> g) xs) = sort_down f (map g xs)"
  unfolding sort_down_def by (simp only: rev_map [symmetric] map_sort_key)

lemma map_filter_the: "List.map_filter f xs = map (the \<circ> f) (filter (\<lambda>x. f x \<noteq> None) xs)"
  by (simp add: List.map_filter_def)

lemma renumber_facts:
  "length (renumber cs) = length cs" "map cd_id (renumber cs) = [0 ..< length cs]"
  "map cd_score (renumber cs) = map cd_score cs" "map cd_events (renumber cs) = map cd_events cs"
  "map cd_domains (renumber cs) = map cd_domains cs"
  by (auto simp: renumber_def enumerate_eq_zip zip_map_fst_snd intro: nth_equalityI)

lemma renumber_list_all2:
  assumes "\<And>m c. m \<in> set ms \<Longrightarrow> cd_events c = cd_events (f m) \<Longrightarrow> cd_domains c = cd_domains (f m) \<Longrightarrow> r m c"
  shows "list_all2 r ms (renumber (map f ms))"
  unfolding list_all2_conv_all_nth
proof (intro conjI allI impI)
  fix k assume k: "k < length ms"
  have "map cd_events (renumber (map f ms)) ! k = map cd_events (map f ms) ! k"
    "map cd_domains (renumber (map f ms)) ! k = map cd_domains (map f ms) ! k" by (simp_all only: renumber_facts)
  with k show "r (ms ! k) (renumber (map f ms) ! k)"
    by (intro assms) (simp_all add: renumber_facts(1))
qed (simp add: renumber_facts)

text \<open>A candidate of the members \<open>m\<close>.\<close>

definition campaign_ok ::
  "campaign_config \<Rightarrow> (event \<Rightarrow> vec) \<Rightarrow> event list \<Rightarrow> nat list \<Rightarrow> campaign_candidate \<Rightarrow> bool" where
  "campaign_ok cfg emb events m c \<longleftrightarrow>
     2 \<le> length m \<and> set m \<subseteq> {..< length events} \<and>
     cd_events c = map snd (member_order events m) \<and> cd_domains c = domains_of events m \<and>
     (cf_require_cross_domain cfg \<longrightarrow> 2 \<le> length (cd_domains c)) \<and>
     (\<forall>x \<in> set m. \<forall>y \<in> set m. (x, y) \<in> (related cfg emb events \<union> (related cfg emb events)\<inverse>)\<^sup>*) \<and>
     (\<forall>x \<in> set m. \<forall>y. (x, y) \<in> entity_related cfg events \<longrightarrow> y \<in> set m)"

definition member_class :: "event list \<Rightarrow> nat \<Rightarrow> string" where
  "member_class events i = class_token (ev_class (events ! i))"

lemma two_domains:
  assumes "x \<in> set m" "y \<in> set m" "member_class events x \<noteq> member_class events y"
  shows "2 \<le> length (domains_of events m)"
proof -
  have "{member_class events x, member_class events y} \<subseteq> set (domains_of events m)"
    using assms(1,2) by (auto simp: domains_of_def member_class_def)
  then have "card {member_class events x, member_class events y} \<le> card (set (domains_of events m))"
    by (intro card_mono) auto
  also have "\<dots> \<le> length (domains_of events m)" by (rule card_length)
  finally show ?thesis using assms(3) by simp
qed

lemma candidate_of_Some:
  "candidate_of cfg es links m = Some c \<Longrightarrow>
     2 \<le> length m \<and> cd_events c = map snd (member_order es m) \<and> cd_domains c = domains_of es m \<and>
     (cf_require_cross_domain cfg \<longrightarrow> 2 \<le> length (domains_of es m))"
  by (auto simp: candidate_of_def Let_def split: if_splits)

lemma candidate_of_None:
  "candidate_of cfg es links m = None \<longleftrightarrow>
     length m < 2 \<or> cf_require_cross_domain cfg \<and> length (domains_of es m) < 2"
  by (simp add: candidate_of_def Let_def)

lemma distinct_classes:
  assumes "distinct cs" and "\<forall>c \<in> set cs. \<forall>x \<in> set c. c = filter (r x) [0 ..< n]"
  shows "distinct (concat cs)"
proof (rule distinct_concat [OF assms(1)])
  fix c assume c: "c \<in> set cs"
  show "distinct c"
  proof (cases "c = []")
    case False
    then have "c = filter (r (hd c)) [0 ..< n]" using assms(2) c by simp
    then show ?thesis by (metis distinct_filter distinct_upt)
  qed simp
next
  fix c d assume cd: "c \<in> set cs" "d \<in> set cs" "c \<noteq> d"
  have False if "x \<in> set c" "x \<in> set d" for x
    using assms(2) [rule_format, OF cd(1) that(1)] assms(2) [rule_format, OF cd(2) that(2)] cd(3)
    by metis
  then show "set c \<inter> set d = {}" by blast
qed

lemma component_related:
  assumes "links_sound r links" and "conn n (map fst links) x y"
  shows "(x, y) \<in> (r \<union> r\<inverse>)\<^sup>*"
proof -
  have "set (map fst links) \<union> (set (map fst links))\<inverse> \<subseteq> r \<union> r\<inverse>"
    using assms(1) by (auto simp: links_sound_def)
  with assms(2) show ?thesis unfolding conn_def by (blast dest: rtrancl_mono)
qed

lemma component_closed:
  assumes "pair_key x y \<in> fst ` set links" and "x < n" "y < n"
  shows "conn n (map fst links) x y"
proof -
  have "(x, y) \<in> set (map fst links) \<union> (set (map fst links))\<inverse>"
    using assms(1) by (force simp: pair_key_def split: if_splits)
  with assms(2,3) show ?thesis unfolding conn_def by blast
qed

lemma component_campaign_ok:
  assumes d: "distinct (map ev_id events)" and sound: "links_sound (related cfg emb events) l"
    and l: "set l = set (all_links cfg events (map emb events))"
    and cl: "\<forall>x \<in> set m. m = filter (conn (length events) (map fst l) x) [0 ..< length events]"
    and c0: "candidate_of cfg events l m = Some c0" "cd_events c = cd_events c0" "cd_domains c = cd_domains c0"
  shows "campaign_ok cfg emb events m c"
proof -
  let ?n = "length events" and ?r = "related cfg emb events"
  have inm: "y \<in> set m \<longleftrightarrow> y < ?n \<and> conn ?n (map fst l) x y" if "x \<in> set m" for x y
  proof -
    have "y \<in> set m \<longleftrightarrow> y \<in> set (filter (conn ?n (map fst l) x) [0 ..< ?n])" using cl that by metis
    then show ?thesis by auto
  qed
  have "(x, y) \<in> (?r \<union> ?r\<inverse>)\<^sup>*" if "x \<in> set m" "y \<in> set m" for x y
    using component_related [OF sound] inm that by blast
  moreover have "y \<in> set m" if "x \<in> set m" "(x, y) \<in> entity_related cfg events" for x y
  proof -
    have "x < ?n" "y < ?n" using that(2) by (auto simp: entity_related_def)
    with component_closed all_links_complete [OF d that(2), of "map emb events"] l
    have "conn ?n (map fst l) x y" by metis
    with \<open>y < ?n\<close> inm [OF that(1)] show ?thesis by blast
  qed
  moreover have "set m \<subseteq> {..< ?n}" using inm by auto
  ultimately show ?thesis using candidate_of_Some [OF c0(1)] c0 unfolding campaign_ok_def by simp
qed

lemma component_selected:
  assumes d: "distinct (map ev_id events)" and l: "set l = set (all_links cfg events (map emb events))"
    and cl: "\<forall>x \<in> set c. c = filter (conn (length events) (map fst l) x) [0 ..< length events]"
    and x: "x \<in> set c" and r: "(x, y) \<in> entity_related cfg events"
    and ne: "member_class events x \<noteq> member_class events y"
  shows "candidate_of cfg events l c \<noteq> None"
proof -
  let ?n = "length events"
  have xy: "x < ?n" "y < ?n" using r by (auto simp: entity_related_def)
  have "conn ?n (map fst l) x y"
    using component_closed [OF _ xy] all_links_complete [OF d r, of "map emb events"] l by metis
  with xy have "y \<in> set (filter (conn ?n (map fst l) x) [0 ..< ?n])" by simp
  then have y: "y \<in> set c" using cl x by metis
  have "2 \<le> length c" using x y ne by (cases c; cases "tl c") auto
  with two_domains [OF x y ne] show ?thesis by (simp add: candidate_of_None not_less)
qed

lemma campaigns_built:
  assumes d: "distinct (map ev_id events)"
    and links: "\<And>l. mset (iter_links l) = mset l" and comps: "\<And>l. mset (iter_comps l) = mset l"
  shows "\<exists>cands ms. build_campaigns emb iter_links iter_comps events cfg = Some cands \<and>
    map cd_id cands = [0 ..< length cands] \<and> sorted_wrt (\<lambda>a b. cd_score b \<le> cd_score a) cands \<and>
    distinct (concat ms) \<and> list_all2 (campaign_ok cfg emb events) ms cands \<and>
    (\<forall>(x, y) \<in> entity_related cfg events.
       member_class events x \<noteq> member_class events y \<longrightarrow> x \<in> set (concat ms))"
proof (cases "events = []")
  case True
  then show ?thesis by (intro exI [of _ "[]"]) (auto simp: build_campaigns_def entity_related_def)
next
  case False
  let ?n = "length events" and ?r = "related cfg emb events"
  let ?l = "iter_links (all_links cfg events (map emb events))"
  have set_l: "set ?l = set (all_links cfg events (map emb events))" using links by (metis set_mset_mset)
  have "distinct (map fst ?l)"
  proof -
    have "mset (map fst ?l) = mset (map fst (all_links cfg events (map emb events)))"
      using links by simp
    with all_links_sound [OF d, of cfg emb] show ?thesis
      unfolding links_sound_def by (blast dest: mset_eq_imp_distinct_iff [THEN iffD2])
  qed
  then have sound: "links_sound ?r ?l"
    using all_links_sound [OF d, of cfg emb] set_l by (simp add: links_sound_def)
  have "\<forall>(a, b) \<in> set (map fst ?l). a < ?n \<and> b < ?n"
    using sound by (fastforce simp: links_sound_def related_def)
  from components_ok [OF this] obtain cs where
    cs: "components ?n (map fst ?l) = Some cs" "distinct cs" "\<forall>x < ?n. \<exists>c \<in> set cs. x \<in> set c"
      "\<forall>c \<in> set cs. \<forall>x \<in> set c. c = filter (conn ?n (map fst ?l) x) [0 ..< ?n]" by blast
  let ?cand = "candidate_of cfg events ?l" and ?cs = "iter_comps cs"
  let ?sel = "filter (\<lambda>m. ?cand m \<noteq> None) ?cs"
  let ?ms = "sort_down (cd_score \<circ> (the \<circ> ?cand)) ?sel" let ?cands = "map (the \<circ> ?cand) ?ms"
  have set_cs: "set ?cs = set cs" and dcs: "distinct ?cs"
    using comps [of cs] cs(2) by (metis set_mset_mset, metis mset_eq_imp_distinct_iff)
  have sel: "set ?ms = {m \<in> set cs. ?cand m \<noteq> None}" by (auto simp: set_cs)
  have "distinct ?sel" using dcs by simp
  then have "distinct ?ms" by (metis mset_eq_imp_distinct_iff mset_sort_down)
  moreover have "\<forall>c \<in> set ?ms. \<forall>x \<in> set c. c = filter (conn ?n (map fst ?l) x) [0 ..< ?n]"
    using cs(4) sel by blast
  ultimately have dist: "distinct (concat ?ms)" by (rule distinct_classes)
  have build: "build_campaigns emb iter_links iter_comps events cfg = Some (renumber ?cands)"
    using False cs(1) by (simp add: build_campaigns_def Let_def map_filter_the map_sort_down)
  have "sorted_wrt (\<lambda>a b. cd_score b \<le> cd_score a) ?cands"
    using sorted_sort_down [of "cd_score \<circ> (the \<circ> ?cand)" ?sel] by (simp add: sorted_wrt_map)
  then have "sorted_wrt (\<lambda>a b. b \<le> a) (map cd_score (renumber ?cands))"
    by (simp only: renumber_facts) (simp add: sorted_wrt_map)
  then have sorted: "sorted_wrt (\<lambda>a b. cd_score b \<le> cd_score a) (renumber ?cands)"
    by (simp add: sorted_wrt_map)
  have member: "campaign_ok cfg emb events m c"
    if m: "m \<in> set ?ms" and c: "cd_events c = cd_events (the (?cand m))" "cd_domains c = cd_domains (the (?cand m))"
    for m c
  proof -
    from m sel obtain c0 where "?cand m = Some c0" and "m \<in> set cs" by auto
    then show ?thesis using component_campaign_ok [OF d sound set_l _ _ ] cs(4) c by simp
  qed
  have "list_all2 (campaign_ok cfg emb events) ?ms (renumber ?cands)"
    by (rule renumber_list_all2) (rule member, simp_all)
  moreover have "x \<in> set (concat ?ms)"
    if r: "(x, y) \<in> entity_related cfg events" and ne: "member_class events x \<noteq> member_class events y" for x y
  proof -
    have "x < ?n" using r by (auto simp: entity_related_def)
    then obtain c where c: "c \<in> set cs" "x \<in> set c" using cs(3) by blast
    with component_selected [OF d set_l _ c(2) r ne] cs(4) sel show ?thesis by auto
  qed
  ultimately show ?thesis
    using build sorted dist renumber_facts(1,2) [of ?cands]
    by (intro exI [of _ "renumber ?cands"] exI [of _ ?ms]) auto
qed

text \<open>
  C11: Campaign candidates are the linked groups of a batch. For any embedder and any iteration order
  of the hash maps, on events with distinct ids the construction returns (the union-find never
  leaves its bounds), candidates are numbered in order of descending score, and they belong to
  disjoint groups of at least two events, listed by time: any two events of a group are connected
  through pairs within the window that are similar or share an entity, a group contains with an
  event all events that share an entity with it within the window, and every event so linked to
  one of another class is in some group.
\<close>
theorem campaign_sound:
  assumes d: "distinct (map ev_id events)"
    and links: "\<And>l. mset (iter_links l) = mset l" and comps: "\<And>l. mset (iter_comps l) = mset l"
  shows "\<exists>cands ms. build_campaigns emb iter_links iter_comps events cfg = Some cands \<and>
    map cd_id cands = [0 ..< length cands] \<and> sorted_wrt (\<lambda>a b. cd_score b \<le> cd_score a) cands \<and>
    distinct (concat ms) \<and> list_all2 (campaign_ok cfg emb events) ms cands \<and>
    (\<forall>(x, y) \<in> entity_related cfg events.
       member_class events x \<noteq> member_class events y \<longrightarrow> x \<in> set (concat ms))"
  by (rule campaigns_built [OF assms])

definition sample_batch :: "event list" where
  "sample_batch =
     [(new_event ''e1'' 100 ''acme'')\<lparr>ev_class := Authentication, ev_host := Some (entity ''host'' ''web01'')\<rparr>,
      (new_event ''e2'' 200 ''acme'')\<lparr>ev_class := ProcessActivity, ev_host := Some (entity ''host'' ''web01'')\<rparr>,
      (new_event ''e3'' 300 ''acme'')\<lparr>ev_host := Some (entity ''host'' ''db01'')\<rparr>]"

theorem campaign_sound_witness:
  "\<exists>cands ms. build_campaigns (\<lambda>_. [Num 1]) rev rev sample_batch campaign_config_default = Some cands \<and>
     list_all2 (campaign_ok campaign_config_default (\<lambda>_. [Num 1]) sample_batch) ms cands \<and>
     0 \<in> set (concat ms)"
proof -
  have "(0, 1) \<in> entity_related campaign_config_default sample_batch"
    "member_class sample_batch 0 \<noteq> member_class sample_batch 1"
    by (auto simp: entity_related_def sample_batch_def in_window_def shares_entity_def event_entities_def
        new_event_def entity_def entity_key_def campaign_config_default_def wrap64_def member_class_def
        List.map_filter_def)
  moreover have "distinct (map ev_id sample_batch)" by (simp add: sample_batch_def new_event_def)
  ultimately show ?thesis
    using campaign_sound [of sample_batch rev rev "\<lambda>_. [Num 1]" campaign_config_default] by fastforce
qed

end
