(* ===== verification/Evaluation.thy ===== *)
theory Evaluation
  imports Correlate_Campaign
begin

text \<open>
  The evaluation harness \<open>crates/sigil-eval\<close>: metrics (\<open>metrics.rs\<close>), labelled scenarios
  (\<open>scenario.rs\<close>) and the comparison of the correlation variants (\<open>harness.rs\<close>), in \<open>f64\<close>
  arithmetic. The natural logarithm, the iteration orders of hash maps, the embedder, and the ids
  and the clock of fresh events are parameters. Indexing is within bounds throughout the edit
  distance, which is part of its correctness.
\<close>

section \<open>Metrics\<close>

record prf1 =
  pr_precision :: fl
  pr_recall :: fl
  pr_f1 :: fl

definition ratio :: "nat \<Rightarrow> nat \<Rightarrow> fl" where
  "ratio num den =
     (if den = 0 then Num 0 else fdiv f64 (of_integer f64 (int num)) (of_integer f64 (int den)))"

definition prf1_of :: "nat \<Rightarrow> nat \<Rightarrow> nat \<Rightarrow> prf1" where
  "prf1_of tp fp fn =
     (let p = ratio tp (tp + fp); r = ratio tp (tp + fn)
      in \<lparr>pr_precision = p, pr_recall = r,
          pr_f1 = (if flt (Num 0) (fadd f64 p r)
                   then fdiv f64 (fmul f64 (fmul f64 (Num 2) p) r) (fadd f64 p r) else Num 0)\<rparr>)"

definition set_prf1 :: "string list \<Rightarrow> string list \<Rightarrow> prf1" where
  "set_prf1 predicted truth =
     (let tp = card (set predicted \<inter> set truth)
      in prf1_of tp (card (set predicted) - tp) (card (set truth) - tp))"

definition comb2 :: "nat \<Rightarrow> nat" where
  "comb2 n = (n * (n - 1)) mod 2 ^ 64 div 2"

fun bump_count :: "'k \<Rightarrow> ('k \<times> nat) list \<Rightarrow> ('k \<times> nat) list" where
  "bump_count k [] = [(k, 1)]"
| "bump_count k ((k', n) # cs) = (if k' = k then (k', n + 1) # cs else (k', n) # bump_count k cs)"

definition count_all :: "'k list \<Rightarrow> ('k \<times> nat) list" where
  "count_all ks = fold bump_count ks []"

record contingency =
  ct_joint :: "((nat \<times> nat) \<times> nat) list"
  ct_ai :: "(nat \<times> nat) list"
  ct_bj :: "(nat \<times> nat) list"

definition contingency_of :: "nat list \<Rightarrow> nat list \<Rightarrow> contingency" where
  "contingency_of a b =
     (let ps = zip a b
      in \<lparr>ct_joint = count_all ps, ct_ai = count_all (map fst ps), ct_bj = count_all (map snd ps)\<rparr>)"

definition sum_comb2 :: "('k \<times> nat) list \<Rightarrow> nat" where
  "sum_comb2 cs = sum_list (map (comb2 \<circ> snd) cs) mod 2 ^ 64"

definition fabs :: "fl \<Rightarrow> fl" where
  "fabs x = (if negative x then fneg x else x)"

text \<open>The assertion on the lengths is a panic, \<open>None\<close>.\<close>

definition adjusted_rand_index :: "nat list \<Rightarrow> nat list \<Rightarrow> fl option" where
  "adjusted_rand_index a b =
     (if length a \<noteq> length b then None
      else if a = [] then Some (Num 1)
      else
        (let c = contingency_of a b; f = (\<lambda>n. of_integer f64 (int n));
             sum_ij = f (sum_comb2 (ct_joint c)); sum_ai = f (sum_comb2 (ct_ai c));
             sum_bj = f (sum_comb2 (ct_bj c)); all_pairs = f (comb2 (length a));
             expected = fdiv f64 (fmul f64 sum_ai sum_bj) all_pairs;
             max_index = fmul f64 (flit f64 (1 / 2)) (fadd f64 sum_ai sum_bj)
         in Some (if flt (fabs (fsub f64 max_index expected)) (flit f64 (1 / 10 ^ 12)) then Num 1
                  else fdiv f64 (fsub f64 sum_ij expected) (fsub f64 max_index expected))))"

definition entropy :: "(fl \<Rightarrow> fl) \<Rightarrow> fl \<Rightarrow> (nat \<times> nat) list \<Rightarrow> fl" where
  "entropy f_ln n counts =
     fneg (fsum f64 (map (\<lambda>(_, v). let q = fdiv f64 (of_integer f64 (int v)) n in fmul f64 q (f_ln q)) counts))"

definition mutual_info :: "(fl \<Rightarrow> fl) \<Rightarrow> fl \<Rightarrow> contingency \<Rightarrow> ((nat \<times> nat) \<times> nat) list \<Rightarrow> fl" where
  "mutual_info f_ln n c joint =
     fold (\<lambda>((x, y), nij) mi.
             let q = (\<lambda>v. fdiv f64 (of_integer f64 (int v)) n); pij = q nij;
                 px = q (the (map_of (ct_ai c) x)); py = q (the (map_of (ct_bj c) y))
             in fadd f64 mi (fmul f64 pij (f_ln (fdiv f64 pij (fmul f64 px py)))))
       joint (Num 0)"

definition normalized_mutual_info ::
  "(fl \<Rightarrow> fl) \<Rightarrow> (((nat \<times> nat) \<times> nat) list \<Rightarrow> ((nat \<times> nat) \<times> nat) list) \<Rightarrow>
   ((nat \<times> nat) list \<Rightarrow> (nat \<times> nat) list) \<Rightarrow> nat list \<Rightarrow> nat list \<Rightarrow> fl option" where
  "normalized_mutual_info f_ln iter_joint iter_counts a b =
     (if length a \<noteq> length b then None
      else if a = [] then Some (Num 1)
      else
        (let n = of_integer f64 (int (length a)); c = contingency_of a b;
             mi = mutual_info f_ln n c (iter_joint (ct_joint c));
             ha = entropy f_ln n (iter_counts (ct_ai c)); hb = entropy f_ln n (iter_counts (ct_bj c))
         in Some (if feq ha (Num 0) \<and> feq hb (Num 0) then Num 1
                  else if feq ha (Num 0) \<or> feq hb (Num 0) then Num 0
                  else fclamp (Num 0) (Num 1) (fdiv f64 mi (fsqrt f64 (fmul f64 ha hb))))))"

definition alert_reduction_ratio :: "nat \<Rightarrow> nat \<Rightarrow> fl" where
  "alert_reduction_ratio alerts incidents =
     (if alerts = 0 then Num 0
      else fsub f64 (Num 1)
             (fdiv f64 (of_integer f64 (int incidents)) (of_integer f64 (int alerts))))"

text \<open>The table of the edit distance, filled row by row.\<close>

type_synonym table = "nat list list"

definition set_cell :: "nat \<Rightarrow> nat \<Rightarrow> nat \<Rightarrow> table \<Rightarrow> table" where
  "set_cell i j v dp = dp[i := (dp ! i)[j := v]]"

definition start_table :: "nat \<Rightarrow> nat \<Rightarrow> table" where
  "start_table m n =
     (let zeros = replicate (m + 1) (replicate (n + 1) 0);
          rows = map (\<lambda>(i, row). row[0 := i]) (enumerate 0 zeros)
      in rows[0 := [0 ..< n + 1]])"

definition fill_cell :: "string list \<Rightarrow> string list \<Rightarrow> nat \<Rightarrow> nat \<Rightarrow> table \<Rightarrow> table" where
  "fill_cell a b i j dp =
     (let cost = (if a ! (i - 1) = b ! (j - 1) then 0 else 1)
      in set_cell i j
           (min (min (dp ! (i - 1) ! j + 1) (dp ! i ! (j - 1) + 1)) (dp ! (i - 1) ! (j - 1) + cost)) dp)"

definition sequence_edit_distance :: "string list \<Rightarrow> string list \<Rightarrow> nat" where
  "sequence_edit_distance a b =
     (let m = length a; n = length b
      in fold (\<lambda>i. fold (fill_cell a b i) [1 ..< n + 1]) [1 ..< m + 1] (start_table m n) ! m ! n)"

definition normalized_chain_similarity :: "string list \<Rightarrow> string list \<Rightarrow> fl" where
  "normalized_chain_similarity a b =
     (let max_len = max (length a) (length b)
      in if max_len = 0 then Num 1
         else fsub f64 (Num 1)
                (fdiv f64 (of_integer f64 (int (sequence_edit_distance a b))) (of_integer f64 (int max_len))))"

section \<open>Scenarios\<close>

record labeled_event =
  le_event :: event
  le_campaign :: "nat option"
  le_malicious :: bool
  le_technique :: "string option"

record scenario =
  sc_name :: string
  sc_events :: "labeled_event list"
  sc_truth_chain :: "string list"
  sc_truth_techniques :: "string list"

definition lcg_next :: "u64 \<Rightarrow> u64 \<times> u64" where
  "lcg_next s = (let s' = s * 6364136223846793005 + 1442695040888963407 in (s', drop_bit 16 s'))"

definition lcg_pick :: "string list \<Rightarrow> u64 \<Rightarrow> u64 \<times> string" where
  "lcg_pick xs s = (let (s', r) = lcg_next s in (s', xs ! (unat r mod length xs)))"

definition base_ts :: int where
  "base_ts = 1700000000000000"

definition step_micros :: int where
  "step_micros = 30000000"

definition attack_stages :: "(string \<times> ocsf_class \<times> string \<times> string \<times> (string \<times> string) option) list" where
  "attack_stages =
     [(''atk-1'', Authentication, ''T1110.001'', ''Failed password for mallory'', None),
      (''atk-2'', ProcessActivity, ''T1548.003'', ''sudo USER=root COMMAND=/bin/bash'', None),
      (''atk-3'', FileSystemActivity, ''T1003.008'', ''read /etc/shadow'', Some (''file'', ''/etc/shadow'')),
      (''atk-4'', NetworkActivity, ''T1041'', ''exfil to 9.9.9.9'', Some (''ip'', ''9.9.9.9''))]"

definition attack_event ::
  "int \<Rightarrow> nat \<times> string \<times> ocsf_class \<times> string \<times> string \<times> (string \<times> string) option \<Rightarrow> labeled_event" where
  "attack_event now st =
     (case st of (i, eid, c, technique, msg, target) \<Rightarrow>
        \<lparr>le_event = (new_event eid now ''acme'')
           \<lparr>ev_ts := base_ts + int i * step_micros, ev_class := c,
            ev_host := Some (entity ''host'' ''web01''), ev_actor := Some (entity ''user'' ''mallory''),
            ev_target := map_option (\<lambda>(k, v). entity k v) target, ev_message := msg, ev_severity := High\<rparr>,
         le_campaign = Some 1, le_malicious = True, le_technique = Some technique\<rparr>)"

definition noise_hosts :: "string list" where
  "noise_hosts = [''db01'', ''app02'', ''mail03'', ''ci04'']"

definition noise_messages :: "string list" where
  "noise_messages = [''nightly backup ok'', ''health check passed'', ''cron job finished'', ''cache warmed'']"

definition noise_event :: "int \<Rightarrow> nat \<Rightarrow> u64 \<times> labeled_event list \<Rightarrow> u64 \<times> labeled_event list" where
  "noise_event now k st =
     (let (s1, r) = lcg_next (fst st); (s2, host) = lcg_pick noise_hosts s1;
          (s3, msg) = lcg_pick noise_messages s2;
          e = (new_event (''bng-'' @ show_nat k) now ''acme'')
            \<lparr>ev_ts := base_ts + int (unat r) mod (8 * step_micros), ev_class := OtherClass 1008,
             ev_host := Some (entity ''host'' host), ev_message := msg, ev_severity := Informational\<rparr>
      in (s3, snd st @ [\<lparr>le_event = e, le_campaign = None, le_malicious = False, le_technique = None\<rparr>]))"

definition synthetic :: "int \<Rightarrow> u64 \<Rightarrow> scenario" where
  "synthetic now seed =
     (let attack = map (attack_event now) (enumerate 0 attack_stages)
      in \<lparr>sc_name = ''synthetic@'' @ show_nat (unat seed),
          sc_events = attack @ snd (fold (noise_event now) [0 ..< 12] (xor seed 0x5eed, [])),
          sc_truth_chain = map fst attack_stages,
          sc_truth_techniques = map (\<lambda>(_, _, t, _). t) attack_stages\<rparr>)"

section \<open>The comparison\<close>

datatype variant = Combined | ProvenanceOnly | SemanticOnly | SigmaOnly

fun variant_label :: "variant \<Rightarrow> string" where
  "variant_label Combined = ''combined''"
| "variant_label ProvenanceOnly = ''provenance-only''"
| "variant_label SemanticOnly = ''semantic-only''"
| "variant_label SigmaOnly = ''sigma-only''"

record variant_result =
  vr_variant :: string
  vr_ari :: fl
  vr_nmi :: fl
  vr_alert_reduction :: fl
  vr_technique_f1 :: fl
  vr_chain_similarity :: fl
  vr_incidents :: nat

record eval_report =
  er_scenario :: string
  er_alerts :: nat
  er_rows :: "variant_result list"

text \<open>What is outside of the harness: the token hash, the logarithm and iteration orders.\<close>

record eval_env =
  en_hash :: "string \<Rightarrow> u64"
  en_ln :: "fl \<Rightarrow> fl"
  en_links :: "link_map \<Rightarrow> link_map"
  en_comps :: "nat list list \<Rightarrow> nat list list"
  en_joint :: "((nat \<times> nat) \<times> nat) list \<Rightarrow> ((nat \<times> nat) \<times> nat) list"
  en_counts :: "(nat \<times> nat) list \<Rightarrow> (nat \<times> nat) list"

definition sigma_labels :: "labeled_event list \<Rightarrow> nat list" where
  "sigma_labels les =
     fst (fold (\<lambda>le (ls, next). if le_malicious le then (ls @ [next], (next + 1) mod 2 ^ 32) else (ls @ [0], next))
            les ([], 2))"

definition candidate_labels :: "event list \<Rightarrow> campaign_candidate list \<Rightarrow> nat list" where
  "candidate_labels events cands =
     fold (\<lambda>(ci, c). fold (\<lambda>eid pred.
             case event_positions events eid of Some i \<Rightarrow> pred[i := (ci + 1) mod 2 ^ 32] | None \<Rightarrow> pred) (cd_events c))
       (enumerate 0 cands) (replicate (length events) 0)"

definition default_embed :: "eval_env \<Rightarrow> event \<Rightarrow> vec" where
  "default_embed env e = hashing_embed (en_hash env) (hashing_embedder_new 128) (serialize_event e)"

definition eval_config :: campaign_config where
  "eval_config =
     \<lparr>cf_window_micros = 60 * 60 * 1000000, cf_sim_threshold = flit f32 (1 / 4), cf_knn = 10,
      cf_require_cross_domain = True, cf_semantic_links = True, cf_entity_links = True\<rparr>"

definition techniques_of :: "labeled_event list \<Rightarrow> (string \<times> string) list" where
  "techniques_of les =
     fold (\<lambda>le. case le_technique le of Some t \<Rightarrow> hash_insert (ev_id (le_event le)) t | None \<Rightarrow> id) les []"

text \<open>Labels, number of incidents, techniques and chain that a variant predicts.\<close>

definition predict ::
  "eval_env \<Rightarrow> variant \<Rightarrow> scenario \<Rightarrow> (nat list \<times> nat \<times> string list \<times> string list) option" where
  "predict env v s =
     (let events = map le_event (sc_events s); alerts = length (filter le_malicious (sc_events s))
      in if v = SigmaOnly then Some (sigma_labels (sc_events s), alerts, sc_truth_techniques s, [])
         else
           (let cfg = eval_config\<lparr>cf_semantic_links := (v \<noteq> ProvenanceOnly), cf_entity_links := (v \<noteq> SemanticOnly)\<rparr>
            in case build_campaigns (default_embed env) (en_links env) (en_comps env) events cfg of
                 None \<Rightarrow> None
               | Some [] \<Rightarrow> Some (candidate_labels events [], 0, [], [])
               | Some (best # rest) \<Rightarrow>
                   map_option
                     (\<lambda>inc. (candidate_labels events (best # rest), length (best # rest), in_techniques inc,
                              map is_event_id (in_chain inc)))
                     (build_incident 0 best events (techniques_of (sc_events s)) (beam_selector 4)
                       (causal_config_default\<lparr>cc_window_micros := cf_window_micros eval_config\<rparr>))))"

definition score_variant :: "eval_env \<Rightarrow> variant \<Rightarrow> scenario \<Rightarrow> variant_result option" where
  "score_variant env v s =
     (case predict env v s of
        None \<Rightarrow> None
      | Some (labels, incidents, techniques, chain) \<Rightarrow>
          (let alerts = length (filter le_malicious (sc_events s));
               truth = map (\<lambda>le. case le_campaign le of Some c \<Rightarrow> c | None \<Rightarrow> 0) (sc_events s)
           in case (adjusted_rand_index labels truth,
                    normalized_mutual_info (en_ln env) (en_joint env) (en_counts env) labels truth) of
                (Some ari, Some nmi) \<Rightarrow>
                  Some \<lparr>vr_variant = variant_label v, vr_ari = ari, vr_nmi = nmi,
                        vr_alert_reduction = alert_reduction_ratio alerts incidents,
                        vr_technique_f1 = pr_f1 (set_prf1 techniques (sc_truth_techniques s)),
                        vr_chain_similarity = normalized_chain_similarity chain (sc_truth_chain s),
                        vr_incidents = incidents\<rparr>
              | _ \<Rightarrow> None))"

definition run_eval :: "eval_env \<Rightarrow> scenario \<Rightarrow> eval_report option" where
  "run_eval env s =
     map_option (\<lambda>rows. \<lparr>er_scenario = sc_name s, er_alerts = length (filter le_malicious (sc_events s)), er_rows = rows\<rparr>)
       (those (map (\<lambda>v. score_variant env v s) [Combined, ProvenanceOnly, SemanticOnly, SigmaOnly]))"

section \<open>Several seeds\<close>

record metric_summary =
  ms_mean :: fl
  ms_ci95 :: fl

definition t_table :: "rat list" where
  "t_table =
     [12706, 4303, 3182, 2776, 2571, 2447, 2365, 2306, 2262, 2228, 2201, 2179, 2160, 2145, 2131, 2120,
      2110, 2101, 2093, 2086, 2080, 2074, 2069, 2064, 2060, 2056, 2052, 2048, 2045, 2042]"

definition t_critical_95 :: "nat \<Rightarrow> fl" where
  "t_critical_95 df =
     (if df = 0 then PInf
      else if df \<le> 30 then flit f64 (t_table ! (df - 1) / 1000) else flit f64 (196 / 100))"

definition from_samples :: "fl list \<Rightarrow> metric_summary" where
  "from_samples xs =
     (let n = length xs; nf = of_integer f64 (int n); mean = fdiv f64 (fsum f64 xs) nf
      in if n < 2 then \<lparr>ms_mean = mean, ms_ci95 = Num 0\<rparr>
         else
           (let sq = (\<lambda>x. let d = fsub f64 x mean in fmul f64 d d);
                var = fdiv f64 (fsum f64 (map sq xs)) (fsub f64 nf (Num 1));
                se = fsqrt f64 (fdiv f64 var nf)
            in \<lparr>ms_mean = mean, ms_ci95 = fmul f64 (t_critical_95 (n - 1)) se\<rparr>))"

record variant_summary =
  vs_variant :: string
  vs_ari :: metric_summary
  vs_nmi :: metric_summary
  vs_alert_reduction :: metric_summary
  vs_technique_f1 :: metric_summary
  vs_chain_similarity :: metric_summary

definition pick :: "eval_report list \<Rightarrow> string \<Rightarrow> (variant_result \<Rightarrow> fl) \<Rightarrow> metric_summary" where
  "pick reports v get =
     from_samples (concat (map (\<lambda>r. map get (filter (\<lambda>row. vr_variant row = v) (er_rows r))) reports))"

definition summarize_reports :: "eval_report list \<Rightarrow> variant_summary list" where
  "summarize_reports reports =
     map (\<lambda>v. \<lparr>vs_variant = v, vs_ari = pick reports v vr_ari, vs_nmi = pick reports v vr_nmi,
                vs_alert_reduction = pick reports v vr_alert_reduction,
                vs_technique_f1 = pick reports v vr_technique_f1,
                vs_chain_similarity = pick reports v vr_chain_similarity\<rparr>)
       (case reports of [] \<Rightarrow> [] | r # _ \<Rightarrow> map vr_variant (er_rows r))"

record multi_seed_report =
  mr_scenario :: string
  mr_seeds :: "nat list"
  mr_rows :: "variant_summary list"

definition run_eval_multi :: "eval_env \<Rightarrow> scenario list \<Rightarrow> multi_seed_report option" where
  "run_eval_multi env scenarios =
     map_option
       (\<lambda>reports. \<lparr>mr_scenario = (case scenarios of [] \<Rightarrow> [] | s # _ \<Rightarrow> sc_name s),
                   mr_seeds = [0 ..< length scenarios], mr_rows = summarize_reports reports\<rparr>)
       (those (map (run_eval env) scenarios))"

end
