(* ===== verification/Evaluation_Facts.thy ===== *)
theory Evaluation_Facts
  imports Evaluation
begin

text \<open>
  Correctness of the metrics of the evaluation harness (theory \<open>Evaluation\<close>): the edit distance is
  the least number of edits, the adjusted Rand index of identical clusterings is exactly 1.
\<close>

section \<open>The edit distance\<close>

text \<open>One edit replaces a piece of at most one element by a piece of at most one element.\<close>

inductive edit :: "'a list \<Rightarrow> 'a list \<Rightarrow> bool" where
  edit_insert: "edit (u @ v) (u @ y # v)"
| edit_delete: "edit (u @ x # v) (u @ v)"
| edit_change: "edit (u @ x # v) (u @ y # v)"

text \<open>Alignments, with their cost; the recurrence of the table follows their rules.\<close>

inductive align :: "'a list \<Rightarrow> nat \<Rightarrow> 'a list \<Rightarrow> bool" where
  align_nil: "align [] 0 []"
| align_keep: "align a n b \<Longrightarrow> align (a @ [x]) n (b @ [x])"
| align_change: "align a n b \<Longrightarrow> align (a @ [x]) (Suc n) (b @ [y])"
| align_delete: "align a n b \<Longrightarrow> align (a @ [x]) (Suc n) b"
| align_insert: "align a n b \<Longrightarrow> align a (Suc n) (b @ [y])"

lemma align_append:
  assumes "align v n d" "align u m c"
  shows "align (u @ v) (m + n) (c @ d)"
  using assms by (induction) (auto simp flip: append_assoc intro: align.intros)

lemma align_split:
  assumes "align w n b" "w = u @ v"
  shows "\<exists>m k c d. n = m + k \<and> b = c @ d \<and> align u m c \<and> align v k d"
  using assms
proof (induction arbitrary: v)
  case (align_keep a n b x)
  then show ?case
  proof (cases v rule: rev_cases)
    case (snoc v' y)
    then obtain m k c d where "n = m + k" "b = c @ d" "align u m c" "align v' k d" "y = x"
      using align_keep by auto
    then show ?thesis using snoc by (intro exI[of _ m] exI[of _ k] exI[of _ c] exI[of _ "d @ [x]"]) (auto intro: align.intros)
  next
    case Nil
    then show ?thesis
      using align.align_keep[OF align_keep.hyps, of x] align_keep.prems
      by (intro exI[of _ "n"] exI[of _ 0] exI[of _ "b @ [x]"] exI[of _ "[]"]) (auto intro: align_nil)
  qed
next
  case (align_change a n b x y)
  then show ?case
  proof (cases v rule: rev_cases)
    case (snoc v' z)
    then obtain m k c d where "n = m + k" "b = c @ d" "align u m c" "align v' k d" "z = x"
      using align_change by auto
    then show ?thesis using snoc by (intro exI[of _ m] exI[of _ "Suc k"] exI[of _ c] exI[of _ "d @ [y]"]) (auto intro: align.intros)
  next
    case Nil
    then show ?thesis
      using align.align_change[OF align_change.hyps, of x y] align_change.prems
      by (intro exI[of _ "Suc n"] exI[of _ 0] exI[of _ "b @ [y]"] exI[of _ "[]"]) (auto intro: align_nil)
  qed
next
  case (align_delete a n b x)
  then show ?case
  proof (cases v rule: rev_cases)
    case (snoc v' z)
    then obtain m k c d where "n = m + k" "b = c @ d" "align u m c" "align v' k d" "z = x"
      using align_delete by auto
    then show ?thesis using snoc by (intro exI[of _ m] exI[of _ "Suc k"] exI[of _ c] exI[of _ d]) (auto intro: align.intros)
  next
    case Nil
    then show ?thesis
      using align.align_delete[OF align_delete.hyps, of x] align_delete.prems
      by (intro exI[of _ "Suc n"] exI[of _ 0] exI[of _ "b"] exI[of _ "[]"]) (auto intro: align_nil)
  qed
next
  case (align_insert a n b y)
  then obtain m k c d where "n = m + k" "b = c @ d" "align u m c" "align v k d" by blast
  then show ?case by (intro exI[of _ m] exI[of _ "Suc k"] exI[of _ c] exI[of _ "d @ [y]"]) (auto intro: align.intros)
qed (auto intro: align.intros)

lemma align_refl: "align a 0 a"
  by (induction a rule: rev_induct) (auto intro: align.intros)

lemma align_from_nil: "align [] (length b) b"
  by (induction b rule: rev_induct) (auto intro: align.intros)

lemma align_to_nil: "align a (length a) []"
  by (induction a rule: rev_induct) (auto intro: align.intros)

lemma align_from_one: "\<exists>k \<le> max 1 (length b). align [x] k b"
proof (cases b rule: rev_cases)
  case Nil
  then show ?thesis using align_delete[OF align_nil] by (intro exI[of _ 1]) simp
next
  case (snoc c y)
  then show ?thesis
    using align_change[OF align_from_nil[of c], of x y] by (intro exI[of _ "length b"]) auto
qed

lemma align_cost: "align a n b \<Longrightarrow> length b \<le> n + length a"
  by (induction rule: align.induct) auto

lemma align_small:
  assumes "align y n b" "length y \<le> 1" "length x \<le> 1"
  shows "\<exists>k \<le> Suc n. align x k b"
proof (cases x)
  case Nil
  then show ?thesis using align_cost[OF assms(1)] assms(2) align_from_nil[of b] by (intro exI[of _ "length b"]) auto
next
  case (Cons z zs)
  then have "x = [z]" using assms(3) by auto
  then show ?thesis
    using align_from_one[of b z] align_cost[OF assms(1)] assms(2)
    by (metis One_nat_def Suc_leI le_SucI le_trans max.bounded_iff max_def not_less_eq_eq plus_1_eq_Suc add.commute zero_less_Suc add_le_cancel_left)
qed

lemma edit_parts: "edit a b \<Longrightarrow> \<exists>u x y v. a = u @ x @ v \<and> b = u @ y @ v \<and> length x \<le> 1 \<and> length y \<le> 1"
proof (induction rule: edit.induct)
  case (edit_insert u v y)
  then show ?case by (intro exI[of _ u] exI[of _ "[]"] exI[of _ "[y]"] exI[of _ v]) simp
next
  case (edit_delete u x v)
  then show ?case by (intro exI[of _ u] exI[of _ "[x]"] exI[of _ "[]"] exI[of _ v]) simp
next
  case (edit_change u x v y)
  then show ?case by (intro exI[of _ u] exI[of _ "[x]"] exI[of _ "[y]"] exI[of _ v]) simp
qed

lemma align_edit:
  assumes "edit a b" "align b n c"
  shows "\<exists>k \<le> Suc n. align a k c"
proof -
  obtain u x y v where e: "a = u @ x @ v" "b = u @ y @ v" "length x \<le> 1" "length y \<le> 1"
    using edit_parts[OF assms(1)] by blast
  obtain n1 m c1 d where 1: "n = n1 + m" "c = c1 @ d" "align u n1 c1" "align (y @ v) m d"
    using align_split[OF assms(2) e(2)] by blast
  obtain n2 n3 c2 c3 where 2: "m = n2 + n3" "d = c2 @ c3" "align y n2 c2" "align v n3 c3"
    using align_split[OF 1(4) refl] by blast
  obtain k where k: "k \<le> Suc n2" "align x k c2" using align_small[OF 2(3) e(4,3)] by blast
  show ?thesis
    using align_append[OF align_append[OF 2(4) k(2)] 1(3)] k(1) e(1) 1 2
    by (intro exI[of _ "n1 + (k + n3)"]) auto
qed

lemma edits_align: "(edit ^^ n) a b \<Longrightarrow> \<exists>k \<le> n. align a k b"
proof (induction n arbitrary: a)
  case 0
  then show ?case using align_refl by auto
next
  case (Suc n)
  then obtain c where "edit a c" "(edit ^^ n) c b" by (metis relpowp_Suc_E2)
  then obtain k where "k \<le> n" "align c k b" using Suc.IH by blast
  then show ?case using align_edit[OF \<open>edit a c\<close>] by (meson Suc_le_mono order_trans)
qed

lemma edit_snoc: "edit a b \<Longrightarrow> edit (a @ w) (b @ w)"
  by (induction rule: edit.induct) (auto intro: edit.intros)

lemma edits_snoc: "(edit ^^ n) a b \<Longrightarrow> (edit ^^ n) (a @ w) (b @ w)"
proof (induction n arbitrary: b)
  case (Suc n)
  then show ?case by (metis relpowp_Suc_E relpowp_Suc_I edit_snoc)
qed simp

lemma edit_last:
  "edit (b @ [x]) (b @ [y])" "edit (b @ [x]) b" "edit b (b @ [y])"
  using edit_change[of b x "[]" y] edit_delete[of b x "[]"] edit_insert[of b "[]" y] by simp_all

lemma align_edits: "align a n b \<Longrightarrow> (edit ^^ n) a b"
proof (induction rule: align.induct)
  case (align_keep a n b x)
  then show ?case by (simp add: edits_snoc)
next
  case (align_change a n b x y)
  then show ?case using edits_snoc[of n a b "[x]"] edit_last(1) by (meson relpowp_Suc_I)
next
  case (align_delete a n b x)
  then show ?case using edits_snoc[of n a b "[x]"] edit_last(2) by (meson relpowp_Suc_I)
next
  case (align_insert a n b y)
  then show ?case using edit_last(3) by (meson relpowp_Suc_I)
qed simp

fun lev :: "'a list \<Rightarrow> 'a list \<Rightarrow> nat \<Rightarrow> nat \<Rightarrow> nat" where
  "lev a b 0 j = j"
| "lev a b (Suc i) 0 = Suc i"
| "lev a b (Suc i) (Suc j) =
     min (min (lev a b i (Suc j) + 1) (lev a b (Suc i) j + 1)) (lev a b i j + (if a ! i = b ! j then 0 else 1))"

lemma lev_left [simp]: "lev a b i 0 = i"
  by (cases i) auto

lemma lev_aligns:
  assumes "i \<le> length a" "j \<le> length b"
  shows "align (take i a) (lev a b i j) (take j b)"
  using assms
proof (induction a b i j rule: lev.induct)
  case (1 a b j)
  then show ?case using align_from_nil[of "take j b"] by simp
next
  case (2 a b i)
  then show ?case using align_to_nil[of "take (Suc i) a"] by (simp add: min_absorb2)
next
  case (3 a b i j)
  then have ih: "align (take i a) (lev a b i (Suc j)) (take (Suc j) b)"
    "align (take (Suc i) a) (lev a b (Suc i) j) (take j b)" "align (take i a) (lev a b i j) (take j b)" by simp_all
  have lt: "i < length a" "j < length b" using 3 by simp_all
  then show ?case
    using ih align_delete[OF ih(1), of "a ! i"] align_insert[OF ih(2), of "b ! j"]
      align_change[OF ih(3), of "a ! i" "b ! j"] align_keep[OF ih(3), of "a ! i"]
    by (auto simp: min_def take_Suc_conv_app_nth)
qed

lemma lev_step:
  "lev a b (Suc i) j \<le> Suc (lev a b i j)" "lev a b i (Suc j) \<le> Suc (lev a b i j)"
proof -
  show "lev a b (Suc i) j \<le> Suc (lev a b i j)" by (cases j) (auto simp: min_def)
  show "lev a b i (Suc j) \<le> Suc (lev a b i j)" by (cases i) (auto simp: min_def)
qed

lemma lev_least:
  assumes "align p n q" "p = take i a" "q = take j b" "i \<le> length a" "j \<le> length b"
  shows "lev a b i j \<le> n"
  using assms
proof (induction arbitrary: i j)
  case (align_keep p n q x)
  obtain i' j' where ij: "i = Suc i'" "j = Suc j'"
    using align_keep.prems by (cases i; cases j) auto
  then have "p = take i' a" "q = take j' b" "a ! i' = x" "b ! j' = x"
    using align_keep.prems by (auto simp: take_Suc_conv_app_nth)
  then show ?case using align_keep.IH[of i' j'] align_keep.prems ij by (simp add: min_le_iff_disj)
next
  case (align_change p n q x y)
  obtain i' j' where ij: "i = Suc i'" "j = Suc j'"
    using align_change.prems by (cases i; cases j) auto
  then have "p = take i' a" "q = take j' b"
    using align_change.prems by (auto simp: take_Suc_conv_app_nth)
  then show ?case using align_change.IH[of i' j'] align_change.prems ij by (simp add: min_le_iff_disj)
next
  case (align_delete p n q x)
  obtain i' where i: "i = Suc i'" using align_delete.prems by (cases i) auto
  then have "p = take i' a" using align_delete.prems by (auto simp: take_Suc_conv_app_nth)
  then show ?case using align_delete.IH[of i' j] align_delete.prems i lev_step(1)[of a b i' j] by simp
next
  case (align_insert p n q y)
  obtain j' where j: "j = Suc j'" using align_insert.prems by (cases j) auto
  then have "q = take j' b" using align_insert.prems by (auto simp: take_Suc_conv_app_nth)
  then show ?case using align_insert.IH[of i j'] align_insert.prems j lev_step(2)[of a b i j'] by simp
qed auto

text \<open>The table: the cells filled so far hold the recurrence.\<close>

definition filled :: "string list \<Rightarrow> string list \<Rightarrow> nat \<Rightarrow> nat \<Rightarrow> table \<Rightarrow> bool" where
  "filled a b i j dp \<longleftrightarrow>
     length dp = length a + 1 \<and> (\<forall>p \<le> length a. length (dp ! p) = length b + 1) \<and>
     (\<forall>p \<le> length a. \<forall>q \<le> length b. p = 0 \<or> q = 0 \<or> p < i \<or> p = i \<and> q < j \<longrightarrow> dp ! p ! q = lev a b p q)"

lemma start_table_cells:
  assumes "p \<le> m" "q \<le> n"
  shows "length (start_table m n) = m + 1" "length (start_table m n ! p) = n + 1"
    "p = 0 \<or> q = 0 \<Longrightarrow> start_table m n ! p ! q = p + q"
proof -
  show "length (start_table m n) = m + 1" by (simp add: start_table_def)
  have r: "start_table m n ! p = (if p = 0 then [0 ..< n + 1] else (replicate (n + 1) 0)[0 := p])"
    using assms unfolding start_table_def Let_def
    by (simp add: nth_list_update nth_enumerate_eq del: upt_Suc replicate_Suc)
  show "length (start_table m n ! p) = n + 1" by (simp add: r)
  show "p = 0 \<or> q = 0 \<Longrightarrow> start_table m n ! p ! q = p + q"
    using assms by (auto simp: r nth_append simp del: upt_Suc replicate_Suc)
qed

lemma filled_start: "filled a b 1 1 (start_table (length a) (length b))"
  unfolding filled_def
proof (intro conjI allI impI)
  fix p q assume "p \<le> length a" "q \<le> length b" "p = 0 \<or> q = 0 \<or> p < 1 \<or> p = 1 \<and> q < 1"
  then have "p = 0 \<or> q = 0" by auto
  then show "start_table (length a) (length b) ! p ! q = lev a b p q"
    using start_table_cells(3)[of p "length a" q "length b"] \<open>p \<le> length a\<close> \<open>q \<le> length b\<close> by auto
qed (use start_table_cells(1)[of 0] start_table_cells(2)[of _ _ 0] in auto)

lemma filled_cell:
  assumes "filled a b i j dp" "1 \<le> i" "i \<le> length a" "1 \<le> j" "j \<le> length b"
  shows "filled a b i (Suc j) (fill_cell a b i j dp)"
proof -
  have l: "length dp = length a + 1" "\<And>p. p \<le> length a \<Longrightarrow> length (dp ! p) = length b + 1"
    using assms(1) by (auto simp: filled_def)
  have c: "\<And>p q. p \<le> length a \<Longrightarrow> q \<le> length b \<Longrightarrow> p = 0 \<or> q = 0 \<or> p < i \<or> p = i \<and> q < j \<Longrightarrow> dp ! p ! q = lev a b p q"
    using assms(1) unfolding filled_def by blast
  obtain i' j' where ij: "i = Suc i'" "j = Suc j'" using assms by (cases i; cases j) auto
  have f: "fill_cell a b i j dp = dp[i := (dp ! i)[j := lev a b i j]]"
    using assms(3,5) c[of i' j'] c[of i' j] c[of i j'] unfolding fill_cell_def set_cell_def by (simp add: ij)
  show ?thesis
    unfolding filled_def f
  proof (intro conjI allI impI)
    fix p q assume pq: "p \<le> length a" "q \<le> length b" "p = 0 \<or> q = 0 \<or> p < i \<or> p = i \<and> q < Suc j"
    then show "dp[i := (dp ! i)[j := lev a b i j]] ! p ! q = lev a b p q"
      using l assms(3) c[of p q] by (cases "p = i \<and> q = j") (auto simp: nth_list_update)
  qed (use l assms(3) in \<open>auto simp: nth_list_update\<close>)
qed

lemma filled_row:
  assumes "filled a b i 1 dp" "1 \<le> i" "i \<le> length a" "k \<le> length b"
  shows "filled a b i (Suc k) (fold (fill_cell a b i) [1 ..< k + 1] dp)"
  using assms
proof (induction k)
  case (Suc k)
  then show ?case using filled_cell[of a b i "Suc k"] by simp
qed simp

lemma filled_next:
  assumes "filled a b i (Suc (length b)) dp"
  shows "filled a b (Suc i) 1 dp"
  unfolding filled_def
proof (intro conjI allI impI)
  fix p q assume "p \<le> length a" "q \<le> length b" "p = 0 \<or> q = 0 \<or> p < Suc i \<or> p = Suc i \<and> q < 1"
  then show "dp ! p ! q = lev a b p q"
    using assms unfolding filled_def by (metis less_Suc_eq less_Suc_eq_le less_one)
qed (use assms in \<open>auto simp: filled_def\<close>)

lemma filled_table:
  assumes "k \<le> length a"
  shows "filled a b (Suc k) 1
           (fold (\<lambda>i. fold (fill_cell a b i) [1 ..< length b + 1]) [1 ..< k + 1] (start_table (length a) (length b)))"
  using assms
proof (induction k)
  case 0
  then show ?case using filled_start by simp
next
  case (Suc k)
  then show ?case using filled_next[OF filled_row[of a b "Suc k" _ "length b"]] by simp
qed

lemma distance_lev: "sequence_edit_distance a b = lev a b (length a) (length b)"
  using filled_table[of "length a" a b] unfolding sequence_edit_distance_def Let_def filled_def by simp

text \<open>
  The edit distance of two technique chains is the least number of single edits (insertions,
  deletions and replacements of one element) that turn one into the other.
\<close>

theorem edit_distance_least:
  "(edit ^^ sequence_edit_distance a b) a b \<and> sequence_edit_distance a b = (LEAST n. (edit ^^ n) a b)"
proof -
  have r: "(edit ^^ sequence_edit_distance a b) a b"
    using align_edits[OF lev_aligns[of "length a" a "length b" b]] by (simp add: distance_lev)
  have "sequence_edit_distance a b \<le> n" if steps: "(edit ^^ n) a b" for n
  proof -
    obtain k where "k \<le> n" "align a k b" using edits_align[OF steps] by blast
    then show ?thesis using lev_least[of a k b "length a" a "length b" b] by (simp add: distance_lev)
  qed
  then show ?thesis using r by (intro conjI Least_equality[symmetric]) auto
qed

section \<open>Exact integers\<close>

text \<open>Integers within the precision are represented exactly.\<close>

lemma round_half_even_int [simp]: "round_half_even (of_int i) = i"
  by (simp add: round_half_even_def)

lemma ilog2_less:
  assumes "0 < q" "q < pow2 p"
  shows "ilog2 q < p"
proof -
  have "pow2 (ilog2 q) < pow2 p" using ilog2_le[OF assms(1)] assms(2) by simp
  then show ?thesis using pow2_mono[of p "ilog2 q"] by (meson leI not_less)
qed

lemma fround_dyadic:
  assumes "0 < i" "i < 2 ^ 53" "k \<le> 1074"
  shows "fround f64 (of_int i / 2 ^ k) = Num (of_int i / 2 ^ k)"
proof -
  let ?q = "of_int i / 2 ^ k :: rat" let ?e = "max (ilog2 ?q) (-1022) - 52"
  have pos: "0 < ?q" using assms(1) by simp
  have lt: "(of_int i :: rat) < 2 ^ 53"
  proof -
    have "(of_int i :: rat) < of_int (2 ^ 53)" using assms(2) by (simp only: of_int_less_iff)
    then show ?thesis by simp
  qed
  have k: "pow2 (int k) = (2 ^ k :: rat)" by (simp add: pow2_def)
  have "?q < pow2 (53 - int k)"
  proof -
    have "pow2 (53 - int k) * pow2 (int k) = (2 ^ 53 :: rat)" by (simp add: pow2_add[symmetric]) (simp add: pow2_def)
    then show ?thesis using lt by (simp add: k divide_less_eq)
  qed
  from ilog2_less[OF pos this] have e: "?e + int k \<le> 0" using assms(3) by simp
  have u: "ulp f64 (ilog2 ?q) = pow2 ?e" by (simp add: ulp_def f64_def)
  have one: "pow2 (- ?e - int k) * pow2 ?e * 2 ^ k = (1 :: rat)" unfolding k[symmetric] by (simp add: pow2_add[symmetric])
  have "?q / pow2 ?e = ?q / pow2 ?e * (pow2 (- ?e - int k) * pow2 ?e * 2 ^ k)" unfolding one by simp
  also have "\<dots> = of_int i * pow2 (- ?e - int k)" using pow2_pos[of ?e] by (simp del: pow2_pos)
  also have "\<dots> = of_int (i * 2 ^ nat (- ?e - int k))" using e by (simp add: pow2_def)
  finally have q: "?q / ulp f64 (ilog2 ?q) = of_int (i * 2 ^ nat (- ?e - int k))" unfolding u .
  have r: "of_int (round_half_even (?q / ulp f64 (ilog2 ?q))) * ulp f64 (ilog2 ?q) = ?q"
    unfolding q round_half_even_int unfolding q[symmetric] using ulp_pos[of f64 "ilog2 ?q"] by (simp del: ulp_pos)
  have "?q \<le> of_int i" using assms(1) by (simp add: divide_le_eq mult_le_cancel_left1)
  also have "\<dots> < too_big f64" using lt by (simp add: too_big_def f64_def pow2_def)
  finally have "pack f64 False ?q = Num ?q" using pos by (simp add: pack_def)
  moreover define z where "z = ?q"
  ultimately show ?thesis using pos r unfolding z_def[symmetric] by (simp add: fround_def Let_def)
qed

lemma fround_integer: "0 \<le> i \<Longrightarrow> i < 2 ^ 53 \<Longrightarrow> fround f64 (of_int i) = Num (of_int i)"
  using fround_dyadic[of i 0] by (cases "i = 0") (simp_all add: fround_def)

lemma fround_positive:
  assumes "0 < q" "pow2 (fm_emin m) \<le> q" "1 \<le> fm_prec m"
  shows "positive (fround m q)"
proof -
  let ?e = "ilog2 \<bar>q\<bar>" let ?u = "ulp m ?e" let ?v = "of_int (round_half_even (q / ?u)) * ?u"
  have "?u \<le> pow2 (max ?e (fm_emin m))" using assms(3) by (auto simp: ulp_def intro!: pow2_mono)
  also have "\<dots> \<le> q" using ilog2_le[OF assms(1)] assms(1,2) by (auto simp: max_def)
  finally have "0 < ?v" using rounded_close[of q m ?e] assms(1) by linarith
  then show ?thesis using assms(1) pow2_pos[of "2 - fm_emin m"]
    by (auto simp: fround_def Let_def pack_def too_big_def simp del: pow2_pos)
qed

lemma of_integer_exact: "n < 2 ^ 53 \<Longrightarrow> of_integer f64 (int n) = Num (of_nat n)"
  using fround_integer[of "int n"] by (simp add: of_integer_def)

text \<open>Finite numbers; rounding a number that is not too large is finite.\<close>

definition finite_fl :: "fl \<Rightarrow> bool" where
  "finite_fl x \<longleftrightarrow> x = NZero \<or> (\<exists>q. x = Num q)"

lemma fround_finite:
  assumes "2 * \<bar>q\<bar> + 1 < too_big m" "fm_emin m \<le> 0" "1 \<le> fm_prec m"
  shows "finite_fl (fround m q)" "\<bar>fval (fround m q)\<bar> \<le> 2 * \<bar>q\<bar> + 1"
proof -
  have "finite_fl (fround m q) \<and> \<bar>fval (fround m q)\<bar> \<le> 2 * \<bar>q\<bar> + 1"
  proof (cases "q = 0")
    case False
    let ?e = "ilog2 \<bar>q\<bar>" let ?u = "ulp m ?e" let ?v = "of_int (round_half_even (q / ?u)) * ?u"
    have "?u \<le> pow2 (max ?e (fm_emin m))" using assms(3) by (auto simp: ulp_def intro!: pow2_mono)
    also have "\<dots> \<le> \<bar>q\<bar> + 1"
      using ilog2_le[of "\<bar>q\<bar>"] False pow2_mono[OF assms(2)] by (auto simp: max_def add.commute add_increasing)
    finally have v: "\<bar>?v\<bar> \<le> 2 * \<bar>q\<bar> + 1" using rounded_close[of q m ?e] abs_ge_zero[of q] by linarith
    then have "\<not> too_big m \<le> ?v" "\<not> ?v \<le> - too_big m" using assms(1) by linarith+
    then have "fround m q = (if ?v = 0 \<and> q < 0 then NZero else Num ?v)"
      using False by (simp add: fround_def Let_def pack_def)
    then show ?thesis using v by (auto simp: finite_fl_def)
  qed (simp add: fround_def finite_fl_def)
  then show "finite_fl (fround m q)" "\<bar>fval (fround m q)\<bar> \<le> 2 * \<bar>q\<bar> + 1" by auto
qed

lemma self_quotient: "finite_fl x \<Longrightarrow> \<not> is_zero x \<Longrightarrow> fdiv f64 x x = Num 1"
  using fround_integer[of 1] by (auto simp: finite_fl_def is_zero_def fdiv_def is_inf_def)

section \<open>The adjusted Rand index of one clustering under two labellings\<close>

lemma bump_count_map:
  "inj_on g (insert k (fst ` set cs)) \<Longrightarrow>
   bump_count (g k) (map (apfst g) cs) = map (apfst g) (bump_count k cs)"
  by (induction cs rule: bump_count.induct) (auto simp: inj_on_def)

lemma set_bump_count: "fst ` set (bump_count k cs) = insert k (fst ` set cs)"
  by (induction cs rule: bump_count.induct) auto

lemma count_all_map:
  assumes "inj_on g (set ks)"
  shows "count_all (map g ks) = map (apfst g) (count_all ks) \<and> fst ` set (count_all ks) = set ks"
  using assms
proof (induction ks rule: rev_induct)
  case (snoc k ks)
  then have "inj_on g (set ks)" by (auto simp: inj_on_def)
  then have ih: "count_all (map g ks) = map (apfst g) (count_all ks)" "fst ` set (count_all ks) = set ks"
    using snoc.IH by auto
  have "inj_on g (insert k (fst ` set (count_all ks)))" using snoc.prems ih(2) by simp
  from bump_count_map[OF this] show ?case using ih by (simp add: count_all_def set_bump_count)
qed (simp add: count_all_def)

lemma sum_comb2_map:
  assumes "inj_on g (set ks)"
  shows "sum_comb2 (count_all (map g ks)) = sum_comb2 (count_all ks)"
  using count_all_map[OF assms] by (simp add: sum_comb2_def comp_def case_prod_beta)

lemma count_total: "sum_list (map snd (count_all ks)) = length ks"
proof (induction ks rule: rev_induct)
  case (snoc k ks)
  have "sum_list (map snd (bump_count k cs)) = sum_list (map snd cs) + 1" for cs :: "('a \<times> nat) list"
    by (induction cs rule: bump_count.induct) auto
  with snoc show ?case by (simp add: count_all_def)
qed (simp add: count_all_def)

lemma sum_comb2_le: "sum_comb2 (count_all ks) \<le> length ks * length ks"
proof -
  have "sum_list (map (comb2 \<circ> snd) cs) \<le> sum_list (map snd cs) * sum_list (map snd cs)" for cs :: "('a \<times> nat) list"
  proof (induction cs)
    case (Cons c cs)
    have "comb2 (snd c) \<le> snd c * (snd c - 1)"
      unfolding comb2_def by (meson div_le_dividend le_trans mod_less_eq_dividend)
    also have "\<dots> \<le> snd c * snd c" by simp
    finally show ?case using Cons by (simp add: algebra_simps)
  qed simp
  from this[of "count_all ks"] show ?thesis
    unfolding sum_comb2_def count_total by (rule order_trans[OF mod_less_eq_dividend])
qed

lemma half_double:
  assumes "s < 2 ^ 52"
  shows "fmul f64 (flit f64 (1 / 2)) (fadd f64 (Num (of_nat s)) (Num (of_nat s))) = Num (of_nat s)"
proof -
  have h: "flit f64 (1 / 2) = Num (1 / 2)" using fround_dyadic[of 1 1] by (simp add: flit_def)
  have d: "fadd f64 (Num (of_nat s)) (Num (of_nat s)) = Num (of_nat (2 * s))"
    using fround_integer[of "int (2 * s)"] assms by (simp add: fadd_def is_inf_def)
  show ?thesis
    using fround_integer[of "int s"] assms unfolding h d
    by (cases "s = 0") (simp_all add: fmul_def is_inf_def is_zero_def fzero_def)
qed

lemma fdiv_finite:
  "finite_fl p \<Longrightarrow> 0 < t \<Longrightarrow>
   fdiv f64 p (Num t) = (if fval p = 0 then fzero (negative p) else fround f64 (fval p / t))"
  by (auto simp: finite_fl_def fdiv_def is_inf_def is_zero_def)

lemma fneg_finite: "finite_fl x \<Longrightarrow> finite_fl (fneg x) \<and> fval (fneg x) = - fval x"
  by (cases x) (simp_all add: finite_fl_def)

lemma fadd_finite: "finite_fl y \<Longrightarrow> fadd f64 (Num r) y = fround f64 (r + fval y)"
  by (auto simp: finite_fl_def fadd_def is_inf_def)

lemma index_finite:
  assumes "s < 2 ^ 52" "1 \<le> t" "t < 2 ^ 52"
  shows "finite_fl (fsub f64 (Num (of_nat s)) (fdiv f64 (fmul f64 (Num (of_nat s)) (Num (of_nat s))) (Num (of_nat t))))"
proof -
  have big: "too_big f64 = 2 ^ 1024" by (simp add: too_big_def f64_def pow2_def)
  have m: "fm_emin f64 \<le> 0" "1 \<le> fm_prec f64" by (simp_all add: f64_def)
  have sq: "(of_nat s * of_nat s :: rat) \<le> 2 ^ 104"
  proof -
    have "s * s \<le> 2 ^ 52 * 2 ^ 52" using assms(1) by (intro mult_le_mono) auto
    then have "(of_nat (s * s) :: rat) \<le> of_nat (2 ^ 52 * 2 ^ 52)" by (simp only: of_nat_le_iff)
    then show ?thesis by simp
  qed
  define p where "p = fmul f64 (Num (of_nat s)) (Num (of_nat s))"
  have p: "finite_fl p" "\<bar>fval p\<bar> \<le> 2 ^ 106"
    using fround_finite[OF _ m, of "of_nat s * of_nat s"] sq unfolding p_def
    by (auto simp: fmul_def is_inf_def is_zero_def fzero_def big finite_fl_def)
  define q where "q = fdiv f64 p (Num (of_nat t))"
  have t1: "(1 :: rat) \<le> of_nat t" using assms(2) by (metis of_nat_1 of_nat_le_iff)
  have quot: "\<bar>fval p / of_nat t\<bar> \<le> 2 ^ 106"
    proof -
    have "\<bar>fval p\<bar> / of_nat t \<le> \<bar>fval p\<bar> / 1" using t1 by (intro divide_left_mono) auto
    then show ?thesis using p(2) t1 by (simp add: abs_divide)
  qed
  have q: "finite_fl q" "\<bar>fval q\<bar> \<le> 2 ^ 108"
    using t1 fround_finite[OF _ m, of "fval p / of_nat t"] quot
    unfolding q_def fdiv_finite[OF p(1) less_le_trans[OF zero_less_one t1]]
    by (auto simp: big finite_fl_def fzero_def)
  have s1: "(of_nat s :: rat) \<le> 2 ^ 52"
    using assms(1) by (metis less_imp_le of_nat_le_iff of_nat_numeral of_nat_power)
  have "finite_fl (fadd f64 (Num (of_nat s)) (fneg q))"
  proof -
    have "2 * \<bar>of_nat s - fval q\<bar> + 1 \<le> 2 * (2 ^ 52 + 2 ^ 108) + 1"
      using q(2) s1 abs_triangle_ineq4[of "of_nat s" "fval q"] by simp
    also have "\<dots> < too_big f64" by (simp add: big)
    finally have "finite_fl (fround f64 (of_nat s - fval q))" by (rule fround_finite(1)[OF _ m])
    then show ?thesis using fneg_finite[OF q(1)] by (simp add: fadd_finite)
  qed
  then show ?thesis by (simp add: fsub_def q_def p_def)
qed

text \<open>
  The adjusted Rand index scores a clustering against any renaming of its labels with exactly
  1, for two or more items: the floating-point result is 1 whatever the rounding of the expected
  index is.
\<close>

theorem ari_renamed:
  assumes "2 \<le> length a" "length a < 2 ^ 26" "inj_on f (set a)"
  shows "adjusted_rand_index a (map f a) = Some (Num 1)"
proof -
  let ?S = "sum_comb2 (count_all a)" let ?T = "comb2 (length a)"
  have z: "zip a (map f a) = map (\<lambda>x. (x, f x)) a" by (simp add: zip_map2 zip_same_conv_map)
  have c: "sum_comb2 (ct_joint (contingency_of a (map f a))) = ?S"
    "sum_comb2 (ct_ai (contingency_of a (map f a))) = ?S" "sum_comb2 (ct_bj (contingency_of a (map f a))) = ?S"
    unfolding contingency_of_def Let_def z
    using sum_comb2_map[OF assms(3)] sum_comb2_map[of "\<lambda>x. (x, f x)" a]
    by (simp_all add: comp_def inj_on_def)
  have sq: "length a * length a < 2 ^ 26 * 2 ^ 26" using assms(2) by (intro mult_strict_mono) auto
  have s: "?S < 2 ^ 52" using sum_comb2_le[of a] sq by simp
  have t: "1 \<le> ?T" "?T < 2 ^ 52" 
  proof -
    have "2 * 1 \<le> length a * (length a - 1)" using assms(1) by (intro mult_le_mono) auto
    moreover have "length a * (length a - 1) < 2 ^ 52"
      using sq le_less_trans[OF mult_le_mono2[OF diff_le_self[of "length a" 1], of "length a"]] by simp
    ultimately have b: "2 \<le> length a * (length a - 1)" "length a * (length a - 1) < 2 ^ 52" by (simp_all only: mult_2 one_add_one)
    then have "?T = length a * (length a - 1) div 2" by (simp add: comb2_def)
    then show "1 \<le> ?T" "?T < 2 ^ 52" using b by linarith+
  qed
  have e: "of_integer f64 (int ?S) = Num (of_nat ?S)" "of_integer f64 (int ?T) = Num (of_nat ?T)"
    using s t by (simp_all add: of_integer_exact)
  obtain x where x: "x = fsub f64 (Num (of_nat ?S)) (fdiv f64 (fmul f64 (Num (of_nat ?S)) (Num (of_nat ?S))) (Num (of_nat ?T)))" by blast
  have m: "fmul f64 (flit f64 (1 / 2)) (fadd f64 (Num (of_nat ?S)) (Num (of_nat ?S))) = Num (of_nat ?S)"
    using s by (rule half_double)
  have ari: "adjusted_rand_index a (map f a)
      = Some (if flt (fabs x) (flit f64 (1 / 10 ^ 12)) then Num 1 else fdiv f64 x x)"
    using assms(1) unfolding adjusted_rand_index_def Let_def c e m x by auto
  have fin: "finite_fl x" unfolding x using s t by (rule index_finite)
  have "flt (fabs x) (flit f64 (1 / 10 ^ 12))" if "is_zero x"
  proof -
    have "fabs x = Num 0" using that by (auto simp: is_zero_def fabs_def)
    moreover have "flt (Num 0) (flit f64 (1 / 10 ^ 12))"
    proof -
      have "pow2 (fm_emin f64) \<le> pow2 (-40)" by (rule pow2_mono) (simp add: f64_def)
      also have "\<dots> \<le> 1 / 10 ^ 12" by (simp add: pow2_def)
      finally have "positive (flit f64 (1 / 10 ^ 12))"
        unfolding flit_def by (intro fround_positive) (simp_all add: f64_def)
      then show ?thesis by (cases "flit f64 (1 / 10 ^ 12)") (simp_all add: flt_def)
    qed
    ultimately show ?thesis by simp
  qed
  then show ?thesis using ari self_quotient[OF fin] by auto
qed

theorem ari_renamed_witness:
  "adjusted_rand_index [0, 1, 0, 2] (map (\<lambda>l. 7 - l) [0, 1, 0, 2]) = Some (Num 1)"
  by (rule ari_renamed) (simp_all add: inj_on_def)

text \<open>The index of one item is not a number, although the clusterings are identical.\<close>

lemma ari_one_item: "adjusted_rand_index [0] [0] = Some NaN"
proof -
  have c: "sum_comb2 (ct_joint (contingency_of [0] [0])) = 0" "sum_comb2 (ct_ai (contingency_of [0] [0])) = 0"
    "sum_comb2 (ct_bj (contingency_of [0] [0])) = 0" "comb2 (length [0 :: nat]) = 0"
    by (simp_all add: contingency_of_def count_all_def sum_comb2_def comb2_def)
  have z: "of_integer f64 (int 0) = Num 0" using of_integer_exact[of 0] by simp
  have n: "fdiv f64 (fmul f64 (Num 0) (Num 0)) (Num 0) = NaN"
    by (simp add: fmul_def fdiv_def is_zero_def is_inf_def fzero_def)
  have d: "fsub f64 x NaN = NaN" "fabs NaN = NaN" "flt NaN y = False" "fdiv f64 x NaN = NaN" for x y
    by (simp_all add: fsub_def fadd_def fabs_def flt_def fdiv_def)
  show ?thesis unfolding adjusted_rand_index_def Let_def c z n d by simp
qed

end
