(* ===== verification/Agent_Endpoint.thy ===== *)
theory Agent_Endpoint
  imports Edr_Telemetry Edr_Control
begin

text \<open>
  The endpoint agent \<open>crates/sigil-agent\<close>: configuration (\<open>config.rs\<close>), collectors
  (\<open>collector/*.rs\<close>), response actions (\<open>response/*.rs\<close>) on Linux, and the control stream
  (\<open>transport.rs\<close>). The host is a record of regular files, running processes and the firewall
  tool's successful commands; what the operating system answers to one command is a record of
  answers. SHA-256, the encoder of JSON, fresh ULIDs and the clock are parameters. An endpoint
  event carries no id here, nothing reads it.
\<close>

section \<open>Configuration\<close>

record toggles =
  tg_process :: bool
  tg_file :: bool
  tg_network :: bool
  tg_persistence :: bool

record agent_config =
  ac_server_url :: string
  ac_enrollment_token :: string
  ac_watch_paths :: "string list"
  ac_quarantine_dir :: string
  ac_tls_ca :: "string option"
  ac_state_file :: "string option"
  ac_poll_secs :: nat
  ac_batch_size :: nat
  ac_collectors :: toggles

definition toggles_default :: toggles where
  "toggles_default = \<lparr>tg_process = True, tg_file = True, tg_network = True, tg_persistence = True\<rparr>"

definition minimal :: "string \<Rightarrow> string \<Rightarrow> agent_config" where
  "minimal url token =
     \<lparr>ac_server_url = url, ac_enrollment_token = token,
      ac_watch_paths = [''/etc'', ''/usr/local/bin'', ''/tmp''], ac_quarantine_dir = ''./sigil-quarantine'',
      ac_tls_ca = None, ac_state_file = None, ac_poll_secs = 5, ac_batch_size = 256,
      ac_collectors = toggles_default\<rparr>"

definition state_path :: "agent_config \<Rightarrow> string" where
  "state_path c = (case ac_state_file c of Some p \<Rightarrow> p | None \<Rightarrow> ''./sigil-agent-state.json'')"

record agent_identity =
  ai_agent :: string
  ai_token :: string
  ai_server :: string

text \<open>The configuration of \<open>sigil-agent enroll\<close>; \<open>None\<close> exits with an error.\<close>

definition enroll_config :: "agent_config option \<Rightarrow> string option \<Rightarrow> string option \<Rightarrow> agent_config option" where
  "enroll_config loaded server token =
     (let c0 = (case loaded of Some c \<Rightarrow> c | None \<Rightarrow> minimal (unwrap_or [] server) (unwrap_or [] token));
          c1 = (case server of Some s \<Rightarrow> c0\<lparr>ac_server_url := s\<rparr> | None \<Rightarrow> c0);
          c2 = (case token of Some t \<Rightarrow> c1\<lparr>ac_enrollment_token := t\<rparr> | None \<Rightarrow> c1)
      in if ac_server_url c2 = [] then None else Some c2)"

definition enroll_message ::
  "(string \<Rightarrow> string) \<Rightarrow> string option \<Rightarrow> string option \<Rightarrow> string \<Rightarrow> agent_config \<Rightarrow> enroll_request" where
  "enroll_message sha host os_version version c =
     (let h = unwrap_or ''unknown'' host
      in \<lparr>eq_token = ac_enrollment_token c, eq_hostname = h, eq_os = ''linux'',
          eq_os_version = unwrap_or [] os_version, eq_version = version,
          eq_fingerprint = sha (h @ ''linux'')\<rparr>)"

definition granted_identity :: "agent_config \<Rightarrow> enroll_reply \<Rightarrow> agent_identity" where
  "granted_identity c r =
     \<lparr>ai_agent = ep_agent r, ai_token = ep_session_token r, ai_server = ac_server_url c\<rparr>"

section \<open>The host\<close>

record file_node =
  fn_bytes :: "u8 list"
  fn_mode :: nat

record os_process =
  op_pid :: nat
  op_parent :: "nat option"
  op_name :: string
  op_exe :: "string option"
  op_cmd :: "string list"
  op_user :: "string option"

record host =
  ho_files :: "string \<rightharpoonup> file_node"
  ho_procs :: "os_process list"
  ho_firewall :: "(string list \<times> string) list"

datatype tool_outcome = SpawnError string | Exited bool string | WaitError string

record os_answers =
  an_ulid :: string
  an_now :: u64
  an_tool :: "string list \<Rightarrow> string \<Rightarrow> tool_outcome"
  an_kill :: "nat \<Rightarrow> bool"
  an_mkdir_error :: "string option"
  an_rename_ok :: bool
  an_copy_error :: "string option"
  an_remove_error :: "string option"
  an_chmod_ok :: bool
  an_sidecar_ok :: bool
  an_read_error :: "string option"

type_synonym digest = "u8 list \<Rightarrow> string"

definition sha256_file :: "digest \<Rightarrow> (string \<rightharpoonup> file_node) \<Rightarrow> string \<Rightarrow> nat \<Rightarrow> string option" where
  "sha256_file sha files path max_bytes =
     (case files path of
        None \<Rightarrow> None
      | Some n \<Rightarrow> if max_bytes < length (fn_bytes n) then None else Some (sha (fn_bytes n)))"

section \<open>Collectors\<close>

definition new_endpoint_event :: "u64 \<Rightarrow> event_kind \<Rightarrow> endpoint_event" where
  "new_endpoint_event now k =
     \<lparr>ee_ts = now, ee_kind = k, ee_process = None, ee_parent = None, ee_file = None, ee_network = None,
      ee_dns = None, ee_module = None, ee_registry = None, ee_persistence = None, ee_user = [], ee_extra = []\<rparr>"

definition bare_process :: "nat \<Rightarrow> process_info" where
  "bare_process pid =
     \<lparr>pr_pid = pid, pr_ppid = 0, pr_name = [], pr_path = [], pr_cmdline = [], pr_hash = [], pr_user = []\<rparr>"

subsection \<open>Processes\<close>

record known_process =
  kp_name :: string
  kp_path :: string

record process_collector =
  pc_known :: "(nat \<times> known_process) list"
  pc_primed :: bool

definition process_collector_default :: process_collector where
  "process_collector_default = \<lparr>pc_known = [], pc_primed = False\<rparr>"

definition known_of :: "os_process \<Rightarrow> known_process" where
  "known_of p = \<lparr>kp_name = op_name p, kp_path = unwrap_or [] (op_exe p)\<rparr>"

definition start_event :: "digest \<Rightarrow> u64 \<Rightarrow> host \<Rightarrow> os_process \<Rightarrow> endpoint_event" where
  "start_event sha now h p =
     (let ppid = unwrap_or 0 (op_parent p); user = unwrap_or [] (op_user p);
          hash = (case op_exe p of
                    None \<Rightarrow> []
                  | Some x \<Rightarrow> unwrap_or [] (sha256_file sha (ho_files h) x (50 * 1024 * 1024)));
          ev = (new_endpoint_event now ProcessStart)
            \<lparr>ee_user := user,
             ee_process := Some \<lparr>pr_pid = op_pid p, pr_ppid = ppid, pr_name = op_name p,
               pr_path = unwrap_or [] (op_exe p), pr_cmdline = join '' '' (op_cmd p), pr_hash = hash,
               pr_user = user\<rparr>\<rparr>
      in if ppid = 0 then ev
         else case find (\<lambda>q. op_pid q = ppid) (ho_procs h) of
                None \<Rightarrow> ev
              | Some q \<Rightarrow>
                  ev\<lparr>ee_parent := Some ((bare_process ppid)
                       \<lparr>pr_name := op_name q, pr_path := unwrap_or [] (op_exe q)\<rparr>)\<rparr>)"

definition stop_event :: "u64 \<Rightarrow> nat \<Rightarrow> known_process \<Rightarrow> endpoint_event" where
  "stop_event now pid k =
     (new_endpoint_event now ProcessStop)
       \<lparr>ee_process := Some ((bare_process pid)\<lparr>pr_name := kp_name k, pr_path := kp_path k\<rparr>)\<rparr>"

text \<open>The process table has one entry per pid; its order, and that of the known map, is any.\<close>

definition process_poll ::
  "digest \<Rightarrow> u64 \<Rightarrow> host \<Rightarrow> process_collector \<Rightarrow> process_collector \<times> endpoint_event list" where
  "process_poll sha now h c =
     (let current = fold (\<lambda>p. hash_insert (op_pid p) (known_of p)) (ho_procs h) [];
          started = (if pc_primed c
                     then map (start_event sha now h)
                            (filter (\<lambda>p. map_of (pc_known c) (op_pid p) = None) (ho_procs h))
                     else []);
          stopped = (if pc_primed c
                     then map (\<lambda>(pid, k). stop_event now pid k)
                            (filter (\<lambda>(pid, k). map_of current pid = None) (pc_known c))
                     else [])
      in (\<lparr>pc_known = current, pc_primed = True\<rparr>, started @ stopped))"

subsection \<open>Connections and persistence points\<close>

record key_collector =
  kc_seen :: "string set"
  kc_primed :: bool

definition key_collector_default :: key_collector where
  "key_collector_default = \<lparr>kc_seen = {}, kc_primed = False\<rparr>"

record tcp_socket =
  tk_local_addr :: string
  tk_local_port :: nat
  tk_remote_addr :: string
  tk_remote_port :: nat
  tk_pids :: "nat list"

definition connected :: "tcp_socket \<Rightarrow> bool" where
  "connected s \<longleftrightarrow>
     tk_remote_port s \<noteq> 0 \<and> tk_remote_addr s \<noteq> ''0.0.0.0'' \<and> tk_remote_addr s \<noteq> ''::''"

definition first_pid :: "tcp_socket \<Rightarrow> nat" where
  "first_pid s = (case tk_pids s of [] \<Rightarrow> 0 | p # _ \<Rightarrow> p)"

definition socket_key :: "tcp_socket \<Rightarrow> string" where
  "socket_key s =
     tk_local_addr s @ '':'' @ show_nat (tk_local_port s) @ ''->'' @ tk_remote_addr s @ '':'' @
     show_nat (tk_remote_port s) @ ''/'' @ show_nat (first_pid s)"

definition connect_event :: "u64 \<Rightarrow> tcp_socket \<Rightarrow> endpoint_event" where
  "connect_event now s =
     (let ev = (new_endpoint_event now NetworkConnect)
            \<lparr>ee_network := Some \<lparr>ni_proto = ''tcp'', ni_local_addr = tk_local_addr s,
               ni_local_port = tk_local_port s, ni_remote_addr = tk_remote_addr s,
               ni_remote_port = tk_remote_port s, ni_direction = ''outbound''\<rparr>\<rparr>
      in if first_pid s = 0 then ev else ev\<lparr>ee_process := Some (bare_process (first_pid s))\<rparr>)"

text \<open>\<open>None\<close>: the sockets cannot be read; entries of other protocols are skipped before.\<close>

definition network_poll ::
  "u64 \<Rightarrow> tcp_socket list option \<Rightarrow> key_collector \<Rightarrow> key_collector \<times> endpoint_event list" where
  "network_poll now sockets c =
     (case sockets of
        None \<Rightarrow> (c, [])
      | Some ss \<Rightarrow>
          (let cs = filter connected ss
           in (\<lparr>kc_seen = set (map socket_key cs), kc_primed = True\<rparr>,
               if kc_primed c
               then map (connect_event now) (filter (\<lambda>s. socket_key s \<notin> kc_seen c) cs) else [])))"

record location =
  lo_kind :: string
  lo_dir :: string

definition locations :: "location list" where
  "locations =
     [\<lparr>lo_kind = ''cron'', lo_dir = ''/etc/cron.d''\<rparr>,
      \<lparr>lo_kind = ''cron'', lo_dir = ''/var/spool/cron/crontabs''\<rparr>,
      \<lparr>lo_kind = ''systemd'', lo_dir = ''/etc/systemd/system''\<rparr>,
      \<lparr>lo_kind = ''systemd'', lo_dir = ''/lib/systemd/system''\<rparr>]"

text \<open>A directory lists the names of its entries; an entry's path is the directory with its name.\<close>

definition autostart_entries :: "(string \<Rightarrow> string list option) \<Rightarrow> (location \<times> string) list" where
  "autostart_entries read_dir =
     concat (map (\<lambda>l. map (\<lambda>name. (l, name)) (unwrap_or [] (read_dir (lo_dir l)))) locations)"

definition entry_path :: "location \<times> string \<Rightarrow> string" where
  "entry_path e = lo_dir (fst e) @ ''/'' @ snd e"

definition entry_key :: "location \<times> string \<Rightarrow> string" where
  "entry_key e = lo_kind (fst e) @ ''::'' @ entry_path e"

definition persistence_event :: "u64 \<Rightarrow> location \<times> string \<Rightarrow> endpoint_event" where
  "persistence_event now e =
     (new_endpoint_event now PersistenceAdd)
       \<lparr>ee_persistence := Some \<lparr>pi_kind = lo_kind (fst e), pi_name = snd e, pi_target = entry_path e\<rparr>\<rparr>"

definition persistence_poll ::
  "u64 \<Rightarrow> (string \<Rightarrow> string list option) \<Rightarrow> key_collector \<Rightarrow> key_collector \<times> endpoint_event list" where
  "persistence_poll now read_dir c =
     (let es = autostart_entries read_dir
      in (\<lparr>kc_seen = set (map entry_key es), kc_primed = True\<rparr>,
          if kc_primed c
          then map (persistence_event now) (filter (\<lambda>e. entry_key e \<notin> kc_seen c) es) else []))"

subsection \<open>Files\<close>

datatype notify_kind = CreateNote | ModifyNote | RemoveNote | OtherNote

fun note_kind :: "notify_kind \<Rightarrow> event_kind option" where
  "note_kind CreateNote = Some FileCreate"
| "note_kind ModifyNote = Some FileModify"
| "note_kind RemoveNote = Some FileDelete"
| "note_kind OtherNote = None"

definition file_event :: "digest \<Rightarrow> u64 \<Rightarrow> host \<Rightarrow> event_kind \<Rightarrow> string \<Rightarrow> endpoint_event" where
  "file_event sha now h k path =
     (new_endpoint_event now k)
       \<lparr>ee_file := Some
          \<lparr>fi_path = path,
           fi_hash = (if k = FileDelete then []
                      else unwrap_or [] (sha256_file sha (ho_files h) path (25 * 1024 * 1024))),
           fi_size = (case ho_files h path of Some n \<Rightarrow> length (fn_bytes n) | None \<Rightarrow> 0), fi_mode = []\<rparr>\<rparr>"

text \<open>The queue of the watcher: errors, and events with their paths.\<close>

definition file_poll ::
  "digest \<Rightarrow> u64 \<Rightarrow> host \<Rightarrow> (string + notify_kind \<times> string list) list \<Rightarrow> endpoint_event list" where
  "file_poll sha now h queue =
     concat (map (\<lambda>r. case r of
                        Inl _ \<Rightarrow> []
                      | Inr (k, paths) \<Rightarrow>
                          (case note_kind k of None \<Rightarrow> [] | Some ek \<Rightarrow> map (file_event sha now h ek) paths))
              queue)"

subsection \<open>All collectors\<close>

datatype collector =
    ProcessCollector process_collector
  | FileCollector
  | NetworkCollector key_collector
  | PersistenceCollector key_collector

text \<open>What the collectors observe in one round.\<close>

record view_of_host =
  vh_now :: u64
  vh_host :: host
  vh_notes :: "(string + notify_kind \<times> string list) list"
  vh_sockets :: "tcp_socket list option"
  vh_dirs :: "string \<Rightarrow> string list option"

definition enabled_collectors :: "bool \<Rightarrow> agent_config \<Rightarrow> collector list" where
  "enabled_collectors watcher_ok c =
     (let t = ac_collectors c
      in (if tg_process t then [ProcessCollector process_collector_default] else []) @
         (if tg_file t \<and> watcher_ok then [FileCollector] else []) @
         (if tg_network t then [NetworkCollector key_collector_default] else []) @
         (if tg_persistence t then [PersistenceCollector key_collector_default] else []))"

fun poll :: "digest \<Rightarrow> view_of_host \<Rightarrow> collector \<Rightarrow> collector \<times> endpoint_event list" where
  "poll sha v (ProcessCollector c) = apfst ProcessCollector (process_poll sha (vh_now v) (vh_host v) c)"
| "poll sha v FileCollector = (FileCollector, file_poll sha (vh_now v) (vh_host v) (vh_notes v))"
| "poll sha v (NetworkCollector c) = apfst NetworkCollector (network_poll (vh_now v) (vh_sockets v) c)"
| "poll sha v (PersistenceCollector c) =
     apfst PersistenceCollector (persistence_poll (vh_now v) (vh_dirs v) c)"

text \<open>One round of the collector thread, with the events it sends while the channel is open.\<close>

definition collect_round :: "digest \<Rightarrow> view_of_host \<Rightarrow> collector list \<Rightarrow> collector list \<times> endpoint_event list" where
  "collect_round sha v cs =
     (map (fst \<circ> poll sha v) cs, concat (map (snd \<circ> poll sha v) cs))"

end
