(* ===== verification/Agent_Control.thy ===== *)
theory Agent_Control
  imports Agent_Endpoint
begin

text \<open>
  The agent's response actions (\<open>response/*.rs\<close>, Linux) and its control stream (\<open>transport.rs\<close>).
  A stream is driven by inputs, one per branch of the select loop; a send fails when the stream's
  sending half is closed. Commands run on tasks of their own: a command is received in one step
  and executed in a later one, atomically.
\<close>

section \<open>Response actions\<close>

definition pid_exists :: "nat \<Rightarrow> host \<Rightarrow> bool" where
  "pid_exists pid h \<longleftrightarrow> list_ex (\<lambda>p. op_pid p = pid) (ho_procs h)"

definition end_processes :: "(os_process \<Rightarrow> bool) \<Rightarrow> host \<Rightarrow> host" where
  "end_processes f h = h\<lparr>ho_procs := filter (\<lambda>p. \<not> f p) (ho_procs h)\<rparr>"

definition image_matches :: "digest \<Rightarrow> host \<Rightarrow> string \<Rightarrow> os_process \<Rightarrow> bool" where
  "image_matches sha h target p \<longleftrightarrow>
     (case op_exe p of
        None \<Rightarrow> False
      | Some x \<Rightarrow> sha256_file sha (ho_files h) x (200 * 1024 * 1024) = Some target)"

definition kill_run ::
  "digest \<Rightarrow> os_answers \<Rightarrow> (nat \<times> string) option \<Rightarrow> host \<Rightarrow> host \<times> bool \<times> string" where
  "kill_run sha an k h =
     (case k of
        None \<Rightarrow> (h, False, ''missing kill params'')
      | Some (pid, hash) \<Rightarrow>
          if pid \<noteq> 0 then
            if \<not> pid_exists pid h then (h, False, ''no process with pid '' @ show_nat pid)
            else if an_kill an pid
                 then (end_processes (\<lambda>p. op_pid p = pid) h, True, ''killed pid '' @ show_nat pid)
                 else (h, False, ''failed to kill pid '' @ show_nat pid)
          else if hash \<noteq> [] then
            (let target = to_lowercase hash; matched = filter (image_matches sha h target) (ho_procs h);
                 killed = filter (\<lambda>p. an_kill an (op_pid p)) matched
             in if matched = [] then (h, False, ''no running process matched hash '' @ take 12 target)
                else (end_processes (\<lambda>p. image_matches sha h target p \<and> an_kill an (op_pid p)) h, True,
                      ''killed '' @ show_nat (length killed) @ ''/'' @ show_nat (length matched) @
                      '' process(es) matching hash''))
          else (h, False, ''kill requires a pid or hash_sha256''))"

subsection \<open>Quarantine\<close>

text \<open>The last component of a path, unless it is the parent directory.\<close>

definition path_file_name :: "string \<Rightarrow> string option" where
  "path_file_name p =
     (case rev (filter (\<lambda>c. c \<noteq> [] \<and> c \<noteq> ''.'') (split_char CHR ''/'' p)) of
        [] \<Rightarrow> None
      | c # _ \<Rightarrow> if c = ''..'' then None else Some c)"

definition join_path :: "string \<Rightarrow> string \<Rightarrow> string" where
  "join_path dir name = (if dir = [] \<or> last dir = CHR ''/'' then dir @ name else dir @ ''/'' @ name)"

text \<open>A file name without its last extension; a leading dot starts no extension.\<close>

definition file_stem :: "string \<Rightarrow> string" where
  "file_stem name =
     (let r = rev name; ext = takeWhile (\<lambda>c. c \<noteq> CHR ''.'') r; rest = drop (length ext) r
      in if rest = [] \<or> tl rest = [] then name else rev (tl rest))"

definition json_of_sidecar :: "string \<Rightarrow> string \<Rightarrow> json" where
  "json_of_sidecar path hash =
     JObject [(''hash_sha256'', JString hash), (''original_path'', JString path)]"

definition quarantine_name :: "os_answers \<Rightarrow> string \<Rightarrow> string" where
  "quarantine_name an path = an_ulid an @ ''-'' @ unwrap_or ''file'' (path_file_name path)"

definition quarantine_dst :: "os_answers \<Rightarrow> string \<Rightarrow> string \<Rightarrow> string" where
  "quarantine_dst an dir path = join_path dir (quarantine_name an path)"

definition sidecar_dst :: "os_answers \<Rightarrow> string \<Rightarrow> string \<Rightarrow> string" where
  "sidecar_dst an dir path = join_path dir (file_stem (quarantine_name an path) @ ''.meta.json'')"

text \<open>
  The move: a rename, or a copy and a removal. The value is the error, if any, and the files.
  The encoder \<open>enc\<close> writes the sidecar; a file written anew has mode 0644, 420.
\<close>

definition move_file ::
  "os_answers \<Rightarrow> string \<Rightarrow> string \<Rightarrow> file_node \<Rightarrow> (string \<rightharpoonup> file_node) \<Rightarrow> (string \<rightharpoonup> file_node) \<times> string option" where
  "move_file an src dst n files =
     (if an_rename_ok an then (files(src := None, dst \<mapsto> n), None)
      else case an_copy_error an of
             Some e \<Rightarrow> (files, Some (''copy to quarantine: '' @ e))
           | None \<Rightarrow>
               (case an_remove_error an of
                  Some e \<Rightarrow> (files(dst \<mapsto> n), Some (''remove original after copy: '' @ e))
                | None \<Rightarrow> (files(dst \<mapsto> n, src := None), None)))"

definition quarantine_run ::
  "(json \<Rightarrow> u8 list) \<Rightarrow> os_answers \<Rightarrow> (string \<times> string) option \<Rightarrow> string \<Rightarrow> host \<Rightarrow> host \<times> bool \<times> string" where
  "quarantine_run enc an q dir h =
     (case q of
        None \<Rightarrow> (h, False, ''missing quarantine params'')
      | Some (path, hash) \<Rightarrow>
          if path = [] then (h, False, ''quarantine requires a path'')
          else case ho_files h path of
            None \<Rightarrow> (h, False, ''no such file: '' @ path)
          | Some n \<Rightarrow>
              (case an_mkdir_error an of
                 Some e \<Rightarrow> (h, False, ''create quarantine dir: '' @ e)
               | None \<Rightarrow>
                   (let dst = quarantine_dst an dir path
                    in case move_file an path dst n (ho_files h) of
                         (files, Some e) \<Rightarrow> (h\<lparr>ho_files := files\<rparr>, False, e)
                       | (files, None) \<Rightarrow>
                           (let f1 = (if an_chmod_ok an then files(dst \<mapsto> n\<lparr>fn_mode := 0\<rparr>) else files);
                                f2 = (if an_sidecar_ok an
                                      then f1(sidecar_dst an dir path \<mapsto>
                                                \<lparr>fn_bytes = enc (json_of_sidecar path hash), fn_mode = 420\<rparr>)
                                      else f1)
                            in (h\<lparr>ho_files := f2\<rparr>, True, ''quarantined '' @ path @ '' -> '' @ dst)))))"

subsection \<open>Isolation\<close>

definition allowlist :: "string list option \<Rightarrow> string \<Rightarrow> string list" where
  "allowlist cidrs control_host =
     [''127.0.0.1'', ''::1''] @ (if control_host = [] then [] else [control_host]) @ unwrap_or [] cidrs"

definition line_end :: string where
  "line_end = [CHR 0x0A]"

definition ruleset_head :: string where
  "ruleset_head =
     ''table inet sigil_isolate {'' @ line_end @
     ''  chain output {'' @ line_end @
     ''    type filter hook output priority 0; policy drop;'' @ line_end @
     ''    ct state established,related accept'' @ line_end @
     ''    oifname '' @ [CHR 0x22] @ ''lo'' @ [CHR 0x22] @ '' accept'' @ line_end"

definition accept_rule :: "string \<Rightarrow> string" where
  "accept_rule a = ''    ip daddr '' @ a @ '' accept''"

definition ruleset :: "string list \<Rightarrow> string" where
  "ruleset allow =
     ruleset_head @ concat (map (\<lambda>a. accept_rule a @ line_end) allow) @ ''  }'' @ line_end @ ''}'' @ line_end"

text \<open>A command of the firewall tool that succeeded is recorded with its standard input.\<close>

definition tool_ran :: "string list \<Rightarrow> string \<Rightarrow> host \<Rightarrow> host" where
  "tool_ran args input h = h\<lparr>ho_firewall := ho_firewall h @ [(args, input)]\<rparr>"

definition apply_isolation :: "os_answers \<Rightarrow> string list \<Rightarrow> host \<Rightarrow> host \<times> bool \<times> string" where
  "apply_isolation an allow h =
     (case an_tool an [''nft'', ''-f'', ''-''] (ruleset allow) of
        SpawnError e \<Rightarrow> (h, False, ''spawn nft: '' @ e)
      | Exited True s \<Rightarrow>
          (tool_ran [''nft'', ''-f'', ''-''] (ruleset allow) h, True,
           ''host isolated (allow: '' @ join '', '' allow @ '')'')
      | Exited False s \<Rightarrow> (h, False, ''nft exited '' @ s)
      | WaitError e \<Rightarrow> (h, False, ''nft wait: '' @ e))"

definition isolate_run ::
  "os_answers \<Rightarrow> string list option \<Rightarrow> string \<Rightarrow> host \<Rightarrow> host \<times> bool \<times> string" where
  "isolate_run an cidrs control_host h = apply_isolation an (allowlist cidrs control_host) h"

definition tool_run :: "os_answers \<Rightarrow> string list \<Rightarrow> host \<Rightarrow> host \<times> bool \<times> string" where
  "tool_run an args h =
     (case an_tool an args [] of
        SpawnError e \<Rightarrow> (h, False, hd args @ '': '' @ e)
      | Exited True s \<Rightarrow> (tool_ran args [] h, True, join '' '' args @ '' ok'')
      | Exited False s \<Rightarrow> (h, False, join '' '' args @ '' exited '' @ s)
      | WaitError e \<Rightarrow> (h, False, hd args @ '': '' @ e))"

definition unisolate_run :: "os_answers \<Rightarrow> host \<Rightarrow> host \<times> bool \<times> string" where
  "unisolate_run an h = tool_run an [''nft'', ''delete'', ''table'', ''inet'', ''sigil_isolate''] h"

subsection \<open>Fetch\<close>

definition fetch_run ::
  "os_answers \<Rightarrow> (string \<times> nat) option \<Rightarrow> host \<Rightarrow> bool \<times> string \<times> u8 list" where
  "fetch_run an f h =
     (case f of
        None \<Rightarrow> (False, ''missing fetch params'', [])
      | Some (path, max_bytes) \<Rightarrow>
          if path = [] then (False, ''fetch requires a path'', [])
          else
            (let limit = (if max_bytes = 0 then 1024 * 1024 else max_bytes)
             in case (ho_files h path, an_read_error an) of
                  (Some n, None) \<Rightarrow>
                    (let truncated = limit < length (fn_bytes n);
                         bytes = (if truncated then take limit (fn_bytes n) else fn_bytes n)
                     in (True, ''read '' @ show_nat (length bytes) @ '' bytes from '' @ path @
                               (if truncated then '' (truncated)'' else []), bytes))
                | (_, e) \<Rightarrow> (False, ''read '' @ path @ '': '' @ unwrap_or ''not found'' e, [])))"

subsection \<open>Dispatch\<close>

record response_ctx =
  rc_quarantine_dir :: string
  rc_control_host :: string

text \<open>The payload of a command, for the kind the executor asks for.\<close>

fun kill_of :: "command_payload \<Rightarrow> (nat \<times> string) option" where
  "kill_of (Kill pid hash) = Some (pid, hash)"
| "kill_of _ = None"

fun quarantine_of :: "command_payload \<Rightarrow> (string \<times> string) option" where
  "quarantine_of (Quarantine path hash) = Some (path, hash)"
| "quarantine_of _ = None"

fun isolate_of :: "command_payload \<Rightarrow> string list option" where
  "isolate_of (Isolate cidrs) = Some cidrs"
| "isolate_of _ = None"

fun fetch_of :: "command_payload \<Rightarrow> (string \<times> nat) option" where
  "fetch_of (Fetch path max_bytes) = Some (path, max_bytes)"
| "fetch_of _ = None"

record responder =
  rs_host :: host
  rs_isolated :: bool

definition command_report :: "command \<Rightarrow> bool \<Rightarrow> string \<Rightarrow> u8 list \<Rightarrow> command_result" where
  "command_report cmd ok message payload =
     \<lparr>cr_id = co_id cmd, cr_ok = ok, cr_message = message, cr_payload = payload\<rparr>"

definition execute ::
  "digest \<Rightarrow> (json \<Rightarrow> u8 list) \<Rightarrow> os_answers \<Rightarrow> response_ctx \<Rightarrow> command \<Rightarrow> responder \<Rightarrow> responder \<times> command_result" where
  "execute sha enc an ctx cmd r =
     (let h = rs_host r; p = co_payload cmd
      in case co_type cmd of
           KillProcess \<Rightarrow>
             (case kill_run sha an (kill_of p) h of
                (h', ok, m) \<Rightarrow> (r\<lparr>rs_host := h'\<rparr>, command_report cmd ok m []))
         | QuarantineFile \<Rightarrow>
             (case quarantine_run enc an (quarantine_of p) (rc_quarantine_dir ctx) h of
                (h', ok, m) \<Rightarrow> (r\<lparr>rs_host := h'\<rparr>, command_report cmd ok m []))
         | IsolateHost \<Rightarrow>
             (case isolate_run an (isolate_of p) (rc_control_host ctx) h of
                (h', ok, m) \<Rightarrow>
                  (\<lparr>rs_host = h', rs_isolated = (if ok then True else rs_isolated r)\<rparr>, command_report cmd ok m []))
         | UnisolateHost \<Rightarrow>
             (case unisolate_run an h of
                (h', ok, m) \<Rightarrow>
                  (\<lparr>rs_host = h', rs_isolated = (if ok then False else rs_isolated r)\<rparr>, command_report cmd ok m []))
         | FetchFile \<Rightarrow> (case fetch_run an (fetch_of p) h of (ok, m, b) \<Rightarrow> (r, command_report cmd ok m b))
         | Unspecified \<Rightarrow> (r, command_report cmd False ''unspecified command'' []))"

section \<open>The control stream\<close>

text \<open>The host of a \<open>scheme://host:port\<close> URL.\<close>

definition host_only :: "string \<Rightarrow> string" where
  "host_only url =
     (let no_scheme = (case split_once ''://'' url of
                         None \<Rightarrow> url
                       | Some (_, r) \<Rightarrow> (case split_once ''://'' r of None \<Rightarrow> r | Some (l, _) \<Rightarrow> l))
      in takeWhile (\<lambda>c. c \<noteq> CHR ''/'' \<and> c \<noteq> CHR '':'') no_scheme)"

definition response_ctx_of :: "agent_config \<Rightarrow> response_ctx" where
  "response_ctx_of c =
     \<lparr>rc_quarantine_dir = ac_quarantine_dir c, rc_control_host = host_only (ac_server_url c)\<rparr>"

datatype up_message =
    UpHello string string
  | UpTelemetry "endpoint_event list"
  | UpHeartbeat bool
  | UpResult command_result

datatype down_message =
    HelloAck bool string
  | HeartbeatAck
  | DownCommand command
  | DownEmpty

text \<open>The hello exchange: the message sent and, if the stream opens, no error.\<close>

definition hello :: "agent_identity \<Rightarrow> up_message" where
  "hello i = UpHello (ai_agent i) (ai_token i)"

definition hello_reply :: "(string + down_message) option \<Rightarrow> string option" where
  "hello_reply m =
     (case m of
        Some (Inr (HelloAck True _)) \<Rightarrow> None
      | Some (Inr (HelloAck False e)) \<Rightarrow> Some (''hello rejected: '' @ e)
      | Some (Inr _) \<Rightarrow> Some ''expected HelloAck''
      | Some (Inl e) \<Rightarrow> Some (''stream error: '' @ e)
      | None \<Rightarrow> Some ''stream closed before HelloAck'')"

record agent_stream =
  sm_batch :: "endpoint_event list"
  sm_sent :: "up_message list"
  sm_open :: bool
  sm_running :: "command list"
  sm_responder :: responder

datatype stream_input =
    Observed endpoint_event
  | CollectorsGone
  | FlushTick
  | HeartbeatTick
  | Received down_message
  | StreamError string
  | ServerClosed
  | SendClosed
  | CommandDone nat os_answers

datatype stream_end = Closed | SessionError string

definition send_up :: "up_message \<Rightarrow> string \<Rightarrow> agent_stream \<Rightarrow> agent_stream \<times> stream_end option" where
  "send_up m what s =
     (if sm_open s then (s\<lparr>sm_sent := sm_sent s @ [m]\<rparr>, None) else (s, Some (SessionError what)))"

definition send_batch :: "agent_stream \<Rightarrow> agent_stream \<times> stream_end option" where
  "send_batch s = send_up (UpTelemetry (sm_batch s)) ''send telemetry'' (s\<lparr>sm_batch := []\<rparr>)"

definition finish_command ::
  "digest \<Rightarrow> (json \<Rightarrow> u8 list) \<Rightarrow> response_ctx \<Rightarrow> nat \<Rightarrow> os_answers \<Rightarrow> agent_stream \<Rightarrow> agent_stream" where
  "finish_command sha enc ctx k an s =
     (if k < length (sm_running s) then
        (case execute sha enc an ctx (sm_running s ! k) (sm_responder s) of
           (r, res) \<Rightarrow>
             fst (send_up (UpResult res) []
                    (s\<lparr>sm_responder := r, sm_running := take k (sm_running s) @ drop (Suc k) (sm_running s)\<rparr>)))
      else s)"

text \<open>One turn of the loop; a value \<open>Some e\<close> ends the session.\<close>

definition stream_step ::
  "digest \<Rightarrow> (json \<Rightarrow> u8 list) \<Rightarrow> response_ctx \<Rightarrow> nat \<Rightarrow> stream_input \<Rightarrow> agent_stream \<Rightarrow> agent_stream \<times> stream_end option" where
  "stream_step sha enc ctx batch_size i s =
     (case i of
        Observed ev \<Rightarrow>
          (let s' = s\<lparr>sm_batch := sm_batch s @ [ev]\<rparr>
           in if batch_size \<le> length (sm_batch s') then send_batch s' else (s', None))
      | CollectorsGone \<Rightarrow> (s, Some Closed)
      | FlushTick \<Rightarrow> if sm_batch s = [] then (s, None) else send_batch s
      | HeartbeatTick \<Rightarrow> send_up (UpHeartbeat (rs_isolated (sm_responder s))) ''send heartbeat'' s
      | Received (DownCommand cmd) \<Rightarrow> (s\<lparr>sm_running := sm_running s @ [cmd]\<rparr>, None)
      | Received _ \<Rightarrow> (s, None)
      | StreamError e \<Rightarrow> (s, Some (SessionError (''stream error: '' @ e)))
      | ServerClosed \<Rightarrow> (s, Some Closed)
      | SendClosed \<Rightarrow> (s\<lparr>sm_open := False\<rparr>, None)
      | CommandDone k an \<Rightarrow> (finish_command sha enc ctx k an s, None))"

fun stream_run ::
  "digest \<Rightarrow> (json \<Rightarrow> u8 list) \<Rightarrow> response_ctx \<Rightarrow> nat \<Rightarrow> stream_input list \<Rightarrow> agent_stream \<Rightarrow> agent_stream \<times> stream_end option" where
  "stream_run sha enc ctx n [] s = (s, None)"
| "stream_run sha enc ctx n (i # is) s =
     (case stream_step sha enc ctx n i s of
        (s', Some e) \<Rightarrow> (s', Some e)
      | (s', None) \<Rightarrow> stream_run sha enc ctx n is s')"

definition stream_open :: "responder \<Rightarrow> agent_identity \<Rightarrow> agent_stream" where
  "stream_open r i =
     \<lparr>sm_batch = [], sm_sent = [hello i], sm_open = True, sm_running = [], sm_responder = r\<rparr>"

text \<open>The reconnect loop: the delay before the next session, and the backoff after it.\<close>

definition reconnect_delay :: "stream_end \<Rightarrow> nat \<Rightarrow> nat" where
  "reconnect_delay e backoff = (case e of Closed \<Rightarrow> 1 | SessionError _ \<Rightarrow> backoff)"

definition next_backoff :: "nat \<Rightarrow> nat" where
  "next_backoff d = min (d * 2) 30"

fun delays :: "stream_end list \<Rightarrow> nat \<Rightarrow> nat list" where
  "delays [] backoff = []"
| "delays (e # es) backoff =
     (let d = reconnect_delay e backoff in d # delays es (next_backoff d))"

text \<open>What the gateway reads of a message.\<close>

fun wire :: "up_message \<Rightarrow> agent_message" where
  "wire (UpHello i t) = Hello i t"
| "wire (UpTelemetry evs) = Telemetry"
| "wire (UpHeartbeat isolated) = Heartbeat (Some isolated)"
| "wire (UpResult r) = Result r"

end
