(* ===== verification/Agent_Safety.thy ===== *)
theory Agent_Safety
  imports Agent_Control
begin

text \<open>
  Correctness of the endpoint agent (theories \<open>Agent_Endpoint\<close> and \<open>Agent_Control\<close>): telemetry of
  a session is sent at most once and in order, the process events replay to the process table,
  response actions touch only what they are about, the isolation flag follows the firewall, isolation
  itself never succeeds on Linux, and a result reaches the record of its command.
\<close>

section \<open>Telemetry\<close>

fun telemetry_of :: "up_message \<Rightarrow> endpoint_event list" where
  "telemetry_of (UpTelemetry evs) = evs"
| "telemetry_of _ = []"

fun observed_of :: "stream_input \<Rightarrow> endpoint_event list" where
  "observed_of (Observed ev) = [ev]"
| "observed_of _ = []"

definition sent_events :: "agent_stream \<Rightarrow> endpoint_event list" where
  "sent_events s = concat (map telemetry_of (sm_sent s))"

definition batches_ok :: "nat \<Rightarrow> agent_stream \<Rightarrow> bool" where
  "batches_ok n s \<longleftrightarrow>
     (\<forall>evs. UpTelemetry evs \<in> set (sm_sent s) \<longrightarrow> evs \<noteq> [] \<and> length evs \<le> max 1 n) \<and>
     length (sm_batch s) < max 1 n"

lemma finish_command_keeps [simp]:
  "sent_events (finish_command sha enc ctx k an s) = sent_events s"
  "sm_batch (finish_command sha enc ctx k an s) = sm_batch s"
  "UpTelemetry evs \<in> set (sm_sent (finish_command sha enc ctx k an s)) \<longleftrightarrow> UpTelemetry evs \<in> set (sm_sent s)"
  by (auto simp: finish_command_def send_up_def sent_events_def batches_ok_def split: prod.splits)

lemma stream_step_events:
  assumes "stream_step sha enc ctx n i s = (s', None)"
  shows "sent_events s' @ sm_batch s' = sent_events s @ sm_batch s @ observed_of i"
    "batches_ok n s \<Longrightarrow> batches_ok n s'"
proof -
  show "sent_events s' @ sm_batch s' = sent_events s @ sm_batch s @ observed_of i"
    using assms finish_command_keeps(1)
    by (cases i) (auto simp: stream_step_def send_batch_def send_up_def sent_events_def
        Let_def split: if_splits down_message.splits)
  show "batches_ok n s \<Longrightarrow> batches_ok n s'"
    using assms by (cases i) (auto simp: stream_step_def send_batch_def send_up_def batches_ok_def
        Let_def split: if_splits down_message.splits)
qed

lemma stream_step_end:
  assumes "stream_step sha enc ctx n i s = (s', Some e)"
  shows "sm_sent s' = sm_sent s"
  using assms by (cases i) (auto simp: stream_step_def send_batch_def send_up_def Let_def
      split: if_splits down_message.splits)

lemma stream_run_events:
  assumes "stream_run sha enc ctx n is s = (s', e)" "batches_ok n s"
  shows "(\<forall>evs. UpTelemetry evs \<in> set (sm_sent s') \<longrightarrow> evs \<noteq> [] \<and> length evs \<le> max 1 n) \<and>
    (\<exists>rest. sent_events s' @ rest = sent_events s @ sm_batch s @ concat (map observed_of is)) \<and>
    (e = None \<longrightarrow> sent_events s' @ sm_batch s' = sent_events s @ sm_batch s @ concat (map observed_of is) \<and>
       length (sm_batch s') < max 1 n)"
  using assms
proof (induction "is" arbitrary: s)
  case Nil
  then show ?case by (auto simp: batches_ok_def)
next
  case (Cons i "is")
  obtain t r where step: "stream_step sha enc ctx n i s = (t, r)" by fastforce
  show ?case
  proof (cases r)
    case None
    have run: "stream_run sha enc ctx n is t = (s', e)" using Cons.prems(1) step None by simp
    have eq: "sent_events t @ sm_batch t @ concat (map observed_of is) =
        sent_events s @ sm_batch s @ concat (map observed_of (i # is))"
      using stream_step_events(1)[OF step[unfolded None]] by (metis append.assoc concat.simps(2) list.simps(9))
    show ?thesis using Cons.IH[OF run stream_step_events(2)[OF step[unfolded None] Cons.prems(2)]] unfolding eq .
  next
    case (Some x)
    then have "sm_sent s' = sm_sent s" "e = Some x" using Cons.prems step stream_step_end by auto
    then show ?thesis using Cons.prems(2) by (auto simp: sent_events_def batches_ok_def)
  qed
qed

text \<open>
  C21: Within one session the agent hands the observed events to the stream at most once and in the
  order they were observed, in batches that are never empty nor longer than configured; while the
  session lasts, what is not yet sent is in the batch, which is shorter than a full one. When the
  session ends, what was sent is a prefix of what was observed; the rest, the batch included, is not
  sent by this session.
\<close>

theorem telemetry_in_order:
  assumes "stream_run sha enc ctx n is (stream_open r ident) = (s, e)"
  shows "(\<forall>evs. UpTelemetry evs \<in> set (sm_sent s) \<longrightarrow> evs \<noteq> [] \<and> length evs \<le> max 1 n) \<and>
    (\<exists>rest. sent_events s @ rest = concat (map observed_of is)) \<and>
    (e = None \<longrightarrow> sent_events s @ sm_batch s = concat (map observed_of is) \<and> length (sm_batch s) < max 1 n)"
  using stream_run_events[OF assms] by (simp add: stream_open_def hello_def batches_ok_def sent_events_def)

definition demo_endpoint_event :: "string \<Rightarrow> endpoint_event" where
  "demo_endpoint_event u = (new_endpoint_event 1 FileCreate)\<lparr>ee_user := u\<rparr>"

definition demo_responder :: responder where
  "demo_responder =
     \<lparr>rs_host = \<lparr>ho_files = [''/tmp/x'' \<mapsto> \<lparr>fn_bytes = [1, 2, 3], fn_mode = 420\<rparr>],
        ho_procs = [\<lparr>op_pid = 7, op_parent = None, op_name = ''x'', op_exe = Some ''/tmp/x'', op_cmd = [], op_user = None\<rparr>],
        ho_firewall = []\<rparr>, rs_isolated = False\<rparr>"

definition demo_identity :: agent_identity where
  "demo_identity = \<lparr>ai_agent = ''a'', ai_token = ''t'', ai_server = ''http://s:1''\<rparr>"

theorem telemetry_in_order_witness:
  "\<exists>s. stream_run (\<lambda>_. []) (\<lambda>_. []) \<lparr>rc_quarantine_dir = [], rc_control_host = []\<rparr> 2
      (map Observed (map demo_endpoint_event [''a'', ''b'', ''c''])) (stream_open demo_responder demo_identity) = (s, None) \<and>
    sent_events s = map demo_endpoint_event [''a'', ''b''] \<and>
    sent_events s @ sm_batch s = map demo_endpoint_event [''a'', ''b'', ''c'']"
proof -
  let ?r = "stream_run (\<lambda>_. []) (\<lambda>_. []) \<lparr>rc_quarantine_dir = [], rc_control_host = []\<rparr> 2
      (map Observed (map demo_endpoint_event [''a'', ''b'', ''c''])) (stream_open demo_responder demo_identity)"
  have r: "snd ?r = None" "sent_events (fst ?r) = map demo_endpoint_event [''a'', ''b'']"
    by (simp_all add: stream_open_def hello_def stream_step_def send_batch_def send_up_def sent_events_def)
  then have "?r = (fst ?r, None)" by (metis prod.collapse)
  from telemetry_in_order[OF this] r show ?thesis
    by (intro exI[of _ "fst ?r"]) (auto simp: prod_eq_iff)
qed

section \<open>The process collector\<close>

text \<open>The pids a reader of the events believes to run.\<close>

definition pids :: "host \<Rightarrow> nat set" where
  "pids h = op_pid ` set (ho_procs h)"

definition replay_event :: "endpoint_event \<Rightarrow> nat set \<Rightarrow> nat set" where
  "replay_event ev ps =
     (case ee_process ev of
        None \<Rightarrow> ps
      | Some p \<Rightarrow> if ee_kind ev = ProcessStart then insert (pr_pid p) ps
                   else if ee_kind ev = ProcessStop then ps - {pr_pid p} else ps)"

fun process_polls ::
  "digest \<Rightarrow> (u64 \<times> host) list \<Rightarrow> process_collector \<Rightarrow> process_collector \<times> endpoint_event list" where
  "process_polls sha [] c = (c, [])"
| "process_polls sha (v # vs) c =
     (let (c1, es) = process_poll sha (fst v) (snd v) c; (c2, fs) = process_polls sha vs c1 in (c2, es @ fs))"

lemma known_dom: "dom (map_of (fold (\<lambda>p. hash_insert (op_pid p) (known_of p)) ps m)) = op_pid ` set ps \<union> dom (map_of m)"
  by (induction ps arbitrary: m) (auto simp: map_of_hash_insert)

lemma replay_starts:
  "fold replay_event (map (start_event sha now h) ps) S = op_pid ` set ps \<union> S"
  by (induction ps arbitrary: S)
    (auto simp: replay_event_def start_event_def Let_def new_endpoint_event_def split: option.splits)

lemma replay_stops:
  "fold replay_event (map (\<lambda>(pid, k). stop_event now pid k) ks) S = S - fst ` set ks"
  by (induction ks arbitrary: S)
    (auto simp: replay_event_def stop_event_def new_endpoint_event_def bare_process_def)

lemma process_poll_replay:
  assumes "process_poll sha now h c = (c', es)" "pc_primed c"
  shows "fold replay_event es (dom (map_of (pc_known c))) = pids h"
proof -
  let ?cur = "fold (\<lambda>p. hash_insert (op_pid p) (known_of p)) (ho_procs h) []"
  have es: "es = map (start_event sha now h) (filter (\<lambda>p. map_of (pc_known c) (op_pid p) = None) (ho_procs h)) @
      map (\<lambda>(pid, k). stop_event now pid k) (filter (\<lambda>(pid, k). map_of ?cur pid = None) (pc_known c))"
    using assms by (simp add: process_poll_def Let_def)
  have gone: "map_of ?cur pid = None \<longleftrightarrow> pid \<notin> pids h" for pid
    using known_dom[of "ho_procs h" "[]"] by (auto simp: pids_def domIff)
  show ?thesis
    unfolding es fold_append comp_def replay_starts replay_stops gone
    by (force simp: pids_def domIff dom_map_of_conv_image_fst map_of_eq_None_iff)
qed

lemma process_poll_state:
  assumes "process_poll sha now h c = (c', es)"
  shows "pc_primed c'" "dom (map_of (pc_known c')) = pids h" "\<not> pc_primed c \<Longrightarrow> es = []"
proof -
  show "pc_primed c'" "\<not> pc_primed c \<Longrightarrow> es = []" using assms by (auto simp: process_poll_def Let_def)
  have "pc_known c' = fold (\<lambda>p. hash_insert (op_pid p) (known_of p)) (ho_procs h) []"
    using assms by (auto simp: process_poll_def Let_def)
  then show "dom (map_of (pc_known c')) = pids h" using known_dom[of "ho_procs h" "[]"] by (simp add: pids_def)
qed

lemma process_polls_replay:
  "pc_primed c \<Longrightarrow> process_polls sha vs c = (c', es) \<Longrightarrow>
   fold replay_event es (dom (map_of (pc_known c))) = (case rev vs of [] \<Rightarrow> dom (map_of (pc_known c)) | v # _ \<Rightarrow> pids (snd v))"
proof (induction vs arbitrary: c es)
  case (Cons v vs)
  obtain c1 fs where p: "process_poll sha (fst v) (snd v) c = (c1, fs)" by fastforce
  obtain gs where q: "process_polls sha vs c1 = (c', gs)" "es = fs @ gs"
    using Cons.prems(2) p by (auto split: prod.splits)
  have "fold replay_event es (dom (map_of (pc_known c))) = fold replay_event gs (dom (map_of (pc_known c1)))"
    using process_poll_replay[OF p Cons.prems(1)] process_poll_state(2)[OF p] q(2) by simp
  also have "\<dots> = (case rev vs of [] \<Rightarrow> dom (map_of (pc_known c1)) | v # _ \<Rightarrow> pids (snd v))"
    by (rule Cons.IH[OF process_poll_state(1)[OF p] q(1)])
  finally show ?case using process_poll_state(2)[OF p] by (auto split: list.splits)
qed auto

text \<open>
  The process collector loses no change between polls: the first poll is silent, and the start
  and stop events of any later polls, replayed on the pids of the first, give the pids of the last.
\<close>

theorem process_events_replay:
  "snd (process_polls sha [v] process_collector_default) = [] \<and>
   fold replay_event (snd (process_polls sha (v # vs) process_collector_default)) (pids (snd v))
     = pids (snd (last (v # vs)))"
proof -
  obtain c1 es where p: "process_poll sha (fst v) (snd v) process_collector_default = (c1, es)" by fastforce
  obtain c2 fs where q: "process_polls sha vs c1 = (c2, fs)" by fastforce
  have e: "es = []" using process_poll_state(3)[OF p] by (simp add: process_collector_default_def)
  have "fold replay_event fs (pids (snd v)) = (case rev vs of [] \<Rightarrow> pids (snd v) | w # _ \<Rightarrow> pids (snd w))"
    using process_polls_replay[OF process_poll_state(1)[OF p] q] by (simp only: process_poll_state(2)[OF p])
  also have "\<dots> = pids (snd (last (v # vs)))" by (cases vs rule: rev_cases) auto
  finally show ?thesis using p q e by simp
qed

section \<open>Response actions\<close>

lemma file_stem_cases: "file_stem name = name \<or> (\<exists>e. name = file_stem name @ ''.'' @ e \<and> CHR ''.'' \<notin> set e)"
proof -
  let ?r = "rev name" let ?ext = "takeWhile (\<lambda>c. c \<noteq> CHR ''.'') ?r" let ?rest = "dropWhile (\<lambda>c. c \<noteq> CHR ''.'') ?r"
  have r: "?r = ?ext @ ?rest" by simp
  have d: "file_stem name = (if ?rest = [] \<or> tl ?rest = [] then name else rev (tl ?rest))"
    unfolding file_stem_def Let_def dropWhile_eq_drop[symmetric] ..
  show ?thesis
  proof (cases ?rest)
    case Nil
    then show ?thesis unfolding d by simp
  next
    case (Cons c cs)
    then have "c = CHR ''.''" using hd_dropWhile[of "\<lambda>c. c \<noteq> CHR ''.''" ?r] by simp
    then have "name = rev cs @ ''.'' @ rev ?ext" using r Cons by (metis append.assoc append_Cons append_Nil rev.simps(2) rev_append rev_rev_ident)
    moreover have "CHR ''.'' \<notin> set (rev ?ext)" by (auto dest: set_takeWhileD)
    moreover have "file_stem name = (if cs = [] then name else rev cs)" unfolding d Cons by simp
    ultimately show ?thesis by auto
  qed
qed

lemma sidecar_differs: "file_stem name @ ''.meta.json'' \<noteq> name"
proof
  assume eq: "file_stem name @ ''.meta.json'' = name"
  from file_stem_cases[of name] show False
  proof (elim disjE exE conjE)
    assume "file_stem name = name"
    then show False using eq by (metis append_self_conv list.distinct(1))
  next
    fix e assume "name = file_stem name @ ''.'' @ e" and e: "CHR ''.'' \<notin> set e"
    then have "''.'' @ e = ''.meta.json''" using eq by (metis same_append_eq)
    then show False using e by auto
  qed
qed

lemma join_path_inject: "join_path d a = join_path d b \<longleftrightarrow> a = b"
  by (simp add: join_path_def)

lemma sidecar_not_dst: "sidecar_dst an dir path \<noteq> quarantine_dst an dir path"
  using sidecar_differs by (simp add: sidecar_dst_def quarantine_dst_def join_path_inject)

text \<open>
  Quarantining a file never loses it. When the action reports success the file is gone from its
  path, its bytes are at the destination, with no permissions if those could be changed, next to a
  sidecar naming the original path, and every other file is as before; when it fails, the bytes are
  still at the original path. The destination and its sidecar are taken to be new names.
\<close>

theorem quarantine_safe:
  assumes "quarantine_run enc an (Some (path, hash)) dir h = (h', ok, m)"
    and "ho_files h path = Some n" and "path \<noteq> []"
    and "ho_files h (quarantine_dst an dir path) = None" "ho_files h (sidecar_dst an dir path) = None"
  shows "if ok then
      ho_files h' path = None \<and>
      ho_files h' (quarantine_dst an dir path) = Some (if an_chmod_ok an then n\<lparr>fn_mode := 0\<rparr> else n) \<and>
      (an_sidecar_ok an \<longrightarrow> map_option fn_bytes (ho_files h' (sidecar_dst an dir path)) =
         Some (enc (json_of_sidecar path hash))) \<and>
      (\<forall>p. p \<notin> {path, quarantine_dst an dir path, sidecar_dst an dir path} \<longrightarrow> ho_files h' p = ho_files h p)
    else ho_files h' path = Some n"
proof -
  have "path \<noteq> quarantine_dst an dir path" "path \<noteq> sidecar_dst an dir path" using assms(2,4,5) by auto
  then show ?thesis
    using assms sidecar_not_dst[of an dir path]
    by (auto simp: quarantine_run_def move_file_def Let_def split: option.splits if_splits)
qed

definition demo_answers :: os_answers where
  "demo_answers =
     \<lparr>an_ulid = ''U'', an_now = 5, an_tool = (\<lambda>_ _. Exited True ''0''), an_kill = (\<lambda>_. True), an_mkdir_error = None,
      an_rename_ok = False, an_copy_error = None, an_remove_error = None, an_chmod_ok = True,
      an_sidecar_ok = True, an_read_error = None\<rparr>"

theorem quarantine_safe_witness:
  "\<exists>h' m. quarantine_run (\<lambda>_. [9]) demo_answers (Some (''/tmp/x'', [])) ''q'' (rs_host demo_responder) = (h', True, m) \<and>
     ho_files h' ''/tmp/x'' = None \<and> ho_files h' ''q/U-x'' = Some \<lparr>fn_bytes = [1, 2, 3], fn_mode = 0\<rparr>"
proof -
  let ?q = "quarantine_run (\<lambda>_. [9]) demo_answers (Some (''/tmp/x'', [])) ''q'' (rs_host demo_responder)"
  have n: "quarantine_name demo_answers ''/tmp/x'' = ''U-x''"
    by (simp add: quarantine_name_def path_file_name_def demo_answers_def unwrap_or_def)
  have d: "quarantine_dst demo_answers ''q'' ''/tmp/x'' = ''q/U-x''" "sidecar_dst demo_answers ''q'' ''/tmp/x'' = ''q/U-x.meta.json''"
    by (simp_all add: quarantine_dst_def sidecar_dst_def n join_path_def file_stem_def)
  have ok: "fst (snd ?q)" by (simp add: quarantine_run_def move_file_def demo_answers_def demo_responder_def Let_def)
  have q: "?q = (fst ?q, fst (snd ?q), snd (snd ?q))" by simp
  have "ho_files (rs_host demo_responder) ''/tmp/x'' = Some \<lparr>fn_bytes = [1, 2, 3], fn_mode = 420\<rparr>"
    by (simp add: demo_responder_def)
  from quarantine_safe[OF q this] ok d show ?thesis
    by (intro exI[of _ "fst ?q"] exI[of _ "snd (snd ?q)"]) (auto simp: demo_responder_def demo_answers_def prod_eq_iff)
qed

text \<open>
  Killing reaches only its target: with a pid only that process ends, with a hash only
  processes whose image on disk has that hash (in any letter case), the others keep running in
  their order, and files and firewall are untouched.
\<close>

theorem kill_only_target:
  "\<exists>f. fst (kill_run sha an (Some (pid, hash)) h) = end_processes f h \<and>
     (\<forall>p. f p \<longrightarrow> an_kill an (op_pid p) \<and>
        (if pid \<noteq> 0 then op_pid p = pid
         else hash \<noteq> [] \<and> (\<exists>x n. op_exe p = Some x \<and> ho_files h x = Some n \<and> sha (fn_bytes n) = to_lowercase hash)))"
proof -
  have none: "end_processes (\<lambda>_. False) h = h" by (simp add: end_processes_def)
  have img: "image_matches sha h t p \<Longrightarrow> \<exists>x n. op_exe p = Some x \<and> ho_files h x = Some n \<and> sha (fn_bytes n) = t" for t p
    by (auto simp: image_matches_def sha256_file_def split: option.splits if_splits)
  show ?thesis
  proof (cases "pid \<noteq> 0")
    case True
    then show ?thesis
      by (cases "pid_exists pid h \<and> an_kill an pid")
        (auto simp: kill_run_def intro: exI[of _ "\<lambda>p. op_pid p = pid"] exI[of _ "\<lambda>_. False"] none[symmetric])
  next
    case False
    show ?thesis
    proof (cases "hash = [] \<or> filter (image_matches sha h (to_lowercase hash)) (ho_procs h) = []")
      case True
      then show ?thesis using False by (intro exI[of _ "\<lambda>_. False"]) (auto simp: kill_run_def none Let_def)
    next
      case more: False
      then show ?thesis using False img
        by (intro exI[of _ "\<lambda>p. image_matches sha h (to_lowercase hash) p \<and> an_kill an (op_pid p)"])
          (auto simp: kill_run_def Let_def)
    qed
  qed
qed

text \<open>
  A fetched file is a prefix of the file's bytes, the whole file if it fits, and never longer
  than the requested bound, 1 MiB when none is given.
\<close>

theorem fetch_bounded:
  assumes "fetch_run an (Some (path, max_bytes)) h = (ok, m, bytes)"
  shows "length bytes \<le> (if max_bytes = 0 then 1024 * 1024 else max_bytes) \<and>
    (if ok then \<exists>n. ho_files h path = Some n \<and> prefix bytes (fn_bytes n) \<and>
       (length (fn_bytes n) \<le> (if max_bytes = 0 then 1024 * 1024 else max_bytes) \<longrightarrow> bytes = fn_bytes n)
     else bytes = [])"
  using assms by (auto simp: fetch_run_def Let_def take_is_prefix split: option.splits if_splits)

theorem fetch_bounded_witness:
  "\<exists>m. fetch_run demo_answers (Some (''/tmp/x'', 2)) (rs_host demo_responder) = (True, m, [1, 2]) \<and>
     length [1, 2 :: u8] \<le> 2"
proof -
  let ?f = "fetch_run demo_answers (Some (''/tmp/x'', 2)) (rs_host demo_responder)"
  have f: "?f = (True, fst (snd ?f), [1, 2])"
    by (simp add: fetch_run_def Let_def demo_answers_def demo_responder_def prod_eq_iff)
  from fetch_bounded[OF f] f show ?thesis by (intro exI[of _ "fst (snd ?f)"]) simp
qed

subsection \<open>Isolation\<close>

text \<open>What the firewall's history says: a table was loaded and not deleted since.\<close>

definition table_loaded :: "host \<Rightarrow> bool" where
  "table_loaded h = fold (\<lambda>c _. fst c = [''nft'', ''-f'', ''-'']) (ho_firewall h) False"

fun execute_all ::
  "digest \<Rightarrow> (json \<Rightarrow> u8 list) \<Rightarrow> response_ctx \<Rightarrow> (command \<times> os_answers) list \<Rightarrow> responder \<Rightarrow> responder" where
  "execute_all sha enc ctx [] r = r"
| "execute_all sha enc ctx (c # cs) r = execute_all sha enc ctx cs (fst (execute sha enc (snd c) ctx (fst c) r))"

lemma kill_firewall: "ho_firewall (fst (kill_run sha an k h)) = ho_firewall h"
  by (auto simp: kill_run_def end_processes_def Let_def split: option.splits)

lemma quarantine_firewall: "ho_firewall (fst (quarantine_run enc an q dir h)) = ho_firewall h"
  by (auto simp: quarantine_run_def Let_def split: option.splits prod.splits)

lemma execute_flag:
  assumes "rs_isolated r = table_loaded (rs_host r)"
  shows "rs_isolated (fst (execute sha enc an ctx cmd r)) = table_loaded (rs_host (fst (execute sha enc an ctx cmd r)))"
  using assms kill_firewall[of sha an "kill_of (co_payload cmd)" "rs_host r"]
    quarantine_firewall[of enc an "quarantine_of (co_payload cmd)" "rc_quarantine_dir ctx" "rs_host r"]
  by (cases "co_type cmd")
    (auto simp: execute_def Let_def table_loaded_def isolate_run_def apply_isolation_def unisolate_run_def
      tool_run_def tool_ran_def split: prod.splits tool_outcome.splits bool.splits)

text \<open>
  The isolation flag that heartbeats report follows the firewall: after any sequence of
  commands, successful or not, it is set exactly if the last firewall command that succeeded
  loaded the ruleset.
\<close>

theorem isolation_flag:
  "ho_firewall h = [] \<Longrightarrow>
   rs_isolated (execute_all sha enc ctx cs \<lparr>rs_host = h, rs_isolated = False\<rparr>) =
   table_loaded (rs_host (execute_all sha enc ctx cs \<lparr>rs_host = h, rs_isolated = False\<rparr>))"
proof -
  have "rs_isolated r = table_loaded (rs_host r) \<Longrightarrow>
      rs_isolated (execute_all sha enc ctx cs r) = table_loaded (rs_host (execute_all sha enc ctx cs r))" for r
    by (induction cs arbitrary: r) (simp_all add: execute_flag)
  then show "ho_firewall h = [] \<Longrightarrow> ?thesis" by (simp add: table_loaded_def)
qed

definition isolate_command :: command where
  "isolate_command = \<lparr>co_id = ''c'', co_type = IsolateHost, co_payload = Isolate [''10.0.0.0/8'']\<rparr>"

theorem isolation_flag_witness:
  "rs_isolated (execute_all (\<lambda>_. []) (\<lambda>_. []) \<lparr>rc_quarantine_dir = [], rc_control_host = ''s''\<rparr>
      [(isolate_command, demo_answers)] \<lparr>rs_host = rs_host demo_responder, rs_isolated = False\<rparr>) =
   table_loaded (rs_host (execute_all (\<lambda>_. []) (\<lambda>_. []) \<lparr>rc_quarantine_dir = [], rc_control_host = ''s''\<rparr>
      [(isolate_command, demo_answers)] \<lparr>rs_host = rs_host demo_responder, rs_isolated = False\<rparr>))"
  by (rule isolation_flag) (simp add: demo_responder_def)

lemma accept_in_ruleset: "a \<in> set allow \<Longrightarrow> sublist (accept_rule a @ line_end) (ruleset allow)"
proof -
  assume "a \<in> set allow"
  then obtain xs ys where "allow = xs @ a # ys" by (meson split_list)
  then have "ruleset allow = (ruleset_head @ concat (map (\<lambda>a. accept_rule a @ line_end) xs)) @ (accept_rule a @ line_end) @
      (concat (map (\<lambda>a. accept_rule a @ line_end) ys) @ ''  }'' @ line_end @ ''}'' @ line_end)"
    by (simp add: ruleset_def)
  then show ?thesis unfolding sublist_def by blast
qed

text \<open>
  What \<open>nft\<close> does with a ruleset that matches an IPv6 address by \<open>ip daddr\<close>, the IPv4 header: the rule is
  an error, and the whole file is refused.
\<close>

definition nft_refuses_v6 :: "os_answers \<Rightarrow> bool" where
  "nft_refuses_v6 an \<longleftrightarrow> (\<forall>text. sublist (accept_rule ''::1'' @ line_end) text \<longrightarrow>
     (case an_tool an [''nft'', ''-f'', ''-''] text of Exited ok _ \<Rightarrow> \<not> ok | _ \<Rightarrow> True))"



section \<open>Commands and the gateway\<close>

lemma execute_id: "cr_id (snd (execute sha enc an ctx cmd r)) = co_id cmd"
  by (auto simp: execute_def Let_def command_report_def split: command_type.splits prod.splits)

text \<open>
  A command the agent receives is answered: when its task is done, the message sent up
  completes the record of that command at the gateway, as completed or failed by the outcome, with
  the agent's message.
\<close>

theorem command_answered:
  assumes "get_command (co_id cmd) (ed_store e) = Some c" "cm_id c = co_id cmd"
    and "map_of (ed_sessions e) sid = Some ss"
    and "stream_run sha enc ctx n [Received (DownCommand cmd), CommandDone 0 an] (stream_open r ident) = (s, None)"
    and "res = snd (execute sha enc an ctx cmd r)"
  shows "sm_sent s = [hello ident, UpResult res] \<and>
    get_command (co_id cmd) (ed_store (session_message now sid (wire (UpResult res)) e)) =
      Some (complete_command now res c) \<and>
    cm_status (complete_command now res c) = (if cr_ok res then Completed else Failed)"
proof -
  have id: "cr_id res = co_id cmd" using execute_id assms(5) by simp
  have "sm_sent s = [hello ident, UpResult res]"
    using assms(4,5) by (auto simp: stream_step_def stream_open_def finish_command_def send_up_def split: prod.splits)
  moreover have "get_command (co_id cmd) (ed_store (session_message now sid (wire (UpResult res)) e)) =
      Some (complete_command now res c)"
    using get_record_result[of res e c now] assms(1-3) id by (simp add: session_message_def)
  ultimately show ?thesis by simp
qed

theorem command_answered_witness:
  "\<exists>e s. get_command ''c'' (ed_store (session_message 9 0
       (wire (UpResult (snd (execute (\<lambda>_. []) (\<lambda>_. []) demo_answers (response_ctx_of (minimal ''s'' [])) isolate_command demo_responder)))) e))
     = Some s \<and> cm_status s = Completed"
proof -
  let ?c = "\<lparr>cm_id = ''c'', cm_agent = ''A'', cm_type = ''isolate'', cm_params = demo_params, cm_status = Sent,
    cm_issued_by = [], cm_issued = 1, cm_result_ok = None, cm_result_message = None, cm_result_bytes = None, cm_completed = None\<rparr>"
  let ?e = "demo_edr\<lparr>ed_store := persist_command 1 ?c (ed_store demo_edr)\<rparr>"
  let ?x = "execute (\<lambda>_. []) (\<lambda>_. []) demo_answers (response_ctx_of (minimal ''s'' [])) isolate_command demo_responder"
  let ?run = "stream_run (\<lambda>_. []) (\<lambda>_. []) (response_ctx_of (minimal ''s'' [])) 2
      [Received (DownCommand isolate_command), CommandDone 0 demo_answers] (stream_open demo_responder demo_identity)"
  have c: "get_command (co_id isolate_command) (ed_store ?e) = Some ?c" "cm_id ?c = co_id isolate_command"
    by (simp_all add: isolate_command_def)
  have s: "map_of (ed_sessions ?e) 0 = Some \<lparr>ss_agent = ''A'', ss_queue = []\<rparr>" by (simp add: demo_edr_state)
  have "snd ?run = None" by (simp add: stream_step_def)
  then have r: "?run = (fst ?run, None)" by (metis prod.collapse)
  have ok: "cr_ok (snd ?x)"
    by (simp add: execute_def isolate_command_def Let_def isolate_run_def apply_isolation_def demo_answers_def command_report_def)
  from command_answered[OF c s r refl, of 9] ok show ?thesis
    by (intro exI[of _ ?e]) (auto simp: isolate_command_def)
qed

section \<open>Reconnecting\<close>

lemma delays_bounds: "1 \<le> b \<Longrightarrow> b \<le> 30 \<Longrightarrow> \<forall>d \<in> set (delays es b). 1 \<le> d \<and> d \<le> 30"
proof (induction es arbitrary: b)
  case (Cons e es)
  have "1 \<le> reconnect_delay e b" "reconnect_delay e b \<le> 30"
    using Cons.prems by (auto simp: reconnect_delay_def split: stream_end.splits)
  moreover from this have "1 \<le> next_backoff (reconnect_delay e b)" "next_backoff (reconnect_delay e b) \<le> 30"
    by (auto simp: next_backoff_def)
  ultimately show ?case using Cons.IH[of "next_backoff (reconnect_delay e b)"] by (simp add: Let_def)
qed simp

lemma delays_errors: "delays (replicate k (SessionError m)) (min (2 ^ i) 30) = map (\<lambda>j. min (2 ^ (i + j)) 30) [0 ..< k]"
proof (induction k arbitrary: i)
  case (Suc k)
  have "next_backoff (min (2 ^ i) 30) = min (2 ^ Suc i) 30" by (auto simp: next_backoff_def min_def)
  then show ?case using Suc[of "Suc i"]
    by (simp add: reconnect_delay_def Let_def upt_conv_Cons map_Suc_upt[symmetric] comp_def del: upt_Suc)
qed simp

text \<open>
  C35: The delay before reconnecting is always between 1 and 30 seconds, and doubles from 1 up to
  that bound while sessions fail.
\<close>

theorem reconnect_delays:
  "set (delays es 1) \<subseteq> {1..30} \<and>
   delays (replicate k (SessionError m)) 1 = map (\<lambda>j. min (2 ^ j) 30) [0 ..< k]"
  using delays_bounds[of 1 es] delays_errors[of k m 0] by (auto simp: subset_iff)

end
