(* ===== verification/Alert_Outputs.thy ===== *)
theory Alert_Outputs
  imports Config_File Index_Segments
begin

text \<open>
  The alert sinks of the node, \<open>crates/sigil-cli/src/output.rs\<close> and \<open>output/*.rs\<close>: which sinks a
  configuration gives, the requests they make for an alert, and the file sink. The answer of the
  network is an argument; its outcome is only logged. The JSON encoder of an alert is a parameter.
  Text outside ASCII is written in its UTF-8 bytes.
\<close>

section \<open>Requests\<close>

record sink_request =
  rq_url :: string
  rq_headers :: "(string \<times> string) list"
  rq_auth :: "(string \<times> string) option"
  rq_body :: json

definition alert_title :: "alert \<Rightarrow> string" where
  "alert_title a = (if al_title a = [] then al_rule_id a else al_title a)"

definition plain_request :: "string \<Rightarrow> json \<Rightarrow> sink_request" where
  "plain_request url body = \<lparr>rq_url = url, rq_headers = [], rq_auth = None, rq_body = body\<rparr>"

definition opt_json :: "string option \<Rightarrow> json" where
  "opt_json x = (case x of Some s \<Rightarrow> JString s | None \<Rightarrow> JNull)"

definition slack_body :: "alert \<Rightarrow> json" where
  "slack_body a =
     (let technique = (case al_technique a of
                         Some t \<Rightarrow> '' '' @ [CHR 0xC2, CHR 0xB7] @ '' ATT&CK '' @ t | None \<Rightarrow> [])
      in JObject [(''text'', JString ('':rotating_light: *'' @ alert_title a @ ''* ['' @
           severity_name (al_severity a) @ ''] '' @ [CHR 0xE2, CHR 0x80, CHR 0x94] @ '' rule '' @ [CHR 0x60] @
           al_rule_id a @ [CHR 0x60] @ technique))])"

definition pagerduty_url :: string where
  "pagerduty_url = ''https://events.pagerduty.com/v2/enqueue''"

fun pd_severity :: "severity \<Rightarrow> string" where
  "pd_severity Critical = ''critical''"
| "pd_severity Fatal = ''critical''"
| "pd_severity High = ''error''"
| "pd_severity Medium = ''warning''"
| "pd_severity _ = ''info''"

text \<open>Objects of \<open>json!\<close> have their keys in alphabetical order.\<close>

definition pagerduty_body :: "string \<Rightarrow> alert \<Rightarrow> json" where
  "pagerduty_body routing_key a =
     JObject [(''dedup_key'', JString (al_rule_id a)), (''event_action'', JString ''trigger''),
       (''payload'', JObject
          [(''custom_details'', JObject
              [(''events'', JArray (map JString (al_events a))), (''rule_id'', JString (al_rule_id a)),
               (''technique'', opt_json (al_technique a))]),
           (''severity'', JString (pd_severity (al_severity a))), (''source'', JString ''sigil''),
           (''summary'', JString (alert_title a))]),
       (''routing_key'', JString routing_key)]"

definition jira_body :: "string \<Rightarrow> string \<Rightarrow> alert \<Rightarrow> json" where
  "jira_body project issue_type a =
     (let technique = (case al_technique a of Some t \<Rightarrow> '', ATT&CK '' @ t | None \<Rightarrow> []);
          description = ''Sigil alert from rule '' @ [CHR 0x60] @ al_rule_id a @ [CHR 0x60] @ '' (severity '' @
            severity_name (al_severity a) @ '')'' @ technique @ ''.'' @ [CHR 0x0A] @ ''Events: '' @
            join '', '' (al_events a)
      in JObject [(''fields'', JObject
           [(''description'', JString description),
            (''issuetype'', JObject [(''name'', JString issue_type)]),
            (''project'', JObject [(''key'', JString project)]),
            (''summary'', JString (''[Sigil] '' @ alert_title a))])])"

definition quoted :: "string \<Rightarrow> string" where
  "quoted s = [CHR 0x22] @ s @ [CHR 0x22]"

definition misp_body :: "alert \<Rightarrow> json" where
  "misp_body a =
     (let tag = (\<lambda>s. JObject [(''name'', JString s)]);
          tags = tag (''sigil:rule='' @ quoted (al_rule_id a)) #
            (case al_technique a of
               Some t \<Rightarrow> [tag (''misp-galaxy:mitre-attack-pattern='' @ quoted t)] | None \<Rightarrow> []);
          attribute = (\<lambda>e. JObject [(''category'', JString ''Other''), (''type'', JString ''comment''), (''value'', JString e)])
      in JObject [(''Event'', JObject
           [(''Attribute'', JArray (map attribute (al_events a))), (''Tag'', JArray tags),
            (''info'', JString (''[Sigil] '' @ alert_title a))])])"

section \<open>Sinks\<close>

datatype sink =
    WebhookSink string
  | SlackSink string
  | PagerDutySink string string
  | JiraSink jira_output string "string set"
  | MispSink misp_output

definition outputs_new :: "alert_outputs \<Rightarrow> sink list" where
  "outputs_new c =
     (case ao_webhook c of Some u \<Rightarrow> [WebhookSink u] | None \<Rightarrow> []) @
     (case ao_slack c of Some u \<Rightarrow> [SlackSink u] | None \<Rightarrow> []) @
     (case ao_pagerduty c of
        Some p \<Rightarrow> [PagerDutySink (po_routing_key p) (case po_url p of Some u \<Rightarrow> u | None \<Rightarrow> pagerduty_url)]
      | None \<Rightarrow> []) @
     (case ao_jira c of
        Some j \<Rightarrow> [JiraSink j (case jo_issue_type j of Some t \<Rightarrow> t | None \<Rightarrow> ''Task'') {}] | None \<Rightarrow> []) @
     (case ao_misp c of Some m \<Rightarrow> [MispSink m] | None \<Rightarrow> [])"

definition outputs_empty :: "alert_outputs \<Rightarrow> bool" where
  "outputs_empty c \<longleftrightarrow> ao_file c = None \<and> outputs_new c = []"

text \<open>The sink after an alert, and the request it sends, if any.\<close>

fun sink_emit :: "(alert \<Rightarrow> json) \<Rightarrow> alert \<Rightarrow> sink \<Rightarrow> sink \<times> sink_request option" where
  "sink_emit enc a (WebhookSink url) = (WebhookSink url, Some (plain_request url (enc a)))"
| "sink_emit enc a (SlackSink url) = (SlackSink url, Some (plain_request url (slack_body a)))"
| "sink_emit enc a (PagerDutySink key url) =
     (PagerDutySink key url, Some (plain_request url (pagerduty_body key a)))"
| "sink_emit enc a (JiraSink c issue_type seen) =
     (if al_rule_id a \<in> seen then (JiraSink c issue_type seen, None)
      else (JiraSink c issue_type (insert (al_rule_id a) seen),
            Some \<lparr>rq_url = trim_end_matches CHR ''/'' (jo_url c) @ ''/rest/api/2/issue'', rq_headers = [],
                  rq_auth = Some (jo_user c, jo_token c), rq_body = jira_body (jo_project c) issue_type a\<rparr>))"
| "sink_emit enc a (MispSink c) =
     (MispSink c,
      Some \<lparr>rq_url = trim_end_matches CHR ''/'' (mo_url c) @ ''/events/add'',
            rq_headers = [(''Authorization'', mo_api_key c), (''Accept'', ''application/json'')],
            rq_auth = None, rq_body = misp_body a\<rparr>)"

record outputs =
  ou_file :: "string option"
  ou_sinks :: "sink list"

text \<open>
  One alert to every sink: the line for the file, whose write may fail, then the requests in the
  order of the sinks. Neither outcome is kept.
\<close>

definition emit_alert ::
  "(alert \<Rightarrow> json) \<Rightarrow> (json \<Rightarrow> string) \<Rightarrow> alert \<Rightarrow> outputs \<Rightarrow> outputs \<times> string option \<times> sink_request list" where
  "emit_alert enc text a out =
     (let rs = map (sink_emit enc a) (ou_sinks out)
      in (out\<lparr>ou_sinks := map fst rs\<rparr>, map_option (\<lambda>_. text (enc a) @ [CHR 0x0A]) (ou_file out),
          List.map_filter snd rs))"

fun emit_all ::
  "(alert \<Rightarrow> json) \<Rightarrow> (json \<Rightarrow> string) \<Rightarrow> alert list \<Rightarrow> outputs \<Rightarrow> sink_request list" where
  "emit_all enc text [] out = []"
| "emit_all enc text (a # as) out =
     (let (out', _, rs) = emit_alert enc text a out in rs @ emit_all enc text as out')"

section \<open>Tickets\<close>

text \<open>The first alert of every rule that is not in \<open>seen\<close>.\<close>

fun firsts :: "string set \<Rightarrow> alert list \<Rightarrow> alert list" where
  "firsts seen [] = []"
| "firsts seen (a # as) =
     (if al_rule_id a \<in> seen then firsts seen as else a # firsts (insert (al_rule_id a) seen) as)"

lemma firsts_rules:
  "set (map al_rule_id (firsts seen as)) = set (map al_rule_id as) - seen \<and> distinct (map al_rule_id (firsts seen as))"
  by (induction as arbitrary: seen) auto

text \<open>
  The Jira sink opens one ticket for every rule that ever fires, for its first alert and with
  that alert's text, however many alerts follow: no rule has two tickets and none has none.
\<close>

theorem jira_one_ticket_per_rule:
  "map rq_body (emit_all enc text as \<lparr>ou_file = f, ou_sinks = [JiraSink j t {}]\<rparr>) =
     map (jira_body (jo_project j) t) (firsts {} as) \<and>
   distinct (map al_rule_id (firsts {} as)) \<and> set (map al_rule_id (firsts {} as)) = set (map al_rule_id as)"
proof -
  have "map rq_body (emit_all enc text as \<lparr>ou_file = f, ou_sinks = [JiraSink j t seen]\<rparr>) =
      map (jira_body (jo_project j) t) (firsts seen as)" for seen
    by (induction as arbitrary: seen) (auto simp: emit_alert_def Let_def List.map_filter_simps)
  then show ?thesis using firsts_rules[of "{}" as] by simp
qed

text \<open>
  The ticket of a rule is asked for once whatever the answer was: after a request that failed, no
  alert of the rule makes another one.
\<close>

lemma jira_no_retry:
  "snd (sink_emit enc b (fst (sink_emit enc a (JiraSink j t seen)))) = None \<or> al_rule_id a \<noteq> al_rule_id b"
  by auto

end
