(* ===== verification/Index_Schema.thy ===== *)
theory Index_Schema
  imports Index_Segments
begin

text \<open>
  The Arrow schema of a segment, the columns built for it and how they are read back,
  \<open>crates/sigil-index/src/columnar.rs\<close>: \<open>event_schema\<close>, the arrays of \<open>events_to_batch\<close> and
  \<open>batch_into_events\<close>, which looks the columns up by name. Arrow's record batch is a parameter: its
  constructor, the lookup of a column and the number of rows. The row view of the same batch is
  \<open>events_to_batch\<close> in the segment store.
\<close>

datatype data_type = Utf8 | Int64 | UInt32 | Int32

datatype column =
    StringArray "string option list"
  | Int64Array "timestamp list"
  | UInt32Array "u32 list"
  | Int32Array "int list"

type_synonym field = "string \<times> data_type \<times> bool"

definition event_schema :: "field list" where
  "event_schema =
     [(''id'', Utf8, False), (''ts'', Int64, False), (''ingest_ts'', Int64, False),
      (''ocsf_class'', UInt32, False), (''ocsf_class_name'', Utf8, False),
      (''severity'', Utf8, False), (''severity_id'', Int32, False), (''tenant'', Utf8, False),
      (''host'', Utf8, True), (''actor'', Utf8, True), (''actor_kind'', Utf8, True),
      (''target'', Utf8, True), (''target_kind'', Utf8, True), (''message'', Utf8, False),
      (''fields_json'', Utf8, False)]"

definition batch_columns :: "json_text \<Rightarrow> event list \<Rightarrow> column list" where
  "batch_columns J evs =
     [StringArray (map (Some \<circ> ev_id) evs), Int64Array (map ev_ts evs), Int64Array (map ev_ingest_ts evs),
      UInt32Array (map (uid \<circ> ev_class) evs), StringArray (map (Some \<circ> class_name \<circ> ev_class) evs),
      StringArray (map (Some \<circ> severity_name \<circ> ev_severity) evs),
      Int32Array (map (\<lambda>e. uint (severity_id (ev_severity e))) evs), StringArray (map (Some \<circ> ev_tenant) evs),
      StringArray (map (map_option er_id \<circ> ev_host) evs),
      StringArray (map (map_option er_id \<circ> ev_actor) evs), StringArray (map (map_option er_kind \<circ> ev_actor) evs),
      StringArray (map (map_option er_id \<circ> ev_target) evs), StringArray (map (map_option er_kind \<circ> ev_target) evs),
      StringArray (map (Some \<circ> ev_message) evs),
      StringArray (map (\<lambda>e. Some (jt_show J (JObject (ev_fields e)))) evs)]"

section \<open>Columns that fit a schema\<close>

fun column_type :: "column \<Rightarrow> data_type" where
  "column_type (StringArray _) = Utf8"
| "column_type (Int64Array _) = Int64"
| "column_type (UInt32Array _) = UInt32"
| "column_type (Int32Array _) = Int32"

fun column_length :: "column \<Rightarrow> nat" where
  "column_length (StringArray xs) = length xs"
| "column_length (Int64Array xs) = length xs"
| "column_length (UInt32Array xs) = length xs"
| "column_length (Int32Array xs) = length xs"

fun has_null :: "column \<Rightarrow> bool" where
  "has_null (StringArray xs) = (None \<in> set xs)"
| "has_null _ = False"

definition fits :: "field \<Rightarrow> column \<Rightarrow> bool" where
  "fits f c \<longleftrightarrow> column_type c = fst (snd f) \<and> (snd (snd f) \<or> \<not> has_null c)"

section \<open>Record batches\<close>

record 'b arrow =
  ar_try_new :: "field list \<Rightarrow> column list \<Rightarrow> string + 'b"
  ar_column :: "'b \<Rightarrow> string \<Rightarrow> column option"
  ar_num_rows :: "'b \<Rightarrow> nat"

text \<open>
  What the documentation of \<open>RecordBatch::try_new\<close> promises: columns that fit the schema and have one
  length make a batch, in which every field's name gives its column.
\<close>

definition arrow_ok :: "'b arrow \<Rightarrow> bool" where
  "arrow_ok A \<longleftrightarrow> (\<forall>schema cs n. distinct (map fst schema) \<and> cs \<noteq> [] \<and> list_all2 fits schema cs \<and>
     list_all (\<lambda>c. column_length c = n) cs \<longrightarrow>
       (\<exists>b. ar_try_new A schema cs = Inr b \<and> ar_num_rows A b = n \<and> ar_column A b = map_of (zip (map fst schema) cs)))"

definition record_batch :: "'b arrow \<Rightarrow> json_text \<Rightarrow> event list \<Rightarrow> 'b result" where
  "record_batch A J evs =
     (case ar_try_new A event_schema (batch_columns J evs) of Inl e \<Rightarrow> Inl (Backend e) | Inr b \<Rightarrow> Inr b)"

section \<open>Reading a batch\<close>

definition str_col :: "'b arrow \<Rightarrow> 'b \<Rightarrow> string \<Rightarrow> string option list option" where
  "str_col A b name = (case ar_column A b name of Some (StringArray xs) \<Rightarrow> Some xs | _ \<Rightarrow> None)"

definition int64_col :: "'b arrow \<Rightarrow> 'b \<Rightarrow> string \<Rightarrow> timestamp list option" where
  "int64_col A b name = (case ar_column A b name of Some (Int64Array xs) \<Rightarrow> Some xs | _ \<Rightarrow> None)"

definition uint32_col :: "'b arrow \<Rightarrow> 'b \<Rightarrow> string \<Rightarrow> u32 list option" where
  "uint32_col A b name = (case ar_column A b name of Some (UInt32Array xs) \<Rightarrow> Some xs | _ \<Rightarrow> None)"

definition int32_col :: "'b arrow \<Rightarrow> 'b \<Rightarrow> string \<Rightarrow> int list option" where
  "int32_col A b name = (case ar_column A b name of Some (Int32Array xs) \<Rightarrow> Some xs | _ \<Rightarrow> None)"

definition present :: "string \<Rightarrow> 'a option \<Rightarrow> 'a result" where
  "present name col =
     (case col of Some xs \<Rightarrow> Inr xs | None \<Rightarrow> Inl (Backend (''segment missing column `'' @ name @ ''`'')))"

definition opt_value :: "string option list option \<Rightarrow> nat \<Rightarrow> string option" where
  "opt_value col row = (case col of None \<Rightarrow> None | Some xs \<Rightarrow> xs ! row)"

text \<open>The value of a null slot is the empty string.\<close>

definition str_value :: "string option list \<Rightarrow> nat \<Rightarrow> string" where
  "str_value xs row = (case xs ! row of Some s \<Rightarrow> s | None \<Rightarrow> [])"

definition arrow_into_events :: "'b arrow \<Rightarrow> json_text \<Rightarrow> 'b \<Rightarrow> event list result" where
  "arrow_into_events A J b =
     and_then (present ''id'' (str_col A b ''id'')) (\<lambda>ids.
     and_then (present ''ts'' (int64_col A b ''ts'')) (\<lambda>ts.
     and_then (present ''ingest_ts'' (int64_col A b ''ingest_ts'')) (\<lambda>ingest.
     and_then (present ''ocsf_class'' (uint32_col A b ''ocsf_class'')) (\<lambda>class.
     and_then (present ''severity_id'' (int32_col A b ''severity_id'')) (\<lambda>sev.
     and_then (present ''tenant'' (str_col A b ''tenant'')) (\<lambda>tenant.
     and_then (present ''message'' (str_col A b ''message'')) (\<lambda>message.
     and_then (present ''fields_json'' (str_col A b ''fields_json'')) (\<lambda>fields.
       let hosts = str_col A b ''host''; actors = str_col A b ''actor''; targets = str_col A b ''target'';
           actor_kinds = str_col A b ''actor_kind''; target_kinds = str_col A b ''target_kind''
       in Inr (map (\<lambda>row.
            \<lparr>ev_id = str_value ids row, ev_ts = ts ! row, ev_ingest_ts = ingest ! row, ev_class = from_uid (class ! row),
             ev_tenant = str_value tenant row, ev_severity = severity_from_id (of_int (max 0 (min (sev ! row) 255))),
             ev_host = map_option (entity ''host'') (opt_value hosts row),
             ev_actor = row_entity ''user'' (opt_value actor_kinds row) (opt_value actors row),
             ev_target = row_entity ''host'' (opt_value target_kinds row) (opt_value targets row),
             ev_message = str_value message row,
             ev_fields = (case jt_parse J (str_value fields row) of Some (JObject m) \<Rightarrow> m | _ \<Rightarrow> []),
             ev_template_id = None, ev_labels = [], ev_raw = []\<rparr>) [0 ..< ar_num_rows A b])))))))))"

section \<open>Writing and reading\<close>

lemma columns_shape:
  "list_all2 fits event_schema (batch_columns J evs)"
  "list_all (\<lambda>c. column_length c = length evs) (batch_columns J evs)"
  by (auto simp: event_schema_def batch_columns_def fits_def)

lemma record_batch_columns:
  assumes "arrow_ok A"
  obtains b where "record_batch A J evs = Inr b" "ar_num_rows A b = length evs"
    "ar_column A b = map_of (zip (map fst event_schema) (batch_columns J evs))"
proof -
  have "distinct (map fst event_schema)" "batch_columns J evs \<noteq> []"
    by (simp_all add: event_schema_def batch_columns_def)
  then have "\<exists>b. ar_try_new A event_schema (batch_columns J evs) = Inr b \<and> ar_num_rows A b = length evs \<and>
      ar_column A b = map_of (zip (map fst event_schema) (batch_columns J evs))"
    using assms columns_shape(1) [of J evs] columns_shape(2) [of evs J] unfolding arrow_ok_def by blast
  then obtain b where b: "ar_try_new A event_schema (batch_columns J evs) = Inr b" "ar_num_rows A b = length evs"
    "ar_column A b = map_of (zip (map fst event_schema) (batch_columns J evs))" by blast
  show thesis by (rule that [OF _ b(2,3)]) (simp add: record_batch_def b(1))
qed

lemma named_columns:
  assumes "ar_column A b = map_of (zip (map fst event_schema) (batch_columns J evs))"
  shows "str_col A b ''id'' = Some (map (Some \<circ> ev_id) evs)" "int64_col A b ''ts'' = Some (map ev_ts evs)"
    "int64_col A b ''ingest_ts'' = Some (map ev_ingest_ts evs)"
    "uint32_col A b ''ocsf_class'' = Some (map (uid \<circ> ev_class) evs)"
    "int32_col A b ''severity_id'' = Some (map (\<lambda>e. uint (severity_id (ev_severity e))) evs)"
    "str_col A b ''tenant'' = Some (map (Some \<circ> ev_tenant) evs)"
    "str_col A b ''message'' = Some (map (Some \<circ> ev_message) evs)"
    "str_col A b ''fields_json'' = Some (map (\<lambda>e. Some (jt_show J (JObject (ev_fields e)))) evs)"
    "str_col A b ''host'' = Some (map (map_option er_id \<circ> ev_host) evs)"
    "str_col A b ''actor'' = Some (map (map_option er_id \<circ> ev_actor) evs)"
    "str_col A b ''actor_kind'' = Some (map (map_option er_kind \<circ> ev_actor) evs)"
    "str_col A b ''target'' = Some (map (map_option er_id \<circ> ev_target) evs)"
    "str_col A b ''target_kind'' = Some (map (map_option er_kind \<circ> ev_target) evs)"
  by (simp_all add: assms event_schema_def batch_columns_def str_col_def int64_col_def uint32_col_def int32_col_def)

lemma read_batch:
  assumes "arrow_ok A"
  shows "and_then (record_batch A J evs) (arrow_into_events A J) = Inr (batch_into_events J (events_to_batch J evs))"
proof -
  obtain b where b: "record_batch A J evs = Inr b" "ar_num_rows A b = length evs"
    "ar_column A b = map_of (zip (map fst event_schema) (batch_columns J evs))"
    by (rule record_batch_columns [OF assms])
  have "arrow_into_events A J b = Inr (map (\<lambda>i. row_to_event J (event_to_row J (evs ! i))) [0 ..< length evs])"
    by (simp add: arrow_into_events_def named_columns [OF b(3)] present_def b(2) str_value_def opt_value_def row_to_event_def
        event_to_row_def comp_def Let_def)
  also have "map (\<lambda>i. row_to_event J (event_to_row J (evs ! i))) [0 ..< length evs] = batch_into_events J (events_to_batch J evs)"
    by (rule nth_equalityI) (simp_all add: batch_into_events_def events_to_batch_def)
  finally show ?thesis by (simp add: b(1))
qed


definition demo_arrow :: "((string \<times> column) list) arrow" where
  "demo_arrow =
     \<lparr>ar_try_new = (\<lambda>schema cs. if list_all2 fits schema cs then Inr (zip (map fst schema) cs) else Inl ''columns''),
      ar_column = map_of, ar_num_rows = (\<lambda>b. case b of [] \<Rightarrow> 0 | (_, c) # _ \<Rightarrow> column_length c)\<rparr>"

lemma demo_arrow_ok: "arrow_ok demo_arrow"
  unfolding arrow_ok_def by (auto simp: demo_arrow_def list_all2_Cons2 neq_Nil_conv)


end
