(* ===== verification/Node_Analysis.thy ===== *)
theory Node_Analysis
  imports Node_Pipeline Correlate_Campaign Correlate_Chains Api_Control Api_Dsl Index_Schema
begin

text \<open>
  The analytical side of a node: the correlation of a file (\<open>analyze_file\<close> of
  \<open>crates/sigil-cli/src/run.rs\<close>), the reading routes of \<open>crates/sigil-api/src/lib.rs\<close> (login, system,
  search, incidents, coverage, SQL and DSL) and the start-up helpers of \<open>run.rs\<close>. The full-text
  search of the index, the SQL engine and the metrics exporter are parameters; so are the token hash
  and the orders of hash maps. \<open>None\<close> for an analysis would be a panic.
\<close>

section \<open>Analysis of events\<close>

record analysis_env =
  ax_hash :: "string \<Rightarrow> u64"
  ax_links :: "link_map \<Rightarrow> link_map"
  ax_comps :: "nat list list \<Rightarrow> nat list list"

record analysis =
  ay_candidates :: "campaign_candidate list"
  ay_incidents :: "incident list"

text \<open>\<open>entry(k).or_insert(v)\<close>.\<close>

definition or_insert :: "'k \<Rightarrow> 'v \<Rightarrow> ('k \<times> 'v) list \<Rightarrow> ('k \<times> 'v) list" where
  "or_insert k v m = (case map_of m k of Some _ \<Rightarrow> m | None \<Rightarrow> m @ [(k, v)])"

definition matched_techniques ::
  "sigma_env \<Rightarrow> timestamp \<Rightarrow> sigma_engine \<Rightarrow> event list \<Rightarrow> (string \<times> string) list" where
  "matched_techniques E now engine events =
     fold (\<lambda>e. fold (\<lambda>a m. case al_technique a of Some t \<Rightarrow> or_insert (ev_id e) t m | None \<Rightarrow> m)
                  (engine_eval E now engine e))
       events []"

definition node_embed :: "analysis_env \<Rightarrow> event \<Rightarrow> vec" where
  "node_embed X e = hashing_embed (ax_hash X) (hashing_embedder_new 128) (serialize_event e)"

definition analyze ::
  "analysis_env \<Rightarrow> campaign_config \<Rightarrow> causal_config \<Rightarrow> (string \<times> string) list \<Rightarrow> event list \<Rightarrow> analysis option" where
  "analyze X cfg causal techniques events =
     (case build_campaigns (node_embed X) (ax_links X) (ax_comps X) events cfg of
        None \<Rightarrow> None
      | Some cands \<Rightarrow>
          map_option (\<lambda>incs. \<lparr>ay_candidates = cands, ay_incidents = incs\<rparr>)
            (those (map (\<lambda>(i, c). build_incident i c events techniques (beam_selector 4) causal)
                      (enumerate 0 cands))))"

definition analyze_file ::
  "analysis_env \<Rightarrow> ('f, 'g::linorder) pipeline_env \<Rightarrow> timestamp \<Rightarrow> 'g template_miner \<Rightarrow> sigma_engine \<Rightarrow>
   string \<Rightarrow> string \<Rightarrow> file_view \<Rightarrow> campaign_config \<Rightarrow> causal_config \<Rightarrow> analysis option result" where
  "analyze_file X E now m engine kind path f cfg causal =
     and_then (decode_file E now m kind path f) (\<lambda>events.
       Inr (analyze X cfg causal (matched_techniques (pe_sigma E) now engine events) events))"

section \<open>Start-up\<close>

text \<open>The rules directory is given by what loading it returns, as there are errors to pass on.\<close>

definition build_engine :: "(string \<Rightarrow> sigma_engine result) \<Rightarrow> config \<Rightarrow> sigma_engine result" where
  "build_engine load c =
     (if \<not> sc_enabled (cf_sigma c) then Inr \<lparr>en_rules = []\<rparr>
      else case sc_rules_dir (cf_sigma c) of None \<Rightarrow> Inr \<lparr>en_rules = []\<rparr> | Some dir \<Rightarrow> load dir)"

definition build_correlations ::
  "(string \<Rightarrow> correlation_engine result) \<Rightarrow> config \<Rightarrow> correlation_engine result" where
  "build_correlations load c =
     (case (sc_enabled (cf_sigma c), sc_rules_dir (cf_sigma c)) of
        (True, Some dir) \<Rightarrow> load dir
      | _ \<Rightarrow> Inr (correlation_engine_new []))"

definition load_edr_tls :: "(string \<Rightarrow> string option) \<Rightarrow> config \<Rightarrow> (string \<times> string) option" where
  "load_edr_tls read c =
     (case (ec_tls_cert (cf_edr c), ec_tls_key (cf_edr c)) of
        (Some cert, Some key) \<Rightarrow>
          (case (read cert, read key) of (Some a, Some b) \<Rightarrow> Some (a, b) | _ \<Rightarrow> None)
      | _ \<Rightarrow> None)"

record source_info =
  so_src_id :: string
  so_src_kind :: string
  so_src_codec :: string

record pipeline_info =
  pi_pipe_id :: string
  pi_pipe_from :: "string list"
  pi_pipe_route :: "string list"

record system_info =
  si_roles :: "string list"
  si_transport :: string
  si_nodes :: "string list"
  si_shards :: nat
  si_replication :: nat
  si_sources :: "source_info list"
  si_pipelines :: "pipeline_info list"
  si_retention :: "string \<times> string \<times> string"
  si_index_path :: string
  si_cold_path :: string
  si_rule_count :: nat
  si_auth_enabled :: bool
  si_persistence :: bool

definition build_system_info :: "config \<Rightarrow> string list \<Rightarrow> nat \<Rightarrow> system_info" where
  "build_system_info c roles rule_count =
     (let cl = cf_cluster c; ix = cf_index c
      in \<lparr>si_roles = roles,
          si_transport = (case transport_kind_of cl of Some t \<Rightarrow> t | None \<Rightarrow> ''inproc''),
          si_nodes = (if cc_nodes cl = [] then [''local''] else cc_nodes cl),
          si_shards = unwrap_or 8 (cc_shards cl), si_replication = unwrap_or 1 (cc_replication cl),
          si_sources = map (\<lambda>i. \<lparr>so_src_id = ic_id i, so_src_kind = ic_kind i, so_src_codec = ck_kind (ic_codec i)\<rparr>) (cf_inputs c),
          si_pipelines = map (\<lambda>p. \<lparr>pi_pipe_id = pc_id p, pi_pipe_from = pc_from p, pi_pipe_route = pc_route p\<rparr>) (cf_pipelines c),
          si_retention = (re_hot (ix_retention ix), re_warm (ix_retention ix), re_cold (ix_retention ix)),
          si_index_path = resolved_path ix, si_cold_path = resolved_cold_path ix,
          si_rule_count = rule_count, si_auth_enabled = False, si_persistence = False\<rparr>)"

section \<open>Reading routes\<close>

record read_env =
  rd_search :: "string \<Rightarrow> nat \<Rightarrow> event list result"
  rd_count :: "nat result"
  rd_sql :: "string \<Rightarrow> (string list \<times> json list) result"
  rd_metrics :: "string option"
  rd_analysis :: analysis_env

datatype read_payload =
    RError string
  | RLogin string nat string "string list"
  | RUser string "string list"
  | RSystem system_info
  | RHealth bool bool
  | RText string
  | RCount nat nat
  | REvents nat "event list"
  | RFields "(string \<times> string \<times> bool) list"
  | RRows string "string list" nat "json list"
  | RIncidents nat "incident list"
  | RRules nat "rule_info list"
  | RCoverage nat nat "(string \<times> string \<times> bool \<times> bool) list"

datatype read_response = Answer nat read_payload

definition failed :: "error \<Rightarrow> read_response" where
  "failed e = Answer 500 (RError (error_display e))"

definition login_handler :: "api_env \<Rightarrow> nat \<Rightarrow> string \<Rightarrow> string \<Rightarrow> api_state \<Rightarrow> read_response" where
  "login_handler E now username password s =
     (case authenticate (ae_auth E) (api_auth s) username password of
        None \<Rightarrow> Answer 401 (RError ''invalid credentials'')
      | Some u \<Rightarrow>
          (case issue (ae_auth E) (api_auth s) now u of
             None \<Rightarrow> Answer 500 (RText ''token signing failed'')
           | Some token \<Rightarrow>
               Answer 200 (RLogin token (as_ttl (api_auth s)) (au_name u) (map access_as_str (au_roles u)))))"

definition me_handler :: "auth_user \<Rightarrow> read_response" where
  "me_handler u = Answer 200 (RUser (au_name u) (map access_as_str (au_roles u)))"

definition system_handler :: "system_info \<Rightarrow> read_response" where
  "system_handler si = Answer 200 (RSystem si)"

definition health :: "api_state \<Rightarrow> read_response" where
  "health s = Answer 200 (RHealth (as_enabled (api_auth s)) (api_store_on s))"

definition metrics_handler :: "read_env \<Rightarrow> read_response" where
  "metrics_handler R =
     (case rd_metrics R of Some t \<Rightarrow> Answer 200 (RText t) | None \<Rightarrow> Answer 404 (RText ''metrics not enabled''))"

definition attached_store :: "api_state \<Rightarrow> edr_store option" where
  "attached_store s = (if api_store_on s then Some (api_store s) else None)"

definition count_handler :: "read_env \<Rightarrow> api_state \<Rightarrow> read_response" where
  "count_handler R s =
     (case rd_count R of
        Inr n \<Rightarrow> Answer 200 (RCount n (alerts_len (attached_store s) (api_ring s)))
      | Inl e \<Rightarrow> failed e)"

definition search_handler :: "read_env \<Rightarrow> string option \<Rightarrow> nat option \<Rightarrow> read_response" where
  "search_handler R q limit =
     (case rd_search R (unwrap_or [] q) (clamp 1 1000 (unwrap_or 50 limit)) of
        Inr es \<Rightarrow> Answer 200 (REvents (length es) es)
      | Inl e \<Rightarrow> failed e)"

fun data_type_debug :: "data_type \<Rightarrow> string" where
  "data_type_debug Utf8 = ''Utf8''"
| "data_type_debug Int64 = ''Int64''"
| "data_type_debug UInt32 = ''UInt32''"
| "data_type_debug Int32 = ''Int32''"

definition search_fields :: read_response where
  "search_fields = Answer 200 (RFields (map (\<lambda>(name, t, nullable). (name, data_type_debug t, nullable)) event_schema))"

definition run_analytics :: "read_env \<Rightarrow> string \<Rightarrow> string \<Rightarrow> read_response" where
  "run_analytics R sql shown =
     (case rd_sql R sql of
        Inr (columns, rows) \<Rightarrow> Answer 200 (RRows shown columns (length rows) rows)
      | Inl e \<Rightarrow> failed e)"

definition bucket_width :: "string \<Rightarrow> nat" where
  "bucket_width interval = nat (max 1 (case parse_duration_micros interval of Some w \<Rightarrow> w | None \<Rightarrow> 3600000000))"

definition histogram_sql :: "string option \<Rightarrow> nat \<Rightarrow> string" where
  "histogram_sql q width =
     ''SELECT (ts / '' @ show_nat width @ '') * '' @ show_nat width @ '' AS bucket, count(*) AS n FROM events'' @
     (case q of
        Some t \<Rightarrow> if trim t = [] then []
                   else '' WHERE message LIKE '' @ [quote] @ ''%'' @ escape t @ ''%'' @ [quote]
      | None \<Rightarrow> []) @
     '' GROUP BY bucket ORDER BY bucket''"

definition search_histogram :: "read_env \<Rightarrow> string option \<Rightarrow> string option \<Rightarrow> read_response" where
  "search_histogram R q interval =
     (let i = unwrap_or ''1h'' interval
      in run_analytics R (histogram_sql q (bucket_width i)) (''histogram interval='' @ i))"

definition sql_handler :: "read_env \<Rightarrow> string option \<Rightarrow> read_response" where
  "sql_handler R q =
     (case q of
        Some sql \<Rightarrow> if trim sql = [] then Answer 400 (RError ''missing `q` (SQL query)'') else run_analytics R sql sql
      | None \<Rightarrow> Answer 400 (RError ''missing `q` (SQL query)''))"

definition query_handler :: "read_env \<Rightarrow> string option \<Rightarrow> read_response" where
  "query_handler R q =
     (case q of
        Some dsl \<Rightarrow>
          if trim dsl = [] then Answer 400 (RError ''missing `q` (pipe-DSL query)'')
          else (case lower dsl of
                  Inr sql \<Rightarrow> run_analytics R sql sql
                | Inl e \<Rightarrow> Answer 400 (RError (error_display e)))
      | None \<Rightarrow> Answer 400 (RError ''missing `q` (pipe-DSL query)''))"

definition stored_records :: "api_env \<Rightarrow> timestamp \<Rightarrow> api_state \<Rightarrow> alert_record list" where
  "stored_records E now s = records (ae_hash E) now 100000 None (attached_store s) (api_ring s)"

definition alert_techniques :: "alert list \<Rightarrow> (string \<times> string) list" where
  "alert_techniques as =
     fold (\<lambda>a m. case al_technique a of Some t \<Rightarrow> fold (\<lambda>e. or_insert e t) (al_events a) m | None \<Rightarrow> m) as []"

definition incidents_config :: campaign_config where
  "incidents_config = campaign_config_default\<lparr>cf_window_micros := 24 * 60 * 60 * 1000000\<rparr>"

text \<open>The outer option is a panic of the analysis.\<close>

definition incidents_handler :: "api_env \<Rightarrow> read_env \<Rightarrow> timestamp \<Rightarrow> api_state \<Rightarrow> read_response option" where
  "incidents_handler E R now s =
     (case rd_search R [] 5000 of
        Inl e \<Rightarrow> Some (failed e)
      | Inr events \<Rightarrow>
          map_option (\<lambda>a. Answer 200 (RIncidents (length (ay_incidents a)) (ay_incidents a)))
            (analyze (rd_analysis R) incidents_config
              (causal_config_default\<lparr>cc_window_micros := cf_window_micros incidents_config\<rparr>)
              (alert_techniques (map ar_alert (stored_records E now s))) events))"

definition rules_handler :: "api_state \<Rightarrow> read_response" where
  "rules_handler s = Answer 200 (RRules (length (en_rules (api_engine s))) (rule_infos (api_engine s)))"

definition attack_coverage :: "api_env \<Rightarrow> timestamp \<Rightarrow> api_state \<Rightarrow> read_response" where
  "attack_coverage E now s =
     (let covered = set (List.map_filter ri_technique (rule_infos (api_engine s)));
          observed = set (List.map_filter (al_technique \<circ> ar_alert) (stored_records E now s))
      in Answer 200 (RCoverage (card covered) (card observed)
           (map (\<lambda>t. (t, tactic_for (Some t) (OtherClass 0), t \<in> covered, t \<in> observed))
             (sorted_list_of_set (covered \<union> observed)))))"

section \<open>Properties\<close>

lemma those_map_eq: "\<forall>x \<in> set xs. f x = Some (g x) \<Longrightarrow> those (map f xs) = Some (map g xs)"
  by (induction xs) auto

lemma enumerate_snd: "q \<in> set (enumerate n xs) \<Longrightarrow> snd q \<in> set xs"
  by (induction xs arbitrary: n) auto

lemma member_ids: "e \<in> set (member_events all ids) \<Longrightarrow> ev_id e \<in> set ids"
proof -
  assume "e \<in> set (member_events all ids)"
  then obtain i where i: "i \<in> set ids" "map_of (rev (map (\<lambda>e. (ev_id e, e)) all)) i = Some e"
    by (auto simp: member_events_def List.map_filter_def)
  from map_of_SomeD[OF i(2)] show ?thesis using i(1) by auto
qed

lemma distinct_concat_nth: "distinct (concat ms) \<Longrightarrow> m \<in> set ms \<Longrightarrow> distinct m"
  by (induction ms) auto

lemma campaign_size:
  assumes "campaign_ok cfg emb events m c" "distinct m"
  shows "length (cd_events c) \<le> length events"
proof -
  have "length (cd_events c) = card (set m)"
    using assms by (simp add: campaign_ok_def member_order_def distinct_card)
  also have "\<dots> \<le> card {..< length events}" using assms(1) by (intro card_mono) (auto simp: campaign_ok_def)
  finally show ?thesis by simp
qed

text \<open>
  The analysis of any batch of up to \<open>2^64\<close> events with distinct ids, as the command line and the
  incidents route run it, returns: one incident per campaign candidate, in the order and with the
  number of its candidate, whose chain is ordered by time and consists of events of that candidate.
\<close>

theorem analysis_total:
  assumes "distinct (map ev_id events)" "length events < 2 ^ 64"
    and "\<And>l. mset (ax_links X l) = mset l" "\<And>l. mset (ax_comps X l) = mset l"
  shows "\<exists>a. analyze X cfg causal ts events = Some a \<and>
    map in_id (ay_incidents a) = map cd_id (ay_candidates a) \<and>
    map in_events (ay_incidents a) = map cd_events (ay_candidates a) \<and>
    (\<forall>inc \<in> set (ay_incidents a). sorted (map is_ts (in_chain inc)) \<and>
       set (map is_event_id (in_chain inc)) \<subseteq> set (in_events inc))"
proof -
  obtain cands ms where c: "build_campaigns (node_embed X) (ax_links X) (ax_comps X) events cfg = Some cands"
    "map cd_id cands = [0 ..< length cands]" "distinct (concat ms)"
    "list_all2 (campaign_ok cfg (node_embed X) events) ms cands"
    using campaigns_built[of events "ax_links X" "ax_comps X" "node_embed X" cfg] assms by blast
  have inc: "\<exists>x. build_incident i cand events ts (beam_selector 4) causal = Some x \<and> in_id x = i \<and>
      in_events x = cd_events cand \<and> sorted (map is_ts (in_chain x)) \<and>
      set (map is_event_id (in_chain x)) \<subseteq> set (cd_events cand)" if cand: "cand \<in> set cands" for i cand
  proof -
    obtain m where m: "m \<in> set ms" "campaign_ok cfg (node_embed X) events m cand"
      using cand c(4) by (metis in_set_conv_nth list_all2_conv_all_nth)
    have "length (cd_events cand) < 2 ^ 64"
      using campaign_size[OF m(2) distinct_concat_nth[OF c(3) m(1)]] assms(2) by simp
    from incident_built[OF this, of i events ts 4 causal] obtain x p where
      x: "build_incident i cand events ts (beam_selector 4) causal = Some x" "in_events x = cd_events cand"
        "in_chain x = map (\<lambda>n. step_of (causal_node_of ts (sort_key ev_ts (member_events events (cd_events cand)) ! n))) p"
        "set p \<subseteq> {..< length (sort_key ev_ts (member_events events (cd_events cand)))}" "sorted (map is_ts (in_chain x))"
      by blast
    have "in_id x = i" using x(1) by (auto simp: build_incident_def Let_def split: option.splits if_splits)
    moreover have "ev_id (sort_key ev_ts (member_events events (cd_events cand)) ! n) \<in> set (cd_events cand)" if "n \<in> set p" for n
      using x(4) that member_ids[of _ events "cd_events cand"] by (metis lessThan_iff nth_mem set_sort subsetD)
    ultimately show ?thesis using x by (auto simp: step_of_def causal_node_of_def Let_def)
  qed
  let ?f = "\<lambda>(i, cand). build_incident i cand events ts (beam_selector 4) causal"
  define g where "g q = the (?f q)" for q
  have some: "\<forall>q \<in> set (enumerate 0 cands). ?f q = Some (g q)"
  proof
    fix q assume q: "q \<in> set (enumerate 0 cands)"
    obtain i cand where "q = (i, cand)" by fastforce
    with inc[OF enumerate_snd[OF q], of i] show "?f q = Some (g q)" by (auto simp: g_def)
  qed
  have a: "analyze X cfg causal ts events = Some \<lparr>ay_candidates = cands, ay_incidents = map g (enumerate 0 cands)\<rparr>"
    unfolding analyze_def c(1) option.case those_map_eq[OF some] by simp
  have facts: "in_id (g q) = fst q \<and> in_events (g q) = cd_events (snd q) \<and> sorted (map is_ts (in_chain (g q))) \<and>
      set (map is_event_id (in_chain (g q))) \<subseteq> set (in_events (g q))" if "q \<in> set (enumerate 0 cands)" for q
  proof -
    obtain i cand where q: "q = (i, cand)" by fastforce
    then have "cand \<in> set cands" using enumerate_snd[OF that] by simp
    from inc[OF this, of i] obtain x where
      "build_incident i cand events ts (beam_selector 4) causal = Some x" "in_id x = i" "in_events x = cd_events cand"
      "sorted (map is_ts (in_chain x))" "set (map is_event_id (in_chain x)) \<subseteq> set (cd_events cand)" by blast
    then show ?thesis by (simp add: q g_def)
  qed
  have ids: "map (\<lambda>q. in_id (g q)) (enumerate 0 cands) = map cd_id cands"
    by (rule trans[OF map_cong[OF refl, of _ _ fst]]) (simp_all add: facts c(2))
  have "map cd_events cands = map (cd_events \<circ> snd) (enumerate 0 cands)"
    by (metis list.map_comp map_snd_enumerate)
  then have evs: "map (\<lambda>q. in_events (g q)) (enumerate 0 cands) = map cd_events cands"
    by (simp add: facts)
  have chains: "\<forall>q \<in> set (enumerate 0 cands). sorted (map is_ts (in_chain (g q))) \<and>
      set (map is_event_id (in_chain (g q))) \<subseteq> set (in_events (g q))"
    using facts by blast
  show ?thesis
    by (intro exI[of _ "\<lparr>ay_candidates = cands, ay_incidents = map g (enumerate 0 cands)\<rparr>"] conjI)
      (use a ids evs chains in \<open>simp_all add: comp_def\<close>)
qed

text \<open>Two events of one user in a node that hashes every token to 0.\<close>

theorem analysis_total_witness:
  "\<exists>a. analyze \<lparr>ax_hash = (\<lambda>_. 0), ax_links = rev, ax_comps = rev\<rparr> campaign_config_default causal_config_default
        [] sample_batch = Some a \<and> map in_id (ay_incidents a) = map cd_id (ay_candidates a)"
proof -
  have "distinct (map ev_id sample_batch)" by (simp add: sample_batch_def new_event_def)
  moreover have "length sample_batch < 2 ^ 64" by (simp add: sample_batch_def)
  ultimately show ?thesis
    using analysis_total[of sample_batch "\<lparr>ax_hash = (\<lambda>_. 0), ax_links = rev, ax_comps = rev\<rparr>"] by fastforce
qed

lemma escape_like: "''%'' @ escape t @ ''%'' = escape (''%'' @ t @ ''%'')"
  by (simp add: escape_def replace_char_def quote_def)

text \<open>
  The text searched for by the histogram route stays data: the statement is fixed text around one
  string literal, which is closed before the fixed text goes on and, read back, is the pattern with
  exactly the given text.
\<close>

theorem histogram_text_is_data:
  assumes "trim t \<noteq> []"
  shows "\<exists>lit.
    histogram_sql (Some t) width =
      ''SELECT (ts / '' @ show_nat width @ '') * '' @ show_nat width @ '' AS bucket, count(*) AS n FROM events'' @
      '' WHERE message LIKE '' @ [quote] @ lit @ '' GROUP BY bucket ORDER BY bucket'' \<and>
    sql_content lit = Some (''%'' @ t @ ''%'') \<and> sql_scan Quoted lit = Some Plain"
proof (intro exI conjI)
  let ?lit = "escape (''%'' @ t @ ''%'') @ [quote]"
  show "sql_content ?lit = Some (''%'' @ t @ ''%'')" by (rule sql_content_escape)
  show "sql_scan Quoted ?lit = Some Plain" by (simp add: sql_scan_append scan_escape del: append_Cons append_assoc)
  show "histogram_sql (Some t) width =
      ''SELECT (ts / '' @ show_nat width @ '') * '' @ show_nat width @ '' AS bucket, count(*) AS n FROM events'' @
      '' WHERE message LIKE '' @ [quote] @ ?lit @ '' GROUP BY bucket ORDER BY bucket''"
    using assms unfolding histogram_sql_def escape_like[symmetric] by simp
qed

theorem histogram_text_is_data_witness:
  "\<exists>lit. sql_content lit = Some (''%'' @ [CHR ''a'', quote, CHR '';''] @ ''%'') \<and> sql_scan Quoted lit = Some Plain"
proof -
  have "trim [CHR ''a'', quote, CHR '';''] \<noteq> []"
    by (simp add: trim_def trim_start_def trim_end_def is_space_def quote_def)
  from histogram_text_is_data[OF this, of 1] show ?thesis by blast
qed

lemma count_marks:
  assumes "finite A" "S \<subseteq> A" "\<And>t. g (row t) \<longleftrightarrow> t \<in> S"
  shows "card S = length (filter g (map row (sorted_list_of_set A)))"
proof -
  let ?ts = "filter (\<lambda>t. t \<in> S) (sorted_list_of_set A)"
  have "filter g (map row (sorted_list_of_set A)) = map row ?ts"
    by (simp add: filter_map comp_def assms(3))
  moreover have "length ?ts = card (set ?ts)" by (rule distinct_card[symmetric]) simp
  moreover have "set ?ts = S" using assms(1,2) by auto
  ultimately show ?thesis by simp
qed

text \<open>
  The coverage route lists every technique once, in order: those of loaded rules and those of
  recorded alerts, each marked with which of the two it is, and the two totals count the marks.
\<close>

theorem coverage_exact:
  "\<exists>rows c k. attack_coverage E now s = Answer 200 (RCoverage c k rows) \<and>
     sorted (map fst rows) \<and> distinct (map fst rows) \<and>
     set rows = {(t, tactic_for (Some t) (OtherClass 0),
                  Some t \<in> cr_technique ` set (en_rules (api_engine s)),
                  Some t \<in> (al_technique \<circ> ar_alert) ` set (stored_records E now s)) | t.
        Some t \<in> cr_technique ` set (en_rules (api_engine s)) \<or>
        Some t \<in> (al_technique \<circ> ar_alert) ` set (stored_records E now s)} \<and>
     c = length (filter (fst \<circ> snd \<circ> snd) rows) \<and> k = length (filter (snd \<circ> snd \<circ> snd) rows)"
proof -
  let ?cov = "set (List.map_filter ri_technique (rule_infos (api_engine s)))"
  let ?obs = "set (List.map_filter (al_technique \<circ> ar_alert) (stored_records E now s))"
  let ?ts = "sorted_list_of_set (?cov \<union> ?obs)"
  let ?row = "\<lambda>t. (t, tactic_for (Some t) (OtherClass 0), t \<in> ?cov, t \<in> ?obs)"
  have mf: "t \<in> set (List.map_filter f xs) \<longleftrightarrow> Some t \<in> f ` set xs" for f :: "'b \<Rightarrow> string option" and t xs
    by (induction xs) (auto simp: List.map_filter_simps split: option.splits)
  have cov: "t \<in> ?cov \<longleftrightarrow> Some t \<in> cr_technique ` set (en_rules (api_engine s))" for t
    unfolding mf by (auto simp: rule_infos_def image_iff)
  have obs: "t \<in> ?obs \<longleftrightarrow> Some t \<in> (al_technique \<circ> ar_alert) ` set (stored_records E now s)" for t
    by (rule mf)
  have "attack_coverage E now s = Answer 200 (RCoverage (card ?cov) (card ?obs) (map ?row ?ts))"
    by (simp add: attack_coverage_def Let_def)
  moreover have "map fst (map ?row ?ts) = ?ts" by (simp add: comp_def)
  moreover have "card ?cov = length (filter (fst \<circ> snd \<circ> snd) (map ?row ?ts))" by (rule count_marks) auto
  moreover have "card ?obs = length (filter (snd \<circ> snd \<circ> snd) (map ?row ?ts))" by (rule count_marks) auto
  moreover have "set (map ?row ?ts) = {(t, tactic_for (Some t) (OtherClass 0),
        Some t \<in> cr_technique ` set (en_rules (api_engine s)),
        Some t \<in> (al_technique \<circ> ar_alert) ` set (stored_records E now s)) | t.
        Some t \<in> cr_technique ` set (en_rules (api_engine s)) \<or>
        Some t \<in> (al_technique \<circ> ar_alert) ` set (stored_records E now s)}"
    unfolding cov[symmetric] obs[symmetric] by auto
  ultimately show ?thesis
    by (intro exI[of _ "map ?row ?ts"] exI[of _ "card ?cov"] exI[of _ "card ?obs"]) simp
qed

end
