(* ===== verification/Node_Loop.thy ===== *)
theory Node_Loop
  imports Node_Pipeline
begin

text \<open>
  The consumer loop of \<open>run\<close> of \<open>crates/sigil-cli/src/run.rs\<close> with every way it is left: the branches of
  the pipeline theory, each with the errors the code returns from it, the shutdown, and the
  drain of the inputs. What the index, the cold tier, the archive and the catalog refuse is given by
  \<open>io_faults\<close>. The first error ends the run; what is in memory then is dropped with the process, so an
  error carries no state.
\<close>

section \<open>What can fail\<close>

text \<open>
  The answers of the environment: to the addition of an event when so many were handed to the index,
  to a commit when so many documents are searchable, to the writing of the segment of a clock
  reading; the deletions the archive refuses and the failure to save the catalog at a retention
  tick, the uploads it accepts, and the final count.
\<close>

record io_faults =
  io_add :: "nat \<Rightarrow> error option"
  io_commit :: "nat \<Rightarrow> error option"
  io_roll :: "nat \<Rightarrow> error option"
  io_refuse :: "timestamp \<Rightarrow> string \<Rightarrow> error option"
  io_catalog :: "timestamp \<Rightarrow> error option"
  io_put :: "timestamp \<Rightarrow> string \<Rightarrow> bool"
  io_count :: "error option"

section \<open>The branches with their errors\<close>

definition try_roll :: "io_faults \<Rightarrow> ('f, 'g) pipeline_env \<Rightarrow> ('g, 'b) node \<Rightarrow> ('g, 'b) node result" where
  "try_roll F E nd =
     (if nd_buffer nd = [] then Inr nd
      else case io_roll F (nd_readings nd) of Some e \<Rightarrow> Inl e | None \<Rightarrow> Inr (roll E nd))"

definition try_index :: "io_faults \<Rightarrow> ('f, 'g) pipeline_env \<Rightarrow> event \<Rightarrow> ('g, 'b) node \<Rightarrow> ('g, 'b) node result" where
  "try_index F E ev nd =
     (case io_add F (length (stream nd)) of
        Some e \<Rightarrow> Inl e
      | None \<Rightarrow>
          let nd' = nd\<lparr>nd_index := index_add ev (nd_index nd), nd_dirty := Suc (nd_dirty nd), nd_buffer := nd_buffer nd @ [ev]\<rparr>
          in if roll_max \<le> length (nd_buffer nd') then try_roll F E nd' else Inr nd')"

definition try_event ::
  "io_faults \<Rightarrow> ('f, 'g::linorder) pipeline_env \<Rightarrow> timestamp \<Rightarrow> bool \<Rightarrow> bool \<Rightarrow> event \<Rightarrow> ('g, 'b) node \<Rightarrow> ('g, 'b) node result" where
  "try_event F E now sigma index ev nd =
     (let (nd1, ev') = with_template E ev nd;
          nd2 = (if sigma then detect E now ev' nd1 else nd1)
      in if index then try_index F E ev' nd2 else Inr nd2)"

fun try_events ::
  "io_faults \<Rightarrow> ('f, 'g::linorder) pipeline_env \<Rightarrow> timestamp \<Rightarrow> bool \<Rightarrow> bool \<Rightarrow> event list \<Rightarrow> ('g, 'b) node \<Rightarrow> ('g, 'b) node result" where
  "try_events F E now sigma index [] nd = Inr nd"
| "try_events F E now sigma index (ev # evs) nd =
     and_then (try_event F E now sigma index ev nd) (try_events F E now sigma index evs)"

definition try_frame ::
  "io_faults \<Rightarrow> ('f::linorder, 'g::linorder) pipeline_env \<Rightarrow> timestamp \<Rightarrow> raw_frame \<Rightarrow> ('g, 'b) node \<Rightarrow> ('g, 'b) node result" where
  "try_frame F E now fr nd =
     and_then (decode_normalize E now fr nd) (\<lambda>(nd', evs). try_events F E now (fr_sigma fr) (fr_index fr) evs nd')"

definition commit_index :: "io_faults \<Rightarrow> event_index \<Rightarrow> event_index result" where
  "commit_index F x = (case io_commit F (index_count x) of Some e \<Rightarrow> Inl e | None \<Rightarrow> Inr (index_commit x))"

definition try_commit :: "io_faults \<Rightarrow> ('g, 'b) node \<Rightarrow> ('g, 'b) node result" where
  "try_commit F nd =
     (if 0 < nd_dirty nd
      then and_then (commit_index F (nd_index nd)) (\<lambda>x. Inr (nd\<lparr>nd_index := x, nd_dirty := 0\<rparr>))
      else Inr nd)"

definition try_retention ::
  "io_faults \<Rightarrow> ('f, 'g) pipeline_env \<Rightarrow> timestamp \<Rightarrow> ('g, 'b) node \<Rightarrow> ('g, 'b) node result" where
  "try_retention F E now nd = on_retention E (io_refuse F now) (io_catalog F now) (io_put F now) now nd"

definition try_shutdown :: "io_faults \<Rightarrow> ('f, 'g) pipeline_env \<Rightarrow> ('g, 'b) node \<Rightarrow> ('g, 'b) node result" where
  "try_shutdown F E nd =
     and_then (commit_index F (nd_index nd)) (\<lambda>x.
     and_then (try_roll F E (nd\<lparr>nd_index := x\<rparr>)) (\<lambda>nd'.
       case io_count F of Some e \<Rightarrow> Inl e | None \<Rightarrow> Inr nd'))"

section \<open>The loop\<close>

text \<open>
  What \<open>select!\<close> can take next. The flag of the loop says whether inputs are still open; the branch
  on frames is disabled once they are not. A \<open>Stopped\<close> node says whether it was interrupted.
\<close>

datatype loop_event =
    GotFrame timestamp raw_frame
  | InputsEnded
  | GotEvent timestamp event
  | CommitTick
  | RolloverTick
  | RetentionTick timestamp
  | CtrlC

datatype ('g, 'b) loop_state = Running bool "('g, 'b) node" | Stopped bool "('g, 'b) node"

fun loop_step ::
  "io_faults \<Rightarrow> ('f::linorder, 'g::linorder) pipeline_env \<Rightarrow> bool \<Rightarrow> loop_event \<Rightarrow> bool \<Rightarrow> ('g, 'b) node \<Rightarrow>
     ('g, 'b) loop_state result" where
  "loop_step F E long (GotFrame now fr) inputs nd =
     (if inputs then and_then (try_frame F E now fr nd) (\<lambda>nd'. Inr (Running True nd')) else Inr (Running False nd))"
| "loop_step F E long InputsEnded inputs nd =
     (if inputs \<and> \<not> long then and_then (try_shutdown F E nd) (\<lambda>nd'. Inr (Stopped False nd')) else Inr (Running False nd))"
| "loop_step F E long (GotEvent now ev) inputs nd =
     and_then (try_event F E now (pe_sigma_active E) True ev nd) (\<lambda>nd'. Inr (Running inputs nd'))"
| "loop_step F E long CommitTick inputs nd = and_then (try_commit F nd) (\<lambda>nd'. Inr (Running inputs nd'))"
| "loop_step F E long RolloverTick inputs nd = and_then (try_roll F E nd) (\<lambda>nd'. Inr (Running inputs nd'))"
| "loop_step F E long (RetentionTick now) inputs nd = and_then (try_retention F E now nd) (\<lambda>nd'. Inr (Running inputs nd'))"
| "loop_step F E long CtrlC inputs nd = and_then (try_shutdown F E nd) (\<lambda>nd'. Inr (Stopped True nd'))"

fun run_loop ::
  "io_faults \<Rightarrow> ('f::linorder, 'g::linorder) pipeline_env \<Rightarrow> bool \<Rightarrow> loop_event list \<Rightarrow> bool \<Rightarrow> ('g, 'b) node \<Rightarrow>
     ('g, 'b) loop_state result" where
  "run_loop F E long [] inputs nd = Inr (Running inputs nd)"
| "run_loop F E long (ev # evs) inputs nd =
     and_then (loop_step F E long ev inputs nd) (\<lambda>st.
       case st of Running o' nd' \<Rightarrow> run_loop F E long evs o' nd' | Stopped i nd' \<Rightarrow> Inr (Stopped i nd'))"

section \<open>Errors are the environment's\<close>

definition io_error :: "io_faults \<Rightarrow> error \<Rightarrow> bool" where
  "io_error F e \<longleftrightarrow> (\<exists>n. io_add F n = Some e \<or> io_commit F n = Some e \<or> io_roll F n = Some e) \<or>
     (\<exists>now. io_catalog F now = Some e \<or> (\<exists>p. io_refuse F now p = Some e)) \<or> io_count F = Some e"

text \<open>A step either fails with one of these errors or does what it does when nothing fails.\<close>

definition does :: "io_faults \<Rightarrow> 'a result \<Rightarrow> 'a \<Rightarrow> bool" where
  "does F r x \<longleftrightarrow> (case r of Inl e \<Rightarrow> io_error F e | Inr y \<Rightarrow> y = x)"

named_theorems does_intros

lemma does_Inr [does_intros]: "does F (Inr x) x"
  by (simp add: does_def)

lemma does_InrD: "does F (Inr y) x \<Longrightarrow> y = x"
  by (simp add: does_def)

lemma does_then: "does F r x \<Longrightarrow> does F (k x) y \<Longrightarrow> does F (and_then r k) y"
  by (cases r) (auto simp: does_def)

lemma does_if: "(b \<Longrightarrow> does F r x) \<Longrightarrow> (\<not> b \<Longrightarrow> does F r' x) \<Longrightarrow> does F (if b then r else r') x"
  by simp

lemma does_fault: "(\<And>e. q = Some e \<Longrightarrow> io_error F e) \<Longrightarrow> (q = None \<Longrightarrow> does F r x) \<Longrightarrow>
    does F (case q of Some e \<Rightarrow> Inl e | None \<Rightarrow> r) x"
  by (cases q) (auto simp: does_def)

lemma does_roll: "does F (try_roll F E nd) (roll E nd)"
  unfolding try_roll_def
  by (intro does_if does_fault) (auto simp: io_error_def roll_def intro: does_intros)

lemma does_index: "does F (try_index F E ev nd) (index_event E ev nd)"
  unfolding try_index_def index_event_def Let_def
  by (intro does_fault) (auto simp: io_error_def intro: does_intros does_roll)

lemma does_event: "does F (try_event F E now sigma index ev nd) (process_event E now sigma index ev nd)"
  by (auto simp: try_event_def process_event_def Let_def intro: does_intros does_index split: prod.split)

lemma does_events: "does F (try_events F E now sigma index evs nd) (fold (process_event E now sigma index) evs nd)"
  by (induction evs arbitrary: nd) (auto intro: does_intros does_then does_event)

lemma decode_succeeds: "\<exists>rs. decode P k raw = Inr rs"
  by (cases k) auto

lemma does_frame: "\<exists>nd'. on_frame E now fr nd = Inr nd' \<and> does F (try_frame F E now fr nd) nd'"
proof -
  obtain m k where k: "codec_get (fr_codec fr) (nd_codecs nd) = (m, k)" by fastforce
  obtain rs where "decode (pe_parse_json E) k (fr_bytes fr) = Inr rs" using decode_succeeds by blast
  with k show ?thesis by (simp add: on_frame_def try_frame_def decode_normalize_def does_events)
qed

lemma frame_total: "\<exists>nd'. on_frame E now fr nd = Inr nd'"
  using does_frame by blast

lemma does_commit_index: "does F (commit_index F x) (index_commit x)"
  unfolding commit_index_def by (intro does_fault) (auto simp: io_error_def intro: does_intros)

lemma does_commit: "does F (try_commit F nd) (on_commit nd)"
  unfolding try_commit_def on_commit_def by (auto intro: does_then does_commit_index does_intros)

lemma does_shutdown: "does F (try_shutdown F E nd) (on_shutdown E nd)"
  unfolding try_shutdown_def on_shutdown_def
  by (intro does_then [OF does_commit_index] does_then [OF does_roll] does_fault) (auto simp: io_error_def intro: does_intros)

lemma delete_objects_error: "delete_objects refuse ss a = (a', Inl e) \<Longrightarrow> \<exists>p. refuse p = Some e"
  by (induction ss arbitrary: a) (auto split: option.splits)

lemma retention_run_error:
  "retention_run refuse save now age st = (st', Inl e) \<Longrightarrow> save = Some e \<or> (\<exists>p. refuse p = Some e)"
  by (cases "cs_archive st"; cases save)
    (auto simp: retention_run_def Let_def split: prod.splits sum.splits nat.splits dest!: delete_objects_error)

lemma try_retention_error: "try_retention F E now nd = Inl e \<Longrightarrow> io_error F e"
proof -
  assume a: "try_retention F E now nd = Inl e"
  then obtain age where age: "pe_retention E = Some age"
    by (cases "pe_retention E") (simp_all add: try_retention_def on_retention_def)
  obtain c r where c: "retention_run (io_refuse F now) (io_catalog F now) now age (nd_cold nd) = (c, r)" by fastforce
  from a have "r = Inl e" by (cases r) (simp_all add: try_retention_def on_retention_def age c)
  from retention_run_error [OF c [unfolded this]] show ?thesis by (auto simp: io_error_def)
qed

section \<open>What the loop accepts\<close>

text \<open>
  The events that have to reach the index, read off the inputs alone: the events decoded from each
  frame that is routed to the index, numbered through, and every agent event, until the loop is
  left. Templates depend on the miner and are left out.
\<close>

fun accepted :: "('f::linorder, 'g) pipeline_env \<Rightarrow> bool \<Rightarrow> bool \<Rightarrow> nat \<Rightarrow> loop_event list \<Rightarrow> event list" where
  "accepted E long inputs n [] = []"
| "accepted E long inputs n (GotFrame now fr # evs) =
     (case (inputs, decode (pe_parse_json E) (build_codec (fr_codec fr)) (fr_bytes fr)) of
        (True, Inr rs) \<Rightarrow> (if fr_index fr then map untemplated (normalize_from E now n rs) else []) @
          accepted E long inputs (n + length rs) evs
      | _ \<Rightarrow> accepted E long inputs n evs)"
| "accepted E long inputs n (InputsEnded # evs) = (if inputs \<and> \<not> long then [] else accepted E long False n evs)"
| "accepted E long inputs n (GotEvent now ev # evs) = untemplated ev # accepted E long inputs n evs"
| "accepted E long inputs n (CtrlC # evs) = []"
| "accepted E long inputs n (_ # evs) = accepted E long inputs n evs"

lemma process_event_fresh: "nd_fresh (process_event E now sigma index ev nd) = nd_fresh nd"
  by (auto simp: process_event_def with_template_def Let_def split: prod.split)

lemma process_events_fresh: "nd_fresh (fold (process_event E now sigma index) evs nd) = nd_fresh nd"
  by (induction evs arbitrary: nd) (simp_all add: process_event_fresh)

lemma frame_accepts:
  assumes "codecs_ok (nd_codecs nd)" and "on_frame E now fr nd = Inr nd'"
  shows "\<exists>rs. decode (pe_parse_json E) (build_codec (fr_codec fr)) (fr_bytes fr) = Inr rs \<and>
    map untemplated (stream nd') = map untemplated (stream nd) @
      (if fr_index fr then map untemplated (normalize_from E now (nd_fresh nd) rs) else []) \<and>
    nd_fresh nd' = nd_fresh nd + length rs \<and> codecs_ok (nd_codecs nd')"
proof -
  obtain m c where g: "codec_get (fr_codec fr) (nd_codecs nd) = (m, c)" by fastforce
  with codec_get_ok [OF assms(1), of "fr_codec fr"] have c: "c = build_codec (fr_codec fr)" "codecs_ok m" by auto
  obtain rs where rs: "decode (pe_parse_json E) c (fr_bytes fr) = Inr rs" using decode_succeeds by blast
  let ?nd = "nd\<lparr>nd_codecs := m, nd_fresh := nd_fresh nd + length rs\<rparr>"
  have "nd' = fold (process_event E now (fr_sigma fr) (fr_index fr)) (normalize_from E now (nd_fresh nd) rs) ?nd"
    using assms(2) by (simp add: on_frame_def decode_normalize_def g rs)
  moreover have "stream ?nd = stream nd" by (rule stream_cong) simp
  ultimately show ?thesis using rs c by (simp add: process_events_stream process_events_fresh)
qed

section \<open>Runs of the loop\<close>

text \<open>
  What a step that did not fail leaves: the state is reached by steps of the pipeline, and the stream
  followed by what the rest of the run accepts is the earlier stream followed by \<open>goal\<close>.
\<close>

definition leaves ::
  "('f::linorder, 'g::linorder) pipeline_env \<Rightarrow> bool \<Rightarrow> loop_event list \<Rightarrow> ('g, 'b) node \<Rightarrow> event list \<Rightarrow> ('g, 'b) loop_state \<Rightarrow> bool" where
  "leaves E long evs nd goal st =
     (case st of
        Running inputs nd' \<Rightarrow> (node_step E)\<^sup>*\<^sup>* nd nd' \<and> codecs_ok (nd_codecs nd') \<and>
          map untemplated (stream nd') @ accepted E long inputs (nd_fresh nd') evs = map untemplated (stream nd) @ goal
      | Stopped _ nd' \<Rightarrow> nd' = on_shutdown E nd \<and> goal = [])"

lemma tick_leaves:
  "node_step E nd nd' \<Longrightarrow> codecs_ok (nd_codecs nd) \<Longrightarrow> nd_codecs nd' = nd_codecs nd \<Longrightarrow> stream nd' = stream nd \<Longrightarrow>
   nd_fresh nd' = nd_fresh nd \<Longrightarrow> leaves E long evs nd (accepted E long inputs (nd_fresh nd) evs) (Running inputs nd')"
  by (auto simp: leaves_def)

lemma loop_step_leaves:
  assumes ok: "codecs_ok (nd_codecs nd)"
  shows "case loop_step F E long ev inputs nd of
      Inl e \<Rightarrow> io_error F e
    | Inr st \<Rightarrow> leaves E long evs nd (accepted E long inputs (nd_fresh nd) (ev # evs)) st"
proof (cases ev)
  case (GotFrame now fr)
  from does_frame [of E now fr nd F] obtain nd' where f: "on_frame E now fr nd = Inr nd'"
    "does F (try_frame F E now fr nd) nd'" by blast
  from frame_accepts [OF ok f(1)] node_step.frame [OF f(1)] f(2) ok GotFrame show ?thesis
    by (cases "try_frame F E now fr nd") (auto simp: leaves_def does_def)
next
  case (GotEvent now ev)
  let ?nd = "process_event E now (pe_sigma_active E) True ev nd"
  have "node_step E nd ?nd" using node_step.agent_event [of E nd now ev] by (simp add: on_agent_event_def)
  with GotEvent ok does_event [of F E now "pe_sigma_active E" True ev nd] show ?thesis
    by (cases "try_event F E now (pe_sigma_active E) True ev nd")
      (auto simp: leaves_def does_def process_event_stream process_event_fresh)
next
  case CommitTick
  have "nd_fresh (on_commit nd) = nd_fresh nd" by (simp add: on_commit_def)
  with CommitTick ok does_commit [of F nd] tick_leaves [OF node_step.commit ok] show ?thesis
    by (cases "try_commit F nd") (auto simp: does_def)
next
  case RolloverTick
  have "nd_fresh (on_rollover E nd) = nd_fresh nd" by (simp add: on_rollover_def roll_def)
  with RolloverTick ok does_roll [of F E nd] tick_leaves [OF node_step.rollover ok] show ?thesis
    by (cases "try_roll F E nd") (auto simp: does_def on_rollover_def)
next
  case (RetentionTick now)
  show ?thesis
  proof (cases "try_retention F E now nd")
    case (Inl e)
    with RetentionTick try_retention_error [OF Inl] show ?thesis by simp
  next
    case (Inr nd')
    note r = Inr [unfolded try_retention_def]
    have "nd_fresh nd' = nd_fresh nd" using on_retention_ok [OF r] by simp
    with RetentionTick Inr retention_keeps [OF r] tick_leaves [OF node_step.retention [OF r] ok] show ?thesis by simp
  qed
next
  case InputsEnded
  with ok does_shutdown [of F E nd] show ?thesis
    by (cases "try_shutdown F E nd") (auto simp: leaves_def does_def)
next
  case CtrlC
  with ok does_shutdown [of F E nd] show ?thesis
    by (cases "try_shutdown F E nd") (auto simp: leaves_def does_def)
qed

text \<open>A whole run: it ends with an error of the environment, goes on, or was shut down having accepted everything.\<close>

lemma run_loop_ends:
  assumes "codecs_ok (nd_codecs nd)"
  shows "case run_loop F E long evs inputs nd of
      Inl e \<Rightarrow> io_error F e
    | Inr (Running _ _) \<Rightarrow> CtrlC \<notin> set evs
    | Inr (Stopped i nd') \<Rightarrow> \<exists>nd1. (node_step E)\<^sup>*\<^sup>* nd nd1 \<and> nd' = on_shutdown E nd1 \<and>
        map untemplated (stream nd1) = map untemplated (stream nd) @ accepted E long inputs (nd_fresh nd) evs"
  using assms
proof (induction evs arbitrary: inputs nd)
  case (Cons ev evs)
  note one = loop_step_leaves [OF Cons.prems, where F = F and E = E and long = long and ev = ev and inputs = inputs and evs = evs]
  show ?case
  proof (cases "loop_step F E long ev inputs nd")
    case (Inl e)
    with one show ?thesis by simp
  next
    case (Inr st)
    note step = this
    show ?thesis
    proof (cases st)
      case (Running o' nd')
      with one step have l: "(node_step E)\<^sup>*\<^sup>* nd nd'" "codecs_ok (nd_codecs nd')"
        "map untemplated (stream nd') @ accepted E long o' (nd_fresh nd') evs =
          map untemplated (stream nd) @ accepted E long inputs (nd_fresh nd) (ev # evs)" by (auto simp: leaves_def)
      have "ev \<noteq> CtrlC" using step Running by (auto simp: and_then_Inr_iff)
      with Cons.IH [OF l(2), where inputs = o'] l step Running show ?thesis
        by (auto split: sum.splits loop_state.splits intro: rtranclp_trans)
    next
      case (Stopped i nd')
      with one step show ?thesis by (auto simp: leaves_def)
    qed
  qed
qed simp

lemma shutdown_is_ticks:
  assumes "nd_dirty nd = length (ei_writer (nd_index nd))"
  shows "on_shutdown E nd = (on_rollover E (on_commit nd))\<lparr>nd_dirty := nd_dirty nd\<rparr>"
  using assms
  by (cases "ei_writer (nd_index nd)")
    (auto simp: on_shutdown_def on_rollover_def on_commit_def roll_def index_commit_def)

text \<open>What a shutdown makes of any state the node can be in.\<close>

lemma shutdown_complete:
  assumes reach: "(node_step E)\<^sup>*\<^sup>* (node_new miner engine corr alerts dir archive) nd"
    and names: "inj_on (segment_name E) {..<nd_readings (on_shutdown E nd)}"
  shows "ei_docs (nd_index (on_shutdown E nd)) = stream nd" "ei_writer (nd_index (on_shutdown E nd)) = []"
    "nd_buffer (on_shutdown E nd) = []"
    "pe_retention E = None \<Longrightarrow>
       concat (map snd (contents (nd_cold (on_shutdown E nd)))) = events_to_batch (pe_json E) (stream nd)"
proof -
  let ?t = "on_rollover E (on_commit nd)"
  have readings: "nd_readings (on_shutdown E nd) = nd_readings ?t"
    by (simp add: on_shutdown_def on_rollover_def on_commit_def roll_def)
  have fresh: "fresh_names E ?t" using names readings by (simp add: fresh_names_def)
  have "(node_step E)\<^sup>*\<^sup>* (node_new miner engine corr alerts dir archive) ?t"
    using reach node_step.commit node_step.rollover by (meson rtranclp.rtrancl_into_rtrancl)
  from node_steps_ok [OF this fresh node_ok_new] obtain W where W: "node_ok E ?t W" by blast
  have "fresh_names E nd"
    by (rule fresh_names_mono [OF fresh]) (simp add: on_rollover_def on_commit_def roll_def)
  from node_steps_ok [OF reach this node_ok_new] obtain W0 where "node_ok E nd W0" by blast
  then have dirty: "nd_dirty nd = length (ei_writer (nd_index nd))" by (simp add: node_ok_def node_acc_def)
  have w: "ei_writer (nd_index ?t) = []" "nd_buffer ?t = []" "stream ?t = stream nd"
    using dirty by (auto simp: on_rollover_def on_commit_def index_commit_def stream_def)
  have eq: "nd_index (on_shutdown E nd) = nd_index ?t" "nd_buffer (on_shutdown E nd) = nd_buffer ?t"
    "nd_cold (on_shutdown E nd) = nd_cold ?t"
    using shutdown_is_ticks [OF dirty, of E] by simp_all
  show "ei_docs (nd_index (on_shutdown E nd)) = stream nd" "ei_writer (nd_index (on_shutdown E nd)) = []"
    "nd_buffer (on_shutdown E nd) = []"
    using w by (simp_all add: eq stream_def)
  show "concat (map snd (contents (nd_cold (on_shutdown E nd)))) = events_to_batch (pe_json E) (stream nd)"
    if "pe_retention E = None"
    using W w that by (auto simp: eq node_ok_def node_acc_def accounted_def segments.batch_Nil)
qed

text \<open>
  C16: An interrupt loses nothing: whatever frames, agent events and ticks a fresh node takes before it,
  malformed lines included, the loop ends, unless the index, the cold tier, the catalog or the archive
  fails, and then with that error. When it ends well, the searchable documents are, in order and each
  once, up to the template the miner gave them, exactly the events of every frame routed to the index,
  numbered through, and every agent event that came in until then; nothing is left in a buffer,
  and, with retention off, the cold tier holds exactly the searchable events. Segments are named by
  the clock, so its readings have to differ.
\<close>

theorem shutdown_flushes:
  assumes "CtrlC \<in> set evs"
    and "\<And>i nd'. run_loop F E long evs True (node_new miner engine corr alerts dir archive) = Inr (Stopped i nd') \<Longrightarrow>
      inj_on (segment_name E) {..<nd_readings nd'}"
  shows "case run_loop F E long evs True (node_new miner engine corr alerts dir archive) of
      Inl e \<Rightarrow> io_error F e
    | Inr (Running _ _) \<Rightarrow> False
    | Inr (Stopped _ nd') \<Rightarrow>
        map untemplated (ei_docs (nd_index nd')) = accepted E long True 0 evs \<and> ei_writer (nd_index nd') = [] \<and>
        nd_buffer nd' = [] \<and>
        (case pe_retention E of
           None \<Rightarrow> concat (map snd (contents (nd_cold nd'))) = events_to_batch (pe_json E) (ei_docs (nd_index nd'))
         | Some _ \<Rightarrow> True)"
proof -
  let ?n0 = "node_new miner engine corr alerts dir archive"
  have n0: "codecs_ok (nd_codecs ?n0)" "stream ?n0 = []" "nd_fresh ?n0 = 0"
    by (simp_all add: node_new_def codecs_ok_def stream_def index_open_def)
  note ends = run_loop_ends [OF n0(1), where F = F and E = E and long = long and evs = evs and inputs = True]
  show ?thesis
  proof (cases "run_loop F E long evs True ?n0")
    case (Inl e)
    with ends show ?thesis by simp
  next
    case (Inr st)
    note run = this
    show ?thesis
    proof (cases st)
      case (Running o' nd')
      with ends run assms(1) show ?thesis by simp
    next
      case (Stopped i nd')
      with ends run n0 obtain nd1 where nd1: "(node_step E)\<^sup>*\<^sup>* ?n0 nd1" "nd' = on_shutdown E nd1"
        "map untemplated (stream nd1) = accepted E long True 0 evs" by auto
      have "inj_on (segment_name E) {..<nd_readings (on_shutdown E nd1)}"
        using assms(2) run Stopped nd1(2) by blast
      from shutdown_complete [OF nd1(1) this] run Stopped nd1(2,3) show ?thesis by (auto split: option.split)
    qed
  qed
qed

section \<open>Examples\<close>

definition no_faults :: io_faults where
  "no_faults = \<lparr>io_add = (\<lambda>_. None), io_commit = (\<lambda>_. None), io_roll = (\<lambda>_. None), io_refuse = (\<lambda>_ _. None),
     io_catalog = (\<lambda>_. None), io_put = (\<lambda>_ _. True), io_count = None\<rparr>"

lemma no_io_error: "\<not> io_error no_faults e"
  by (simp add: io_error_def no_faults_def)

lemma does_no_faults: "does no_faults r x \<Longrightarrow> r = Inr x"
  by (cases r) (auto simp: does_def no_io_error)

theorem shutdown_flushes_witness:
  "\<exists>i nd'. run_loop no_faults demo_pipe True [GotEvent 0 (new_event ''e'' 5 ''t''), CtrlC] True demo_node = Inr (Stopped i nd') \<and>
     map untemplated (ei_docs (nd_index nd')) = [new_event ''e'' 5 ''t''] \<and> nd_buffer nd' = []"
proof -
  let ?evs = "[GotEvent 0 (new_event ''e'' 5 ''t''), CtrlC]"
  have run: "run_loop no_faults demo_pipe True ?evs True demo_node = Inr (Stopped True (on_shutdown demo_pipe demo_run))"
    using does_no_faults [OF does_event, of demo_pipe 0 "pe_sigma_active demo_pipe" True "new_event ''e'' 5 ''t''" demo_node]
      does_no_faults [OF does_shutdown, of demo_pipe demo_run]
    by (simp add: demo_run_def on_agent_event_def)
  have one: "inj_on f {..<nd_readings (on_shutdown demo_pipe demo_run)}" for f :: "nat \<Rightarrow> string"
    using demo_run_facts(2) by (simp add: on_shutdown_def roll_def inj_on_def lessThan_Suc)
  have "CtrlC \<in> set ?evs" by simp
  have names: "inj_on (segment_name demo_pipe) {..<nd_readings nd'}"
    if "run_loop no_faults demo_pipe True ?evs True demo_node = Inr (Stopped i nd')" for i nd'
    using that one unfolding run by auto
  note all = shutdown_flushes [where F = no_faults and E = demo_pipe and long = True and evs = ?evs and
      miner = "template_miner_new 1" and engine = "\<lparr>en_rules = []\<rparr>" and corr = "correlation_engine_new []" and
      alerts = "(None, ring_new 1)" and dir = "''d''" and archive = None, OF \<open>CtrlC \<in> set ?evs\<close>]
  have docs: "map untemplated (ei_docs (nd_index (on_shutdown demo_pipe demo_run))) = [new_event ''e'' 5 ''t''] \<and>
      nd_buffer (on_shutdown demo_pipe demo_run) = []"
    using all [OF names] unfolding run by (simp add: untemplated_def new_event_def)
  show ?thesis by (intro exI conjI, rule run, rule conjunct1 [OF docs], rule conjunct2 [OF docs])
qed

end
