(* ===== verification/Node_Startup.thy ===== *)
theory Node_Startup
  imports Node_Analysis Node_Loop
begin

text \<open>
  The start of a node, the first half of \<open>run\<close> of \<open>crates/sigil-cli/src/run.rs\<close>: what is built and
  started from a configuration, in the order of the code and with every early error return; the loop
  that follows is \<open>Node_Loop\<close>. Spawned tasks are kept as values. Opening the index, the cold tier, the
  archive and the store, and the store's answers while enrollment tokens are seeded, are given.
\<close>

section \<open>The archive\<close>

datatype archive_target =
    LocalArchive string
  | S3Archive string "string option" "string option" string

definition yaml_text_at :: "(yaml \<times> yaml) list \<Rightarrow> string \<Rightarrow> string option" where
  "yaml_text_at m key = Option.bind (map_of m (YString key)) as_str"

text \<open>\<open>s3\<close> says whether the crate was built with that feature.\<close>

definition archive_from_config :: "bool \<Rightarrow> yaml \<Rightarrow> archive_target option result" where
  "archive_from_config s3 v =
     (case v of
        YMapping m \<Rightarrow>
          (case yaml_text_at m ''kind'' of
             None \<Rightarrow> Inr (Some (LocalArchive (unwrap_or ''./data/archive'' (yaml_text_at m ''root''))))
           | Some k \<Rightarrow>
               if k = ''local'' then Inr (Some (LocalArchive (unwrap_or ''./data/archive'' (yaml_text_at m ''root''))))
               else if k = ''s3'' then
                 (if s3 then
                    (case yaml_text_at m ''bucket'' of
                       None \<Rightarrow> Inl (Config ''object_store: s3 needs `bucket`'')
                     | Some b \<Rightarrow>
                         Inr (Some (S3Archive b (yaml_text_at m ''region'') (yaml_text_at m ''endpoint'')
                           (unwrap_or ''segments'' (yaml_text_at m ''prefix'')))))
                  else Inl (Config ''object_store kind `s3` requires building sigil-index with the `s3` feature''))
               else Inl (Config (''unknown object_store kind `'' @ k @ ''` (expected local|s3)'')))
      | _ \<Rightarrow> Inr None)"

section \<open>Start\<close>

record ('f, 'g) start_env =
  se_pipe :: "('f, 'g) pipeline_env"
  se_api :: api_env
  se_random :: string
  se_enrich :: "yaml \<Rightarrow> 'f settings"
  se_detect :: "yaml \<Rightarrow> 'f detector_settings"
  se_miner :: "'g template_miner"
  se_engine :: "string \<Rightarrow> sigma_engine result"
  se_corr :: "string \<Rightarrow> correlation_engine result"
  se_rules :: "string \<Rightarrow> (string \<times> string) list"
  se_read :: "string \<Rightarrow> string option"
  se_s3 :: bool
  se_archive :: "archive_target \<Rightarrow> cold_archive result"

record disk =
  dk_config :: string
  dk_index :: "event_index result"
  dk_cold :: "columnar_store result"
  dk_store :: "edr_store result"
  dk_seed :: "string \<Rightarrow> error option"

datatype input_task =
    FileTask string string string bool bool
  | SyslogTask string string string bool bool

fun task_id :: "input_task \<Rightarrow> string" where
  "task_id (FileTask i _ _ _ _) = i"
| "task_id (SyslogTask i _ _ _ _) = i"

fun task_sigma :: "input_task \<Rightarrow> bool" where
  "task_sigma (FileTask _ _ _ _ s) = s"
| "task_sigma (SyslogTask _ _ _ _ s) = s"

record ('f, 'g) started =
  sd_pipe :: "('f, 'g) pipeline_env"
  sd_node :: "('g, edr_body) node"
  sd_inputs :: "input_task list"
  sd_gateway :: "(string \<times> (string \<times> string) option) option"
  sd_api :: "(api_state \<times> system_info) option"
  sd_serves_long :: bool

definition spawn_input :: "yaml_display \<Rightarrow> (string \<Rightarrow> bool) \<Rightarrow> (string \<Rightarrow> bool) \<Rightarrow> input_config \<Rightarrow> input_task option" where
  "spawn_input yt idx sig i =
     (if ic_kind i = ''file'' then
        map_option (\<lambda>p. FileTask (ic_id i) (ck_kind (ic_codec i)) p (idx (ic_id i)) (sig (ic_id i))) (setting_str yt i ''path'')
      else if ic_kind i = ''syslog'' then
        map_option (\<lambda>l. SyslogTask (ic_id i) (ck_kind (ic_codec i)) l (idx (ic_id i)) (sig (ic_id i))) (setting_str yt i ''listen'')
      else None)"

definition sigma_on :: "config \<Rightarrow> sigma_engine \<Rightarrow> 'd list \<Rightarrow> bool" where
  "sigma_on c engine detectors \<longleftrightarrow> sc_enabled (cf_sigma c) \<and> (0 < length (en_rules engine) \<or> detectors \<noteq> [])"

text \<open>
  \<open>EdrState::new\<close> seeds the configured tokens; \<open>fault\<close> is the store's error at a token, which ends the
  seeding. The tokens before it stay, and EDR is then off.
\<close>

fun seed_tokens ::
  "(string \<Rightarrow> error option) \<Rightarrow> timestamp \<Rightarrow> string list \<Rightarrow> edr_store \<Rightarrow> edr_store \<times> unit result" where
  "seed_tokens fault now [] s = (s, Inr ())"
| "seed_tokens fault now (t # ts) s =
     (if t = [] then seed_tokens fault now ts s
      else case fault t of
             Some e \<Rightarrow> (s, Inl e)
           | None \<Rightarrow> seed_tokens fault now ts (token_seed_one now t s))"

definition edr_state_new ::
  "(string \<Rightarrow> error option) \<Rightarrow> timestamp \<Rightarrow> string list \<Rightarrow> edr_store \<Rightarrow> edr_store \<times> edr result" where
  "edr_state_new fault now tokens s =
     (let (s', r) = seed_tokens fault now tokens s
      in (s', and_then r (\<lambda>_. Inr \<lparr>ed_store = s', ed_live = [], ed_sessions = [], ed_next = 0\<rparr>)))"

definition start_fleet :: "(string \<Rightarrow> error option) \<Rightarrow> timestamp \<Rightarrow> config \<Rightarrow> edr_store \<Rightarrow> edr_store \<times> edr option" where
  "start_fleet fault now c store =
     (if ec_enabled (cf_edr c)
      then let (store', r) = edr_state_new fault now (ec_tokens (cf_edr c)) store
           in (store', case r of Inr agents \<Rightarrow> Some agents | Inl _ \<Rightarrow> None)
      else (store, None))"

definition api_start ::
  "('f, 'g) start_env \<Rightarrow> config \<Rightarrow> string \<Rightarrow> sigma_engine \<Rightarrow> alert_ring \<Rightarrow> edr_store \<Rightarrow> edr option \<Rightarrow> api_state" where
  "api_start S c text engine ring store agents =
     \<lparr>api_auth = from_config (se_random S) (cf_auth c), api_ring = ring,
      api_fleet = (case agents of Some e \<Rightarrow> e
        | None \<Rightarrow> \<lparr>ed_store = store, ed_live = [], ed_sessions = [], ed_next = 0\<rparr>),
      api_store_on = True, api_edr_on = (agents \<noteq> None), api_engine = engine,
      api_rules = map_option (se_rules S) (sc_rules_dir (cf_sigma c)), api_dir_error = None, api_rules_error = None,
      api_scan_error = None, api_config_on = True, api_config_file = Content text, api_config_backup = None,
      api_copy_error = None, api_config_error = None\<rparr>"

definition assemble ::
  "('f, 'g) start_env \<Rightarrow> timestamp \<Rightarrow> config \<Rightarrow> string \<Rightarrow> (string \<Rightarrow> error option) \<Rightarrow> event_index \<Rightarrow> columnar_store \<Rightarrow>
   edr_store \<Rightarrow> sigma_engine \<Rightarrow> correlation_engine \<Rightarrow> ('f, 'g) started" where
  "assemble S now c text fault ix cold store engine corr =
     (let ring = hydrate (Some store) ring_default;
          P0 = se_pipe S;
          chain = build_enrich_chain (pe_enrich P0) (se_enrich S) c;
          detectors = build_detector_chain (pe_detect P0) (se_detect S) c;
          roles = fst (from_targets (cc_targets (cf_cluster c)));
          active = sigma_on c engine detectors;
          (store', agents) = start_fleet fault now c store;
          system = (build_system_info c (map role_as_str roles) (length (en_rules engine)))
            \<lparr>si_auth_enabled := ac_enabled (cf_auth c), si_persistence := True\<rparr>
      in \<lparr>sd_pipe = P0\<lparr>pe_tenant := ''default'', pe_chain := chain, pe_detectors := detectors, pe_sigma_active := active,
            pe_retention := parse_duration_micros (re_cold (ix_retention (cf_index c))),
            pe_warm := parse_duration_micros (re_warm (ix_retention (cf_index c)))\<rparr>,
          sd_node = (node_new (se_miner S) engine corr (Some store', ring) [] None)\<lparr>nd_index := ix, nd_cold := cold\<rparr>,
          sd_inputs = List.map_filter (spawn_input (ae_yaml (se_api S)) (should_index c roles) (should_sigma c roles active))
            (cf_inputs c),
          sd_gateway = (if agents \<noteq> None \<and> runs roles Index
                        then Some (ec_listen (cf_edr c), load_edr_tls (se_read S) c) else None),
          sd_api = (if runs roles Query then Some (api_start S c text engine ring store' agents, system) else None),
          sd_serves_long = (runs roles Query \<or> agents \<noteq> None)\<rparr>)"

definition open_archive :: "('f, 'g) start_env \<Rightarrow> config \<Rightarrow> cold_archive option result" where
  "open_archive S c =
     and_then (archive_from_config (se_s3 S) (cc_object_store (cf_cluster c))) (\<lambda>t.
       case t of None \<Rightarrow> Inr None | Some a \<Rightarrow> and_then (se_archive S a) (\<lambda>x. Inr (Some x)))"

definition start_node :: "('f, 'g) start_env \<Rightarrow> timestamp \<Rightarrow> config result \<Rightarrow> disk \<Rightarrow> ('f, 'g) started result" where
  "start_node S now loaded D =
     and_then loaded (\<lambda>c.
       let r = validate (ae_yaml (se_api S)) (ae_is_dir (se_api S)) c
       in if \<not> report_ok r then
            Inl (Config (show_nat (length (rp_errors r)) @ '' validation error(s); fix the config before running''))
          else and_then (dk_index D) (\<lambda>ix.
               and_then (dk_cold D) (\<lambda>cold.
               and_then (open_archive S c) (\<lambda>arch.
               and_then (dk_store D) (\<lambda>store.
               and_then (build_engine (se_engine S) c) (\<lambda>engine.
               and_then (build_correlations (se_corr S) c) (\<lambda>corr.
                 Inr (assemble S now c (dk_config D) (dk_seed D) ix
                   (case arch of None \<Rightarrow> cold | Some a \<Rightarrow> cold\<lparr>cs_archive := Some a\<rparr>) store engine corr))))))))"

section \<open>Starting\<close>

lemma map_filter_all:
  "\<forall>x \<in> set xs. f x \<noteq> None \<longleftrightarrow> P x \<Longrightarrow> (\<And>x y. f x = Some y \<Longrightarrow> g y = h x) \<Longrightarrow>
     map g (List.map_filter f xs) = map h (filter P xs)"
  by (induction xs) (auto simp: List.map_filter_simps split: option.splits)

lemma start_node_ok:
  assumes "start_node S now (Inr c) D = Inr sd"
  shows "report_ok (validate (ae_yaml (se_api S)) (ae_is_dir (se_api S)) c) \<and>
    (\<exists>ix cold store engine corr. dk_store D = Inr store \<and> build_engine (se_engine S) c = Inr engine \<and>
       sd = assemble S now c (dk_config D) (dk_seed D) ix cold store engine corr)"
  using assms by (auto simp: start_node_def Let_def and_then_Inr_iff split: if_splits) blast

lemma valid_inputs:
  "report_ok (validate yt is_dir c) \<Longrightarrow> i \<in> set (cf_inputs c) \<Longrightarrow> input_valid yt i"
  by (auto simp: report_ok_def validate_def Let_def validate_edr_ok validate_auth_def validate_users_ok
      validate_pipelines_ok validate_inputs_ok report_empty_def split: if_splits)

lemma seed_tokens_ok: "(\<exists>s'. seed_tokens fault now ts s = (s', Inr ())) \<longleftrightarrow> list_all (\<lambda>t. t = [] \<or> fault t = None) ts"
  by (induction ts arbitrary: s) (auto split: option.split)

lemma seed_tokens_snd: "snd (seed_tokens fault now ts s) = Inr () \<longleftrightarrow> list_all (\<lambda>t. t = [] \<or> fault t = None) ts"
  using seed_tokens_ok [of fault now ts s] by (metis prod.collapse snd_conv)

lemma fleet_built:
  "snd (start_fleet fault now c store) \<noteq> None \<longleftrightarrow>
     ec_enabled (cf_edr c) \<and> list_all (\<lambda>t. t = [] \<or> fault t = None) (ec_tokens (cf_edr c))"
  using seed_tokens_snd [of fault now "ec_tokens (cf_edr c)" store]
  by (cases "snd (seed_tokens fault now (ec_tokens (cf_edr c)) store)")
    (auto simp: start_fleet_def edr_state_new_def Let_def case_prod_beta)

lemma fleet_store:
  "start_fleet fault now c store = (store', Some agents) \<Longrightarrow> ed_store agents = store'"
  by (auto simp: start_fleet_def edr_state_new_def Let_def and_then_Inr_iff split: if_splits prod.splits sum.splits)

text \<open>
  C17: What runs after a successful start: every file and syslog input gets its task, in order, and
  inputs of another kind, which validation lets pass with a warning, get none; the API is served
  exactly with the query role; the agent gateway exactly on an index node with EDR on whose tokens
  could be seeded, for otherwise EDR is off and the node goes on; the API and the pipeline share
  the store, the alert ring and the rules, and authentication is on exactly when configured.
\<close>

theorem start_runs_config:
  assumes "start_node S now (Inr c) D = Inr sd"
  shows "map task_id (sd_inputs sd) = map ic_id (filter (\<lambda>i. ic_kind i \<in> {''file'', ''syslog''}) (cf_inputs c)) \<and>
    (sd_api sd \<noteq> None \<longleftrightarrow> Query \<in> set (fst (from_targets (cc_targets (cf_cluster c))))) \<and>
    (sd_gateway sd \<noteq> None \<longleftrightarrow> ec_enabled (cf_edr c) \<and> Index \<in> set (fst (from_targets (cc_targets (cf_cluster c)))) \<and>
       list_all (\<lambda>t. t = [] \<or> dk_seed D t = None) (ec_tokens (cf_edr c))) \<and>
    (case sd_api sd of None \<Rightarrow> True
     | Some (st, si) \<Rightarrow> fst (nd_alerts (sd_node sd)) = Some (ed_store (api_fleet st)) \<and>
         snd (nd_alerts (sd_node sd)) = api_ring st \<and> api_engine st = nd_engine (sd_node sd) \<and>
         (api_edr_on st \<longleftrightarrow> ec_enabled (cf_edr c) \<and> list_all (\<lambda>t. t = [] \<or> dk_seed D t = None) (ec_tokens (cf_edr c))) \<and>
         as_enabled (api_auth st) = ac_enabled (cf_auth c) \<and> si_auth_enabled si = as_enabled (api_auth st))"
proof -
  let ?yt = "ae_yaml (se_api S)"
  obtain ix cold store engine corr where ok: "report_ok (validate ?yt (ae_is_dir (se_api S)) c)"
    and sd: "sd = assemble S now c (dk_config D) (dk_seed D) ix cold store engine corr"
    using start_node_ok[OF assms] by blast
  have spawn: "spawn_input ?yt idx sig i \<noteq> None \<longleftrightarrow> ic_kind i \<in> {''file'', ''syslog''}"
    if "i \<in> set (cf_inputs c)" for idx sig i
    using valid_inputs[OF ok that] by (auto simp: spawn_input_def input_valid_def)
  have tasks: "map task_id (List.map_filter (spawn_input ?yt idx sig) (cf_inputs c)) =
      map ic_id (filter (\<lambda>i. ic_kind i \<in> {''file'', ''syslog''}) (cf_inputs c))" for idx sig
    by (rule map_filter_all) (use spawn in \<open>auto simp: spawn_input_def split: if_splits\<close>)
  obtain store' agents where f: "start_fleet (dk_seed D) now c store = (store', agents)" by fastforce
  from fleet_built[of "dk_seed D" now c store] have built: "agents \<noteq> None \<longleftrightarrow>
      ec_enabled (cf_edr c) \<and> list_all (\<lambda>t. t = [] \<or> dk_seed D t = None) (ec_tokens (cf_edr c))" by (simp add: f)
  have shared: "ed_store (case agents of Some e \<Rightarrow> e
      | None \<Rightarrow> \<lparr>ed_store = store', ed_live = [], ed_sessions = [], ed_next = 0\<rparr>) = store'"
    using fleet_store f by (cases agents) auto
  show ?thesis
    using built shared by (auto simp: sd assemble_def Let_def f tasks runs_def api_start_def from_config_def node_new_def)
qed

section \<open>When a node starts\<close>

text \<open>The archive of the configuration can be opened; the rules directory, if rules are on, can be loaded.\<close>

definition archive_ready :: "('f, 'g) start_env \<Rightarrow> yaml \<Rightarrow> bool" where
  "archive_ready S v \<longleftrightarrow>
     (case v of
        YMapping m \<Rightarrow>
          (let kind = unwrap_or ''local'' (yaml_text_at m ''kind'')
           in kind = ''local'' \<and> \<not> isl (se_archive S (LocalArchive (unwrap_or ''./data/archive'' (yaml_text_at m ''root'')))) \<or>
              kind = ''s3'' \<and> se_s3 S \<and>
                (case yaml_text_at m ''bucket'' of
                   None \<Rightarrow> False
                 | Some b \<Rightarrow> \<not> isl (se_archive S (S3Archive b (yaml_text_at m ''region'') (yaml_text_at m ''endpoint'')
                     (unwrap_or ''segments'' (yaml_text_at m ''prefix''))))))
      | _ \<Rightarrow> True)"

definition rules_ready :: "('f, 'g) start_env \<Rightarrow> config \<Rightarrow> bool" where
  "rules_ready S c \<longleftrightarrow>
     (case (sc_enabled (cf_sigma c), sc_rules_dir (cf_sigma c)) of
        (True, Some dir) \<Rightarrow> \<not> isl (se_engine S dir) \<and> \<not> isl (se_corr S dir)
      | _ \<Rightarrow> True)"

lemma and_then_ok: "isl (and_then r k) \<longleftrightarrow> isl r \<or> isl (k (projr r))"
  by (cases r) auto

lemma open_archive_ok: "\<not> isl (open_archive S c) \<longleftrightarrow> archive_ready S (cc_object_store (cf_cluster c))"
proof (cases "cc_object_store (cf_cluster c)")
  case (YMapping m)
  note defs = unwrap_or_def open_archive_def archive_from_config_def archive_ready_def and_then_ok Let_def YMapping
  show ?thesis
  proof (cases "yaml_text_at m ''kind''")
    case None
    then show ?thesis by (simp add: defs)
  next
    case (Some k)
    then show ?thesis
      by (cases "k = ''local''"; cases "k = ''s3''"; cases "yaml_text_at m ''bucket''") (simp_all add: defs)
  qed
qed (simp_all add: open_archive_def archive_from_config_def archive_ready_def)

lemma engines_ok:
  "\<not> isl (build_engine (se_engine S) c) \<and> \<not> isl (build_correlations (se_corr S) c) \<longleftrightarrow> rules_ready S c"
  by (cases "sc_enabled (cf_sigma c)"; cases "sc_rules_dir (cf_sigma c)")
    (auto simp: build_engine_def build_correlations_def rules_ready_def)

text \<open>
  C24: A node starts from a configuration exactly when validation's checks hold (version 1, inputs with
  distinct, non-blank ids and their required settings, pipelines with distinct ids that read declared
  inputs and route to known sinks, users with distinct names and a credential when authentication is
  on, a listen address and a complete TLS pair when the agent gateway is on) and, what validation does
  not look at, the index, the cold tier and the store can be opened, the object store is absent or of
  a kind this build knows, with its bucket, and can be opened, and the rules directory, which
  validation only warns about, can be loaded.
\<close>

theorem node_starts_iff:
  "(case start_node S now (Inr c) D of Inr _ \<Rightarrow> True | Inl _ \<Rightarrow> False) \<longleftrightarrow>
     config_valid (ae_yaml (se_api S)) c \<and> \<not> isl (dk_index D) \<and> \<not> isl (dk_cold D) \<and> \<not> isl (dk_store D) \<and>
     archive_ready S (cc_object_store (cf_cluster c)) \<and> rules_ready S c"
proof -
  have isl: "(case r of Inr _ \<Rightarrow> True | Inl _ \<Rightarrow> False) \<longleftrightarrow> \<not> isl r" for r :: "'x result" by (cases r) auto
  show ?thesis
    unfolding isl open_archive_ok[symmetric] engines_ok[symmetric] validate_spec[where is_dir = "ae_is_dir (se_api S)", symmetric]
    by (auto simp: start_node_def Let_def and_then_ok)
qed

section \<open>Rules loaded later\<close>

text \<open>
  C36: Rule edits do not take effect on a node that was started without rules and detectors: whether
  detection runs is decided once, at the start, so no input is marked for it, and whatever rules are
  loaded later, no frame of an input and no agent event raises an alert.
\<close>

theorem started_without_rules_never_detects:
  fixes en :: sigma_engine
  assumes "start_node S now (Inr c) D = Inr sd"
    and "build_engine (se_engine S) c = Inr \<lparr>en_rules = []\<rparr>"
    and "build_detector_chain (pe_detect (se_pipe S)) (se_detect S) c = []"
  shows "list_all (\<lambda>t. \<not> task_sigma t) (sd_inputs sd) \<and>
    nd_emitted (on_agent_event (sd_pipe sd) t ev (nd\<lparr>nd_engine := en\<rparr>)) = nd_emitted nd \<and>
    (case on_frame (sd_pipe sd) t \<lparr>fr_codec = k, fr_index = b, fr_sigma = False, fr_bytes = raw\<rparr> (nd\<lparr>nd_engine := en\<rparr>) of
       Inl e \<Rightarrow> False
     | Inr nd' \<Rightarrow> nd_emitted nd' = nd_emitted nd)"
proof -
  obtain ix cold store corr where sd: "sd = assemble S now c (dk_config D) (dk_seed D) ix cold store \<lparr>en_rules = []\<rparr> corr"
    using start_node_ok[OF assms(1)] assms(2) by auto
  have off: "\<not> pe_sigma_active (sd_pipe sd)" by (simp add: sd assemble_def Let_def sigma_on_def assms(3) split: prod.split)
  have index: "nd_emitted (index_event E ev nd) = nd_emitted nd" for E :: "('a, 'b) pipeline_env" and ev and nd :: "('b, 'c) node"
    by (simp add: index_event_def roll_def Let_def)
  have event: "nd_emitted (process_event E t False b ev nd) = nd_emitted nd"
    for E :: "('a, 'b) pipeline_env" and t b ev and nd :: "('b, 'c) node"
    by (auto simp: process_event_def with_template_def index Let_def split: prod.split)
  have events: "nd_emitted (fold (process_event E t False b) evs nd) = nd_emitted nd"
    for E :: "('a, 'b) pipeline_env" and t b evs and nd :: "('b, 'c) node"
    by (induction evs arbitrary: nd) (simp_all add: event)
  have "list_all (\<lambda>t. \<not> task_sigma t) (List.map_filter (spawn_input yt idx (should_sigma c roles False)) is)" for yt idx roles "is"
    by (induction "is") (auto simp: List.map_filter_simps spawn_input_def should_sigma_def split: option.split)
  then show ?thesis
    using frame_total[of "sd_pipe sd" t "\<lparr>fr_codec = k, fr_index = b, fr_sigma = False, fr_bytes = raw\<rparr>" "nd\<lparr>nd_engine := en\<rparr>"] off
    by (auto simp: on_agent_event_def event on_frame_def and_then_Inr_iff decode_normalize_def events split: prod.splits)
      (simp add: sd assemble_def Let_def sigma_on_def assms(3) split: prod.split)
qed

section \<open>Examples\<close>

definition demo_start :: "(nat, nat) start_env" where
  "demo_start =
     \<lparr>se_pipe = demo_pipe, se_api = demo_api, se_random = ''r'', se_enrich = (\<lambda>_. \<lparr>se_threshold = None, se_feed = NoFeed\<rparr>),
      se_detect = (\<lambda>_. \<lparr>ds_threshold = None, ds_ioc = \<lparr>is_hashes = NoIndicators, is_ips = NoIndicators, is_domains = NoIndicators\<rparr>\<rparr>),
      se_miner = template_miner_new 1, se_engine = (\<lambda>_. Inr \<lparr>en_rules = []\<rparr>), se_corr = (\<lambda>_. Inr (correlation_engine_new [])),
      se_rules = (\<lambda>_. []), se_read = (\<lambda>_. None), se_s3 = False, se_archive = (\<lambda>_. Inl (Io []))\<rparr>"

definition demo_config :: config where
  "demo_config = empty_config\<lparr>cf_inputs :=
     [\<lparr>ic_id = ''in'', ic_kind = ''file'', ic_codec = \<lparr>ck_kind = ''raw'', ck_settings = []\<rparr>,
       ic_settings = [(''path'', YString ''a.log'')]\<rparr>]\<rparr>"

definition demo_disk :: disk where
  "demo_disk = \<lparr>dk_config = [], dk_index = Inr index_open, dk_cold = Inr (columnar_open ''d'' None), dk_store = Inr store_open,
     dk_seed = (\<lambda>_. None)\<rparr>"

lemma demo_starts: "\<exists>sd. start_node demo_start 0 (Inr demo_config) demo_disk = Inr sd"
proof -
  have "report_ok (validate (\<lambda>_. None) (\<lambda>_. False) demo_config)"
    by (simp add: report_ok_def validate_def Let_def validate_edr_ok validate_auth_def validate_inputs_ok report_empty_def
        demo_config_def empty_config_def auth_default_def edr_default_def validate_input_def setting_str_def
        trim_def trim_start_def trim_end_def is_space_def)
  then show ?thesis
    by (simp add: start_node_def demo_start_def demo_api_def demo_disk_def open_archive_def archive_from_config_def
        build_engine_def build_correlations_def demo_config_def empty_config_def sigma_default_def)
qed

theorem start_runs_config_witness:
  "\<exists>sd. start_node demo_start 0 (Inr demo_config) demo_disk = Inr sd \<and> map task_id (sd_inputs sd) = [''in''] \<and>
     sd_gateway sd = None"
proof -
  obtain sd where sd: "start_node demo_start 0 (Inr demo_config) demo_disk = Inr sd" using demo_starts by blast
  note started = start_runs_config[OF sd]
  have ids: "map ic_id (filter (\<lambda>i. ic_kind i \<in> {''file'', ''syslog''}) (cf_inputs demo_config)) = [''in'']"
    and off: "\<not> ec_enabled (cf_edr demo_config)"
    by (simp_all add: demo_config_def empty_config_def edr_default_def)
  have tasks: "map task_id (sd_inputs sd) = [''in'']"
    using conjunct1[OF started] ids by (rule trans)
  have gateway: "sd_gateway sd = None"
    using conjunct1[OF conjunct2[OF conjunct2[OF started]]] off by (cases "sd_gateway sd") auto
  show ?thesis by (intro exI[of _ sd] conjI sd tasks gateway)
qed

theorem started_without_rules_never_detects_witness:
  "\<exists>sd. start_node demo_start 0 (Inr demo_config) demo_disk = Inr sd \<and>
     (\<forall>t ev en. nd_emitted (on_agent_event (sd_pipe sd) t ev ((sd_node sd)\<lparr>nd_engine := en\<rparr>)) = nd_emitted (sd_node sd))"
proof -
  obtain sd where sd: "start_node demo_start 0 (Inr demo_config) demo_disk = Inr sd" using demo_starts by blast
  have rules: "build_engine (se_engine demo_start) demo_config = Inr \<lparr>en_rules = []\<rparr>"
    by (simp add: build_engine_def demo_config_def empty_config_def sigma_default_def)
  have detectors: "build_detector_chain (pe_detect (se_pipe demo_start)) (se_detect demo_start) demo_config = []"
    by (simp add: build_detector_chain_def detector_steps_def demo_config_def empty_config_def List.map_filter_simps)
  show ?thesis
    by (intro exI[of _ sd] conjI allI sd conjunct1[OF conjunct2[OF started_without_rules_never_detects[OF sd rules detectors]]])
qed


end
