(* ===== verification/Api_Router.thy ===== *)
theory Api_Router
  imports Node_Analysis
begin

text \<open>
  The route table of \<open>crates/sigil-api/src/lib.rs\<close> (\<open>router\<close>): which handler a method and path reach,
  and which of them the authentication middleware guards. A path is its segments. Matching is that
  of axum: a literal segment matches itself, a parameter any non-empty segment, and a \<open>get\<close> route
  also answers \<open>HEAD\<close>. \<open>NoRoute\<close> stands for 404 and 405.
\<close>

section \<open>The table\<close>

datatype http_method = GET | HEAD | POST | PUT | PATCH | DELETE

datatype handler =
    H_login | H_health | H_me | H_count | H_search | H_search_fields | H_search_histogram
  | H_alerts | H_alerts_bulk_patch | H_alert_patch | H_incidents
  | H_rules | H_rule_create | H_rule_update | H_rule_delete | H_rule_test | H_attack_coverage
  | H_saved_list | H_saved_create | H_saved_update | H_saved_delete
  | H_edr_agents | H_edr_agent | H_edr_action | H_edr_commands | H_edr_tokens | H_edr_token_create
  | H_edr_stream_agents | H_config_get | H_config_put | H_config_validate
  | H_system | H_eval | H_sql | H_query | H_stream_alerts | H_openapi | H_metrics | H_ui

datatype segment = Lit string | Param

type_synonym route = "segment list \<times> (http_method \<times> handler) list"

definition public_routes :: "route list" where
  "public_routes =
     [([Lit ''auth'', Lit ''login''], [(POST, H_login)]),
      ([Lit ''health''], [(GET, H_health)])]"

definition protected_routes :: "route list" where
  "protected_routes =
     [([Lit ''me''], [(GET, H_me)]),
      ([Lit ''count''], [(GET, H_count)]),
      ([Lit ''search''], [(GET, H_search)]),
      ([Lit ''search'', Lit ''fields''], [(GET, H_search_fields)]),
      ([Lit ''search'', Lit ''histogram''], [(GET, H_search_histogram)]),
      ([Lit ''alerts''], [(GET, H_alerts), (PATCH, H_alerts_bulk_patch)]),
      ([Lit ''alerts'', Param], [(PATCH, H_alert_patch)]),
      ([Lit ''incidents''], [(GET, H_incidents)]),
      ([Lit ''rules''], [(GET, H_rules), (POST, H_rule_create)]),
      ([Lit ''rules'', Param], [(PUT, H_rule_update), (DELETE, H_rule_delete)]),
      ([Lit ''rules'', Param, Lit ''test''], [(POST, H_rule_test)]),
      ([Lit ''attack'', Lit ''coverage''], [(GET, H_attack_coverage)]),
      ([Lit ''saved'', Param], [(GET, H_saved_list), (POST, H_saved_create)]),
      ([Lit ''saved'', Param, Param], [(PUT, H_saved_update), (DELETE, H_saved_delete)]),
      ([Lit ''edr'', Lit ''agents''], [(GET, H_edr_agents)]),
      ([Lit ''edr'', Lit ''agents'', Param], [(GET, H_edr_agent)]),
      ([Lit ''edr'', Lit ''agents'', Param, Lit ''actions''], [(POST, H_edr_action)]),
      ([Lit ''edr'', Lit ''commands''], [(GET, H_edr_commands)]),
      ([Lit ''edr'', Lit ''enroll-tokens''], [(GET, H_edr_tokens), (POST, H_edr_token_create)]),
      ([Lit ''edr'', Lit ''stream'', Lit ''agents''], [(GET, H_edr_stream_agents)]),
      ([Lit ''config''], [(GET, H_config_get), (PUT, H_config_put)]),
      ([Lit ''config'', Lit ''validate''], [(POST, H_config_validate)]),
      ([Lit ''system''], [(GET, H_system)]),
      ([Lit ''eval''], [(GET, H_eval)]),
      ([Lit ''sql''], [(GET, H_sql)]),
      ([Lit ''query''], [(GET, H_query)]),
      ([Lit ''stream'', Lit ''alerts''], [(GET, H_stream_alerts)]),
      ([Lit ''openapi.json''], [(GET, H_openapi)])]"

definition legacy_routes :: "route list" where
  "legacy_routes =
     [([], [(GET, H_ui)]), ([Lit ''ui''], [(GET, H_ui)]), ([Lit ''count''], [(GET, H_count)]),
      ([Lit ''search''], [(GET, H_search)]), ([Lit ''alerts''], [(GET, H_alerts)]),
      ([Lit ''incidents''], [(GET, H_incidents)]), ([Lit ''rules''], [(GET, H_rules)]),
      ([Lit ''system''], [(GET, H_system)]), ([Lit ''eval''], [(GET, H_eval)]),
      ([Lit ''sql''], [(GET, H_sql)]), ([Lit ''query''], [(GET, H_query)])]"

definition nest :: "string list \<Rightarrow> route list \<Rightarrow> route list" where
  "nest base rs = map (\<lambda>(p, hs). (map Lit base @ p, hs)) rs"

text \<open>Every route with whether it is behind the middleware.\<close>

definition router :: "bool \<Rightarrow> (bool \<times> route) list" where
  "router auth_enabled =
     map (Pair False)
       ([([Lit ''health''], [(GET, H_health)]), ([Lit ''metrics''], [(GET, H_metrics)])] @
        nest [''api'', ''v1''] public_routes) @
     map (Pair True) (nest [''api'', ''v1''] protected_routes) @
     (if auth_enabled then [] else map (Pair False) legacy_routes)"

section \<open>Dispatch\<close>

fun segment_matches :: "segment \<Rightarrow> string \<Rightarrow> bool" where
  "segment_matches (Lit l) s = (s = l)"
| "segment_matches Param s = (s \<noteq> [])"

definition pattern_matches :: "segment list \<Rightarrow> string list \<Rightarrow> bool" where
  "pattern_matches p path \<longleftrightarrow> list_all2 segment_matches p path"

definition path_params :: "segment list \<Rightarrow> string list \<Rightarrow> string list" where
  "path_params p path = map snd (filter (\<lambda>(s, _). s = Param) (zip p path))"

definition method_handler :: "http_method \<Rightarrow> (http_method \<times> handler) list \<Rightarrow> handler option" where
  "method_handler m hs =
     (case map_of hs m of
        Some h \<Rightarrow> Some h
      | None \<Rightarrow> if m = HEAD then map_of hs GET else None)"

definition find_route :: "bool \<Rightarrow> http_method \<Rightarrow> string list \<Rightarrow> (bool \<times> handler \<times> string list) option" where
  "find_route auth_enabled m path =
     (case find (\<lambda>(_, p, _). pattern_matches p path) (router auth_enabled) of
        None \<Rightarrow> None
      | Some (behind, p, hs) \<Rightarrow> map_option (\<lambda>h. (behind, h, path_params p path)) (method_handler m hs))"

datatype dispatched = NoRoute | Refused | Runs handler "string list" "auth_user option"

definition dispatch :: "auth_env \<Rightarrow> auth_state \<Rightarrow> nat \<Rightarrow> request \<Rightarrow> http_method \<Rightarrow> string list \<Rightarrow> dispatched" where
  "dispatch E a now r m path =
     (case find_route (as_enabled a) m path of
        None \<Rightarrow> NoRoute
      | Some (False, h, ps) \<Rightarrow> Runs h ps None
      | Some (True, h, ps) \<Rightarrow>
          (case require_auth E a now r of Inl _ \<Rightarrow> Refused | Inr u \<Rightarrow> Runs h ps (Some u)))"

section \<open>What is public\<close>

lemma find_route_entry:
  assumes "find_route b m path = Some (behind, h, ps)"
  shows "\<exists>p hs. (behind, p, hs) \<in> set (router b) \<and> pattern_matches p path \<and> method_handler m hs = Some h \<and>
    ps = path_params p path"
  using assms by (auto simp: find_route_def find_Some_iff split: option.splits) (metis nth_mem)

lemma method_handler_mem: "method_handler m hs = Some h \<Longrightarrow> h \<in> snd ` set hs"
  by (auto simp: method_handler_def split: option.splits if_splits dest!: map_of_SomeD) force+

lemma unguarded_entries:
  "(False, p, hs) \<in> set (router True) \<Longrightarrow>
     (p, hs) \<in> {([Lit ''health''], [(GET, H_health)]), ([Lit ''metrics''], [(GET, H_metrics)]),
       ([Lit ''api'', Lit ''v1'', Lit ''auth'', Lit ''login''], [(POST, H_login)]),
       ([Lit ''api'', Lit ''v1'', Lit ''health''], [(GET, H_health)])}"
  by (auto simp: router_def nest_def public_routes_def)

text \<open>With authentication off nothing is refused.\<close>

lemma open_node_never_refuses: "\<not> as_enabled a \<Longrightarrow> dispatch E a now r m path \<noteq> Refused"
  by (auto simp: dispatch_def require_auth_def split: option.splits bool.splits)

text \<open>
  C4: With authentication on, a handler runs without a user only for the login, the health check and
  the metrics; every other handler runs with the user of a valid, unexpired token of the request.
\<close>

theorem public_surface:
  assumes "as_enabled a" "dispatch E a now r m path = Runs h ps u"
  shows "case u of
      None \<Rightarrow> h \<in> {H_login, H_health, H_metrics} \<and> ps = []
    | Some v \<Rightarrow> h \<notin> {H_login, H_health, H_metrics} \<and> (\<exists>t. extract_token r = Some t \<and> verify E a now t = Some v)"
proof -
  from assms obtain behind where f: "find_route True m path = Some (behind, h, ps)"
    "u = None \<longleftrightarrow> \<not> behind" "\<And>v. u = Some v \<Longrightarrow> require_auth E a now r = Inr v"
    by (auto simp: dispatch_def split: option.splits bool.splits prod.splits sum.splits)
  from find_route_entry[OF f(1)] obtain p hs where e: "(behind, p, hs) \<in> set (router True)"
    "pattern_matches p path" "h \<in> snd ` set hs" "ps = path_params p path"
    using method_handler_mem by blast
  show ?thesis
  proof (cases u)
    case None
    with f(2) e unguarded_entries[of p hs] show ?thesis
      by (auto simp: path_params_def pattern_matches_def list_all2_Cons1)
  next
    case (Some v)
    have "hs \<in> snd ` set protected_routes" using Some f(2) e(1) by (force simp: router_def nest_def)
    then have "h \<notin> {H_login, H_health, H_metrics}" using e(3) by (auto simp: protected_routes_def)
    with Some f(3)[OF Some] assms(1) show ?thesis
      by (auto simp: require_auth_def split: option.splits if_splits)
  qed
qed

theorem public_surface_witness:
  "dispatch Api_Auth.demo_codec demo_auth 9 \<lparr>rq_authorization = None, rq_query = None\<rparr> PUT [''api'', ''v1'', ''config''] = Refused \<and>
   (\<exists>h. dispatch Api_Auth.demo_codec demo_auth 9 \<lparr>rq_authorization = None, rq_query = None\<rparr> HEAD [''health''] = Runs h [] None \<and>
      h \<in> {H_login, H_health, H_metrics})"
proof -
  let ?r = "\<lparr>rq_authorization = None, rq_query = None\<rparr>"
  have on: "as_enabled demo_auth" by (simp add: demo_auth_def)
  have "find_route True PUT [''api'', ''v1'', ''config''] = Some (True, H_config_put, [])"
    by (simp add: find_route_def router_def nest_def public_routes_def protected_routes_def pattern_matches_def
        method_handler_def path_params_def)
  then have put: "dispatch Api_Auth.demo_codec demo_auth 9 ?r PUT [''api'', ''v1'', ''config''] = Refused"
    by (simp add: dispatch_def on require_auth_def extract_token_def bearer_def)
  have "find_route True HEAD [''health''] = Some (False, H_health, [])"
    by (simp add: find_route_def router_def pattern_matches_def method_handler_def path_params_def)
  then have head: "dispatch Api_Auth.demo_codec demo_auth 9 ?r HEAD [''health''] = Runs H_health [] None"
    by (simp add: dispatch_def on)
  from public_surface[OF on head] put head show ?thesis by simp
qed

end
