(* ===== verification/Cli_Commands.thy ===== *)
theory Cli_Commands
  imports Node_Analysis Alert_Outputs Plugin_Host Evaluation
begin

text \<open>
  The commands of the \<open>sigil\<close> binary, \<open>crates/sigil-cli/src/main.rs\<close>: what a command prints and whether
  it exits with success, over the components it calls. A command that returns an error prints it
  and fails; the lines it printed before are not kept. Reports, plans, analyses and evaluations are
  kept as the values that are printed, other lines are text in UTF-8 bytes. What loading the
  configuration, the rules directory and files gives is an argument, as is the SQL engine.
\<close>

datatype printed =
    Line string
  | PrintedReport report
  | PrintedChanges "change list"
  | PrintedAnalysis analysis
  | PrintedEval eval_report
  | PrintedEvals multi_seed_report

type_synonym outcome = "(printed list \<times> bool) result"

section \<open>Configuration\<close>

record cli_env =
  ce_codec :: config_codec
  ce_yaml :: yaml_display
  ce_is_dir :: "string \<Rightarrow> bool"

datatype config_action = ConfigValidate | ConfigPlan | ConfigApply | ConfigDiff

definition load_and_validate :: "cli_env \<Rightarrow> config result \<Rightarrow> (config \<times> report) result" where
  "load_and_validate C loaded = and_then loaded (\<lambda>c. Inr (c, validate (ce_yaml C) (ce_is_dir C) c))"

definition cmd_config ::
  "cli_env \<Rightarrow> config result \<Rightarrow> config_action \<Rightarrow> snapshot_fs \<Rightarrow> snapshot_fs \<times> outcome" where
  "cmd_config C loaded action fs =
     (case action of
        ConfigValidate \<Rightarrow>
          (fs, and_then (load_and_validate C loaded) (\<lambda>(c, r). Inr ([PrintedReport r], report_ok r)))
      | ConfigPlan \<Rightarrow>
          (fs, and_then (load_and_validate C loaded) (\<lambda>(c, r).
             if \<not> report_ok r then Inr ([PrintedReport r], False)
             else and_then (plan (ce_codec C) (ce_yaml C) (resolved_data_dir c) c fs) (\<lambda>ch. Inr ([PrintedChanges ch], True))))
      | ConfigApply \<Rightarrow>
          (case load_and_validate C loaded of
             Inl e \<Rightarrow> (fs, Inl e)
           | Inr (c, r) \<Rightarrow>
               if \<not> report_ok r then (fs, Inr ([PrintedReport r], False))
               else (case apply_config (ce_codec C) (ce_yaml C) (resolved_data_dir c) c fs of
                       (fs', Inl e) \<Rightarrow> (fs', Inl e)
                     | (fs', Inr ch) \<Rightarrow>
                         (fs', Inr ([PrintedChanges ch,
                                     Line (''applied; snapshot at '' @ snapshot_path (resolved_data_dir c))], True))))
      | ConfigDiff \<Rightarrow>
          (fs, and_then loaded (\<lambda>c.
             and_then (drift (ce_codec C) (ce_yaml C) (resolved_data_dir c) c fs) (\<lambda>ch.
               Inr ([PrintedChanges ch], ch = [])))))"

section \<open>Plugins\<close>

definition none_or_joined :: "string list \<Rightarrow> string" where
  "none_or_joined xs = (if xs = [] then ''(none)'' else join '', '' xs)"

definition em_dash :: string where
  "em_dash = [CHR 0xE2, CHR 0x80, CHR 0x94]"

definition denied_line :: "string \<Rightarrow> printed" where
  "denied_line why = Line (''result:   DENIED '' @ em_dash @ '' '' @ why)"

text \<open>The title line, and what reading the module named by the manifest gives.\<close>

definition plugin_verify ::
  "'k ed25519 \<Rightarrow> (string \<times> wasm_manifest) result \<Rightarrow> u8 list result \<Rightarrow> string list \<Rightarrow> string list \<Rightarrow> outcome" where
  "plugin_verify S manifest wasm allow trust =
     and_then manifest (\<lambda>(title, m).
       and_then (requested_capabilities m) (\<lambda>requested.
       and_then (policy_from_strings allow) (\<lambda>policy.
         let head = [Line (''plugin:   '' @ title), Line (''requests: '' @ none_or_joined (wm_capabilities m)),
                     Line (''granted:  '' @ none_or_joined allow)]
         in case policy_check policy requested of
              Inl denied \<Rightarrow> Inr (head @ [denied_line (join '', '' denied)], False)
            | Inr _ \<Rightarrow>
                if trust = [] then
                  Inr (head @ [Line (''result:   OK '' @ em_dash @ '' all requested capabilities granted'')], True)
                else
                  and_then (from_hex_keys S trust) (\<lambda>keys.
                  and_then wasm (\<lambda>bytes.
                    case signature_verify S keys bytes (wm_signature m) of
                      Inl e \<Rightarrow> Inr (head @ [denied_line (error_display e)], False)
                    | Inr _ \<Rightarrow>
                        Inr (head @ [Line (''result:   OK '' @ em_dash @ '' capabilities granted, signature trusted'')], True))))))"

definition is_hex :: "char \<Rightarrow> bool" where
  "is_hex c \<longleftrightarrow> hex_val c \<noteq> None"

definition plugin_sign :: "'k ed25519 \<Rightarrow> u8 list result \<Rightarrow> string \<Rightarrow> outcome" where
  "plugin_sign S wasm key =
     and_then wasm (\<lambda>bytes.
       let k = trim key
       in if length k \<noteq> 64 \<or> \<not> list_all is_hex k then Inl (Config ''--key must be a 32-byte hex secret key'')
          else case hex_pairs k of
                 None \<Rightarrow> Inl (Config ''invalid hex in --key'')
               | Some secret \<Rightarrow>
                   Inr ([Line (''signature:  '' @ sign_module S secret bytes),
                         Line (''public-key: '' @ public_key_hex S secret)], True))"

section \<open>Cluster\<close>

definition cmd_cluster :: "key_hasher \<Rightarrow> config result \<Rightarrow> outcome" where
  "cmd_cluster h loaded =
     and_then loaded (\<lambda>c.
       let cl = cf_cluster c; (roles, unknown) = from_targets (cc_targets cl);
           nodes = (if cc_nodes cl = [] then [''local''] else cc_nodes cl);
           shards = unwrap_or 8 (cc_shards cl); replication = unwrap_or 1 (cc_replication cl);
           m = shard_map_new (of_nat shards) (of_nat replication) nodes;
           shard = the (shard_for h m ''tenant=default'' 0)
       in Inr ([Line (''roles:       '' @ join '', '' (map role_as_str roles) @
                      (if is_monolith roles then '' (monolith)'' else []))] @
               map (\<lambda>u. Line (''  warning: unknown target `'' @ u @ ''`'')) unknown @
               [Line (''transport:   '' @ (case transport_kind_of cl of Some t \<Rightarrow> t | None \<Rightarrow> ''inproc'')),
                Line (''nodes:       '' @ show_nat (length nodes) @ '' | shards: '' @ show_nat shards @
                      '' | replication: '' @ show_nat replication),
                Line (''example:     key '' @ [CHR 0x27] @ ''tenant=default'' @ [CHR 0x27] @ '' '' @
                      [CHR 0xE2, CHR 0x86, CHR 0x92] @ '' shard '' @ show_nat (unat shard) @ '' '' @
                      [CHR 0xE2, CHR 0x86, CHR 0x92] @ '' ['' @ join '', '' (nodes_for m shard) @ '']'')], True))"

section \<open>Events\<close>

definition show_int :: "int \<Rightarrow> string" where
  "show_int n = (if n < 0 then CHR ''-'' # show_nat (nat (- n)) else show_nat (nat n))"

fun severity_debug :: "severity \<Rightarrow> string" where
  "severity_debug Unknown = ''Unknown''"
| "severity_debug Informational = ''Informational''"
| "severity_debug Low = ''Low''"
| "severity_debug Medium = ''Medium''"
| "severity_debug High = ''High''"
| "severity_debug Critical = ''Critical''"
| "severity_debug Fatal = ''Fatal''"

definition replay_line :: "alert \<Rightarrow> printed" where
  "replay_line a =
     Line (''  ['' @ al_rule_id a @ ''] '' @ al_title a @ '' (technique '' @ unwrap_or ''-'' (al_technique a) @ '')'')"

definition hunt_line :: "alert \<Rightarrow> printed" where
  "hunt_line a =
     Line (''  ['' @ al_rule_id a @ ''] '' @ al_title a @ '' severity='' @ severity_debug (al_severity a) @
           '' technique='' @ unwrap_or ''-'' (al_technique a) @ '' events='' @ show_nat (length (al_events a)))"

definition sigma_or_default ::
  "(string \<Rightarrow> (sigma_engine \<times> load_report) result) \<Rightarrow> config \<Rightarrow> (sigma_engine \<times> printed list) result" where
  "sigma_or_default load c =
     (case (sc_enabled (cf_sigma c), sc_rules_dir (cf_sigma c)) of
        (True, Some dir) \<Rightarrow>
          and_then (load dir) (\<lambda>(engine, r).
            Inr (engine, [Line (''loaded '' @ show_nat (lr_loaded r) @ '' Sigma rule(s) from '' @ dir)]))
      | _ \<Rightarrow> Inr (\<lparr>en_rules = []\<rparr>, []))"

text \<open>The replay, with the alerts it hands to the outputs.\<close>

definition cmd_replay ::
  "('f, 'g::linorder) pipeline_env \<Rightarrow> timestamp \<Rightarrow> 'g template_miner \<Rightarrow>
   (string \<Rightarrow> (sigma_engine \<times> load_report) result) \<Rightarrow>
   config result \<Rightarrow> string \<Rightarrow> string \<Rightarrow> file_view \<Rightarrow> event_index \<times> columnar_store \<Rightarrow>
   (event_index \<times> columnar_store \<times> printed list \<times> alert list) result" where
  "cmd_replay E now m load loaded file kind content stores =
     and_then loaded (\<lambda>c.
       and_then (sigma_or_default load c) (\<lambda>(engine, head).
       and_then (replay_file E now m engine kind file content stores) (\<lambda>(ix, col, out).
         Inr (ix, col,
              head @
              [Line (''replayed '' @ show_nat (ro_events out) @ '' event(s) into '' @ resolved_path (cf_index c)),
               Line (''total indexed: '' @ show_nat (index_count ix) @ '' | cold segments: '' @
                     show_nat (length (cs_catalog col)) @ '' ('' @ show_nat (sum_list (map sg_rows (cs_catalog col))) @ '' rows)'')] @
              (if ro_alerts out = [] then []
               else Line (show_nat (length (ro_alerts out)) @ '' alert(s):'') # map replay_line (ro_alerts out)),
              (if outputs_empty (sc_outputs (cf_sigma c)) then [] else ro_alerts out)))))"

definition cmd_correlate ::
  "analysis_env \<Rightarrow> ('f, 'g::linorder) pipeline_env \<Rightarrow> timestamp \<Rightarrow> 'g template_miner \<Rightarrow>
   (string \<Rightarrow> (sigma_engine \<times> load_report) result) \<Rightarrow> config result \<Rightarrow> string \<Rightarrow> string \<Rightarrow> file_view \<Rightarrow>
   string option \<Rightarrow> bool \<Rightarrow> outcome option" where
  "cmd_correlate X E now m load loaded file kind content window all_domains =
     (let window_of = (\<lambda>c. case window of
                             None \<Rightarrow> Inr (cf_window_micros c)
                           | Some w \<Rightarrow>
                               (case parse_duration_micros w of
                                  Some d \<Rightarrow> Inr d
                                | None \<Rightarrow> Inl (Config (''bad --window `'' @ w @ ''`''))));
          prepared = and_then loaded (\<lambda>c.
            and_then (sigma_or_default load c) (\<lambda>(engine, _).
            and_then (window_of campaign_config_default) (\<lambda>w.
              let cfg = campaign_config_default
                    \<lparr>cf_window_micros := w,
                     cf_require_cross_domain := (if all_domains then False else cf_require_cross_domain campaign_config_default)\<rparr>
              in analyze_file X E now m engine kind file content cfg (causal_config_default\<lparr>cc_window_micros := w\<rparr>))))
      in case prepared of
           Inl e \<Rightarrow> Some (Inl e)
         | Inr None \<Rightarrow> None
         | Inr (Some a) \<Rightarrow>
             Some (Inr (if ay_candidates a = [] then ([Line ''no campaign candidates found''], True)
                        else ([PrintedAnalysis a], True))))"

definition hunt_window :: "timestamp \<Rightarrow> string \<Rightarrow> int option \<Rightarrow> int option \<Rightarrow> (int \<times> int) result" where
  "hunt_window now period from to =
     (let stop = (case to of Some t \<Rightarrow> t | None \<Rightarrow> now)
      in case from of
           Some f \<Rightarrow> Inr (f, stop)
         | None \<Rightarrow>
             (case parse_duration_micros period of
                Some d \<Rightarrow> Inr (wrap64 (stop - d), stop)
              | None \<Rightarrow> Inl (Config (''bad --last `'' @ period @ ''`''))))"

text \<open>The skipped rules go to standard error and are not kept here.\<close>

definition cmd_hunt ::
  "sigma_env \<Rightarrow> json_text \<Rightarrow> timestamp \<Rightarrow> (string \<Rightarrow> (sigma_engine \<times> load_report) result) \<Rightarrow>
   (string \<Rightarrow> (correlation_engine \<times> load_report) result) \<Rightarrow> config result \<Rightarrow> columnar_store \<Rightarrow>
   string option \<Rightarrow> string \<Rightarrow> int option \<Rightarrow> int option \<Rightarrow> outcome" where
  "cmd_hunt E J now load load_corr loaded store rules period from to =
     and_then loaded (\<lambda>c.
       and_then (case rules of
                   Some d \<Rightarrow> Inr d
                 | None \<Rightarrow> (case sc_rules_dir (cf_sigma c) of
                              Some d \<Rightarrow> Inr d
                            | None \<Rightarrow> Inl (Config ''no rules dir: pass --rules or set sigma.rules_dir''))) (\<lambda>dir.
       and_then (load dir) (\<lambda>(engine, report).
       and_then (load_corr dir) (\<lambda>(correlations, corr_report).
       and_then (hunt_window now period from to) (\<lambda>(start, stop).
       and_then (read_range J start stop store) (\<lambda>events.
         let found = all_alerts (snd (retro_hunt E now engine correlations events))
         in Inr ([Line (''loaded '' @ show_nat (lr_loaded report) @ '' detection rule(s), '' @
                        show_nat (lr_loaded corr_report) @ '' correlation rule(s) from '' @ dir),
                  Line (''scanned '' @ show_nat (length events) @ '' event(s) in window ['' @
                        show_int start @ '', '' @ show_int stop @ '']'')] @
                 (if found = [] then [Line ''no matches'']
                  else Line (show_nat (length found) @ '' alert(s):'') # map hunt_line found), True)))))))"

section \<open>Queries\<close>

definition looks_like_dsl :: "string \<Rightarrow> bool" where
  "looks_like_dsl q \<longleftrightarrow>
     CHR ''|'' \<in> set q \<or>
     (case split_whitespace q of
        [] \<Rightarrow> False
      | w # _ \<Rightarrow> to_lowercase w \<in> {''search'', ''where'', ''stats'', ''fields'', ''sort'', ''head''})"

definition query_language :: "string \<Rightarrow> string option \<Rightarrow> bool result" where
  "query_language q lang =
     (case lang of
        None \<Rightarrow> Inr (looks_like_dsl q)
      | Some l \<Rightarrow>
          if l = ''dsl'' then Inr True else if l = ''sql'' then Inr False
          else Inl (Config (''unknown --lang `'' @ l @ ''` (sql|dsl)'')))"

definition cmd_query :: "(string \<Rightarrow> string result) \<Rightarrow> config result \<Rightarrow> string \<Rightarrow> string option \<Rightarrow> outcome" where
  "cmd_query run_sql loaded q lang =
     and_then loaded (\<lambda>_.
       and_then (query_language q lang) (\<lambda>is_dsl.
       and_then (if is_dsl then lower q else Inr q) (\<lambda>sql.
       and_then (run_sql sql) (\<lambda>table.
         Inr ((if is_dsl then [Line (''-- lowered to SQL: '' @ sql)] else []) @ [Line table], True)))))"

section \<open>Evaluation and the fleet\<close>

definition cmd_eval :: "eval_env \<Rightarrow> int \<Rightarrow> u64 \<Rightarrow> u64 \<Rightarrow> printed list option" where
  "cmd_eval V now seed seeds =
     (if 1 < seeds then
        map_option (\<lambda>r. [PrintedEvals r])
          (run_eval_multi V (map (\<lambda>n. synthetic now (of_nat n)) [unat seed ..< unat (seed + seeds)]))
      else map_option (\<lambda>r. [PrintedEval r]) (run_eval V (synthetic now seed)))"

datatype edr_request_kind =
    EdrAgents
  | EdrAgent string
  | EdrAction string string "nat option" "string option" "string option" "nat option" "string list"
  | EdrCommands "string option"
  | EdrToken "string option"

definition opt_entry :: "string \<Rightarrow> ('a \<Rightarrow> json) \<Rightarrow> 'a option \<Rightarrow> (string \<times> json) list" where
  "opt_entry key f x = (case x of Some v \<Rightarrow> [(key, f v)] | None \<Rightarrow> [])"

text \<open>Method, URL and body; the keys of the body's object are in alphabetical order.\<close>

fun edr_request :: "string \<Rightarrow> edr_request_kind \<Rightarrow> string \<times> string \<times> json option" where
  "edr_request api EdrAgents = (''GET'', api @ ''/edr/agents'', None)"
| "edr_request api (EdrAgent i) = (''GET'', api @ ''/edr/agents/'' @ i, None)"
| "edr_request api (EdrAction agent kind pid hash path max_bytes allow) =
     (''POST'', api @ ''/edr/agents/'' @ agent @ ''/actions'',
      Some (JObject
        ((if allow = [] then [] else [(''allowlist_cidrs'', JArray (map JString allow))]) @
         opt_entry ''hash_sha256'' JString hash @
         opt_entry ''max_bytes'' (\<lambda>n. JNumber (PosInt n)) max_bytes @
         opt_entry ''path'' JString path @ opt_entry ''pid'' (\<lambda>n. JNumber (PosInt n)) pid @
         [(''type'', JString kind)])))"
| "edr_request api (EdrCommands agent) =
     (''GET'', api @ ''/edr/commands'' @ (case agent of Some a \<Rightarrow> ''?agent='' @ a | None \<Rightarrow> []), None)"
| "edr_request api (EdrToken label) =
     (''POST'', api @ ''/edr/enroll-tokens'', Some (JObject [(''label'', JString (unwrap_or ''cli'' label))]))"

text \<open>
  Sending a request: \<open>None\<close> for a failed connection, else the status and the body, which is printed
  indented if it is JSON.
\<close>

definition edr_send :: "(string \<Rightarrow> string option) \<Rightarrow> (string, nat \<times> string) sum \<Rightarrow> outcome" where
  "edr_send pretty reply =
     (case reply of
        Inl e \<Rightarrow> Inl (Backend (''request failed: '' @ e))
      | Inr (status, text) \<Rightarrow> Inr ([Line (unwrap_or text (pretty text))], 200 \<le> status \<and> status < 300))"

section \<open>Properties\<close>

definition succeeds :: "outcome \<Rightarrow> bool" where
  "succeeds out = (case out of Inr (_, b) \<Rightarrow> b | Inl _ \<Rightarrow> False)"

lemma succeeds_simps [simp]:
  "succeeds (Inl e) \<longleftrightarrow> False" "succeeds (Inr (ls, b)) \<longleftrightarrow> b"
  "succeeds (and_then x f) \<longleftrightarrow> (\<exists>v. x = Inr v \<and> succeeds (f v))"
  by (simp_all add: succeeds_def, cases x) simp_all

lemma yaml_eq_refl:
  "yaml_wf v \<Longrightarrow> yaml_eq v v"
  "entries_wf m \<Longrightarrow> \<forall>x \<in> set m. map_of d (fst x) = Some (snd x) \<Longrightarrow> entries_eq m d"
  "items_wf xs \<Longrightarrow> items_eq xs xs"
  by (induction v and m and xs arbitrary: and d rule: yaml_wf_entries_wf_items_wf.induct) auto

text \<open>
  A successful \<open>config apply\<close> was given a valid configuration and leaves exactly its text as the
  snapshot; \<open>config diff\<close> on the same file then succeeds, if the text reads back as the
  configuration.
\<close>

theorem config_apply_gate:
  assumes "cmd_config C (Inr c) ConfigApply fs = (fs', out)" "succeeds out"
    and "\<And>t. cy_text (ce_codec C) c = Inr t \<Longrightarrow> cy_parse (ce_codec C) t = Inr c"
    and "cy_value (ce_codec C) c = Inr v" "yaml_wf v"
  shows "report_ok (validate (ce_yaml C) (ce_is_dir C) c) \<and>
    (\<exists>t. cy_text (ce_codec C) c = Inr t \<and> fs' = fs\<lparr>sn_file := Content t\<rparr>) \<and>
    cmd_config C (Inr c) ConfigDiff fs' = (fs', Inr ([PrintedChanges []], True))"
proof -
  from assms(1,2) obtain t where c: "report_ok (validate (ce_yaml C) (ce_is_dir C) c)"
    "cy_text (ce_codec C) c = Inr t" "fs' = fs\<lparr>sn_file := Content t\<rparr>"
    by (cases "cy_text (ce_codec C) c")
      (auto simp: cmd_config_def load_and_validate_def apply_config_def
        split: sum.splits prod.splits if_splits option.splits)
  have "Config_File.walk (ce_yaml C) p v v = []" for p using walk_Nil(1)[OF assms(5) assms(5)] yaml_eq_refl(1)[OF assms(5)] by simp
  with c assms(3)[OF c(2)] assms(4) show ?thesis
    by (simp add: cmd_config_def drift_def load_snapshot_def config_parse_def diff_def to_value_def)
qed

theorem config_apply_gate_witness:
  "let C = \<lparr>ce_codec = Config_File.demo_codec, ce_yaml = (\<lambda>_. None), ce_is_dir = (\<lambda>_. False)\<rparr>;
       fs = \<lparr>sn_file = NotFound, sn_dir_error = None, sn_write_error = None\<rparr>
   in cmd_config C (Inr empty_config) ConfigDiff (fst (cmd_config C (Inr empty_config) ConfigApply fs)) =
        (fst (cmd_config C (Inr empty_config) ConfigApply fs), Inr ([PrintedChanges []], True))"
proof -
  let ?C = "\<lparr>ce_codec = Config_File.demo_codec, ce_yaml = (\<lambda>_. None), ce_is_dir = (\<lambda>_. False)\<rparr>"
  let ?fs = "\<lparr>sn_file = NotFound, sn_dir_error = None, sn_write_error = None\<rparr>"
  let ?v = "YMapping [(YString ''version'', YNumber (show_nat (cf_version empty_config)))]"
  have valid: "report_ok (validate (\<lambda>_. None) (\<lambda>_. False) empty_config)"
    by (simp add: report_ok_def validate_def Let_def validate_edr_ok validate_auth_def report_empty_def
        empty_config_def auth_default_def edr_default_def)
  have run: "cmd_config ?C (Inr empty_config) ConfigApply ?fs =
      (fst (cmd_config ?C (Inr empty_config) ConfigApply ?fs), snd (cmd_config ?C (Inr empty_config) ConfigApply ?fs))"
    by simp
  have succ: "succeeds (snd (cmd_config ?C (Inr empty_config) ConfigApply ?fs))"
    using valid by (simp add: cmd_config_def load_and_validate_def apply_config_def plan_def load_snapshot_def diff_def
        to_value_def Config_File.demo_codec_def added_keys_def empty_config_def)
  have "cmd_config ?C (Inr empty_config) ConfigDiff (fst (cmd_config ?C (Inr empty_config) ConfigApply ?fs)) =
      (fst (cmd_config ?C (Inr empty_config) ConfigApply ?fs), Inr ([PrintedChanges []], True))"
    by (rule config_apply_gate[OF run succ, of ?v, THEN conjunct2, THEN conjunct2])
      (simp_all add: Config_File.demo_codec_def)
  then show ?thesis unfolding Let_def .
qed

text \<open>The other commands, and a failed apply, leave the snapshot alone.\<close>

lemma config_reads_only:
  assumes "cmd_config C loaded action fs = (fs', out)" "action \<noteq> ConfigApply \<or> \<not> succeeds out"
  shows "fs' = fs"
  using assms
  by (auto simp: cmd_config_def load_and_validate_def apply_config_def
      split: config_action.splits sum.splits prod.splits if_splits option.splits)

text \<open>
  \<open>plugin verify\<close> succeeds exactly if the requested capabilities parse and are among the granted
  ones, and, when trusted keys are given, these parse, the module can be read and its signature
  verifies under one of them.
\<close>

theorem plugin_verify_gate:
  "succeeds (plugin_verify S manifest wasm allow trust) \<longleftrightarrow>
     (\<exists>title m requested policy. manifest = Inr (title, m) \<and> requested_capabilities m = Inr requested \<and>
        policy_from_strings allow = Inr policy \<and> set requested \<subseteq> set (cp_allowed policy) \<and>
        (trust = [] \<or> (\<exists>keys bytes. from_hex_keys S trust = Inr keys \<and> wasm = Inr bytes \<and>
           signature_verify S keys bytes (wm_signature m) = Inr ())))"
proof -
  have "succeeds (case signature_verify S keys bytes sig of Inl e \<Rightarrow> Inr (f e, False) | Inr _ \<Rightarrow> Inr (ls, True)) \<longleftrightarrow>
      signature_verify S keys bytes sig = Inr ()" for keys bytes sig f ls
    by (simp split: sum.split)
  moreover have "succeeds (case policy_check policy requested of Inl d \<Rightarrow> Inr (f d, False) | Inr _ \<Rightarrow> k) \<longleftrightarrow>
      set requested \<subseteq> set (cp_allowed policy) \<and> succeeds k" for policy requested f k
    by (simp add: policy_check_ok[symmetric] split: sum.split)
  ultimately show ?thesis by (cases "trust = []") (auto simp: plugin_verify_def Let_def)
qed

text \<open>
  The finding on \<open>looks_like_dsl\<close>: SQL with the concatenation operator is taken for the pipe language
  and rejected.
\<close>

lemma concatenation_taken_for_dsl:
  "cmd_query run_sql (Inr c) ''SELECT id || host FROM events'' None = Inl (Parse ''unknown DSL command `select`'')"
  by (simp add: cmd_query_def query_language_def looks_like_dsl_def lower_def lower_stage_def split_first_def
      builder_default_def Let_def string_eval)

end
