(* ===== verification/Cluster_Bus.thy ===== *)
theory Cluster_Bus
  imports Cluster_Topology "HOL-Library.Sublist" "HOL-Library.Multiset"
begin

text \<open>
  The publish/subscribe buses of \<open>crates/sigil-cluster/src/transport.rs\<close> (\<open>InProcBus\<close>, \<open>TcpBus\<close>) and
  the topics of \<open>RaftDriver\<close>. A broadcast channel is what tokio documents: every receiver has a
  position of its own, a send without receivers is dropped, and a receiver more than the capacity
  behind is told how many messages it missed and goes on at the oldest one kept. A link to a peer is
  the bytes written on each of its connections; whether a connection attempt succeeds and how many
  bytes of a frame get out before a connection breaks are arguments.
\<close>

section \<open>Broadcast channels\<close>

definition bus_capacity :: nat where
  "bus_capacity = 1024"

record 'm channel =
  ch_log :: "'m list"
  ch_next :: "nat list"

datatype 'm received = Got 'm | Lagged nat | Pending

definition channel_new :: "'m channel" where
  "channel_new = \<lparr>ch_log = [], ch_next = []\<rparr>"

definition channel_send :: "'m \<Rightarrow> 'm channel \<Rightarrow> 'm channel" where
  "channel_send m c = (if ch_next c = [] then c else c\<lparr>ch_log := ch_log c @ [m]\<rparr>)"

definition channel_subscribe :: "'m channel \<Rightarrow> 'm channel \<times> nat" where
  "channel_subscribe c = (c\<lparr>ch_next := ch_next c @ [length (ch_log c)]\<rparr>, length (ch_next c))"

definition channel_recv :: "nat \<Rightarrow> 'm channel \<Rightarrow> 'm channel \<times> 'm received" where
  "channel_recv r c =
     (let n = ch_next c ! r; l = length (ch_log c)
      in if n + bus_capacity < l then
           (c\<lparr>ch_next := (ch_next c)[r := l - bus_capacity]\<rparr>, Lagged (l - bus_capacity - n))
         else if n < l then (c\<lparr>ch_next := (ch_next c)[r := Suc n]\<rparr>, Got (ch_log c ! n))
         else (c, Pending))"

section \<open>The in-process bus\<close>

type_synonym 'm bus = "string \<Rightarrow> 'm channel option"

definition bus_new :: "'m bus" where
  "bus_new = (\<lambda>_. None)"

definition bus_sender :: "string \<Rightarrow> 'm bus \<Rightarrow> 'm bus \<times> 'm channel" where
  "bus_sender topic b =
     (case b topic of Some c \<Rightarrow> (b, c) | None \<Rightarrow> (b(topic \<mapsto> channel_new), channel_new))"

definition bus_publish :: "string \<Rightarrow> 'm \<Rightarrow> 'm bus \<Rightarrow> 'm bus" where
  "bus_publish topic m b = (let (b', c) = bus_sender topic b in b'(topic \<mapsto> channel_send m c))"

definition bus_subscribe :: "string \<Rightarrow> 'm bus \<Rightarrow> 'm bus \<times> nat" where
  "bus_subscribe topic b =
     (let (b', c) = bus_sender topic b; (c', r) = channel_subscribe c in (b'(topic \<mapsto> c'), r))"

definition bus_recv :: "string \<Rightarrow> nat \<Rightarrow> 'm bus \<Rightarrow> 'm bus \<times> 'm received" where
  "bus_recv topic r b =
     (let (b', c) = bus_sender topic b; (c', x) = channel_recv r c in (b'(topic \<mapsto> c'), x))"

text \<open>A run of the bus: what its users do, and what the receivers were answered.\<close>

datatype 'm bus_op = Publish string 'm | Subscribe string | Receive string nat

definition bus_step ::
  "'m bus \<times> (string \<times> nat \<times> 'm received) list \<Rightarrow> 'm bus_op \<Rightarrow> 'm bus \<times> (string \<times> nat \<times> 'm received) list" where
  "bus_step st op =
     (case op of
        Publish t m \<Rightarrow> (bus_publish t m (fst st), snd st)
      | Subscribe t \<Rightarrow> (fst (bus_subscribe t (fst st)), snd st)
      | Receive t r \<Rightarrow> (let (b, x) = bus_recv t r (fst st) in (b, snd st @ [(t, r, x)])))"

definition published :: "string \<Rightarrow> 'm bus_op list \<Rightarrow> 'm list" where
  "published t ops = List.map_filter (\<lambda>op. case op of Publish t' m \<Rightarrow> if t' = t then Some m else None | _ \<Rightarrow> None) ops"

definition got :: "string \<Rightarrow> nat \<Rightarrow> (string \<times> nat \<times> 'm received) list \<Rightarrow> 'm list" where
  "got t r out =
     List.map_filter (\<lambda>(t', r', x). case x of Got m \<Rightarrow> if t' = t \<and> r' = r then Some m else None | _ \<Rightarrow> None) out"

definition lagged :: "string \<Rightarrow> nat \<Rightarrow> (string \<times> nat \<times> 'm received) list \<Rightarrow> bool" where
  "lagged t r out = list_ex (\<lambda>(t', r', x). t' = t \<and> r' = r \<and> (case x of Lagged _ \<Rightarrow> True | _ \<Rightarrow> False)) out"

lemma bus_step_simps:
  "bus_step st (Publish t m) = (bus_publish t m (fst st), snd st)"
  "bus_step st (Subscribe t) = (fst (bus_subscribe t (fst st)), snd st)"
  "bus_step st (Receive t r) = (let (b, x) = bus_recv t r (fst st) in (b, snd st @ [(t, r, x)]))"
  by (simp_all add: bus_step_def)

section \<open>Delivery on a bus\<close>

lemma map_filter_append: "List.map_filter f (xs @ ys) = List.map_filter f xs @ List.map_filter f ys"
  by (simp add: List.map_filter_def)

lemma published_snoc:
  "published t (ops @ [op]) = published t ops @ (case op of Publish t' m \<Rightarrow> if t' = t then [m] else [] | _ \<Rightarrow> [])"
  by (simp add: published_def map_filter_append List.map_filter_simps split: bus_op.split)

lemma take_mono_subseq: "a \<le> b \<Longrightarrow> subseq (take a xs) (take b xs)"
  by (metis min.absorb1 prefix_imp_subseq take_is_prefix take_take)

text \<open>Receiver \<open>r\<close> of topic \<open>t\<close>, subscribed when the log was \<open>base\<close> long.\<close>

definition receiver_inv ::
  "string \<Rightarrow> nat \<Rightarrow> nat \<Rightarrow> 'm bus \<times> (string \<times> nat \<times> 'm received) list \<Rightarrow> 'm list \<Rightarrow> bool" where
  "receiver_inv t r base st pub \<longleftrightarrow>
     (\<exists>c n. fst st t = Some c \<and> r < length (ch_next c) \<and> n = ch_next c ! r \<and> base \<le> n \<and> n \<le> length (ch_log c) \<and>
        drop base (ch_log c) = pub \<and> subseq (got t r (snd st)) (take (n - base) pub) \<and>
        (lagged t r (snd st) \<or> got t r (snd st) = take (n - base) pub))"

lemma receiver_inv_publish:
  assumes "receiver_inv t r base st pub"
  shows "receiver_inv t r base (bus_publish t' m (fst st), snd st) (pub @ (if t' = t then [m] else []))"
  using assms
  by (fastforce simp: receiver_inv_def bus_publish_def bus_sender_def channel_send_def split: option.splits)

lemma receiver_inv_subscribe:
  assumes "receiver_inv t r base st pub"
  shows "receiver_inv t r base (fst (bus_subscribe t' (fst st)), snd st) pub"
  using assms
  by (auto simp: receiver_inv_def bus_subscribe_def bus_sender_def channel_subscribe_def nth_append split: option.splits)

lemma channel_recv_frame:
  assumes "channel_recv r' c = (c', x)"
  shows "ch_log c' = ch_log c" "length (ch_next c') = length (ch_next c)" "r \<noteq> r' \<Longrightarrow> ch_next c' ! r = ch_next c ! r"
  using assms by (auto simp: channel_recv_def Let_def split: if_splits)

lemma receiver_inv_recv:
  assumes inv: "receiver_inv t r base st pub" and recv: "bus_recv t' r' (fst st) = (b, x)"
  shows "receiver_inv t r base (b, snd st @ [(t', r', x)]) pub"
proof (cases "t' = t \<and> r' = r")
  case False
  then have same: "got t r (snd st @ [(t', r', x)]) = got t r (snd st)" "lagged t r (snd st @ [(t', r', x)]) = lagged t r (snd st)"
    by (auto simp: got_def lagged_def map_filter_append List.map_filter_simps split: received.split)
  show ?thesis
  proof (cases "t' = t")
    case True
    with False have "r' \<noteq> r" by simp
    from inv obtain c where c: "fst st t = Some c" by (auto simp: receiver_inv_def)
    then obtain c' where "channel_recv r' c = (c', x)" "b = (fst st)(t \<mapsto> c')"
      using recv True by (auto simp: bus_recv_def bus_sender_def split: prod.splits)
    with channel_recv_frame[OF this(1)] inv c same \<open>r' \<noteq> r\<close> show ?thesis by (auto simp: receiver_inv_def)
  next
    case other: False
    have "b t = fst st t" using recv other by (auto simp: bus_recv_def bus_sender_def split: option.splits prod.splits)
    with inv same show ?thesis by (simp add: receiver_inv_def)
  qed
next
  case True
  from inv obtain c n where c: "fst st t = Some c" "r < length (ch_next c)" "n = ch_next c ! r" "base \<le> n"
    "n \<le> length (ch_log c)" "drop base (ch_log c) = pub" "subseq (got t r (snd st)) (take (n - base) pub)"
    "lagged t r (snd st) \<or> got t r (snd st) = take (n - base) pub"
    by (auto simp: receiver_inv_def)
  obtain c' where x: "channel_recv r c = (c', x)" "b = (fst st)(t \<mapsto> c')"
    using recv True c(1) by (auto simp: bus_recv_def bus_sender_def split: prod.splits)
  have g: "got t r (snd st @ [(t, r, x)]) = got t r (snd st) @ (case x of Got m \<Rightarrow> [m] | _ \<Rightarrow> [])"
    by (simp add: got_def map_filter_append List.map_filter_simps split: received.split)
  have l: "lagged t r (snd st @ [(t, r, x)]) \<longleftrightarrow> lagged t r (snd st) \<or> (\<exists>k. x = Lagged k)"
    by (auto simp: lagged_def split: received.split)
  consider (lag) "n + bus_capacity < length (ch_log c)" | (item) "n + bus_capacity \<ge> length (ch_log c)" "n < length (ch_log c)"
    | (pending) "n = length (ch_log c)" using c(5) by linarith
  then show ?thesis
  proof cases
    case lag
    let ?n = "length (ch_log c) - bus_capacity"
    from lag have "channel_recv r c = (c\<lparr>ch_next := (ch_next c)[r := ?n]\<rparr>, Lagged (?n - n))"
      by (simp add: channel_recv_def Let_def c(3))
    with x(1) have e: "c' = c\<lparr>ch_next := (ch_next c)[r := ?n]\<rparr>" "x = Lagged (?n - n)" by simp_all
    have "subseq (got t r (snd st)) (take (?n - base) pub)"
      using c(7) take_mono_subseq[of "n - base" "?n - base" pub] lag by (meson diff_le_mono less_diff_conv nat_less_le subseq_order.trans)
    moreover have "base \<le> ?n" using lag c(4) by linarith
    ultimately show ?thesis using True x(2) c(2,6) e g l by (auto simp: receiver_inv_def)
  next
    case item
    then have "channel_recv r c = (c\<lparr>ch_next := (ch_next c)[r := Suc n]\<rparr>, Got (ch_log c ! n))"
      by (simp add: channel_recv_def Let_def c(3))
    with x(1) have e: "c' = c\<lparr>ch_next := (ch_next c)[r := Suc n]\<rparr>" "x = Got (ch_log c ! n)" by simp_all
    have "take (Suc n - base) pub = take (n - base) pub @ [ch_log c ! n]"
      using item(2) c(4,6) by (auto simp: Suc_diff_le take_Suc_conv_app_nth)
    with c(7,8) show ?thesis using True x(2) c(2,4,6) e g l item(2) by (auto simp: receiver_inv_def)
  next
    case pending
    then have "channel_recv r c = (c, Pending)" by (simp add: channel_recv_def Let_def c(3)[symmetric])
    with x(1) have e: "c' = c" "x = Pending" by simp_all
    show ?thesis using True x(2) c e g l by (auto simp: receiver_inv_def)
  qed
qed

text \<open>
  A subscriber of a bus receives messages of its topic that were published after it subscribed, in
  the order of their publication and each at most once, whatever other users of the bus do; as long
  as it is not told that it lagged, none is left out.
\<close>

theorem bus_at_most_once:
  fixes b0 :: "'m bus"
  assumes "bus_subscribe t b0 = (b1, r)" and "foldl bus_step (b1, []) ops = (b2, out)"
  shows "subseq (got t r out) (published t ops) \<and> (lagged t r out \<or> prefix (got t r out) (published t ops))"
proof -
  let ?base = "length (ch_log (snd (bus_sender t b0)))"
  have start: "receiver_inv t r ?base (b1, []) []"
    using assms(1) by (auto simp: receiver_inv_def bus_subscribe_def bus_sender_def channel_subscribe_def channel_new_def
        got_def lagged_def List.map_filter_simps split: option.splits)
  have "receiver_inv t r ?base (foldl bus_step (b1, []) ops) (published t ops)"
  proof (induction ops rule: rev_induct)
    case Nil
    then show ?case using start by (simp add: published_def List.map_filter_simps)
  next
    case (snoc op ops)
    let ?st = "foldl bus_step (b1, []) ops"
    show ?case
    proof (cases op)
      case (Publish t' m)
      with receiver_inv_publish[OF snoc, of t' m] show ?thesis
        by (simp add: bus_step_simps published_snoc)
    next
      case (Subscribe t')
      with receiver_inv_subscribe[OF snoc, of t'] show ?thesis
        by (simp add: bus_step_simps published_snoc)
    next
      case (Receive t' r')
      obtain b x where "bus_recv t' r' (fst ?st) = (b, x)" by fastforce
      with receiver_inv_recv[OF snoc this] Receive show ?thesis
        by (simp add: bus_step_simps published_snoc)
    qed
  qed
  then obtain k where "subseq (got t r out) (take k (published t ops))"
    "lagged t r out \<or> got t r out = take k (published t ops)"
    using assms(2) by (auto simp: receiver_inv_def)
  moreover have "prefix (take k (published t ops)) (published t ops)" by (rule take_is_prefix)
  ultimately show ?thesis using prefix_imp_subseq subseq_order.trans by metis
qed

theorem bus_at_most_once_witness:
  "let (b1, r) = bus_subscribe ''a'' (bus_new :: nat bus);
       ops = [Publish ''a'' 1, Receive ''a'' r, Publish ''b'' 7, Publish ''a'' 2, Receive ''a'' r];
       out = snd (foldl bus_step (b1, []) ops)
   in got ''a'' r out = [1, 2] \<and> subseq (got ''a'' r out) (published ''a'' ops)"
proof -
  obtain b1 r where s: "bus_subscribe ''a'' (bus_new :: nat bus) = (b1, r)" by fastforce
  let ?ops = "[Publish ''a'' (1::nat), Receive ''a'' r, Publish ''b'' 7, Publish ''a'' 2, Receive ''a'' r]"
  obtain b2 out where run: "foldl bus_step (b1, []) ?ops = (b2, out)" by fastforce
  have "got ''a'' r out = [1, 2]"
    using s run by (auto simp: bus_subscribe_def bus_sender_def bus_new_def channel_subscribe_def channel_new_def
        bus_step_def bus_publish_def bus_recv_def channel_send_def channel_recv_def Let_def bus_capacity_def got_def
        List.map_filter_simps)
  with bus_at_most_once[OF s run] s run show ?thesis by (simp add: Let_def)
qed

section \<open>Links to peers\<close>

type_synonym frame = "bytes \<times> bytes"

definition peer_queue :: nat where
  "peer_queue = 1024"

record link =
  lk_queue :: "frame list"
  lk_conn :: "bytes option"
  lk_closed :: "bytes list"

definition link_new :: link where
  "link_new = \<lparr>lk_queue = [], lk_conn = None, lk_closed = []\<rparr>"

definition try_send :: "frame \<Rightarrow> link \<Rightarrow> link" where
  "try_send f l = (if length (lk_queue l) < peer_queue then l\<lparr>lk_queue := lk_queue l @ [f]\<rparr> else l)"

text \<open>
  One turn of \<open>peer_task\<close>: whether a connection attempt succeeds, and after how many bytes of the frame
  the connection breaks, if it does.
\<close>

definition peer_turn :: "bool \<Rightarrow> nat option \<Rightarrow> link \<Rightarrow> link" where
  "peer_turn reachable broken l =
     (case lk_queue l of
        [] \<Rightarrow> l
      | f # fs \<Rightarrow>
          (case (case lk_conn l of Some sent \<Rightarrow> Some sent | None \<Rightarrow> if reachable then Some [] else None) of
             None \<Rightarrow> l\<lparr>lk_queue := fs\<rparr>
           | Some sent \<Rightarrow>
               (case broken of
                  None \<Rightarrow> l\<lparr>lk_queue := fs, lk_conn := Some (sent @ write_frame (fst f) (snd f))\<rparr>
                | Some n \<Rightarrow>
                    l\<lparr>lk_queue := fs, lk_conn := None,
                      lk_closed := lk_closed l @ [sent @ take n (write_frame (fst f) (snd f))]\<rparr>)))"

datatype link_op = Enqueue frame | Turn bool "nat option"

fun link_step :: "link \<Rightarrow> link_op \<Rightarrow> link" where
  "link_step l (Enqueue f) = try_send f l"
| "link_step l (Turn ok broken) = peer_turn ok broken l"

text \<open>\<open>TcpBus::publish\<close>: the local bus, then every peer's queue.\<close>

record tcp_bus =
  tb_local :: "bytes bus"
  tb_peers :: "link list"

definition tcp_publish :: "string \<Rightarrow> (string \<Rightarrow> bytes) \<Rightarrow> bytes \<Rightarrow> tcp_bus \<Rightarrow> tcp_bus" where
  "tcp_publish topic encode payload b =
     b\<lparr>tb_local := bus_publish topic payload (tb_local b), tb_peers := map (try_send (encode topic, payload)) (tb_peers b)\<rparr>"

definition tcp_subscribe :: "string \<Rightarrow> tcp_bus \<Rightarrow> tcp_bus \<times> nat" where
  "tcp_subscribe topic b = (let (l, r) = bus_subscribe topic (tb_local b) in (b\<lparr>tb_local := l\<rparr>, r))"

text \<open>An inbound connection publishes its frames on the local bus; \<open>decode\<close> is the lossy UTF-8 decoder.\<close>

definition read_connection :: "(bytes \<Rightarrow> string) \<Rightarrow> bytes \<Rightarrow> tcp_bus \<Rightarrow> tcp_bus" where
  "read_connection decode stream b =
     b\<lparr>tb_local := fold (\<lambda>(t, p). bus_publish (decode t) p) (fst (read_frames stream)) (tb_local b)\<rparr>"

text \<open>
  The frames the peer reads from each connection of a link, oldest first. A task of its own reads each
  connection, so what reaches the peer's local bus is any interleaving of them.
\<close>

definition conn_frames :: "link \<Rightarrow> frame list list" where
  "conn_frames l = map (fst \<circ> read_frames) (lk_closed l @ (case lk_conn l of Some s \<Rightarrow> [s] | None \<Rightarrow> []))"

fun merges :: "'a list list \<Rightarrow> 'a list set" where
  "merges [] = {[]}"
| "merges (xs # xss) = (\<Union>ys \<in> merges xss. shuffles xs ys)"

definition arrivals :: "link \<Rightarrow> frame list set" where
  "arrivals l = merges (conn_frames l)"

text \<open>The frames in the order they were written.\<close>

definition delivered :: "link \<Rightarrow> frame list" where
  "delivered l = concat (conn_frames l)"

definition enqueued :: "link_op list \<Rightarrow> frame list" where
  "enqueued ops = List.map_filter (\<lambda>op. case op of Enqueue f \<Rightarrow> Some f | Turn _ _ \<Rightarrow> None) ops"

section \<open>Delivery on a link\<close>

definition wire :: "frame list \<Rightarrow> bytes" where
  "wire fs = concat (map (\<lambda>f. write_frame (fst f) (snd f)) fs)"

lemma wire_simps [simp]:
  "wire [] = []" "wire (f # fs) = write_frame (fst f) (snd f) @ wire fs" "wire (fs @ gs) = wire fs @ wire gs"
  by (simp_all add: wire_def)

lemma read_frames_Nil [simp]: "fst (read_frames []) = []"
  by (simp add: read_frames.simps[of "[]"] read_frame_def)

lemma read_frames_write:
  assumes "list_all frame_ok fs"
  shows "read_frames (wire fs @ rest) =
    (fs @ fst (read_frames rest), snd (read_frames rest))"
  using assms
proof (induction fs)
  case (Cons f fs)
  then show ?case by (subst read_frames.simps) (simp add: read_write_frame case_prod_beta)
qed simp

lemma read_u32_extend: "read_u32 s = Some (w, r) \<Longrightarrow> read_u32 (s @ x) = Some (w, r @ x)"
  by (cases s rule: read_u32.cases) auto

text \<open>More bytes behind a complete frame do not change it.\<close>

lemma read_frame_extend:
  assumes "read_frame s = Inr (f, r)"
  shows "read_frame (s @ x) = Inr (f, r @ x)"
proof -
  from assms obtain tl s1 pl s2 where a: "read_u32 s = Some (tl, s1)" "\<not> tl > max_frame" "unat tl \<le> length s1"
    "read_u32 (drop (unat tl) s1) = Some (pl, s2)" "\<not> pl > max_frame" "unat pl \<le> length s2"
    "f = (take (unat tl) s1, take (unat pl) s2)" "r = drop (unat pl) s2"
    by (auto simp: read_frame_def not_less split: option.splits if_splits)
  show ?thesis
    using a(2,3,5,6) by (simp add: read_frame_def read_u32_extend[OF a(1)] read_u32_extend[OF a(4)] a(7,8))
qed

lemma take_frame:
  assumes "frame_ok f"
  shows "fst (read_frames (take n (write_frame (fst f) (snd f)))) =
    (if length (write_frame (fst f) (snd f)) \<le> n then [f] else [])"
proof (cases "length (write_frame (fst f) (snd f)) \<le> n")
  case True
  then show ?thesis using read_frames_write[of "[f]" "[]"] assms by simp
next
  case False
  let ?w = "write_frame (fst f) (snd f)"
  have "read_frame (take n ?w) \<noteq> Inr (g, r)" for g r
  proof
    assume "read_frame (take n ?w) = Inr (g, r)"
    from read_frame_extend[OF this, of "drop n ?w"] have "r @ drop n ?w = []"
      using read_write_frame[OF assms, of "[]"] by simp
    with False show False by simp
  qed
  then obtain e where "read_frame (take n ?w) = Inl e" by (metis surj_pair sum.exhaust)
  then show ?thesis using False by (simp add: read_frames.simps[of "take n ?w"])
qed

definition conn_ok :: "link \<Rightarrow> bool" where
  "conn_ok l \<longleftrightarrow> (\<forall>s. lk_conn l = Some s \<longrightarrow> (\<exists>fs. list_all frame_ok fs \<and> s = wire fs))"

text \<open>What one turn does to the frames that arrived and those that wait.\<close>

lemma peer_turn_effect:
  assumes "conn_ok l" "lk_queue l = f # fs" "frame_ok f"
  shows "conn_ok (peer_turn ok broken l) \<and> lk_queue (peer_turn ok broken l) = fs \<and>
    (ok \<and> broken = None \<longrightarrow> lk_closed (peer_turn ok broken l) = lk_closed l) \<and>
    (delivered (peer_turn ok broken l) = delivered l @ [f] \<or>
     delivered (peer_turn ok broken l) = delivered l \<and> \<not> (ok \<and> broken = None))"
proof -
  let ?sent = "case lk_conn l of Some sent \<Rightarrow> Some sent | None \<Rightarrow> if ok then Some [] else None"
  show ?thesis
  proof (cases ?sent)
    case None
    then show ?thesis using assms by (auto simp: peer_turn_def conn_ok_def delivered_def conn_frames_def split: option.splits if_splits)
  next
    case (Some sent)
    have "\<exists>gs. list_all frame_ok gs \<and> sent = wire gs \<and> delivered l = concat (map (fst \<circ> read_frames) (lk_closed l)) @ gs"
    proof (cases "lk_conn l")
      case None
      then show ?thesis using Some by (intro exI[of _ "[]"]) (auto simp: delivered_def conn_frames_def split: if_splits)
    next
      case conn: (Some s)
      then obtain gs where gs: "list_all frame_ok gs" "s = wire gs" using assms(1) by (auto simp: conn_ok_def)
      with conn Some read_frames_write[OF gs(1), of "[]"] show ?thesis
        by (intro exI[of _ gs]) (simp add: delivered_def conn_frames_def)
    qed
    then obtain gs where gs: "list_all frame_ok gs" "sent = wire gs"
      "delivered l = concat (map (fst \<circ> read_frames) (lk_closed l)) @ gs" by blast
    show ?thesis
    proof (cases broken)
      case None
      let ?l = "l\<lparr>lk_queue := fs, lk_conn := Some (wire (gs @ [f]))\<rparr>"
      have l: "peer_turn ok broken l = ?l" using None Some assms(2) gs(2) by (simp add: peer_turn_def)
      have ok: "list_all frame_ok (gs @ [f])" using gs(1) assms(3) by simp
      have "delivered ?l = concat (map (fst \<circ> read_frames) (lk_closed l)) @ fst (read_frames (wire (gs @ [f])))"
        by (simp add: delivered_def conn_frames_def del: wire_simps)
      also have "fst (read_frames (wire (gs @ [f]))) = gs @ [f]"
        using read_frames_write[OF ok, of "[]"] by (simp del: wire_simps)
      finally have "delivered ?l = delivered l @ [f]" using gs(3) by (simp add: comp_def)
      moreover have "conn_ok ?l" using ok by (auto simp: conn_ok_def simp del: wire_simps intro!: exI[of _ "gs @ [f]"])
      ultimately show ?thesis unfolding l by (simp del: wire_simps)
    next
      case broke: (Some n)
      have "fst (read_frames (sent @ take n (write_frame (fst f) (snd f)))) =
          gs @ (if length (write_frame (fst f) (snd f)) \<le> n then [f] else [])"
        using read_frames_write[OF gs(1)] take_frame[OF assms(3)] by (simp add: gs(2))
      then show ?thesis using broke Some assms(2) gs(3)
        by (auto simp: peer_turn_def conn_ok_def delivered_def conn_frames_def)
    qed
  qed
qed

lemma enqueued_snoc: "enqueued (ops @ [op]) = enqueued ops @ (case op of Enqueue f \<Rightarrow> [f] | Turn _ _ \<Rightarrow> [])"
  by (simp add: enqueued_def map_filter_append List.map_filter_simps split: link_op.split)

definition healthy :: "link_op list \<Rightarrow> bool" where
  "healthy ops \<longleftrightarrow> length (enqueued ops) \<le> peer_queue \<and>
     list_all (\<lambda>op. case op of Turn ok broken \<Rightarrow> ok \<and> broken = None | Enqueue _ \<Rightarrow> True) ops"

lemma subseq_skip: "subseq (xs @ y # zs) ws \<Longrightarrow> subseq (xs @ zs) ws"
  by (erule subseq_order.trans[rotated]) (auto intro: list_emb_append_mono)

definition link_inv :: "link \<Rightarrow> link_op list \<Rightarrow> bool" where
  "link_inv l ops \<longleftrightarrow> conn_ok l \<and> list_all frame_ok (lk_queue l) \<and>
     subseq (delivered l @ lk_queue l) (enqueued ops) \<and> (healthy ops \<longrightarrow> delivered l @ lk_queue l = enqueued ops \<and> lk_closed l = [])"

lemma healthy_snoc: "healthy (ops @ [op]) \<Longrightarrow> healthy ops"
  by (auto simp: healthy_def enqueued_snoc)

lemma link_inv_enqueue:
  assumes "link_inv l ops" "frame_ok f"
  shows "link_inv (try_send f l) (ops @ [Enqueue f])"
proof (cases "length (lk_queue l) < peer_queue")
  case True
  have "subseq (delivered l @ lk_queue l @ [f]) (enqueued ops @ [f])"
    using assms(1) by (metis append_assoc link_inv_def subseq_append)
  moreover have "conn_ok (try_send f l)" "delivered (try_send f l) = delivered l" "lk_closed (try_send f l) = lk_closed l"
    using assms(1) by (simp_all add: try_send_def link_inv_def conn_ok_def delivered_def conn_frames_def)
  ultimately show ?thesis
    using True assms healthy_snoc[of ops] by (auto simp: link_inv_def enqueued_snoc try_send_def)
next
  case False
  have "\<not> healthy (ops @ [Enqueue f])"
  proof
    assume *: "healthy (ops @ [Enqueue f])"
    then have "length (enqueued ops) < peer_queue" by (simp add: healthy_def enqueued_snoc)
    moreover have "enqueued ops = delivered l @ lk_queue l"
      using assms(1) healthy_snoc[OF *] by (simp add: link_inv_def)
    then have "length (lk_queue l) \<le> length (enqueued ops)" by simp
    ultimately show False using False by simp
  qed
  moreover have "subseq (delivered l @ lk_queue l) (enqueued ops @ [f])"
    using assms(1) unfolding link_inv_def by (meson prefixI prefix_imp_subseq subseq_order.trans)
  ultimately show ?thesis using False assms(1) by (simp add: link_inv_def enqueued_snoc try_send_def)
qed

lemma link_inv_turn:
  assumes "link_inv l ops"
  shows "link_inv (peer_turn ok broken l) (ops @ [Turn ok broken])"
proof (cases "lk_queue l")
  case Nil
  then have "peer_turn ok broken l = l" by (simp add: peer_turn_def)
  with assms healthy_snoc[of ops] show ?thesis by (auto simp: link_inv_def enqueued_snoc)
next
  case (Cons f fs)
  with assms have inv: "conn_ok l" "frame_ok f" "list_all frame_ok fs" "subseq (delivered l @ f # fs) (enqueued ops)"
    "healthy ops \<Longrightarrow> delivered l @ f # fs = enqueued ops" "healthy ops \<Longrightarrow> lk_closed l = []" by (simp_all add: link_inv_def)
  note e = peer_turn_effect[OF inv(1) Cons inv(2), of ok broken]
  from e consider (sent) "delivered (peer_turn ok broken l) = delivered l @ [f]"
    | (dropped) "delivered (peer_turn ok broken l) = delivered l" "\<not> (ok \<and> broken = None)" by blast
  then show ?thesis
  proof cases
    case sent
    have "lk_closed (peer_turn ok broken l) = []" if "healthy (ops @ [Turn ok broken])"
      using that e inv(6) healthy_snoc[OF that] by (simp add: healthy_def)
    with sent e inv healthy_snoc[of ops] show ?thesis by (auto simp: link_inv_def enqueued_snoc)
  next
    case dropped
    have "subseq (delivered l @ fs) (enqueued ops)" by (rule subseq_skip[OF inv(4)])
    moreover have "\<not> healthy (ops @ [Turn ok broken])" using dropped(2) by (simp add: healthy_def)
    ultimately show ?thesis using e dropped(1) inv(3) by (simp add: link_inv_def enqueued_snoc)
  qed
qed

text \<open>Interleavings.\<close>

lemma subseq_shuffles: "zs \<in> shuffles xs ys \<Longrightarrow> subseq xs zs \<and> subseq ys zs"
proof (induction xs ys arbitrary: zs rule: shuffles.induct)
  case (3 x xs y ys)
  then consider us where "zs = x # us" "us \<in> shuffles xs (y # ys)" | us where "zs = y # us" "us \<in> shuffles (x # xs) ys"
    by auto
  then show ?case
  proof cases
    case 1
    from "3.IH"(1)[OF 1(2)] show ?thesis unfolding 1(1) by (intro conjI subseq_Cons2 list_emb_Cons) simp_all
  next
    case 2
    from "3.IH"(2)[OF 2(2)] have "subseq (x # xs) us" "subseq ys us" by blast+
    then have "subseq (x # xs) (y # us)" "subseq (y # ys) (y # us)" by (simp_all only: list_emb_Cons subseq_Cons2)
    then show ?thesis unfolding 2(1) ..
  qed
qed auto

lemma merges_mset: "zs \<in> merges xss \<Longrightarrow> mset zs = mset (concat xss)"
  by (induction xss arbitrary: zs) (auto dest: mset_shuffles)

lemma merges_subseq: "zs \<in> merges xss \<Longrightarrow> list_all (\<lambda>xs. subseq xs zs) xss"
proof (induction xss arbitrary: zs)
  case (Cons xs xss)
  then obtain ys where ys: "ys \<in> merges xss" "zs \<in> shuffles xs ys" by auto
  with Cons.IH subseq_shuffles[OF ys(2)] show ?case by (auto simp: list_all_iff intro: subseq_order.trans)
qed simp

lemma subseq_mset: "subseq xs ys \<Longrightarrow> mset xs \<subseteq># mset ys"
  by (induction rule: list_emb.induct) (auto intro: subset_mset.order_trans)



section \<open>Topics of the Raft driver\<close>

definition topic_for :: "string \<Rightarrow> string \<Rightarrow> string" where
  "topic_for cluster node = ''raft.'' @ cluster @ ''.'' @ node"

definition topic_bcast :: "string \<Rightarrow> string" where
  "topic_bcast cluster = ''raft.'' @ cluster @ ''.bcast''"

text \<open>
  Within a cluster the topics of different nodes differ, and they differ from the broadcast topic
  unless a node is called \<open>bcast\<close>: such a node hears every message on both of its subscriptions, and
  what is directed to it reaches every node.
\<close>

lemma topics_distinct:
  "topic_for c n = topic_for c n' \<longleftrightarrow> n = n'" "topic_for c n = topic_bcast c \<longleftrightarrow> n = ''bcast''"
  by (auto simp: topic_for_def topic_bcast_def)

end
