(* ===== verification/Raft_Driver.thy ===== *)
theory Raft_Driver
  imports Raft_Cluster Cluster_Bus
begin

text \<open>
  \<open>RaftDriver\<close> of \<open>crates/sigil-cluster/src/raft.rs\<close> on an in-process bus: spawning, the pump loop, its
  receivers and proposals. The JSON encoding of messages is a parameter. The drivers of a cluster on
  one bus are shown to take steps of the cluster of \<open>Raft_Cluster\<close>, so what is proved there of all
  reachable states holds of them.
\<close>

section \<open>One driver\<close>

record 'p raft_codec =
  rc_encode :: "raft_msg \<Rightarrow> 'p option"
  rc_decode :: "'p \<Rightarrow> raft_msg option"

text \<open>A panic in an operation of the node poisons its mutex: the pump and later calls panic too.\<close>

record raft_driver =
  dv_node :: raft_node
  dv_topic :: string
  dv_directed :: nat
  dv_bcast :: nat
  dv_poisoned :: bool

definition driver_spawn :: "string \<Rightarrow> raft_node \<Rightarrow> 'p bus \<Rightarrow> 'p bus \<times> raft_driver" where
  "driver_spawn c n b =
     (let (b1, d) = bus_subscribe (topic_for c (rn_id n)) b; (b2, x) = bus_subscribe (topic_bcast c) b1
      in (b2, \<lparr>dv_node = n, dv_topic = topic_for c (rn_id n), dv_directed = d, dv_bcast = x, dv_poisoned = False\<rparr>))"

definition envelope_topic :: "string \<Rightarrow> envelope \<Rightarrow> string" where
  "envelope_topic c e = (case env_to e of Some node \<Rightarrow> topic_for c node | None \<Rightarrow> topic_bcast c)"

fun driver_send :: "'p raft_codec \<Rightarrow> string \<Rightarrow> envelope list \<Rightarrow> 'p bus \<Rightarrow> 'p bus" where
  "driver_send C c [] b = b"
| "driver_send C c (e # out) b =
     driver_send C c out (case rc_encode C (env_msg e) of Some p \<Rightarrow> bus_publish (envelope_topic c e) p b | None \<Rightarrow> b)"

definition driver_receive ::
  "'p raft_codec \<Rightarrow> 'p received \<Rightarrow> raft_node \<Rightarrow> (raft_node \<times> envelope list) option" where
  "driver_receive C answer n =
     (case answer of
        Got p \<Rightarrow> (case rc_decode C p of Some msg \<Rightarrow> decode_step n msg | None \<Rightarrow> Some (n, []))
      | _ \<Rightarrow> Some (n, []))"

datatype pump_event = Ticked | Directed | Broadcasted

definition pump_turn ::
  "'p raft_codec \<Rightarrow> string \<Rightarrow> pump_event \<Rightarrow> 'p bus \<Rightarrow> raft_driver \<Rightarrow> 'p bus \<times> raft_driver" where
  "pump_turn C c ev b d =
     (if dv_poisoned d then (b, d)
      else let (b', r) =
             (case ev of
                Ticked \<Rightarrow> (b, tick (dv_node d))
              | Directed \<Rightarrow> (let (b', answer) = bus_recv (dv_topic d) (dv_directed d) b in (b', driver_receive C answer (dv_node d)))
              | Broadcasted \<Rightarrow> (let (b', answer) = bus_recv (topic_bcast c) (dv_bcast d) b in (b', driver_receive C answer (dv_node d))))
           in case r of
                None \<Rightarrow> (b', d\<lparr>dv_poisoned := True\<rparr>)
              | Some (n, out) \<Rightarrow> (driver_send C c out b', d\<lparr>dv_node := n\<rparr>))"

text \<open>\<open>propose\<close> answers \<open>None\<close> when it panics.\<close>

definition driver_propose ::
  "'p raft_codec \<Rightarrow> string \<Rightarrow> u8 list \<Rightarrow> 'p bus \<Rightarrow> raft_driver \<Rightarrow> ('p bus \<times> raft_driver) \<times> unit result option" where
  "driver_propose C c data b d =
     (if dv_poisoned d then ((b, d), None)
      else case propose data (dv_node d) of
             None \<Rightarrow> ((b, d\<lparr>dv_poisoned := True\<rparr>), None)
           | Some (Inl e) \<Rightarrow> ((b, d), Some (Inl e))
           | Some (Inr (n, out)) \<Rightarrow> ((driver_send C c out b, d\<lparr>dv_node := n\<rparr>), Some (Inr ())))"

section \<open>The drivers of a cluster\<close>

record 'p raft_system =
  sy_bus :: "'p bus"
  sy_driver :: "string \<Rightarrow> raft_driver option"

definition system_new :: "'p raft_system" where
  "system_new = \<lparr>sy_bus = bus_new, sy_driver = (\<lambda>_. None)\<rparr>"

datatype system_op = Spawned string | Pump string pump_event | Proposed string "u8 list"

definition fresh_node :: "string list \<Rightarrow> (string \<Rightarrow> u64) \<Rightarrow> string \<Rightarrow> raft_node" where
  "fresh_node members seed i = raft_new i (filter (\<lambda>j. j \<noteq> i) members) (seed i)"

definition with_driver :: "string \<Rightarrow> 'p raft_system \<Rightarrow> ('p bus \<Rightarrow> raft_driver \<Rightarrow> 'p bus \<times> raft_driver) \<Rightarrow> 'p raft_system" where
  "with_driver i s f =
     (case sy_driver s i of
        None \<Rightarrow> s
      | Some d \<Rightarrow> (let (b, d') = f (sy_bus s) d in s\<lparr>sy_bus := b, sy_driver := (sy_driver s)(i \<mapsto> d')\<rparr>))"

fun system_step ::
  "'p raft_codec \<Rightarrow> string \<Rightarrow> string list \<Rightarrow> (string \<Rightarrow> u64) \<Rightarrow> 'p raft_system \<Rightarrow> system_op \<Rightarrow> 'p raft_system" where
  "system_step C c ms seed s (Spawned i) =
     (if i \<in> set ms \<and> sy_driver s i = None then
        (let (b, d) = driver_spawn c (fresh_node ms seed i) (sy_bus s)
         in s\<lparr>sy_bus := b, sy_driver := (sy_driver s)(i \<mapsto> d)\<rparr>)
      else s)"
| "system_step C c ms seed s (Pump i ev) = with_driver i s (pump_turn C c ev)"
| "system_step C c ms seed s (Proposed i data) = with_driver i s (\<lambda>b d. fst (driver_propose C c data b d))"

definition system_run ::
  "'p raft_codec \<Rightarrow> string \<Rightarrow> string list \<Rightarrow> (string \<Rightarrow> u64) \<Rightarrow> system_op list \<Rightarrow> 'p raft_system" where
  "system_run C c ms seed ops = foldl (system_step C c ms seed) system_new ops"

section \<open>What waits at a receiver\<close>

definition receiver_ok :: "string \<Rightarrow> nat \<Rightarrow> 'p bus \<Rightarrow> bool" where
  "receiver_ok t r b \<longleftrightarrow>
     (case b t of Some ch \<Rightarrow> r < length (ch_next ch) \<and> ch_next ch ! r \<le> length (ch_log ch) | None \<Rightarrow> False)"

definition waiting :: "string \<Rightarrow> nat \<Rightarrow> 'p bus \<Rightarrow> 'p list" where
  "waiting t r b = (case b t of Some ch \<Rightarrow> drop (ch_next ch ! r) (ch_log ch) | None \<Rightarrow> [])"

lemma waiting_publish:
  assumes "receiver_ok t r b"
  shows "receiver_ok t r (bus_publish t' m b)"
    "waiting t r (bus_publish t' m b) = waiting t r b @ (if t' = t then [m] else [])"
  using assms by (auto simp: receiver_ok_def waiting_def bus_sender_def bus_publish_def channel_send_def split: option.splits)

lemma waiting_subscribe:
  assumes "bus_subscribe t' b = (b', r')"
  shows "receiver_ok t' r' b'" "waiting t' r' b' = []"
    "receiver_ok t r b \<Longrightarrow> receiver_ok t r b' \<and> waiting t r b' = waiting t r b"
proof -
  define ch where "ch = snd (bus_sender t' b)"
  have b': "b' = b(t' \<mapsto> ch\<lparr>ch_next := ch_next ch @ [length (ch_log ch)]\<rparr>)" "r' = length (ch_next ch)"
    using assms by (auto simp: ch_def bus_sender_def bus_subscribe_def channel_subscribe_def split: option.splits)
  then show "receiver_ok t' r' b'" "waiting t' r' b' = []" by (simp_all add: receiver_ok_def waiting_def)
  assume "receiver_ok t r b"
  then obtain ct where ct: "b t = Some ct" "r < length (ch_next ct)" "ch_next ct ! r \<le> length (ch_log ct)"
    by (auto simp: receiver_ok_def split: option.splits)
  moreover have "ct = ch" if "t = t'" using ct(1) that by (simp add: ch_def bus_sender_def)
  ultimately show "receiver_ok t r b' \<and> waiting t r b' = waiting t r b"
    by (cases "t = t'") (simp_all add: b' receiver_ok_def waiting_def nth_append)
qed

text \<open>A receive moves one receiver forward, by one message when it gets it.\<close>

lemma recv_effect:
  assumes "bus_recv t r b = (b', x)" "receiver_ok t r b"
  obtains ch n where "b t = Some ch" "b' = b(t \<mapsto> ch\<lparr>ch_next := (ch_next ch)[r := n]\<rparr>)" "r < length (ch_next ch)"
    "ch_next ch ! r \<le> n" "n \<le> length (ch_log ch)"
    "case x of Got p \<Rightarrow> ch_next ch ! r < length (ch_log ch) \<and> p = ch_log ch ! (ch_next ch ! r) \<and> n = Suc (ch_next ch ! r)
       | _ \<Rightarrow> True"
proof -
  obtain ch where ch: "b t = Some ch" "r < length (ch_next ch)" "ch_next ch ! r \<le> length (ch_log ch)"
    using assms(2) by (auto simp: receiver_ok_def split: option.splits)
  let ?n = "ch_next ch ! r" and ?l = "length (ch_log ch)"
  have rec: "bus_recv t r b = (b(t \<mapsto> fst (channel_recv r ch)), snd (channel_recv r ch))"
    by (simp add: bus_recv_def bus_sender_def ch(1) case_prod_beta)
  consider "?n + bus_capacity < ?l" | "\<not> ?n + bus_capacity < ?l" "?n < ?l" | "?n = ?l" using ch(3) by linarith
  then show thesis
  proof cases
    case 1
    then show thesis using rec assms(1)
      by (intro that[OF ch(1) _ ch(2), of "?l - bus_capacity"]) (auto simp: channel_recv_def Let_def)
  next
    case 2
    then show thesis using rec assms(1)
      by (intro that[OF ch(1) _ ch(2), of "Suc ?n"]) (auto simp: channel_recv_def Let_def)
  next
    case 3
    then have "channel_recv r ch = (ch, Pending)" by (simp add: channel_recv_def Let_def)
    with rec assms(1) have "b' = b(t \<mapsto> ch)" "x = Pending" by simp_all
    then show thesis using ch(3) by (intro that[OF ch(1) _ ch(2), of ?n]) simp_all
  qed
qed

lemma waiting_recv:
  assumes "bus_recv t' r' b = (b', x)" "receiver_ok t' r' b" "receiver_ok t r b"
  shows "receiver_ok t r b' \<and> (\<exists>k. waiting t r b' = drop k (waiting t r b))"
proof -
  obtain ch n where e: "b t' = Some ch" "b' = b(t' \<mapsto> ch\<lparr>ch_next := (ch_next ch)[r' := n]\<rparr>)" "r' < length (ch_next ch)"
    "ch_next ch ! r' \<le> n" "n \<le> length (ch_log ch)" by (rule recv_effect[OF assms(1,2)])
  have front: "drop n xs = drop (n - ch_next ch ! r') (drop (ch_next ch ! r') xs)" for xs :: "'a list"
    using e(4) by simp
  show ?thesis
  proof (cases "t = t' \<and> r = r'")
    case True
    with e have "waiting t r b' = drop (n - ch_next ch ! r') (waiting t r b)" by (simp add: waiting_def)
    moreover have "receiver_ok t r b'" using True e by (simp add: receiver_ok_def)
    ultimately show ?thesis by blast
  next
    case False
    with e(1,2) have "waiting t r b' = waiting t r b" "receiver_ok t r b'"
      using assms(3) by (auto simp: waiting_def receiver_ok_def split: option.splits)
    then show ?thesis by (metis drop0)
  qed
qed

lemma waiting_got:
  assumes "bus_recv t r b = (b', Got p)" "receiver_ok t r b"
  shows "waiting t r b = p # waiting t r b'"
proof -
  obtain ch n where e: "b t = Some ch" "b' = b(t \<mapsto> ch\<lparr>ch_next := (ch_next ch)[r := n]\<rparr>)" "r < length (ch_next ch)"
    "ch_next ch ! r \<le> n" "n \<le> length (ch_log ch)"
    "ch_next ch ! r < length (ch_log ch) \<and> p = ch_log ch ! (ch_next ch ! r) \<and> n = Suc (ch_next ch ! r)"
    by (rule recv_effect[OF assms]) simp
  note n = e(6)
  have "drop (ch_next ch ! r) (ch_log ch) = p # drop n (ch_log ch)"
    using Cons_nth_drop_Suc[of "ch_next ch ! r" "ch_log ch"] n by metis
  then show ?thesis using e(1-3) by (simp add: waiting_def)
qed

section \<open>Drivers take steps of the cluster\<close>

definition codec_ok :: "'p raft_codec \<Rightarrow> bool" where
  "codec_ok C \<longleftrightarrow> (\<forall>m p. rc_encode C m = Some p \<longrightarrow> rc_decode C p = Some m)"

definition undelivered :: "'p raft_codec \<Rightarrow> string \<Rightarrow> 'p bus \<Rightarrow> raft_driver \<Rightarrow> raft_msg multiset" where
  "undelivered C c b d =
     mset (List.map_filter (rc_decode C) (waiting (dv_topic d) (dv_directed d) b)) +
     mset (List.map_filter (rc_decode C) (waiting (topic_bcast c) (dv_bcast d) b))"

definition receivers_ok :: "string \<Rightarrow> 'p bus \<Rightarrow> raft_driver \<Rightarrow> bool" where
  "receivers_ok c b d \<longleftrightarrow> receiver_ok (dv_topic d) (dv_directed d) b \<and> receiver_ok (topic_bcast c) (dv_bcast d) b"

text \<open>
  A driver that runs has the node of the cluster, and what waits at its receivers is still in the
  cluster's network. A member that is not spawned has its first node.
\<close>

definition driver_tracks ::
  "'p raft_codec \<Rightarrow> string \<Rightarrow> 'p bus \<Rightarrow> raft_node \<Rightarrow> net \<Rightarrow> string \<Rightarrow> raft_driver \<Rightarrow> bool" where
  "driver_tracks C c b n net i d \<longleftrightarrow>
     receivers_ok c b d \<and> dv_topic d = topic_for c i \<and> (\<not> dv_poisoned d \<longrightarrow> dv_node d = n) \<and>
     (\<forall>m. count (undelivered C c b d) m \<le> count net (i, m))"

lemma mset_filter_drop: "mset (List.map_filter f (drop k xs)) \<subseteq># mset (List.map_filter f xs)"
  by (metis append_take_drop_id map_filter_append mset_append mset_subset_eq_add_right)

lemma undelivered_recv:
  assumes "bus_recv t r b = (b', x)" "receiver_ok t r b" "receivers_ok c b d"
  shows "receivers_ok c b' d" "undelivered C c b' d \<subseteq># undelivered C c b d"
proof -
  note w = waiting_recv[OF assms(1,2), of "dv_topic d" "dv_directed d"] waiting_recv[OF assms(1,2), of "topic_bcast c" "dv_bcast d"]
  show "receivers_ok c b' d" using assms(3) w by (simp add: receivers_ok_def)
  obtain k l where "waiting (dv_topic d) (dv_directed d) b' = drop k (waiting (dv_topic d) (dv_directed d) b)"
    "waiting (topic_bcast c) (dv_bcast d) b' = drop l (waiting (topic_bcast c) (dv_bcast d) b)"
    using assms(3) w by (auto simp: receivers_ok_def)
  then show "undelivered C c b' d \<subseteq># undelivered C c b d"
    unfolding undelivered_def by (simp add: subset_mset.add_mono mset_filter_drop)
qed

text \<open>What a driver gets from its own receivers leaves them.\<close>

lemma undelivered_got:
  assumes "bus_recv t r b = (b', Got p)" "receivers_ok c b d" "rc_decode C p = Some m"
    and "(t, r) = (dv_topic d, dv_directed d) \<or> (t, r) = (topic_bcast c, dv_bcast d)"
  shows "add_mset m (undelivered C c b' d) \<subseteq># undelivered C c b d"
proof -
  have ok: "receiver_ok t r b" using assms(2,4) by (auto simp: receivers_ok_def)
  have front: "mset (List.map_filter (rc_decode C) (waiting t r b)) =
      add_mset m (mset (List.map_filter (rc_decode C) (waiting t r b')))"
    using waiting_got[OF assms(1) ok] assms(3) by (simp add: List.map_filter_simps)
  have shrink: "mset (List.map_filter (rc_decode C) (waiting t' r' b')) \<subseteq># mset (List.map_filter (rc_decode C) (waiting t' r' b))"
    if "receiver_ok t' r' b" for t' r'
    using waiting_recv[OF assms(1) ok that] mset_filter_drop by metis
  note mono = subset_mset.add_left_mono subset_mset.add_right_mono
  from assms(4) show ?thesis
  proof
    assume "(t, r) = (dv_topic d, dv_directed d)"
    then show ?thesis using front shrink[of "topic_bcast c" "dv_bcast d"] assms(2)
      by (simp add: undelivered_def receivers_ok_def)
  next
    assume "(t, r) = (topic_bcast c, dv_bcast d)"
    then show ?thesis using front shrink[of "dv_topic d" "dv_directed d"] assms(2)
      by (simp add: undelivered_def receivers_ok_def)
  qed
qed

lemma undelivered_publish:
  assumes "receivers_ok c b d" "rc_decode C p = Some m" "dv_topic d = topic_for c i" "i \<noteq> ''bcast''"
    and "env_to e \<noteq> Some ''bcast''"
  shows "receivers_ok c (bus_publish (envelope_topic c e) p b) d"
    "undelivered C c (bus_publish (envelope_topic c e) p b) d =
      undelivered C c b d + (if env_to e = None \<or> env_to e = Some i then {#m#} else {#})"
proof -
  let ?b = "bus_publish (envelope_topic c e) p b"
  have ok: "receiver_ok (dv_topic d) (dv_directed d) b" "receiver_ok (topic_bcast c) (dv_bcast d) b"
    using assms(1) by (simp_all add: receivers_ok_def)
  then show "receivers_ok c ?b d" by (simp add: receivers_ok_def waiting_publish(1))
  have t: "envelope_topic c e = dv_topic d \<longleftrightarrow> env_to e = Some i" "envelope_topic c e = topic_bcast c \<longleftrightarrow> env_to e = None"
    using assms(3-5) topics_distinct[of c] by (auto simp: envelope_topic_def split: option.split) metis
  show "undelivered C c ?b d = undelivered C c b d + (if env_to e = None \<or> env_to e = Some i then {#m#} else {#})"
    using assms(2) by (auto simp: undelivered_def waiting_publish(2)[OF ok(1)] waiting_publish(2)[OF ok(2)] t
        map_filter_append List.map_filter_simps)
qed

lemma send_one_count:
  "i \<in> set ms \<Longrightarrow> env_to e = None \<or> env_to e = Some i \<Longrightarrow> (i, env_msg e) \<in># mset (send_one ms e)"
  by (auto simp: send_one_def split: option.split)

text \<open>
  No message names \<open>bcast\<close> as the node to answer when no member is called so: replies go to the
  sender of a message, everything else to peers or to all.
\<close>

fun asks_bcast :: "raft_msg \<Rightarrow> bool" where
  "asks_bcast (RequestVote t c li lt) = (c = ''bcast'')"
| "asks_bcast (AppendEntries t l pi pt es lc) = (l = ''bcast'')"
| "asks_bcast m = False"

definition plain_node :: "raft_node \<Rightarrow> bool" where
  "plain_node n \<longleftrightarrow> rn_id n \<noteq> ''bcast'' \<and> ''bcast'' \<notin> set (rn_peers n)"

definition plain_out :: "envelope list \<Rightarrow> bool" where
  "plain_out out \<longleftrightarrow> list_all (\<lambda>e. env_to e \<noteq> Some ''bcast'' \<and> \<not> asks_bcast (env_msg e)) out"

lemma plain_append: "append_for n ni p = Some e \<Longrightarrow> rn_id n \<noteq> ''bcast'' \<Longrightarrow> p \<noteq> ''bcast'' \<Longrightarrow>
    env_to e \<noteq> Some ''bcast'' \<and> \<not> asks_bcast (env_msg e)"
  by (auto simp: append_for_def Let_def split: if_splits)

lemma plain_broadcast: "broadcast_appends n = Some out \<Longrightarrow> plain_node n \<Longrightarrow> plain_out out"
  unfolding broadcast_appends_def plain_out_def plain_node_def list_all_iff
  by (auto split: raft_state.splits dest!: those_map_Some dest: plain_append)

lemma plain_leader: "become_leader n = Some (n', out) \<Longrightarrow> plain_node n \<Longrightarrow> plain_out out"
  by (auto simp: become_leader_def Let_def plain_node_def dest!: plain_broadcast)

lemma plain_tick: "tick n = Some (n', out) \<Longrightarrow> plain_node n \<Longrightarrow> plain_out out"
  by (auto simp: tick_def Let_def start_election_def plain_out_def plain_node_def split: if_splits
      dest!: plain_leader[unfolded plain_out_def plain_node_def] plain_broadcast[unfolded plain_out_def plain_node_def])

lemma plain_propose: "propose data n = Some (Inr (n', out)) \<Longrightarrow> plain_node n \<Longrightarrow> plain_out out"
  by (auto simp: propose_def Let_def plain_node_def split: if_splits dest!: plain_broadcast)

lemma plain_step:
  assumes "decode_step n m = Some (n', out)" "plain_node n" "\<not> asks_bcast m"
  shows "plain_out out"
proof (cases m)
  case (RequestVote t c li lt)
  then show ?thesis using assms
    by (auto simp: decode_step_def on_request_vote_def Let_def plain_out_def split: if_splits)
next
  case (VoteReply t f g)
  then show ?thesis using assms plain_leader
    by (auto simp: decode_step_def on_vote_reply_def Let_def plain_node_def plain_out_def
        split: raft_state.splits if_splits dest!: plain_leader[unfolded plain_out_def plain_node_def])
next
  case (AppendEntries t l pi pt es lc)
  then show ?thesis using assms
    by (auto simp: decode_step_def on_append_entries_def append_reply_def Let_def plain_out_def split: if_splits)
next
  case (AppendReply t f ok k)
  then show ?thesis using assms
    by (auto simp: decode_step_def on_append_reply_def Let_def plain_out_def split: raft_state.splits if_splits)
qed

lemma plain_send: "plain_out out \<Longrightarrow> x \<in># mset (send ms out) \<Longrightarrow> \<not> asks_bcast (snd x)"
  by (auto simp: plain_out_def list_all_iff send_def send_one_def split: option.splits)

text \<open>What a driver publishes reaches the receivers of a member at most as often as the cluster says.\<close>

lemma undelivered_send:
  assumes "codec_ok C" "receivers_ok c b d" "dv_topic d = topic_for c i" "i \<noteq> ''bcast''" "i \<in> set ms" "plain_out out"
  shows "receivers_ok c (driver_send C c out b) d \<and>
    count (undelivered C c (driver_send C c out b) d) m \<le> count (undelivered C c b d) m + count (mset (send ms out)) (i, m)"
  using assms(2,6)
proof (induction out arbitrary: b)
  case (Cons e out)
  have send: "mset (send ms (e # out)) = mset (send_one ms e) + mset (send ms out)" by (simp add: send_def)
  show ?case
  proof (cases "rc_encode C (env_msg e)")
    case None
    then show ?thesis using Cons.IH[OF Cons.prems(1)] Cons.prems(2) by (simp add: send plain_out_def)
  next
    case (Some p)
    then have dec: "rc_decode C p = Some (env_msg e)" using assms(1) by (simp add: codec_ok_def)
    have to: "env_to e \<noteq> Some ''bcast''" "plain_out out" using Cons.prems(2) by (simp_all add: plain_out_def)
    note pub = undelivered_publish[OF Cons.prems(1) dec assms(3,4) to(1)]
    have "count (undelivered C c (bus_publish (envelope_topic c e) p b) d) m \<le>
        count (undelivered C c b d) m + count (mset (send_one ms e)) (i, m)"
      using pub(2) send_one_count[OF assms(5), of e] by (auto simp: Suc_le_eq count_greater_zero_iff)
    then show ?thesis using Cons.IH[OF pub(1) to(2)] Some by (simp add: send)
  qed
qed (simp add: send_def)


section \<open>The simulation\<close>

definition tracks ::
  "'p raft_codec \<Rightarrow> string \<Rightarrow> string list \<Rightarrow> (string \<Rightarrow> u64) \<Rightarrow> 'p raft_system \<Rightarrow> cluster \<Rightarrow> bool" where
  "tracks C c ms seed S s \<longleftrightarrow> cl_members s = ms \<and>
     (\<forall>i. i \<notin> set ms \<longrightarrow> sy_driver S i = None) \<and>
     (\<forall>i \<in> set ms. sy_driver S i = None \<longrightarrow> cl_node s i = fresh_node ms seed i) \<and>
     (\<forall>i \<in> set ms. \<forall>d. sy_driver S i = Some d \<longrightarrow> driver_tracks C c (sy_bus S) (cl_node s i) (cl_net s) i d) \<and>
     (\<forall>i \<in> set ms. plain_node (cl_node s i)) \<and> (\<forall>x \<in># cl_net s. \<not> asks_bcast (snd x))"

lemma tracksD:
  assumes "tracks C c ms seed S s"
  shows "cl_members s = ms" "sy_driver S i = Some d \<Longrightarrow> i \<in> set ms"
    "sy_driver S i = Some d \<Longrightarrow> driver_tracks C c (sy_bus S) (cl_node s i) (cl_net s) i d"
    "i \<in> set ms \<Longrightarrow> plain_node (cl_node s i)" "(i, m) \<in># cl_net s \<Longrightarrow> \<not> asks_bcast m"
proof -
  show *: "sy_driver S i = Some d \<Longrightarrow> i \<in> set ms"
    by (cases "i \<in> set ms") (use assms in \<open>auto simp: tracks_def\<close>)
  show "cl_members s = ms" "i \<in> set ms \<Longrightarrow> plain_node (cl_node s i)" using assms by (simp_all add: tracks_def)
  show "sy_driver S i = Some d \<Longrightarrow> driver_tracks C c (sy_bus S) (cl_node s i) (cl_net s) i d"
    using * assms by (simp add: tracks_def)
  show "(i, m) \<in># cl_net s \<Longrightarrow> \<not> asks_bcast m" using assms by (force simp: tracks_def)
qed

lemma driver_tracksD:
  assumes "driver_tracks C c b n net i d"
  shows "receivers_ok c b d" "dv_topic d = topic_for c i" "\<not> dv_poisoned d \<Longrightarrow> dv_node d = n"
    "count (undelivered C c b d) m \<le> count net (i, m)"
  using assms unfolding driver_tracks_def by blast+

lemma driver_tracksI:
  assumes "driver_tracks C c b n net i d" "receivers_ok c b' d"
    "\<And>m. count (undelivered C c b' d) m \<le> count net' (i, m)"
  shows "driver_tracks C c b' n net' i d"
  using assms unfolding driver_tracks_def by blast

lemma driver_tracks_node: "driver_tracks C c b n net i d \<Longrightarrow> driver_tracks C c b n' net i (d\<lparr>dv_node := n'\<rparr>)"
  by (auto simp: driver_tracks_def receivers_ok_def undelivered_def)

text \<open>A receive that brings nothing, or a panic, leaves the cluster where it is.\<close>

lemma driver_tracks_recv:
  assumes "bus_recv t r b = (b', x)" "receiver_ok t r b" "driver_tracks C c b n net i d"
  shows "driver_tracks C c b' n net i d"
proof (rule driver_tracksI[OF assms(3)])
  note d = driver_tracksD[OF assms(3)]
  show "receivers_ok c b' d" by (rule undelivered_recv(1)[OF assms(1,2) d(1)])
  show "count (undelivered C c b' d) m \<le> count net (i, m)" for m
    using mset_subset_eq_count[OF undelivered_recv(2)[OF assms(1,2) d(1)]] d(4) by (rule order_trans)
qed

lemma tracks_recv:
  assumes "tracks C c ms seed S s" "bus_recv t r (sy_bus S) = (b, x)" "receiver_ok t r (sy_bus S)"
  shows "tracks C c ms seed (S\<lparr>sy_bus := b\<rparr>) s"
  using assms(1) driver_tracks_recv[OF assms(2,3)] by (simp add: tracks_def)

lemma tracks_poison:
  assumes "tracks C c ms seed S s" "sy_driver S i = Some d"
  shows "tracks C c ms seed (S\<lparr>sy_driver := (sy_driver S)(i \<mapsto> d\<lparr>dv_poisoned := True\<rparr>)\<rparr>) s"
proof -
  have "driver_tracks C c (sy_bus S) n net i (d\<lparr>dv_poisoned := True\<rparr>)" if "driver_tracks C c (sy_bus S) n net i d" for n net
    using that by (auto simp: driver_tracks_def receivers_ok_def undelivered_def)
  with assms tracksD(2,3)[OF assms] show ?thesis unfolding tracks_def by simp
qed

text \<open>A message that a driver got leaves the network.\<close>

lemma tracks_got:
  assumes "tracks C c ms seed S s" "sy_driver S i = Some d" "bus_recv t r (sy_bus S) = (b, Got p)"
    and "(t, r) = (dv_topic d, dv_directed d) \<or> (t, r) = (topic_bcast c, dv_bcast d)" "rc_decode C p = Some m"
  shows "(i, m) \<in># cl_net s" "tracks C c ms seed (S\<lparr>sy_bus := b\<rparr>) (s\<lparr>cl_net := cl_net s - {#(i, m)#}\<rparr>)"
proof -
  note t = driver_tracksD[OF tracksD(3)[OF assms(1,2)]]
  have ok: "receiver_ok t r (sy_bus S)" using t(1) assms(4) by (auto simp: receivers_ok_def)
  let ?net = "cl_net s - {#(i, m)#}"
  have less: "count (undelivered C c b d) k + (if k = m then 1 else 0) \<le> count (cl_net s) (i, k)" for k
  proof -
    have "count (add_mset m (undelivered C c b d)) k \<le> count (cl_net s) (i, k)"
      using mset_subset_eq_count[OF undelivered_got[OF assms(3) t(1) assms(5,4)]] t(4) by (rule order_trans)
    then show ?thesis by (simp split: if_splits)
  qed
  show "(i, m) \<in># cl_net s" by (rule count_inI) (use less[of m] in simp)
  have "driver_tracks C c b (cl_node s j) ?net j d'" if "sy_driver S j = Some d'" for j d'
  proof -
    note T = driver_tracks_recv[OF assms(3) ok tracksD(3)[OF assms(1) that]]
    show ?thesis
    proof (rule driver_tracksI[OF T driver_tracksD(1)[OF T]])
      fix k
      show "count (undelivered C c b d') k \<le> count ?net (j, k)"
      proof (cases "j = i")
        case True
        with that assms(2) have "d' = d" by simp
        with True less[of k] show ?thesis by auto
      next
        case False
        with driver_tracksD(4)[OF T, of k] show ?thesis by simp
      qed
    qed
  qed
  then show "tracks C c ms seed (S\<lparr>sy_bus := b\<rparr>) (s\<lparr>cl_net := ?net\<rparr>)"
    using assms(1) by (auto simp: tracks_def dest: in_diffD)
qed

text \<open>A driver whose node moves and publishes.\<close>

lemma tracks_send:
  assumes "tracks C c ms seed S s" "sy_driver S i = Some d" "codec_ok C" "''bcast'' \<notin> set ms"
    and "plain_out out" "same_node (cl_node s i) n"
  shows "tracks C c ms seed (S\<lparr>sy_bus := driver_send C c out (sy_bus S), sy_driver := (sy_driver S)(i \<mapsto> d\<lparr>dv_node := n\<rparr>)\<rparr>)
    (update s i n out)"
proof -
  let ?b = "driver_send C c out (sy_bus S)"
  have net: "cl_net (update s i n out) = cl_net s + mset (send ms out)"
    using tracksD(1)[OF assms(1)] by (simp add: update_def)
  have "driver_tracks C c ?b (cl_node s j) (cl_net s + mset (send ms out)) j d'" if "sy_driver S j = Some d'" for j d'
  proof -
    note T = tracksD(3)[OF assms(1) that] and j = tracksD(2)[OF assms(1) that]
    note t = driver_tracksD[OF T]
    have "j \<noteq> ''bcast''" using j assms(4) by blast
    note u = undelivered_send[OF assms(3) t(1,2) this j assms(5)]
    show ?thesis
    proof (rule driver_tracksI[OF T])
      show "receivers_ok c ?b d'" using u by blast
      show "count (undelivered C c ?b d') m \<le> count (cl_net s + mset (send ms out)) (j, m)" for m
        using u[of m] t(4)[of m] by simp
    qed
  qed
  note all = this
  have moved: "driver_tracks C c ?b (if j = i then n else cl_node s j) (cl_net s + mset (send ms out)) j
      (if j = i then d'\<lparr>dv_node := n\<rparr> else d')" if "sy_driver S j = Some d'" for j d'
    using all[OF that] driver_tracks_node[OF all[OF that], of n] by (cases "j = i") simp_all
  have plain: "plain_node n" using tracksD(4)[OF assms(1) tracksD(2)[OF assms(1,2)]] assms(6)
    by (simp add: plain_node_def same_node_def)
  have upd: "cl_node (update s i n out) = (cl_node s)(i := n)" "cl_members (update s i n out) = ms"
    using tracksD(1)[OF assms(1)] by (simp_all add: update_def)
  let ?D = "(sy_driver S)(i \<mapsto> d\<lparr>dv_node := n\<rparr>)"
  have "\<forall>j \<in> set ms. \<forall>d'. ?D j = Some d' \<longrightarrow>
      driver_tracks C c ?b (((cl_node s)(i := n)) j) (cl_net s + mset (send ms out)) j d'"
  proof (intro ballI allI impI)
    fix j d' assume "?D j = Some d'"
    then show "driver_tracks C c ?b (((cl_node s)(i := n)) j) (cl_net s + mset (send ms out)) j d'"
      using moved[of j] assms(2) by (cases "j = i") auto
  qed
  moreover have "\<forall>j. j \<notin> set ms \<longrightarrow> ?D j = None" "\<forall>j \<in> set ms. ?D j = None \<longrightarrow> ((cl_node s)(i := n)) j = fresh_node ms seed j"
    "\<forall>j \<in> set ms. plain_node (((cl_node s)(i := n)) j)"
    using assms(1) plain tracksD(2)[OF assms(1,2)] by (auto simp: tracks_def)
  moreover have "\<forall>x \<in># cl_net s + mset (send ms out). \<not> asks_bcast (snd x)"
    using assms(1) plain_send[OF assms(5), of _ ms] by (auto simp: tracks_def)
  ultimately show ?thesis unfolding tracks_def net upd by (simp del: fun_upd_apply)
qed

definition after_turn :: "'p raft_codec \<Rightarrow> string \<Rightarrow> string \<Rightarrow> raft_driver \<Rightarrow> 'p raft_system \<Rightarrow>
    (raft_node \<times> envelope list) option \<Rightarrow> 'p raft_system" where
  "after_turn C c i d S r =
     (case r of
        None \<Rightarrow> S\<lparr>sy_driver := (sy_driver S)(i \<mapsto> d\<lparr>dv_poisoned := True\<rparr>)\<rparr>
      | Some (n, out) \<Rightarrow> (S\<lparr>sy_bus := driver_send C c out (sy_bus S), sy_driver := (sy_driver S)(i \<mapsto> d\<lparr>dv_node := n\<rparr>)\<rparr>))"

lemma after_idle: "sy_driver S i = Some d \<Longrightarrow> after_turn C c i d S (Some (dv_node d, [])) = S"
  by (simp add: after_turn_def fun_upd_idem)

lemma tracks_received:
  assumes "tracks C c ms seed S s" "sy_driver S i = Some d" "codec_ok C" "''bcast'' \<notin> set ms" "\<not> dv_poisoned d"
    and "bus_recv t r (sy_bus S) = (b, x)" "(t, r) = (dv_topic d, dv_directed d) \<or> (t, r) = (topic_bcast c, dv_bcast d)"
  shows "\<exists>s'. (s' = s \<or> cluster_step s s') \<and>
    tracks C c ms seed (after_turn C c i d (S\<lparr>sy_bus := b\<rparr>) (driver_receive C x (dv_node d))) s'"
proof -
  note t = tracksD(3)[OF assms(1,2)] and i = tracksD(2)[OF assms(1,2)]
  have node: "dv_node d = cl_node s i" using t assms(5) by (simp add: driver_tracks_def)
  have "receiver_ok t r (sy_bus S)" using t assms(7) by (auto simp: driver_tracks_def receivers_ok_def)
  note quiet = tracks_recv[OF assms(1,6) this]
  show ?thesis
  proof (cases "\<exists>p m. x = Got p \<and> rc_decode C p = Some m")
    case False
    then have "driver_receive C x (dv_node d) = Some (dv_node d, [])"
      by (auto simp: driver_receive_def split: received.split option.split)
    with quiet show ?thesis using after_idle[of "S\<lparr>sy_bus := b\<rparr>" i d C c] assms(2) by auto
  next
    case True
    then obtain p m where m: "x = Got p" "rc_decode C p = Some m" by blast
    then have rec: "driver_receive C x (dv_node d) = decode_step (cl_node s i) m" by (simp add: driver_receive_def node)
    show ?thesis
    proof (cases "decode_step (cl_node s i) m")
      case None
      with tracks_poison[OF quiet, of i d] assms(2) rec show ?thesis by (auto simp: after_turn_def)
    next
      case (Some r)
      then obtain n out where r: "decode_step (cl_node s i) m = Some (n, out)" by (cases r) simp
      note g = tracks_got[OF assms(1,2) assms(6)[unfolded m(1)] assms(7) m(2)]
      let ?s = "s\<lparr>cl_net := cl_net s - {#(i, m)#}\<rparr>"
      have "plain_out out" "same_node (cl_node ?s i) n"
        using plain_step[OF r tracksD(4)[OF assms(1) i] tracksD(5)[OF assms(1) g(1)]] effect_decode_step[OF r] by simp_all
      from tracks_send[OF g(2) _ assms(3,4) this] assms(2)
      have "tracks C c ms seed (after_turn C c i d (S\<lparr>sy_bus := b\<rparr>) (Some (n, out))) (update ?s i n out)"
        by (simp add: after_turn_def)
      moreover have "cluster_step s (update ?s i n out)"
        using cluster_step.deliver[OF _ g(1) r] i tracksD(1)[OF assms(1)] by simp
      ultimately show ?thesis using rec r by auto
    qed
  qed
qed

lemma tracks_pump:
  assumes "tracks C c ms seed S s" "sy_driver S i = Some d" "codec_ok C" "''bcast'' \<notin> set ms"
  shows "\<exists>s'. (s' = s \<or> cluster_step s s') \<and> tracks C c ms seed (system_step C c ms seed S (Pump i ev)) s'"
proof (cases "dv_poisoned d")
  case True
  then show ?thesis using assms(1,2) by (auto simp: with_driver_def pump_turn_def fun_upd_idem)
next
  case False
  have step: "system_step C c ms seed S (Pump i ev) =
      (case ev of
         Ticked \<Rightarrow> after_turn C c i d S (tick (dv_node d))
       | Directed \<Rightarrow> (case bus_recv (dv_topic d) (dv_directed d) (sy_bus S) of (b, x) \<Rightarrow>
           after_turn C c i d (S\<lparr>sy_bus := b\<rparr>) (driver_receive C x (dv_node d)))
       | Broadcasted \<Rightarrow> (case bus_recv (topic_bcast c) (dv_bcast d) (sy_bus S) of (b, x) \<Rightarrow>
           after_turn C c i d (S\<lparr>sy_bus := b\<rparr>) (driver_receive C x (dv_node d))))"
    using assms(2) False
    by (auto simp: with_driver_def pump_turn_def after_turn_def Let_def split: pump_event.split option.split prod.split)
  note i = tracksD(2)[OF assms(1,2)]
  have node: "dv_node d = cl_node s i" using tracksD(3)[OF assms(1,2)] False by (simp add: driver_tracks_def)
  show ?thesis
  proof (cases ev)
    case Ticked
    show ?thesis
    proof (cases "tick (cl_node s i)")
      case None
      with tracks_poison[OF assms(1,2)] Ticked step node show ?thesis by (auto simp: after_turn_def)
    next
      case (Some r)
      then obtain n out where r: "tick (cl_node s i) = Some (n, out)" by (cases r) simp
      have "plain_out out" "same_node (cl_node s i) n"
        using plain_tick[OF r tracksD(4)[OF assms(1) i]] effect_tick[OF r] by simp_all
      from tracks_send[OF assms this] cluster_step.tick[OF _ r] i tracksD(1)[OF assms(1)] Ticked step node r
      show ?thesis by (auto simp: after_turn_def)
    qed
  next
    case Directed
    obtain b x where "bus_recv (dv_topic d) (dv_directed d) (sy_bus S) = (b, x)" by fastforce
    with tracks_received[OF assms False this] Directed step show ?thesis by simp
  next
    case Broadcasted
    obtain b x where "bus_recv (topic_bcast c) (dv_bcast d) (sy_bus S) = (b, x)" by fastforce
    with tracks_received[OF assms False this] Broadcasted step show ?thesis by simp
  qed
qed

lemma tracks_propose:
  assumes "tracks C c ms seed S s" "sy_driver S i = Some d" "codec_ok C" "''bcast'' \<notin> set ms"
  shows "\<exists>s'. (s' = s \<or> cluster_step s s') \<and> tracks C c ms seed (system_step C c ms seed S (Proposed i data)) s'"
proof (cases "dv_poisoned d")
  case True
  then show ?thesis using assms(1,2) by (auto simp: with_driver_def driver_propose_def fun_upd_idem)
next
  case False
  note i = tracksD(2)[OF assms(1,2)]
  have node: "dv_node d = cl_node s i" using tracksD(3)[OF assms(1,2)] False by (simp add: driver_tracks_def)
  consider (panic) "propose data (cl_node s i) = None" | (refused) e where "propose data (cl_node s i) = Some (Inl e)"
    | (sent) n out where "propose data (cl_node s i) = Some (Inr (n, out))"
    by (metis option.exhaust surj_pair sum.exhaust)
  then show ?thesis
  proof cases
    case panic
    with tracks_poison[OF assms(1,2)] assms(2) False node show ?thesis by (auto simp: with_driver_def driver_propose_def)
  next
    case refused
    with assms(1,2) False node show ?thesis by (auto simp: with_driver_def driver_propose_def fun_upd_idem)
  next
    case sent
    have "plain_out out" "same_node (cl_node s i) n"
      using plain_propose[OF sent tracksD(4)[OF assms(1) i]] effect_propose[OF sent] by simp_all
    from tracks_send[OF assms this] cluster_step.propose[OF _ sent] i tracksD(1)[OF assms(1)] assms(2) False node sent
    show ?thesis by (auto simp: with_driver_def driver_propose_def)
  qed
qed

lemma tracks_spawn:
  assumes "tracks C c ms seed S s" "i \<in> set ms" "sy_driver S i = None"
  shows "tracks C c ms seed (system_step C c ms seed S (Spawned i)) s"
proof -
  have id: "rn_id (fresh_node ms seed i) = i" by (simp add: fresh_node_def raft_new_def)
  obtain b1 d where s1: "bus_subscribe (topic_for c i) (sy_bus S) = (b1, d)" by fastforce
  obtain b2 x where s2: "bus_subscribe (topic_bcast c) b1 = (b2, x)" by fastforce
  let ?d = "\<lparr>dv_node = fresh_node ms seed i, dv_topic = topic_for c i, dv_directed = d, dv_bcast = x, dv_poisoned = False\<rparr>"
  have step: "system_step C c ms seed S (Spawned i) = S\<lparr>sy_bus := b2, sy_driver := (sy_driver S)(i \<mapsto> ?d)\<rparr>"
    using assms(2,3) s1 s2 by (simp add: driver_spawn_def id)
  have "driver_tracks C c b2 (cl_node s j) (cl_net s) j d'" if "sy_driver S j = Some d'" for j d'
    using tracksD(3)[OF assms(1) that] waiting_subscribe(3)[OF s1] waiting_subscribe(3)[OF s2]
    by (auto simp: driver_tracks_def receivers_ok_def undelivered_def)
  moreover have "driver_tracks C c b2 (cl_node s i) (cl_net s) i ?d"
    using assms waiting_subscribe[OF s1] waiting_subscribe[OF s2]
    by (simp add: tracks_def driver_tracks_def receivers_ok_def undelivered_def List.map_filter_simps)
  ultimately show ?thesis unfolding step using assms by (auto simp: tracks_def)
qed

lemma tracks_init:
  assumes "''bcast'' \<notin> set ms"
  shows "tracks C c ms seed system_new (cluster_init ms seed)"
  using assms by (auto simp: tracks_def system_new_def cluster_init_def fresh_node_def plain_node_def raft_new_def)

text \<open>Every run of the drivers is followed by a reachable state of the cluster.\<close>

lemma simulation:
  assumes "codec_ok C" "''bcast'' \<notin> set ms"
  shows "\<exists>s. reachable (cluster_init ms seed) s \<and> tracks C c ms seed (system_run C c ms seed ops) s"
proof (induction ops rule: rev_induct)
  case Nil
  show ?case using tracks_init[OF assms(2), of C c seed] reachable.start by (auto simp: system_run_def)
next
  case (snoc op ops)
  then obtain s where s: "reachable (cluster_init ms seed) s" "tracks C c ms seed (system_run C c ms seed ops) s" by blast
  let ?S = "system_run C c ms seed ops"
  have "\<exists>s'. (s' = s \<or> cluster_step s s') \<and> tracks C c ms seed (system_step C c ms seed ?S op) s'"
  proof (cases op)
    case (Spawned i)
    then show ?thesis using s(2) tracks_spawn[OF s(2), of i] by (cases "i \<in> set ms \<and> sy_driver ?S i = None") auto
  next
    case (Pump i ev)
    then show ?thesis using s(2) tracks_pump[OF s(2) _ assms] by (cases "sy_driver ?S i") (auto simp: with_driver_def)
  next
    case (Proposed i data)
    then show ?thesis using s(2) tracks_propose[OF s(2) _ assms] by (cases "sy_driver ?S i") (auto simp: with_driver_def)
  qed
  then show ?case using s(1) reachable.step by (simp add: system_run_def) blast
qed

text \<open>
  C14: Whatever the drivers of a cluster on one bus do and in whatever order, receivers that lag and
  nodes that panic included, two drivers that run and lead in the same term are the same, if the
  members are distinct, none is called \<open>bcast\<close>, and decoding undoes encoding.
\<close>

theorem drivers_elect_one_leader:
  assumes "codec_ok C" and "distinct ms" and "''bcast'' \<notin> set ms"
    and "sy_driver (system_run C c ms seed ops) i = Some d" and "sy_driver (system_run C c ms seed ops) j = Some d'"
    and "\<not> dv_poisoned d" and "\<not> dv_poisoned d'"
    and "is_leader (dv_node d)" and "is_leader (dv_node d')" and "rn_term (dv_node d) = rn_term (dv_node d')"
  shows "i = j"
proof -
  obtain s where s: "reachable (cluster_init ms seed) s" "tracks C c ms seed (system_run C c ms seed ops) s"
    using simulation[OF assms(1,3)] by blast
  note d = tracksD(2,3)[OF s(2) assms(4)] and d' = tracksD(2,3)[OF s(2) assms(5)]
  have "dv_node d = cl_node s i" "dv_node d' = cl_node s j"
    using driver_tracksD(3)[OF d(2) assms(6)] driver_tracksD(3)[OF d'(2) assms(7)] .
  with one_leader[OF assms(2) s(1) d(1) d'(1)] assms(8-10) show ?thesis by simp
qed

section \<open>An election on a bus\<close>

lemma idle_pumps:
  assumes "sy_driver S i = Some d" "\<not> dv_poisoned d" "rn_state (dv_node d) = Follower"
    and "rn_quiet_ticks (dv_node d) + k < rn_election_after (dv_node d)"
  shows "foldl (system_step C c ms seed) S (replicate k (Pump i Ticked)) =
    S\<lparr>sy_driver := (sy_driver S)(i \<mapsto> d\<lparr>dv_node := (dv_node d)\<lparr>rn_quiet_ticks := rn_quiet_ticks (dv_node d) + k\<rparr>\<rparr>)\<rparr>"
  using assms(4)
proof (induction k)
  case 0
  then show ?case using assms(1) by (simp add: fun_upd_idem)
next
  case (Suc k)
  have "replicate (Suc k) (Pump i Ticked) = replicate k (Pump i Ticked) @ [Pump i Ticked]" by (simp add: replicate_append_same)
  then show ?case using Suc assms(2,3)
    by (simp del: replicate_Suc add: with_driver_def pump_turn_def tick_def Let_def)
      (simp add: fun_upd_def cong: if_cong)
qed

definition plain_codec :: "raft_msg raft_codec" where
  "plain_codec = \<lparr>rc_encode = Some, rc_decode = Some\<rparr>"

lemma plain_codec_ok: "codec_ok plain_codec"
  by (simp add: codec_ok_def plain_codec_def)

lemmas bus_eval = bus_subscribe_def bus_sender_def bus_new_def channel_subscribe_def channel_new_def bus_publish_def
  bus_recv_def channel_send_def channel_recv_def bus_capacity_def topic_for_def topic_bcast_def

lemmas driver_eval = with_driver_def pump_turn_def driver_receive_def plain_codec_def envelope_topic_def Let_def

definition three :: "string list" where
  "three = [''a'', ''b'', ''c'']"

definition three_spawned :: "raft_msg raft_system" where
  "three_spawned = system_run plain_codec ''x'' three (\<lambda>_. 0) [Spawned ''a'', Spawned ''b'', Spawned ''c'']"

definition spawned_driver :: "nat \<Rightarrow> string \<Rightarrow> raft_driver" where
  "spawned_driver k i = \<lparr>dv_node = fresh_node three (\<lambda>_. 0) i, dv_topic = topic_for ''x'' i, dv_directed = 0, dv_bcast = k,
     dv_poisoned = False\<rparr>"

lemma fresh_simps [simp]:
  "rn_id (fresh_node ms seed i) = i" "rn_state (fresh_node ms seed i) = Follower" "rn_quiet_ticks (fresh_node ms seed i) = 0"
  "rn_peers (fresh_node ms seed i) = filter (\<lambda>j. j \<noteq> i) ms" "rn_log (fresh_node ms seed i) = []"
  "rn_term (fresh_node ms seed i) = 0" "rn_voted_for (fresh_node ms seed i) = None"
  "10 \<le> rn_election_after (fresh_node ms seed i)"
  by (simp_all add: fresh_node_def raft_new_def)

lemma three_spawned_eq:
  "three_spawned =
    \<lparr>sy_bus = [''raft.x.bcast'' \<mapsto> \<lparr>ch_log = [], ch_next = [0, 0, 0]\<rparr>, ''raft.x.a'' \<mapsto> \<lparr>ch_log = [], ch_next = [0]\<rparr>,
       ''raft.x.b'' \<mapsto> \<lparr>ch_log = [], ch_next = [0]\<rparr>, ''raft.x.c'' \<mapsto> \<lparr>ch_log = [], ch_next = [0]\<rparr>],
     sy_driver = [''a'' \<mapsto> spawned_driver 0 ''a'', ''b'' \<mapsto> spawned_driver 1 ''b'', ''c'' \<mapsto> spawned_driver 2 ''c'']\<rparr>"
  by (simp add: three_spawned_def system_run_def three_def system_new_def driver_spawn_def spawned_driver_def bus_eval Let_def
      fun_eq_iff)


definition election_ops :: "system_op list" where
  "election_ops = [Spawned ''a'', Spawned ''b'', Spawned ''c''] @
     replicate (rn_election_after (fresh_node three (\<lambda>_. 0) ''a'') - 1) (Pump ''a'' Ticked) @
     [Pump ''a'' Ticked, Pump ''b'' Broadcasted, Pump ''a'' Directed]"

lemma elected:
  obtains d where "sy_driver (system_run plain_codec ''x'' three (\<lambda>_. 0) election_ops) ''a'' = Some d" "\<not> dv_poisoned d"
    "is_leader (dv_node d)" "rn_term (dv_node d) = 1"
proof -
  let ?step = "system_step plain_codec ''x'' three (\<lambda>_. 0)"
  let ?k = "rn_election_after (fresh_node three (\<lambda>_. 0) ''a'') - 1"
  let ?a = "fresh_node three (\<lambda>_. 0) ''a''"
  define d1 where "d1 = (spawned_driver 0 ''a'')\<lparr>dv_node := ?a\<lparr>rn_quiet_ticks := ?k\<rparr>\<rparr>"
  define S1 where "S1 = three_spawned\<lparr>sy_driver := (sy_driver three_spawned)(''a'' \<mapsto> d1)\<rparr>"
  have k: "?k < rn_election_after ?a" "10 \<le> Suc ?k" using fresh_simps(8)[of three "\<lambda>_. 0" "''a''"] by linarith+
  have "foldl ?step three_spawned (replicate ?k (Pump ''a'' Ticked)) = S1"
    using idle_pumps[of three_spawned "''a''" "spawned_driver 0 ''a''" ?k plain_codec "''x''" three "\<lambda>_. 0"] k(1)
    by (simp add: S1_def d1_def three_spawned_eq spawned_driver_def)
  then have run: "system_run plain_codec ''x'' three (\<lambda>_. 0) election_ops =
      ?step (?step (?step S1 (Pump ''a'' Ticked)) (Pump ''b'' Broadcasted)) (Pump ''a'' Directed)"
    by (simp add: system_run_def election_ops_def three_spawned_def)
  let ?rv = "RequestVote 1 ''a'' 0 0"
  obtain n2 where t2: "tick (dv_node d1) = Some (n2, [\<lparr>env_to = None, env_msg = ?rv\<rparr>])"
    and n2: "rn_id n2 = ''a''" "rn_state n2 = Candidate 1" "rn_term n2 = 1" "rn_peers n2 = [''b'', ''c'']" "rn_log n2 = []"
    using k by (simp add: d1_def tick_def start_election_def Let_def last_index_def last_term_def three_def)
  obtain n3 where t3: "decode_step (fresh_node three (\<lambda>_. 0) ''b'') ?rv =
      Some (n3, [\<lparr>env_to = Some ''a'', env_msg = VoteReply 1 ''b'' True\<rparr>])"
    by (simp add: decode_step_def on_request_vote_def Let_def become_follower_def up_to_date_def vote_available_def
        last_term_def last_index_def)
  obtain n4 out where t4: "decode_step n2 (VoteReply 1 ''b'' True) = Some (n4, out)" "is_leader n4" "rn_term n4 = 1"
    using n2 by (simp add: decode_step_def on_vote_reply_def become_leader_def broadcast_appends_def append_for_def
        index_all_def majority_def last_index_def is_leader_def Let_def)
  have d1: "dv_topic d1 = ''raft.x.a''" "dv_directed d1 = 0" "dv_bcast d1 = 0" "\<not> dv_poisoned d1"
    by (simp_all add: d1_def spawned_driver_def topic_for_def)
  have s2: "?step S1 (Pump ''a'' Ticked) = S1\<lparr>
      sy_bus := (sy_bus S1)(''raft.x.bcast'' \<mapsto> \<lparr>ch_log = [?rv], ch_next = [0, 0, 0]\<rparr>),
      sy_driver := (sy_driver S1)(''a'' \<mapsto> d1\<lparr>dv_node := n2\<rparr>)\<rparr>"
    using t2 d1 by (simp add: S1_def three_spawned_eq driver_eval bus_eval)
  have s3: "?step (?step S1 (Pump ''a'' Ticked)) (Pump ''b'' Broadcasted) = S1\<lparr>
      sy_bus := (sy_bus S1)(''raft.x.bcast'' \<mapsto> \<lparr>ch_log = [?rv], ch_next = [0, 1, 0]\<rparr>,
        ''raft.x.a'' \<mapsto> \<lparr>ch_log = [VoteReply 1 ''b'' True], ch_next = [0]\<rparr>),
      sy_driver := (sy_driver S1)(''a'' \<mapsto> d1\<lparr>dv_node := n2\<rparr>, ''b'' \<mapsto> (spawned_driver 1 ''b'')\<lparr>dv_node := n3\<rparr>)\<rparr>"
    unfolding s2 using t3 by (simp add: S1_def three_spawned_eq spawned_driver_def driver_eval bus_eval)
  have "sy_driver (system_run plain_codec ''x'' three (\<lambda>_. 0) election_ops) ''a'' = Some (d1\<lparr>dv_node := n4\<rparr>)"
    unfolding run s3 using t4(1) d1 by (simp add: S1_def three_spawned_eq driver_eval bus_eval)
  then show thesis using d1(4) t4 by (intro that[of "d1\<lparr>dv_node := n4\<rparr>"]) simp_all
qed

theorem drivers_elect_one_leader_witness:
  "\<exists>d. sy_driver (system_run plain_codec ''x'' three (\<lambda>_. 0) election_ops) ''a'' = Some d \<and> is_leader (dv_node d) \<and>
     (\<forall>j d'. sy_driver (system_run plain_codec ''x'' three (\<lambda>_. 0) election_ops) j = Some d' \<and> \<not> dv_poisoned d' \<and>
        is_leader (dv_node d') \<and> rn_term (dv_node d') = 1 \<longrightarrow> j = ''a'')"
proof -
  obtain d where d: "sy_driver (system_run plain_codec ''x'' three (\<lambda>_. 0) election_ops) ''a'' = Some d" "\<not> dv_poisoned d"
    "is_leader (dv_node d)" "rn_term (dv_node d) = 1" by (rule elected)
  have t: "distinct three" "''bcast'' \<notin> set three" by (simp_all add: three_def)
  show ?thesis
  proof (intro exI[of _ d] conjI allI impI)
    fix j d'
    assume "sy_driver (system_run plain_codec ''x'' three (\<lambda>_. 0) election_ops) j = Some d' \<and> \<not> dv_poisoned d' \<and>
      is_leader (dv_node d') \<and> rn_term (dv_node d') = 1"
    then have j: "sy_driver (system_run plain_codec ''x'' three (\<lambda>_. 0) election_ops) j = Some d'" "\<not> dv_poisoned d'"
      "is_leader (dv_node d')" "rn_term (dv_node d') = 1" by simp_all
    show "j = ''a''"
      by (rule drivers_elect_one_leader[OF plain_codec_ok t j(1) d(1) j(2) d(2) j(3) d(3)]) (simp add: j(4) d(4))
  qed (rule d(1) d(3))+
qed

end
