(* ===== verification/Rule_Files.thy ===== *)
theory Rule_Files
  imports Sigma_Correlation Api_Control
begin

text \<open>
  Loading rules from a directory: \<open>yaml_files\<close> and \<open>is_correlation_doc\<close> of
  \<open>crates/sigil-sigma/src/correlation.rs\<close> and the two \<open>load_dir\<close>, of \<open>SigmaEngine\<close> (\<open>engine.rs\<close>) and
  \<open>CorrelationEngine\<close>. A directory is a finite tree as \<open>read_dir\<close> lists it, symbolic links resolved.
  The YAML parser is a parameter.
\<close>

section \<open>The directory walk\<close>

text \<open>A file's text or why it cannot be read, a folder's entries or why they cannot be listed.\<close>

datatype fs_node =
    Regular string
  | Garbled string
  | Folder "(string \<times> fs_node) list"
  | Locked string

definition child_path :: "string \<Rightarrow> string \<Rightarrow> string" where
  "child_path p name = p @ ''/'' @ name"

text \<open>The entries of one folder: folders go on the stack, the text of a rule file to the output.\<close>

fun walk_entries ::
  "string \<Rightarrow> (string \<times> fs_node) list \<Rightarrow> (string \<times> fs_node) list \<Rightarrow> (string \<times> string) list \<Rightarrow>
     ((string \<times> fs_node) list \<times> (string \<times> string) list) result" where
  "walk_entries p [] stack out = Inr (stack, out)"
| "walk_entries p ((name, Folder es') # es) stack out =
     walk_entries p es ((child_path p name, Folder es') # stack) out"
| "walk_entries p ((name, Locked e) # es) stack out =
     walk_entries p es ((child_path p name, Locked e) # stack) out"
| "walk_entries p ((name, Regular t) # es) stack out =
     walk_entries p es stack (if has_yaml_ext (child_path p name) then out @ [(child_path p name, t)] else out)"
| "walk_entries p ((name, Garbled e) # es) stack out =
     (if has_yaml_ext (child_path p name) then Inl (Io e) else walk_entries p es stack out)"

fun read_dir :: "fs_node \<Rightarrow> string + (string \<times> fs_node) list" where
  "read_dir (Folder es) = Inr es"
| "read_dir (Locked e) = Inl e"
| "read_dir _ = Inl ''Not a directory (os error 20)''"

fun weight :: "fs_node \<Rightarrow> nat" and weights :: "(string \<times> fs_node) list \<Rightarrow> nat" where
  "weight (Folder es) = Suc (weights es)"
| "weight (Locked e) = 1"
| "weight (Regular t) = 1"
| "weight (Garbled e) = 1"
| "weights [] = 0"
| "weights ((name, e) # es) = weight e + weights es"

definition stack_weight :: "(string \<times> fs_node) list \<Rightarrow> nat" where
  "stack_weight st = sum_list (map (weight \<circ> snd) st)"

lemma stack_weight_simps [simp]:
  "stack_weight [] = 0" "stack_weight (x # st) = weight (snd x) + stack_weight st"
  by (simp_all add: stack_weight_def)

lemma walk_entries_weight:
  "walk_entries p es stack out = Inr (stack', out') \<Longrightarrow> stack_weight stack' \<le> stack_weight stack + weights es"
  by (induction p es stack out rule: walk_entries.induct) (fastforce split: if_splits)+

lemma read_dir_weight: "read_dir e = Inr es \<Longrightarrow> weights es < weight e"
  by (cases e) auto

function walk_dirs :: "(string \<times> fs_node) list \<Rightarrow> (string \<times> string) list \<Rightarrow> (string \<times> string) list result" where
  "walk_dirs [] out = Inr out"
| "walk_dirs ((p, e) # stack) out =
     (case read_dir e of
        Inl x \<Rightarrow> Inl (Io (''reading rules dir '' @ p @ '': '' @ x))
      | Inr es \<Rightarrow>
          (case walk_entries p es stack out of
             Inl x \<Rightarrow> Inl x
           | Inr (stack', out') \<Rightarrow> walk_dirs stack' out'))"
  by pat_completeness auto
termination
proof (relation "measure (stack_weight \<circ> fst)")
  fix p e stack out es r stack' and out' :: "(string \<times> string) list"
  assume "read_dir e = Inr es" "walk_entries p es stack out = Inr r" "(stack', out') = r"
  then show "((stack', out'), (p, e) # stack, out) \<in> measure (stack_weight \<circ> fst)"
    using walk_entries_weight[of p es stack out stack' out'] read_dir_weight[of e es] by auto
qed simp

definition yaml_files :: "string \<Rightarrow> fs_node \<Rightarrow> (string \<times> string) list result" where
  "yaml_files dir e = walk_dirs [(dir, e)] []"

section \<open>The two loaders\<close>

text \<open>Reading a document as a mapping is the parameter \<open>mapping_of\<close>.\<close>

definition is_correlation_doc :: "(string \<Rightarrow> (yaml \<times> yaml) list option) \<Rightarrow> string \<Rightarrow> bool" where
  "is_correlation_doc mapping_of text =
     (case mapping_of text of Some m \<Rightarrow> map_of m (YString ''correlation'') \<noteq> None | None \<Rightarrow> False)"

fun load_correlations ::
  "(string \<Rightarrow> correlation_rule result) \<Rightarrow> (string \<Rightarrow> bool) \<Rightarrow> (string \<times> string) list \<Rightarrow>
     compiled_correlation list \<times> load_report" where
  "load_correlations doc is_corr [] = ([], \<lparr>lr_loaded = 0, lr_failed = []\<rparr>)"
| "load_correlations doc is_corr ((path, text) # files) =
     (let (rules, rep) = load_correlations doc is_corr files in
      if \<not> is_corr text then (rules, rep)
      else case and_then (doc text) correlation_from_rule of
             Inr r \<Rightarrow> (r # rules, rep\<lparr>lr_loaded := Suc (lr_loaded rep)\<rparr>)
           | Inl x \<Rightarrow> (rules, rep\<lparr>lr_failed := (path, x) # lr_failed rep\<rparr>))"

record loader =
  ld_parse :: "string \<Rightarrow> (yaml \<times> yaml) list option"
  ld_rule :: "string \<Rightarrow> sigma_rule result"
  ld_correlation :: "string \<Rightarrow> correlation_rule result"

definition sigma_load_dir :: "sigma_env \<Rightarrow> loader \<Rightarrow> string \<Rightarrow> fs_node \<Rightarrow> (sigma_engine \<times> load_report) result" where
  "sigma_load_dir E L dir e =
     and_then (yaml_files dir e) (\<lambda>files.
       let (rules, rep) = load_rules E (ld_rule L) (is_correlation_doc (ld_parse L)) files in Inr (\<lparr>en_rules = rules\<rparr>, rep))"

definition correlation_load_dir :: "loader \<Rightarrow> string \<Rightarrow> fs_node \<Rightarrow> (correlation_engine \<times> load_report) result" where
  "correlation_load_dir L dir e =
     and_then (yaml_files dir e) (\<lambda>files.
       let (rules, rep) = load_correlations (ld_correlation L) (is_correlation_doc (ld_parse L)) files
       in Inr (correlation_engine_new rules, rep))"

section \<open>What the walk finds\<close>

fun rule_files :: "string \<Rightarrow> fs_node \<Rightarrow> (string \<times> string) list"
  and entry_files :: "string \<Rightarrow> (string \<times> fs_node) list \<Rightarrow> (string \<times> string) list" where
  "rule_files p (Folder es) = entry_files p es"
| "rule_files p (Regular t) = (if has_yaml_ext p then [(p, t)] else [])"
| "rule_files p (Garbled e) = []"
| "rule_files p (Locked e) = []"
| "entry_files p [] = []"
| "entry_files p ((name, e) # es) = rule_files (child_path p name) e @ entry_files p es"

text \<open>Every folder can be listed and every rule file read.\<close>

fun intact :: "string \<Rightarrow> fs_node \<Rightarrow> bool" and entries_intact :: "string \<Rightarrow> (string \<times> fs_node) list \<Rightarrow> bool" where
  "intact p (Folder es) \<longleftrightarrow> entries_intact p es"
| "intact p (Regular t) \<longleftrightarrow> True"
| "intact p (Garbled e) \<longleftrightarrow> \<not> has_yaml_ext p"
| "intact p (Locked e) \<longleftrightarrow> False"
| "entries_intact p [] \<longleftrightarrow> True"
| "entries_intact p ((name, e) # es) \<longleftrightarrow> intact (child_path p name) e \<and> entries_intact p es"

fun is_folder :: "fs_node \<Rightarrow> bool" where
  "is_folder (Folder es) \<longleftrightarrow> True"
| "is_folder (Locked x) \<longleftrightarrow> True"
| "is_folder _ \<longleftrightarrow> False"

definition stack_files :: "(string \<times> fs_node) list \<Rightarrow> (string \<times> string) multiset" where
  "stack_files st = mset (concat (map (\<lambda>(p, e). rule_files p e) st))"

abbreviation stack_intact :: "(string \<times> fs_node) list \<Rightarrow> bool" where
  "stack_intact st \<equiv> list_all (\<lambda>(p, e). intact p e) st"

lemma stack_files_simps [simp]:
  "stack_files [] = {#}" "stack_files ((p, e) # st) = mset (rule_files p e) + stack_files st"
  by (simp_all add: stack_files_def)

lemma walk_entries_spec:
  "case walk_entries p es stack out of
     Inr (stack', out') \<Rightarrow> mset out' + stack_files stack' = mset out + stack_files stack + mset (entry_files p es) \<and>
       (stack_intact stack' \<longleftrightarrow> stack_intact stack \<and> entries_intact p es) \<and>
       (list_all (is_folder \<circ> snd) stack \<longrightarrow> list_all (is_folder \<circ> snd) stack')
   | Inl x \<Rightarrow> \<not> entries_intact p es"
proof (induction p es stack out rule: walk_entries.induct)
  case (4 p name t es stack out)
  then show ?case by (cases "has_yaml_ext (child_path p name)") (simp_all split: sum.splits prod.splits)
qed (auto split: sum.splits)

lemma walk_spec:
  "list_all (is_folder \<circ> snd) stack \<Longrightarrow>
   (case walk_dirs stack out of
      Inr files \<Rightarrow> stack_intact stack \<and> mset files = mset out + stack_files stack
    | Inl x \<Rightarrow> \<not> stack_intact stack)"
proof (induction stack out rule: walk_dirs.induct)
  case (2 p e stack out)
  show ?case
  proof (cases e)
    case (Folder es)
    show ?thesis
    proof (cases "walk_entries p es stack out")
      case (Inl x)
      then show ?thesis using Folder walk_entries_spec[where p = p and es = es and stack = stack and out = out] by simp
    next
      case (Inr r)
      obtain stack' out' where r: "r = (stack', out')" by (cases r)
      note w = walk_entries_spec[where p = p and es = es and stack = stack and out = out, unfolded Inr r]
      have "list_all (is_folder \<circ> snd) stack'" using w "2.prems" by (simp add: comp_def)
      moreover have "read_dir e = Inr es" using Folder by simp
      ultimately have "case walk_dirs stack' out' of Inr files \<Rightarrow> stack_intact stack' \<and> mset files = mset out' + stack_files stack'
           | Inl x \<Rightarrow> \<not> stack_intact stack'" using "2.IH" Inr r by blast
      moreover have "walk_dirs ((p, e) # stack) out = walk_dirs stack' out'" using Folder Inr r by simp
      ultimately show ?thesis using w Folder by (cases "walk_dirs stack' out'") (simp_all add: ac_simps)
    qed
  qed (use "2.prems" in simp_all)
qed simp

text \<open>The walk of a folder succeeds when all of it can be read, and then finds every rule file once.\<close>

lemma yaml_files_spec:
  assumes "is_folder e"
  shows "case yaml_files dir e of
      Inr files \<Rightarrow> intact dir e \<and> mset files = mset (rule_files dir e)
    | Inl x \<Rightarrow> \<not> intact dir e"
  using walk_spec[of "[(dir, e)]" "[]"] assms by (simp add: yaml_files_def del: walk_dirs.simps split: sum.splits)

section \<open>What the loaders make of it\<close>

definition compiled :: "('a \<Rightarrow> 'e + 'r) \<Rightarrow> 'a list \<Rightarrow> 'r list" where
  "compiled compile docs = List.map_filter (\<lambda>t. case compile t of Inr r \<Rightarrow> Some r | Inl _ \<Rightarrow> None) docs"

lemma load_rules_eq:
  "fst (load_rules E doc corr files) =
     compiled (\<lambda>t. and_then (doc t) (from_rule E)) (filter (\<lambda>t. \<not> corr t) (map snd files)) \<and>
   lr_loaded (snd (load_rules E doc corr files)) + length (lr_failed (snd (load_rules E doc corr files))) =
     length (filter (\<lambda>t. \<not> corr t) (map snd files))"
  by (induction E doc corr files rule: load_rules.induct)
    (auto simp: compiled_def List.map_filter_simps case_prod_beta Let_def split: sum.split)

lemma load_correlations_eq:
  "fst (load_correlations doc corr files) =
     compiled (\<lambda>t. and_then (doc t) correlation_from_rule) (filter corr (map snd files)) \<and>
   lr_loaded (snd (load_correlations doc corr files)) + length (lr_failed (snd (load_correlations doc corr files))) =
     length (filter corr (map snd files))"
  by (induction doc corr files rule: load_correlations.induct)
    (auto simp: compiled_def List.map_filter_simps case_prod_beta Let_def split: sum.split)

lemma correlation_engine_rules [simp]: "ce_rules (correlation_engine_new rules) = rules"
  by (simp add: correlation_engine_new_def)

text \<open>
  C33: The two loaders of a rules directory fail together, exactly when some folder below it cannot be
  listed or some rule file cannot be read. Otherwise every rule file below it goes to one of them: the
  correlation documents to the correlation engine, the others to the Sigma engine, which hold what
  compiles of them; loaded and failed documents of both reports add up to the files.
\<close>

theorem rule_dir_partition:
  assumes "is_folder e"
  shows "case (sigma_load_dir E L dir e, correlation_load_dir L dir e) of
      (Inr (en, rep), Inr (ce, rep')) \<Rightarrow> intact dir e \<and>
        (\<exists>files. mset files = mset (rule_files dir e) \<and>
           en_rules en = compiled (\<lambda>t. and_then (ld_rule L t) (from_rule E))
             (filter (\<lambda>t. \<not> is_correlation_doc (ld_parse L) t) (map snd files)) \<and>
           ce_rules ce = compiled (\<lambda>t. and_then (ld_correlation L t) correlation_from_rule)
             (filter (is_correlation_doc (ld_parse L)) (map snd files)) \<and>
           lr_loaded rep + length (lr_failed rep) + (lr_loaded rep' + length (lr_failed rep')) = length files)
    | (Inl _, Inl _) \<Rightarrow> \<not> intact dir e
    | _ \<Rightarrow> False"
proof (cases "yaml_files dir e")
  case (Inl x)
  with yaml_files_spec[OF assms, where dir = dir] show ?thesis by (simp add: sigma_load_dir_def correlation_load_dir_def)
next
  case (Inr files)
  let ?corr = "is_correlation_doc (ld_parse L)"
  let ?r = "load_rules E (ld_rule L) ?corr files" and ?c = "load_correlations (ld_correlation L) ?corr files"
  have loaded: "sigma_load_dir E L dir e = Inr (\<lparr>en_rules = fst ?r\<rparr>, snd ?r)"
    "correlation_load_dir L dir e = Inr (correlation_engine_new (fst ?c), snd ?c)"
    by (simp_all add: Inr sigma_load_dir_def correlation_load_dir_def case_prod_beta)
  have files: "intact dir e" "mset files = mset (rule_files dir e)"
    using yaml_files_spec[OF assms, where dir = dir] Inr by simp_all
  have sum: "length (filter (\<lambda>t. \<not> ?corr t) (map snd files)) + length (filter ?corr (map snd files)) = length files"
    using sum_length_filter_compl[of ?corr "map snd files"] by simp
  note r = load_rules_eq[of E "ld_rule L" ?corr files] and c = load_correlations_eq[of "ld_correlation L" ?corr files]
  from sum r c have "lr_loaded (snd ?r) + length (lr_failed (snd ?r)) + (lr_loaded (snd ?c) + length (lr_failed (snd ?c))) =
      length files" by presburger
  with files r c show ?thesis unfolding loaded by (auto intro!: exI[of _ files])
qed

definition demo_loader :: loader where
  "demo_loader = \<lparr>ld_parse = (\<lambda>_. None), ld_rule = (\<lambda>_. Inl (Parse ''no rule'')), ld_correlation = (\<lambda>_. Inl (Parse ''no rule''))\<rparr>"

theorem rule_dir_partition_witness:
  "\<exists>en rep. sigma_load_dir Sigma_Engine.demo_env demo_loader ''rules'' (Folder [(''a.yml'', Regular ''x''), (''sub'', Folder [(''b'', Garbled ''e'')])]) =
     Inr (en, rep) \<and> en_rules en = []"
proof -
  let ?e = "Folder [(''a.yml'', Regular ''x''), (''sub'', Folder [(''b'', Garbled ''e'')])]"
  have "is_folder ?e" by simp
  note spec = rule_dir_partition[OF this, where E = Sigma_Engine.demo_env and L = demo_loader and dir = "''rules''"]
  have "intact ''rules'' ?e" by (auto simp: child_path_def has_yaml_ext_def)
  with spec obtain en rep where "sigma_load_dir Sigma_Engine.demo_env demo_loader ''rules'' ?e = Inr (en, rep)"
    by (auto split: sum.splits)
  moreover from this spec have "en_rules en = []"
    by (auto simp: demo_loader_def compiled_def List.map_filter_def split: sum.splits)
  ultimately show ?thesis by blast
qed

end
