(* ===== verification/Config_Schema.thy ===== *)
theory Config_Schema
  imports Config_File Cluster_Topology Index_Segments Api_Auth Node_Startup
begin

text \<open>
  The JSON Schema of the configuration file, \<open>crates/sigil-config/src/schema.rs\<close>, one definition per
  section of the document, and what the program does with the values it admits. An object lists its
  keys in the order the source writes them; \<open>serde_json\<close> sorts them when it prints the document.
\<close>

section \<open>The document\<close>

definition schema_cluster :: json where
  "schema_cluster =
     JObject
      [(''type'', JString ''object''),
       (''properties'', JObject
          [(''targets'', JObject
              [(''type'', JString ''array''),
               (''items'', JObject
                  [(''type'', JString ''string''),
                   (''enum'', JArray [JString ''all'', JString ''ingest'', JString ''index'', JString ''correlate'', JString ''query'', JString ''coordinator''])])]),
           (''nodes'', JObject
              [(''type'', JString ''array''),
               (''items'', JObject [(''type'', JString ''string'')])]),
           (''shards'', JObject [(''type'', JString ''integer''), (''minimum'', JNumber (PosInt 1))]),
           (''replication'', JObject [(''type'', JString ''integer''), (''minimum'', JNumber (PosInt 1))]),
           (''object_store'', JObject
              [(''type'', JString ''object''),
               (''properties'', JObject
                  [(''kind'', JObject
                      [(''type'', JString ''string''),
                       (''enum'', JArray [JString ''local'', JString ''s3''])]),
                   (''root'', JObject [(''type'', JString ''string'')]),
                   (''bucket'', JObject [(''type'', JString ''string'')]),
                   (''region'', JObject [(''type'', JString ''string'')]),
                   (''endpoint'', JObject [(''type'', JString ''string'')]),
                   (''prefix'', JObject [(''type'', JString ''string'')])])]),
           (''transport'', JObject
              [(''type'', JString ''object''),
               (''properties'', JObject
                  [(''kind'', JObject
                      [(''type'', JString ''string''),
                       (''enum'', JArray [JString ''inproc'', JString ''tcp'', JString ''redpanda'', JString ''nats''])])])])]),
       (''additionalProperties'', JBool True)]"

definition schema_inputs :: json where
  "schema_inputs =
     JObject
      [(''type'', JString ''array''),
       (''items'', JObject
          [(''type'', JString ''object''),
           (''required'', JArray [JString ''id'', JString ''type'']),
           (''properties'', JObject
              [(''id'', JObject [(''type'', JString ''string'')]),
               (''type'', JObject [(''type'', JString ''string'')]),
               (''codec'', JObject
                  [(''type'', JString ''object''),
                   (''required'', JArray [JString ''type'']),
                   (''properties'', JObject [(''type'', JObject [(''type'', JString ''string'')])]),
                   (''additionalProperties'', JBool True)])]),
           (''additionalProperties'', JBool True)])]"

definition schema_pipelines :: json where
  "schema_pipelines =
     JObject
      [(''type'', JString ''array''),
       (''items'', JObject
          [(''type'', JString ''object''),
           (''required'', JArray [JString ''id'']),
           (''properties'', JObject
              [(''id'', JObject [(''type'', JString ''string'')]),
               (''from'', JObject
                  [(''type'', JString ''array''),
                   (''items'', JObject [(''type'', JString ''string'')])]),
               (''steps'', JObject [(''type'', JString ''array'')]),
               (''route'', JObject
                  [(''type'', JString ''array''),
                   (''items'', JObject
                      [(''type'', JString ''object''),
                       (''required'', JArray [JString ''to'']),
                       (''properties'', JObject [(''to'', JObject [(''type'', JString ''string'')])])])])]),
           (''additionalProperties'', JBool True)])]"

definition schema_index :: json where
  "schema_index =
     JObject
      [(''type'', JString ''object''),
       (''properties'', JObject
          [(''path'', JObject [(''type'', JString ''string'')]),
           (''cold_path'', JObject [(''type'', JString ''string'')]),
           (''catalog_path'', JObject [(''type'', JString ''string'')]),
           (''retention'', JObject
              [(''type'', JString ''object''),
               (''properties'', JObject
                  [(''hot'', JObject [(''$ref'', JString ''#/$defs/duration'')]),
                   (''warm'', JObject [(''$ref'', JString ''#/$defs/duration'')]),
                   (''cold'', JObject [(''$ref'', JString ''#/$defs/duration'')])])])]),
       (''additionalProperties'', JBool True)]"

definition schema_sigma :: json where
  "schema_sigma =
     JObject
      [(''type'', JString ''object''),
       (''properties'', JObject
          [(''enabled'', JObject [(''type'', JString ''boolean'')]),
           (''rulepacks'', JObject
              [(''type'', JString ''array''),
               (''items'', JObject [(''type'', JString ''string'')])]),
           (''rules_dir'', JObject [(''type'', JString ''string'')]),
           (''outputs'', JObject
              [(''type'', JString ''object''),
               (''properties'', JObject
                  [(''file'', JObject [(''type'', JString ''string'')]),
                   (''webhook'', JObject [(''type'', JString ''string'')]),
                   (''slack'', JObject [(''type'', JString ''string'')]),
                   (''pagerduty'', JObject
                      [(''type'', JString ''object''),
                       (''required'', JArray [JString ''routing_key'']),
                       (''properties'', JObject
                          [(''routing_key'', JObject [(''type'', JString ''string'')]),
                           (''url'', JObject [(''type'', JString ''string'')])])]),
                   (''jira'', JObject
                      [(''type'', JString ''object''),
                       (''required'', JArray [JString ''url'', JString ''project'', JString ''user'', JString ''token'']),
                       (''properties'', JObject
                          [(''url'', JObject [(''type'', JString ''string'')]),
                           (''project'', JObject [(''type'', JString ''string'')]),
                           (''user'', JObject [(''type'', JString ''string'')]),
                           (''token'', JObject [(''type'', JString ''string'')]),
                           (''issue_type'', JObject [(''type'', JString ''string'')])])]),
                   (''misp'', JObject
                      [(''type'', JString ''object''),
                       (''required'', JArray [JString ''url'', JString ''api_key'']),
                       (''properties'', JObject
                          [(''url'', JObject [(''type'', JString ''string'')]),
                           (''api_key'', JObject [(''type'', JString ''string'')])])])]),
               (''additionalProperties'', JBool False)])]),
       (''additionalProperties'', JBool True)]"

definition schema_auth :: json where
  "schema_auth =
     JObject
      [(''type'', JString ''object''),
       (''properties'', JObject
          [(''enabled'', JObject [(''type'', JString ''boolean'')]),
           (''jwt_secret'', JObject [(''type'', JString ''string'')]),
           (''token_ttl_secs'', JObject [(''type'', JString ''integer''), (''minimum'', JNumber (PosInt 1))]),
           (''users'', JObject
              [(''type'', JString ''array''),
               (''items'', JObject
                  [(''type'', JString ''object''),
                   (''required'', JArray [JString ''username'']),
                   (''properties'', JObject
                      [(''username'', JObject [(''type'', JString ''string'')]),
                       (''password_hash'', JObject [(''type'', JString ''string'')]),
                       (''password'', JObject [(''type'', JString ''string'')]),
                       (''roles'', JObject
                          [(''type'', JString ''array''),
                           (''items'', JObject
                              [(''type'', JString ''string''),
                               (''enum'', JArray [JString ''viewer'', JString ''analyst'', JString ''admin''])])])])])])]),
       (''additionalProperties'', JBool True)]"

definition schema_edr :: json where
  "schema_edr =
     JObject
      [(''type'', JString ''object''),
       (''properties'', JObject
          [(''enabled'', JObject [(''type'', JString ''boolean'')]),
           (''listen'', JObject [(''type'', JString ''string'')]),
           (''tls_cert'', JObject [(''type'', JString ''string'')]),
           (''tls_key'', JObject [(''type'', JString ''string'')]),
           (''enrollment_tokens'', JObject
              [(''type'', JString ''array''),
               (''items'', JObject [(''type'', JString ''string'')])])]),
       (''additionalProperties'', JBool True)]"

definition json_schema :: json where
  "json_schema =
     JObject
      [(''$schema'', JString ''https://json-schema.org/draft/2020-12/schema''),
       (''$id'', JString ''https://sigil-siem.dev/schemas/sigil-config.v1.json''),
       (''title'', JString ''Sigil SIEM configuration''),
       (''description'', JString (''Declared state of a Sigil node (DESIGN '' @ [CHR 0xC2] @ [CHR 0xA7] @ ''13). The config file is the source of truth.'')),
       (''type'', JString ''object''),
       (''required'', JArray [JString ''version'']),
       (''properties'', JObject
         [(''version'', JObject
              [(''type'', JString ''integer''),
               (''const'', JNumber (PosInt 1)),
               (''description'', JString ''Config schema version.'')]),
          (''cluster'', schema_cluster),
          (''inputs'', schema_inputs),
          (''pipelines'', schema_pipelines),
          (''index'', schema_index),
          (''sigma'', schema_sigma),
          (''auth'', schema_auth),
          (''edr'', schema_edr),
          (''data_dir'', JObject [(''type'', JString ''string'')]),
          (''ml_sidecar'', JObject [(''type'', JString ''string'')]),
          (''detectors'', JObject
              [(''description'', JString (''Custom detectors: names or name'' @ [CHR 0xE2] @ [CHR 0x86] @ [CHR 0x92] @ ''settings maps (permissive).''))]),
          (''correlation'', JObject [(''description'', JString ''Correlation tuning (permissive; Phases 3+).'')]),
          (''plugins'', JObject
              [(''type'', JString ''array''),
               (''description'', JString ''Plugin references (permissive).'')])]),
       (''additionalProperties'', JBool False),
       (''$defs'', JObject
            [(''duration'', JObject
                [(''type'', JString ''string''),
                 (''pattern'', JString ''^[0-9]+[smhdw]$''),
                 (''description'', JString ''Duration like 90m, 12h, 7d, 2w.'')])])]"

section \<open>Reading the schema\<close>

text \<open>Following keys from a document, and the values an \<open>enum\<close> below such a path admits.\<close>

fun schema_at :: "string list \<Rightarrow> json \<Rightarrow> json option" where
  "schema_at [] v = Some v"
| "schema_at (k # ks) (JObject m) = (case map_of m k of Some v \<Rightarrow> schema_at ks v | None \<Rightarrow> None)"
| "schema_at (k # ks) _ = None"

definition enum_at :: "string list \<Rightarrow> json \<Rightarrow> string list" where
  "enum_at path v =
     (case schema_at (path @ [''enum'']) v of
        Some (JArray xs) \<Rightarrow> List.map_filter (\<lambda>x. case x of JString s \<Rightarrow> Some s | _ \<Rightarrow> None) xs
      | _ \<Rightarrow> [])"

definition cluster_path :: "string list \<Rightarrow> string list" where
  "cluster_path ks = [''properties'', ''cluster'', ''properties''] @ ks"

definition user_roles_path :: "string list" where
  "user_roles_path = [''properties'', ''auth'', ''properties'', ''users'', ''items'', ''properties'', ''roles'', ''items'']"

lemma schema_enums:
  "enum_at (cluster_path [''targets'', ''items'']) json_schema =
     [''all'', ''ingest'', ''index'', ''correlate'', ''query'', ''coordinator'']"
  "enum_at (cluster_path [''transport'', ''properties'', ''kind'']) json_schema =
     [''inproc'', ''tcp'', ''redpanda'', ''nats'']"
  "enum_at (cluster_path [''object_store'', ''properties'', ''kind'']) json_schema = [''local'', ''s3'']"
  "enum_at user_roles_path json_schema = [''viewer'', ''analyst'', ''admin'']"
  by (simp_all add: enum_at_def cluster_path_def user_roles_path_def json_schema_def schema_cluster_def schema_auth_def
      List.map_filter_simps)

lemma access_names: "range access_as_str = {''viewer'', ''analyst'', ''admin''}"
proof -
  have "range access_as_str \<subseteq> {''viewer'', ''analyst'', ''admin''}"
  proof
    fix x assume "x \<in> range access_as_str"
    then obtain r where "x = access_as_str r" by blast
    then show "x \<in> {''viewer'', ''analyst'', ''admin''}" by (cases r) simp_all
  qed
  then show ?thesis using access_as_str.simps[symmetric] by (metis (no_types, lifting) empty_subsetI insert_subset rangeI subset_antisym)
qed

lemma transport_names:
  "map transport_parse [''inproc'', ''tcp'', ''redpanda'', ''nats''] = map Some [Inproc, Tcp, Redpanda, Nats]"
  by (simp add: transport_parse_def string_eval)

text \<open>
  The schema and the program agree on every enumeration: the cluster targets it lists are
  \<open>all\<close> and the names of the roles, its transport kinds are read as the four kinds, its user roles are
  the names of the access roles, and with the \<open>s3\<close> feature \<open>from_config\<close> takes exactly the
  object-store kinds it lists.
\<close>

theorem schema_enums_understood:
  "enum_at (cluster_path [''targets'', ''items'']) json_schema = ''all'' # map role_as_str role_all \<and>
   map transport_parse (enum_at (cluster_path [''transport'', ''properties'', ''kind'']) json_schema) =
     map Some [Inproc, Tcp, Redpanda, Nats] \<and>
   set (enum_at user_roles_path json_schema) = range access_as_str \<and>
   (k \<in> set (enum_at (cluster_path [''object_store'', ''properties'', ''kind'']) json_schema) \<longleftrightarrow>
     (\<exists>a. archive_from_config True (YMapping [(YString ''kind'', YString k), (YString ''bucket'', YString b)]) = Inr a))"
proof -
  have "set (enum_at user_roles_path json_schema) = range access_as_str"
    unfolding schema_enums access_names by (simp add: insert_commute)
  moreover have "k \<in> set (enum_at (cluster_path [''object_store'', ''properties'', ''kind'']) json_schema) \<longleftrightarrow>
      (\<exists>a. archive_from_config True (YMapping [(YString ''kind'', YString k), (YString ''bucket'', YString b)]) = Inr a)"
    unfolding schema_enums by (simp add: archive_from_config_def yaml_text_at_def)
  ultimately show ?thesis
    using transport_names unfolding schema_enums by (simp add: role_all_def)
qed

section \<open>Durations\<close>

definition duration_pattern :: "string \<Rightarrow> bool" where
  "duration_pattern s \<longleftrightarrow>
     length s > 1 \<and> list_all is_digit (butlast s) \<and> last s \<in> {CHR ''s'', CHR ''m'', CHR ''h'', CHR ''d'', CHR ''w''}"

lemma unit_char:
  assumes "u \<in> {CHR ''s'', CHR ''m'', CHR ''h'', CHR ''d'', CHR ''w''}"
  shows "\<not> is_digit u" "\<not> is_space u" "\<exists>per. per_unit [u] = Some per"
  using assms by (auto simp: is_digit_def is_space_def per_unit_def)

lemma digit_not_space: "is_digit c \<Longrightarrow> \<not> is_space c"
  by (auto simp: is_digit_def is_space_def Let_def)

lemma parse_i64_digits:
  assumes "ds \<noteq> []" "list_all is_digit ds"
  shows "parse_i64 ds = (if decimal ds < 2 ^ 63 then Some (int (decimal ds)) else None)"
proof -
  obtain c r where c: "ds = c # r" "is_digit c" using assms by (cases ds) auto
  then have "c \<noteq> CHR ''-''" "c \<noteq> CHR ''+''" by (auto simp: is_digit_def)
  then show ?thesis using assms c(1) by (auto simp: parse_i64_def parse_unsigned_def Let_def)
qed

lemma schema_durations_eq:
  assumes "duration_pattern s"
  shows "parse_duration_micros s =
    (if decimal (butlast s) < 2 ^ 63
     then Some (wrap64 (int (decimal (butlast s)) * the (per_unit [last s]))) else None)"
proof -
  obtain ds u where s: "s = ds @ [u]" "ds \<noteq> []" "list_all is_digit ds"
    "u \<in> {CHR ''s'', CHR ''m'', CHR ''h'', CHR ''d'', CHR ''w''}"
    using assms by (cases s rule: rev_cases) (auto simp: duration_pattern_def)
  note u = unit_char[OF s(4)]
  have "\<not> is_space (hd s)" using s(2,3) digit_not_space by (cases ds) (auto simp: s(1))
  then have t: "trim s = s" using u(2) by (intro trim_noop) (simp add: s(1))
  have split: "takeWhile is_digit s = ds" "dropWhile is_digit s = [u]"
    using s(3) u(1) by (simp_all add: s(1) list_all_iff takeWhile_append dropWhile_append)
  obtain per where per: "per_unit [u] = Some per" using u(3) by blast
  have ends: "butlast s = ds" "last s = u" by (simp_all add: s(1))
  show ?thesis
    unfolding parse_duration_micros_def t Let_def split ends parse_i64_digits[OF s(2,3)] per by simp
qed

text \<open>
  A retention of the shape the schema admits is understood unless its number does not fit in an
  \<open>i64\<close>, and then it is that number of units, wrapped to 64 bits.
\<close>

theorem schema_durations:
  assumes "duration_pattern s"
  shows "parse_duration_micros s =
    (if decimal (butlast s) < 2 ^ 63
     then Some (wrap64 (int (decimal (butlast s)) * the (per_unit [last s]))) else None)"
  by (rule schema_durations_eq[OF assms])

theorem schema_durations_witness:
  "duration_pattern ''7d'' \<and> parse_duration_micros ''7d'' = Some (7 * 86400 * 1000000)"
proof -
  have p: "duration_pattern ''7d''" by (simp add: duration_pattern_def is_digit_def)
  with schema_durations[OF p] show ?thesis
    by (simp add: decimal_def digit_val_def per_unit_def wrap64_def)
qed

text \<open>Two retentions of that shape that mean something else: one that is ignored and one that is negative.\<close>

lemma odd_retentions:
  "duration_pattern ''9300000000000000000d''" "parse_duration_micros ''9300000000000000000d'' = None"
  "duration_pattern ''16000000w''" "parse_duration_micros ''16000000w'' = Some (- 8769944073709551616)"
proof -
  show p: "duration_pattern ''9300000000000000000d''" "duration_pattern ''16000000w''"
    by (simp_all add: duration_pattern_def is_digit_def)
  show "parse_duration_micros ''9300000000000000000d'' = None"
    unfolding schema_durations_eq[OF p(1)] by (simp add: decimal_def digit_val_def)
  show "parse_duration_micros ''16000000w'' = Some (- 8769944073709551616)"
    unfolding schema_durations_eq[OF p(2)] by (simp add: decimal_def digit_val_def per_unit_def wrap64_def)
qed

end
