(* ===== verification/Index_Search.thy ===== *)
theory Index_Search
  imports Node_Pipeline
begin

text \<open>
  The hot index of \<open>crates/sigil-index/src/lib.rs\<close> in full: its fields, the document of an event and
  the search. Tantivy's query language and its collector of top documents and the JSON text of an
  event are parameters. \<open>Node_Pipeline\<close> keeps the events themselves: the lemmas below relate the two.
\<close>

section \<open>Documents\<close>

datatype hot_field = RawText | TokenText | StoredText | FastI64 | FastU64

definition hot_schema :: "(string \<times> hot_field) list" where
  "hot_schema =
     [(''id'', RawText), (''ts'', FastI64), (''ocsf_class'', FastU64), (''severity'', FastU64), (''tenant'', RawText),
      (''host'', RawText), (''actor'', TokenText), (''target'', TokenText), (''message'', TokenText),
      (''event_json'', StoredText)]"

datatype hot_value = HText string | HI64 int | HU64 nat

type_synonym hot_doc = "(string \<times> hot_value) list"

record search_env =
  sr_show :: "event \<Rightarrow> string result"
  sr_read :: "string \<Rightarrow> event result"
  sr_parse :: "string list \<Rightarrow> string \<Rightarrow> string + (hot_doc \<Rightarrow> bool)"
  sr_top :: "nat \<Rightarrow> string \<Rightarrow> (hot_doc \<Rightarrow> bool) \<Rightarrow> hot_doc list \<Rightarrow> hot_doc list"

definition optional_text :: "string \<Rightarrow> string option \<Rightarrow> hot_doc" where
  "optional_text name v = (case v of Some s \<Rightarrow> [(name, HText s)] | None \<Rightarrow> [])"

definition event_doc :: "search_env \<Rightarrow> event \<Rightarrow> hot_doc result" where
  "event_doc E ev =
     and_then (sr_show E ev) (\<lambda>json. Inr
       ([(''id'', HText (ev_id ev)), (''ts'', HI64 (ev_ts ev)), (''ocsf_class'', HU64 (unat (uid (ev_class ev)))),
         (''severity'', HU64 (unat (severity_id (ev_severity ev)))), (''tenant'', HText (ev_tenant ev))] @
        optional_text ''host'' (map_option er_id (ev_host ev)) @
        optional_text ''actor'' (map_option er_id (ev_actor ev)) @
        optional_text ''target'' (map_option er_id (ev_target ev)) @
        [(''message'', HText (ev_message ev)), (''event_json'', HText json)]))"

section \<open>The index\<close>

record hot_index =
  hx_docs :: "hot_doc list"
  hx_pending :: "hot_doc list"

definition hot_open :: hot_index where
  "hot_open = \<lparr>hx_docs = [], hx_pending = []\<rparr>"

definition hot_add :: "search_env \<Rightarrow> event \<Rightarrow> hot_index \<Rightarrow> hot_index result" where
  "hot_add E ev x = and_then (event_doc E ev) (\<lambda>d. Inr (x\<lparr>hx_pending := hx_pending x @ [d]\<rparr>))"

definition hot_commit :: "hot_index \<Rightarrow> hot_index" where
  "hot_commit x = \<lparr>hx_docs = hx_docs x @ hx_pending x, hx_pending = []\<rparr>"

text \<open>A failing document ends the batch; what was added before it stays in the writer.\<close>

fun hot_add_all :: "search_env \<Rightarrow> event list \<Rightarrow> hot_index \<Rightarrow> hot_index \<times> error option" where
  "hot_add_all E [] x = (x, None)"
| "hot_add_all E (ev # evs) x =
     (case hot_add E ev x of Inl e \<Rightarrow> (x, Some e) | Inr x' \<Rightarrow> hot_add_all E evs x')"

definition hot_index_events :: "search_env \<Rightarrow> event list \<Rightarrow> hot_index \<Rightarrow> hot_index \<times> error option" where
  "hot_index_events E evs x =
     (if evs = [] then (x, None)
      else case hot_add_all E evs x of
             (x', Some e) \<Rightarrow> (x', Some e)
           | (x', None) \<Rightarrow> (hot_commit x', None))"

definition hot_count :: "hot_index \<Rightarrow> nat" where
  "hot_count x = length (hx_docs x)"

record search_query =
  sq_text :: string
  sq_limit :: nat

definition search_query_default :: search_query where
  "search_query_default = \<lparr>sq_text = [], sq_limit = 50\<rparr>"

definition stored_event :: "search_env \<Rightarrow> hot_doc \<Rightarrow> event result" where
  "stored_event E d =
     (case map_of d ''event_json'' of Some (HText json) \<Rightarrow> sr_read E json | _ \<Rightarrow> Inl (Backend ''stored event_json missing''))"

definition query_matches :: "search_env \<Rightarrow> string \<Rightarrow> (hot_doc \<Rightarrow> bool) result" where
  "query_matches E text =
     (if trim text = [] then Inr (\<lambda>_. True)
      else case sr_parse E [''message'', ''host'', ''actor'', ''target''] text of
             Inl e \<Rightarrow> Inl (Parse (''query `'' @ text @ ''`: '' @ e))
           | Inr f \<Rightarrow> Inr f)"

definition hot_search :: "search_env \<Rightarrow> search_query \<Rightarrow> hot_index \<Rightarrow> event list result" where
  "hot_search E q x =
     and_then (query_matches E (sq_text q)) (\<lambda>f.
       collect_results (stored_event E) (sr_top E (max (sq_limit q) 1) ''ts'' f (hx_docs x)))"

section \<open>The index of the pipeline\<close>

text \<open>Writing the JSON of an event succeeds and reading it gives the event back.\<close>

definition shown :: "search_env \<Rightarrow> event \<Rightarrow> bool" where
  "shown E ev \<longleftrightarrow> (\<exists>json. sr_show E ev = Inr json \<and> sr_read E json = Inr ev)"

text \<open>
  The documentation of \<open>TopDocs\<close> ordered by a fast field: for a limit of at least one (it panics at zero)
  the best matching documents, largest values first, ties in any order.
\<close>

definition fast_i64 :: "string \<Rightarrow> hot_doc \<Rightarrow> int" where
  "fast_i64 field d = (case map_of d field of Some (HI64 t) \<Rightarrow> t | _ \<Rightarrow> 0)"

definition best :: "nat \<Rightarrow> ('a \<Rightarrow> int) \<Rightarrow> 'a list \<Rightarrow> 'a list \<Rightarrow> bool" where
  "best k key xs out \<longleftrightarrow> (\<exists>rest. mset (out @ rest) = mset xs \<and> sorted_wrt (\<lambda>a b. key b \<le> key a) out \<and>
     (\<forall>a \<in> set out. \<forall>b \<in> set rest. key b \<le> key a) \<and> length out = min k (length xs))"

definition collector_ok :: "search_env \<Rightarrow> bool" where
  "collector_ok E \<longleftrightarrow> (\<forall>k field f docs. 1 \<le> k \<longrightarrow> best k (fast_i64 field) (filter f docs) (sr_top E k field f docs))"

definition doc_of :: "search_env \<Rightarrow> event \<Rightarrow> hot_doc" where
  "doc_of E ev = (case event_doc E ev of Inr d \<Rightarrow> d | Inl _ \<Rightarrow> [])"

definition hot_of :: "search_env \<Rightarrow> event_index \<Rightarrow> hot_index" where
  "hot_of E x = \<lparr>hx_docs = map (doc_of E) (ei_docs x), hx_pending = map (doc_of E) (ei_writer x)\<rparr>"

lemma event_doc_ok:
  assumes "shown E ev"
  shows "event_doc E ev = Inr (doc_of E ev)" "stored_event E (doc_of E ev) = Inr ev" "fast_i64 ''ts'' (doc_of E ev) = ev_ts ev"
proof -
  obtain json where "sr_show E ev = Inr json" "sr_read E json = Inr ev" using assms by (auto simp: shown_def)
  then show "event_doc E ev = Inr (doc_of E ev)" "stored_event E (doc_of E ev) = Inr ev" "fast_i64 ''ts'' (doc_of E ev) = ev_ts ev"
    by (auto simp: doc_of_def event_doc_def stored_event_def fast_i64_def optional_text_def map_of_append split: option.split)
qed

lemma hot_add_of: "shown E ev \<Longrightarrow> hot_add E ev (hot_of E x) = Inr (hot_of E (index_add ev x))"
  by (simp add: hot_add_def event_doc_ok(1) hot_of_def index_add_def)

lemma hot_add_all_of:
  "list_all (shown E) evs \<Longrightarrow> hot_add_all E evs (hot_of E x) = (hot_of E (fold index_add evs x), None)"
  by (induction evs arbitrary: x) (simp_all add: hot_add_of)

text \<open>Every operation of the index does to documents what the pipeline's index does to events.\<close>

lemma hot_refines:
  "hot_open = hot_of E index_open"
  "hot_commit (hot_of E x) = hot_of E (index_commit x)"
  "list_all (shown E) evs \<Longrightarrow> hot_index_events E evs (hot_of E x) = (hot_of E (index_events evs x), None)"
  "hot_count (hot_of E x) = index_count x"
proof -
  show c: "hot_commit (hot_of E x) = hot_of E (index_commit x)" for x
    by (simp add: hot_commit_def hot_of_def index_commit_def)
  show "list_all (shown E) evs \<Longrightarrow> hot_index_events E evs (hot_of E x) = (hot_of E (index_events evs x), None)"
    by (simp add: hot_index_events_def index_events_def hot_add_all_of c)
qed (simp_all add: hot_open_def hot_of_def index_open_def hot_count_def index_count_def)

section \<open>What a search returns\<close>

lemma best_map:
  assumes "best k key (map g xs) out" "\<And>x. x \<in> set xs \<Longrightarrow> h (g x) = x" "\<And>x. x \<in> set xs \<Longrightarrow> key (g x) = key' x"
  shows "best k key' xs (map h out) \<and> out = map g (map h out) \<and> set (map h out) \<subseteq> set xs"
proof -
  obtain rest where r: "mset (out @ rest) = mset (map g xs)" "sorted_wrt (\<lambda>a b. key b \<le> key a) out"
    "\<forall>a \<in> set out. \<forall>b \<in> set rest. key b \<le> key a" "length out = min k (length xs)"
    using assms(1) by (auto simp: best_def)
  have sub: "set (out @ rest) = g ` set xs" using r(1) by (metis list.set_map mset_eq_setD)
  have inv: "h x \<in> set xs \<and> g (h x) = x \<and> key' (h x) = key x" if "x \<in> set (out @ rest)" for x
  proof -
    from that sub obtain y where "x = g y" "y \<in> set xs" by auto
    with assms(2,3) show ?thesis by simp
  qed
  have "mset (map h out @ map h rest) = mset (map h (map g xs))" 
    using arg_cong [OF r(1), of "image_mset h"] by (simp add: multiset.map_comp)
  moreover have "map h (map g xs) = xs" unfolding map_map by (rule map_idI) (simp add: assms(2))
  moreover have "sorted_wrt (\<lambda>a b. key' b \<le> key' a) (map h out)"
    using inv by (auto simp: sorted_wrt_map intro!: sorted_wrt_mono_rel [OF _ r(2)])
  moreover have "\<forall>a \<in> set (map h out). \<forall>b \<in> set (map h rest). key' b \<le> key' a" using r(3) inv by simp
  ultimately have "best k key' xs (map h out)" unfolding best_def using r(4) by (intro exI [of _ "map h rest"]) (simp only: length_map)
  moreover have "out = map g (map h out)" using inv by (simp add: map_idI)
  ultimately show ?thesis using inv by auto
qed

text \<open>
  A search returns indexed events that match, newest first, as many as the limit allows (at least
  one), and what it leaves out of the matching events is not newer than what it returns; only a query
  that does not parse makes it fail.
\<close>

theorem search_newest:
  assumes "collector_ok E" and "list_all (shown E) (ei_docs x)"
  shows "case query_matches E (sq_text q) of
      Inl e \<Rightarrow> hot_search E q (hot_of E x) = Inl e
    | Inr f \<Rightarrow> (\<exists>out. hot_search E q (hot_of E x) = Inr out \<and>
        best (max (sq_limit q) 1) ev_ts (filter (\<lambda>ev. f (doc_of E ev)) (ei_docs x)) out)"
proof (cases "query_matches E (sq_text q)")
  case (Inl e)
  then show ?thesis by (simp add: hot_search_def)
next
  case (Inr f)
  let ?k = "max (sq_limit q) 1" and ?xs = "filter (\<lambda>ev. f (doc_of E ev)) (ei_docs x)"
  let ?h = "\<lambda>d. case stored_event E d of Inr ev \<Rightarrow> ev"
  let ?out = "sr_top E ?k ''ts'' f (map (doc_of E) (ei_docs x))"
  have ok: "ev \<in> set ?xs \<Longrightarrow> shown E ev" for ev using assms(2) by (simp add: list_all_iff)
  have "best ?k (fast_i64 ''ts'') (map (doc_of E) ?xs) ?out"
    using assms(1) [unfolded collector_ok_def, rule_format, of ?k "''ts''" f "map (doc_of E) (ei_docs x)"]
    by (simp add: filter_map comp_def)
  from best_map [OF this, of ?h ev_ts] ok have b: "best ?k ev_ts ?xs (map ?h ?out)"
    "?out = map (doc_of E) (map ?h ?out)" "set (map ?h ?out) \<subseteq> set ?xs"
    by (auto simp: event_doc_ok)
  have read: "list_all (shown E) zs \<Longrightarrow> collect_results (stored_event E) (map (doc_of E) zs) = Inr zs" for zs
    by (induction zs) (simp_all add: event_doc_ok(2))
  have "list_all (shown E) (map ?h ?out)" unfolding list_all_iff using b(3) ok by blast
  from read [OF this] b(2) have "collect_results (stored_event E) ?out = Inr (map ?h ?out)" by simp
  with b(1) show ?thesis by (auto simp: Inr hot_search_def hot_of_def)
qed

end
